(* ===== verification/Prelude.thy ===== *)
theory Prelude
  imports Main "HOL-Library.Word"
begin

text \<open>
  Shared vocabulary of the development: machine integers, results (\<open>Inl\<close> an error, \<open>Inr\<close> a
  value) with their sequencing, Rust's \<open>IndexMap\<close> as the list of its entries in insertion order,
  and the generic lemmas about them that the component theories use through the collections
  \<open>res_simps\<close> and \<open>imap_simps\<close>.
\<close>

named_theorems res_simps "sequencing of fallible computations"
named_theorems imap_simps "lookups in insertion-ordered maps after an update"

type_synonym u64 = "64 word"
type_synonym usize = "64 word"


subsection \<open>Results and the question mark operator\<close>

type_synonym ('e, 'a) result = "'e + 'a"

text \<open>\<open>bind_res r f\<close> is \<open>f(r?)\<close>: an error ends the enclosing function early.\<close>

definition bind_res :: "('e, 'a) result \<Rightarrow> ('a \<Rightarrow> ('e, 'b) result) \<Rightarrow> ('e, 'b) result" where
  "bind_res r f = (case r of Inl e \<Rightarrow> Inl e | Inr x \<Rightarrow> f x)"

fun is_ok :: "('e, 'a) result \<Rightarrow> bool" where
  "is_ok (Inl _) = False"
| "is_ok (Inr _) = True"

definition ok_or :: "'e \<Rightarrow> 'a option \<Rightarrow> ('e, 'a) result" where
  "ok_or e x = (case x of None \<Rightarrow> Inl e | Some v \<Rightarrow> Inr v)"

fun map_err :: "('e \<Rightarrow> 'f) \<Rightarrow> ('e, 'a) result \<Rightarrow> ('f, 'a) result" where
  "map_err f (Inl e) = Inl (f e)"
| "map_err f (Inr x) = Inr x"

text \<open>\<open>collect f xs\<close> is \<open>xs.iter().map(f).collect::<Result<Vec<_>>>()\<close>: the first error wins.\<close>

fun collect_res :: "('a \<Rightarrow> ('e, 'b) result) \<Rightarrow> 'a list \<Rightarrow> ('e, 'b list) result" where
  "collect_res f [] = Inr []"
| "collect_res f (x # xs) =
     bind_res (f x) (\<lambda>y. bind_res (collect_res f xs) (\<lambda>ys. Inr (y # ys)))"

lemma bind_res_simps [simp, res_simps]:
  "bind_res (Inl e) f = Inl e"
  "bind_res (Inr x) f = f x"
  by (simp_all add: bind_res_def)

lemma bind_res_eq_Inr [res_simps]:
  "bind_res r f = Inr y \<longleftrightarrow> (\<exists>x. r = Inr x \<and> f x = Inr y)"
  by (cases r) auto

lemma bind_res_eq_Inl [res_simps]:
  "bind_res r f = Inl e \<longleftrightarrow> r = Inl e \<or> (\<exists>x. r = Inr x \<and> f x = Inl e)"
  by (cases r) auto

lemma bind_res_cong [fundef_cong]:
  "r = r' \<Longrightarrow> (\<And>x. r' = Inr x \<Longrightarrow> f x = g x) \<Longrightarrow> bind_res r f = bind_res r' g"
  by (cases r') auto

lemma is_ok_iff: "is_ok r \<longleftrightarrow> (\<exists>x. r = Inr x)"
  by (cases r) auto

lemma map_err_eq_Inr [res_simps]: "map_err f r = Inr x \<longleftrightarrow> r = Inr x"
  by (cases r) auto

lemma map_err_eq_Inl [res_simps]: "map_err f r = Inl e \<longleftrightarrow> (\<exists>e'. r = Inl e' \<and> e = f e')"
  by (cases r) auto

lemma collect_res_Inr_iff:
  "collect_res f xs = Inr ys \<longleftrightarrow> list_all2 (\<lambda>x y. f x = Inr y) xs ys"
  by (induction xs arbitrary: ys) (auto simp: res_simps list_all2_Cons1)

lemma collect_res_map: "(\<And>x. x \<in> set xs \<Longrightarrow> f x = Inr (g x)) \<Longrightarrow> collect_res f xs = Inr (map g xs)"
  by (induction xs) auto


subsection \<open>Fallible state transformers\<close>

text \<open>
  A method on \<open>&mut self\<close> that returns a \<open>Result\<close>: an early return keeps the changes made so far.
\<close>

type_synonym ('s, 'e, 'a) st = "'s \<Rightarrow> ('e, 'a) result \<times> 's"

definition return_st :: "'a \<Rightarrow> ('s, 'e, 'a) st" where
  "return_st x = (\<lambda>s. (Inr x, s))"

definition lift_res :: "('e, 'a) result \<Rightarrow> ('s, 'e, 'a) st" where
  "lift_res r = (\<lambda>s. (r, s))"

definition bind_st :: "('s, 'e, 'a) st \<Rightarrow> ('a \<Rightarrow> ('s, 'e, 'b) st) \<Rightarrow> ('s, 'e, 'b) st" where
  "bind_st m f = (\<lambda>s. case m s of (Inl e, s') \<Rightarrow> (Inl e, s') | (Inr x, s') \<Rightarrow> f x s')"

definition modify_st :: "('s \<Rightarrow> 's) \<Rightarrow> ('s, 'e, unit) st" where
  "modify_st f = (\<lambda>s. (Inr (), f s))"

text \<open>A method of one part of a pair of states.\<close>

definition on_fst :: "('a, 'e, 'x) st \<Rightarrow> ('a \<times> 'b, 'e, 'x) st" where
  "on_fst m = (\<lambda>(a, b). case m a of (r, a') \<Rightarrow> (r, (a', b)))"

definition on_snd :: "('b, 'e, 'x) st \<Rightarrow> ('a \<times> 'b, 'e, 'x) st" where
  "on_snd m = (\<lambda>(a, b). case m b of (r, b') \<Rightarrow> (r, (a, b')))"

lemma bind_st_eq_Inr [res_simps]:
  "bind_st m f s = (Inr y, t) \<longleftrightarrow> (\<exists>x u. m s = (Inr x, u) \<and> f x u = (Inr y, t))"
  by (auto simp: bind_st_def split: prod.splits sum.splits)

lemma bind_st_eq_Inl [res_simps]:
  "bind_st m f s = (Inl e, t) \<longleftrightarrow> m s = (Inl e, t) \<or> (\<exists>x u. m s = (Inr x, u) \<and> f x u = (Inl e, t))"
  by (auto simp: bind_st_def split: prod.splits sum.splits)

lemma basic_st [simp, res_simps]:
  "return_st x s = (Inr x, s)"
  "lift_res r s = (r, s)"
  "modify_st f s = (Inr (), f s)"
  by (simp_all add: return_st_def lift_res_def modify_st_def)

lemma on_fst_eq [res_simps]: "on_fst m (a, b) = (r, c) \<longleftrightarrow> (\<exists>a'. m a = (r, a') \<and> c = (a', b))"
  by (auto simp: on_fst_def split: prod.splits)

lemma on_snd_eq [res_simps]: "on_snd m (a, b) = (r, c) \<longleftrightarrow> (\<exists>b'. m b = (r, b') \<and> c = (a, b'))"
  by (auto simp: on_snd_def split: prod.splits)

text \<open>What a transformer guarantees of every state it ends in, whether it succeeds or not.\<close>

definition st_post :: "('s, 'e, 'a) st \<Rightarrow> 's \<Rightarrow> (('e, 'a) result \<Rightarrow> 's \<Rightarrow> bool) \<Rightarrow> bool" where
  "st_post m s Q \<longleftrightarrow> (case m s of (r, t) \<Rightarrow> Q r t)"

lemma st_postI: "(\<And>r t. m s = (r, t) \<Longrightarrow> Q r t) \<Longrightarrow> st_post m s Q"
  by (cases "m s") (simp add: st_post_def)

lemma st_post_bind:
  assumes "st_post m s (\<lambda>r t. case r of Inl e \<Rightarrow> Q (Inl e) t | Inr x \<Rightarrow> st_post (f x) t Q)"
  shows "st_post (bind_st m f) s Q"
  using assms by (auto simp: st_post_def bind_st_def split: prod.splits sum.splits)


subsection \<open>Searching lists and options\<close>

text \<open>How a claim about the value of an option is evaluated.\<close>

lemma ex_Some_code:
  "(\<exists>a. x = Some a \<and> P a) \<longleftrightarrow> (case x of None \<Rightarrow> False | Some a \<Rightarrow> P a)"
  by (auto split: option.splits)

lemma find_SomeD: "find P xs = Some x \<Longrightarrow> x \<in> set xs \<and> P x"
  by (auto simp: find_Some_iff)

lemma find_map: "find P (map f xs) = map_option f (find (P \<circ> f) xs)"
  by (induction xs) auto

lemma find_conv_nth: "find P xs = map_option (\<lambda>i. xs ! i) (find (\<lambda>i. P (xs ! i)) [0..<length xs])"
proof -
  have "find P (map (\<lambda>i. xs ! i) [0..<length xs]) =
      map_option (\<lambda>i. xs ! i) (find (\<lambda>i. P (xs ! i)) [0..<length xs])"
    by (simp only: find_map comp_def)
  then show ?thesis by (simp only: map_nth)
qed


subsection \<open>ASCII text\<close>

text \<open>\<open>to_ascii_uppercase\<close> and \<open>to_ascii_lowercase\<close> of a character.\<close>

definition upper_char :: "char \<Rightarrow> char" where
  "upper_char c = (if 97 \<le> (of_char c :: nat) \<and> (of_char c :: nat) \<le> 122 then char_of ((of_char c :: nat) - 32) else c)"

definition lower_char :: "char \<Rightarrow> char" where
  "lower_char c = (if 65 \<le> (of_char c :: nat) \<and> (of_char c :: nat) \<le> 90 then char_of ((of_char c :: nat) + 32) else c)"

abbreviation to_ascii_uppercase :: "string \<Rightarrow> string" where
  "to_ascii_uppercase s \<equiv> map upper_char s"

abbreviation to_ascii_lowercase :: "string \<Rightarrow> string" where
  "to_ascii_lowercase s \<equiv> map lower_char s"

subsection \<open>Decimal numbers\<close>

fun show_nat :: "nat \<Rightarrow> string" where
  "show_nat n = (if n < 10 then [char_of (48 + n)] else show_nat (n div 10) @ [char_of (48 + n mod 10)])"

declare show_nat.simps [simp del]

text \<open>Reading the digits back.\<close>

definition read_nat :: "string \<Rightarrow> nat" where
  "read_nat s = foldl (\<lambda>n c. 10 * n + (of_char c - 48)) 0 s"

lemma read_show_nat [simp]: "read_nat (show_nat n) = n"
proof (induction n rule: show_nat.induct)
  case (1 n)
  have digit: "of_char (char_of (48 + d) :: char) = 48 + d" if "d < 10" for d :: nat
    using that by simp
  show ?case
  proof (cases "n < 10")
    case True
    then show ?thesis by (subst show_nat.simps) (simp add: read_nat_def)
  next
    case False
    have "read_nat (show_nat (n div 10) @ [char_of (48 + n mod 10)]) = 10 * read_nat (show_nat (n div 10)) + n mod 10"
      using digit [of "n mod 10"] by (simp add: read_nat_def)
    with False 1 show ?thesis by (subst show_nat.simps) simp
  qed
qed


subsection \<open>Insertion-ordered maps\<close>

text \<open>
  An \<open>IndexMap<K, V>\<close> is the sequence of its entries, oldest first, with distinct keys.
  \<open>insert\<close> replaces the value of a present key in place and appends a new one,
  \<open>entry(k).and_modify(f).or_insert(v)\<close> is \<open>imap_upsert\<close>, \<open>get_mut\<close> with an assignment is
  \<open>imap_modify\<close>, \<open>shift_remove\<close> keeps the order of the other entries, \<open>retain\<close> filters.
\<close>

type_synonym ('k, 'v) imap = "('k \<times> 'v) list"

definition imap_wf :: "('k, 'v) imap \<Rightarrow> bool" where
  "imap_wf m \<longleftrightarrow> distinct (map fst m)"

abbreviation imap_get :: "('k, 'v) imap \<Rightarrow> 'k \<Rightarrow> 'v option" where
  "imap_get m k \<equiv> map_of m k"

definition imap_modify :: "'k \<Rightarrow> ('v \<Rightarrow> 'v) \<Rightarrow> ('k, 'v) imap \<Rightarrow> ('k, 'v) imap" where
  "imap_modify k f m = map (\<lambda>(k', v). (k', if k' = k then f v else v)) m"

definition imap_upsert :: "'k \<Rightarrow> ('v \<Rightarrow> 'v) \<Rightarrow> 'v \<Rightarrow> ('k, 'v) imap \<Rightarrow> ('k, 'v) imap" where
  "imap_upsert k f v m = (if imap_get m k = None then m @ [(k, v)] else imap_modify k f m)"

definition imap_insert :: "'k \<Rightarrow> 'v \<Rightarrow> ('k, 'v) imap \<Rightarrow> ('k, 'v) imap" where
  "imap_insert k v m = imap_upsert k (\<lambda>_. v) v m"

definition imap_shift_remove :: "'k \<Rightarrow> ('k, 'v) imap \<Rightarrow> ('k, 'v) imap" where
  "imap_shift_remove k m = filter (\<lambda>(k', _). k' \<noteq> k) m"

definition imap_first :: "('k, 'v) imap \<Rightarrow> ('k \<times> 'v) option" where
  "imap_first m = (case m of [] \<Rightarrow> None | e # _ \<Rightarrow> Some e)"

definition imap_last :: "('k, 'v) imap \<Rightarrow> ('k \<times> 'v) option" where
  "imap_last m = (if m = [] then None else Some (last m))"

lemma map_fst_imap_modify [simp]: "map fst (imap_modify k f m) = map fst m"
  by (auto simp: imap_modify_def)

lemma imap_get_modify [imap_simps]:
  "imap_get (imap_modify k f m) k' = (if k' = k then map_option f (imap_get m k) else imap_get m k')"
  by (induction m) (auto simp: imap_modify_def)

lemma imap_get_upsert [imap_simps]:
  "imap_get (imap_upsert k f v m) k' =
     (if k' = k then Some (case imap_get m k of None \<Rightarrow> v | Some x \<Rightarrow> f x) else imap_get m k')"
  by (auto simp: imap_upsert_def imap_simps map_add_def split: option.splits)

lemma imap_get_insert [imap_simps]:
  "imap_get (imap_insert k v m) k' = (if k' = k then Some v else imap_get m k')"
  by (auto simp: imap_insert_def imap_simps split: option.splits)

lemma imap_get_shift_remove [imap_simps]:
  "imap_get (imap_shift_remove k m) k' = (if k' = k then None else imap_get m k')"
  by (induction m) (auto simp: imap_shift_remove_def)

lemma imap_wf_Nil [simp]: "imap_wf []"
  by (simp add: imap_wf_def)

lemma imap_wf_modify [simp]: "imap_wf (imap_modify k f m) = imap_wf m"
  by (simp add: imap_wf_def)

lemma imap_wf_upsert [simp]: "imap_wf m \<Longrightarrow> imap_wf (imap_upsert k f v m)"
  by (auto simp: imap_upsert_def imap_wf_def map_of_eq_None_iff)

lemma imap_wf_insert [simp]: "imap_wf m \<Longrightarrow> imap_wf (imap_insert k v m)"
  by (simp add: imap_insert_def)

lemma imap_wf_filter: "imap_wf m \<Longrightarrow> imap_wf (filter P m)"
  by (auto simp: imap_wf_def distinct_map_filter)

lemma imap_wf_shift_remove [simp]: "imap_wf m \<Longrightarrow> imap_wf (imap_shift_remove k m)"
  by (simp add: imap_shift_remove_def imap_wf_filter)

lemma imap_get_iff_mem: "imap_wf m \<Longrightarrow> imap_get m k = Some v \<longleftrightarrow> (k, v) \<in> set m"
  by (simp add: imap_wf_def)

lemma imap_get_filter:
  "imap_wf m \<Longrightarrow> imap_get (filter (\<lambda>(k, _). P k) m) k = (if P k then imap_get m k else None)"
  by (induction m) (auto simp: imap_wf_def)

lemma set_imap_shift_remove [simp]:
  "set (imap_shift_remove k m) = {e \<in> set m. fst e \<noteq> k}"
  by (auto simp: imap_shift_remove_def)

lemma length_imap_shift_remove:
  "imap_get m k = Some v \<Longrightarrow> length (imap_shift_remove k m) < length m"
  unfolding imap_shift_remove_def
  by (rule length_filter_less [where x = "(k, v)"]) (auto dest: map_of_SomeD)

text \<open>Sums over the entries, used for the size accounting of the sync writer.\<close>

definition imap_sum :: "('v \<Rightarrow> 'n::comm_monoid_add) \<Rightarrow> ('k, 'v) imap \<Rightarrow> 'n" where
  "imap_sum f m = sum_list (map (f \<circ> snd) m)"

lemma imap_sum_Nil [simp]: "imap_sum f [] = 0"
  by (simp add: imap_sum_def)

lemma imap_sum_Cons [simp]: "imap_sum f ((k, v) # m) = f v + imap_sum f m"
  by (simp add: imap_sum_def)

lemma imap_sum_append [simp]: "imap_sum f (m @ m') = imap_sum f m + imap_sum f m'"
  by (simp add: imap_sum_def)

lemma imap_modify_absent: "imap_get m k = None \<Longrightarrow> imap_modify k f m = m"
  by (induction m) (auto simp: imap_modify_def split: if_splits)

lemma imap_shift_remove_absent: "imap_get m k = None \<Longrightarrow> imap_shift_remove k m = m"
  by (induction m) (auto simp: imap_shift_remove_def split: if_splits)

lemma imap_sum_modify:
  fixes f :: "'v \<Rightarrow> 'n::comm_monoid_add"
  assumes "imap_wf m" and "imap_get m k = Some v" and "f (g v) = f v + d"
  shows "imap_sum f (imap_modify k g m) = imap_sum f m + d"
  using assms
proof (induction m)
  case Nil
  then show ?case by simp
next
  case (Cons e m)
  obtain k' v' where e: "e = (k', v')" by (cases e)
  have wf: "imap_wf m" using Cons.prems(1) by (simp add: imap_wf_def)
  show ?case
  proof (cases "k' = k")
    case True
    with Cons.prems(1) e have "imap_get m k = None"
      by (auto simp: imap_wf_def map_of_eq_None_iff)
    then have "map (\<lambda>(k', v). (k', if k' = k then g v else v)) m = m"
      using imap_modify_absent [of m k g] by (simp add: imap_modify_def)
    with True Cons.prems e show ?thesis
      by (simp add: imap_modify_def add_ac)
  next
    case False
    with Cons.prems e have "imap_get m k = Some v" by simp
    with Cons.IH wf Cons.prems(3)
    have "imap_sum f (imap_modify k g m) = imap_sum f m + d" by blast
    with False e show ?thesis by (simp add: imap_modify_def add_ac)
  qed
qed

lemma imap_sum_shift_remove:
  fixes f :: "'v \<Rightarrow> 'n::ab_group_add"
  assumes "imap_wf m" and "imap_get m k = Some v"
  shows "imap_sum f (imap_shift_remove k m) = imap_sum f m - f v"
  using assms
proof (induction m)
  case Nil
  then show ?case by simp
next
  case (Cons e m)
  obtain k' v' where e: "e = (k', v')" by (cases e)
  have wf: "imap_wf m" using Cons.prems(1) by (simp add: imap_wf_def)
  show ?case
  proof (cases "k' = k")
    case True
    with Cons.prems(1) e have "imap_get m k = None"
      by (auto simp: imap_wf_def map_of_eq_None_iff)
    then have "filter (\<lambda>(k', _). k' \<noteq> k) m = m"
      using imap_shift_remove_absent [of m k] by (simp add: imap_shift_remove_def)
    with True Cons.prems e show ?thesis by (simp add: imap_shift_remove_def)
  next
    case False
    with Cons.prems e have "imap_get m k = Some v" by simp
    with Cons.IH wf have "imap_sum f (imap_shift_remove k m) = imap_sum f m - f v" by blast
    with False e show ?thesis by (simp add: imap_shift_remove_def)
  qed
qed

end
