(* ===== verification/SyncSchema.thy ===== *)
theory SyncSchema
  imports Prelude
begin

text \<open>
  The vocabulary of the Flight sync service: Arrow values and batches as the code observes them,
  column roles and descriptors (\<open>clade/proto/sync.proto\<close>), the validated schema of a change
  set (\<open>src/frontend/flight/sync/schema.rs\<close>), the error type and the commit marker that is
  stored in the Delta log (\<open>src/frontend/flight/sync/mod.rs\<close>).
\<close>

subsection \<open>Arrow data as the code observes it\<close>

text \<open>
  A nullable scalar, a field and a schema. An Arrow \<open>Schema\<close> is known through its accessors
  \<open>fields()\<close> and \<open>flattened_fields()\<close>; a \<open>RecordBatch\<close> through its schema, its columns and its
  row count. The sync code tells no data type apart but \<open>DataType::Boolean\<close>.
\<close>

datatype scalar = SNull | SBool bool | SInt int | SStr string

datatype data_type = DBoolean | DOther string

record arrow_field =
  f_name :: string
  f_type :: data_type
  f_nullable :: bool

record arrow_schema =
  s_fields :: "arrow_field list"
  s_flattened_fields :: "arrow_field list"

record record_batch =
  b_schema :: arrow_schema
  b_columns :: "scalar list list"
  b_num_rows :: nat

definition batch_wf :: "record_batch \<Rightarrow> bool" where
  "batch_wf b \<longleftrightarrow> length (b_columns b) = length (s_fields (b_schema b)) \<and>
     (\<forall>c \<in> set (b_columns b). length c = b_num_rows b)"


subsection \<open>Column roles and descriptors\<close>

datatype ColumnRole = OldPk | NewPk | Changed | Value

definition column_role_as_i32 :: "ColumnRole \<Rightarrow> int" where
  "column_role_as_i32 r = (case r of OldPk \<Rightarrow> 0 | NewPk \<Rightarrow> 1 | Changed \<Rightarrow> 2 | Value \<Rightarrow> 3)"

definition column_role_try_from :: "int \<Rightarrow> ColumnRole option" where
  "column_role_try_from i =
     (if i = 0 then Some OldPk else if i = 1 then Some NewPk
      else if i = 2 then Some Changed else if i = 3 then Some Value else None)"

record ColumnDescriptor =
  cd_role :: int
  cd_name :: string

text \<open>The typed accessor of the descriptor: an unknown number reads as the default role.\<close>

definition cd_role_enum :: "ColumnDescriptor \<Rightarrow> ColumnRole" where
  "cd_role_enum cd = (case column_role_try_from (cd_role cd) of Some r \<Rightarrow> r | None \<Rightarrow> OldPk)"

lemma column_role_try_from_as_i32 [simp]: "column_role_try_from (column_role_as_i32 r) = Some r"
  by (cases r) (simp_all add: column_role_as_i32_def column_role_try_from_def)

lemma column_role_try_from_eq_Some:
  "column_role_try_from i = Some r \<longleftrightarrow> i = column_role_as_i32 r"
  by (cases r) (auto simp: column_role_as_i32_def column_role_try_from_def)


subsection \<open>Errors\<close>

text \<open>
  Every message of \<open>SyncError::SchemaError\<close> and \<open>SyncError::InvalidMessage\<close> is a constructor.
  \<open>External\<close> stands for the transparent variants (Arrow, serde, DataFusion, Delta, object store),
  \<open>Panic\<close> for a failed \<open>unwrap\<close>, \<open>expect\<close> or index expression.
\<close>

datatype schema_reason =
    DescriptorsDoNotMatch
  | ChangedNotBoolean string
  | ChangedNullable string
  | ChangedWithoutValue string
  | RoleNotParsable int
  | NoPkColumns
  | PkColumnsDiffer

datatype message_reason =
    UnfinishedTransaction string string
  | EmptyTransaction string u64

datatype SyncError =
    SchemaError schema_reason
  | InvalidMessage message_reason
  | External string
  | Panic string


subsection \<open>The validated schema\<close>

record SyncColumn =
  col_role :: ColumnRole
  col_name :: string
  col_field :: arrow_field

record SyncSchema =
  columns :: "SyncColumn list"

text \<open>
  One iteration of the validation loop: the sets of old and new primary key columns grow, or the
  function returns early with an error.
\<close>

definition check_column ::
    "ColumnDescriptor list \<Rightarrow> ColumnDescriptor \<times> arrow_field \<Rightarrow>
     (string \<times> data_type) set \<times> (string \<times> data_type) set \<Rightarrow>
     (SyncError, (string \<times> data_type) set \<times> (string \<times> data_type) set) result" where
  "check_column descs = (\<lambda>(cd, f) (old_pks, new_pks).
     case column_role_try_from (cd_role cd) of
       Some OldPk \<Rightarrow> Inr (insert (cd_name cd, f_type f) old_pks, new_pks)
     | Some NewPk \<Rightarrow> Inr (old_pks, insert (cd_name cd, f_type f) new_pks)
     | Some Value \<Rightarrow> Inr (old_pks, new_pks)
     | Some Changed \<Rightarrow>
         if f_type f \<noteq> DBoolean then Inl (SchemaError (ChangedNotBoolean (f_name f)))
         else if f_nullable f then Inl (SchemaError (ChangedNullable (f_name f)))
         else if \<not> list_ex (\<lambda>other. cd_name cd = cd_name other \<and>
                             cd_role other = column_role_as_i32 Value) descs
           then Inl (SchemaError (ChangedWithoutValue (cd_name cd)))
         else Inr (old_pks, new_pks)
     | None \<Rightarrow> Inl (SchemaError (RoleNotParsable (cd_role cd))))"

fun check_columns ::
    "ColumnDescriptor list \<Rightarrow> (ColumnDescriptor \<times> arrow_field) list \<Rightarrow>
     (string \<times> data_type) set \<times> (string \<times> data_type) set \<Rightarrow>
     (SyncError, (string \<times> data_type) set \<times> (string \<times> data_type) set) result" where
  "check_columns descs [] acc = Inr acc"
| "check_columns descs (p # ps) acc =
     bind_res (check_column descs p acc) (\<lambda>acc'. check_columns descs ps acc')"

definition sync_column_of :: "ColumnDescriptor \<times> arrow_field \<Rightarrow> SyncColumn" where
  "sync_column_of p =
     \<lparr>col_role = cd_role_enum (fst p), col_name = cd_name (fst p), col_field = snd p\<rparr>"

definition try_new :: "ColumnDescriptor list \<Rightarrow> arrow_schema \<Rightarrow> (SyncError, SyncSchema) result" where
  "try_new descs schema =
     (if length descs \<noteq> length (s_flattened_fields schema)
      then Inl (SchemaError DescriptorsDoNotMatch)
      else bind_res (check_columns descs (zip descs (s_fields schema)) ({}, {}))
        (\<lambda>(old_pk_types, new_pk_types).
           if old_pk_types = {} \<or> new_pk_types = {} then Inl (SchemaError NoPkColumns)
           else if old_pk_types \<noteq> new_pk_types then Inl (SchemaError PkColumnsDiffer)
           else Inr \<lparr>columns = map sync_column_of (zip descs (s_fields schema))\<rparr>))"

definition empty_schema :: SyncSchema where
  "empty_schema = \<lparr>columns = []\<rparr>"

definition schema_column :: "SyncSchema \<Rightarrow> string \<Rightarrow> ColumnRole \<Rightarrow> SyncColumn option" where
  "schema_column s name role = find (\<lambda>c. col_name c = name \<and> col_role c = role) (columns s)"

definition map_columns :: "SyncSchema \<Rightarrow> ColumnRole \<Rightarrow> (SyncColumn \<Rightarrow> 'a) \<Rightarrow> 'a list" where
  "map_columns s role f = map f (filter (\<lambda>c. col_role c = role) (columns s))"


subsection \<open>What a validated schema promises\<close>

text \<open>
  The primary key columns of a role, as the pairs that \<open>try_new\<close> compares, and the contract that
  the squashing and pruning code relies on.
\<close>

definition pk_types :: "SyncSchema \<Rightarrow> ColumnRole \<Rightarrow> (string \<times> data_type) set" where
  "pk_types s role = {(col_name c, f_type (col_field c)) | c. c \<in> set (columns s) \<and> col_role c = role}"

definition schema_valid :: "SyncSchema \<Rightarrow> bool" where
  "schema_valid s \<longleftrightarrow> pk_types s OldPk \<noteq> {} \<and> pk_types s OldPk = pk_types s NewPk \<and>
     (\<forall>c \<in> set (columns s). col_role c = Changed \<longrightarrow>
        f_type (col_field c) = DBoolean \<and> \<not> f_nullable (col_field c))"

text \<open>The conditions on descriptors and fields under which \<open>try_new\<close> accepts.\<close>

definition pair_types :: "ColumnRole \<Rightarrow> (ColumnDescriptor \<times> arrow_field) list \<Rightarrow> (string \<times> data_type) set" where
  "pair_types role ps =
     {(cd_name cd, f_type f) | cd f. (cd, f) \<in> set ps \<and> cd_role cd = column_role_as_i32 role}"

definition pair_ok :: "ColumnDescriptor list \<Rightarrow> ColumnDescriptor \<times> arrow_field \<Rightarrow> bool" where
  "pair_ok descs = (\<lambda>(cd, f). column_role_try_from (cd_role cd) \<noteq> None \<and>
     (cd_role cd = column_role_as_i32 Changed \<longrightarrow> f_type f = DBoolean \<and> \<not> f_nullable f \<and>
        (\<exists>other \<in> set descs. cd_name other = cd_name cd \<and> cd_role other = column_role_as_i32 Value)))"

lemma check_column_Inr_iff:
  "check_column descs p (old, new) = Inr acc \<longleftrightarrow>
     pair_ok descs p \<and> acc = (old \<union> pair_types OldPk [p], new \<union> pair_types NewPk [p])"
proof (cases p)
  case (Pair cd f)
  show ?thesis
  proof (cases "column_role_try_from (cd_role cd)")
    case None
    then show ?thesis by (simp add: Pair check_column_def pair_ok_def)
  next
    case (Some r)
    then have "cd_role cd = column_role_as_i32 r"
      by (simp add: column_role_try_from_eq_Some)
    then show ?thesis
      by (cases r; cases acc)
        (auto simp: Pair check_column_def pair_ok_def pair_types_def list_ex_iff
           column_role_as_i32_def column_role_try_from_def)
  qed
qed

lemma pair_types_Cons: "pair_types role (p # ps) = pair_types role [p] \<union> pair_types role ps"
  by (auto simp: pair_types_def)

lemma check_columns_Inr_iff:
  "check_columns descs ps (old, new) = Inr acc \<longleftrightarrow>
     list_all (pair_ok descs) ps \<and>
     acc = (old \<union> pair_types OldPk ps, new \<union> pair_types NewPk ps)"
proof (induction ps arbitrary: old new)
  case Nil
  then show ?case by (auto simp: pair_types_def)
next
  case (Cons p ps)
  show ?case
    by (subst (1 2) pair_types_Cons)
      (auto simp: bind_res_eq_Inr check_column_Inr_iff Cons.IH Un_assoc)
qed

end
