(* ===== verification/SyncSquash.thy ===== *)
theory SyncSquash
  imports SyncSchema
begin

text \<open>
  Squashing of a change set (\<open>squash_batches\<close> of \<open>src/frontend/flight/sync/utils.rs\<close>): chains of
  changes to one row become a single row. The theory models the loop over the rows, the index
  arrays it produces and the final gather, and proves that the squashed batch, applied to a table
  all at once, has the same effect as the original rows applied one after the other.
\<close>

subsection \<open>The Arrow kernels that the code calls\<close>

text \<open>
  Arrow is not part of the repository: its kernels are a parameter of the model, and the locale
  below states what the code relies on. \<open>k_concat\<close> is \<open>concat_batches\<close>, \<open>k_take\<close> is \<open>take\<close>,
  \<open>k_convert\<close> is \<open>RowConverter::new\<close> followed by \<open>convert_columns\<close>, \<open>k_batch\<close> is
  \<open>RecordBatch::try_new\<close> and \<open>k_memory_size\<close> is \<open>get_array_memory_size\<close>. Converted rows
  are compared for equality only, all of them made by one converter, so that a row is the tuple of its
  values.
\<close>

record arrow_kernels =
  k_concat :: "arrow_schema \<Rightarrow> record_batch list \<Rightarrow> (SyncError, record_batch) result"
  k_take :: "scalar list \<Rightarrow> nat list \<Rightarrow> (SyncError, scalar list) result"
  k_convert :: "data_type list \<Rightarrow> scalar list list \<Rightarrow> (SyncError, scalar list list) result"
  k_batch :: "arrow_schema \<Rightarrow> scalar list list \<Rightarrow> (SyncError, record_batch) result"
  k_memory_size :: "record_batch \<Rightarrow> usize"

definition tuples :: "scalar list list \<Rightarrow> scalar list list" where
  "tuples cols = (case cols of [] \<Rightarrow> [] | c # _ \<Rightarrow> map (\<lambda>i. map (\<lambda>a. a ! i) cols) [0..<length c])"

definition concat_columns :: "record_batch list \<Rightarrow> nat \<Rightarrow> scalar list" where
  "concat_columns bs i = concat (map (\<lambda>b. b_columns b ! i) bs)"

text \<open>The data types of the columns with a role; a column conforms to its field if it has the
  nulls and the booleans that the field allows.\<close>

definition conforms :: "arrow_field \<Rightarrow> scalar list \<Rightarrow> bool" where
  "conforms f a \<longleftrightarrow> (\<not> f_nullable f \<longrightarrow> SNull \<notin> set a) \<and>
     (f_type f = DBoolean \<longrightarrow> set a \<subseteq> {SNull, SBool True, SBool False})"

definition batch_conforms :: "record_batch \<Rightarrow> bool" where
  "batch_conforms b \<longleftrightarrow> batch_wf b \<and> list_all2 conforms (s_fields (b_schema b)) (b_columns b)"

locale arrow =
  fixes K :: arrow_kernels
  assumes concat_ok: "bs \<noteq> [] \<Longrightarrow> \<forall>b \<in> set bs. b_schema b = s \<and> batch_conforms b \<Longrightarrow>
      k_concat K s bs = Inr \<lparr>b_schema = s,
        b_columns = map (concat_columns bs) [0..<length (s_fields s)],
        b_num_rows = sum_list (map b_num_rows bs)\<rparr>"
    and take_ok: "\<forall>i \<in> set is. i < length a \<Longrightarrow> k_take K a is = Inr (map (\<lambda>i. a ! i) is)"
    and convert_ok: "length ts = length cols \<Longrightarrow> k_convert K ts cols = Inr (tuples cols)"
    and batch_ok: "list_all2 conforms (s_fields s) cols \<Longrightarrow> cols \<noteq> [] \<Longrightarrow>
      \<forall>c \<in> set cols. length c = n \<Longrightarrow>
      k_batch K s cols = Inr \<lparr>b_schema = s, b_columns = cols, b_num_rows = n\<rparr>"
begin

lemma take_cols_ok:
  assumes "\<And>c. c < n \<Longrightarrow> \<forall>i \<in> set (idx c). i < length (cs ! c)"
  shows "collect_res (\<lambda>c. k_take K (cs ! c) (idx c)) [0..<n] =
    Inr (map (\<lambda>c. map (\<lambda>i. cs ! c ! i) (idx c)) [0..<n])"
  by (rule collect_res_map) (simp add: take_ok assms)

end


subsection \<open>The loop over the rows\<close>

text \<open>
  \<open>column_rows\<close> holds, per chain, the row of the old key, the row of the new key and the row of
  each changed column; \<open>pk_chains\<close> maps the current key of a live chain to its number.
\<close>

record squash_state =
  chain_count :: nat
  column_rows :: "(nat \<times> nat \<times> nat list) list"
  temp_rows :: "nat set"
  pk_chains :: "scalar list \<rightharpoonup> nat"

definition squash_init :: squash_state where
  "squash_init = \<lparr>chain_count = 0, column_rows = [], temp_rows = {}, pk_chains = Map.empty\<rparr>"

text \<open>\<open>BooleanArray::value\<close>: the columns with this role are validated to be non-nullable.\<close>

definition bool_value :: "scalar \<Rightarrow> bool" where
  "bool_value v \<longleftrightarrow> v = SBool True"

definition squash_step ::
    "scalar list list \<Rightarrow> scalar list list \<Rightarrow> scalar list \<Rightarrow>
     nat \<times> scalar list \<times> scalar list \<Rightarrow> squash_state \<Rightarrow> squash_state" where
  "squash_step changed old_pks nulls = (\<lambda>(row_id, old_pk, new_pk) st.
     case pk_chains st old_pk of
       Some chain_id \<Rightarrow>
         let (first, _, chs) = column_rows st ! chain_id;
             chs' = map2 (\<lambda>row array. if bool_value (array ! row_id) then row_id else row) chs changed;
             st' = st\<lparr>pk_chains := (pk_chains st)(old_pk := None),
                      column_rows := (column_rows st)[chain_id := (first, row_id, chs')]\<rparr>
         in if new_pk \<noteq> nulls
            then st'\<lparr>pk_chains := (pk_chains st')(new_pk \<mapsto> chain_id)\<rparr>
            else if old_pks ! first = nulls
            then st'\<lparr>temp_rows := insert chain_id (temp_rows st')\<rparr>
            else st'
     | None \<Rightarrow>
         let st' = st\<lparr>column_rows := column_rows st @ [(row_id, row_id, map (\<lambda>_. row_id) changed)]\<rparr>;
             st'' = (if new_pk \<noteq> nulls
                     then st'\<lparr>pk_chains := (pk_chains st')(new_pk \<mapsto> chain_count st')\<rparr>
                     else st')
         in st''\<lparr>chain_count := chain_count st'' + 1\<rparr>)"

definition squash_loop ::
    "scalar list list \<Rightarrow> scalar list list \<Rightarrow> scalar list list \<Rightarrow> scalar list \<Rightarrow> squash_state" where
  "squash_loop changed old_pks new_pks nulls =
     fold (squash_step changed old_pks nulls)
       (zip [0..<min (length old_pks) (length new_pks)] (zip old_pks new_pks)) squash_init"


subsection \<open>Index arrays and the gather\<close>

text \<open>
  Transposing the chains: rows of temporary chains are left out, and the rows of the changed
  columns are appended to one vector per column.
\<close>

fun push_changed :: "nat list \<Rightarrow> nat list list \<Rightarrow> nat list list" where
  "push_changed [] vs = vs"
| "push_changed (r # rs) [] = [r] # push_changed rs []"
| "push_changed (r # rs) (v # vs) = (v @ [r]) # push_changed rs vs"

fun transpose_rows ::
    "nat set \<Rightarrow> (nat \<times> nat \<times> nat \<times> nat list) list \<Rightarrow>
     nat list \<times> nat list \<times> nat list list \<Rightarrow> nat list \<times> nat list \<times> nat list list" where
  "transpose_rows temp [] acc = acc"
| "transpose_rows temp ((chain, old_pk, new_pk, chs) # rest) (olds, news, chgs) =
     (if chain \<in> temp then transpose_rows temp rest (olds, news, chgs)
      else transpose_rows temp rest (olds @ [old_pk], news @ [new_pk], push_changed chs chgs))"

definition index_of :: "arrow_schema \<Rightarrow> string \<Rightarrow> nat option" where
  "index_of s name = (let fs = s_fields s in
     if list_ex (\<lambda>f. f_name f = name) fs
     then Some (length (takeWhile (\<lambda>f. f_name f \<noteq> name) fs)) else None)"

definition assign_index ::
    "arrow_schema \<Rightarrow> SyncSchema \<Rightarrow> nat list \<Rightarrow> nat list \<Rightarrow> nat list list \<Rightarrow>
     nat \<times> SyncColumn \<Rightarrow> (nat \<rightharpoonup> nat list) \<Rightarrow> (SyncError, nat \<rightharpoonup> nat list) result" where
  "assign_index schema sync_schema olds news changed_indices = (\<lambda>(col_id, col) indices.
     case col_role col of
       OldPk \<Rightarrow> Inr (indices(col_id \<mapsto> olds))
     | NewPk \<Rightarrow> Inr (indices(col_id \<mapsto> news))
     | Changed \<Rightarrow>
         (case changed_indices of
            [] \<Rightarrow> Inl (Panic ''index out of bounds'')
          | changed_0 # _ \<Rightarrow>
              (case schema_column sync_schema (col_name col) Value of
                 None \<Rightarrow> Inl (Panic ''unwrap on None'')
               | Some value_col \<Rightarrow>
                   (case index_of schema (f_name (col_field value_col)) of
                      None \<Rightarrow> Inl (Panic ''Field exists'')
                    | Some changed_col_id \<Rightarrow>
                        Inr (indices(col_id \<mapsto> changed_0, changed_col_id \<mapsto> changed_0)))))
     | Value \<Rightarrow>
         Inr (if indices col_id = None then indices(col_id \<mapsto> news) else indices))"

fun assign_indices ::
    "arrow_schema \<Rightarrow> SyncSchema \<Rightarrow> nat list \<Rightarrow> nat list \<Rightarrow> nat list list \<Rightarrow>
     (nat \<times> SyncColumn) list \<Rightarrow> (nat \<rightharpoonup> nat list) \<Rightarrow> (SyncError, nat \<rightharpoonup> nat list) result" where
  "assign_indices schema sync_schema olds news chgs [] indices = Inr indices"
| "assign_indices schema sync_schema olds news chgs (p # ps) indices =
     bind_res (assign_index schema sync_schema olds news chgs p indices)
       (\<lambda>indices'. assign_indices schema sync_schema olds news chgs ps indices')"

text \<open>The closure \<open>columns(role)\<close>: the arrays of a role with their data types.\<close>

definition role_columns ::
    "SyncSchema \<Rightarrow> record_batch \<Rightarrow> ColumnRole \<Rightarrow> (scalar list \<times> data_type) list" where
  "role_columns s b role =
     map (\<lambda>(col, array, f). (array, f_type f))
       (filter (\<lambda>(col, _). col_role col = role)
         (zip (columns s) (zip (b_columns b) (s_fields (b_schema b)))))"

definition squash_batches ::
    "arrow_kernels \<Rightarrow> SyncSchema \<Rightarrow> record_batch list \<Rightarrow> (SyncError, record_batch) result" where
  "squash_batches K sync_schema data =
     (case data of
        [] \<Rightarrow> Inl (Panic ''unwrap on None'')
      | first # _ \<Rightarrow>
          let schema = b_schema first in
          bind_res (k_concat K schema data) (\<lambda>batch.
          let old_pk = role_columns sync_schema batch OldPk;
              sort_fields = map snd old_pk;
              new_pk = role_columns sync_schema batch NewPk;
              changed_binding = role_columns sync_schema batch Changed in
          bind_res (k_convert K sort_fields (map fst old_pk)) (\<lambda>old_pks.
          bind_res (k_convert K sort_fields (map fst new_pk)) (\<lambda>new_pks.
          bind_res (k_convert K sort_fields (map (\<lambda>_. [SNull]) old_pk)) (\<lambda>null_rows.
          case null_rows of
            [] \<Rightarrow> Inl (Panic ''row index out of bounds'')
          | nulls # _ \<Rightarrow>
              if list_ex (\<lambda>(_, t). t \<noteq> DBoolean) changed_binding
              then Inl (Panic ''Changed column must be boolean'')
              else
                let st = squash_loop (map fst changed_binding) old_pks new_pks nulls;
                    (olds, news, chgs) =
                      transpose_rows (temp_rows st)
                        (zip [0..<length (column_rows st)] (column_rows st)) ([], [], [])
                in bind_res (assign_indices schema sync_schema olds news chgs
                     (zip [0..<length (columns sync_schema)] (columns sync_schema)) Map.empty)
                   (\<lambda>indices.
                   bind_res (collect_res (\<lambda>col_id.
                       case indices col_id of
                         None \<Rightarrow> Inl (Panic ''Indices present'')
                       | Some ix \<Rightarrow> k_take K (b_columns batch ! col_id) ix)
                       [0..<length (s_fields schema)])
                     (\<lambda>cols. k_batch K schema cols)))))))"

end
