(* ===== verification/SyncSquashLoop.thy ===== *)
theory SyncSquashLoop
  imports SyncSquash
begin

text \<open>
  Correctness of the squashing loop. A change log is a list of rows, each with an old key, a new key
  (an all-null tuple for none) and an effect on the values of the row; \<open>apply_log\<close> applies them in
  order, \<open>apply_at_once\<close> applies them simultaneously, as the full join of \<open>apply_sync\<close> does.
\<close>

subsection \<open>Change logs\<close>

type_synonym 'v change = "scalar list \<times> scalar list \<times> ('v \<Rightarrow> 'v)"
type_synonym 'v table = "scalar list \<rightharpoonup> 'v"

definition prev_value :: "scalar list \<Rightarrow> 'v \<Rightarrow> 'v table \<Rightarrow> scalar list \<Rightarrow> 'v" where
  "prev_value nulls d T k = (if k = nulls then d else case T k of None \<Rightarrow> d | Some v \<Rightarrow> v)"

definition apply_change :: "scalar list \<Rightarrow> 'v \<Rightarrow> 'v change \<Rightarrow> 'v table \<Rightarrow> 'v table" where
  "apply_change nulls d = (\<lambda>(ok, nk, f) T.
     let T' = (if ok = nulls then T else T(ok := None))
     in if nk = nulls then T' else T'(nk \<mapsto> f (prev_value nulls d T ok)))"

definition apply_log :: "scalar list \<Rightarrow> 'v \<Rightarrow> 'v change list \<Rightarrow> 'v table \<Rightarrow> 'v table" where
  "apply_log nulls d = fold (apply_change nulls d)"

definition apply_at_once :: "scalar list \<Rightarrow> 'v \<Rightarrow> 'v change list \<Rightarrow> 'v table \<Rightarrow> 'v table" where
  "apply_at_once nulls d rows T = (\<lambda>k.
     case find (\<lambda>(ok, nk, f). nk = k \<and> nk \<noteq> nulls) rows of
       Some (ok, nk, f) \<Rightarrow> Some (f (prev_value nulls d T ok))
     | None \<Rightarrow> if \<exists>(ok, nk, f) \<in> set rows. ok = k \<and> ok \<noteq> nulls then None else T k)"

text \<open>
  A change is consistent with a table if it updates or deletes a present row and if it does not
  take the key of another row; a log is consistent if each change is when its turn comes.
\<close>

definition consistent :: "scalar list \<Rightarrow> 'v change \<Rightarrow> 'v table \<Rightarrow> bool" where
  "consistent nulls = (\<lambda>(ok, nk, _) T.
     (ok \<noteq> nulls \<longrightarrow> T ok \<noteq> None) \<and> (nk \<noteq> nulls \<longrightarrow> nk = ok \<or> T nk = None))"

fun consistent_log :: "scalar list \<Rightarrow> 'v \<Rightarrow> 'v change list \<Rightarrow> 'v table \<Rightarrow> bool" where
  "consistent_log nulls d [] T = True"
| "consistent_log nulls d (c # cs) T =
     (consistent nulls c T \<and> consistent_log nulls d cs (apply_change nulls d c T))"

lemma apply_log_snoc: "apply_log nulls d (cs @ [c]) T = apply_change nulls d c (apply_log nulls d cs T)"
  by (simp add: apply_log_def)

lemma consistent_log_append:
  "consistent_log nulls d (cs @ cs') T \<longleftrightarrow>
     consistent_log nulls d cs T \<and> consistent_log nulls d cs' (apply_log nulls d cs T)"
  by (induction cs arbitrary: T) (simp_all add: apply_log_def)


subsection \<open>The loop invariant\<close>

text \<open>
  After some rows, the live chains and the keys that chains started from determine the table that
  the rows produce. \<open>ceff\<close> is the effect of a chain, read off its three row numbers.
\<close>

definition chain_first :: "nat \<times> nat \<times> nat list \<Rightarrow> nat" where
  "chain_first c = fst c"

definition chain_last :: "nat \<times> nat \<times> nat list \<Rightarrow> nat" where
  "chain_last c = fst (snd c)"

definition chain_chs :: "nat \<times> nat \<times> nat list \<Rightarrow> nat list" where
  "chain_chs c = snd (snd c)"

lemmas chain_defs = chain_first_def chain_last_def chain_chs_def

definition started :: "scalar list list \<Rightarrow> scalar list \<Rightarrow> (nat \<times> nat \<times> nat list) list \<Rightarrow> scalar list set" where
  "started olds nulls cr = (\<lambda>c. olds ! c) ` set (map chain_first cr) - {nulls}"

definition chains_wf :: "nat \<Rightarrow> nat \<Rightarrow> scalar list list \<Rightarrow> scalar list list \<Rightarrow> scalar list \<Rightarrow> squash_state \<Rightarrow> bool" where
  "chains_wf i m olds news nulls st \<longleftrightarrow>
     chain_count st = length (column_rows st) \<and>
     (\<forall>c \<in> set (column_rows st). chain_first c < i \<and> chain_last c < i \<and>
        length (chain_chs c) = m \<and> (\<forall>r \<in> set (chain_chs c). r < i)) \<and>
     (\<forall>k c. pk_chains st k = Some c \<longleftrightarrow>
        c < length (column_rows st) \<and> k \<noteq> nulls \<and> news ! chain_last (column_rows st ! c) = k) \<and>
     (\<forall>c \<in> temp_rows st. c < length (column_rows st) \<longrightarrow>
        olds ! chain_first (column_rows st ! c) = nulls \<and> news ! chain_last (column_rows st ! c) = nulls)"

definition table_of ::
    "scalar list \<Rightarrow> 'v \<Rightarrow> scalar list list \<Rightarrow> (nat \<times> nat \<times> nat list \<Rightarrow> 'v \<Rightarrow> 'v) \<Rightarrow> 'v table \<Rightarrow>
     squash_state \<Rightarrow> 'v table" where
  "table_of nulls d olds ceff T0 st = (\<lambda>k.
     case pk_chains st k of
       Some c \<Rightarrow> Some (ceff (column_rows st ! c)
                   (prev_value nulls d T0 (olds ! chain_first (column_rows st ! c))))
     | None \<Rightarrow> if k \<in> started olds nulls (column_rows st) then None else T0 k)"

definition keys_free :: "scalar list list \<Rightarrow> scalar list \<Rightarrow> 'v table \<Rightarrow> squash_state \<Rightarrow> bool" where
  "keys_free olds nulls T0 st \<longleftrightarrow>
     (\<forall>k. pk_chains st k \<noteq> None \<longrightarrow> k \<in> started olds nulls (column_rows st) \<or> T0 k = None)"

text \<open>What the effect of a chain must satisfy: a new chain has the effect of its row, and a row
  that joins a chain acts after it.\<close>

definition upd_chs :: "scalar list list \<Rightarrow> nat \<Rightarrow> nat list \<Rightarrow> nat list" where
  "upd_chs changed i chs = map2 (\<lambda>r a. if bool_value (a ! i) then i else r) chs changed"

lemma length_upd_chs [simp]: "length (upd_chs changed i chs) = min (length chs) (length changed)"
  by (simp add: upd_chs_def)

lemma set_upd_chs: "r \<in> set (upd_chs changed i chs) \<Longrightarrow> r = i \<or> r \<in> set chs"
  by (auto simp: upd_chs_def set_zip split: if_splits)

lemma squash_step_join:
  assumes "pk_chains st ok = Some c"
  shows "squash_step changed olds nulls (i, ok, nk) st =
    st\<lparr>column_rows := (column_rows st)[c := (chain_first (column_rows st ! c), i,
          upd_chs changed i (chain_chs (column_rows st ! c)))],
       pk_chains := (if nk \<noteq> nulls then (pk_chains st)(ok := None, nk \<mapsto> c)
                     else (pk_chains st)(ok := None)),
       temp_rows := (if nk = nulls \<and> olds ! chain_first (column_rows st ! c) = nulls
                     then insert c (temp_rows st) else temp_rows st)\<rparr>"
  using assms
  by (cases "column_rows st ! c")
    (simp add: squash_step_def chain_defs upd_chs_def Let_def)

lemma squash_step_start:
  assumes "pk_chains st ok = None"
  shows "squash_step changed olds nulls (i, ok, nk) st =
    st\<lparr>column_rows := column_rows st @ [(i, i, replicate (length changed) i)],
       pk_chains := (if nk \<noteq> nulls then (pk_chains st)(nk \<mapsto> chain_count st) else pk_chains st),
       chain_count := chain_count st + 1\<rparr>"
  using assms by (simp add: squash_step_def Let_def map_replicate_const)

lemma started_update:
  assumes "c < length cr" and "chain_first x = chain_first (cr ! c)"
  shows "started olds nulls (cr[c := x]) = started olds nulls cr"
proof -
  have "map chain_first (cr[c := x]) = map chain_first cr"
    using assms by (simp add: map_update list_update_same_conv)
  then show ?thesis by (simp only: started_def)
qed

lemma started_snoc:
  "started olds nulls (cr @ [x]) = started olds nulls cr \<union> ({olds ! chain_first x} - {nulls})"
  by (auto simp: started_def)

lemma started_memI: "c < length cr \<Longrightarrow> olds ! chain_first (cr ! c) = k \<Longrightarrow> k \<noteq> nulls \<Longrightarrow>
   k \<in> started olds nulls cr"
  by (auto simp: started_def)


subsection \<open>One row of the loop\<close>

lemma chains_wfD:
  assumes "chains_wf i m olds news nulls st"
  shows "chain_count st = length (column_rows st)"
    and "pk_chains st k = Some c \<longleftrightarrow>
      c < length (column_rows st) \<and> k \<noteq> nulls \<and> news ! chain_last (column_rows st ! c) = k"
    and "c < length (column_rows st) \<Longrightarrow> chain_first (column_rows st ! c) < i \<and>
      chain_last (column_rows st ! c) < i \<and> length (chain_chs (column_rows st ! c)) = m \<and>
      (\<forall>r \<in> set (chain_chs (column_rows st ! c)). r < i)"
    and "c \<in> temp_rows st \<Longrightarrow> c < length (column_rows st) \<Longrightarrow>
      olds ! chain_first (column_rows st ! c) = nulls \<and> news ! chain_last (column_rows st ! c) = nulls"
  using assms by (auto simp: chains_wf_def)

lemma chains_wf_join:
  assumes wf: "chains_wf i (length changed) olds news nulls st"
    and c: "pk_chains st ok = Some c"
    and nk: "nk = news ! i"
    and free: "nk \<noteq> nulls \<Longrightarrow> nk = ok \<or> pk_chains st nk = None"
  shows "chains_wf (Suc i) (length changed) olds news nulls
     (squash_step changed olds nulls (i, ok, nk) st)"
proof -
  let ?cr = "column_rows st"
  let ?st = "squash_step changed olds nulls (i, ok, nk) st"
  have lc: "c < length ?cr" and ok: "ok \<noteq> nulls" "news ! chain_last (?cr ! c) = ok"
    using chains_wfD(2) [OF wf] c by auto
  have cr: "column_rows ?st = ?cr[c := (chain_first (?cr ! c), i, upd_chs changed i (chain_chs (?cr ! c)))]"
    by (simp add: squash_step_join [OF c])
  have pk: "pk_chains ?st k = Some e \<longleftrightarrow> e < length (column_rows ?st) \<and> k \<noteq> nulls \<and>
      news ! chain_last (column_rows ?st ! e) = k" for k e
  proof (cases "e = c")
    case True
    then show ?thesis
      using lc ok nk chains_wfD(2) [OF wf, of k c]
      by (auto simp: squash_step_join [OF c] chain_defs)
  next
    case False
    then have "column_rows ?st ! e = ?cr ! e" by (simp add: cr)
    then show ?thesis
      using False c free chains_wfD(2) [OF wf, of k e]
      by (auto simp: squash_step_join [OF c])
  qed
  have rows: "chain_first x < Suc i \<and> chain_last x < Suc i \<and> length (chain_chs x) = length changed \<and>
      (\<forall>r \<in> set (chain_chs x). r < Suc i)" if "x \<in> set (column_rows ?st)" for x
  proof -
    from that obtain e where e: "e < length ?cr" "x = column_rows ?st ! e"
      by (auto simp: cr in_set_conv_nth)
    show ?thesis
      using chains_wfD(3) [OF wf, of e] chains_wfD(3) [OF wf, of c] e lc
      by (cases "e = c")
        (auto simp: cr chain_defs dest!: set_upd_chs intro: less_SucI)
  qed
  have temp: "olds ! chain_first (column_rows ?st ! e) = nulls \<and>
      news ! chain_last (column_rows ?st ! e) = nulls"
    if "e \<in> temp_rows ?st" "e < length (column_rows ?st)" for e
  proof (cases "e = c")
    case True
    with that show ?thesis
      using lc nk ok chains_wfD(4) [OF wf, of c]
      by (auto simp: squash_step_join [OF c] chain_defs split: if_splits)
  next
    case False
    with that show ?thesis
      using chains_wfD(4) [OF wf, of e]
      by (auto simp: squash_step_join [OF c] split: if_splits)
  qed
  show ?thesis
    unfolding chains_wf_def
    using pk rows temp chains_wfD(1) [OF wf]
    by (auto simp: squash_step_join [OF c])
qed

lemma chains_wf_start:
  assumes wf: "chains_wf i (length changed) olds news nulls st"
    and c: "pk_chains st ok = None"
    and nk: "nk = news ! i"
    and free: "nk \<noteq> nulls \<Longrightarrow> pk_chains st nk = None"
    and temp_lt: "\<forall>c \<in> temp_rows st. c < length (column_rows st)"
  shows "chains_wf (Suc i) (length changed) olds news nulls
     (squash_step changed olds nulls (i, ok, nk) st)"
proof -
  let ?cr = "column_rows st"
  let ?st = "squash_step changed olds nulls (i, ok, nk) st"
  have cr: "column_rows ?st = ?cr @ [(i, i, replicate (length changed) i)]"
    and count: "chain_count st = length ?cr"
    using chains_wfD(1) [OF wf] by (simp_all add: squash_step_start [OF c])
  have pk: "pk_chains ?st k = Some e \<longleftrightarrow> e < length (column_rows ?st) \<and> k \<noteq> nulls \<and>
      news ! chain_last (column_rows ?st ! e) = k" for k e
  proof (cases "e = length ?cr")
    case True
    then show ?thesis
      using nk count chains_wfD(2) [OF wf, of k "length ?cr"]
      by (auto simp: squash_step_start [OF c] chain_defs)
  next
    case False
    then show ?thesis
      using free count chains_wfD(2) [OF wf, of k e]
      by (auto simp: squash_step_start [OF c] nth_append)
  qed
  have "\<forall>x \<in> set (column_rows ?st). chain_first x < Suc i \<and> chain_last x < Suc i \<and>
      length (chain_chs x) = length changed \<and> (\<forall>r \<in> set (chain_chs x). r < Suc i)"
    using wf unfolding cr chains_wf_def by (auto simp: chain_defs intro: less_SucI)
  moreover have "\<forall>e \<in> temp_rows ?st. e < length (column_rows ?st) \<longrightarrow>
      olds ! chain_first (column_rows ?st ! e) = nulls \<and> news ! chain_last (column_rows ?st ! e) = nulls"
    using temp_lt chains_wfD(4) [OF wf]
    by (auto simp: squash_step_start [OF c] nth_append)
  ultimately show ?thesis
    unfolding chains_wf_def using pk count by (auto simp: squash_step_start [OF c])
qed

lemma table_step_join:
  assumes wf: "chains_wf i (length changed) olds news nulls st"
    and kf: "keys_free olds nulls T0 st"
    and c: "pk_chains st ok = Some c"
    and free: "nk \<noteq> nulls \<Longrightarrow> nk = ok \<or> pk_chains st nk = None"
    and ceff: "\<And>f l chs. length chs = length changed \<Longrightarrow>
      ceff (f, i, upd_chs changed i chs) = (\<lambda>v. E (ceff (f, l, chs) v))"
  shows "table_of nulls d olds ceff T0 (squash_step changed olds nulls (i, ok, nk) st) =
    apply_change nulls d (ok, nk, E) (table_of nulls d olds ceff T0 st)"
proof
  fix k
  let ?cr = "column_rows st"
  let ?T = "table_of nulls d olds ceff T0 st"
  have lc: "c < length ?cr" and ok: "ok \<noteq> nulls" "news ! chain_last (?cr ! c) = ok"
    and len: "length (chain_chs (?cr ! c)) = length changed"
    using chains_wfD(2,3) [OF wf] c by auto
  let ?new = "(chain_first (?cr ! c), i, upd_chs changed i (chain_chs (?cr ! c)))"
  have st: "started olds nulls (?cr[c := ?new]) = started olds nulls ?cr"
    by (rule started_update [OF lc]) (simp add: chain_first_def)
  have eff: "ceff ?new = (\<lambda>v. E (ceff (?cr ! c) v))"
    using ceff [OF len, of "chain_first (?cr ! c)" "chain_last (?cr ! c)"]
    by (simp add: chain_defs)
  have okT: "ok \<in> started olds nulls ?cr \<or> T0 ok = None"
    using kf c by (auto simp: keys_free_def)
  have prev: "prev_value nulls d ?T ok = ceff (?cr ! c) (prev_value nulls d T0 (olds ! chain_first (?cr ! c)))"
    using c ok by (simp add: prev_value_def table_of_def)
  have other: "e \<noteq> c" if "pk_chains st k = Some e" "k \<noteq> ok" for e
    using that ok chains_wfD(2) [OF wf] by auto
  show "table_of nulls d olds ceff T0 (squash_step changed olds nulls (i, ok, nk) st) k =
    apply_change nulls d (ok, nk, E) ?T k"
  proof (cases "nk \<noteq> nulls \<and> k = nk")
    case True
    then show ?thesis
      using ok lc eff prev
      by (simp add: table_of_def squash_step_join [OF c] apply_change_def chain_first_def Let_def)
  next
    case nk: False
    show ?thesis
    proof (cases "k = ok")
      case True
      then show ?thesis
        using ok nk okT st
        by (auto simp: table_of_def squash_step_join [OF c] apply_change_def Let_def)
    next
      case False
      then show ?thesis
        using ok nk st other
        by (auto simp: table_of_def squash_step_join [OF c] apply_change_def Let_def
            split: option.splits)
    qed
  qed
qed

lemma keys_free_join:
  assumes wf: "chains_wf i (length changed) olds news nulls st"
    and kf: "keys_free olds nulls T0 st"
    and c: "pk_chains st ok = Some c"
    and new: "nk \<noteq> nulls \<Longrightarrow> nk = ok \<or> nk \<in> started olds nulls (column_rows st) \<or> T0 nk = None"
  shows "keys_free olds nulls T0 (squash_step changed olds nulls (i, ok, nk) st)"
proof -
  let ?cr = "column_rows st"
  have lc: "c < length ?cr" using chains_wfD(2) [OF wf] c by auto
  have "started olds nulls (?cr[c := (chain_first (?cr ! c), i, upd_chs changed i (chain_chs (?cr ! c)))])
      = started olds nulls ?cr"
    by (rule started_update [OF lc]) (simp add: chain_first_def)
  then show ?thesis
    using kf new c by (auto simp: keys_free_def squash_step_join [OF c])
qed

lemma table_step_start:
  assumes wf: "chains_wf i (length changed) olds news nulls st"
    and c: "pk_chains st ok = None"
    and ok: "ok = olds ! i"
    and con: "consistent nulls (ok, nk, E) (table_of nulls d olds ceff T0 st)"
    and ceff: "ceff (i, i, replicate (length changed) i) = E"
  shows "table_of nulls d olds ceff T0 (squash_step changed olds nulls (i, ok, nk) st) =
    apply_change nulls d (ok, nk, E) (table_of nulls d olds ceff T0 st)"
proof
  fix k
  let ?cr = "column_rows st"
  let ?T = "table_of nulls d olds ceff T0 st"
  let ?new = "(i, i, replicate (length changed) i)"
  have count: "chain_count st = length ?cr" using chains_wfD(1) [OF wf] .
  have st: "started olds nulls (?cr @ [?new]) = started olds nulls ?cr \<union> ({ok} - {nulls})"
    by (simp add: started_snoc chain_first_def ok)
  have notnull: "pk_chains st nulls = None"
    using chains_wfD(2) [OF wf, of nulls] by (cases "pk_chains st nulls") auto
  have prev: "prev_value nulls d ?T ok = prev_value nulls d T0 ok"
    using con c by (auto simp: consistent_def prev_value_def table_of_def)
  have old: "pk_chains st k = Some e \<Longrightarrow> (?cr @ [?new]) ! e = ?cr ! e" for e
    using chains_wfD(2) [OF wf] by (auto simp: nth_append)
  show "table_of nulls d olds ceff T0 (squash_step changed olds nulls (i, ok, nk) st) k =
    apply_change nulls d (ok, nk, E) ?T k"
  proof (cases "nk \<noteq> nulls \<and> k = nk")
    case True
    then have "table_of nulls d olds ceff T0 (squash_step changed olds nulls (i, ok, nk) st) k =
        Some (ceff ?new (prev_value nulls d T0 ok))"
      by (simp add: table_of_def squash_step_start [OF c] count chain_first_def ok [symmetric])
    moreover have "apply_change nulls d (ok, nk, E) ?T k = Some (E (prev_value nulls d ?T ok))"
      using True by (simp add: apply_change_def Let_def)
    ultimately show ?thesis by (simp only: prev ceff)
  next
    case nk: False
    show ?thesis
    proof (cases "k = ok \<and> ok \<noteq> nulls")
      case True
      then show ?thesis
        using nk st c
        by (auto simp: table_of_def squash_step_start [OF c] apply_change_def Let_def)
    next
      case False
      have "apply_change nulls d (ok, nk, E) ?T k = ?T k"
        using False nk
        by (cases "ok = nulls"; cases "nk = nulls") (simp_all add: apply_change_def Let_def)
      moreover have "table_of nulls d olds ceff T0 (squash_step changed olds nulls (i, ok, nk) st) k = ?T k"
      proof (cases "pk_chains st k")
        case None
        with False nk show ?thesis
          by (auto simp: table_of_def squash_step_start [OF c] st)
      next
        case (Some e)
        with nk old [OF Some] show ?thesis
          by (auto simp: table_of_def squash_step_start [OF c])
      qed
      ultimately show ?thesis by simp
    qed
  qed
qed

lemma keys_free_start:
  assumes kf: "keys_free olds nulls T0 st"
    and c: "pk_chains st ok = None"
    and ok: "ok = olds ! i"
    and new: "nk \<noteq> nulls \<Longrightarrow> nk = ok \<or> nk \<in> started olds nulls (column_rows st) \<or> T0 nk = None"
  shows "keys_free olds nulls T0 (squash_step changed olds nulls (i, ok, nk) st)"
  using kf new
  by (auto simp: keys_free_def squash_step_start [OF c] started_snoc chain_first_def ok [symmetric])


subsection \<open>The whole loop\<close>

text \<open>
  The rows of the log, numbered: \<open>E i\<close> is the effect of row \<open>i\<close>.
\<close>

definition log_of :: "scalar list list \<Rightarrow> scalar list list \<Rightarrow> (nat \<Rightarrow> 'v \<Rightarrow> 'v) \<Rightarrow> nat \<Rightarrow> 'v change list" where
  "log_of olds news E n = map (\<lambda>i. (olds ! i, news ! i, E i)) [0..<n]"

definition loop_upto ::
    "scalar list list \<Rightarrow> scalar list list \<Rightarrow> scalar list list \<Rightarrow> scalar list \<Rightarrow> nat \<Rightarrow> squash_state" where
  "loop_upto changed olds news nulls n =
     fold (squash_step changed olds nulls) (map (\<lambda>i. (i, olds ! i, news ! i)) [0..<n]) squash_init"

lemma loop_upto_simps:
  "loop_upto changed olds news nulls 0 = squash_init"
  "loop_upto changed olds news nulls (Suc n) =
     squash_step changed olds nulls (n, olds ! n, news ! n) (loop_upto changed olds news nulls n)"
  by (simp_all add: loop_upto_def)

lemma squash_loop_upto:
  "length olds = n \<Longrightarrow> length news = n \<Longrightarrow>
   squash_loop changed olds news nulls = loop_upto changed olds news nulls n"
  unfolding squash_loop_def loop_upto_def
  by (rule arg_cong [where f = "\<lambda>xs. fold (squash_step changed olds nulls) xs squash_init"])
    (auto intro: nth_equalityI)

lemma log_of_Suc: "log_of olds news E (Suc n) = log_of olds news E n @ [(olds ! n, news ! n, E n)]"
  by (simp add: log_of_def)

definition loop_inv ::
    "scalar list list \<Rightarrow> scalar list list \<Rightarrow> scalar list list \<Rightarrow> scalar list \<Rightarrow> 'v table \<Rightarrow> nat \<Rightarrow>
     squash_state \<Rightarrow> bool" where
  "loop_inv changed olds news nulls T0 n st \<longleftrightarrow>
     chains_wf n (length changed) olds news nulls st \<and> keys_free olds nulls T0 st \<and>
     (\<forall>c \<in> temp_rows st. c < length (column_rows st))"

lemma temp_rows_step:
  assumes "\<forall>c \<in> temp_rows st. c < length (column_rows st)"
    and "\<And>c. pk_chains st ok = Some c \<Longrightarrow> c < length (column_rows st)"
  shows "\<forall>c \<in> temp_rows (squash_step changed olds nulls (i, ok, nk) st).
    c < length (column_rows (squash_step changed olds nulls (i, ok, nk) st))"
  using assms
  by (cases "pk_chains st ok") (auto simp: squash_step_join squash_step_start less_SucI)

lemma loop_step:
  assumes inv: "loop_inv changed olds news nulls T0 n st"
    and con: "consistent nulls (olds ! n, news ! n, E n) (table_of nulls d olds ceff T0 st)"
    and join: "\<And>f l chs. length chs = length changed \<Longrightarrow>
      ceff (f, n, upd_chs changed n chs) = (\<lambda>v. E n (ceff (f, l, chs) v))"
    and start: "ceff (n, n, replicate (length changed) n) = E n"
  shows "loop_inv changed olds news nulls T0 (Suc n)
      (squash_step changed olds nulls (n, olds ! n, news ! n) st)" (is ?inv)
    and "table_of nulls d olds ceff T0 (squash_step changed olds nulls (n, olds ! n, news ! n) st) =
      apply_change nulls d (olds ! n, news ! n, E n) (table_of nulls d olds ceff T0 st)" (is ?tab)
proof -
  have wf: "chains_wf n (length changed) olds news nulls st" and kf: "keys_free olds nulls T0 st"
    and temp: "\<forall>c \<in> temp_rows st. c < length (column_rows st)"
    using inv by (auto simp: loop_inv_def)
  have temp': "\<forall>c \<in> temp_rows (squash_step changed olds nulls (n, olds ! n, news ! n) st).
    c < length (column_rows (squash_step changed olds nulls (n, olds ! n, news ! n) st))"
    by (rule temp_rows_step [OF temp]) (use chains_wfD(2) [OF wf] in auto)
  have free: "news ! n = olds ! n \<or> pk_chains st (news ! n) = None"
    and new: "news ! n = olds ! n \<or> news ! n \<in> started olds nulls (column_rows st) \<or> T0 (news ! n) = None"
    if "news ! n \<noteq> nulls"
    using con that by (auto simp: consistent_def table_of_def split: option.splits if_splits)
  show ?inv
  proof (cases "pk_chains st (olds ! n)")
    case None
    with free have "news ! n \<noteq> nulls \<Longrightarrow> pk_chains st (news ! n) = None" by auto
    then show ?thesis
      using chains_wf_start [OF wf None refl _ temp] keys_free_start [OF kf None refl new] temp'
      by (auto simp: loop_inv_def)
  next
    case (Some c)
    then show ?thesis
      using chains_wf_join [OF wf Some refl free] keys_free_join [OF wf kf Some new] temp'
      by (auto simp: loop_inv_def)
  qed
  show ?tab
  proof (cases "pk_chains st (olds ! n)")
    case None
    then show ?thesis by (rule table_step_start [where ceff = ceff, OF wf _ refl con start])
  next
    case (Some c)
    then show ?thesis by (rule table_step_join [where ceff = ceff, OF wf kf _ free join])
  qed
qed

lemma loop_correct:
  assumes con: "consistent_log nulls d (log_of olds news E n) T0"
    and join: "\<And>i f l chs. i < n \<Longrightarrow> length chs = length changed \<Longrightarrow>
      ceff (f, i, upd_chs changed i chs) = (\<lambda>v. E i (ceff (f, l, chs) v))"
    and start: "\<And>i. i < n \<Longrightarrow> ceff (i, i, replicate (length changed) i) = E i"
  shows "loop_inv changed olds news nulls T0 n (loop_upto changed olds news nulls n) \<and>
    table_of nulls d olds ceff T0 (loop_upto changed olds news nulls n) =
      apply_log nulls d (log_of olds news E n) T0"
  using assms
proof (induction n)
  case 0
  have "loop_inv changed olds news nulls T0 0 squash_init"
    by (simp add: loop_inv_def chains_wf_def keys_free_def squash_init_def)
  moreover have "table_of nulls d olds ceff T0 squash_init = T0"
    by (simp add: table_of_def squash_init_def started_def)
  ultimately show ?case
    by (simp add: loop_upto_simps log_of_def apply_log_def)
next
  case (Suc n)
  let ?st = "loop_upto changed olds news nulls n"
  have con: "consistent_log nulls d (log_of olds news E n) T0"
    "consistent nulls (olds ! n, news ! n, E n) (apply_log nulls d (log_of olds news E n) T0)"
    using Suc.prems(1) by (auto simp: log_of_Suc consistent_log_append)
  have IH: "loop_inv changed olds news nulls T0 n ?st"
    "table_of nulls d olds ceff T0 ?st = apply_log nulls d (log_of olds news E n) T0"
    using Suc.IH [OF con(1)] Suc.prems(2,3) by auto
  have "consistent nulls (olds ! n, news ! n, E n) (table_of nulls d olds ceff T0 ?st)"
    using con(2) IH(2) by simp
  note step = loop_step [where ceff = ceff and E = E, OF IH(1) this Suc.prems(2) [OF lessI] Suc.prems(3) [OF lessI]]
  show ?case
    using step IH(2) by (simp add: loop_upto_simps log_of_Suc apply_log_snoc)
qed


subsection \<open>The surviving chains\<close>

definition live_chains :: "squash_state \<Rightarrow> (nat \<times> nat \<times> nat list) list" where
  "live_chains st = map snd (filter (\<lambda>(c, _). c \<notin> temp_rows st)
     (zip [0..<length (column_rows st)] (column_rows st)))"

lemma zip_upt_conv: "zip [0..<length xs] xs = map (\<lambda>i. (i, xs ! i)) [0..<length xs]"
  by (auto intro: nth_equalityI)

lemma live_chains_conv:
  "live_chains st = map (\<lambda>c. column_rows st ! c)
     (filter (\<lambda>c. c \<notin> temp_rows st) [0..<length (column_rows st)])"
  by (simp add: live_chains_def zip_upt_conv filter_map comp_def)

lemma set_live_chains:
  "set (live_chains st) = (\<lambda>c. column_rows st ! c) ` {c. c < length (column_rows st) \<and> c \<notin> temp_rows st}"
  by (auto simp: live_chains_conv)

definition chain_log ::
    "scalar list list \<Rightarrow> scalar list list \<Rightarrow> (nat \<times> nat \<times> nat list \<Rightarrow> 'v \<Rightarrow> 'v) \<Rightarrow>
     (nat \<times> nat \<times> nat list) list \<Rightarrow> 'v change list" where
  "chain_log olds news ceff = map (\<lambda>c. (olds ! chain_first c, news ! chain_last c, ceff c))"

lemma live_chains_at_once:
  assumes inv: "loop_inv changed olds news nulls T0 n st"
  shows "apply_at_once nulls d (chain_log olds news ceff (live_chains st)) T0 =
    table_of nulls d olds ceff T0 st"
proof
  fix k
  let ?cr = "column_rows st"
  let ?log = "chain_log olds news ceff (live_chains st)"
  let ?P = "\<lambda>(ok, nk, f :: 'a \<Rightarrow> 'a). nk = k \<and> nk \<noteq> nulls"
  have wf: "chains_wf n (length changed) olds news nulls st" using inv by (simp add: loop_inv_def)
  note pk = chains_wfD(2) [OF wf] and tmp = chains_wfD(4) [OF wf]
  have mem: "x \<in> set ?log \<longleftrightarrow> (\<exists>c < length ?cr. c \<notin> temp_rows st \<and>
      x = (olds ! chain_first (?cr ! c), news ! chain_last (?cr ! c), ceff (?cr ! c)))" for x
    by (auto simp only: chain_log_def set_map set_live_chains image_image)
  show "apply_at_once nulls d ?log T0 k = table_of nulls d olds ceff T0 st k"
  proof (cases "pk_chains st k")
    case None
    then have "\<not> (c < length ?cr \<and> k \<noteq> nulls \<and> news ! chain_last (?cr ! c) = k)" for c
      using pk [of k c] by simp
    then have "find ?P ?log = None"
      by (auto simp: find_None_iff mem)
    moreover have "(\<exists>(ok, nk, f) \<in> set ?log. ok = k \<and> ok \<noteq> nulls) \<longleftrightarrow> k \<in> started olds nulls ?cr"
    proof
      assume "\<exists>(ok, nk, f) \<in> set ?log. ok = k \<and> ok \<noteq> nulls"
      then obtain c where "c < length ?cr" "olds ! chain_first (?cr ! c) = k" "k \<noteq> nulls"
        by (auto simp: mem)
      then show "k \<in> started olds nulls ?cr" by (rule started_memI)
    next
      assume "k \<in> started olds nulls ?cr"
      then obtain c where c: "c < length ?cr" "olds ! chain_first (?cr ! c) = k" "k \<noteq> nulls"
        by (auto simp: started_def in_set_conv_nth)
      then have "c \<notin> temp_rows st" using tmp by auto
      then have "(k, news ! chain_last (?cr ! c), ceff (?cr ! c)) \<in> set ?log" using c mem by blast
      then show "\<exists>(ok, nk, f) \<in> set ?log. ok = k \<and> ok \<noteq> nulls" using c by blast
    qed
    ultimately show ?thesis using None by (simp add: apply_at_once_def table_of_def)
  next
    case (Some c)
    then have c: "c < length ?cr" "k \<noteq> nulls" "news ! chain_last (?cr ! c) = k" using pk by auto
    then have "c \<notin> temp_rows st" using tmp by auto
    with c have "(olds ! chain_first (?cr ! c), k, ceff (?cr ! c)) \<in> set ?log" using mem by blast
    then have "\<exists>x. x \<in> set ?log \<and> ?P x"
      using c(2) by (intro exI [of _ "(olds ! chain_first (?cr ! c), k, ceff (?cr ! c))"]) simp
    then have "find ?P ?log \<noteq> None" unfolding find_None_iff by blast
    then obtain x where x: "find ?P ?log = Some x" by blast
    then have "x \<in> set ?log" and Px: "?P x" by (auto dest: find_SomeD)
    then obtain e where e: "e < length ?cr"
      "x = (olds ! chain_first (?cr ! e), news ! chain_last (?cr ! e), ceff (?cr ! e))"
      by (auto simp: mem)
    then have "pk_chains st k = Some e" using Px pk [of k e] by auto
    then have "x = (olds ! chain_first (?cr ! c), k, ceff (?cr ! c))" using e Some c by simp
    with x Some show ?thesis by (simp add: apply_at_once_def table_of_def)
  qed
qed

text \<open>The transposition loop collects the three row numbers of the surviving chains.\<close>

lemma transpose_rows_eq:
  "transpose_rows temp ps (os, ns, cs) =
     (let sel = map snd (filter (\<lambda>(c, _). c \<notin> temp) ps) in
      (os @ map chain_first sel, ns @ map chain_last sel, fold (push_changed \<circ> chain_chs) sel cs))"
  by (induction temp ps "(os, ns, cs)" arbitrary: os ns cs rule: transpose_rows.induct)
    (auto simp: chain_defs Let_def)

lemma push_changed_Nil: "push_changed rs [] = map (\<lambda>r. [r]) rs"
  by (induction rs) auto

lemma fold_push_changed_single:
  "\<forall>c \<in> set sel. length (chain_chs c) = 1 \<Longrightarrow>
   fold (push_changed \<circ> chain_chs) sel [v] = [v @ map (\<lambda>c. hd (chain_chs c)) sel]"
proof (induction sel arbitrary: v)
  case Nil
  then show ?case by simp
next
  case (Cons c sel)
  then obtain r where "chain_chs c = [r]" by (auto simp: length_Suc_conv)
  with Cons show ?case by simp
qed

lemma fold_push_changed_one:
  assumes "\<forall>c \<in> set sel. length (chain_chs c) = 1"
  shows "fold (push_changed \<circ> chain_chs) sel [] =
    (if sel = [] then [] else [map (\<lambda>c. hd (chain_chs c)) sel])"
proof (cases sel)
  case Nil
  then show ?thesis by simp
next
  case (Cons c sel')
  with assms obtain r where "chain_chs c = [r]" by (auto simp: length_Suc_conv)
  with Cons assms show ?thesis by (simp add: fold_push_changed_single)
qed


subsection \<open>Row numbers stay in range\<close>

text \<open>This part of the invariant needs no consistency: the loop never indexes out of range.\<close>

definition rows_in_range :: "nat \<Rightarrow> nat \<Rightarrow> squash_state \<Rightarrow> bool" where
  "rows_in_range n m st \<longleftrightarrow> chain_count st = length (column_rows st) \<and>
     (\<forall>c \<in> set (column_rows st). chain_first c < n \<and> chain_last c < n \<and>
        length (chain_chs c) = m \<and> (\<forall>r \<in> set (chain_chs c). r < n)) \<and>
     (\<forall>c \<in> ran (pk_chains st). c < length (column_rows st))"

lemma rows_in_range_step:
  assumes inv: "rows_in_range n (length changed) st"
  shows "rows_in_range (Suc n) (length changed) (squash_step changed olds nulls (n, ok, nk) st)"
proof (cases "pk_chains st ok")
  case None
  show ?thesis
    using inv unfolding rows_in_range_def
    by (auto simp: squash_step_start [OF None] chain_defs ran_def less_Suc_eq split: if_splits)
next
  case (Some c)
  let ?cr = "column_rows st"
  have c: "c < length ?cr" using inv Some by (auto simp: rows_in_range_def ran_def)
  then have old: "chain_first (?cr ! c) < n" "length (chain_chs (?cr ! c)) = length changed"
    "\<forall>r \<in> set (chain_chs (?cr ! c)). r < n"
    using inv by (auto simp: rows_in_range_def)
  have "chain_first x < Suc n \<and> chain_last x < Suc n \<and> length (chain_chs x) = length changed \<and>
      (\<forall>r \<in> set (chain_chs x). r < Suc n)"
    if "x \<in> set (?cr[c := (chain_first (?cr ! c), n, upd_chs changed n (chain_chs (?cr ! c)))])" for x
  proof -
    from that set_update_subset_insert consider "x \<in> set ?cr"
      | "x = (chain_first (?cr ! c), n, upd_chs changed n (chain_chs (?cr ! c)))" by fast
    then show ?thesis
      using inv old by cases (auto simp: rows_in_range_def chain_defs less_Suc_eq dest!: set_upd_chs)
  qed
  moreover have "\<forall>e \<in> ran (pk_chains (squash_step changed olds nulls (n, ok, nk) st)). e < length ?cr"
    using inv c by (auto simp: rows_in_range_def squash_step_join [OF Some] ran_def split: if_splits)
  ultimately show ?thesis
    using inv by (simp add: rows_in_range_def squash_step_join [OF Some])
qed

lemma rows_in_range_loop: "rows_in_range n (length changed) (loop_upto changed olds news nulls n)"
  by (induction n) (simp_all add: loop_upto_simps rows_in_range_step,
      simp add: rows_in_range_def squash_init_def)

end
