(* ===== verification/SyncSquashCorrect.thy ===== *)
theory SyncSquashCorrect
  imports SyncSquashLoop
begin

text \<open>
  The squashed batch against the change log of the input: the index arrays of
  \<open>squash_batches\<close>, the rows they gather and the end-to-end theorem.
\<close>

subsection \<open>Batches as change logs\<close>

text \<open>
  The rows of a batch under a sync schema: primary keys are the tuples of the key columns in schema
  order; a value column takes the value of the row unless its \<open>Changed\<close> column says that it kept the
  previous one.
\<close>

definition role_positions :: "SyncSchema \<Rightarrow> ColumnRole \<Rightarrow> nat list" where
  "role_positions s role = filter (\<lambda>p. col_role (columns s ! p) = role) [0..<length (columns s)]"

definition column_position :: "SyncSchema \<Rightarrow> string \<Rightarrow> ColumnRole \<Rightarrow> nat option" where
  "column_position s name role =
     find (\<lambda>p. col_name (columns s ! p) = name \<and> col_role (columns s ! p) = role) [0..<length (columns s)]"

definition pk_at :: "SyncSchema \<Rightarrow> record_batch \<Rightarrow> ColumnRole \<Rightarrow> nat \<Rightarrow> scalar list" where
  "pk_at s b role i = map (\<lambda>p. b_columns b ! p ! i) (role_positions s role)"

definition row_update :: "SyncSchema \<Rightarrow> record_batch \<Rightarrow> nat \<Rightarrow> (string \<Rightarrow> scalar) \<Rightarrow> string \<Rightarrow> scalar" where
  "row_update s b i prev = (\<lambda>name.
     case column_position s name Value of
       None \<Rightarrow> prev name
     | Some p \<Rightarrow>
         (case column_position s name Changed of
            None \<Rightarrow> b_columns b ! p ! i
          | Some q \<Rightarrow> if bool_value (b_columns b ! q ! i) then b_columns b ! p ! i else prev name))"

definition batch_log :: "SyncSchema \<Rightarrow> record_batch \<Rightarrow> (string \<Rightarrow> scalar) change list" where
  "batch_log s b = map (\<lambda>i. (pk_at s b OldPk i, pk_at s b NewPk i, row_update s b i)) [0..<b_num_rows b]"

definition null_pk :: "SyncSchema \<Rightarrow> scalar list" where
  "null_pk s = map (\<lambda>_. SNull) (role_positions s OldPk)"

abbreviation null_row :: "string \<Rightarrow> scalar" where
  "null_row \<equiv> (\<lambda>_. SNull)"

text \<open>
  A sync schema that fits an Arrow schema: what \<open>try_new\<close> establishes for a schema without nested
  fields whose field names are distinct.
\<close>

definition schema_fits :: "SyncSchema \<Rightarrow> arrow_schema \<Rightarrow> bool" where
  "schema_fits s schema \<longleftrightarrow>
     map col_field (columns s) = s_fields schema \<and> distinct (map f_name (s_fields schema)) \<and>
     schema_valid s \<and>
     (\<forall>c \<in> set (columns s). col_role c = Changed \<longrightarrow> schema_column s (col_name c) Value \<noteq> None)"

lemma role_columns_conv:
  assumes "length (b_columns b) = length (columns s)" and "length (s_fields (b_schema b)) = length (columns s)"
  shows "role_columns s b role =
    map (\<lambda>p. (b_columns b ! p, f_type (s_fields (b_schema b) ! p))) (role_positions s role)"
proof -
  have "zip (columns s) (zip (b_columns b) (s_fields (b_schema b))) =
    map (\<lambda>p. (columns s ! p, b_columns b ! p, s_fields (b_schema b) ! p)) [0..<length (columns s)]"
    using assms by (auto intro: nth_equalityI)
  then show ?thesis
    by (simp add: role_columns_def role_positions_def filter_map comp_def)
qed

lemma schema_fits_length: "schema_fits s schema \<Longrightarrow> length (s_fields schema) = length (columns s)"
  by (metis length_map schema_fits_def)

lemma role_positions_mem:
  "p \<in> set (role_positions s role) \<longleftrightarrow> p < length (columns s) \<and> col_role (columns s ! p) = role"
  by (auto simp: role_positions_def)

lemma column_position_Some:
  "column_position s name role = Some p \<Longrightarrow>
     p < length (columns s) \<and> col_role (columns s ! p) = role \<and> col_name (columns s ! p) = name"
  unfolding column_position_def by (drule find_SomeD) simp

lemma schema_column_position:
  "schema_column s name role = map_option (\<lambda>p. columns s ! p) (column_position s name role)"
  unfolding schema_column_def column_position_def by (subst find_conv_nth) (simp add: comp_def)



subsection \<open>The index arrays\<close>

text \<open>Where the \<open>Changed\<close> columns among the first \<open>j\<close> columns send their index array.\<close>

definition changed_targets :: "SyncSchema \<Rightarrow> nat \<Rightarrow> nat set" where
  "changed_targets s j = {q. \<exists>p < j. p < length (columns s) \<and> col_role (columns s ! p) = Changed \<and>
     column_position s (col_name (columns s ! p)) Value = Some q}"

definition base_index :: "SyncSchema \<Rightarrow> nat list \<Rightarrow> nat list \<Rightarrow> nat list \<Rightarrow> nat \<Rightarrow> nat list" where
  "base_index s olds news ch p =
     (case col_role (columns s ! p) of OldPk \<Rightarrow> olds | NewPk \<Rightarrow> news | Changed \<Rightarrow> ch | Value \<Rightarrow> news)"

definition final_index :: "SyncSchema \<Rightarrow> nat list \<Rightarrow> nat list \<Rightarrow> nat list \<Rightarrow> nat \<Rightarrow> nat list" where
  "final_index s olds news ch p =
     (if p \<in> changed_targets s (length (columns s)) then ch else base_index s olds news ch p)"

lemma index_of_position:
  assumes fits: "schema_fits s schema" and p: "p < length (columns s)"
  shows "index_of schema (f_name (col_field (columns s ! p))) = Some p"
proof -
  let ?fs = "s_fields schema"
  let ?n = "f_name (?fs ! p)"
  have len: "p < length ?fs" using p schema_fits_length [OF fits] by simp
  have f: "col_field (columns s ! p) = ?fs ! p"
    using fits p by (metis nth_map schema_fits_def)
  have ne: "f_name (?fs ! i) \<noteq> ?n" if "i < p" for i
    using fits that len by (auto simp: schema_fits_def distinct_conv_nth)
  have "takeWhile (\<lambda>g. f_name g \<noteq> ?n) ?fs = take p ?fs"
    by (rule takeWhile_eq_take_P_nth) (use ne len in auto)
  moreover have "list_ex (\<lambda>g. f_name g = ?n) ?fs" using len by (auto simp: list_ex_iff)
  ultimately show ?thesis using len by (simp add: index_of_def f)
qed

lemma changed_targets_Suc:
  assumes "j < length (columns s)"
  shows "changed_targets s (Suc j) = changed_targets s j \<union>
    (if col_role (columns s ! j) = Changed
     then set_option (column_position s (col_name (columns s ! j)) Value) else {})"
  using assms by (auto simp: changed_targets_def less_Suc_eq elem_set)

lemma changed_targets_Value:
  "q \<in> changed_targets s j \<Longrightarrow> q < length (columns s) \<and> col_role (columns s ! q) = Value"
  by (auto simp: changed_targets_def dest: column_position_Some)

lemma assign_indices_upto:
  assumes fits: "schema_fits s schema"
    and ch: "role_positions s Changed \<noteq> [] \<Longrightarrow> chgs \<noteq> []"
    and j: "j \<le> length (columns s)"
  shows "assign_indices schema s olds news chgs (map (\<lambda>p. (p, columns s ! p)) [0..<j]) Map.empty =
    Inr (\<lambda>p. if p \<in> changed_targets s j then Some (hd chgs)
             else if p < j then Some (base_index s olds news (hd chgs) p) else None)"
  using j
proof (induction j)
  case 0
  then show ?case by (auto simp: changed_targets_def)
next
  case (Suc j)
  have app: "assign_indices schema s olds news chgs (xs @ [x]) m =
      bind_res (assign_indices schema s olds news chgs xs m) (assign_index schema s olds news chgs x)" for xs x m
    by (induction xs arbitrary: m) (auto simp: bind_res_def split: sum.splits)
  have j: "j < length (columns s)" using Suc.prems by simp
  let ?c = "columns s ! j"
  have notv: "col_role ?c \<noteq> Value \<Longrightarrow> j \<notin> changed_targets s j"
    using changed_targets_Value by blast
  show ?case
  proof (cases "col_role ?c")
    case Changed
    then have "?c \<in> set (columns s)" "j \<in> set (role_positions s Changed)"
      using j by (auto simp: role_positions_mem)
    moreover from this(2) have "chgs \<noteq> []" by (intro ch) auto
    ultimately obtain q c0 cs
      where q: "column_position s (col_name ?c) Value = Some q" and cs: "chgs = c0 # cs"
      using fits Changed by (auto simp: schema_fits_def schema_column_position neq_Nil_conv)
    have ql: "q < length (columns s)" using column_position_Some [OF q] by simp
    have "assign_index schema s olds news chgs (j, ?c) m = Inr (m(j \<mapsto> hd chgs, q \<mapsto> hd chgs))" for m
      using Changed q
      by (simp add: assign_index_def cs schema_column_position index_of_position [OF fits ql])
    then show ?thesis
      using Suc j Changed q notv
      by (auto simp: app changed_targets_Suc [OF j] base_index_def fun_eq_iff less_Suc_eq)
  next
    case OldPk
    then show ?thesis
      using Suc j notv
      by (auto simp: app assign_index_def changed_targets_Suc [OF j] base_index_def fun_eq_iff less_Suc_eq)
  next
    case NewPk
    then show ?thesis
      using Suc j notv
      by (auto simp: app assign_index_def changed_targets_Suc [OF j] base_index_def fun_eq_iff less_Suc_eq)
  next
    case Value
    then show ?thesis
      using Suc j
      by (auto simp: app assign_index_def changed_targets_Suc [OF j] base_index_def fun_eq_iff less_Suc_eq)
  qed
qed

lemma assign_indices_final:
  assumes "schema_fits s schema" and "role_positions s Changed \<noteq> [] \<Longrightarrow> chgs \<noteq> []"
  shows "\<exists>indices. assign_indices schema s olds news chgs
      (zip [0..<length (columns s)] (columns s)) Map.empty = Inr indices \<and>
    (\<forall>p < length (columns s). indices p = Some (final_index s olds news (hd chgs) p))"
  using assign_indices_upto [OF assms, of "length (columns s)" olds news]
  by (auto simp: zip_upt_conv final_index_def)



subsection \<open>The effect of a chain\<close>

definition chain_effect ::
    "SyncSchema \<Rightarrow> record_batch \<Rightarrow> nat \<times> nat \<times> nat list \<Rightarrow> (string \<Rightarrow> scalar) \<Rightarrow> string \<Rightarrow> scalar" where
  "chain_effect s b c prev = (\<lambda>name.
     case column_position s name Value of
       None \<Rightarrow> prev name
     | Some p \<Rightarrow>
         (case column_position s name Changed of
            None \<Rightarrow> b_columns b ! p ! chain_last c
          | Some q \<Rightarrow> let r = hd (chain_chs c) in
              if bool_value (b_columns b ! q ! r) then b_columns b ! p ! r else prev name))"

abbreviation changed_arrays :: "SyncSchema \<Rightarrow> record_batch \<Rightarrow> scalar list list" where
  "changed_arrays s b \<equiv> map (\<lambda>p. b_columns b ! p) (role_positions s Changed)"

lemma changed_position_unique:
  assumes "length (role_positions s Changed) \<le> 1" and "column_position s name Changed = Some q"
  shows "role_positions s Changed = [q]"
proof -
  have "q \<in> set (role_positions s Changed)"
    using column_position_Some [OF assms(2)] by (simp add: role_positions_mem)
  with assms(1) show ?thesis by (cases "role_positions s Changed") auto
qed

lemma chain_effect_start:
  assumes one: "length (role_positions s Changed) \<le> 1"
  shows "chain_effect s b (i, i, replicate (length (changed_arrays s b)) i) = row_update s b i"
  using changed_position_unique [OF one]
  by (auto simp: fun_eq_iff chain_effect_def row_update_def chain_defs split: option.splits)

lemma chain_effect_join:
  assumes one: "length (role_positions s Changed) \<le> 1"
    and len: "length chs = length (changed_arrays s b)"
  shows "chain_effect s b (f, i, upd_chs (changed_arrays s b) i chs) =
    (\<lambda>v. row_update s b i (chain_effect s b (f, l, chs) v))"
proof (intro ext)
  fix prev name
  show "chain_effect s b (f, i, upd_chs (changed_arrays s b) i chs) prev name =
    row_update s b i (chain_effect s b (f, l, chs) prev) name"
  proof (cases "column_position s name Changed")
    case None
    then show ?thesis
      by (simp add: chain_effect_def row_update_def chain_defs split: option.splits)
  next
    case (Some q)
    then have "role_positions s Changed = [q]" by (rule changed_position_unique [OF one])
    moreover obtain r where "chs = [r]" using len calculation by (auto simp: length_Suc_conv)
    ultimately show ?thesis
      using Some
      by (simp add: chain_effect_def row_update_def chain_defs upd_chs_def Let_def split: option.splits)
  qed
qed


subsection \<open>The gathered batch\<close>

definition gathered :: "SyncSchema \<Rightarrow> record_batch \<Rightarrow> (nat \<times> nat \<times> nat list) list \<Rightarrow> record_batch" where
  "gathered s b live = \<lparr>b_schema = b_schema b,
     b_columns = map (\<lambda>p. map (\<lambda>i. b_columns b ! p ! i)
       (final_index s (map chain_first live) (map chain_last live)
          (map (\<lambda>c. hd (chain_chs c)) live) p)) [0..<length (columns s)],
     b_num_rows = length live\<rparr>"

lemma gathered_cell:
  assumes "p < length (columns s)" and "j < length live"
  shows "b_columns (gathered s b live) ! p ! j = b_columns b ! p !
    (if p \<in> changed_targets s (length (columns s)) then hd (chain_chs (live ! j))
     else case col_role (columns s ! p) of OldPk \<Rightarrow> chain_first (live ! j)
       | NewPk \<Rightarrow> chain_last (live ! j) | Changed \<Rightarrow> hd (chain_chs (live ! j)) | Value \<Rightarrow> chain_last (live ! j))"
  using assms
  by (cases "col_role (columns s ! p)") (simp_all add: gathered_def final_index_def base_index_def)

lemma gathered_pk:
  assumes "j < length live" and "role = OldPk \<or> role = NewPk"
  shows "pk_at s (gathered s b live) role j =
    pk_at s b role (if role = OldPk then chain_first (live ! j) else chain_last (live ! j))"
  unfolding pk_at_def
proof (rule map_cong [OF refl])
  fix p assume "p \<in> set (role_positions s role)"
  then have p: "p < length (columns s)" "col_role (columns s ! p) = role" by (auto simp: role_positions_mem)
  then have "p \<notin> changed_targets s (length (columns s))" using changed_targets_Value assms(2) by fastforce
  with p assms show "b_columns (gathered s b live) ! p ! j =
      b_columns b ! p ! (if role = OldPk then chain_first (live ! j) else chain_last (live ! j))"
    by (auto simp: gathered_cell)
qed

lemma changed_target_iff:
  assumes one: "length (role_positions s Changed) \<le> 1" and v: "column_position s name Value = Some p"
  shows "p \<in> changed_targets s (length (columns s)) \<longleftrightarrow> column_position s name Changed \<noteq> None"
proof
  assume "p \<in> changed_targets s (length (columns s))"
  then obtain q where q: "q < length (columns s)" "col_role (columns s ! q) = Changed"
    "column_position s (col_name (columns s ! q)) Value = Some p"
    by (auto simp: changed_targets_def)
  then have "col_name (columns s ! q) = name" using column_position_Some v by metis
  with q show "column_position s name Changed \<noteq> None"
    by (auto simp: column_position_def find_None_iff)
next
  assume "column_position s name Changed \<noteq> None"
  then obtain q where "column_position s name Changed = Some q" by blast
  with v show "p \<in> changed_targets s (length (columns s))"
    by (auto simp: changed_targets_def dest: column_position_Some)
qed

lemma gathered_row_update:
  assumes one: "length (role_positions s Changed) \<le> 1" and j: "j < length live"
  shows "row_update s (gathered s b live) j = chain_effect s b (live ! j)"
proof (intro ext)
  fix prev name
  show "row_update s (gathered s b live) j prev name = chain_effect s b (live ! j) prev name"
  proof (cases "column_position s name Value")
    case None
    then show ?thesis by (simp add: row_update_def chain_effect_def)
  next
    case (Some p)
    note p = column_position_Some [OF Some] and iff = changed_target_iff [OF one Some]
    have cell: "b_columns (gathered s b live) ! p ! j = b_columns b ! p !
        (if column_position s name Changed = None then chain_last (live ! j) else hd (chain_chs (live ! j)))"
      using p iff j by (auto simp: gathered_cell)
    show ?thesis
    proof (cases "column_position s name Changed")
      case None
      then show ?thesis using Some cell by (simp add: row_update_def chain_effect_def)
    next
      case (Some q)
      note q = column_position_Some [OF this]
      have "b_columns (gathered s b live) ! q ! j = b_columns b ! q ! hd (chain_chs (live ! j))"
        using q j by (simp add: gathered_cell)
      then show ?thesis
        using Some cell \<open>column_position s name Value = Some p\<close>
        by (simp add: row_update_def chain_effect_def Let_def)
    qed
  qed
qed

lemma batch_log_gathered:
  assumes one: "length (role_positions s Changed) \<le> 1"
    and fl: "\<forall>c \<in> set live. chain_first c < n \<and> chain_last c < n"
  shows "batch_log s (gathered s b live) =
    chain_log (map (pk_at s b OldPk) [0..<n]) (map (pk_at s b NewPk) [0..<n]) (chain_effect s b) live"
  using fl
  by (auto intro!: nth_equalityI
      simp: batch_log_def chain_log_def gathered_def [of s b live, THEN arg_cong, of b_num_rows]
        gathered_pk gathered_row_update [OF one])



subsection \<open>Running the model\<close>

definition joined :: "arrow_schema \<Rightarrow> record_batch list \<Rightarrow> record_batch" where
  "joined schema data = \<lparr>b_schema = schema,
     b_columns = map (concat_columns data) [0..<length (s_fields schema)],
     b_num_rows = sum_list (map b_num_rows data)\<rparr>"

definition squash_final :: "SyncSchema \<Rightarrow> record_batch \<Rightarrow> squash_state" where
  "squash_final s b = loop_upto (changed_arrays s b) (map (pk_at s b OldPk) [0..<b_num_rows b])
     (map (pk_at s b NewPk) [0..<b_num_rows b]) (null_pk s) (b_num_rows b)"

definition surviving :: "SyncSchema \<Rightarrow> record_batch \<Rightarrow> (nat \<times> nat \<times> nat list) list" where
  "surviving s b = live_chains (squash_final s b)"

text \<open>The key columns come in the same order for the old and the new key.\<close>

definition pk_aligned :: "SyncSchema \<Rightarrow> bool" where
  "pk_aligned s \<longleftrightarrow> map_columns s OldPk col_name = map_columns s NewPk col_name"

lemma length_role_positions: "length (role_positions s role) = length (map_columns s role f)"
proof -
  have "filter (\<lambda>c. col_role c = role) (map (\<lambda>p. columns s ! p) [0..<length (columns s)]) =
      map (\<lambda>p. columns s ! p) (role_positions s role)"
    by (simp add: role_positions_def filter_map comp_def)
  then show ?thesis by (simp add: map_nth map_columns_def)
qed

lemma pk_aligned_length:
  "pk_aligned s \<Longrightarrow> length (role_positions s NewPk) = length (role_positions s OldPk)"
  unfolding pk_aligned_def by (metis length_role_positions)

lemma pk_positions_nonempty: "schema_valid s \<Longrightarrow> role = OldPk \<or> role = NewPk \<Longrightarrow> role_positions s role \<noteq> []"
proof -
  assume "schema_valid s" and "role = OldPk \<or> role = NewPk"
  then obtain c where "c \<in> set (columns s)" "col_role c = role"
    by (fastforce simp: schema_valid_def pk_types_def)
  then show "role_positions s role \<noteq> []"
    by (auto simp: role_positions_def filter_empty_conv in_set_conv_nth)
qed

lemma tuples_pk:
  assumes "ps \<noteq> []" and "\<And>p. p \<in> set ps \<Longrightarrow> length (b_columns b ! p) = n"
  shows "tuples (map (\<lambda>p. b_columns b ! p) ps) = map (\<lambda>i. map (\<lambda>p. b_columns b ! p ! i) ps) [0..<n]"
  using assms by (cases ps) (auto simp: tuples_def)

lemma tuples_nulls: "ps \<noteq> [] \<Longrightarrow> tuples (map (\<lambda>_. [SNull]) ps) = [map (\<lambda>_. SNull) ps]"
  by (cases ps) (simp_all add: tuples_def)

lemma length_concat_column:
  assumes "\<forall>b \<in> set data. batch_wf b \<and> b_schema b = schema" and "p < length (s_fields schema)"
  shows "length (concat_columns data p) = sum_list (map b_num_rows data)"
  using assms by (induction data) (auto simp: concat_columns_def batch_wf_def)

lemma conforms_subset: "conforms f a \<Longrightarrow> set a' \<subseteq> set a \<Longrightarrow> conforms f a'"
  by (auto simp: conforms_def)

lemma conforms_joined:
  assumes "\<forall>b \<in> set data. batch_conforms b \<and> b_schema b = schema" and "p < length (s_fields schema)"
  shows "conforms (s_fields schema ! p) (concat_columns data p)"
  using assms
proof (induction data)
  case Nil
  then show ?case by (simp add: concat_columns_def conforms_def)
next
  case (Cons b data)
  then have "conforms (s_fields schema ! p) (b_columns b ! p)"
    by (auto simp: batch_conforms_def list_all2_conv_all_nth)
  with Cons show ?case by (auto simp: concat_columns_def conforms_def)
qed


lemma joined_facts:
  assumes fits: "schema_fits s schema"
    and conf: "\<forall>b \<in> set data. b_schema b = schema \<and> batch_conforms b"
  shows "length (b_columns (joined schema data)) = length (columns s)"
    and "length (s_fields (b_schema (joined schema data))) = length (columns s)"
    and "\<And>p. p < length (columns s) \<Longrightarrow> length (b_columns (joined schema data) ! p) = b_num_rows (joined schema data)"
    and "\<And>p. p < length (columns s) \<Longrightarrow> conforms (s_fields schema ! p) (b_columns (joined schema data) ! p)"
proof -
  have wf: "\<forall>b \<in> set data. batch_wf b \<and> b_schema b = schema"
    and cf: "\<forall>b \<in> set data. batch_conforms b \<and> b_schema b = schema"
    using conf by (auto simp: batch_conforms_def)
  note len = schema_fits_length [OF fits]
  show "length (b_columns (joined schema data)) = length (columns s)"
    and "length (s_fields (b_schema (joined schema data))) = length (columns s)"
    using len by (simp_all add: joined_def)
  show "length (b_columns (joined schema data) ! p) = b_num_rows (joined schema data)"
    and "conforms (s_fields schema ! p) (b_columns (joined schema data) ! p)"
    if "p < length (columns s)" for p
    using that len length_concat_column [OF wf] conforms_joined [OF cf] by (simp_all add: joined_def)
qed

lemma convert_pk:
  assumes K: "arrow K" and fits: "schema_fits s schema" and al: "pk_aligned s"
    and conf: "\<forall>b \<in> set data. b_schema b = schema \<and> batch_conforms b"
    and role: "role = OldPk \<or> role = NewPk"
  shows "k_convert K (map snd (role_columns s (joined schema data) OldPk))
      (map fst (role_columns s (joined schema data) role)) =
    Inr (map (pk_at s (joined schema data) role) [0..<b_num_rows (joined schema data)])"
proof -
  let ?B = "joined schema data"
  note jf = joined_facts [OF fits conf]
  have "map fst (role_columns s ?B role) = map (\<lambda>p. b_columns ?B ! p) (role_positions s role)"
    by (simp add: role_columns_conv [OF jf(1,2)])
  moreover have "tuples \<dots> = map (pk_at s ?B role) [0..<b_num_rows ?B]"
    using pk_positions_nonempty [OF _ role] fits jf(3)
    by (subst tuples_pk [where n = "b_num_rows ?B"])
      (auto simp: schema_fits_def role_positions_mem pk_at_def)
  moreover have "length (map snd (role_columns s ?B OldPk)) = length (map fst (role_columns s ?B role))"
    using pk_aligned_length [OF al] role by (auto simp: role_columns_conv [OF jf(1,2)])
  ultimately show ?thesis using arrow.convert_ok [OF K] by metis
qed

lemma convert_nulls:
  assumes K: "arrow K" and fits: "schema_fits s schema"
    and conf: "\<forall>b \<in> set data. b_schema b = schema \<and> batch_conforms b"
  shows "k_convert K (map snd (role_columns s (joined schema data) OldPk))
      (map (\<lambda>_. [SNull]) (role_columns s (joined schema data) OldPk)) = Inr [null_pk s]"
proof -
  note jf = joined_facts [OF fits conf]
  have "role_positions s OldPk \<noteq> []" using fits pk_positions_nonempty by (auto simp: schema_fits_def)
  then show ?thesis
    using arrow.convert_ok [OF K, of "map snd (role_columns s (joined schema data) OldPk)"
        "map (\<lambda>_. [SNull]) (role_columns s (joined schema data) OldPk)"]
      tuples_nulls [of "role_positions s OldPk"]
    by (simp add: role_columns_conv [OF jf(1,2)] null_pk_def comp_def)
qed

lemma changed_are_boolean:
  assumes fits: "schema_fits s schema" and conf: "\<forall>b \<in> set data. b_schema b = schema \<and> batch_conforms b"
  shows "\<not> list_ex (\<lambda>(_, t). t \<noteq> DBoolean) (role_columns s (joined schema data) Changed)"
proof -
  note jf = joined_facts [OF fits conf]
  have "f_type (s_fields schema ! p) = DBoolean" if "p \<in> set (role_positions s Changed)" for p
  proof -
    have "p < length (columns s)" "col_role (columns s ! p) = Changed" using that by (auto simp: role_positions_mem)
    moreover from this have "col_field (columns s ! p) = s_fields schema ! p"
      using fits by (metis nth_map schema_fits_def)
    ultimately show ?thesis using fits nth_mem by (fastforce simp: schema_fits_def schema_valid_def)
  qed
  then show ?thesis
    by (auto simp: list_ex_iff role_columns_conv [OF jf(1,2)]) (simp add: joined_def)
qed

lemma surviving_in_range:
  "\<forall>c \<in> set (surviving s b). chain_first c < b_num_rows b \<and> chain_last c < b_num_rows b \<and>
     length (chain_chs c) = length (role_positions s Changed) \<and>
     (\<forall>r \<in> set (chain_chs c). r < b_num_rows b)"
proof -
  have "rows_in_range (b_num_rows b) (length (changed_arrays s b)) (squash_final s b)"
    unfolding squash_final_def by (rule rows_in_range_loop)
  then show ?thesis by (auto simp: surviving_def set_live_chains rows_in_range_def)
qed

lemma transpose_surviving:
  assumes one: "length (role_positions s Changed) \<le> 1"
  shows "transpose_rows (temp_rows (squash_final s b))
      (zip [0..<length (column_rows (squash_final s b))] (column_rows (squash_final s b))) ([], [], []) =
    (map chain_first (surviving s b), map chain_last (surviving s b),
     if role_positions s Changed = [] \<or> surviving s b = [] then []
     else [map (\<lambda>c. hd (chain_chs c)) (surviving s b)])"
proof -
  have "fold (push_changed \<circ> chain_chs) sel [] = []" if "\<forall>c \<in> set sel. chain_chs c = []" for sel
    using that by (induction sel) simp_all
  moreover have "length (role_positions s Changed) = 0 \<or> length (role_positions s Changed) = 1"
    using one by linarith
  ultimately have "fold (push_changed \<circ> chain_chs) (surviving s b) [] =
      (if role_positions s Changed = [] \<or> surviving s b = [] then []
       else [map (\<lambda>c. hd (chain_chs c)) (surviving s b)])"
    using surviving_in_range [of s b] fold_push_changed_one [of "surviving s b"] by auto
  then show ?thesis
    by (simp add: transpose_rows_eq surviving_def [symmetric] live_chains_def [symmetric] Let_def)
qed

lemma assign_indices_panic:
  assumes "\<exists>(p, c) \<in> set ps. col_role c = Changed"
  shows "assign_indices schema s olds news [] ps m = Inl (Panic ''index out of bounds'')"
  using assms
proof (induction ps arbitrary: m)
  case Nil
  then show ?case by simp
next
  case (Cons x ps)
  obtain p c where "x = (p, c)" by (cases x)
  with Cons show ?case by (cases "col_role c") (auto simp: assign_index_def)
qed


lemma final_index_in_range:
  assumes "p < length (columns s)"
    and one: "length (role_positions s Changed) \<le> 1"
    and i: "i \<in> set (final_index s (map chain_first (surviving s b)) (map chain_last (surviving s b))
        (map (\<lambda>c. hd (chain_chs c)) (surviving s b)) p)"
  shows "i < b_num_rows b"
proof -
  have hd_lt: "hd (chain_chs c) < b_num_rows b"
    if "c \<in> set (surviving s b)" "role_positions s Changed \<noteq> []" for c
  proof -
    have "chain_chs c \<noteq> []" using surviving_in_range [of s b] that by fastforce
    then show ?thesis using surviving_in_range [of s b] that by auto
  qed
  have "role_positions s Changed \<noteq> []"
    if "p \<in> changed_targets s (length (columns s)) \<or> col_role (columns s ! p) = Changed"
    using that assms(1) role_positions_mem [of _ s Changed] by (force simp: changed_targets_def)
  then show ?thesis
    using i hd_lt surviving_in_range [of s b]
    by (cases "col_role (columns s ! p)")
      (auto simp: final_index_def base_index_def split: if_splits)
qed

lemma gather_columns_ok:
  assumes K: "arrow K" and fits: "schema_fits s schema" and one: "length (role_positions s Changed) \<le> 1"
    and conf: "\<forall>b \<in> set data. b_schema b = schema \<and> batch_conforms b"
    and B: "B = joined schema data"
    and ix: "\<forall>p < length (columns s). indices p = Some (final_index s (map chain_first (surviving s B))
        (map chain_last (surviving s B)) (map (\<lambda>c. hd (chain_chs c)) (surviving s B)) p)"
  shows "bind_res (collect_res (\<lambda>col_id. case indices col_id of
        None \<Rightarrow> Inl (Panic ''Indices present'')
      | Some is \<Rightarrow> k_take K (b_columns B ! col_id) is) [0..<length (s_fields schema)])
    (\<lambda>cols. k_batch K schema cols) = Inr (gathered s B (surviving s B))"
proof -
  note jf = joined_facts [OF fits conf, folded B] and len = schema_fits_length [OF fits]
  let ?ix = "final_index s (map chain_first (surviving s B)) (map chain_last (surviving s B))
      (map (\<lambda>c. hd (chain_chs c)) (surviving s B))"
  let ?cols = "map (\<lambda>p. map (\<lambda>i. b_columns B ! p ! i) (?ix p)) [0..<length (columns s)]"
  have "collect_res (\<lambda>col_id. case indices col_id of
        None \<Rightarrow> Inl (Panic ''Indices present'')
      | Some is \<Rightarrow> k_take K (b_columns B ! col_id) is) [0..<length (s_fields schema)] = Inr ?cols"
    unfolding len
    by (rule collect_res_map)
      (use ix jf(3) final_index_in_range [OF _ one] in \<open>auto intro!: arrow.take_ok [OF K]\<close>)
  moreover have "k_batch K schema ?cols = Inr (gathered s B (surviving s B))"
  proof -
    have "conforms (s_fields schema ! p) (map (\<lambda>i. b_columns B ! p ! i) (?ix p))"
      if p: "p < length (columns s)" for p
      by (rule conforms_subset [OF jf(4) [OF p]])
        (use final_index_in_range [OF p one] jf(3) [OF p] in auto)
    then have "list_all2 conforms (s_fields schema) ?cols"
      by (simp add: list_all2_conv_all_nth len)
    moreover have "columns s \<noteq> []"
      using fits pk_positions_nonempty [of s OldPk] by (auto simp: schema_fits_def role_positions_def)
    moreover have "\<forall>c \<in> set ?cols. length c = length (surviving s B)"
      by (auto simp: final_index_def base_index_def split: ColumnRole.splits)
    ultimately show ?thesis
      using arrow.batch_ok [OF K, of schema ?cols "length (surviving s B)"]
      by (simp add: gathered_def B joined_def)
  qed
  ultimately show ?thesis by simp
qed

lemma squash_batches_run:
  assumes K: "arrow K" and fits: "schema_fits s schema" and al: "pk_aligned s"
    and one: "length (role_positions s Changed) \<le> 1" and ne: "data \<noteq> []"
    and conf: "\<forall>b \<in> set data. b_schema b = schema \<and> batch_conforms b"
    and B: "B = joined schema data"
  shows "squash_batches K s data =
    (if role_positions s Changed \<noteq> [] \<and> surviving s B = [] then Inl (Panic ''index out of bounds'')
     else Inr (gathered s B (surviving s B)))"
proof -
  note jf = joined_facts [OF fits conf, folded B]
  obtain first rest where data: "data = first # rest" using ne by (cases data) auto
  have sch: "b_schema first = schema" using conf data by simp
  have cat: "k_concat K schema data = Inr B"
    using arrow.concat_ok [OF K ne conf] by (simp add: B joined_def)
  have chg: "map fst (role_columns s B Changed) = changed_arrays s B"
    by (simp add: role_columns_conv [OF jf(1,2)])
  have loop: "squash_loop (changed_arrays s B) (map (pk_at s B OldPk) [0..<b_num_rows B])
      (map (pk_at s B NewPk) [0..<b_num_rows B]) (null_pk s) = squash_final s B"
    unfolding squash_final_def by (rule squash_loop_upto) simp_all
  let ?S = "surviving s B"
  let ?chgs = "if role_positions s Changed = [] \<or> ?S = [] then [] else [map (\<lambda>c. hd (chain_chs c)) ?S]"
  have "squash_batches K s data =
     bind_res (assign_indices schema s (map chain_first ?S) (map chain_last ?S) ?chgs
         (zip [0..<length (columns s)] (columns s)) Map.empty)
       (\<lambda>indices. bind_res (collect_res (\<lambda>col_id. case indices col_id of
            None \<Rightarrow> Inl (Panic ''Indices present'')
          | Some is \<Rightarrow> k_take K (b_columns B ! col_id) is) [0..<length (s_fields schema)])
        (\<lambda>cols. k_batch K schema cols))"
    unfolding squash_batches_def data list.case sch Let_def
    unfolding data [symmetric] cat bind_res_simps
      convert_pk [OF K fits al conf disjI1 [OF refl], folded B]
      convert_pk [OF K fits al conf disjI2 [OF refl], folded B] convert_nulls [OF K fits conf, folded B]
      list.case chg loop transpose_surviving [OF one] prod.case
    by (rule if_not_P) (rule changed_are_boolean [OF fits conf, folded B])
  also have "\<dots> = (if role_positions s Changed \<noteq> [] \<and> ?S = [] then Inl (Panic ''index out of bounds'')
     else Inr (gathered s B ?S))"
  proof (cases "role_positions s Changed \<noteq> [] \<and> ?S = []")
    case True
    then obtain p where "p < length (columns s)" "col_role (columns s ! p) = Changed"
      by (auto simp: role_positions_def filter_empty_conv)
    then have "\<exists>(p, c) \<in> set (zip [0..<length (columns s)] (columns s)). col_role c = Changed"
      by (force simp: zip_upt_conv)
    with True show ?thesis by (simp add: assign_indices_panic)
  next
    case False
    then have "role_positions s Changed \<noteq> [] \<Longrightarrow> ?chgs \<noteq> []" by simp
    from assign_indices_final [OF fits this]
    obtain indices where ind: "assign_indices schema s (map chain_first ?S) (map chain_last ?S) ?chgs
        (zip [0..<length (columns s)] (columns s)) Map.empty = Inr indices"
      "\<forall>p < length (columns s). indices p = Some (final_index s (map chain_first ?S) (map chain_last ?S) (hd ?chgs) p)"
      by blast
    have "final_index s (map chain_first ?S) (map chain_last ?S) (hd ?chgs) p =
        final_index s (map chain_first ?S) (map chain_last ?S) (map (\<lambda>c. hd (chain_chs c)) ?S) p"
      if "p < length (columns s)" for p
      using False that role_positions_mem [of _ s Changed]
      by (force simp: final_index_def base_index_def changed_targets_def split: ColumnRole.splits)
    with ind gather_columns_ok [OF K fits one conf B] False show ?thesis by simp
  qed
  finally show ?thesis .
qed



subsection \<open>From accepted descriptors to a fitting schema\<close>

lemma pair_ok_role:
  "pair_ok descs (cd, f) \<Longrightarrow> cd_role cd = column_role_as_i32 (cd_role_enum cd)"
  by (auto simp: pair_ok_def cd_role_enum_def column_role_try_from_eq_Some)

lemma cd_role_enum_iff:
  "pair_ok descs (cd, f) \<Longrightarrow> cd_role_enum cd = r \<longleftrightarrow> cd_role cd = column_role_as_i32 r"
  by (drule pair_ok_role, cases r; cases "cd_role_enum cd") (auto simp: column_role_as_i32_def)

lemma pk_types_of_pairs:
  assumes "list_all (pair_ok descs) ps"
    and "columns s = map sync_column_of ps"
  shows "pk_types s r = pair_types r ps"
proof -
  have "pk_types s r = {(cd_name cd, f_type f) | cd f. (cd, f) \<in> set ps \<and> cd_role_enum cd = r}"
    by (force simp: pk_types_def assms(2) sync_column_of_def)
  also have "\<dots> = pair_types r ps"
    using assms(1) cd_role_enum_iff unfolding pair_types_def list_all_iff by blast
  finally show ?thesis .
qed

lemma try_new_fits:
  assumes new: "try_new descs schema = Inr s"
    and flat: "length (s_flattened_fields schema) = length (s_fields schema)"
    and dist: "distinct (map f_name (s_fields schema))"
  shows "schema_fits s schema"
proof -
  let ?ps = "zip descs (s_fields schema)"
  let ?col = sync_column_of
  have len: "length descs = length (s_fields schema)"
    and ok: "list_all (pair_ok descs) ?ps"
    and pk: "pair_types OldPk ?ps \<noteq> {}" "pair_types OldPk ?ps = pair_types NewPk ?ps"
    and s: "columns s = map ?col ?ps"
    using new flat
    by (auto simp: try_new_def check_columns_Inr_iff bind_res_eq_Inr split: if_splits)
  have "map col_field (columns s) = map snd ?ps" by (simp add: s sync_column_of_def)
  then have fields: "map col_field (columns s) = s_fields schema" by (simp add: len)
  have changed: "f_type (col_field c) = DBoolean \<and> \<not> f_nullable (col_field c) \<and>
      schema_column s (col_name c) Value \<noteq> None"
    if c: "c \<in> set (columns s)" "col_role c = Changed" for c
  proof -
    obtain cd f where p: "(cd, f) \<in> set ?ps" "c = ?col (cd, f)" using c(1) by (auto simp: s)
    then have okp: "pair_ok descs (cd, f)" using ok by (simp add: list_all_iff)
    then have r: "cd_role cd = column_role_as_i32 Changed"
      using c(2) p by (simp add: cd_role_enum_iff sync_column_of_def)
    then obtain other where o: "other \<in> set descs" "cd_name other = cd_name cd"
      "cd_role other = column_role_as_i32 Value" using okp by (auto simp: pair_ok_def)
    then obtain i where i: "i < length descs" "descs ! i = other" by (auto simp: in_set_conv_nth)
    then have "?ps ! i = (other, s_fields schema ! i)" "i < length ?ps" using len by auto
    then obtain g where g: "(other, g) \<in> set ?ps" using nth_mem by metis
    then have "pair_ok descs (other, g)" using ok by (simp add: list_all_iff)
    then have "col_role (?col (other, g)) = Value"
      using o by (simp add: cd_role_enum_iff sync_column_of_def)
    moreover have "?col (other, g) \<in> set (columns s)" using g by (simp add: s)
    moreover have "col_name (?col (other, g)) = col_name c" using o p by (simp add: sync_column_of_def)
    ultimately have "schema_column s (col_name c) Value \<noteq> None"
      unfolding schema_column_def find_None_iff by blast
    then show ?thesis using okp r p by (simp add: pair_ok_def sync_column_of_def)
  qed
  have "schema_valid s"
    using pk changed unfolding schema_valid_def pk_types_of_pairs [OF ok s] by blast
  then show ?thesis using fields dist changed by (simp add: schema_fits_def)
qed



subsection \<open>A concrete set of kernels\<close>

definition list_kernels :: arrow_kernels where
  "list_kernels = \<lparr>
     k_concat = (\<lambda>s bs. Inr (joined s bs)),
     k_take = (\<lambda>a ix. if \<forall>i \<in> set ix. i < length a then Inr (map (\<lambda>i. a ! i) ix)
                       else Inl (Panic ''take index out of bounds'')),
     k_convert = (\<lambda>ts cols. if length ts = length cols then Inr (tuples cols)
                            else Inl (External ''row converter'')),
     k_batch = (\<lambda>s cols. Inr \<lparr>b_schema = s, b_columns = cols,
                               b_num_rows = (case cols of [] \<Rightarrow> 0 | c # _ \<Rightarrow> length c)\<rparr>),
     k_memory_size = (\<lambda>b. of_nat (sum_list (map length (b_columns b))))\<rparr>"

interpretation list_arrow: arrow list_kernels
  by unfold_locales (auto simp: list_kernels_def joined_def split: list.splits)


subsection \<open>The change set of the repository's unit test\<close>

text \<open>
  The batch of \<open>test_batch_squashing\<close> in \<open>utils.rs\<close>, with its floats scaled to integers, and a
  table that holds the two rows which the batch expects to exist.
\<close>

definition test_schema :: arrow_schema where
  "test_schema = (let fs =
     [\<lparr>f_name = ''old_c1'', f_type = DOther ''Int32'', f_nullable = True\<rparr>,
      \<lparr>f_name = ''new_c1'', f_type = DOther ''Int32'', f_nullable = True\<rparr>,
      \<lparr>f_name = ''value_c2'', f_type = DOther ''Float64'', f_nullable = True\<rparr>,
      \<lparr>f_name = ''changed_c3'', f_type = DBoolean, f_nullable = False\<rparr>,
      \<lparr>f_name = ''value_c3'', f_type = DOther ''Utf8'', f_nullable = True\<rparr>]
     in \<lparr>s_fields = fs, s_flattened_fields = fs\<rparr>)"

definition test_descs :: "ColumnDescriptor list" where
  "test_descs = [\<lparr>cd_role = 0, cd_name = ''c1''\<rparr>, \<lparr>cd_role = 1, cd_name = ''c1''\<rparr>,
     \<lparr>cd_role = 3, cd_name = ''c2''\<rparr>, \<lparr>cd_role = 2, cd_name = ''c3''\<rparr>, \<lparr>cd_role = 3, cd_name = ''c3''\<rparr>]"

definition test_sync_schema :: SyncSchema where
  "test_sync_schema = \<lparr>columns = map sync_column_of (zip test_descs (s_fields test_schema))\<rparr>"

definition test_rows :: "(scalar \<times> scalar \<times> scalar \<times> scalar \<times> scalar) list" where
  "test_rows =
    [(SNull, SInt 1, SInt 10, SBool True, SStr ''one''),
     (SNull, SInt 2, SInt 20, SBool False, SNull),
     (SNull, SInt 3, SInt 30, SBool True, SStr ''three''),
     (SInt 1, SInt 1, SInt 11, SBool True, SNull),
     (SInt 2, SInt (-2), SInt 21, SBool False, SNull),
     (SInt 3, SInt 6, SNull, SBool False, SNull),
     (SInt 4, SInt 4, SInt 44, SBool True, SStr ''four''),
     (SInt 5, SInt 5, SInt 50, SBool False, SStr ''five''),
     (SInt (-2), SInt 3, SInt 30, SBool True, SStr ''two''),
     (SInt 6, SNull, SInt 55, SBool True, SStr ''five''),
     (SInt 1, SInt 2, SInt 12, SBool False, SStr ''discarded''),
     (SInt 5, SNull, SNull, SBool False, SNull)]"

definition rows_batch :: "(scalar \<times> scalar \<times> scalar \<times> scalar \<times> scalar) list \<Rightarrow> record_batch" where
  "rows_batch rows = \<lparr>b_schema = test_schema,
     b_columns = [map (\<lambda>(a, b, c, d, e). a) rows, map (\<lambda>(a, b, c, d, e). b) rows,
       map (\<lambda>(a, b, c, d, e). c) rows, map (\<lambda>(a, b, c, d, e). d) rows, map (\<lambda>(a, b, c, d, e). e) rows],
     b_num_rows = length rows\<rparr>"

definition test_table :: "(string \<Rightarrow> scalar) table" where
  "test_table = [[SInt 4] \<mapsto> (\<lambda>_. SStr ''old four''), [SInt 5] \<mapsto> (\<lambda>_. SStr ''old five'')]"

lemma test_schema_accepted: "try_new test_descs test_schema = Inr test_sync_schema"
  by code_simp

lemma test_schema_flat:
  "length (s_flattened_fields test_schema) = length (s_fields test_schema)"
  "distinct (map f_name (s_fields test_schema))"
  "pk_aligned test_sync_schema"
  "length (map_columns test_sync_schema Changed col_name) = 1"
  by code_simp+

lemma test_rows_conform: "\<forall>b \<in> set [rows_batch test_rows]. b_schema b = test_schema \<and> batch_conforms b"
  by code_simp

lemma test_rows_consistent:
  "consistent_log (null_pk test_sync_schema) null_row
     (batch_log test_sync_schema (joined test_schema [rows_batch test_rows])) test_table"
  by code_simp

lemma test_rows_surviving:
  "length (surviving test_sync_schema (joined test_schema [rows_batch test_rows])) = 4"
  by code_simp

text \<open>The expected output of the unit test.\<close>

lemma test_rows_squashed:
  "squash_batches list_kernels test_sync_schema [rows_batch test_rows] = Inr (rows_batch
    [(SNull, SInt 2, SInt 12, SBool True, SNull),
     (SNull, SInt 3, SInt 30, SBool True, SStr ''two''),
     (SInt 4, SInt 4, SInt 44, SBool True, SStr ''four''),
     (SInt 5, SNull, SNull, SBool False, SStr ''five'')])"
  by code_simp


subsection \<open>The properties\<close>

lemma squash_batches_semantics:
  assumes "arrow K" and "schema_fits s schema" and "pk_aligned s"
    and one: "length (role_positions s Changed) \<le> 1" and "data \<noteq> []"
    and "\<forall>b \<in> set data. b_schema b = schema \<and> batch_conforms b"
    and con: "consistent_log (null_pk s) null_row (batch_log s (joined schema data)) T"
    and surv: "role_positions s Changed \<noteq> [] \<Longrightarrow> surviving s (joined schema data) \<noteq> []"
  shows "\<exists>out. squash_batches K s data = Inr out \<and>
    b_num_rows out = length (surviving s (joined schema data)) \<and>
    apply_at_once (null_pk s) null_row (batch_log s out) T =
      apply_log (null_pk s) null_row (batch_log s (joined schema data)) T"
proof -
  let ?B = "joined schema data"
  let ?n = "b_num_rows ?B"
  let ?olds = "map (pk_at s ?B OldPk) [0..<?n]" and ?news = "map (pk_at s ?B NewPk) [0..<?n]"
  let ?S = "surviving s ?B"
  have run: "squash_batches K s data = Inr (gathered s ?B ?S)"
    using squash_batches_run [OF assms(1-6) refl] surv by auto
  have log: "batch_log s ?B = log_of ?olds ?news (row_update s ?B) ?n"
    by (simp add: batch_log_def log_of_def)
  have "loop_inv (changed_arrays s ?B) ?olds ?news (null_pk s) T ?n (squash_final s ?B) \<and>
    table_of (null_pk s) null_row ?olds (chain_effect s ?B) T (squash_final s ?B) =
      apply_log (null_pk s) null_row (log_of ?olds ?news (row_update s ?B) ?n) T"
    unfolding squash_final_def
    by (rule loop_correct)
      (use con chain_effect_join [OF one] chain_effect_start [OF one] in \<open>simp_all add: log\<close>)
  moreover have "batch_log s (gathered s ?B ?S) = chain_log ?olds ?news (chain_effect s ?B) ?S"
    by (rule batch_log_gathered [OF one]) (use surviving_in_range [of s ?B] in auto)
  ultimately have "apply_at_once (null_pk s) null_row (batch_log s (gathered s ?B ?S)) T =
      apply_log (null_pk s) null_row (batch_log s ?B) T"
    using live_chains_at_once by (metis log surviving_def)
  moreover have "b_num_rows (gathered s ?B ?S) = length ?S" by (simp add: gathered_def)
  ultimately show ?thesis using run by blast
qed

lemma surviving_le: "length (surviving s b) \<le> b_num_rows b"
proof -
  have "length (column_rows (loop_upto ch os ns nl n)) \<le> n" for ch os ns nl n
  proof (induction n)
    case 0
    then show ?case by (simp add: loop_upto_simps squash_init_def)
  next
    case (Suc n)
    then show ?case
      by (cases "pk_chains (loop_upto ch os ns nl n) (os ! n)")
        (simp_all add: loop_upto_simps squash_step_join squash_step_start le_SucI)
  qed
  moreover have "length (live_chains st) \<le> length (column_rows st)" for st
    unfolding live_chains_conv by (simp add: order_trans [OF length_filter_le])
  ultimately show ?thesis unfolding surviving_def squash_final_def by (meson order_trans)
qed


text \<open>
  C3: squashing is correct. For a change set whose descriptors \<open>try_new\<close> accepts for a flat schema with
  distinct field names, with the key columns in the same order for the old and the new key and with
  at most one \<open>Changed\<close> column, \<open>squash_batches\<close> returns a batch, and applying that batch to
  a table all at once gives the table that the original rows produce when applied one after another,
  whenever those rows are consistent with the table (they update and delete rows that exist and
  do not take the key of another row). If there is a \<open>Changed\<close> column, some row must survive.
\<close>

theorem squash_batches_equivalent:
  assumes "arrow K" and "try_new descs schema = Inr s"
    and "length (s_flattened_fields schema) = length (s_fields schema)"
    and "distinct (map f_name (s_fields schema))" and "pk_aligned s"
    and "length (map_columns s Changed col_name) \<le> 1" and "data \<noteq> []"
    and "\<forall>b \<in> set data. b_schema b = schema \<and> batch_conforms b"
    and "consistent_log (null_pk s) null_row (batch_log s (joined schema data)) T"
    and "map_columns s Changed col_name \<noteq> [] \<longrightarrow> surviving s (joined schema data) \<noteq> []"
  shows "\<exists>out. squash_batches K s data = Inr out \<and>
    b_num_rows out = length (surviving s (joined schema data)) \<and>
    apply_at_once (null_pk s) null_row (batch_log s out) T =
      apply_log (null_pk s) null_row (batch_log s (joined schema data)) T"
proof -
  note fits = try_new_fits [OF assms(2-4)]
  have "length (role_positions s Changed) \<le> 1"
    and "role_positions s Changed \<noteq> [] \<Longrightarrow> surviving s (joined schema data) \<noteq> []"
    using assms(6,10) length_role_positions [of s Changed col_name] by auto
  then show ?thesis
    using squash_batches_semantics [OF assms(1) fits assms(5) _ assms(7-9)] by blast
qed

theorem squash_batches_equivalent_witness:
  "\<exists>out. squash_batches list_kernels test_sync_schema [rows_batch test_rows] = Inr out \<and>
    b_num_rows out = 4 \<and>
    apply_at_once (null_pk test_sync_schema) null_row (batch_log test_sync_schema out) test_table =
      apply_log (null_pk test_sync_schema) null_row
        (batch_log test_sync_schema (joined test_schema [rows_batch test_rows])) test_table"
proof -
  have "surviving test_sync_schema (joined test_schema [rows_batch test_rows]) \<noteq> []"
    using test_rows_surviving by auto
  then show ?thesis
    using squash_batches_equivalent [OF list_arrow.arrow_axioms test_schema_accepted test_schema_flat(1-3)
        _ _ test_rows_conform test_rows_consistent]
      test_rows_surviving test_schema_flat(4)
    by simp
qed

text \<open>
  squashing never adds rows, whatever the rows say: the row count of the result is at most that
  of the input, so that the difference reported to the metrics does not underflow.
\<close>

theorem squash_never_adds_rows:
  assumes "arrow K" and "try_new descs schema = Inr s"
    and "length (s_flattened_fields schema) = length (s_fields schema)"
    and "distinct (map f_name (s_fields schema))" and "pk_aligned s"
    and "length (map_columns s Changed col_name) \<le> 1" and "data \<noteq> []"
    and "\<forall>b \<in> set data. b_schema b = schema \<and> batch_conforms b"
    and "squash_batches K s data = Inr out"
  shows "b_num_rows out \<le> sum_list (map b_num_rows data)"
proof -
  note fits = try_new_fits [OF assms(2-4)]
  have "length (role_positions s Changed) \<le> 1"
    using assms(6) length_role_positions [of s Changed col_name] by auto
  from squash_batches_run [OF assms(1) fits assms(5) this assms(7,8) refl]
  have "out = gathered s (joined schema data) (surviving s (joined schema data))"
    using assms(9) by (auto split: if_splits)
  then show ?thesis
    using surviving_le [of s "joined schema data"] by (simp add: gathered_def joined_def)
qed

theorem squash_never_adds_rows_witness:
  "b_num_rows (rows_batch
    [(SNull, SInt 2, SInt 12, SBool True, SNull),
     (SNull, SInt 3, SInt 30, SBool True, SStr ''two''),
     (SInt 4, SInt 4, SInt 44, SBool True, SStr ''four''),
     (SInt 5, SNull, SNull, SBool False, SStr ''five'')])
   \<le> sum_list (map b_num_rows [rows_batch test_rows])"
  by (rule squash_never_adds_rows [OF list_arrow.arrow_axioms test_schema_accepted test_schema_flat(1-3)
      _ _ test_rows_conform test_rows_squashed]) (simp_all add: test_schema_flat(4))

text \<open>
  a change set with a \<open>Changed\<close> column in which no row survives (every row belongs to a chain that
  inserts a row and deletes it again) makes \<open>squash_batches\<close> panic at \<open>changed_indices[0]\<close>.
\<close>

theorem squash_all_temporary_panics:
  assumes "arrow K" and "try_new descs schema = Inr s"
    and "length (s_flattened_fields schema) = length (s_fields schema)"
    and "distinct (map f_name (s_fields schema))" and "pk_aligned s"
    and "length (map_columns s Changed col_name) = 1" and "data \<noteq> []"
    and "\<forall>b \<in> set data. b_schema b = schema \<and> batch_conforms b"
    and "surviving s (joined schema data) = []"
  shows "squash_batches K s data = Inl (Panic ''index out of bounds'')"
proof -
  note fits = try_new_fits [OF assms(2-4)]
  have "length (role_positions s Changed) = 1"
    using assms(6) length_role_positions [of s Changed col_name] by simp
  then have "length (role_positions s Changed) \<le> 1" "role_positions s Changed \<noteq> []" by auto
  with squash_batches_run [OF assms(1) fits assms(5) _ assms(7,8) refl] assms(9) show ?thesis by simp
qed


definition temporary_rows :: "(scalar \<times> scalar \<times> scalar \<times> scalar \<times> scalar) list" where
  "temporary_rows =
    [(SNull, SInt 1, SInt 10, SBool True, SStr ''one''),
     (SInt 1, SNull, SNull, SBool False, SNull)]"

theorem squash_all_temporary_panics_witness:
  "squash_batches list_kernels test_sync_schema [rows_batch temporary_rows] =
     Inl (Panic ''index out of bounds'')"
proof (rule squash_all_temporary_panics [OF list_arrow.arrow_axioms test_schema_accepted test_schema_flat(1-4)])
  show "\<forall>b \<in> set [rows_batch temporary_rows]. b_schema b = test_schema \<and> batch_conforms b"
    by code_simp
  show "surviving test_sync_schema (joined test_schema [rows_batch temporary_rows]) = []"
    by code_simp
qed simp

definition two_schema :: arrow_schema where
  "two_schema = (let fs =
     [\<lparr>f_name = ''old_k'', f_type = DOther ''Int32'', f_nullable = True\<rparr>,
      \<lparr>f_name = ''new_k'', f_type = DOther ''Int32'', f_nullable = True\<rparr>,
      \<lparr>f_name = ''changed_a'', f_type = DBoolean, f_nullable = False\<rparr>,
      \<lparr>f_name = ''value_a'', f_type = DOther ''Int32'', f_nullable = True\<rparr>,
      \<lparr>f_name = ''changed_b'', f_type = DBoolean, f_nullable = False\<rparr>,
      \<lparr>f_name = ''value_b'', f_type = DOther ''Int32'', f_nullable = True\<rparr>]
     in \<lparr>s_fields = fs, s_flattened_fields = fs\<rparr>)"

definition two_descs :: "ColumnDescriptor list" where
  "two_descs = [\<lparr>cd_role = 0, cd_name = ''k''\<rparr>, \<lparr>cd_role = 1, cd_name = ''k''\<rparr>,
     \<lparr>cd_role = 2, cd_name = ''a''\<rparr>, \<lparr>cd_role = 3, cd_name = ''a''\<rparr>,
     \<lparr>cd_role = 2, cd_name = ''b''\<rparr>, \<lparr>cd_role = 3, cd_name = ''b''\<rparr>]"

definition two_sync_schema :: SyncSchema where
  "two_sync_schema = \<lparr>columns = map sync_column_of (zip two_descs (s_fields two_schema))\<rparr>"

definition two_batch :: record_batch where
  "two_batch = \<lparr>b_schema = two_schema,
     b_columns = [[SInt 1, SInt 1], [SInt 1, SInt 1], [SBool True, SBool False], [SInt 10, SNull],
       [SBool False, SBool True], [SNull, SInt 20]],
     b_num_rows = 2\<rparr>"

definition two_squashed :: record_batch where
  "two_squashed = \<lparr>b_schema = two_schema,
     b_columns = [[SInt 1], [SInt 1], [SBool True], [SInt 10], [SBool False], [SNull]],
     b_num_rows = 1\<rparr>"

definition two_table :: "(string \<Rightarrow> scalar) table" where
  "two_table = [[SInt 1] \<mapsto> (\<lambda>_. SInt 0)]"


end
