(* ===== verification/SyncPlan.thy ===== *)
theory SyncPlan
  imports SyncSquashCorrect
begin

text \<open>
  Query plans of the sync writer (\<open>apply_sync\<close> of \<open>src/frontend/flight/sync/writer.rs\<close>): the
  expressions and the logical plan that upsert one squashed batch into the table. DataFusion builds
  and validates plans; \<open>df_valid\<close> is its verdict on a plan node, a parameter of the model.
\<close>

subsection \<open>Sync items, expressions and plans\<close>

type_synonym Origin = string
type_synonym SequenceNumber = u64
type_synonym Uuid = nat

record DataSyncItem =
  item_tx_id :: Uuid
  item_sync_schema :: SyncSchema
  item_batch :: record_batch

datatype expr =
    Col string
  | Lit scalar
  | LitNull data_type
  | IsNull expr
  | IsTrue expr
  | Not expr
  | And expr expr
  | Or expr expr
  | Between expr scalar scalar
  | When expr expr expr
  | Alias expr string

text \<open>Files of the Delta table, known through their path, size and row count statistics.\<close>

record Add =
  a_path :: string
  a_size :: int
  a_num_records :: "int option"

datatype plan =
    Scan "Add list"
  | ReadBatch record_batch
  | WithColumn plan string expr
  | FullJoin plan plan "string list" "string list"
  | Filter plan expr
  | Projection plan "expr list"

definition SYNC_JOIN_COLUMN :: string where
  "SYNC_JOIN_COLUMN = ''__sync_join''"

text \<open>\<open>into_iter().reduce(f)\<close> of Rust iterators.\<close>

fun reduce :: "('a \<Rightarrow> 'a \<Rightarrow> 'a) \<Rightarrow> 'a list \<Rightarrow> 'a option" where
  "reduce f [] = None"
| "reduce f (x # xs) = Some (foldl f x xs)"


subsection \<open>apply_sync\<close>

definition pk_nulls :: "SyncSchema \<Rightarrow> ColumnRole \<Rightarrow> (SyncError, expr) result" where
  "pk_nulls s role =
     ok_or (Panic ''unwrap on None'')
       (reduce And (map_columns s role (\<lambda>c. IsNull (Col (f_name (col_field c))))))"

definition project_field :: "SyncSchema \<Rightarrow> expr \<Rightarrow> expr \<Rightarrow> arrow_field \<Rightarrow> expr" where
  "project_field s old_pk_nulls new_pk_nulls f =
     (let name = f_name f;
          sync_col = (case schema_column s name Value of
                        Some c \<Rightarrow> Some c | None \<Rightarrow> schema_column s name NewPk)
      in Alias
        (case sync_col of
           Some sc \<Rightarrow>
             When (And old_pk_nulls new_pk_nulls) (Col name)
               (case schema_column s name Changed of
                  Some cc \<Rightarrow> When (IsTrue (Col (f_name (col_field cc))))
                              (Col (f_name (col_field sc))) (Col name)
                | None \<Rightarrow> Col (f_name (col_field sc)))
         | None \<Rightarrow> When (IsNull (Col SYNC_JOIN_COLUMN)) (LitNull (f_type f)) (Col name))
        name)"

definition apply_sync ::
    "(plan \<Rightarrow> (SyncError, plan) result) \<Rightarrow> arrow_schema \<Rightarrow> plan \<Rightarrow> SyncSchema \<Rightarrow> record_batch \<Rightarrow>
     (SyncError, plan) result" where
  "apply_sync df_valid full_schema input_df s data =
     bind_res (pk_nulls s OldPk) (\<lambda>old_pk_nulls.
     bind_res (pk_nulls s NewPk) (\<lambda>new_pk_nulls.
     bind_res (df_valid (ReadBatch data)) (\<lambda>sync_df.
     let input_pk_cols = map_columns s OldPk col_name;
         sync_pk_cols = map_columns s OldPk (\<lambda>c. f_name (col_field c));
         projection = map (project_field s old_pk_nulls new_pk_nulls) (s_flattened_fields full_schema)
     in
     bind_res (df_valid (WithColumn input_df SYNC_JOIN_COLUMN (Lit (SBool True)))) (\<lambda>with_col.
     bind_res (df_valid (FullJoin with_col sync_df input_pk_cols sync_pk_cols)) (\<lambda>joined_df.
     bind_res (df_valid (Filter joined_df (Not (And (Not old_pk_nulls) new_pk_nulls)))) (\<lambda>filtered.
     df_valid (Projection filtered projection)))))))"

text \<open>The loop of \<open>flush_syncs\<close> that applies all pending syncs in order.\<close>

fun apply_syncs ::
    "(plan \<Rightarrow> (SyncError, plan) result) \<Rightarrow> arrow_schema \<Rightarrow> plan \<Rightarrow> DataSyncItem list \<Rightarrow>
     (SyncError, plan) result" where
  "apply_syncs df_valid full_schema df [] = Inr df"
| "apply_syncs df_valid full_schema df (sync # syncs) =
     bind_res (apply_sync df_valid full_schema df (item_sync_schema sync) (item_batch sync))
       (\<lambda>df'. apply_syncs df_valid full_schema df' syncs)"

end
