(* ===== verification/SyncPrune.thy ===== *)
theory SyncPrune
  imports SyncPlan "HOL-Library.List_Lexorder" "HOL-Library.Char_ord"
begin

text \<open>
  Partition pruning of the sync writer: the coarse qualifier over the primary keys
  (\<open>construct_qualifier\<close>), the fine-grained map of affected files (\<open>get_prune_map\<close>), both of
  \<open>src/frontend/flight/sync/utils.rs\<close>, and \<open>prune_partitions\<close> of \<open>writer.rs\<close>. The theorems say that
  pruning never drops a file that holds a row with an affected primary key.
\<close>

subsection \<open>What the code takes from DataFusion and Arrow\<close>

text \<open>
  \<open>d_ge\<close> and \<open>d_le\<close> are the comparison kernels on one pair of values (\<open>None\<close> is NULL), \<open>d_min\<close> and
  \<open>d_max\<close> are what the min and max accumulators evaluate to after the given values, \<open>d_prune\<close> is
  \<open>PruningPredicate::prune\<close>. The statistics of a table snapshot are known through the accessors
  that the code calls.
\<close>

record snapshot =
  sn_files :: "Add list"
  sn_num_containers :: nat
  sn_min_values :: "string \<Rightarrow> scalar list option"
  sn_max_values :: "string \<Rightarrow> scalar list option"

record df_ops =
  d_ge :: "scalar \<Rightarrow> scalar \<Rightarrow> bool option"
  d_le :: "scalar \<Rightarrow> scalar \<Rightarrow> bool option"
  d_min :: "scalar list \<Rightarrow> scalar"
  d_max :: "scalar list \<Rightarrow> scalar"
  d_prune :: "expr \<Rightarrow> arrow_schema \<Rightarrow> snapshot \<Rightarrow> (SyncError, bool list) result"

definition column_by_name :: "record_batch \<Rightarrow> string \<Rightarrow> scalar list option" where
  "column_by_name b name = map_option (\<lambda>i. b_columns b ! i) (index_of (b_schema b) name)"

text \<open>Kleene conjunction of two values and of two arrays, and the masking of an array.\<close>

fun kleene_and :: "bool option \<Rightarrow> bool option \<Rightarrow> bool option" where
  "kleene_and (Some False) _ = Some False"
| "kleene_and _ (Some False) = Some False"
| "kleene_and (Some True) (Some True) = Some True"
| "kleene_and _ _ = None"

definition and_kleene :: "bool option list \<Rightarrow> bool option list \<Rightarrow> bool option list" where
  "and_kleene = map2 kleene_and"

definition is_not_null :: "scalar list \<Rightarrow> bool list" where
  "is_not_null = map (\<lambda>v. v \<noteq> SNull)"

definition mask :: "scalar list \<Rightarrow> bool list \<Rightarrow> scalar list" where
  "mask a m = map fst (filter snd (zip a m))"


subsection \<open>construct_qualifier\<close>

fun fetch_values :: "ColumnRole \<Rightarrow> string \<Rightarrow> DataSyncItem list \<Rightarrow> (SyncError, scalar list) result" where
  "fetch_values role pk_col [] = Inr []"
| "fetch_values role pk_col (sync # syncs) =
     (case schema_column (item_sync_schema sync) pk_col role of
        None \<Rightarrow> Inl (Panic ''unwrap on None'')
      | Some c \<Rightarrow>
          bind_res (fetch_values role pk_col syncs) (\<lambda>vs.
          Inr ((case column_by_name (item_batch sync) (f_name (col_field c)) of
                  None \<Rightarrow> [] | Some a \<Rightarrow> a) @ vs)))"

definition qualify_column :: "df_ops \<Rightarrow> string \<times> scalar list \<Rightarrow> (SyncError, expr option) result" where
  "qualify_column D = (\<lambda>(pk_col, vs).
     let mn = d_min D vs; mx = d_max D vs in
     if mn \<noteq> SNull \<and> mx \<noteq> SNull then Inr (Some (Between (Col pk_col) mn mx))
     else if mn = SNull \<and> mx = SNull then Inr None
     else Inl (Panic ''assertion failed''))"

definition construct_qualifier ::
    "df_ops \<Rightarrow> DataSyncItem list \<Rightarrow> ColumnRole \<Rightarrow> (SyncError, expr option) result" where
  "construct_qualifier D syncs role =
     (case syncs of
        [] \<Rightarrow> Inl (Panic ''At least one sync item in the queue'')
      | first # _ \<Rightarrow>
          bind_res (collect_res (\<lambda>name. bind_res (fetch_values role name syncs) (\<lambda>vs. Inr (name, vs)))
            (map_columns (item_sync_schema first) role col_name)) (\<lambda>min_max_values.
          bind_res (collect_res (qualify_column D) min_max_values) (\<lambda>qs.
          Inr (reduce And (List.map_filter (\<lambda>q. q) qs)))))"


subsection \<open>get_prune_map\<close>

text \<open>Statistics per key column and file; \<open>None\<close> for the whole result means that some key column
  has no statistics at all.\<close>

type_synonym stat_map = "string \<times> nat \<Rightarrow> scalar option"

definition add_stats :: "string \<Rightarrow> nat \<Rightarrow> scalar list option \<Rightarrow> stat_map \<Rightarrow> stat_map" where
  "add_stats name n vals m =
     (case vals of
        None \<Rightarrow> m
      | Some vs \<Rightarrow> (\<lambda>(c, file). if c = name \<and> file < n then Some (vs ! file) else m (c, file)))"

fun gather_stats ::
    "snapshot \<Rightarrow> string list \<Rightarrow> stat_map \<times> stat_map \<Rightarrow> (stat_map \<times> stat_map) option" where
  "gather_stats sn [] acc = Some acc"
| "gather_stats sn (c # cs) (mins, maxs) =
     (if sn_min_values sn c = None \<and> sn_max_values sn c = None then None
      else gather_stats sn cs
        (add_stats c (sn_num_containers sn) (sn_min_values sn c) mins,
         add_stats c (sn_num_containers sn) (sn_max_values sn c) maxs))"

text \<open>The inner loop over the key columns of one sync for one file.\<close>

fun prune_columns ::
    "df_ops \<Rightarrow> record_batch \<Rightarrow> stat_map \<Rightarrow> stat_map \<Rightarrow> nat \<Rightarrow> SyncColumn list \<Rightarrow>
     bool list option \<Rightarrow> bool option list option \<Rightarrow> (SyncError, bool option list option) result" where
  "prune_columns D b mins maxs ind [] non_null_map sync_prune_map = Inr sync_prune_map"
| "prune_columns D b mins maxs ind (pk_col # cols) non_null_map sync_prune_map =
     (case column_by_name b (f_name (col_field pk_col)) of
        None \<Rightarrow> Inl (Panic ''unwrap on None'')
      | Some array \<Rightarrow>
          let non_nulls = (case non_null_map of None \<Rightarrow> is_not_null array | Some m \<Rightarrow> m);
              vals = mask array non_nulls
          in if vals = [] then prune_columns D b mins maxs ind cols (Some non_nulls) sync_prune_map
             else
               let col_file = (col_name pk_col, ind);
                   verdict = (\<lambda>v.
                     case (mins col_file, maxs col_file) of
                       (Some mn, Some mx) \<Rightarrow> Some (kleene_and (d_ge D v mn) (d_le D v mx))
                     | (Some mn, None) \<Rightarrow> Some (d_ge D v mn)
                     | (None, Some mx) \<Rightarrow> Some (d_le D v mx)
                     | (None, None) \<Rightarrow> None)
               in if mins col_file = None \<and> maxs col_file = None
                  then Inl (Panic ''unreachable'')
                  else
                    let next = List.map_filter verdict vals
                    in prune_columns D b mins maxs ind cols (Some non_nulls)
                         (Some (case sync_prune_map of None \<Rightarrow> next | Some prev \<Rightarrow> and_kleene prev next)))"

definition prune_file ::
    "df_ops \<Rightarrow> stat_map \<Rightarrow> stat_map \<Rightarrow> ColumnRole \<Rightarrow> DataSyncItem \<Rightarrow> nat \<times> bool \<Rightarrow>
     (SyncError, bool) result" where
  "prune_file D mins maxs role sync = (\<lambda>(ind, used).
     if used then Inr True
     else bind_res (prune_columns D (item_batch sync) mins maxs ind
            (filter (\<lambda>c. col_role c = role) (columns (item_sync_schema sync))) None None)
       (\<lambda>m. Inr (case m of
                   None \<Rightarrow> False
                 | Some vs \<Rightarrow> Some True \<in> set vs \<or> None \<in> set vs)))"

fun prune_loop ::
    "df_ops \<Rightarrow> stat_map \<Rightarrow> stat_map \<Rightarrow> (ColumnRole \<times> DataSyncItem) list \<Rightarrow> bool list \<Rightarrow>
     (SyncError, bool list) result" where
  "prune_loop D mins maxs [] prune_map = Inr prune_map"
| "prune_loop D mins maxs ((role, sync) # rest) prune_map =
     bind_res (collect_res (prune_file D mins maxs role sync)
         (zip [0..<length prune_map] prune_map))
       (\<lambda>prune_map'. prune_loop D mins maxs rest prune_map')"

definition get_prune_map ::
    "df_ops \<Rightarrow> DataSyncItem list \<Rightarrow> snapshot \<Rightarrow> (SyncError, bool list) result" where
  "get_prune_map D syncs sn =
     (case syncs of
        [] \<Rightarrow> Inl (Panic ''unwrap on None'')
      | first # _ \<Rightarrow>
          (case gather_stats sn (map_columns (item_sync_schema first) OldPk col_name)
                 ((\<lambda>_. None), (\<lambda>_. None)) of
             None \<Rightarrow> Inr (replicate (sn_num_containers sn) True)
           | Some (mins, maxs) \<Rightarrow>
               prune_loop D mins maxs (List.product [OldPk, NewPk] syncs)
                 (replicate (sn_num_containers sn) False)))"


subsection \<open>prune_partitions\<close>

definition FINE_GRAINED_PRUNING_ROW_CRITERIA :: int where
  "FINE_GRAINED_PRUNING_ROW_CRITERIA = 3000000"

definition kept_files :: "Add list \<Rightarrow> bool list \<Rightarrow> Add list" where
  "kept_files files keep = map fst (filter snd (zip files keep))"

definition kept_rows :: "Add list \<Rightarrow> bool list \<Rightarrow> int" where
  "kept_rows files keep = sum_list (List.map_filter a_num_records (kept_files files keep))"

definition prune_partitions ::
    "df_ops \<Rightarrow> DataSyncItem list \<Rightarrow> arrow_schema \<Rightarrow> snapshot \<Rightarrow> (SyncError, Add list) result" where
  "prune_partitions D syncs full_schema sn =
     bind_res (construct_qualifier D syncs OldPk) (\<lambda>old_pk_qualifier.
     bind_res (construct_qualifier D syncs NewPk) (\<lambda>new_pk_qualifier.
     bind_res (case (old_pk_qualifier, new_pk_qualifier) of
                 (Some old_q, Some new_q) \<Rightarrow> Inr (Or old_q new_q)
               | (Some old_q, None) \<Rightarrow> Inr old_q
               | (None, Some new_q) \<Rightarrow> Inr new_q
               | (None, None) \<Rightarrow> Inl (Panic ''There can be no situation without either old or new PKs''))
       (\<lambda>qualifier.
     bind_res (d_prune D qualifier full_schema sn) (\<lambda>prune_map.
     bind_res (if kept_rows (sn_files sn) prune_map > FINE_GRAINED_PRUNING_ROW_CRITERIA
               then get_prune_map D syncs sn else Inr prune_map)
       (\<lambda>prune_map'. Inr (kept_files (sn_files sn) prune_map'))))))"



subsection \<open>The contract with the query engine\<close>

text \<open>
  \<open>file_rows sn i\<close> are the rows that file \<open>i\<close> of the snapshot holds. Statistics do not refute a row
  that is there, accumulators bound the values they were given, and the pruning predicate keeps
  every file with a row that satisfies the qualifier.
\<close>

fun satisfies :: "df_ops \<Rightarrow> (string \<Rightarrow> scalar) \<Rightarrow> expr \<Rightarrow> bool" where
  "satisfies D row (Between (Col c) mn mx) \<longleftrightarrow> d_ge D (row c) mn = Some True \<and> d_le D (row c) mx = Some True"
| "satisfies D row (And a b) \<longleftrightarrow> satisfies D row a \<and> satisfies D row b"
| "satisfies D row (Or a b) \<longleftrightarrow> satisfies D row a \<or> satisfies D row b"
| "satisfies D row _ \<longleftrightarrow> False"

locale pruning =
  fixes D :: df_ops and file_rows :: "snapshot \<Rightarrow> nat \<Rightarrow> (string \<Rightarrow> scalar) set"
  assumes min_truthful: "row \<in> file_rows sn i \<Longrightarrow> sn_min_values sn c = Some vs \<Longrightarrow>
      d_ge D (row c) (vs ! i) \<noteq> Some False"
    and max_truthful: "row \<in> file_rows sn i \<Longrightarrow> sn_max_values sn c = Some vs \<Longrightarrow>
      d_le D (row c) (vs ! i) \<noteq> Some False"
    and min_bound: "v \<in> set vs \<Longrightarrow> v \<noteq> SNull \<Longrightarrow> d_min D vs \<noteq> SNull \<and> d_ge D v (d_min D vs) = Some True"
    and max_bound: "v \<in> set vs \<Longrightarrow> v \<noteq> SNull \<Longrightarrow> d_max D vs \<noteq> SNull \<and> d_le D v (d_max D vs) = Some True"
    and all_null: "\<forall>v \<in> set vs. v = SNull \<Longrightarrow> d_min D vs = SNull"
    and min_max_null: "d_min D vs = SNull \<longleftrightarrow> d_max D vs = SNull"
    and prune_sound: "d_prune D q schema sn = Inr keep \<Longrightarrow> length keep = length (sn_files sn) \<and>
      (\<forall>i < length (sn_files sn). \<forall>row \<in> file_rows sn i. satisfies D row q \<longrightarrow> keep ! i)"


subsection \<open>Masks and ranks\<close>

definition rank :: "bool list \<Rightarrow> nat \<Rightarrow> nat" where
  "rank m j = length (filter (\<lambda>b. b) (take j m))"

lemma mask_rank_Cons:
  "mask (x # xs) (b # m) = (if b then x # mask xs m else mask xs m)"
  "rank (b # m) (Suc j) = (if b then Suc (rank m j) else rank m j)"
  "rank m 0 = 0"
  by (simp_all add: mask_def rank_def)

lemma rank_mask:
  "length a = length m \<Longrightarrow> j < length m \<Longrightarrow> m ! j \<Longrightarrow>
   rank m j < length (mask a m) \<and> mask a m ! rank m j = a ! j"
proof (induction m arbitrary: a j)
  case Nil
  then show ?case by simp
next
  case (Cons b m)
  then obtain x xs where a: "a = x # xs" by (cases a) auto
  show ?case
  proof (cases j)
    case 0
    with Cons.prems a show ?thesis by (simp add: mask_rank_Cons)
  next
    case (Suc i)
    with Cons.IH [of xs i] Cons.prems a show ?thesis by (simp add: mask_rank_Cons)
  qed
qed

lemma map_filter_total: "(\<And>x. x \<in> set xs \<Longrightarrow> f x = Some (g x)) \<Longrightarrow> List.map_filter f xs = map g xs"
  by (induction xs) (auto simp: List.map_filter_simps)

lemma kleene_and_not_False: "kleene_and a b \<noteq> Some False \<longleftrightarrow> a \<noteq> Some False \<and> b \<noteq> Some False"
  by (cases "(a, b)" rule: kleene_and.cases) auto

text \<open>The maps that the statistics loop builds.\<close>

definition stat_of :: "(string \<Rightarrow> scalar list option) \<Rightarrow> nat \<Rightarrow> string list \<Rightarrow> stat_map \<Rightarrow> stat_map" where
  "stat_of vals n names m = (\<lambda>(c, file).
     if c \<in> set names \<and> file < n \<and> vals c \<noteq> None then Some (the (vals c) ! file) else m (c, file))"

lemma add_stats_stat_of:
  "stat_of vals n names (add_stats c n (vals c) m) = stat_of vals n (c # names) m"
  by (auto simp: stat_of_def add_stats_def fun_eq_iff split: option.splits)

lemma gather_stats_Some:
  "gather_stats sn names (mins, maxs) = Some (mins', maxs') \<longleftrightarrow>
     (\<forall>c \<in> set names. sn_min_values sn c \<noteq> None \<or> sn_max_values sn c \<noteq> None) \<and>
     mins' = stat_of (sn_min_values sn) (sn_num_containers sn) names mins \<and>
     maxs' = stat_of (sn_max_values sn) (sn_num_containers sn) names maxs"
proof (induction names arbitrary: mins maxs)
  case Nil
  then show ?case by (auto simp: stat_of_def fun_eq_iff)
next
  case (Cons c names)
  then show ?case by (simp add: add_stats_stat_of)
qed



subsection \<open>Soundness of the fine-grained map\<close>

text \<open>
  Row \<open>j\<close> of a sync touches a table row through the key columns of a role if it has their values,
  none of them null.
\<close>

definition touches :: "DataSyncItem \<Rightarrow> ColumnRole \<Rightarrow> nat \<Rightarrow> (string \<Rightarrow> scalar) \<Rightarrow> bool" where
  "touches sync role j row \<longleftrightarrow> j < b_num_rows (item_batch sync) \<and>
     (\<forall>c \<in> set (columns (item_sync_schema sync)). col_role c = role \<longrightarrow>
        (\<exists>a. column_by_name (item_batch sync) (f_name (col_field c)) = Some a \<and>
             a ! j = row (col_name c) \<and> row (col_name c) \<noteq> SNull))"

text \<open>A sync can be pruned if its key columns are in its batch and have statistics.\<close>

definition prunable :: "stat_map \<Rightarrow> stat_map \<Rightarrow> nat \<Rightarrow> DataSyncItem \<Rightarrow> bool" where
  "prunable mins maxs n sync \<longleftrightarrow>
     (\<forall>c \<in> set (columns (item_sync_schema sync)). col_role c = OldPk \<or> col_role c = NewPk \<longrightarrow>
        (\<exists>a. column_by_name (item_batch sync) (f_name (col_field c)) = Some a \<and>
             length a = b_num_rows (item_batch sync)) \<and>
        (\<forall>i < n. mins (col_name c, i) \<noteq> None \<or> maxs (col_name c, i) \<noteq> None))"

definition verdict :: "df_ops \<Rightarrow> stat_map \<Rightarrow> stat_map \<Rightarrow> string \<times> nat \<Rightarrow> scalar \<Rightarrow> bool option" where
  "verdict D mins maxs cf v =
     (case (mins cf, maxs cf) of
        (Some mn, Some mx) \<Rightarrow> kleene_and (d_ge D v mn) (d_le D v mx)
      | (Some mn, None) \<Rightarrow> d_ge D v mn
      | (None, Some mx) \<Rightarrow> d_le D v mx
      | (None, None) \<Rightarrow> None)"

lemma prune_columns_step:
  assumes "column_by_name b (f_name (col_field c)) = Some a"
    and "mins (col_name c, ind) \<noteq> None \<or> maxs (col_name c, ind) \<noteq> None"
  shows "prune_columns D b mins maxs ind (c # cols) nn m =
    (let non_nulls = (case nn of None \<Rightarrow> is_not_null a | Some k \<Rightarrow> k); vals = mask a non_nulls;
         next = map (verdict D mins maxs (col_name c, ind)) vals
     in prune_columns D b mins maxs ind cols (Some non_nulls)
          (if vals = [] then m
           else Some (case m of None \<Rightarrow> next | Some prev \<Rightarrow> and_kleene prev next)))"
proof -
  have "List.map_filter (\<lambda>v. case (mins (col_name c, ind), maxs (col_name c, ind)) of
        (Some mn, Some mx) \<Rightarrow> Some (kleene_and (d_ge D v mn) (d_le D v mx))
      | (Some mn, None) \<Rightarrow> Some (d_ge D v mn)
      | (None, Some mx) \<Rightarrow> Some (d_le D v mx)
      | (None, None) \<Rightarrow> None) vals = map (verdict D mins maxs (col_name c, ind)) vals" for vals
    using assms(2) by (intro map_filter_total) (auto simp: verdict_def split: option.splits)
  then show ?thesis
    using assms by (auto simp: Let_def split: option.splits)
qed

text \<open>The map computed so far does not refute the row of rank \<open>r\<close>.\<close>

definition admits :: "nat \<Rightarrow> bool option list \<Rightarrow> bool" where
  "admits r vs \<longleftrightarrow> r < length vs \<and> vs ! r \<noteq> Some False"

lemma admits_and_kleene: "admits r vs \<Longrightarrow> admits r ws \<Longrightarrow> admits r (and_kleene vs ws)"
  by (simp add: admits_def and_kleene_def kleene_and_not_False)

lemma prune_columns_admits:
  assumes "\<forall>c \<in> set cols. \<exists>a. column_by_name b (f_name (col_field c)) = Some a \<and>
      length a = length nn \<and> verdict D mins maxs (col_name c, ind) (a ! j) \<noteq> Some False"
    and "\<forall>c \<in> set cols. mins (col_name c, ind) \<noteq> None \<or> maxs (col_name c, ind) \<noteq> None"
    and "j < length nn" and "nn ! j" and "admits (rank nn j) vs"
  shows "\<exists>ws. prune_columns D b mins maxs ind cols (Some nn) (Some vs) = Inr (Some ws) \<and> admits (rank nn j) ws"
  using assms
proof (induction cols arbitrary: vs)
  case Nil
  then show ?case by simp
next
  case (Cons c cols)
  obtain a where a: "column_by_name b (f_name (col_field c)) = Some a" "length a = length nn"
    "verdict D mins maxs (col_name c, ind) (a ! j) \<noteq> Some False" using Cons.prems(1) by auto
  have st: "mins (col_name c, ind) \<noteq> None \<or> maxs (col_name c, ind) \<noteq> None" using Cons.prems(2) by simp
  have rk: "rank nn j < length (mask a nn)" "mask a nn ! rank nn j = a ! j"
    using rank_mask [OF a(2) Cons.prems(3,4)] by auto
  then have "admits (rank nn j) (and_kleene vs (map (verdict D mins maxs (col_name c, ind)) (mask a nn)))"
    using a(3) Cons.prems(5) by (intro admits_and_kleene) (simp_all add: admits_def)
  moreover have "mask a nn \<noteq> []" using rk(1) by auto
  moreover have "\<exists>ws. prune_columns D b mins maxs ind cols (Some nn) (Some vs') = Inr (Some ws) \<and>
      admits (rank nn j) ws" if "admits (rank nn j) vs'" for vs'
    using Cons.IH [OF _ _ Cons.prems(3,4) that] Cons.prems(1,2) by simp
  ultimately show ?case
    by (simp del: prune_columns.simps add: prune_columns_step [where D = D and mins = mins and maxs = maxs and ind = ind, OF a(1) st] Let_def)
qed

lemma prune_file_finds:
  assumes D: "pruning D file_rows" and row: "row \<in> file_rows sn ind" and t: "touches sync role j row"
    and role: "role = OldPk \<or> role = NewPk" and pr: "prunable mins maxs n sync" and ind: "ind < n"
    and mins: "\<And>c. mins (c, ind) \<noteq> None \<Longrightarrow> \<exists>vs. sn_min_values sn c = Some vs \<and> mins (c, ind) = Some (vs ! ind)"
    and maxs: "\<And>c. maxs (c, ind) \<noteq> None \<Longrightarrow> \<exists>vs. sn_max_values sn c = Some vs \<and> maxs (c, ind) = Some (vs ! ind)"
    and ex: "\<exists>c \<in> set (columns (item_sync_schema sync)). col_role c = role"
  shows "prune_file D mins maxs role sync (ind, used) = Inr True"
proof -
  let ?b = "item_batch sync"
  let ?cols = "filter (\<lambda>c. col_role c = role) (columns (item_sync_schema sync))"
  have v: "verdict D mins maxs (c, ind) (row c) \<noteq> Some False" for c
    using mins [of c] maxs [of c] pruning.min_truthful [OF D row, of c] pruning.max_truthful [OF D row, of c]
    by (auto simp: verdict_def kleene_and_not_False split: option.splits)
  have col: "\<exists>a. column_by_name ?b (f_name (col_field c)) = Some a \<and> length a = b_num_rows ?b \<and>
      a ! j = row (col_name c) \<and> row (col_name c) \<noteq> SNull" if "c \<in> set ?cols" for c
    using that t pr role by (fastforce simp: touches_def prunable_def)
  have st: "mins (col_name c, ind) \<noteq> None \<or> maxs (col_name c, ind) \<noteq> None" if "c \<in> set ?cols" for c
    using that pr role ind by (fastforce simp: prunable_def)
  obtain c cols where cs: "?cols = c # cols" using ex by (cases ?cols) (auto simp: filter_empty_conv)
  then obtain a where a: "column_by_name ?b (f_name (col_field c)) = Some a" "length a = b_num_rows ?b"
    "a ! j = row (col_name c)" "row (col_name c) \<noteq> SNull" using col [of c] by auto
  let ?nn = "is_not_null a"
  have nn: "length a = length ?nn" "j < length ?nn" "?nn ! j"
    using a t by (auto simp: is_not_null_def touches_def)
  note rk = rank_mask [OF nn]
  have "admits (rank ?nn j) (map (verdict D mins maxs (col_name c, ind)) (mask a ?nn))"
    using rk v [of "col_name c"] a(3) by (simp add: admits_def)
  moreover have "\<forall>d \<in> set cols. \<exists>a'. column_by_name ?b (f_name (col_field d)) = Some a' \<and>
      length a' = length ?nn \<and> verdict D mins maxs (col_name d, ind) (a' ! j) \<noteq> Some False"
    using col cs v a(2) nn(1) by (metis list.set_intros(2))
  moreover have "\<forall>d \<in> set cols. mins (col_name d, ind) \<noteq> None \<or> maxs (col_name d, ind) \<noteq> None"
    using st cs by auto
  ultimately obtain ws where ws: "prune_columns D ?b mins maxs ind cols (Some ?nn)
      (Some (map (verdict D mins maxs (col_name c, ind)) (mask a ?nn))) = Inr (Some ws)" "admits (rank ?nn j) ws"
    using prune_columns_admits [of cols ?b ?nn D mins maxs ind j] nn by blast
  then have "prune_columns D ?b mins maxs ind ?cols None None = Inr (Some ws)"
    using rk prune_columns_step [where D = D and mins = mins and maxs = maxs and ind = ind, OF a(1)] st [of c]
    by (auto simp: cs Let_def)
  moreover have "Some True \<in> set ws \<or> None \<in> set ws"
    using ws(2) nth_mem [of "rank ?nn j" ws] by (cases "ws ! rank ?nn j") (auto simp: admits_def)
  ultimately show ?thesis by (auto simp: prune_file_def)
qed



text \<open>The loop only turns entries on, and it turns on the entry of a file that holds a touched row.\<close>

lemma prune_columns_ok:
  assumes "\<forall>c \<in> set cols. (\<exists>a. column_by_name b (f_name (col_field c)) = Some a) \<and>
      (mins (col_name c, ind) \<noteq> None \<or> maxs (col_name c, ind) \<noteq> None)"
  shows "\<exists>m'. prune_columns D b mins maxs ind cols nn m = Inr m'"
  using assms
proof (induction cols arbitrary: nn m)
  case Nil
  then show ?case by simp
next
  case (Cons c cols)
  then obtain a where a: "column_by_name b (f_name (col_field c)) = Some a"
    and st: "mins (col_name c, ind) \<noteq> None \<or> maxs (col_name c, ind) \<noteq> None" by auto
  show ?case
    using Cons
    by (simp only: prune_columns_step [where D = D and mins = mins and maxs = maxs and ind = ind, OF a st] Let_def)
       simp
qed

lemma prune_file_ok:
  assumes "prunable mins maxs n sync" and "ind < n" and "role = OldPk \<or> role = NewPk"
  shows "\<exists>u. prune_file D mins maxs role sync (ind, used) = Inr u \<and> (used \<longrightarrow> u)"
proof -
  have "\<exists>m'. prune_columns D (item_batch sync) mins maxs ind
      (filter (\<lambda>c. col_role c = role) (columns (item_sync_schema sync))) None None = Inr m'"
    by (rule prune_columns_ok) (use assms in \<open>fastforce simp: prunable_def\<close>)
  then show ?thesis by (auto simp: prune_file_def)
qed

lemma prune_loop_mono:
  assumes "\<forall>(role, sync) \<in> set work. (role = OldPk \<or> role = NewPk) \<and> prunable mins maxs n sync"
    and "length m = n"
  shows "\<exists>m'. prune_loop D mins maxs work m = Inr m' \<and> length m' = n \<and> (\<forall>i < n. m ! i \<longrightarrow> m' ! i)"
  using assms
proof (induction work arbitrary: m)
  case Nil
  then show ?case by simp
next
  case (Cons w work)
  obtain role sync where w: "w = (role, sync)" by (cases w)
  have ok: "\<exists>u. prune_file D mins maxs role sync (i, m ! i) = Inr u \<and> (m ! i \<longrightarrow> u)" if "i < n" for i
    using prune_file_ok [OF _ that] Cons.prems(1) w by auto
  define g where "g = (\<lambda>(i, u). case prune_file D mins maxs role sync (i, u) of Inr v \<Rightarrow> v | Inl _ \<Rightarrow> u)"
  have "collect_res (prune_file D mins maxs role sync) (zip [0..<length m] m) =
      Inr (map g (zip [0..<length m] m))"
    by (rule collect_res_map)
      (use ok Cons.prems(2) in \<open>fastforce simp: g_def zip_upt_conv\<close>)
  moreover have "m ! i \<longrightarrow> map g (zip [0..<length m] m) ! i" if "i < n" for i
    using ok [OF that] Cons.prems(2) that by (auto simp: g_def)
  ultimately show ?case
    using Cons.IH [of "map g (zip [0..<length m] m)"] Cons.prems w by fastforce
qed

lemma prune_loop_finds:
  assumes work: "\<forall>(role, sync) \<in> set work. (role = OldPk \<or> role = NewPk) \<and> prunable mins maxs n sync"
    and "length m = n" and i: "i < n" and hit: "(role, sync) \<in> set work"
    and hitfile: "\<And>u. prune_file D mins maxs role sync (i, u) = Inr True"
    and "prune_loop D mins maxs work m = Inr m'"
  shows "m' ! i"
  using assms(1,2,4,6)
proof (induction work arbitrary: m)
  case Nil
  then show ?case by simp
next
  case (Cons w work)
  obtain r s where w: "w = (r, s)" by (cases w)
  from Cons.prems(4) obtain m1 where m1: "collect_res (prune_file D mins maxs r s) (zip [0..<length m] m) = Inr m1"
    "prune_loop D mins maxs work m1 = Inr m'" by (auto simp: w bind_res_eq_Inr)
  then have len: "length m1 = n" and at: "prune_file D mins maxs r s (i, m ! i) = Inr (m1 ! i)"
    using Cons.prems(2) i by (auto simp: collect_res_Inr_iff list_all2_conv_all_nth)
  show ?case
  proof (cases "(role, sync) = w")
    case True
    then have "m1 ! i" using at hitfile w by auto
    with prune_loop_mono [OF _ len, of work mins maxs D] m1(2) Cons.prems(1) i show ?thesis by auto
  next
    case False
    with Cons.IH [OF _ len _ m1(2)] Cons.prems(1,3) show ?thesis by auto
  qed
qed


text \<open>What the sync writer guarantees of the items it prunes for: their key columns are those of the
  first item, and their batches hold the columns.\<close>

definition pk_names :: "SyncSchema \<Rightarrow> ColumnRole \<Rightarrow> string set" where
  "pk_names s role = set (map_columns s role col_name)"

definition prune_ready :: "DataSyncItem list \<Rightarrow> bool" where
  "prune_ready syncs \<longleftrightarrow> syncs \<noteq> [] \<and>
     pk_names (item_sync_schema (hd syncs)) OldPk \<noteq> {} \<and>
     (\<forall>sync \<in> set syncs. \<forall>role \<in> {OldPk, NewPk}.
        pk_names (item_sync_schema sync) role = pk_names (item_sync_schema (hd syncs)) OldPk) \<and>
     (\<forall>sync \<in> set syncs. \<forall>c \<in> set (columns (item_sync_schema sync)). col_role c \<in> {OldPk, NewPk} \<longrightarrow>
        (\<exists>a. column_by_name (item_batch sync) (f_name (col_field c)) = Some a \<and>
             length a = b_num_rows (item_batch sync)))"

lemma pk_names_iff: "n \<in> pk_names s role \<longleftrightarrow> (\<exists>c \<in> set (columns s). col_role c = role \<and> col_name c = n)"
  by (auto simp: pk_names_def map_columns_def)

lemma prune_ready_names:
  assumes "prune_ready syncs" and "sync \<in> set syncs" and "role = OldPk \<or> role = NewPk"
  shows "pk_names (item_sync_schema sync) role = pk_names (item_sync_schema (hd syncs)) OldPk"
  using assms unfolding prune_ready_def by blast

lemma prune_ready_nonempty:
  assumes "prune_ready syncs" and "sync \<in> set syncs" and "role = OldPk \<or> role = NewPk"
  shows "pk_names (item_sync_schema sync) role \<noteq> {}"
proof -
  have "pk_names (item_sync_schema (hd syncs)) OldPk \<noteq> {}"
    using assms(1) unfolding prune_ready_def by blast
  then show ?thesis by (simp only: prune_ready_names [OF assms] not_False_eq_True)
qed

lemma prune_ready_prunable:
  assumes ready: "prune_ready syncs" and sync: "sync \<in> set syncs"
    and g: "gather_stats sn (map_columns (item_sync_schema (hd syncs)) OldPk col_name)
        ((\<lambda>_. None), (\<lambda>_. None)) = Some (mins, maxs)"
  shows "prunable mins maxs (sn_num_containers sn) sync"
  unfolding prunable_def
proof (intro ballI impI conjI)
  fix c assume c: "c \<in> set (columns (item_sync_schema sync))" and role: "col_role c = OldPk \<or> col_role c = NewPk"
  show "\<exists>a. column_by_name (item_batch sync) (f_name (col_field c)) = Some a \<and>
      length a = b_num_rows (item_batch sync)"
    using ready sync c role unfolding prune_ready_def by blast
  have "col_name c \<in> pk_names (item_sync_schema sync) (col_role c)" using c by (auto simp: pk_names_iff)
  then have "col_name c \<in> pk_names (item_sync_schema (hd syncs)) OldPk"
    by (simp only: prune_ready_names [OF ready sync role])
  then have "col_name c \<in> set (map_columns (item_sync_schema (hd syncs)) OldPk col_name)"
    by (simp add: pk_names_def)
  with g show "\<forall>i < sn_num_containers sn. mins (col_name c, i) \<noteq> None \<or> maxs (col_name c, i) \<noteq> None"
    by (auto simp: gather_stats_Some stat_of_def)
qed

lemma get_prune_map_hd:
  "prune_ready syncs \<Longrightarrow> get_prune_map D syncs sn =
     (case gather_stats sn (map_columns (item_sync_schema (hd syncs)) OldPk col_name)
             ((\<lambda>_. None), (\<lambda>_. None)) of
        None \<Rightarrow> Inr (replicate (sn_num_containers sn) True)
      | Some (mins, maxs) \<Rightarrow> prune_loop D mins maxs (List.product [OldPk, NewPk] syncs)
          (replicate (sn_num_containers sn) False))"
  by (cases syncs) (auto simp: get_prune_map_def prune_ready_def)

lemma get_prune_map_finds:
  assumes D: "pruning D file_rows" and ready: "prune_ready syncs" and sync: "sync \<in> set syncs"
    and role: "role = OldPk \<or> role = NewPk" and t: "touches sync role j row"
    and i: "i < sn_num_containers sn" and row: "row \<in> file_rows sn i"
  shows "\<exists>keep. get_prune_map D syncs sn = Inr keep \<and> length keep = sn_num_containers sn \<and> keep ! i"
proof (cases "gather_stats sn (map_columns (item_sync_schema (hd syncs)) OldPk col_name) ((\<lambda>_. None), (\<lambda>_. None))")
  case None
  with i show ?thesis by (simp add: get_prune_map_hd [OF ready])
next
  case (Some mm)
  obtain mins maxs where mm: "mm = (mins, maxs)" by (cases mm)
  let ?work = "List.product [OldPk, NewPk] syncs"
  let ?m = "replicate (sn_num_containers sn) False"
  have work: "\<forall>(role, sync) \<in> set ?work. (role = OldPk \<or> role = NewPk) \<and> prunable mins maxs (sn_num_containers sn) sync"
    using prune_ready_prunable [OF ready] Some mm by auto
  have hit: "(role, sync) \<in> set ?work" using role sync by auto
  have ex: "\<exists>c \<in> set (columns (item_sync_schema sync)). col_role c = role"
    using prune_ready_nonempty [OF ready sync role] by (auto simp: pk_names_iff)
  have found: "prune_file D mins maxs role sync (i, u) = Inr True" for u
    using Some mm
    by (intro prune_file_finds [where file_rows = file_rows and sn = sn, OF D row t role _ i _ _ ex]
        prune_ready_prunable [OF ready sync]) (auto simp: gather_stats_Some stat_of_def split: if_splits)
  obtain m' where m': "prune_loop D mins maxs ?work ?m = Inr m'" "length m' = sn_num_containers sn"
    using prune_loop_mono [OF work, of ?m D] by auto
  then have "m' ! i" using prune_loop_finds [OF work _ i hit found m'(1)] by simp
  with m' Some mm show ?thesis by (simp add: get_prune_map_hd [OF ready])
qed


subsection \<open>Soundness of the coarse qualifier\<close>

lemma fetch_values_ok:
  assumes "\<forall>sync \<in> set syncs. n \<in> pk_names (item_sync_schema sync) role"
  shows "\<exists>vs. fetch_values role n syncs = Inr vs \<and>
    (\<forall>sync \<in> set syncs. \<exists>c. schema_column (item_sync_schema sync) n role = Some c \<and>
       (\<forall>a. column_by_name (item_batch sync) (f_name (col_field c)) = Some a \<longrightarrow> set a \<subseteq> set vs))"
  using assms
proof (induction syncs)
  case Nil
  then show ?case by simp
next
  case (Cons s syncs)
  then obtain c where c: "schema_column (item_sync_schema s) n role = Some c"
    by (cases "schema_column (item_sync_schema s) n role")
      (auto simp: schema_column_def pk_names_iff find_None_iff)
  with Cons show ?case by (fastforce split: option.splits)
qed

lemma qualify_column_ok:
  assumes "pruning D file_rows"
  shows "\<exists>q. qualify_column D (n, vs) = Inr q \<and>
     (v \<in> set vs \<and> v \<noteq> SNull \<longrightarrow> q = Some (Between (Col n) (d_min D vs) (d_max D vs)) \<and>
        d_ge D v (d_min D vs) = Some True \<and> d_le D v (d_max D vs) = Some True)"
  using pruning.min_bound [OF assms, of v vs] pruning.max_bound [OF assms, of v vs]
    pruning.min_max_null [OF assms, of vs]
  by (auto simp: qualify_column_def Let_def)

lemma satisfies_foldl_And:
  "satisfies D row (foldl And q qs) \<longleftrightarrow> satisfies D row q \<and> (\<forall>p \<in> set qs. satisfies D row p)"
  by (induction qs arbitrary: q) auto

lemma construct_qualifier_ok:
  assumes D: "pruning D file_rows" and ready: "prune_ready syncs" and role: "role = OldPk \<or> role = NewPk"
  shows "\<exists>q. construct_qualifier D syncs role = Inr q \<and>
     (sync \<in> set syncs \<and> touches sync role j row \<longrightarrow> (\<exists>e. q = Some e \<and> satisfies D row e))"
proof -
  obtain first rest where fr: "syncs = first # rest" using ready by (cases syncs) (auto simp: prune_ready_def)
  let ?names = "map_columns (item_sync_schema first) role col_name"
  have names: "\<forall>s \<in> set syncs. n \<in> pk_names (item_sync_schema s) role" if "n \<in> set ?names" for n
    using that prune_ready_names [OF ready _ role] fr by (auto simp: pk_names_def)
  define vals where "vals n = (case fetch_values role n syncs of Inr vs \<Rightarrow> vs | Inl _ \<Rightarrow> [])" for n
  define qual where "qual n = (case qualify_column D (n, vals n) of Inr q \<Rightarrow> q | Inl _ \<Rightarrow> None)" for n
  have fv: "fetch_values role n syncs = Inr (vals n)" if "n \<in> set ?names" for n
    using fetch_values_ok [OF names [OF that]] by (auto simp: vals_def)
  have "collect_res (\<lambda>n. bind_res (fetch_values role n syncs) (\<lambda>vs. Inr (n, vs))) ?names =
      Inr (map (\<lambda>n. (n, vals n)) ?names)"
    by (rule collect_res_map) (simp add: fv)
  moreover have "collect_res (qualify_column D) (map (\<lambda>n. (n, vals n)) ?names) =
      Inr (map (qual \<circ> fst) (map (\<lambda>n. (n, vals n)) ?names))"
  proof (rule collect_res_map)
    fix x assume "x \<in> set (map (\<lambda>n. (n, vals n)) ?names)"
    then obtain n where n: "x = (n, vals n)" by auto
    from qualify_column_ok [OF D, of n "vals n" SNull] show "qualify_column D x = Inr ((qual \<circ> fst) x)"
      by (auto simp: n qual_def)
  qed
  ultimately have run: "construct_qualifier D syncs role =
      Inr (reduce And (List.map_filter (\<lambda>q. q) (map qual ?names)))"
    by (simp add: construct_qualifier_def fr comp_def)
  have sat: "\<exists>e. qual n = Some e \<and> satisfies D row e"
    if n: "n \<in> set ?names" and sync: "sync \<in> set syncs" and t: "touches sync role j row" for n
  proof -
    from fetch_values_ok [OF names [OF n]] fv [OF n] sync obtain c where
      c: "schema_column (item_sync_schema sync) n role = Some c"
      "\<forall>a. column_by_name (item_batch sync) (f_name (col_field c)) = Some a \<longrightarrow> set a \<subseteq> set (vals n)" by auto
    then have "c \<in> set (columns (item_sync_schema sync))" "col_name c = n" "col_role c = role"
      using find_SomeD by (fastforce simp: schema_column_def)+
    with t c(2) ready sync role have "row n \<in> set (vals n)" "row n \<noteq> SNull"
      unfolding touches_def prune_ready_def by (metis insertCI nth_mem option.inject subset_eq)+
    with qualify_column_ok [OF D, of n "vals n" "row n"] show ?thesis by (auto simp: qual_def)
  qed
  have "?names \<noteq> []" using prune_ready_nonempty [OF ready _ role, of first] fr by (auto simp: pk_names_def)
  then obtain n ns where ns: "?names = n # ns" by (cases ?names) auto
  have "\<exists>e. reduce And (List.map_filter (\<lambda>q. q) (map qual ?names)) = Some e \<and> satisfies D row e"
    if st: "sync \<in> set syncs \<and> touches sync role j row"
  proof -
    have "List.map_filter (\<lambda>q. q) (map qual ?names) = map the (map qual ?names)"
      using sat st by (intro map_filter_total) (auto simp: image_iff, metis option.sel)
    with sat st ns show ?thesis by (fastforce simp: satisfies_foldl_And)
  qed
  with run show ?thesis by blast
qed


subsection \<open>Pruning a table\<close>

lemma kept_files_mem:
  assumes "i < length files" and "length keep = length files" and "keep ! i"
  shows "files ! i \<in> set (kept_files files keep)"
proof -
  have "(files ! i, keep ! i) \<in> set (zip files keep)"
    using assms by (metis (mono_tags) in_set_zip fst_conv snd_conv)
  with assms(3) have "(files ! i, keep ! i) \<in> set (filter snd (zip files keep))" by simp
  from imageI [OF this, of fst] show ?thesis by (simp add: kept_files_def)
qed

lemma qualifier_exists:
  assumes D: "pruning D file_rows" and ready: "prune_ready syncs" and sync: "sync \<in> set syncs"
    and role: "role = OldPk \<or> role = NewPk" and t: "touches sync role j row"
  obtains q where "satisfies D row q"
    and "prune_partitions D syncs schema sn = bind_res (d_prune D q schema sn) (\<lambda>prune_map.
      bind_res (if kept_rows (sn_files sn) prune_map > FINE_GRAINED_PRUNING_ROW_CRITERIA
                then get_prune_map D syncs sn else Inr prune_map)
        (\<lambda>prune_map'. Inr (kept_files (sn_files sn) prune_map')))"
proof -
  obtain qo where o: "construct_qualifier D syncs OldPk = Inr qo"
      "touches sync OldPk j row \<longrightarrow> (\<exists>e. qo = Some e \<and> satisfies D row e)"
    using construct_qualifier_ok [OF D ready, of OldPk sync j row] sync by auto
  obtain qn where n: "construct_qualifier D syncs NewPk = Inr qn"
      "touches sync NewPk j row \<longrightarrow> (\<exists>e. qn = Some e \<and> satisfies D row e)"
    using construct_qualifier_ok [OF D ready, of NewPk sync j row] sync by auto
  define q where "q = (case (qo, qn) of (Some a, Some b) \<Rightarrow> Or a b | (Some a, None) \<Rightarrow> a
      | (None, Some b) \<Rightarrow> b | (None, None) \<Rightarrow> Lit SNull)"
  have some: "(\<exists>e. qo = Some e \<and> satisfies D row e) \<or> (\<exists>e. qn = Some e \<and> satisfies D row e)"
    using o(2) n(2) role t by auto
  show ?thesis
  proof (rule that)
    show "satisfies D row q" using some by (auto simp: q_def split: option.splits)
  qed (use some o(1) n(1) in \<open>auto simp: prune_partitions_def q_def split: option.splits\<close>)
qed

lemma construct_qualifier_all_null:
  assumes D: "pruning D file_rows" and ready: "prune_ready syncs" and role: "role = OldPk \<or> role = NewPk"
    and empty: "\<forall>sync \<in> set syncs. b_num_rows (item_batch sync) = 0"
  shows "construct_qualifier D syncs role = Inr None"
proof -
  obtain first rest where fr: "syncs = first # rest" using ready by (cases syncs) (auto simp: prune_ready_def)
  let ?names = "map_columns (item_sync_schema first) role col_name"
  have cols: "column_by_name (item_batch s) (f_name (col_field c)) = Some []"
    if "s \<in> set syncs" "c \<in> set (columns (item_sync_schema s))" "col_role c = role" for s c
    using ready that role empty unfolding prune_ready_def by fastforce
  have vals: "fetch_values role n ss = Inr []"
    if "set ss \<subseteq> set syncs" "\<forall>s \<in> set ss. n \<in> pk_names (item_sync_schema s) role" for n ss
    using that
  proof (induction ss)
    case (Cons s ss)
    then obtain c where c: "schema_column (item_sync_schema s) n role = Some c"
      by (cases "schema_column (item_sync_schema s) n role")
        (auto simp: schema_column_def pk_names_iff find_None_iff)
    then have "column_by_name (item_batch s) (f_name (col_field c)) = Some []"
      using cols [of s c] find_SomeD Cons.prems(1) by (fastforce simp: schema_column_def)
    with Cons c show ?case by simp
  qed simp
  have names: "\<forall>s \<in> set syncs. n \<in> pk_names (item_sync_schema s) role" if "n \<in> set ?names" for n
    using that prune_ready_names [OF ready _ role] fr by (auto simp: pk_names_def)
  have q: "qualify_column D (n, []) = Inr None" for n
    using pruning.all_null [OF D, of "[]"] pruning.min_max_null [OF D, of "[]"]
    by (simp add: qualify_column_def Let_def)
  have "collect_res (\<lambda>n. bind_res (fetch_values role n syncs) (\<lambda>vs. Inr (n, vs))) ?names =
      Inr (map (\<lambda>n. (n, [])) ?names)"
    by (rule collect_res_map) (simp add: vals names)
  moreover have "collect_res (qualify_column D) (map (\<lambda>n. (n, [])) ?names) =
      Inr (map (\<lambda>_. None) (map (\<lambda>n. (n, [] :: scalar list)) ?names))"
    by (rule collect_res_map) (auto simp: q)
  moreover have "List.map_filter (\<lambda>q. q) (map (\<lambda>_. None :: expr option) xs) = []" for xs :: "string list"
    by (induction xs) (simp_all add: List.map_filter_simps)
  ultimately show ?thesis by (simp add: construct_qualifier_def fr comp_def)
qed


subsection \<open>An engine with total comparisons\<close>

text \<open>
  Scalars are ordered by kind and then by value; comparisons with null are null. \<open>stat_prune\<close>
  evaluates a qualifier on the minimum and maximum of every file, and a file may hold every row
  that its statistics do not refute.
\<close>

instantiation scalar :: linorder
begin

fun less_eq_scalar :: "scalar \<Rightarrow> scalar \<Rightarrow> bool" where
  "less_eq_scalar SNull _ = True"
| "less_eq_scalar _ SNull = False"
| "less_eq_scalar (SBool a) (SBool b) = (a \<le> b)"
| "less_eq_scalar (SBool _) _ = True"
| "less_eq_scalar _ (SBool _) = False"
| "less_eq_scalar (SInt a) (SInt b) = (a \<le> b)"
| "less_eq_scalar (SInt _) _ = True"
| "less_eq_scalar _ (SInt _) = False"
| "less_eq_scalar (SStr a) (SStr b) = (a \<le> b)"

definition less_scalar :: "scalar \<Rightarrow> scalar \<Rightarrow> bool" where
  "less_scalar a b = (a \<le> b \<and> \<not> b \<le> a)"

instance
proof
  fix x y z :: scalar
  show "x < y \<longleftrightarrow> x \<le> y \<and> \<not> y \<le> x" by (rule less_scalar_def)
  show "x \<le> x" by (cases x) simp_all
  show "x \<le> z" if "x \<le> y" "y \<le> z" using that by (cases x; cases y; cases z) auto
  show "x = y" if "x \<le> y" "y \<le> x" using that by (cases x; cases y) auto
  show "x \<le> y \<or> y \<le> x" by (cases x; cases y) auto
qed

end

definition sql_le :: "scalar \<Rightarrow> scalar \<Rightarrow> bool option" where
  "sql_le a b = (if a = SNull \<or> b = SNull then None else Some (a \<le> b))"

definition non_nulls :: "scalar list \<Rightarrow> scalar list" where
  "non_nulls vs = filter (\<lambda>v. v \<noteq> SNull) vs"

definition stat_admits :: "(scalar list option) \<Rightarrow> nat \<Rightarrow> (scalar \<Rightarrow> bool option) \<Rightarrow> bool" where
  "stat_admits vals i p = (case vals of None \<Rightarrow> True | Some vs \<Rightarrow> p (vs ! i) \<noteq> Some False)"

fun may_hold :: "snapshot \<Rightarrow> nat \<Rightarrow> expr \<Rightarrow> bool" where
  "may_hold sn i (Between (Col c) mn mx) \<longleftrightarrow>
     stat_admits (sn_max_values sn c) i (\<lambda>v. sql_le mn v) \<and> stat_admits (sn_min_values sn c) i (\<lambda>v. sql_le v mx)"
| "may_hold sn i (And a b) \<longleftrightarrow> may_hold sn i a \<and> may_hold sn i b"
| "may_hold sn i (Or a b) \<longleftrightarrow> may_hold sn i a \<or> may_hold sn i b"
| "may_hold sn i _ \<longleftrightarrow> True"

definition stat_df :: df_ops where
  "stat_df = \<lparr>d_ge = (\<lambda>a b. sql_le b a), d_le = sql_le,
     d_min = (\<lambda>vs. if non_nulls vs = [] then SNull else Min (set (non_nulls vs))),
     d_max = (\<lambda>vs. if non_nulls vs = [] then SNull else Max (set (non_nulls vs))),
     d_prune = (\<lambda>q _ sn. Inr (map (\<lambda>i. may_hold sn i q) [0..<length (sn_files sn)]))\<rparr>"

definition stat_rows :: "snapshot \<Rightarrow> nat \<Rightarrow> (string \<Rightarrow> scalar) set" where
  "stat_rows sn i = {row. \<forall>c. stat_admits (sn_min_values sn c) i (\<lambda>v. sql_le v (row c)) \<and>
     stat_admits (sn_max_values sn c) i (\<lambda>v. sql_le (row c) v)}"

lemma sql_le_trans:
  "sql_le a b = Some True \<Longrightarrow> sql_le b c \<noteq> Some False \<Longrightarrow> sql_le a c \<noteq> Some False"
  "sql_le a b \<noteq> Some False \<Longrightarrow> sql_le b c = Some True \<Longrightarrow> sql_le a c \<noteq> Some False"
  by (auto simp: sql_le_def split: if_splits)

lemma stat_rowsD:
  assumes "row \<in> stat_rows sn i"
  shows "stat_admits (sn_min_values sn c) i (\<lambda>v. sql_le v (row c))"
    and "stat_admits (sn_max_values sn c) i (\<lambda>v. sql_le (row c) v)"
  using assms by (auto simp: stat_rows_def)

lemma may_hold_satisfied:
  "satisfies stat_df row q \<Longrightarrow> row \<in> stat_rows sn i \<Longrightarrow> may_hold sn i q"
proof (induction sn i q rule: may_hold.induct)
  case (1 sn i c mn mx)
  with stat_rowsD [OF 1(2), of c] show ?case
    by (auto simp: stat_df_def stat_admits_def split: option.splits dest: sql_le_trans)
qed (auto simp: stat_df_def)

interpretation stat_df: pruning stat_df stat_rows
proof unfold_locales
  fix v :: scalar and vs
  assume v: "v \<in> set vs" "v \<noteq> SNull"
  then have mem: "v \<in> set (non_nulls vs)" "finite (set (non_nulls vs))" by (auto simp: non_nulls_def)
  then have "Min (set (non_nulls vs)) \<in> set (non_nulls vs)" "Max (set (non_nulls vs)) \<in> set (non_nulls vs)"
    by (auto intro: Min_in Max_in)
  then have nn: "Min (set (non_nulls vs)) \<noteq> SNull" "Max (set (non_nulls vs)) \<noteq> SNull"
    by (auto simp: non_nulls_def)
  show "d_min stat_df vs \<noteq> SNull \<and> d_ge stat_df v (d_min stat_df vs) = Some True"
    using mem nn v by (auto simp: stat_df_def sql_le_def)
  show "d_max stat_df vs \<noteq> SNull \<and> d_le stat_df v (d_max stat_df vs) = Some True"
    using mem nn v by (auto simp: stat_df_def sql_le_def)
next
  fix vs :: "scalar list"
  have "m \<noteq> SNull" if "m \<in> set (non_nulls vs)" for m using that by (simp add: non_nulls_def)
  then show "d_min stat_df vs = SNull \<longleftrightarrow> d_max stat_df vs = SNull"
    using Min_in [of "set (non_nulls vs)"] Max_in [of "set (non_nulls vs)"] by (auto simp: stat_df_def)
  show "d_min stat_df vs = SNull" if "\<forall>v \<in> set vs. v = SNull"
    using that by (simp add: stat_df_def non_nulls_def filter_empty_conv)
next
  fix q schema sn keep
  assume "d_prune stat_df q schema sn = Inr keep"
  then show "length keep = length (sn_files sn) \<and>
      (\<forall>i < length (sn_files sn). \<forall>row \<in> stat_rows sn i. satisfies stat_df row q \<longrightarrow> keep ! i)"
    using may_hold_satisfied by (auto simp: stat_df_def)
next
  fix row sn i c vs
  assume row: "row \<in> stat_rows sn i"
  show "d_ge stat_df (row c) (vs ! i) \<noteq> Some False" if "sn_min_values sn c = Some vs"
    using stat_rowsD(1) [OF row, of c] that by (simp add: stat_admits_def stat_df_def)
  show "d_le stat_df (row c) (vs ! i) \<noteq> Some False" if "sn_max_values sn c = Some vs"
    using stat_rowsD(2) [OF row, of c] that by (simp add: stat_admits_def stat_df_def)
qed

text \<open>
  C4: pruning is sound. Under the contract with the query engine, and when every item of the queue has
  the key columns of the first, \<open>prune_partitions\<close> returns, and the files it returns include every
  file of the snapshot that holds a row with the old or the new primary key of some change, in
  coarse as well as in fine-grained mode.
\<close>

theorem prune_partitions_sound:
  assumes D: "pruning D file_rows" and ready: "prune_ready syncs"
    and eng: "\<And>q. is_ok (d_prune D q full_schema sn)" and files: "length (sn_files sn) = sn_num_containers sn"
    and sync: "sync \<in> set syncs" and role: "role = OldPk \<or> role = NewPk" and t: "touches sync role j row"
    and i: "i < length (sn_files sn)" and row: "row \<in> file_rows sn i"
  shows "\<exists>kept. prune_partitions D syncs full_schema sn = Inr kept \<and> sn_files sn ! i \<in> set kept"
proof -
  obtain q where q: "satisfies D row q" and run:
    "prune_partitions D syncs full_schema sn = bind_res (d_prune D q full_schema sn) (\<lambda>prune_map.
      bind_res (if kept_rows (sn_files sn) prune_map > FINE_GRAINED_PRUNING_ROW_CRITERIA
                then get_prune_map D syncs sn else Inr prune_map)
        (\<lambda>prune_map'. Inr (kept_files (sn_files sn) prune_map')))"
    by (rule qualifier_exists [OF D ready sync role t])
  obtain keep where keep: "d_prune D q full_schema sn = Inr keep" using eng [of q] by (auto simp: is_ok_iff)
  have coarse: "length keep = length (sn_files sn)" "keep ! i"
    using pruning.prune_sound [OF D keep] i row q by auto
  obtain fine where fine: "get_prune_map D syncs sn = Inr fine" "length fine = length (sn_files sn)" "fine ! i"
    using get_prune_map_finds [OF D ready sync role t, of i sn] i row files by auto
  show ?thesis using run keep fine coarse i by (simp add: kept_files_mem)
qed

definition keyed_item :: "scalar list \<Rightarrow> scalar list \<Rightarrow> DataSyncItem" where
  "keyed_item olds news = \<lparr>item_tx_id = 1, item_sync_schema = test_sync_schema,
     item_batch = rows_batch (map2 (\<lambda>old new. (old, new, SNull, SBool False, SNull)) olds news)\<rparr>"

definition test_snapshot :: snapshot where
  "test_snapshot = \<lparr>
     sn_files = [\<lparr>a_path = ''part-0'', a_size = 100, a_num_records = Some 2000000\<rparr>,
                 \<lparr>a_path = ''part-1'', a_size = 200, a_num_records = Some 2000000\<rparr>,
                 \<lparr>a_path = ''part-2'', a_size = 300, a_num_records = None\<rparr>],
     sn_num_containers = 3,
     sn_min_values = (\<lambda>c. if c = ''c1'' then Some [SInt 1, SInt 11, SInt 21] else None),
     sn_max_values = (\<lambda>c. if c = ''c1'' then Some [SInt 10, SInt 20, SInt 30] else None)\<rparr>"

lemma keyed_item_pruned:
  "prune_partitions stat_df [keyed_item [SInt 2, SInt 25] [SInt 2, SNull]] test_schema test_snapshot =
     Inr [sn_files test_snapshot ! 0, sn_files test_snapshot ! 2]"
  by code_simp

theorem prune_partitions_sound_witness:
  "sn_files test_snapshot ! 2 \<in> set [sn_files test_snapshot ! 0, sn_files test_snapshot ! 2]"
proof -
  let ?item = "keyed_item [SInt 2, SInt 25] [SInt 2, SNull]"
  have "prune_ready [?item]" unfolding prune_ready_def ex_Some_code by code_simp
  moreover have "touches ?item OldPk 1 (\<lambda>c. SInt 25)" unfolding touches_def ex_Some_code by code_simp
  moreover have "(\<lambda>c. SInt 25) \<in> stat_rows test_snapshot 2"
    by (simp add: stat_rows_def stat_admits_def test_snapshot_def sql_le_def)
  ultimately obtain kept where "prune_partitions stat_df [?item] test_schema test_snapshot = Inr kept"
    "sn_files test_snapshot ! 2 \<in> set kept"
    using prune_partitions_sound [OF stat_df.pruning_axioms, of "[?item]" test_schema test_snapshot ?item
        OldPk 1 "\<lambda>c. SInt 25" 2]
    by (auto simp: stat_df_def test_snapshot_def)
  then show ?thesis using keyed_item_pruned by simp
qed

text \<open>
  A queue of items whose batches are all empty (what squashing leaves of changes that only insert
  and delete again) makes \<open>prune_partitions\<close> panic: neither old nor new keys give a qualifier.
\<close>

theorem prune_partitions_empty_panics:
  assumes "pruning D file_rows" and "prune_ready syncs"
    and "\<forall>sync \<in> set syncs. b_num_rows (item_batch sync) = 0"
  shows "prune_partitions D syncs full_schema sn =
    Inl (Panic ''There can be no situation without either old or new PKs'')"
  using construct_qualifier_all_null [OF assms(1,2) _ assms(3), of OldPk]
    construct_qualifier_all_null [OF assms(1,2) _ assms(3), of NewPk]
  by (simp add: prune_partitions_def)

theorem prune_partitions_empty_panics_witness:
  "prune_partitions stat_df [keyed_item [] []] test_schema test_snapshot =
    Inl (Panic ''There can be no situation without either old or new PKs'')"
proof (rule prune_partitions_empty_panics [OF stat_df.pruning_axioms])
  show "prune_ready [keyed_item [] []]" unfolding prune_ready_def ex_Some_code by code_simp
qed (simp add: keyed_item_def rows_batch_def)

end
