(* ===== verification/SyncWriter.thy ===== *)
theory SyncWriter
  imports SyncPrune
begin

text \<open>
  The sync writer (\<open>src/frontend/flight/sync/writer.rs\<close>): it queues change sets per table, flushes
  them to Delta tables and reports which transactions are durable. Every method of
  \<open>SeafowlDataSyncWriter\<close> is a definition here; a method on \<open>&mut self\<close> is a state transformer that
  keeps its changes when it returns early. The Delta tables, the clock and the generated ids are parameters.
\<close>

subsection \<open>Commit markers\<close>

record SyncCommitInfo =
  ci_version :: "8 word"
  ci_origin :: Origin
  ci_sequence :: SequenceNumber
  ci_new_tx :: bool

definition commit_info_new :: "Origin \<Rightarrow> SequenceNumber \<Rightarrow> SyncCommitInfo" where
  "commit_info_new origin sequence =
     \<lparr>ci_version = 0, ci_origin = origin, ci_sequence = sequence, ci_new_tx = False\<rparr>"

definition with_new_tx :: "bool \<Rightarrow> SyncCommitInfo \<Rightarrow> SyncCommitInfo" where
  "with_new_tx new_tx ci = ci\<lparr>ci_new_tx := new_tx\<rparr>"


subsection \<open>State\<close>

text \<open>
  The metrics facade records calls; the model keeps the calls in order, newest last. A log store is
  known through its root URI. Hash maps keyed by origin are lists of entries, since one
  loop iterates over them.
\<close>

datatype metric =
    RequestBytes u64
  | RequestRows u64
  | InMemoryBytes int
  | InMemoryRows int
  | InMemoryOldest u64
  | SquashTime u64
  | SquashedBytes u64
  | SquashedRows u64
  | PruningTime u64
  | PruningFiles nat
  | FlushTime u64
  | FlushBytes u64
  | FlushRows u64
  | FlushLast u64
  | FlushLag u64
  | SequenceDurable Origin SequenceNumber
  | SequenceMemory Origin SequenceNumber

record LogStore =
  root_uri :: string

record Transaction =
  tx_origin :: Origin
  tx_sequence :: "SequenceNumber option"
  tx_locations :: "string set"

record DataSyncCollection =
  c_size :: usize
  c_rows :: usize
  c_insertion_time :: u64
  c_log_store :: LogStore
  c_syncs :: "DataSyncItem list"

record DataSyncConfig =
  max_in_memory_bytes :: usize
  max_replication_lag_s :: u64
  max_syncs_per_url :: usize

record writer =
  w_txs :: "(Uuid, Transaction) imap"
  w_syncs :: "(string, DataSyncCollection) imap"
  w_size :: usize
  w_origin_memory :: "(Origin, SequenceNumber) imap"
  w_origin_durable :: "(Origin, SequenceNumber) imap"
  w_metrics :: "metric list"

definition new_writer :: writer where
  "new_writer = \<lparr>w_txs = [], w_syncs = [], w_size = 0, w_origin_memory = [], w_origin_durable = [],
     w_metrics = []\<rparr>"

text \<open>One reading of the clock: the time in seconds and the time that an operation took.\<close>

record clock =
  clk_now :: u64
  clk_elapsed :: u64

definition log_metrics :: "metric list \<Rightarrow> writer \<Rightarrow> writer" where
  "log_metrics ms w = w\<lparr>w_metrics := w_metrics w @ ms\<rparr>"

definition stored_sequences :: "writer \<Rightarrow> Origin \<Rightarrow> SequenceNumber option \<times> SequenceNumber option" where
  "stored_sequences w origin =
     (imap_get (w_origin_memory w) origin, imap_get (w_origin_durable w) origin)"

definition oldest_insertion :: "writer \<Rightarrow> u64" where
  "oldest_insertion w = (case imap_first (w_syncs w) of None \<Rightarrow> 0 | Some (_, c) \<Rightarrow> c_insertion_time c)"


subsection \<open>enqueue_sync\<close>

text \<open>The transaction that the message belongs to: the pending one, or a new one.\<close>

definition upsert_tx ::
    "Uuid \<Rightarrow> string \<Rightarrow> SequenceNumber option \<Rightarrow> Origin \<Rightarrow> usize \<Rightarrow> (writer, SyncError, Uuid) st" where
  "upsert_tx fresh url sequence_number origin sync_rows w =
     (let open_new =
        (case (sync_rows = 0, sequence_number) of
           (True, Some seq) \<Rightarrow> (Inl (InvalidMessage (EmptyTransaction origin seq)), w)
         | _ \<Rightarrow> (Inr fresh, w\<lparr>w_txs := imap_insert fresh
             \<lparr>tx_origin = origin, tx_sequence = sequence_number, tx_locations = {url}\<rparr> (w_txs w)\<rparr>))
      in case imap_last (w_txs w) of
           None \<Rightarrow> open_new
         | Some (tx_id, tx) \<Rightarrow>
             if tx_sequence tx \<noteq> None then open_new
             else if origin \<noteq> tx_origin tx
               then (Inl (InvalidMessage (UnfinishedTransaction origin (tx_origin tx))), w)
             else (Inr tx_id, w\<lparr>w_txs := imap_modify tx_id (\<lambda>tx. tx\<lparr>
                 tx_sequence := (if sequence_number = None then tx_sequence tx else sequence_number),
                 tx_locations := (if sync_rows > 0 then insert url (tx_locations tx) else tx_locations tx)\<rparr>)
               (w_txs w)\<rparr>))"

text \<open>Squash the batches and append the result to the collection of the table.\<close>

definition push_item :: "DataSyncItem \<Rightarrow> usize \<Rightarrow> usize \<Rightarrow> DataSyncCollection \<Rightarrow> DataSyncCollection" where
  "push_item item sz rows c =
     c\<lparr>c_syncs := c_syncs c @ [item], c_size := c_size c + sz, c_rows := c_rows c + rows\<rparr>"

definition store_item ::
    "arrow_kernels \<Rightarrow> clock \<Rightarrow> LogStore \<Rightarrow> Uuid \<Rightarrow> SyncSchema \<Rightarrow> record_batch list \<Rightarrow> usize \<Rightarrow> usize \<Rightarrow>
     (writer, SyncError, unit) st" where
  "store_item K clk log_store tx_id sync_schema batches sync_size sync_rows =
     bind_st (modify_st (log_metrics [RequestBytes sync_size, RequestRows sync_rows])) (\<lambda>_.
     bind_st (lift_res (squash_batches K sync_schema batches)) (\<lambda>batch.
     modify_st (\<lambda>w.
       let sz = k_memory_size K batch;
           rows = of_nat (b_num_rows batch);
           item = \<lparr>item_tx_id = tx_id, item_sync_schema = sync_schema, item_batch = batch\<rparr>;
           w' = w\<lparr>w_syncs := imap_upsert (root_uri log_store) (push_item item sz rows)
                    \<lparr>c_size = sz, c_rows = rows, c_insertion_time = clk_now clk,
                     c_log_store = log_store, c_syncs = [item]\<rparr> (w_syncs w),
                  w_size := w_size w + sz\<rparr>
       in log_metrics [InMemoryBytes (uint sz), InMemoryRows (uint rows), SquashTime (clk_elapsed clk),
            SquashedBytes (sync_size - sz), SquashedRows (sync_rows - rows),
            InMemoryOldest (oldest_insertion w')] w')))"

definition enqueue_sync ::
    "arrow_kernels \<Rightarrow> clock \<Rightarrow> Uuid \<Rightarrow> LogStore \<Rightarrow> SequenceNumber option \<Rightarrow> Origin \<Rightarrow> SyncSchema \<Rightarrow>
     record_batch list \<Rightarrow> (writer, SyncError, unit) st" where
  "enqueue_sync K clk fresh log_store sequence_number origin sync_schema batches =
     (let url = root_uri log_store;
          sync_size = foldl (\<lambda>sz batch. sz + k_memory_size K batch) 0 batches;
          sync_rows = foldl (\<lambda>rows batch. rows + of_nat (b_num_rows batch)) 0 batches
      in
      bind_st (upsert_tx fresh url sequence_number origin sync_rows) (\<lambda>tx_id.
      bind_st (if sync_rows > 0
               then store_item K clk log_store tx_id sync_schema batches sync_size sync_rows
               else return_st ()) (\<lambda>_.
      modify_st (\<lambda>w. case sequence_number of
          None \<Rightarrow> w
        | Some seq \<Rightarrow> log_metrics [SequenceMemory origin seq]
            (w\<lparr>w_origin_memory := imap_insert origin seq (w_origin_memory w)\<rparr>)))))"


subsection \<open>flush_ready\<close>

definition flush_ready :: "DataSyncConfig \<Rightarrow> clock \<Rightarrow> writer \<Rightarrow> (SyncError, string option) result" where
  "flush_ready conf clk w =
     (let by_lag = (case imap_first (w_syncs w) of
                      None \<Rightarrow> None
                    | Some (url, sync) \<Rightarrow>
                        if clk_now clk - c_insertion_time sync \<ge> max_replication_lag_s conf then Some url else None)
      in case by_lag of
           Some url \<Rightarrow> Inr (Some url)
         | None \<Rightarrow>
             if w_size w \<ge> max_in_memory_bytes conf
             then bind_res (ok_or (Panic ''unwrap on None'') (imap_first (w_syncs w))) (\<lambda>(url, _). Inr (Some url))
             else Inr (map_option fst
               (find (\<lambda>(_, entry). of_nat (length (c_syncs entry)) \<ge> max_syncs_per_url conf) (w_syncs w))))"


subsection \<open>What the writer takes from Delta Lake\<close>

text \<open>
  \<open>'j\<close> is the type of JSON values and \<open>'l\<close> the state of the object store with the Delta logs in it. A loaded
  table is known through its schema, its snapshot and the sync markers in the history entries that
  \<open>history(Some(1))\<close> returns.
\<close>

datatype 'j action =
    AddAction Add
  | RemoveAction string u64 int
  | CommitInfoAction string 'j

record 'j DeltaTable =
  dt_schema :: arrow_schema
  dt_snapshot :: snapshot
  dt_history :: "(SyncError, 'j option list) result"

record ('l, 'j) lake =
  lk_is_delta_table_location :: "LogStore \<Rightarrow> ('l, SyncError, bool) st"
  lk_delta_schema :: "arrow_field list \<Rightarrow> (SyncError, arrow_field list) result"
  lk_create :: "LogStore \<Rightarrow> arrow_field list \<Rightarrow> ('l, SyncError, unit) st"
  lk_load :: "LogStore \<Rightarrow> ('l, SyncError, 'j DeltaTable) st"
  lk_df :: df_ops
  lk_df_valid :: "plan \<Rightarrow> (SyncError, plan) result"
  lk_plan_to_object_store :: "plan \<Rightarrow> LogStore \<Rightarrow> string option \<Rightarrow> ('l, SyncError, Add list) st"
  lk_commit :: "'j action list \<Rightarrow> LogStore \<Rightarrow> ('l, SyncError, unit) st"
  lk_to_value :: "SyncCommitInfo \<Rightarrow> (SyncError, 'j) result"
  lk_from_value :: "'j \<Rightarrow> (SyncError, SyncCommitInfo option) result"

definition SYNC_COMMIT_INFO :: string where
  "SYNC_COMMIT_INFO = ''sync_commit_info''"

definition create_table :: "('l, 'j) lake \<Rightarrow> LogStore \<Rightarrow> SyncSchema \<Rightarrow> ('l, SyncError, unit) st" where
  "create_table E log_store sync_schema =
     (let fields = map (\<lambda>col. (col_field col)\<lparr>f_name := col_name col\<rparr>)
            (filter (\<lambda>col. col_role col = NewPk \<or> col_role col = Value) (columns sync_schema))
      in bind_st (lift_res (lk_delta_schema E fields)) (\<lambda>delta_fields. lk_create E log_store delta_fields))"

definition table_sequence :: "('l, 'j) lake \<Rightarrow> 'j DeltaTable \<Rightarrow> (SyncError, SyncCommitInfo option) result" where
  "table_sequence E table =
     bind_res (dt_history table) (\<lambda>commit_infos.
       if commit_infos = [] then Inl (Panic ''Table has non-zero commits'')
       else case last commit_infos of
              Some val \<Rightarrow> lk_from_value E val
            | None \<Rightarrow> Inr None)"


subsection \<open>skip_syncs\<close>

text \<open>The origin and sequence of a finished transaction.\<close>

definition finished :: "(Uuid, Transaction) imap \<Rightarrow> Uuid \<Rightarrow> (Origin \<times> SequenceNumber) option" where
  "finished txs tx_id =
     (case imap_get txs tx_id of
        None \<Rightarrow> None
      | Some tx \<Rightarrow> map_option (\<lambda>seq. (tx_origin tx, seq)) (tx_sequence tx))"

fun skip_start :: "(Uuid, Transaction) imap \<Rightarrow> SyncCommitInfo \<Rightarrow> DataSyncItem list \<Rightarrow> DataSyncItem list option" where
  "skip_start txs ci [] = None"
| "skip_start txs ci (sync # syncs) =
     (if finished txs (item_tx_id sync) = Some (ci_origin ci, ci_sequence ci) then Some syncs
      else skip_start txs ci syncs)"

definition skip_syncs ::
    "(Uuid, Transaction) imap \<Rightarrow> SyncCommitInfo option \<Rightarrow> DataSyncItem list \<Rightarrow>
     (SyncError, DataSyncItem list \<times> SyncCommitInfo option) result" where
  "skip_syncs txs last_sync_commit all_syncs =
     (let syncs = (case last_sync_commit of
                     None \<Rightarrow> all_syncs
                   | Some ci \<Rightarrow> (case skip_start txs ci all_syncs of None \<Rightarrow> all_syncs | Some rest \<Rightarrow> rest))
      in bind_res
           (if syncs = [] then Inr False
            else case imap_get txs (item_tx_id (last syncs)) of
                   None \<Rightarrow> Inl (Panic ''IndexMap: key not found'')
                 | Some tx \<Rightarrow> Inr (tx_sequence tx = None))
           (\<lambda>new_tx.
              Inr (syncs,
                case List.map_filter (\<lambda>sync. finished txs (item_tx_id sync)) (rev syncs) of
                  (origin, seq) # _ \<Rightarrow> Some (with_new_tx new_tx (commit_info_new origin seq))
                | [] \<Rightarrow> map_option (with_new_tx new_tx) last_sync_commit)))"


subsection \<open>Bookkeeping after a flush\<close>

definition remove_tx_location :: "string \<Rightarrow> Uuid \<Rightarrow> (Uuid, Transaction) imap \<Rightarrow> (Uuid, Transaction) imap" where
  "remove_tx_location url tx_id txs =
     imap_modify tx_id (\<lambda>tx. tx\<lparr>tx_locations := tx_locations tx - {url}\<rparr>) txs"

definition remove_tx_locations :: "string \<Rightarrow> Uuid list \<Rightarrow> writer \<Rightarrow> writer" where
  "remove_tx_locations url tx_ids w =
     w\<lparr>w_txs := fold (remove_tx_location url) tx_ids (w_txs w)\<rparr>"

definition remove_sync :: "string \<Rightarrow> writer \<Rightarrow> writer" where
  "remove_sync url w =
     (case imap_get (w_syncs w) url of
        None \<Rightarrow> w
      | Some sync \<Rightarrow>
          log_metrics [InMemoryBytes (- uint (c_size sync)), InMemoryRows (- uint (c_rows sync))]
            (w\<lparr>w_syncs := imap_shift_remove url (w_syncs w), w_size := w_size w - c_size sync\<rparr>))"

text \<open>The loop over the transactions: the durable ones and the new durable sequences.\<close>

fun durable_prefix ::
    "(Uuid, Transaction) imap \<Rightarrow> (Origin, SequenceNumber) imap \<Rightarrow> Uuid set \<times> (Origin, SequenceNumber) imap" where
  "durable_prefix [] durable = ({}, durable)"
| "durable_prefix ((tx_id, tx) # txs) durable =
     (case tx_sequence tx of
        Some seq \<Rightarrow>
          if tx_locations tx = {}
          then (case durable_prefix txs (imap_insert (tx_origin tx) seq durable) of
                  (ids, durable') \<Rightarrow> (insert tx_id ids, durable'))
          else ({}, durable)
      | None \<Rightarrow> ({}, durable))"

definition advance_durable :: "writer \<Rightarrow> writer" where
  "advance_durable w =
     (case durable_prefix (w_txs w) (w_origin_durable w) of
        (durable_txs, durable) \<Rightarrow>
          w\<lparr>w_origin_durable := durable, w_txs := filter (\<lambda>(tx_id, _). tx_id \<notin> durable_txs) (w_txs w)\<rparr>)"


subsection \<open>flush_syncs and flush\<close>

definition ensure_table :: "('l, 'j) lake \<Rightarrow> DataSyncCollection \<Rightarrow> ('l, SyncError, unit) st" where
  "ensure_table E entry =
     bind_st (lk_is_delta_table_location E (c_log_store entry)) (\<lambda>exists.
       if exists then return_st ()
       else case c_syncs entry of
              [] \<Rightarrow> lift_res (Inl (Panic ''unwrap on None''))
            | sync # _ \<Rightarrow> create_table E (c_log_store entry) (item_sync_schema sync))"

definition starts_with :: "string \<Rightarrow> string \<Rightarrow> bool" where
  "starts_with prefix s \<longleftrightarrow> take (length prefix) s = prefix"

text \<open>Rewriting the pruned files: from the plan to the commit.\<close>

definition write_syncs ::
    "('l, 'j) lake \<Rightarrow> clock \<Rightarrow> string \<Rightarrow> LogStore \<Rightarrow> 'j DeltaTable \<Rightarrow> DataSyncItem list \<Rightarrow>
     SyncCommitInfo option \<Rightarrow> Add list \<Rightarrow> ('l, SyncError, unit) st" where
  "write_syncs E clk url log_store table syncs new_sync_commit files =
     (let removes = map (\<lambda>add. RemoveAction (a_path add) (clk_now clk) (a_size add)) files;
          local_data_dir = (if starts_with ''file://'' url then Some (root_uri log_store) else None)
      in
      bind_st (lift_res (lk_df_valid E (Scan files))) (\<lambda>base_plan.
      bind_st (lift_res (apply_syncs (lk_df_valid E) (dt_schema table) base_plan syncs)) (\<lambda>input_plan.
      bind_st (lk_plan_to_object_store E input_plan log_store local_data_dir) (\<lambda>adds.
      bind_st (lift_res (case new_sync_commit of
                 None \<Rightarrow> Inr []
               | Some ci \<Rightarrow> bind_res (lk_to_value E ci) (\<lambda>v. Inr [CommitInfoAction SYNC_COMMIT_INFO v])))
        (\<lambda>commit_info.
      lk_commit E (map AddAction adds @ removes @ commit_info) log_store)))))"

definition finish_flush :: "clock \<Rightarrow> string \<Rightarrow> DataSyncCollection \<Rightarrow> writer \<Rightarrow> writer" where
  "finish_flush clk url entry w =
     (let w' = advance_durable (remove_sync url
                 (remove_tx_locations url (map item_tx_id (c_syncs entry)) w))
      in log_metrics ([FlushTime (clk_elapsed clk), FlushBytes (c_size entry), FlushRows (c_rows entry),
           FlushLast (clk_now clk), FlushLag (clk_now clk - c_insertion_time entry)] @
           map (\<lambda>(origin, seq). SequenceDurable origin seq) (w_origin_durable w')) w')"

definition rewrite_table ::
    "('l, 'j) lake \<Rightarrow> clock \<Rightarrow> string \<Rightarrow> DataSyncCollection \<Rightarrow> 'j DeltaTable \<Rightarrow> DataSyncItem list \<Rightarrow>
     SyncCommitInfo option \<Rightarrow> (writer \<times> 'l, SyncError, unit) st" where
  "rewrite_table E clk url entry table syncs new_sync_commit =
     bind_st (lift_res (prune_partitions (lk_df E) syncs (dt_schema table) (dt_snapshot table))) (\<lambda>files.
     bind_st (on_fst (modify_st (log_metrics [PruningTime (clk_elapsed clk), PruningFiles (length files)]))) (\<lambda>_.
     bind_st (on_snd (write_syncs E clk url (c_log_store entry) table syncs new_sync_commit files)) (\<lambda>_.
     on_fst (modify_st (finish_flush clk url entry)))))"

definition flush_syncs ::
    "('l, 'j) lake \<Rightarrow> clock \<Rightarrow> string \<Rightarrow> (writer \<times> 'l, SyncError, unit) st" where
  "flush_syncs E clk url = (\<lambda>(w, l).
     case imap_get (w_syncs w) url of
       None \<Rightarrow> (Inr (), (w, l))
     | Some entry \<Rightarrow>
         (bind_st (on_snd (ensure_table E entry)) (\<lambda>_.
          bind_st (on_snd (lk_load E (c_log_store entry))) (\<lambda>table.
          bind_st (lift_res (table_sequence E table)) (\<lambda>last_sync_commit.
          bind_st (lift_res (skip_syncs (w_txs w) last_sync_commit (c_syncs entry)))
            (\<lambda>(syncs, new_sync_commit).
          if syncs = [] then on_fst (modify_st (remove_sync url))
          else rewrite_table E clk url entry table syncs new_sync_commit))))) (w, l))"


subsection \<open>The invariant of the writer\<close>

text \<open>
  Keys are distinct; the sizes add up, modulo the width of \<open>usize\<close>; every pending item belongs to a
  known transaction in which its location is pending; only the last transaction may be unfinished.
\<close>

definition entry_ok :: "arrow_kernels \<Rightarrow> string \<Rightarrow> DataSyncCollection \<Rightarrow> bool" where
  "entry_ok K url c \<longleftrightarrow> root_uri (c_log_store c) = url \<and> c_syncs c \<noteq> [] \<and>
     c_size c = sum_list (map (\<lambda>i. k_memory_size K (item_batch i)) (c_syncs c)) \<and>
     c_rows c = sum_list (map (\<lambda>i. of_nat (b_num_rows (item_batch i))) (c_syncs c))"

definition registered :: "(Uuid, Transaction) imap \<Rightarrow> string \<Rightarrow> Uuid \<Rightarrow> bool" where
  "registered txs url tx_id \<longleftrightarrow> (case imap_get txs tx_id of None \<Rightarrow> False | Some tx \<Rightarrow> url \<in> tx_locations tx)"

definition pending :: "writer \<Rightarrow> string \<Rightarrow> DataSyncItem set" where
  "pending w url = (case imap_get (w_syncs w) url of None \<Rightarrow> {} | Some c \<Rightarrow> set (c_syncs c))"

definition txs_ok :: "(Uuid, Transaction) imap \<Rightarrow> bool" where
  "txs_ok txs \<longleftrightarrow> imap_wf txs \<and> (\<forall>(_, tx) \<in> set (butlast txs). tx_sequence tx \<noteq> None)"

definition writer_inv :: "arrow_kernels \<Rightarrow> writer \<Rightarrow> bool" where
  "writer_inv K w \<longleftrightarrow> txs_ok (w_txs w) \<and> imap_wf (w_syncs w) \<and>
     w_size w = imap_sum c_size (w_syncs w) \<and>
     (\<forall>(url, c) \<in> set (w_syncs w). entry_ok K url c) \<and>
     (\<forall>url. \<forall>item \<in> pending w url. registered (w_txs w) url (item_tx_id item))"

lemma log_metrics_sel [simp]:
  "w_txs (log_metrics ms w) = w_txs w" "w_syncs (log_metrics ms w) = w_syncs w"
  "w_size (log_metrics ms w) = w_size w" "w_origin_memory (log_metrics ms w) = w_origin_memory w"
  "w_origin_durable (log_metrics ms w) = w_origin_durable w"
  by (simp_all add: log_metrics_def)

lemma log_metrics_Nil: "log_metrics [] w = w"
  by (simp add: log_metrics_def)

lemma writer_inv_cong:
  assumes "w_txs w = w_txs w'" and "w_syncs w = w_syncs w'" and "w_size w = w_size w'"
  shows "writer_inv K w = writer_inv K w'" "pending w = pending w'"
  using assms by (simp_all add: writer_inv_def pending_def fun_eq_iff)

lemma writer_inv_new: "writer_inv K new_writer"
  by (simp add: writer_inv_def new_writer_def txs_ok_def pending_def)

text \<open>How a message changes the queue of transactions.\<close>

lemma imap_last_get: "imap_wf m \<Longrightarrow> imap_last m = Some (k, v) \<Longrightarrow> imap_get m k = Some v"
  by (auto simp: imap_last_def imap_get_iff_mem split: if_splits) (metis last_in_set)

lemma butlast_imap_modify: "butlast (imap_modify k f m) = imap_modify k f (butlast m)"
  by (simp add: imap_modify_def map_butlast)

lemma imap_modify_last:
  assumes "imap_wf m" and "imap_last m = Some (k, v)"
  shows "butlast (imap_modify k f m) = butlast m"
proof -
  have "m = butlast m @ [(k, v)]"
    using assms(2) by (auto simp: imap_last_def split: if_splits) (metis append_butlast_last_id)
  then have "imap_get (butlast m) k = None"
    using assms(1) by (metis (no_types, lifting) distinct_append fst_conv imap_wf_def list.set_intros(1)
        list.simps(9) map_append map_of_eq_None_iff disjoint_iff set_map)
  then show ?thesis by (simp add: butlast_imap_modify imap_modify_absent)
qed

lemma imap_insert_fresh: "imap_get m k = None \<Longrightarrow> imap_insert k v m = m @ [(k, v)]"
  by (simp add: imap_insert_def imap_upsert_def)

definition tx_le :: "Transaction \<Rightarrow> Transaction \<Rightarrow> bool" where
  "tx_le tx tx' \<longleftrightarrow> tx_origin tx = tx_origin tx' \<and> tx_locations tx \<subseteq> tx_locations tx' \<and>
     (tx_sequence tx \<noteq> None \<longrightarrow> tx' = tx)"

lemma upsert_tx_error: "upsert_tx fresh url seq origin rows w = (Inl e, w') \<Longrightarrow> w' = w"
  by (auto simp: upsert_tx_def Let_def split: option.splits if_splits bool.splits prod.splits)

lemma upsert_tx_ok:
  assumes up: "upsert_tx fresh url seq origin rows w = (Inr tx_id, w')"
    and txs: "txs_ok (w_txs w)" and fresh: "imap_get (w_txs w) fresh = None"
  shows "w' = w\<lparr>w_txs := w_txs w'\<rparr>" and "txs_ok (w_txs w')"
    and "rows > 0 \<Longrightarrow> registered (w_txs w') url tx_id"
    and "imap_get (w_txs w) i = Some tx \<Longrightarrow> \<exists>tx'. imap_get (w_txs w') i = Some tx' \<and> tx_le tx tx'"
proof -
  consider (new) "tx_id = fresh"
      "w' = w\<lparr>w_txs := w_txs w @ [(fresh, \<lparr>tx_origin = origin, tx_sequence = seq, tx_locations = {url}\<rparr>)]\<rparr>"
      "\<forall>k tx. imap_last (w_txs w) = Some (k, tx) \<longrightarrow> tx_sequence tx \<noteq> None"
    | (joined) tx where "imap_last (w_txs w) = Some (tx_id, tx)" "tx_sequence tx = None" "origin = tx_origin tx"
      "w' = w\<lparr>w_txs := imap_modify tx_id (\<lambda>tx. tx\<lparr>
          tx_sequence := (if seq = None then tx_sequence tx else seq),
          tx_locations := (if rows > 0 then insert url (tx_locations tx) else tx_locations tx)\<rparr>) (w_txs w)\<rparr>"
    using up fresh
    by (auto simp: upsert_tx_def Let_def imap_insert_fresh split: option.splits if_splits bool.splits prod.splits)
  then have "w' = w\<lparr>w_txs := w_txs w'\<rparr> \<and> txs_ok (w_txs w') \<and>
      (rows > 0 \<longrightarrow> registered (w_txs w') url tx_id) \<and>
      (imap_get (w_txs w) i = Some tx \<longrightarrow> (\<exists>tx'. imap_get (w_txs w') i = Some tx' \<and> tx_le tx tx'))"
  proof cases
    case new
    have "\<forall>(_, tx) \<in> set (w_txs w). tx_sequence tx \<noteq> None"
    proof (cases "w_txs w = []")
      case False
      then obtain ys k tx where ys: "w_txs w = ys @ [(k, tx)]" by (metis append_butlast_last_id surj_pair)
      with txs new(3) show ?thesis by (auto simp: txs_ok_def imap_last_def)
    qed simp
    moreover have "imap_wf (w_txs w')"
      using txs fresh imap_wf_insert [of "w_txs w" fresh] new(2) by (simp add: txs_ok_def imap_insert_fresh)
    ultimately show ?thesis
      using new fresh by (auto simp: txs_ok_def registered_def tx_le_def map_add_def split: option.splits)
  next
    case (joined t)
    then have "imap_get (w_txs w) tx_id = Some t" using imap_last_get txs by (auto simp: txs_ok_def)
    with joined txs show ?thesis
      using imap_modify_last [OF _ joined(1)]
      by (auto simp: txs_ok_def registered_def tx_le_def imap_simps)
  qed
  then show "w' = w\<lparr>w_txs := w_txs w'\<rparr>" and "txs_ok (w_txs w')"
    and "rows > 0 \<Longrightarrow> registered (w_txs w') url tx_id"
    and "imap_get (w_txs w) i = Some tx \<Longrightarrow> \<exists>tx'. imap_get (w_txs w') i = Some tx' \<and> tx_le tx tx'"
    by blast+
qed

text \<open>A new item joins the pending items of its location; nothing else moves.\<close>

definition add_item :: "string \<Rightarrow> DataSyncCollection \<Rightarrow> DataSyncItem \<Rightarrow> usize \<Rightarrow> usize \<Rightarrow> writer \<Rightarrow> writer" where
  "add_item url c item sz rows w =
     w\<lparr>w_syncs := imap_upsert url (push_item item sz rows) c (w_syncs w), w_size := w_size w + sz\<rparr>"

lemma pending_add_item:
  "c_syncs c = [item] \<Longrightarrow>
   pending (add_item url c item sz rows w) u = (if u = url then insert item (pending w url) else pending w u)"
  by (auto simp: pending_def add_item_def imap_simps push_item_def split: option.splits)

lemma add_item_inv:
  assumes inv: "writer_inv K w" and reg: "registered (w_txs w) url (item_tx_id item)"
    and c: "c_syncs c = [item]" "c_size c = sz" "c_rows c = rows" "root_uri (c_log_store c) = url"
    and sz: "sz = k_memory_size K (item_batch item)" and rows: "rows = of_nat (b_num_rows (item_batch item))"
  shows "writer_inv K (add_item url c item sz rows w)"
proof -
  let ?w = "add_item url c item sz rows w"
  have wf: "imap_wf (w_syncs w)" and total: "w_size w = imap_sum c_size (w_syncs w)"
    and ok: "\<And>u d. imap_get (w_syncs w) u = Some d \<Longrightarrow> entry_ok K u d"
    using inv by (auto simp: writer_inv_def imap_get_iff_mem)
  have wf': "imap_wf (w_syncs ?w)" using wf by (simp add: add_item_def)
  have "w_size ?w = imap_sum c_size (w_syncs ?w)"
  proof (cases "imap_get (w_syncs w) url")
    case None
    with c total show ?thesis by (simp add: add_item_def imap_upsert_def)
  next
    case (Some d)
    with imap_sum_modify [OF wf Some, of c_size "push_item item sz rows" sz] total show ?thesis
      by (simp add: add_item_def imap_upsert_def push_item_def)
  qed
  moreover have "entry_ok K u d" if "(u, d) \<in> set (w_syncs ?w)" for u d
  proof -
    from that wf' have "imap_get (w_syncs ?w) u = Some d" by (simp add: imap_get_iff_mem)
    then consider (other) "imap_get (w_syncs w) u = Some d" | (first) "u = url" "d = c"
      | (more) d0 where "u = url" "imap_get (w_syncs w) u = Some d0" "d = push_item item sz rows d0"
      by (auto simp: add_item_def imap_simps split: if_splits option.splits)
    then show ?thesis
    proof cases
      case more
      from ok [OF more(2)] more show ?thesis by (simp add: entry_ok_def push_item_def sz rows)
    qed (use ok c sz rows in \<open>simp_all add: entry_ok_def\<close>)
  qed
  moreover have "w_txs ?w = w_txs w" by (simp add: add_item_def)
  ultimately show ?thesis
    using inv wf' reg c by (auto simp: writer_inv_def pending_add_item)
qed

text \<open>\<open>store_item\<close> fails without queueing anything, or queues one item.\<close>

lemma store_item_cases:
  assumes "store_item K clk ls tx_id schema batches sync_size sync_rows w = (r, w')"
  obtains (failed) e ms where "r = Inl e" "w' = log_metrics ms w" "squash_batches K schema batches = Inl e"
  | (stored) batch c item ms where "r = Inr ()" "squash_batches K schema batches = Inr batch"
      "item = \<lparr>item_tx_id = tx_id, item_sync_schema = schema, item_batch = batch\<rparr>"
      "c_syncs c = [item]" "c_size c = k_memory_size K batch" "c_rows c = of_nat (b_num_rows batch)"
      "root_uri (c_log_store c) = root_uri ls"
      "w' = log_metrics ms (add_item (root_uri ls) c item (k_memory_size K batch) (of_nat (b_num_rows batch)) w)"
proof (cases "squash_batches K schema batches")
  case (Inl e)
  with assms show ?thesis by (auto simp: store_item_def bind_st_def intro: failed)
next
  case (Inr batch)
  define item where "item = \<lparr>item_tx_id = tx_id, item_sync_schema = schema, item_batch = batch\<rparr>"
  define c where "c = \<lparr>c_size = k_memory_size K batch, c_rows = of_nat (b_num_rows batch),
    c_insertion_time = clk_now clk, c_log_store = ls, c_syncs = [item]\<rparr>"
  have "\<exists>ms. w' = log_metrics ms (add_item (root_uri ls) c item (k_memory_size K batch) (of_nat (b_num_rows batch)) w)"
    using assms Inr
    by (auto simp: store_item_def bind_st_def add_item_def log_metrics_def Let_def item_def c_def)
  moreover have "r = Inr ()" using assms Inr by (auto simp: store_item_def bind_st_def)
  ultimately show ?thesis using stored [OF _ Inr item_def, of c] by (auto simp: c_def)
qed

text \<open>What \<open>enqueue_sync\<close> does, on success and on failure.\<close>

definition batch_rows :: "record_batch list \<Rightarrow> usize" where
  "batch_rows batches = foldl (\<lambda>rows batch. rows + of_nat (b_num_rows batch)) 0 batches"

lemma enqueue_sync_cases:
  assumes run: "enqueue_sync K clk fresh ls seq origin schema batches w = (r, w')"
  obtains (rejected) e where "r = Inl e" "w' = w" "upsert_tx fresh (root_uri ls) seq origin (batch_rows batches) w = (Inl e, w)"
  | (failed) e tx_id w1 ms where "r = Inl e" "squash_batches K schema batches = Inl e" "batch_rows batches > 0"
      "upsert_tx fresh (root_uri ls) seq origin (batch_rows batches) w = (Inr tx_id, w1)" "w' = log_metrics ms w1"
  | (queued) tx_id w1 w2 where "r = Inr ()"
      "upsert_tx fresh (root_uri ls) seq origin (batch_rows batches) w = (Inr tx_id, w1)"
      "if batch_rows batches > 0
       then \<exists>sz. store_item K clk ls tx_id schema batches sz (batch_rows batches) w1 = (Inr (), w2)
       else w2 = w1"
      "w_txs w' = w_txs w2" "w_syncs w' = w_syncs w2" "w_size w' = w_size w2"
      "w_origin_durable w' = w_origin_durable w2"
      "w_origin_memory w' = (case seq of None \<Rightarrow> w_origin_memory w2 | Some q \<Rightarrow> imap_insert origin q (w_origin_memory w2))"
proof -
  let ?up = "upsert_tx fresh (root_uri ls) seq origin (batch_rows batches) w"
  consider (a) e w1 where "?up = (Inl e, w1)" | (b) tx_id w1 where "?up = (Inr tx_id, w1)"
    by (cases ?up) (metis old.sum.exhaust)
  then show ?thesis
  proof cases
    case a
    with run upsert_tx_error [OF a] show ?thesis
      by (intro rejected [of e]) (auto simp: enqueue_sync_def bind_st_def batch_rows_def Let_def)
  next
    case b
    show ?thesis
    proof (cases "batch_rows batches > 0")
      case False
      then have w': "(r, w') = modify_st (\<lambda>w. case seq of None \<Rightarrow> w
          | Some seq \<Rightarrow> log_metrics [SequenceMemory origin seq]
              (w\<lparr>w_origin_memory := imap_insert origin seq (w_origin_memory w)\<rparr>)) w1"
        using run b by (auto simp: enqueue_sync_def bind_st_def batch_rows_def Let_def)
      show ?thesis by (rule queued [OF _ b]) (use False w' in \<open>auto split: option.splits\<close>)
    next
      case True
      define sz where "sz = foldl (\<lambda>sz batch. sz + k_memory_size K batch) 0 batches"
      obtain r2 w2 where st: "store_item K clk ls tx_id schema batches sz (batch_rows batches) w1 = (r2, w2)"
        by (cases "store_item K clk ls tx_id schema batches sz (batch_rows batches) w1")
      then show ?thesis
      proof (cases rule: store_item_cases)
        case (failed e ms)
        with run b True st show ?thesis
          by (intro that(2) [of e tx_id w1 ms]) (auto simp: enqueue_sync_def bind_st_def batch_rows_def sz_def Let_def)
      next
        case stored
        then have w': "(r, w') = modify_st (\<lambda>w. case seq of None \<Rightarrow> w
          | Some seq \<Rightarrow> log_metrics [SequenceMemory origin seq]
              (w\<lparr>w_origin_memory := imap_insert origin seq (w_origin_memory w)\<rparr>)) w2"
          using run b True st by (auto simp: enqueue_sync_def bind_st_def batch_rows_def sz_def Let_def)
        show ?thesis by (rule queued [OF _ b, of w2]) (use True w' st stored(1) in \<open>auto split: option.splits\<close>)
      qed
    qed
  qed
qed

lemma registered_mono:
  assumes "\<And>i tx. imap_get txs i = Some tx \<Longrightarrow> \<exists>tx'. imap_get txs' i = Some tx' \<and> tx_le tx tx'"
    and "registered txs url i"
  shows "registered txs' url i"
  using assms(2) assms(1) [of i] by (fastforce simp: registered_def tx_le_def split: option.splits)

lemma writer_inv_txs:
  assumes "writer_inv K w" and "w' = w\<lparr>w_txs := w_txs w'\<rparr>" and "txs_ok (w_txs w')"
    and "\<And>i tx. imap_get (w_txs w) i = Some tx \<Longrightarrow> \<exists>tx'. imap_get (w_txs w') i = Some tx' \<and> tx_le tx tx'"
  shows "writer_inv K w'"
proof -
  have "w_syncs w' = w_syncs w" "w_size w' = w_size w" by (subst assms(2), simp)+
  with assms(1,3) registered_mono [OF assms(4)] show ?thesis
    by (auto simp: writer_inv_def pending_def)
qed

text \<open>The effect of a message on transactions and pending items.\<close>

lemma enqueue_sync_effect:
  assumes inv: "writer_inv K w" and fresh: "imap_get (w_txs w) fresh = None"
    and run: "enqueue_sync K clk fresh ls seq origin schema batches w = (r, w')"
  shows "writer_inv K w'" and "w_origin_durable w' = w_origin_durable w"
    and "imap_get (w_txs w) i = Some tx \<Longrightarrow> \<exists>tx'. imap_get (w_txs w') i = Some tx' \<and> tx_le tx tx'"
    and "pending w url \<subseteq> pending w' url"
    and "item \<in> pending w' url \<Longrightarrow> item \<notin> pending w url \<Longrightarrow>
      url = root_uri ls \<and> (\<exists>w1. upsert_tx fresh url seq origin (batch_rows batches) w = (Inr (item_tx_id item), w1))"
proof -
  have txs: "txs_ok (w_txs w)" using inv by (simp add: writer_inv_def)
  have "writer_inv K w' \<and> w_origin_durable w' = w_origin_durable w \<and>
    (\<forall>i tx. imap_get (w_txs w) i = Some tx \<longrightarrow> (\<exists>tx'. imap_get (w_txs w') i = Some tx' \<and> tx_le tx tx')) \<and>
    (\<forall>url. pending w url \<subseteq> pending w' url) \<and>
    (\<forall>url. \<forall>item \<in> pending w' url. item \<notin> pending w url \<longrightarrow> url = root_uri ls \<and>
      (\<exists>w1. upsert_tx fresh url seq origin (batch_rows batches) w = (Inr (item_tx_id item), w1)))"
    using run
  proof (cases rule: enqueue_sync_cases)
    case (rejected e)
    then show ?thesis using inv by (auto simp: tx_le_def)
  next
    case (failed e tx_id w1 ms)
    note up = upsert_tx_ok [OF failed(4) txs fresh]
    have "w_syncs w1 = w_syncs w" "w_origin_durable w1 = w_origin_durable w" by (subst up(1), simp)+
    then show ?thesis
      using failed(5) up(4) writer_inv_txs [OF inv up(1,2,4)] writer_inv_cong(1) [of w' w1 K]
      by (auto simp: pending_def)
  next
    case (queued tx_id w1 w2)
    note up = upsert_tx_ok [OF queued(2) txs fresh]
    have w1: "w_syncs w1 = w_syncs w" "w_origin_durable w1 = w_origin_durable w" by (subst up(1), simp)+
    note inv1 = writer_inv_txs [OF inv up(1,2,4)]
    have same: "writer_inv K w' = writer_inv K w2" "pending w' = pending w2"
      using writer_inv_cong [of w' w2] queued by auto
    show ?thesis
    proof (cases "batch_rows batches > 0")
      case False
      then show ?thesis using queued(3-7) inv1 up(4) w1 same by (auto simp: pending_def)
    next
      case True
      then obtain sz where "store_item K clk ls tx_id schema batches sz (batch_rows batches) w1 = (Inr (), w2)"
        using queued(3) by auto
      then show ?thesis
      proof (cases rule: store_item_cases)
        case (stored batch c item ms)
        let ?w = "add_item (root_uri ls) c item (k_memory_size K batch) (of_nat (b_num_rows batch)) w1"
        have "writer_inv K ?w"
          by (rule add_item_inv [OF inv1]) (use stored True up(3) in auto)
        moreover have "pending ?w u = (if u = root_uri ls then insert item (pending w u) else pending w u)" for u
          using pending_add_item [OF stored(4)] w1(1) by (simp add: pending_def)
        moreover have "w_txs ?w = w_txs w1" "w_origin_durable ?w = w_origin_durable w" "item_tx_id item = tx_id"
          using w1 stored(3) by (simp_all add: add_item_def)
        ultimately show ?thesis
          using stored(8) queued(2,4-7) same up(4) writer_inv_cong [of w2 ?w] by auto
      qed auto
    qed
  qed
  then show "writer_inv K w'" and "w_origin_durable w' = w_origin_durable w"
    and "imap_get (w_txs w) i = Some tx \<Longrightarrow> \<exists>tx'. imap_get (w_txs w') i = Some tx' \<and> tx_le tx tx'"
    and "pending w url \<subseteq> pending w' url"
    and "item \<in> pending w' url \<Longrightarrow> item \<notin> pending w url \<Longrightarrow>
      url = root_uri ls \<and> (\<exists>w1. upsert_tx fresh url seq origin (batch_rows batches) w = (Inr (item_tx_id item), w1))"
    by blast+
qed


subsection \<open>Bookkeeping after a flush, specified\<close>

text \<open>A transaction is complete if its end has been seen and no location is pending.\<close>

definition complete :: "Uuid \<times> Transaction \<Rightarrow> bool" where
  "complete e \<longleftrightarrow> tx_sequence (snd e) \<noteq> None \<and> tx_locations (snd e) = {}"

definition record_durable ::
    "(Uuid, Transaction) imap \<Rightarrow> (Origin, SequenceNumber) imap \<Rightarrow> (Origin, SequenceNumber) imap" where
  "record_durable txs durable =
     foldl (\<lambda>d (_, tx). imap_insert (tx_origin tx) (the (tx_sequence tx)) d) durable txs"

lemma durable_prefix_spec:
  "durable_prefix txs d =
     (set (map fst (takeWhile complete txs)), record_durable (takeWhile complete txs) d)"
proof (induction txs d rule: durable_prefix.induct)
  case (2 tx_id tx txs d)
  show ?case
  proof (cases "complete (tx_id, tx)")
    case True
    then obtain seq where seq: "tx_sequence tx = Some seq" "tx_locations tx = {}" by (auto simp: complete_def)
    from 2 [OF seq] True seq show ?thesis by (simp only: durable_prefix.simps) (simp add: record_durable_def)
  next
    case False
    then show ?thesis by (auto simp: complete_def record_durable_def split: option.splits)
  qed
qed (simp add: record_durable_def)

lemma filter_takeWhile_keys:
  assumes "imap_wf m"
  shows "filter (\<lambda>(k, _). k \<notin> set (map fst (takeWhile P m))) m = dropWhile P m"
proof -
  have dis: "distinct (map fst (takeWhile P m) @ map fst (dropWhile P m))"
    using assms by (metis imap_wf_def map_append takeWhile_dropWhile_id)
  let ?Q = "\<lambda>(k, _). k \<notin> set (map fst (takeWhile P m))"
  have "filter ?Q (takeWhile P m) = []" by (auto simp: filter_empty_conv intro: rev_image_eqI)
  moreover have "filter ?Q (dropWhile P m) = dropWhile P m"
  proof (intro filter_True ballI)
    fix e assume "e \<in> set (dropWhile P m)"
    then have "fst e \<in> set (map fst (dropWhile P m))" by simp
    moreover have "set (map fst (takeWhile P m)) \<inter> set (map fst (dropWhile P m)) = {}"
      using dis unfolding distinct_append by blast
    ultimately have "fst e \<notin> set (map fst (takeWhile P m))" by blast
    then show "?Q e" by (cases e) simp
  qed
  ultimately have "filter ?Q (takeWhile P m @ dropWhile P m) = dropWhile P m"
    by (simp only: filter_append append_Nil)
  then show ?thesis by simp
qed

lemma advance_durable_eq:
  assumes "imap_wf (w_txs w)"
  shows "advance_durable w = w\<lparr>
    w_origin_durable := record_durable (takeWhile complete (w_txs w)) (w_origin_durable w),
    w_txs := dropWhile complete (w_txs w)\<rparr>"
  using filter_takeWhile_keys [OF assms, of complete]
  by (simp add: advance_durable_def durable_prefix_spec del: set_map)

lemma remove_tx_location_sel:
  "map fst (fold (remove_tx_location url) ids txs) = map fst txs"
  by (induction ids arbitrary: txs) (simp_all add: remove_tx_location_def)

lemma get_remove_tx_locations:
  "imap_get (fold (remove_tx_location url) ids txs) i =
     (if i \<in> set ids then map_option (\<lambda>tx. tx\<lparr>tx_locations := tx_locations tx - {url}\<rparr>) (imap_get txs i)
      else imap_get txs i)"
proof (induction ids arbitrary: txs)
  case (Cons j ids)
  then show ?case
    by (cases "imap_get txs i") (auto simp: remove_tx_location_def imap_simps)
qed simp

lemma set_remove_tx_locations:
  "(i, tx) \<in> set (fold (remove_tx_location url) ids txs) \<Longrightarrow>
   \<exists>tx0. (i, tx0) \<in> set txs \<and> tx_origin tx = tx_origin tx0 \<and> tx_sequence tx = tx_sequence tx0 \<and>
     tx_locations tx \<subseteq> tx_locations tx0"
proof (induction ids arbitrary: txs)
  case (Cons j ids)
  from Cons.IH [of "remove_tx_location url j txs"] Cons.prems show ?case
    by (force simp: remove_tx_location_def imap_modify_def)
qed auto

lemma txs_ok_remove_locations:
  assumes "txs_ok txs"
  shows "txs_ok (fold (remove_tx_location url) ids txs)"
  using assms
proof (induction ids arbitrary: txs)
  case (Cons j ids)
  have "txs_ok (remove_tx_location url j txs)"
    using Cons.prems unfolding txs_ok_def remove_tx_location_def butlast_imap_modify
    by (auto simp: imap_modify_def [of _ _ "butlast txs"] split: if_splits)
  with Cons.IH show ?case by simp
qed simp

lemma txs_ok_dropWhile: "txs_ok txs \<Longrightarrow> txs_ok (dropWhile P txs)"
proof (induction txs)
  case (Cons e txs)
  have "txs_ok txs" using Cons.prems by (auto simp: txs_ok_def imap_wf_def split: if_splits)
  with Cons show ?case by simp
qed (simp add: txs_ok_def)

lemma get_dropWhile:
  assumes "imap_wf m" and "imap_get m k = Some v" and "\<not> P (k, v)"
  shows "imap_get (dropWhile P m) k = Some v"
proof -
  have wf: "imap_wf (dropWhile P m)"
    using assms(1) by (metis filter_takeWhile_keys imap_wf_filter)
  have "(k, v) \<in> set m" using assms(1,2) by (simp add: imap_get_iff_mem)
  then have "(k, v) \<in> set (takeWhile P m) \<union> set (dropWhile P m)"
    by (metis set_append takeWhile_dropWhile_id)
  then have "(k, v) \<in> set (dropWhile P m)" using assms(3) set_takeWhileD by fastforce
  then show ?thesis using wf by (simp add: imap_get_iff_mem)
qed

lemma pending_remove_sync: "pending (remove_sync url w) u = (if u = url then {} else pending w u)"
  by (auto simp: pending_def remove_sync_def imap_simps split: option.splits)

lemma remove_sync_sel [simp]:
  "w_txs (remove_sync url w) = w_txs w" "w_origin_durable (remove_sync url w) = w_origin_durable w"
  "w_syncs (remove_sync url w) = imap_shift_remove url (w_syncs w)"
  by (auto simp: remove_sync_def imap_shift_remove_absent split: option.splits)

lemma remove_sync_inv:
  assumes inv: "writer_inv K w"
  shows "writer_inv K (remove_sync url w)"
proof (cases "imap_get (w_syncs w) url")
  case None
  then show ?thesis using inv by (simp add: remove_sync_def)
next
  case (Some c)
  have wf: "imap_wf (w_syncs w)" using inv by (simp add: writer_inv_def)
  have "w_size (remove_sync url w) = imap_sum c_size (w_syncs (remove_sync url w))"
    using inv imap_sum_shift_remove [OF wf Some, of c_size] Some
    by (simp add: writer_inv_def remove_sync_def)
  with inv show ?thesis
    by (auto simp: writer_inv_def pending_remove_sync)
qed

text \<open>The writer after a successful flush.\<close>

lemma finish_flush_sel:
  assumes "imap_wf (w_txs w)"
  shows "w_txs (finish_flush clk url c w) =
      dropWhile complete (fold (remove_tx_location url) (map item_tx_id (c_syncs c)) (w_txs w))"
    and "w_origin_durable (finish_flush clk url c w) =
      record_durable (takeWhile complete (fold (remove_tx_location url) (map item_tx_id (c_syncs c)) (w_txs w)))
        (w_origin_durable w)"
    and "w_syncs (finish_flush clk url c w) = imap_shift_remove url (w_syncs w)"
    and "w_size (finish_flush clk url c w) = w_size (remove_sync url w)"
proof -
  let ?txs = "fold (remove_tx_location url) (map item_tx_id (c_syncs c)) (w_txs w)"
  have "imap_wf ?txs" using assms by (simp add: imap_wf_def remove_tx_location_sel)
  then have "imap_wf (w_txs (remove_sync url (remove_tx_locations url (map item_tx_id (c_syncs c)) w)))"
    by (simp add: remove_tx_locations_def)
  note eq = advance_durable_eq [OF this]
  show "w_txs (finish_flush clk url c w) = dropWhile complete ?txs"
    and "w_origin_durable (finish_flush clk url c w) = record_durable (takeWhile complete ?txs) (w_origin_durable w)"
    and "w_syncs (finish_flush clk url c w) = imap_shift_remove url (w_syncs w)"
    and "w_size (finish_flush clk url c w) = w_size (remove_sync url w)"
    by (simp_all add: finish_flush_def Let_def eq)
      (auto simp: remove_tx_locations_def remove_sync_def split: option.splits)
qed

lemma pending_finish_flush:
  assumes "imap_wf (w_txs w)"
  shows "pending (finish_flush clk url c w) u = (if u = url then {} else pending w u)"
  by (auto simp: pending_def finish_flush_sel(3) [OF assms] imap_simps)

lemma registered_remove:
  "u \<noteq> url \<Longrightarrow> registered txs u i \<Longrightarrow> registered (fold (remove_tx_location url) ids txs) u i"
  by (auto simp: registered_def get_remove_tx_locations split: option.splits)

lemma finish_flush_inv:
  assumes inv: "writer_inv K w" and c: "imap_get (w_syncs w) url = Some c"
  shows "writer_inv K (finish_flush clk url c w)"
proof -
  let ?txs = "fold (remove_tx_location url) (map item_tx_id (c_syncs c)) (w_txs w)"
  let ?w = "finish_flush clk url c w"
  have txs: "txs_ok (w_txs w)" and wf: "imap_wf (w_txs w)" using inv by (auto simp: writer_inv_def txs_ok_def)
  have ok: "txs_ok ?txs" using txs_ok_remove_locations [OF txs] .
  have "writer_inv K (remove_sync url w)" by (rule remove_sync_inv [OF inv])
  moreover have "registered (w_txs ?w) u (item_tx_id item)" if "item \<in> pending ?w u" for u item
  proof -
    from that wf have u: "u \<noteq> url" "item \<in> pending w u" by (auto simp: pending_finish_flush split: if_splits)
    then have "registered (w_txs w) u (item_tx_id item)" using inv by (auto simp: writer_inv_def)
    then have "registered ?txs u (item_tx_id item)" by (rule registered_remove [OF u(1)])
    then obtain tx where "imap_get ?txs (item_tx_id item) = Some tx" "u \<in> tx_locations tx"
      by (auto simp: registered_def split: option.splits)
    moreover from this have "\<not> complete (item_tx_id item, tx)" by (auto simp: complete_def)
    ultimately show ?thesis
      using get_dropWhile [of ?txs "item_tx_id item" tx complete] ok
      by (simp add: finish_flush_sel(1) [OF wf] registered_def txs_ok_def)
  qed
  ultimately show ?thesis
    using txs_ok_dropWhile [OF ok, of complete]
    by (simp add: writer_inv_def finish_flush_sel [OF wf])
qed

text \<open>The outcomes of \<open>flush_syncs\<close>.\<close>

lemma skip_start_suffix: "skip_start txs ci syncs = Some rest \<Longrightarrow> \<exists>pre. syncs = pre @ rest"
proof (induction syncs)
  case (Cons s syncs)
  then show ?case by (auto split: if_splits)
qed simp

lemma skip_syncs_suffix:
  assumes "skip_syncs txs ci syncs = Inr (rest, ci')"
  shows "\<exists>pre. syncs = pre @ rest"
  using assms skip_start_suffix [of txs _ syncs]
  by (auto simp: skip_syncs_def Let_def res_simps split: option.splits if_splits)

lemma rewrite_table_cases:
  assumes "rewrite_table E clk url entry table syncs ci (w, l) = (r, (w', l'))"
  shows "case r of
      Inl e \<Rightarrow> \<exists>ms. w' = log_metrics ms w
    | Inr _ \<Rightarrow> \<exists>files ms. prune_partitions (lk_df E) syncs (dt_schema table) (dt_snapshot table) = Inr files \<and>
        write_syncs E clk url (c_log_store entry) table syncs ci files l = (Inr (), l') \<and>
        w' = finish_flush clk url entry (log_metrics ms w)"
proof (cases r)
  case (Inl e)
  with assms have "w' = w \<or> (\<exists>ms. w' = log_metrics ms w)"
    by (auto simp: rewrite_table_def res_simps)
  then have "\<exists>ms. w' = log_metrics ms w" by (metis log_metrics_Nil)
  with Inl show ?thesis by simp
next
  case (Inr x)
  with assms show ?thesis by (auto simp: rewrite_table_def res_simps)
qed

lemma flush_syncs_cases:
  assumes run: "flush_syncs E clk url (w, l) = (r, (w', l'))"
  obtains (nothing) "imap_get (w_syncs w) url = None" "r = Inr ()" "w' = w" "l' = l"
  | (failed) entry e ms where "imap_get (w_syncs w) url = Some entry" "r = Inl e" "w' = log_metrics ms w"
  | (skipped) entry table ci ci' where "imap_get (w_syncs w) url = Some entry" "r = Inr ()"
      "table_sequence E table = Inr ci" "skip_syncs (w_txs w) ci (c_syncs entry) = Inr ([], ci')"
      "w' = remove_sync url w"
  | (flushed) entry table ci syncs ci' files ms l1 where "imap_get (w_syncs w) url = Some entry" "r = Inr ()"
      "table_sequence E table = Inr ci" "skip_syncs (w_txs w) ci (c_syncs entry) = Inr (syncs, ci')"
      "syncs \<noteq> []" "prune_partitions (lk_df E) syncs (dt_schema table) (dt_snapshot table) = Inr files"
      "write_syncs E clk url (c_log_store entry) table syncs ci' files l1 = (Inr (), l')"
      "w' = finish_flush clk url entry (log_metrics ms w)"
proof (cases "imap_get (w_syncs w) url")
  case None
  show ?thesis by (rule nothing) (use None run in \<open>auto simp: flush_syncs_def\<close>)
next
  case (Some entry)
  consider (early) e where "r = Inl e" "w' = w"
    | (late) l1 table ci syncs ci' where "table_sequence E table = Inr ci"
      "skip_syncs (w_txs w) ci (c_syncs entry) = Inr (syncs, ci')"
      "(if syncs = [] then on_fst (modify_st (remove_sync url))
        else rewrite_table E clk url entry table syncs ci') (w, l1) = (r, (w', l'))"
    using run Some by (cases r) (auto simp: flush_syncs_def res_simps split: prod.splits)
  then show ?thesis
  proof cases
    case early
    then show ?thesis using failed [OF Some early(1), of "[]"] by (simp add: log_metrics_Nil)
  next
    case late
    show ?thesis
    proof (cases "syncs = []")
      case True
      then show ?thesis
        using skipped [OF Some _ late(1)] late(2,3) by (auto simp: res_simps)
    next
      case False
      then have "rewrite_table E clk url entry table syncs ci' (w, l1) = (r, (w', l'))" using late(3) by simp
      from rewrite_table_cases [OF this] show ?thesis
        using failed [OF Some] flushed [OF Some _ late(1,2) False]
        by (cases r) auto
    qed
  qed
qed

lemma flush_syncs_inv:
  assumes inv: "writer_inv K w" and run: "flush_syncs E clk url (w, l) = (r, (w', l'))"
  shows "writer_inv K w'"
  using run
proof (cases rule: flush_syncs_cases)
  case (failed entry e ms)
  then show ?thesis using inv writer_inv_cong [of "log_metrics ms w" w] by simp
next
  case (flushed entry table ci syncs ci' files ms l1)
  have "writer_inv K (log_metrics ms w)" using inv writer_inv_cong [of "log_metrics ms w" w] by simp
  from finish_flush_inv [OF this, of url entry clk] flushed show ?thesis by simp
qed (use inv remove_sync_inv in auto)

lemma w_syncs_finish_flush: "w_syncs (finish_flush clk url c w) = imap_shift_remove url (w_syncs w)"
  by (simp add: finish_flush_def Let_def advance_durable_def remove_tx_locations_def split: prod.splits)

lemma flush_syncs_shrinks:
  assumes "flush_syncs E clk url (w, l) = (Inr (), (w', l'))"
  shows "w_syncs w' = imap_shift_remove url (w_syncs w)"
  using assms
proof (cases rule: flush_syncs_cases)
  case nothing
  then show ?thesis by (simp add: imap_shift_remove_absent)
next
  case (flushed entry table ci syncs ci' files ms l1)
  then show ?thesis by (simp add: w_syncs_finish_flush)
qed auto


subsection \<open>The flush loop\<close>

lemma flush_ready_present:
  "flush_ready conf clk w = Inr (Some url) \<Longrightarrow> \<exists>c. imap_get (w_syncs w) url = Some c"
proof -
  assume "flush_ready conf clk w = Inr (Some url)"
  then have "\<exists>c. (url, c) \<in> set (w_syncs w)"
    by (auto simp: flush_ready_def Let_def imap_first_def ok_or_def dest!: find_SomeD
        split: option.splits if_splits list.splits)
  then show ?thesis by (metis map_of_eq_None_iff fst_conv image_eqI not_None_eq)
qed

text \<open>Time passes between the iterations: iteration \<open>n\<close> reads the clock \<open>clk n\<close>.\<close>

function flush_loop ::
    "('l, 'j) lake \<Rightarrow> DataSyncConfig \<Rightarrow> (nat \<Rightarrow> clock) \<Rightarrow> nat \<Rightarrow> (writer \<times> 'l, SyncError, unit) st" where
  "flush_loop E conf clk n (w, l) =
     (case flush_ready conf (clk n) w of
        Inl e \<Rightarrow> (Inl e, (w, l))
      | Inr None \<Rightarrow> (Inr (), (w, l))
      | Inr (Some url) \<Rightarrow>
          (case flush_syncs E (clk n) url (w, l) of
             (Inl e, s) \<Rightarrow> (Inl e, s)
           | (Inr _, s) \<Rightarrow> flush_loop E conf clk (Suc n) s))"
  by pat_completeness auto

termination flush_loop
proof (relation "measure (\<lambda>(_, _, _, _, w, _). length (w_syncs w))", goal_cases)
  case 1
  show ?case by simp
next
  case (2 E conf clk n w l x url s1 s u)
  then obtain c where "imap_get (w_syncs w) url = Some c" using flush_ready_present by blast
  moreover obtain w' l' where "s = (w', l')" by (cases s)
  ultimately show ?case
    using flush_syncs_shrinks [of E "clk n" url w l w' l'] 2 length_imap_shift_remove [of "w_syncs w" url] by simp
qed

declare flush_loop.simps [simp del]

definition flush :: "('l, 'j) lake \<Rightarrow> DataSyncConfig \<Rightarrow> (nat \<Rightarrow> clock) \<Rightarrow> (writer \<times> 'l, SyncError, unit) st" where
  "flush E conf clk =
     bind_st (flush_loop E conf clk 0) (\<lambda>_.
       on_fst (modify_st (\<lambda>w. log_metrics [InMemoryOldest (oldest_insertion w)] w)))"

text \<open>Below every limit: nothing to flush at the given time.\<close>

definition below_limits :: "DataSyncConfig \<Rightarrow> u64 \<Rightarrow> writer \<Rightarrow> bool" where
  "below_limits conf time w \<longleftrightarrow> w_size w < max_in_memory_bytes conf \<and>
     (\<forall>(_, c) \<in> set (w_syncs w). of_nat (length (c_syncs c)) < max_syncs_per_url conf) \<and>
     (\<forall>url c. imap_first (w_syncs w) = Some (url, c) \<longrightarrow> time - c_insertion_time c < max_replication_lag_s conf)"

lemma flush_ready_none: "flush_ready conf clk w = Inr None \<longleftrightarrow> below_limits conf (clk_now clk) w"
  by (auto simp: flush_ready_def below_limits_def Let_def ok_or_def find_None_iff not_le
      split: option.splits if_splits)

lemma flush_loop_inv:
  assumes "writer_inv K w" and "flush_loop E conf clk n (w, l) = (r, (w', l'))"
  shows "writer_inv K w' \<and> (r = Inr () \<longrightarrow> (\<exists>m. below_limits conf (clk_now (clk m)) w'))"
  using assms
proof (induction E conf clk n "(w, l)" arbitrary: w l rule: flush_loop.induct)
  case (1 E conf clk n w l)
  note step = "1.prems"(2) [unfolded flush_loop.simps [of E conf clk n w l]]
  show ?case
  proof (cases "flush_ready conf (clk n) w")
    case (Inl e)
    with step "1.prems"(1) show ?thesis by auto
  next
    case (Inr x)
    show ?thesis
    proof (cases x)
      case None
      with Inr have "below_limits conf (clk_now (clk n)) w" by (simp add: flush_ready_none)
      with step None Inr "1.prems"(1) show ?thesis by auto
    next
      case (Some url)
      obtain r1 w1 l1 where run: "flush_syncs E (clk n) url (w, l) = (r1, (w1, l1))" by (metis prod_cases3)
      note inv1 = flush_syncs_inv [OF "1.prems"(1) run]
      show ?thesis
      proof (cases r1)
        case (Inl e)
        with step Inr Some run inv1 show ?thesis by auto
      next
        case (Inr u)
        have "flush_loop E conf clk (Suc n) (w1, l1) = (r, (w', l'))"
          using step \<open>flush_ready conf (clk n) w = Inr x\<close> Some run Inr by simp
        from "1.hyps" [OF \<open>flush_ready conf (clk n) w = Inr x\<close> Some run [symmetric] Inr inv1 this]
        show ?thesis by simp
      qed
    qed
  qed
qed

lemma flush_ready_total:
  assumes inv: "writer_inv K w" and "max_in_memory_bytes conf > 0"
  shows "\<exists>x. flush_ready conf clk w = Inr x"
proof -
  have "w_syncs w = [] \<Longrightarrow> w_size w < max_in_memory_bytes conf"
    using assms by (auto simp: writer_inv_def)
  then show ?thesis
    by (cases "w_syncs w") (auto simp: flush_ready_def imap_first_def ok_or_def Let_def)
qed

lemma flush_loop_error:
  assumes "writer_inv K w" and "max_in_memory_bytes conf > 0"
    and "flush_loop E conf clk n (w, l) = (Inl e, s)"
  shows "\<exists>m url w1 l1. writer_inv K w1 \<and> flush_ready conf (clk m) w1 = Inr (Some url) \<and>
    flush_syncs E (clk m) url (w1, l1) = (Inl e, s)"
  using assms
proof (induction E conf clk n "(w, l)" arbitrary: w l rule: flush_loop.induct)
  case (1 E conf clk n w l)
  note step = "1.prems"(3) [unfolded flush_loop.simps [of E conf clk n w l]]
  show ?case
  proof (cases "flush_ready conf (clk n) w")
    case (Inl e')
    with flush_ready_total [OF "1.prems"(1,2), of "clk n"] show ?thesis by auto
  next
    case ready: (Inr x)
    with step obtain url where url: "x = Some url" by (cases x) auto
    obtain r1 w1 l1 where run: "flush_syncs E (clk n) url (w, l) = (r1, (w1, l1))" by (metis prod_cases3)
    show ?thesis
    proof (cases r1)
      case (Inl e')
      with step ready url run have "flush_syncs E (clk n) url (w, l) = (Inl e, s)" by simp
      with ready url "1.prems"(1) show ?thesis by blast
    next
      case (Inr u)
      have "flush_loop E conf clk (Suc n) (w1, l1) = (Inl e, s)"
        using step ready url run Inr by simp
      from "1.hyps" [OF ready url run [symmetric] Inr flush_syncs_inv [OF "1.prems"(1) run] "1.prems"(2) this]
      show ?thesis .
    qed
  qed
qed

end
