(* ===== verification/SyncDurability.thy ===== *)
theory SyncDurability
  imports SyncWriter
begin

text \<open>
  Runs of the sync writer: arbitrary interleavings of \<open>enqueue_sync\<close> and \<open>flush_syncs\<close> calls, successful or
  not, and logged metrics, as a step relation with a ghost history. The theorems say what a durable sequence
  number means, that the invariant of the writer always holds, that flushing drains the queue, and
  when a transaction can never become durable.
\<close>

subsection \<open>Runs\<close>

text \<open>
  The history remembers the items that were queued and those of successful flushes, with their
  locations, and the transactions that have left the queue, oldest first.
\<close>

record 'l history =
  h_writer :: writer
  h_lake :: 'l
  h_accepted :: "(string \<times> DataSyncItem) set"
  h_persisted :: "(string \<times> DataSyncItem) set"
  h_done :: "(Uuid, Transaction) imap"

definition init_history :: "'l \<Rightarrow> 'l history" where
  "init_history l = \<lparr>h_writer = new_writer, h_lake = l, h_accepted = {}, h_persisted = {}, h_done = []\<rparr>"

definition after_enqueue :: "'l history \<Rightarrow> writer \<Rightarrow> 'l history" where
  "after_enqueue h w' = h\<lparr>h_writer := w',
     h_accepted := h_accepted h \<union> {(u, i). i \<in> pending w' u - pending (h_writer h) u}\<rparr>"

definition after_flush :: "'l history \<Rightarrow> string \<Rightarrow> (SyncError, unit) result \<Rightarrow> writer \<Rightarrow> 'l \<Rightarrow> 'l history" where
  "after_flush h url r w' l' = h\<lparr>h_writer := w', h_lake := l',
     h_persisted := h_persisted h \<union> (if is_ok r then {url} \<times> pending (h_writer h) url else {}),
     h_done := h_done h @ filter (\<lambda>(i, _). i \<notin> fst ` set (w_txs w')) (w_txs (h_writer h))\<rparr>"

inductive sync_step :: "arrow_kernels \<Rightarrow> ('l, 'j) lake \<Rightarrow> 'l history \<Rightarrow> 'l history \<Rightarrow> bool"
  for K :: arrow_kernels and E :: "('l, 'j) lake" where
  enqueue: "enqueue_sync K clk fresh ls seq origin schema batches (h_writer h) = (r, w') \<Longrightarrow>
    imap_get (h_done h) fresh = None \<Longrightarrow> imap_get (w_txs (h_writer h)) fresh = None \<Longrightarrow>
    sync_step K E h (after_enqueue h w')"
| flush_url: "flush_syncs E clk url (h_writer h, h_lake h) = (r, (w', l')) \<Longrightarrow>
    sync_step K E h (after_flush h url r w' l')"
| log: "sync_step K E h (h\<lparr>h_writer := log_metrics ms (h_writer h)\<rparr>)"

inductive sync_steps :: "arrow_kernels \<Rightarrow> ('l, 'j) lake \<Rightarrow> 'l history \<Rightarrow> 'l history \<Rightarrow> bool"
  for K :: arrow_kernels and E :: "('l, 'j) lake" where
  no_step: "sync_steps K E h h"
| more_steps: "sync_steps K E h h' \<Longrightarrow> sync_step K E h' h'' \<Longrightarrow> sync_steps K E h h''"

inductive_cases sync_stepE: "sync_step K E h h'"


subsection \<open>What leaves the queue of transactions\<close>

definition view :: "(Uuid, Transaction) imap \<Rightarrow> (Uuid \<times> Origin \<times> SequenceNumber option) list" where
  "view txs = map (\<lambda>(i, tx). (i, tx_origin tx, tx_sequence tx)) txs"

lemma record_durable_view:
  "record_durable txs d = foldl (\<lambda>d (_, origin, seq). imap_insert origin (the seq) d) d (view txs)"
  unfolding record_durable_def view_def foldl_map by (simp add: case_prod_unfold)

lemma view_filter: "view (filter (\<lambda>(i, _). P i) txs) = filter (\<lambda>(i, _). P i) (view txs)"
  by (induction txs) (auto simp: view_def)

lemma view_remove_locations: "view (fold (remove_tx_location url) ids txs) = view txs"
  by (induction ids arbitrary: txs) (auto simp: view_def remove_tx_location_def imap_modify_def)

lemma keys_view: "map fst (view txs) = map fst txs"
  by (auto simp: view_def)

lemma filter_dropWhile_keys:
  assumes "imap_wf m"
  shows "filter (\<lambda>(k, _). k \<notin> fst ` set (dropWhile P m)) m = takeWhile P m"
proof -
  have dis: "fst ` set (takeWhile P m) \<inter> fst ` set (dropWhile P m) = {}"
    using assms unfolding imap_wf_def
    by (metis distinct_append map_append set_map takeWhile_dropWhile_id)
  let ?Q = "\<lambda>(k, _). k \<notin> fst ` set (dropWhile P m)"
  have "filter ?Q (takeWhile P m) = takeWhile P m"
    using dis by (intro filter_True) force
  moreover have "filter ?Q (dropWhile P m) = []" by (auto simp: filter_empty_conv image_iff)
  ultimately have "filter ?Q (takeWhile P m @ dropWhile P m) = takeWhile P m"
    by (simp only: filter_append append_Nil2)
  then show ?thesis by simp
qed

lemma record_durable_append: "record_durable (a @ b) d = record_durable b (record_durable a d)"
  by (simp add: record_durable_def)

lemma record_durable_mem:
  "imap_get (record_durable txs []) o' = Some q \<Longrightarrow> \<forall>(_, tx) \<in> set txs. tx_sequence tx \<noteq> None \<Longrightarrow>
   \<exists>i tx. (i, tx) \<in> set txs \<and> tx_origin tx = o' \<and> tx_sequence tx = Some q"
proof (induction txs rule: rev_induct)
  case Nil
  then show ?case by (simp add: record_durable_def)
next
  case (snoc e txs)
  obtain i tx where e: "e = (i, tx)" by (cases e)
  then show ?case
    using snoc by (cases "tx_origin tx = o'") (auto simp: record_durable_def imap_simps, blast)
qed

text \<open>The transactions that a flush removes, in the order of the queue.\<close>

lemma finish_flush_done:
  assumes txs: "imap_wf (w_txs w)" and w': "w' = finish_flush clk url c w"
  defines "gone \<equiv> filter (\<lambda>(i, _). i \<notin> fst ` set (w_txs w')) (w_txs w)"
  shows "view gone = view (takeWhile complete
      (fold (remove_tx_location url) (map item_tx_id (c_syncs c)) (w_txs w)))"
    and "map fst (w_txs w) = map fst gone @ map fst (w_txs w')"
    and "w_origin_durable w' = record_durable gone (w_origin_durable w)"
    and "(i, tx) \<in> set gone \<Longrightarrow> tx_sequence tx \<noteq> None"
proof -
  let ?txs = "fold (remove_tx_location url) (map item_tx_id (c_syncs c)) (w_txs w)"
  have wf: "imap_wf ?txs" using txs by (simp add: imap_wf_def remove_tx_location_sel)
  have new: "w_txs w' = dropWhile complete ?txs" using finish_flush_sel(1) [OF txs] w' by simp
  have "view gone = filter (\<lambda>(i, _). i \<notin> fst ` set (w_txs w')) (view ?txs)"
    by (simp add: gone_def view_filter view_remove_locations)
  also have "\<dots> = view (filter (\<lambda>(i, _). i \<notin> fst ` set (w_txs w')) ?txs)"
    by (simp only: view_filter)
  also have "\<dots> = view (takeWhile complete ?txs)" by (simp only: new filter_dropWhile_keys [OF wf])
  finally show gone: "view gone = view (takeWhile complete ?txs)" .
  have "map fst gone = map fst (takeWhile complete ?txs)" using gone keys_view by metis
  then show "map fst (w_txs w) = map fst gone @ map fst (w_txs w')"
    using remove_tx_location_sel [of url "map item_tx_id (c_syncs c)" "w_txs w"]
    by (simp only: new map_append [symmetric] takeWhile_dropWhile_id)
  show "w_origin_durable w' = record_durable gone (w_origin_durable w)"
    using finish_flush_sel(2) [OF txs] w' gone by (simp add: record_durable_view)
  show "tx_sequence tx \<noteq> None" if "(i, tx) \<in> set gone"
  proof -
    from that have "(i, tx_origin tx, tx_sequence tx) \<in> set (view gone)" by (force simp: view_def)
    then have "(i, tx_origin tx, tx_sequence tx) \<in> set (view (takeWhile complete ?txs))" by (simp only: gone)
    then obtain tx' where "(i, tx') \<in> set (takeWhile complete ?txs)" "tx_sequence tx' = tx_sequence tx"
      by (auto simp: view_def)
    then show ?thesis using set_takeWhileD [of "(i, tx')" complete] by (auto simp: complete_def)
  qed
qed


subsection \<open>The invariant of runs\<close>

definition run_inv :: "arrow_kernels \<Rightarrow> 'l history \<Rightarrow> bool" where
  "run_inv K h \<longleftrightarrow> writer_inv K (h_writer h) \<and>
     distinct (map fst (h_done h) @ map fst (w_txs (h_writer h))) \<and>
     (\<forall>u i. (u, i) \<in> h_accepted h \<longrightarrow> i \<in> pending (h_writer h) u \<or> (u, i) \<in> h_persisted h) \<and>
     w_origin_durable (h_writer h) = record_durable (h_done h) [] \<and>
     (\<forall>(_, tx) \<in> set (h_done h). tx_sequence tx \<noteq> None)"

lemma run_inv_init: "run_inv K (init_history l)"
  by (simp add: run_inv_def init_history_def writer_inv_new)
    (simp add: new_writer_def record_durable_def)

lemma upsert_tx_keys:
  assumes "upsert_tx fresh url seq origin rows w = (r, w')"
  shows "map fst (w_txs w') = map fst (w_txs w) \<or> map fst (w_txs w') = map fst (w_txs w) @ [fresh]"
  using assms by (auto simp: upsert_tx_def Let_def imap_insert_def imap_upsert_def
      split: option.splits if_splits bool.splits prod.splits)

lemma enqueue_sync_keys:
  assumes "enqueue_sync K clk fresh ls seq origin schema batches w = (r, w')"
  shows "map fst (w_txs w') = map fst (w_txs w) \<or> map fst (w_txs w') = map fst (w_txs w) @ [fresh]"
  using assms
proof (cases rule: enqueue_sync_cases)
  case (queued tx_id w1 w2)
  have "w_txs w2 = w_txs w1"
  proof (cases "batch_rows batches > 0")
    case True
    then obtain sz where "store_item K clk ls tx_id schema batches sz (batch_rows batches) w1 = (Inr (), w2)"
      using queued(3) by auto
    then show ?thesis by (cases rule: store_item_cases) (simp_all add: add_item_def)
  qed (use queued in auto)
  with queued upsert_tx_keys [OF queued(2)] show ?thesis by simp
qed (use upsert_tx_keys in auto)

lemma distinct_append_fresh:
  "distinct (xs @ ys) \<Longrightarrow> x \<notin> set xs \<Longrightarrow> x \<notin> set ys \<Longrightarrow> ys' = ys \<or> ys' = ys @ [x] \<Longrightarrow> distinct (xs @ ys')"
  by auto

lemma run_inv_enqueue:
  assumes inv: "run_inv K h"
    and run: "enqueue_sync K clk fresh ls seq origin schema batches (h_writer h) = (r, w')"
    and fresh: "imap_get (h_done h) fresh = None" and none: "imap_get (w_txs (h_writer h)) fresh = None"
  shows "run_inv K (after_enqueue h w')"
proof -
  have "writer_inv K (h_writer h)" using inv by (simp add: run_inv_def)
  note eff = enqueue_sync_effect [OF this none run]
  have "distinct (map fst (h_done h) @ map fst (w_txs w'))"
    by (rule distinct_append_fresh [OF _ _ _ enqueue_sync_keys [OF run]])
      (use inv fresh none in \<open>simp_all add: run_inv_def map_of_eq_None_iff\<close>)
  moreover have "i \<in> pending w' u \<or> (u, i) \<in> h_persisted h" if "(u, i) \<in> h_accepted h" for u i
    using that inv subsetD [OF eff(4) [of u]] unfolding run_inv_def by blast
  ultimately show ?thesis using inv eff(1,2) by (auto simp: run_inv_def after_enqueue_def)
qed

lemma flush_effect:
  assumes inv: "writer_inv K w" and run: "flush_syncs E clk url (w, l) = (r, (w', l'))"
  defines "gone \<equiv> filter (\<lambda>(i, _). i \<notin> fst ` set (w_txs w')) (w_txs w)"
  shows "map fst (w_txs w) = map fst gone @ map fst (w_txs w')"
    and "w_origin_durable w' = record_durable gone (w_origin_durable w)"
    and "(i, tx) \<in> set gone \<Longrightarrow> tx_sequence tx \<noteq> None"
    and "pending w' u = (if is_ok r \<and> u = url then {} else pending w u)"
proof -
  have wf: "imap_wf (w_txs w)" using inv by (simp add: writer_inv_def txs_ok_def)
  have same: "filter (\<lambda>(i, _). i \<notin> fst ` set (w_txs w)) (w_txs w) = []"
    by (force simp: filter_empty_conv)
  have "map fst (w_txs w) = map fst gone @ map fst (w_txs w') \<and>
    w_origin_durable w' = record_durable gone (w_origin_durable w) \<and>
    (\<forall>(i, tx) \<in> set gone. tx_sequence tx \<noteq> None) \<and>
    (\<forall>u. pending w' u = (if is_ok r \<and> u = url then {} else pending w u))"
    using run
  proof (cases rule: flush_syncs_cases)
    case nothing
    then show ?thesis by (simp add: gone_def same record_durable_def) (simp add: pending_def)
  next
    case (failed entry e ms)
    then show ?thesis by (simp add: gone_def same record_durable_def) (simp add: pending_def)
  next
    case (skipped entry table ci ci')
    then show ?thesis by (simp add: gone_def same record_durable_def pending_remove_sync)
  next
    case (flushed entry table ci syncs ci' files ms l1)
    have wf': "imap_wf (w_txs (log_metrics ms w))" using wf by simp
    from finish_flush_done [OF wf' flushed(8)] pending_finish_flush [OF wf'] flushed(2,8) show ?thesis
      by (auto simp: gone_def) (auto simp: pending_def)
  qed
  then show "map fst (w_txs w) = map fst gone @ map fst (w_txs w')"
    and "w_origin_durable w' = record_durable gone (w_origin_durable w)"
    and "(i, tx) \<in> set gone \<Longrightarrow> tx_sequence tx \<noteq> None"
    and "pending w' u = (if is_ok r \<and> u = url then {} else pending w u)" by auto
qed

lemma run_inv_flush:
  assumes inv: "run_inv K h" and run: "flush_syncs E clk url (h_writer h, h_lake h) = (r, (w', l'))"
  shows "run_inv K (after_flush h url r w' l')"
proof -
  have w: "writer_inv K (h_writer h)" using inv by (simp add: run_inv_def)
  note eff = flush_effect [OF w run]
  let ?gone = "filter (\<lambda>(i, _). i \<notin> fst ` set (w_txs w')) (w_txs (h_writer h))"
  have "distinct (map fst (h_done h) @ map fst ?gone @ map fst (w_txs w'))"
    using inv eff(1) unfolding run_inv_def by metis
  moreover have "\<forall>u i. (u, i) \<in> h_accepted h \<longrightarrow> i \<in> pending w' u \<or>
      (u, i) \<in> h_persisted h \<union> (if is_ok r then {url} \<times> pending (h_writer h) url else {})"
    using inv eff(4) by (auto simp: run_inv_def)
  moreover have "w_origin_durable w' = record_durable (h_done h @ ?gone) []"
    using inv eff(2) by (simp add: run_inv_def record_durable_append)
  moreover have "\<forall>(_, tx) \<in> set (h_done h @ ?gone). tx_sequence tx \<noteq> None"
  proof -
    have "tx_sequence tx \<noteq> None" if "(i, tx) \<in> set ?gone" for i tx using eff(3) that .
    then show ?thesis using inv unfolding run_inv_def set_append by blast
  qed
  ultimately show ?thesis
    using flush_syncs_inv [OF w run] by (simp add: run_inv_def after_flush_def)
qed

lemma run_inv_log: "run_inv K h \<Longrightarrow> run_inv K (h\<lparr>h_writer := log_metrics ms (h_writer h)\<rparr>)"
  by (simp add: run_inv_def log_metrics_def writer_inv_def pending_def)

lemma run_inv_step: "sync_step K E h h' \<Longrightarrow> run_inv K h \<Longrightarrow> run_inv K h'"
  by (induction rule: sync_step.induct) (auto intro: run_inv_enqueue run_inv_flush run_inv_log)

lemma run_inv_steps: "sync_steps K E h h' \<Longrightarrow> run_inv K h \<Longrightarrow> run_inv K h'"
  by (induction rule: sync_steps.induct) (auto intro: run_inv_step)


subsection \<open>What a durable sequence number means\<close>

text \<open>Items of transactions that have left the queue are no longer in memory.\<close>

lemma done_not_pending:
  assumes inv: "run_inv K h" and i: "(i, tx) \<in> set (h_done h)" and tx: "item_tx_id item = i"
  shows "item \<notin> pending (h_writer h) u"
proof
  assume "item \<in> pending (h_writer h) u"
  then have "registered (w_txs (h_writer h)) u i"
    using inv tx by (auto simp: run_inv_def writer_inv_def)
  then have "i \<in> set (map fst (w_txs (h_writer h)))"
    by (auto simp: registered_def split: option.splits dest: map_of_SomeD) (metis fst_conv image_eqI map_of_SomeD)
  moreover have "i \<in> set (map fst (h_done h))" using i by force
  ultimately show False using inv unfolding run_inv_def distinct_append by blast
qed


subsection \<open>A lake in memory, and scripts\<close>

text \<open>
  Delta tables as lists of files and of commit markers; a commit removes and adds files and
  appends its marker. A script is a sequence of calls on a writer; its messages take the ids
  \<open>n\<close>, \<open>n + 1\<close> and so on.
\<close>

record mem_table =
  mt_fields :: "arrow_field list"
  mt_files :: "Add list"
  mt_markers :: "SyncCommitInfo option list"

type_synonym mem_state = "(string, mem_table) imap"

definition mem_load :: "mem_table \<Rightarrow> SyncCommitInfo DeltaTable" where
  "mem_load t = \<lparr>dt_schema = \<lparr>s_fields = mt_fields t, s_flattened_fields = mt_fields t\<rparr>,
     dt_snapshot = \<lparr>sn_files = mt_files t, sn_num_containers = length (mt_files t),
       sn_min_values = (\<lambda>_. None), sn_max_values = (\<lambda>_. None)\<rparr>,
     dt_history = Inr [last (mt_markers t)]\<rparr>"

fun mem_commit :: "SyncCommitInfo action list \<Rightarrow> mem_table \<Rightarrow> mem_table" where
  "mem_commit [] t = t\<lparr>mt_markers := mt_markers t @ [None]\<rparr>"
| "mem_commit (AddAction a # acts) t = mem_commit acts (t\<lparr>mt_files := mt_files t @ [a]\<rparr>)"
| "mem_commit (RemoveAction p _ _ # acts) t =
     mem_commit acts (t\<lparr>mt_files := filter (\<lambda>a. a_path a \<noteq> p) (mt_files t)\<rparr>)"
| "mem_commit (CommitInfoAction _ ci # acts) t = t\<lparr>mt_markers := mt_markers t @ [Some ci]\<rparr>"

definition mem_lake :: "(mem_state, SyncCommitInfo) lake" where
  "mem_lake = \<lparr>
     lk_is_delta_table_location = (\<lambda>ls l. (Inr (imap_get l (root_uri ls) \<noteq> None), l)),
     lk_delta_schema = Inr,
     lk_create = (\<lambda>ls fields l. (Inr (), imap_insert (root_uri ls)
       \<lparr>mt_fields = fields, mt_files = [], mt_markers = [None]\<rparr> l)),
     lk_load = (\<lambda>ls l. case imap_get l (root_uri ls) of
         None \<Rightarrow> (Inl (External ''not a table''), l) | Some t \<Rightarrow> (Inr (mem_load t), l)),
     lk_df = stat_df,
     lk_df_valid = Inr,
     lk_plan_to_object_store = (\<lambda>_ ls _ l. (Inr [\<lparr>a_path = ''part'', a_size = 1, a_num_records = None\<rparr>], l)),
     lk_commit = (\<lambda>acts ls l. (Inr (), imap_modify (root_uri ls) (mem_commit acts) l)),
     lk_to_value = Inr,
     lk_from_value = (\<lambda>ci. Inr (Some ci))\<rparr>"

datatype command =
    Message string "SequenceNumber option" Origin SyncSchema "record_batch list"
  | Flush string

definition script_clock :: clock where
  "script_clock = \<lparr>clk_now = 1000, clk_elapsed = 0\<rparr>"

fun play :: "arrow_kernels \<Rightarrow> ('l, 'j) lake \<Rightarrow> nat \<Rightarrow> command list \<Rightarrow> writer \<times> 'l \<Rightarrow> writer \<times> 'l" where
  "play K E n [] s = s"
| "play K E n (Message url seq origin schema batches # cs) (w, l) =
     play K E (Suc n) cs
       (snd (enqueue_sync K script_clock n \<lparr>root_uri = url\<rparr> seq origin schema batches w), l)"
| "play K E n (Flush url # cs) (w, l) = play K E n cs (snd (flush_syncs E script_clock url (w, l)))"

lemma sync_steps_Cons: "sync_step K E h h1 \<Longrightarrow> sync_steps K E h1 h2 \<Longrightarrow> sync_steps K E h h2"
  by (rotate_tac 1, induction rule: sync_steps.induct) (auto intro: sync_steps.intros)

lemma play_steps:
  assumes "run_inv K h" and "\<forall>i \<in> fst ` set (h_done h) \<union> fst ` set (w_txs (h_writer h)). i < n"
  shows "\<exists>h'. sync_steps K E h h' \<and> (h_writer h', h_lake h') = play K E n cs (h_writer h, h_lake h)"
  using assms
proof (induction cs arbitrary: h n)
  case Nil
  then show ?case by (auto intro: no_step)
next
  case (Cons c cs)
  show ?case
  proof (cases c)
    case (Message url seq origin schema batches)
    obtain r w' where run: "enqueue_sync K script_clock n \<lparr>root_uri = url\<rparr> seq origin schema batches (h_writer h) = (r, w')"
      by fastforce
    have fresh: "imap_get (h_done h) n = None" "imap_get (w_txs (h_writer h)) n = None"
      using Cons.prems(2) by (auto simp: map_of_eq_None_iff)
    have step: "sync_step K E h (after_enqueue h w')" using sync_step.enqueue [OF run fresh] .
    have "run_inv K (after_enqueue h w')" using run_inv_step [OF step Cons.prems(1)] .
    moreover have "\<forall>i \<in> set (map fst (h_done h)) \<union> set (map fst (w_txs w')). i < Suc n"
      using enqueue_sync_keys [OF run] Cons.prems(2) by (auto simp del: set_map) (auto simp: less_SucI)
    ultimately obtain h' where "sync_steps K E (after_enqueue h w') h'"
      "(h_writer h', h_lake h') = play K E (Suc n) cs (w', h_lake h)"
      using Cons.IH [of "after_enqueue h w'" "Suc n"] by (auto simp: after_enqueue_def)
    with step run Message show ?thesis by (auto intro: sync_steps_Cons)
  next
    case (Flush url)
    obtain r w' l' where run: "flush_syncs E script_clock url (h_writer h, h_lake h) = (r, (w', l'))"
      by (metis prod_cases3)
    have w: "writer_inv K (h_writer h)" using Cons.prems(1) by (simp add: run_inv_def)
    have step: "sync_step K E h (after_flush h url r w' l')" using sync_step.flush_url [OF run] .
    have "run_inv K (after_flush h url r w' l')" using run_inv_step [OF step Cons.prems(1)] .
    moreover have "set (map fst (w_txs w')) \<subseteq> set (map fst (w_txs (h_writer h)))"
      using flush_effect(1) [OF w run] by (metis Un_upper2 set_append)
    then have "\<forall>i \<in> fst ` set (h_done (after_flush h url r w' l')) \<union> fst ` set (w_txs w'). i < n"
      using Cons.prems(2) by (auto simp: after_flush_def)
    ultimately obtain h' where "sync_steps K E (after_flush h url r w' l') h'"
      "(h_writer h', h_lake h') = play K E n cs (w', l')"
      using Cons.IH [of "after_flush h url r w' l'" n] by (auto simp: after_flush_def)
    with step run Flush show ?thesis by (auto intro: sync_steps_Cons)
  qed
qed

lemma script_run:
  "\<exists>h. sync_steps K E (init_history l) h \<and> (h_writer h, h_lake h) = play K E 0 cs (new_writer, l)"
  using play_steps [OF run_inv_init, where n = 0 and E = E and cs = cs] by (simp add: init_history_def new_writer_def)

text \<open>The example of the comment in \<open>writer.rs\<close>: durable sequences none, 1 and 3 after the three flushes.\<close>

definition insert_one :: "int \<Rightarrow> record_batch list" where
  "insert_one k = [rows_batch [(SNull, SInt k, SNull, SBool True, SNull)]]"

definition doc_messages :: "command list" where
  "doc_messages =
     [Message ''table_1'' None ''A'' test_sync_schema (insert_one 1),
      Message ''table_2'' (Some 1) ''A'' test_sync_schema (insert_one 2),
      Message ''table_3'' (Some 2) ''A'' test_sync_schema (insert_one 3),
      Message ''table_1'' None ''A'' test_sync_schema (insert_one 4),
      Message ''table_2'' (Some 3) ''A'' test_sync_schema (insert_one 5)]"

definition reported :: "command list \<Rightarrow> SequenceNumber option \<times> SequenceNumber option" where
  "reported cs = stored_sequences (fst (play list_kernels mem_lake 0 cs (new_writer, []))) ''A''"

lemma doc_example_flushes:
  "reported (doc_messages @ [Flush ''table_1'']) = (Some 3, None)"
  "reported (doc_messages @ [Flush ''table_1'', Flush ''table_2'']) = (Some 3, Some 1)"
  "reported (doc_messages @ [Flush ''table_1'', Flush ''table_2'', Flush ''table_3'']) = (Some 3, Some 3)"
  by code_simp+

lemma durable_items:
  assumes inv: "run_inv K h" and durable: "snd (stored_sequences (h_writer h) org) = Some q"
  shows "\<exists>older tx_id tx newer. h_done h @ w_txs (h_writer h) = older @ (tx_id, tx) # newer \<and>
    tx_origin tx = org \<and> tx_sequence tx = Some q \<and>
    (\<forall>(url, item) \<in> h_accepted h. item_tx_id item \<in> fst ` set (older @ [(tx_id, tx)]) \<longrightarrow>
       (url, item) \<in> h_persisted h \<and> item \<notin> pending (h_writer h) url)"
proof -
  from inv durable obtain i tx where "(i, tx) \<in> set (h_done h)" and tx: "tx_origin tx = org" "tx_sequence tx = Some q"
    using record_durable_mem [of "h_done h" org q] by (auto simp: stored_sequences_def run_inv_def)
  then obtain older newer where split: "h_done h = older @ (i, tx) # newer" by (meson split_list)
  have "(url, item) \<in> h_persisted h \<and> item \<notin> pending (h_writer h) url"
    if "(url, item) \<in> h_accepted h" and "item_tx_id item \<in> fst ` set (older @ [(i, tx)])" for url item
  proof -
    have "item_tx_id item \<in> fst ` set (h_done h)" using that(2) split by auto
    then obtain tx' where "(item_tx_id item, tx') \<in> set (h_done h)" by auto
    from done_not_pending [OF inv this refl] have np: "item \<notin> pending (h_writer h) url" .
    with that(1) inv show ?thesis by (auto simp: run_inv_def)
  qed
  then have "\<forall>(url, item) \<in> h_accepted h. item_tx_id item \<in> fst ` set (older @ [(i, tx)]) \<longrightarrow>
       (url, item) \<in> h_persisted h \<and> item \<notin> pending (h_writer h) url" by blast
  moreover have "h_done h @ w_txs (h_writer h) = older @ (i, tx) # (newer @ w_txs (h_writer h))"
    using split by simp
  ultimately show ?thesis using tx by blast
qed



text \<open>
  C14: the accounting of the writer never goes wrong. In every run, the total size is the sum of
  the sizes of the pending batches and the row counts of each table likewise (modulo the width of
  \<open>usize\<close>), every pending item belongs to a queued transaction that still lists its location, and
  only the newest transaction may be unfinished.
\<close>

theorem writer_accounting:
  assumes "sync_steps K E (init_history l) h"
  shows "writer_inv K (h_writer h)"
  using run_inv_steps [OF assms run_inv_init] by (simp add: run_inv_def)

theorem writer_accounting_witness:
  "\<exists>h :: mem_state history. w_size (h_writer h) = imap_sum c_size (w_syncs (h_writer h)) \<and>
     map fst (w_syncs (h_writer h)) = [''table_1'', ''table_2'', ''table_3'']"
proof -
  obtain h where h: "sync_steps list_kernels mem_lake (init_history []) h"
    "(h_writer h, h_lake h) = play list_kernels mem_lake 0 doc_messages (new_writer, [])"
    using script_run [of list_kernels mem_lake "[]" doc_messages] by blast
  have "map fst (w_syncs (fst (play list_kernels mem_lake 0 doc_messages (new_writer, [])))) =
      [''table_1'', ''table_2'', ''table_3'']" by code_simp
  then have "map fst (w_syncs (h_writer h)) = [''table_1'', ''table_2'', ''table_3'']"
    using h(2) by (metis fst_conv)
  with writer_accounting [OF h(1)] show ?thesis
    by (intro exI [of _ h] conjI) (simp_all add: writer_inv_def)
qed

text \<open>
  C24: \<open>flush\<close> always ends, and if the size limit is not zero it ends in one of two ways: without
  error and with the writer below every limit (its size, the number of syncs per table and the age
  of the oldest entry, at the time of the last check), or with the error of the flush of
  one table that was due. The accounting holds in both cases.
\<close>

theorem flush_drains:
  assumes inv: "writer_inv K w" and pos: "max_in_memory_bytes conf > 0"
  shows "\<exists>r w' l'. flush E conf clk (w, l) = (r, (w', l')) \<and> writer_inv K w' \<and>
    (case r of
       Inr _ \<Rightarrow> \<exists>n. below_limits conf (clk_now (clk n)) w'
     | Inl e \<Rightarrow> \<exists>n url w1 l1. writer_inv K w1 \<and> flush_ready conf (clk n) w1 = Inr (Some url) \<and>
         flush_syncs E (clk n) url (w1, l1) = (Inl e, (w', l')))"
proof -
  obtain r w1 l1 where run: "flush_loop E conf clk 0 (w, l) = (r, (w1, l1))" by (metis prod_cases3)
  note after = flush_loop_inv [OF inv run]
  show ?thesis
  proof (cases r)
    case (Inl e)
    have "flush E conf clk (w, l) = (Inl e, (w1, l1))" using run Inl by (simp add: flush_def bind_st_def)
    with after flush_loop_error [OF inv pos run [unfolded Inl]] show ?thesis by auto
  next
    case (Inr u)
    let ?w = "log_metrics [InMemoryOldest (oldest_insertion w1)] w1"
    obtain n where n: "below_limits conf (clk_now (clk n)) w1" using after Inr by auto
    have "flush E conf clk (w, l) = (Inr (), (?w, l1))"
      using run Inr by (simp add: flush_def bind_st_def on_fst_def)
    moreover have "writer_inv K ?w" using after writer_inv_cong [of ?w w1] by simp
    moreover have "below_limits conf (clk_now (clk n)) ?w" using n by (simp add: below_limits_def)
    ultimately show ?thesis by auto
  qed
qed

definition small_conf :: DataSyncConfig where
  "small_conf = \<lparr>max_in_memory_bytes = 1000000, max_replication_lag_s = 600, max_syncs_per_url = 2\<rparr>"

definition doc_state :: "writer \<times> mem_state" where
  "doc_state = play list_kernels mem_lake 0 doc_messages (new_writer, [])"

lemma doc_state_inv: "writer_inv list_kernels (fst doc_state)"
proof -
  obtain h where "sync_steps list_kernels mem_lake (init_history []) h"
    "(h_writer h, h_lake h) = doc_state"
    using script_run [of list_kernels mem_lake "[]" doc_messages] by (auto simp: doc_state_def)
  then show ?thesis using run_inv_steps [OF _ run_inv_init] by (metis fst_conv run_inv_def)
qed

theorem flush_drains_witness:
  "\<exists>r w'. fst (flush mem_lake small_conf (\<lambda>_. script_clock) doc_state) = r \<and>
     fst (snd (flush mem_lake small_conf (\<lambda>_. script_clock) doc_state)) = w' \<and> writer_inv list_kernels w'"
  using flush_drains [OF doc_state_inv, of small_conf mem_lake "\<lambda>_. script_clock" "snd doc_state"]
  by (auto simp: small_conf_def)

text \<open>
  a size limit of zero is a panic. \<open>flush_ready\<close> unwraps the first entry when the size
  has reached the limit; in a consistent writer this fails exactly when the limit is zero and
  nothing is pending.
\<close>

theorem flush_ready_panics_iff:
  assumes "writer_inv K w"
  shows "(\<exists>e. flush_ready conf clk w = Inl e) \<longleftrightarrow> max_in_memory_bytes conf = 0 \<and> w_syncs w = []"
proof (cases "w_syncs w")
  case Nil
  then show ?thesis using assms
    by (auto simp: flush_ready_def imap_first_def ok_or_def writer_inv_def)
next
  case (Cons e es)
  then show ?thesis by (cases e) (auto simp: flush_ready_def imap_first_def ok_or_def Let_def split: if_splits)
qed

definition zero_conf :: DataSyncConfig where
  "zero_conf = \<lparr>max_in_memory_bytes = 0, max_replication_lag_s = 600, max_syncs_per_url = 50\<rparr>"

theorem flush_ready_panics_iff_witness:
  "\<exists>e. flush_ready zero_conf script_clock new_writer = Inl e"
  using flush_ready_panics_iff [OF writer_inv_new, where conf = zero_conf and clk = script_clock]
  by (simp add: zero_conf_def new_writer_def)


subsection \<open>Skipping what is already durable\<close>

text \<open>The newest finished transaction among some items, and the specification of \<open>skip_syncs\<close>.\<close>

definition newest_finished :: "(Uuid, Transaction) imap \<Rightarrow> DataSyncItem list \<Rightarrow> (Origin \<times> SequenceNumber) option" where
  "newest_finished txs syncs =
     map_option (\<lambda>s. the (finished txs (item_tx_id s)))
       (find (\<lambda>s. finished txs (item_tx_id s) \<noteq> None) (rev syncs))"

definition matches :: "(Uuid, Transaction) imap \<Rightarrow> SyncCommitInfo \<Rightarrow> DataSyncItem \<Rightarrow> bool" where
  "matches txs ci s \<longleftrightarrow> finished txs (item_tx_id s) = Some (ci_origin ci, ci_sequence ci)"

lemma skip_start_spec:
  "skip_start txs ci syncs =
     (if \<exists>s \<in> set syncs. matches txs ci s then Some (tl (dropWhile (\<lambda>s. \<not> matches txs ci s) syncs)) else None)"
  by (induction syncs) (auto simp: matches_def)

lemma map_filter_hd:
  "List.map_filter f xs = (case find (\<lambda>x. f x \<noteq> None) xs of None \<Rightarrow> [] | Some x \<Rightarrow> the (f x) # tl (List.map_filter f xs))"
  by (induction xs) (auto simp: List.map_filter_simps split: option.splits)

lemma skip_syncs_spec:
  assumes known: "\<forall>s \<in> set syncs. imap_get txs (item_tx_id s) \<noteq> None"
    and rest: "rest = (case last_commit of
        None \<Rightarrow> syncs
      | Some ci \<Rightarrow> (if \<exists>s \<in> set syncs. matches txs ci s
          then tl (dropWhile (\<lambda>s. \<not> matches txs ci s) syncs) else syncs))"
  shows "skip_syncs txs last_commit syncs = Inr (rest,
    map_option (with_new_tx (rest \<noteq> [] \<and> finished txs (item_tx_id (last rest)) = None))
      (case newest_finished txs rest of
         Some (org, seq) \<Rightarrow> Some (commit_info_new org seq)
       | None \<Rightarrow> last_commit))"
proof -
  have start: "(case last_commit of None \<Rightarrow> syncs
      | Some ci \<Rightarrow> (case skip_start txs ci syncs of None \<Rightarrow> syncs | Some r \<Rightarrow> r)) = rest"
    using rest by (auto simp: skip_start_spec split: option.splits)
  have "set rest \<subseteq> set syncs"
    using rest by (auto split: option.splits if_splits dest!: list.set_sel(2) [rotated] set_dropWhileD)
  then have kn: "\<forall>s \<in> set rest. imap_get txs (item_tx_id s) \<noteq> None" using known by blast
  have new_tx: "(if rest = [] then Inr False
      else case imap_get txs (item_tx_id (last rest)) of
             None \<Rightarrow> Inl (Panic ''IndexMap: key not found'')
           | Some tx \<Rightarrow> Inr (tx_sequence tx = None)) =
      Inr (rest \<noteq> [] \<and> finished txs (item_tx_id (last rest)) = None)"
  proof (cases "rest = []")
    case False
    then obtain tx where "imap_get txs (item_tx_id (last rest)) = Some tx"
      using kn by (meson last_in_set not_None_eq)
    with False show ?thesis by (simp add: finished_def)
  qed simp
  show ?thesis
    unfolding skip_syncs_def Let_def start new_tx newest_finished_def
    by (subst map_filter_hd) (auto split: option.splits prod.splits)
qed

lemma pending_known:
  assumes inv: "writer_inv K w" and c: "imap_get (w_syncs w) url = Some c" and s: "s \<in> set (c_syncs c)"
  shows "imap_get (w_txs w) (item_tx_id s) \<noteq> None"
proof -
  have "s \<in> pending w url" using c s by (simp add: pending_def)
  then have "registered (w_txs w) url (item_tx_id s)" using inv by (simp add: writer_inv_def)
  then show ?thesis by (auto simp: registered_def split: option.splits)
qed

text \<open>
  \<open>skip_syncs\<close> does what it is for. For the pending items of a table in a consistent writer it never
  panics; it drops the items up to the first one whose transaction is the one recorded in the last
  commit (nothing, if there is none), and the new marker names the newest finished transaction among
  the remaining items, or inherits the old marker, with the flag of a new transaction set
  exactly if the last remaining item belongs to an unfinished one.
\<close>

theorem skip_syncs_correct:
  assumes "writer_inv K w" and "imap_get (w_syncs w) url = Some c"
    and "rest = (case last_commit of
        None \<Rightarrow> c_syncs c
      | Some ci \<Rightarrow> (if \<exists>s \<in> set (c_syncs c). matches (w_txs w) ci s
          then tl (dropWhile (\<lambda>s. \<not> matches (w_txs w) ci s) (c_syncs c)) else c_syncs c))"
  shows "skip_syncs (w_txs w) last_commit (c_syncs c) = Inr (rest,
    map_option (with_new_tx (rest \<noteq> [] \<and> finished (w_txs w) (item_tx_id (last rest)) = None))
      (case newest_finished (w_txs w) rest of
         Some (org, seq) \<Rightarrow> Some (commit_info_new org seq)
       | None \<Rightarrow> last_commit))"
  by (rule skip_syncs_spec) (use assms pending_known [OF assms(1,2)] in auto)

lemma doc_table_2:
  "map_option (\<lambda>c. map item_tx_id (c_syncs c)) (imap_get (w_syncs (fst doc_state)) ''table_2'') = Some [0, 3]"
  by code_simp

theorem skip_syncs_correct_witness:
  "\<exists>c. imap_get (w_syncs (fst doc_state)) ''table_2'' = Some c \<and>
     skip_syncs (w_txs (fst doc_state)) (Some (commit_info_new ''A'' 1)) (c_syncs c) =
       Inr (tl (c_syncs c), Some (commit_info_new ''A'' 3))"
proof -
  obtain c where c: "imap_get (w_syncs (fst doc_state)) ''table_2'' = Some c"
    using doc_table_2 by (cases "imap_get (w_syncs (fst doc_state)) ''table_2''") auto
  then have ids: "map item_tx_id (c_syncs c) = [0, 3]" using doc_table_2 by simp
  then obtain a b where ab: "c_syncs c = [a, b]" "item_tx_id a = 0" "item_tx_id b = 3" by auto
  have fin: "finished (w_txs (fst doc_state)) 0 = Some (''A'', 1)" "finished (w_txs (fst doc_state)) 3 = Some (''A'', 3)"
    by code_simp+
  from skip_syncs_correct [OF doc_state_inv c refl, of "Some (commit_info_new ''A'' 1)"]
  have "skip_syncs (w_txs (fst doc_state)) (Some (commit_info_new ''A'' 1)) (c_syncs c) =
       Inr (tl (c_syncs c), Some (commit_info_new ''A'' 3))"
    using fin by (simp add: ab matches_def newest_finished_def commit_info_new_def with_new_tx_def)
  with c show ?thesis by blast
qed

text \<open>The marker action of a commit, and a successful write.\<close>

definition marker_action :: "('l, 'j) lake \<Rightarrow> SyncCommitInfo option \<Rightarrow> 'j action list \<Rightarrow> bool" where
  "marker_action E marker info \<longleftrightarrow> (case marker of
      None \<Rightarrow> info = []
    | Some ci \<Rightarrow> (\<exists>v. lk_to_value E ci = Inr v \<and> info = [CommitInfoAction SYNC_COMMIT_INFO v]))"

lemma write_syncs_ok:
  assumes "write_syncs E clk url ls table syncs marker files l = (Inr (), l')"
  shows "\<exists>base out adds info l2. lk_df_valid E (Scan files) = Inr base \<and>
    apply_syncs (lk_df_valid E) (dt_schema table) base syncs = Inr out \<and>
    lk_plan_to_object_store E out ls (if starts_with ''file://'' url then Some (root_uri ls) else None) l = (Inr adds, l2) \<and>
    marker_action E marker info \<and>
    lk_commit E (map AddAction adds @ map (\<lambda>a. RemoveAction (a_path a) (clk_now clk) (a_size a)) files @ info)
      ls l2 = (Inr (), l')"
proof -
  from assms obtain base out adds info l2 where
    "lk_df_valid E (Scan files) = Inr base"
    "apply_syncs (lk_df_valid E) (dt_schema table) base syncs = Inr out"
    "lk_plan_to_object_store E out ls (if starts_with ''file://'' url then Some (root_uri ls) else None) l = (Inr adds, l2)"
    "(case marker of None \<Rightarrow> Inr []
      | Some ci \<Rightarrow> bind_res (lk_to_value E ci) (\<lambda>v. Inr [CommitInfoAction SYNC_COMMIT_INFO v])) = Inr info"
    "lk_commit E (map AddAction adds @ map (\<lambda>a. RemoveAction (a_path a) (clk_now clk) (a_size a)) files @ info)
      ls l2 = (Inr (), l')"
    unfolding write_syncs_def Let_def bind_st_eq_Inr lift_res_def by auto
  moreover from this(4) have "marker_action E marker info"
    by (auto simp: marker_action_def res_simps split: option.splits)
  ultimately show ?thesis by blast
qed


lemma doc_flush_runs: "fst (flush_syncs mem_lake script_clock ''table_1'' doc_state) = Inr ()"
  by code_simp



subsection \<open>Transactions that can never become durable\<close>

text \<open>
  The oldest transaction is blocked if it is finished and waits for a location at which it has no pending
  item: nothing will ever remove that location.
\<close>

definition blocked :: "writer \<Rightarrow> Uuid \<Rightarrow> string \<Rightarrow> bool" where
  "blocked w i url \<longleftrightarrow> (\<exists>tx rest. w_txs w = (i, tx) # rest \<and> tx_sequence tx \<noteq> None \<and> url \<in> tx_locations tx) \<and>
     (\<forall>item \<in> pending w url. item_tx_id item \<noteq> i)"

lemma blocked_enqueue:
  assumes inv: "writer_inv K w" and b: "blocked w i url" and fresh: "imap_get (w_txs w) fresh = None"
    and run: "enqueue_sync K clk fresh ls seq origin schema batches w = (r, w')"
  shows "blocked w' i url"
proof -
  obtain tx rest where tx: "w_txs w = (i, tx) # rest" "tx_sequence tx \<noteq> None" "url \<in> tx_locations tx"
    using b by (auto simp: blocked_def)
  note eff = enqueue_sync_effect [OF inv fresh run]
  have i: "imap_get (w_txs w) i = Some tx" using tx(1) by simp
  then have tx': "imap_get (w_txs w') i = Some tx" using eff(3) [OF i] tx(2) by (auto simp: tx_le_def)
  obtain rest' where keys: "map fst (w_txs w') = i # rest'"
    using enqueue_sync_keys [OF run] tx(1) by auto
  then obtain t ts where "w_txs w' = (i, t) # ts" by (cases "w_txs w'") auto
  with tx' have "w_txs w' = (i, tx) # ts" by simp
  moreover have "item_tx_id item \<noteq> i" if item: "item \<in> pending w' url" for item
  proof (cases "item \<in> pending w url")
    case True
    then show ?thesis using b by (simp add: blocked_def)
  next
    case False
    then obtain w1 where "upsert_tx fresh url seq origin (batch_rows batches) w = (Inr (item_tx_id item), w1)"
      using eff(5) [OF item] by auto
    then have "item_tx_id item = fresh \<or> (\<exists>t. imap_last (w_txs w) = Some (item_tx_id item, t) \<and> tx_sequence t = None)"
      by (auto simp: upsert_tx_def Let_def split: option.splits if_splits bool.splits prod.splits)
    then show ?thesis
    proof
      assume "item_tx_id item = fresh"
      then show ?thesis using fresh i by auto
    next
      assume "\<exists>t. imap_last (w_txs w) = Some (item_tx_id item, t) \<and> tx_sequence t = None"
      then obtain t where t: "imap_last (w_txs w) = Some (item_tx_id item, t)" "tx_sequence t = None" by auto
      have "imap_get (w_txs w) (item_tx_id item) = Some t"
        using imap_last_get [OF _ t(1)] inv by (simp add: writer_inv_def txs_ok_def)
      then show ?thesis using i t(2) tx(2) by auto
    qed
  qed
  ultimately show ?thesis using tx(2,3) by (auto simp: blocked_def)
qed

lemma blocked_flush:
  assumes inv: "writer_inv K w" and b: "blocked w i url"
    and run: "flush_syncs E clk u (w, l) = (r, (w', l'))"
  shows "blocked w' i url" and "w_origin_durable w' = w_origin_durable w"
proof -
  obtain tx rest where tx: "w_txs w = (i, tx) # rest" "tx_sequence tx \<noteq> None" "url \<in> tx_locations tx"
    using b by (auto simp: blocked_def)
  have sub: "\<forall>item \<in> pending w' url. item_tx_id item \<noteq> i"
    using flush_effect(4) [OF inv run] b by (auto simp: blocked_def)
  have "(\<exists>rest. \<exists>tx. w_txs w' = (i, tx) # rest \<and> tx_sequence tx \<noteq> None \<and> url \<in> tx_locations tx) \<and>
      w_origin_durable w' = w_origin_durable w"
    using run
  proof (cases rule: flush_syncs_cases)
    case (flushed entry table ci syncs ci' files ms l1)
    let ?ids = "map item_tx_id (c_syncs entry)"
    let ?txs = "fold (remove_tx_location u) ?ids (w_txs w)"
    have wf: "imap_wf (w_txs (log_metrics ms w))" using inv by (simp add: writer_inv_def txs_ok_def)
    have "u \<noteq> url \<or> i \<notin> set ?ids"
      using b flushed(1) by (auto simp: blocked_def pending_def)
    then obtain tx' where tx': "imap_get ?txs i = Some tx'" "tx_sequence tx' = tx_sequence tx" "url \<in> tx_locations tx'"
      using tx get_remove_tx_locations [of u ?ids "w_txs w" i] by (cases "i \<in> set ?ids") auto
    have "map fst ?txs = i # map fst rest" using tx(1) remove_tx_location_sel [of u ?ids "w_txs w"] by simp
    then obtain t ts where "?txs = (i, t) # ts" by (cases ?txs) auto
    with tx'(1) have txs: "?txs = (i, tx') # ts" by simp
    have "\<not> complete (i, tx')" using tx'(3) by (auto simp: complete_def)
    then have "w_txs w' = (i, tx') # ts" "w_origin_durable w' = record_durable [] (w_origin_durable w)"
      using finish_flush_sel(1,2) [OF wf, of clk u entry] flushed(8) txs by simp_all
    then show ?thesis using tx'(2,3) tx(2) by (auto simp: record_durable_def)
  qed (use tx in auto)
  with sub show "blocked w' i url" and "w_origin_durable w' = w_origin_durable w"
    by (auto simp: blocked_def)
qed

lemma blocked_step:
  assumes "sync_step K E h h'" and "run_inv K h" and "blocked (h_writer h) i url"
  shows "blocked (h_writer h') i url \<and> w_origin_durable (h_writer h') = w_origin_durable (h_writer h)"
  using assms
proof (induction rule: sync_step.induct)
  case (enqueue clk fresh ls seq origin schema batches h r w')
  then have "writer_inv K (h_writer h)" by (simp add: run_inv_def)
  from blocked_enqueue [OF this enqueue(5,3,1)] enqueue_sync_effect(2) [OF this enqueue(3,1)]
  show ?case by (simp add: after_enqueue_def)
next
  case (flush_url clk u h r w' l')
  then have "writer_inv K (h_writer h)" by (simp add: run_inv_def)
  from blocked_flush [OF this flush_url(3,1)] show ?case by (simp add: after_flush_def)
qed (simp add: log_metrics_def blocked_def pending_def)

lemma blocked_steps:
  assumes "sync_steps K E h h'" and "run_inv K h" and "blocked (h_writer h) i url"
  shows "blocked (h_writer h') i url \<and> w_origin_durable (h_writer h') = w_origin_durable (h_writer h)"
  using assms
proof (induction rule: sync_steps.induct)
  case (more_steps h h' h'')
  have h': "blocked (h_writer h') i url" "w_origin_durable (h_writer h') = w_origin_durable (h_writer h)"
    using more_steps by blast+
  from blocked_step [OF more_steps(2) run_inv_steps [OF more_steps(1,4)] h'(1)] h'(2) show ?case by simp
qed simp

lemma flush_syncs_skips_all:
  assumes "imap_get (w_syncs w) url = Some c" and "ensure_table E c l = (Inr (), l1)"
    and "lk_load E (c_log_store c) l1 = (Inr table, l2)" and "table_sequence E table = Inr last_commit"
    and "skip_syncs (w_txs w) last_commit (c_syncs c) = Inr ([], m)"
  shows "flush_syncs E clk url (w, l) = (Inr (), (remove_sync url w, l2))"
  using assms by (simp add: flush_syncs_def bind_st_def on_snd_def on_fst_def)

text \<open>
  C26: a transaction that was already durable blocks the writer for good. When all pending items of a
  location are skipped because the table's last commit covers them, the flush drops them without
  removing the location from their transactions. If the oldest transaction is finished and one of its
  locations is flushed in this way, then no durable sequence number of any origin changes in any
  continuation of the run.
\<close>

theorem skipped_transaction_blocks_durability:
  assumes run: "sync_steps K E (init_history l0) h" and w: "w = h_writer h" and l: "l = h_lake h"
    and c: "imap_get (w_syncs w) url = Some c" and "ensure_table E c l = (Inr (), l1)"
    and "lk_load E (c_log_store c) l1 = (Inr table, l2)" and "table_sequence E table = Inr last_commit"
    and "skip_syncs (w_txs w) last_commit (c_syncs c) = Inr ([], m)"
    and oldest: "w_txs w = (i, tx) # txs" and "tx_sequence tx \<noteq> None" and "url \<in> tx_locations tx"
  shows "flush_syncs E clk url (w, l) = (Inr (), (remove_sync url w, l2)) \<and>
    (\<forall>h'. sync_steps K E (after_flush h url (Inr ()) (remove_sync url w) l2) h' \<longrightarrow>
       w_origin_durable (h_writer h') = w_origin_durable w)"
proof (intro conjI allI impI)
  show flush: "flush_syncs E clk url (w, l) = (Inr (), (remove_sync url w, l2))"
    by (rule flush_syncs_skips_all) (use assms in auto)
  fix h' assume steps: "sync_steps K E (after_flush h url (Inr ()) (remove_sync url w) l2) h'"
  have "run_inv K h" by (rule run_inv_steps [OF run run_inv_init])
  then have inv: "run_inv K (after_flush h url (Inr ()) (remove_sync url w) l2)"
    by (rule run_inv_flush) (use flush w l in simp)
  have "blocked (remove_sync url w) i url"
    using assms(9-11) by (auto simp: blocked_def pending_remove_sync)
  then show "w_origin_durable (h_writer h') = w_origin_durable w"
    using blocked_steps [OF steps inv] by (simp add: after_flush_def)
qed

definition restart_lake :: mem_state where
  "restart_lake = [(''table_1'', \<lparr>mt_fields = [], mt_files = [], mt_markers = [None, Some (commit_info_new ''A'' 5)]\<rparr>)]"

definition redelivery :: "command list" where
  "redelivery = [Message ''table_1'' (Some 5) ''A'' test_sync_schema (insert_one 1)]"

theorem skipped_transaction_blocks_durability_witness:
  "\<exists>h w. sync_steps list_kernels mem_lake (init_history restart_lake) h \<and>
     flush_syncs mem_lake script_clock ''table_1'' (h_writer h, h_lake h) = (Inr (), (w, h_lake h)) \<and>
     (\<forall>h'. sync_steps list_kernels mem_lake (after_flush h ''table_1'' (Inr ()) w (h_lake h)) h' \<longrightarrow>
        snd (stored_sequences (h_writer h') ''A'') = None)"
proof -
  let ?s = "play list_kernels mem_lake 0 redelivery (new_writer, restart_lake)"
  obtain h where h: "sync_steps list_kernels mem_lake (init_history restart_lake) h" "(h_writer h, h_lake h) = ?s"
    using script_run [of list_kernels mem_lake restart_lake redelivery] by blast
  have w: "h_writer h = fst ?s" and l: "h_lake h = snd ?s" using h(2) by (metis fst_conv, metis snd_conv)
  define c where "c = the (imap_get (w_syncs (fst ?s)) ''table_1'')"
  define table where "table = mem_load (snd (hd restart_lake))"
  define tx where "tx = snd (hd (w_txs (fst ?s)))"
  have "imap_get (w_syncs (fst ?s)) ''table_1'' \<noteq> None" by code_simp
  then have c: "imap_get (w_syncs (fst ?s)) ''table_1'' = Some c" by (auto simp: c_def)
  have l': "snd ?s = restart_lake" by (simp add: redelivery_def)
  have ls: "root_uri (c_log_store c) = ''table_1''" unfolding c_def by code_simp
  have en: "ensure_table mem_lake c (snd ?s) = (Inr (), snd ?s)"
    unfolding l' by (simp add: ensure_table_def bind_st_def mem_lake_def ls restart_lake_def)
  have ld: "lk_load mem_lake (c_log_store c) (snd ?s) = (Inr table, snd ?s)"
    unfolding l' by (simp add: mem_lake_def ls restart_lake_def table_def)
  have sq: "table_sequence mem_lake table = Inr (Some (commit_info_new ''A'' 5))"
    unfolding table_def by code_simp
  have sk: "skip_syncs (w_txs (fst ?s)) (Some (commit_info_new ''A'' 5)) (c_syncs c) =
      Inr ([], Some (commit_info_new ''A'' 5))"
    unfolding c_def by code_simp
  have "map fst (w_txs (fst ?s)) = [0]" by code_simp
  then have tx1: "w_txs (fst ?s) = (0, tx) # []" unfolding tx_def by (cases "w_txs (fst ?s)") auto
  have tx2: "tx_sequence tx \<noteq> None" "''table_1'' \<in> tx_locations tx" unfolding tx_def by code_simp+
  note tx = tx1 tx2
  have none: "imap_get (w_origin_durable (fst ?s)) ''A'' = None" by code_simp
  from skipped_transaction_blocks_durability [OF h(1) w [symmetric] l [symmetric] c en ld sq sk tx, of script_clock]
  show ?thesis using h(1) w l none by (auto simp: stored_sequences_def)
qed

definition two_message_writer :: writer where
  "two_message_writer = fst (play list_kernels mem_lake 0
     [Message ''table_1'' None ''A'' test_sync_schema (insert_one 1),
      Message ''table_1'' (Some 5) ''A'' test_sync_schema (insert_one 2)] (new_writer, []))"

definition two_message_items :: "DataSyncItem list" where
  "two_message_items = (case imap_get (w_syncs two_message_writer) ''table_1'' of None \<Rightarrow> [] | Some c \<Rightarrow> c_syncs c)"

text \<open>
  A redelivered transaction is only partly skipped. Two messages of transaction 5 of origin A go to the
  same table, and the last commit of the table is marked with exactly that transaction; the comment in
  \<open>skip_syncs\<close> says that everything up to it can be skipped, but the search stops at
  the first item of the transaction, and the second message is applied again.
\<close>

theorem redelivery_skips_first_message_only:
  "map (\<lambda>item. finished (w_txs two_message_writer) (item_tx_id item)) two_message_items =
     [Some (''A'', 5), Some (''A'', 5)] \<and>
   skip_syncs (w_txs two_message_writer) (Some (commit_info_new ''A'' 5)) two_message_items =
     Inr ([two_message_items ! 1], Some (commit_info_new ''A'' 5))"
  by (intro conjI) code_simp+

end
