(* ===== verification/FlightHandler.thy ===== *)
theory FlightHandler
  imports SyncDurability
begin

text \<open>
  The Flight service (\<open>src/frontend/flight/handler.rs\<close>, \<open>sql.rs\<close>, \<open>flush_task\<close> of \<open>sync/mod.rs\<close>): requests with
  changes are checked and handed to the sync writer, results of queries are kept until they are fetched, and a background
  task flushes the writer from time to time. The writer is behind a lock; whether a call gets it in time is an input
  of the call, as are the clock and the generated ids. A run of the service is any sequence of such calls; the theorems
  say what the answers to a client mean.
\<close>

subsection \<open>Messages and state\<close>

record StorageLocation =
  sl_location :: string
  sl_options :: "(string \<times> string) list"

record DataSyncCommand =
  dc_path :: string
  dc_store :: "StorageLocation option"
  dc_column_descriptors :: "ColumnDescriptor list"
  dc_origin :: Origin
  dc_sequence_number :: "SequenceNumber option"

record DataSyncResponse =
  dr_accepted :: bool
  dr_memory_sequence_number :: "SequenceNumber option"
  dr_durable_sequence_number :: "SequenceNumber option"
  dr_first :: bool

text \<open>
  What the context gives the handler: the internal object store, if one is configured, and the stores of other
  locations, after \<open>Url::parse\<close>.
\<close>

record 'url sync_stores =
  ss_internal :: "(string \<Rightarrow> LogStore) option"
  ss_parse :: "string \<Rightarrow> (string, 'url) result"
  ss_for_table :: "'url \<Rightarrow> (string \<times> string) list \<Rightarrow> string \<Rightarrow> (string, LogStore) result"

text \<open>The handler, with its writer and the lake that the writer commits to; \<open>'b\<close> is a stream of batches.\<close>

record ('l, 'b) handler =
  fh_results :: "(string, 'b) imap"
  fh_first_sync :: bool
  fh_writer :: writer
  fh_lake :: 'l

definition new_handler :: "'l \<Rightarrow> ('l, 'b) handler" where
  "new_handler l = \<lparr>fh_results = [], fh_first_sync = True, fh_writer = new_writer, fh_lake = l\<rparr>"

text \<open>The circumstances of a call: the write lock, the clock and the next id.\<close>

record call =
  ct_lock :: bool
  ct_clock :: clock
  ct_flush_clock :: "nat \<Rightarrow> clock"
  ct_fresh :: Uuid

definition SEAFOWL_SYNC_CALL_MAX_ROWS :: nat where "SEAFOWL_SYNC_CALL_MAX_ROWS = 65536"

definition num_rows :: "record_batch list \<Rightarrow> nat" where
  "num_rows batches = foldl (\<lambda>rows batch. rows + b_num_rows batch) 0 batches"


subsection \<open>Changes\<close>

definition sync_log_store :: "'url sync_stores \<Rightarrow> DataSyncCommand \<Rightarrow> (SyncError, LogStore) result" where
  "sync_log_store S cmd = (case dc_store cmd of
      None \<Rightarrow> bind_res (ok_or (External ''Internal object store isn't configured'') (ss_internal S)) (\<lambda>store.
        Inr (store (dc_path cmd)))
    | Some store_loc \<Rightarrow>
        bind_res (map_err (\<lambda>e. External (''Couldn't parse sync location: '' @ e)) (ss_parse S (sl_location store_loc))) (\<lambda>url.
        map_err External (ss_for_table S url (sl_options store_loc) (dc_path cmd))))"

definition sync_response :: "writer \<Rightarrow> Origin \<Rightarrow> bool \<Rightarrow> DataSyncResponse" where
  "sync_response w origin first = (case stored_sequences w origin of (mem_seq, dur_seq) \<Rightarrow>
     \<lparr>dr_accepted = True, dr_memory_sequence_number = mem_seq, dr_durable_sequence_number = dur_seq, dr_first = first\<rparr>)"

definition process_sync_cmd ::
    "arrow_kernels \<Rightarrow> ('l, 'j) lake \<Rightarrow> DataSyncConfig \<Rightarrow> 'url sync_stores \<Rightarrow> call \<Rightarrow> DataSyncCommand \<Rightarrow> SyncSchema \<Rightarrow>
      record_batch list \<Rightarrow> (('l, 'b) handler, SyncError, DataSyncResponse) st" where
  "process_sync_cmd K E conf S t cmd sync_schema batches h =
     (let first = fh_first_sync h;
          h = h\<lparr>fh_first_sync := False\<rparr> in
      if num_rows batches = 0 \<and> dc_sequence_number cmd = None
      then (Inr (sync_response (fh_writer h) (dc_origin cmd) first), h)
      else case sync_log_store S cmd of
        Inl e \<Rightarrow> (Inl e, h)
      | Inr log_store \<Rightarrow>
          if \<not> ct_lock t
          then (Inr \<lparr>dr_accepted = False, dr_memory_sequence_number = None, dr_durable_sequence_number = None, dr_first = first\<rparr>, h)
          else
            (case enqueue_sync K (ct_clock t) (ct_fresh t) log_store (dc_sequence_number cmd) (dc_origin cmd) sync_schema
                batches (fh_writer h) of
               (Inl e, w) \<Rightarrow> (Inl e, h\<lparr>fh_writer := w\<rparr>)
             | (Inr _, w) \<Rightarrow>
                 (case flush E conf (ct_flush_clock t) (w, fh_lake h) of
                    (Inl e, (w, l)) \<Rightarrow> (Inl e, h\<lparr>fh_writer := w, fh_lake := l\<rparr>)
                  | (Inr _, (w, l)) \<Rightarrow> (Inr (sync_response w (dc_origin cmd) first), h\<lparr>fh_writer := w, fh_lake := l\<rparr>))))"

datatype status = InvalidArgument string | StatusInternal string | StatusNotFound string | StatusPanic string

definition status_of :: "SyncError \<Rightarrow> status" where
  "status_of e = (case e of
      InvalidMessage reason \<Rightarrow> InvalidArgument ''invalid message''
    | Panic m \<Rightarrow> StatusPanic m
    | _ \<Rightarrow> StatusInternal ''Failed processing DoPut'')"

text \<open>\<open>message\<close> is the decoded command and \<open>stream\<close> the collected batches of the request.\<close>

definition do_put_fallback ::
    "arrow_kernels \<Rightarrow> ('l, 'j) lake \<Rightarrow> DataSyncConfig \<Rightarrow> 'url sync_stores \<Rightarrow> call \<Rightarrow> (string, DataSyncCommand) result \<Rightarrow>
      (status, record_batch list) result \<Rightarrow> (('l, 'b) handler, status, DataSyncResponse) st" where
  "do_put_fallback K E conf S t message stream =
     bind_st (lift_res (map_err (\<lambda>e. InvalidArgument (''Couldn't decode command: '' @ e)) message)) (\<lambda>cmd.
     bind_st (lift_res stream) (\<lambda>batches.
     bind_st (lift_res (
       if batches \<noteq> [] then
         if num_rows batches > SEAFOWL_SYNC_CALL_MAX_ROWS then Inl (InvalidArgument ''Change contains more than max allowed rows'')
         else map_err (\<lambda>_. InvalidArgument ''invalid schema'') (try_new (dc_column_descriptors cmd) (b_schema (hd batches)))
       else Inr empty_schema)) (\<lambda>sync_schema h.
     case process_sync_cmd K E conf S t cmd sync_schema batches h of (r, h') \<Rightarrow> (map_err status_of r, h'))))"

text \<open>One turn of the loop of \<open>flush_task\<close>; an error is only logged.\<close>

definition flush_task_turn ::
    "('l, 'j) lake \<Rightarrow> DataSyncConfig \<Rightarrow> call \<Rightarrow> ('l, 'b) handler \<Rightarrow> ('l, 'b) handler" where
  "flush_task_turn E conf t h =
     (if ct_lock t
      then (case flush E conf (ct_flush_clock t) (fh_writer h, fh_lake h) of (_, (w, l)) \<Rightarrow> h\<lparr>fh_writer := w, fh_lake := l\<rparr>)
      else h)"


subsection \<open>Queries\<close>

text \<open>
  Planning and running a query in a context, and the schema of the answer, belong to other parts. \<open>'w\<close> is what they
  change.
\<close>

record ('cx, 'm, 'p, 'w, 'b) query_engine =
  qe_scope_to_schema :: "string \<Rightarrow> 'cx \<Rightarrow> 'cx"
  qe_with_metastore :: "'m \<Rightarrow> 'cx \<Rightarrow> 'cx"
  qe_plan_query :: "'cx \<Rightarrow> string \<Rightarrow> ('w, string, 'p) st"
  qe_execute_stream :: "'cx \<Rightarrow> 'p \<Rightarrow> ('w, string, 'b) st"
  qe_try_with_schema :: "'b \<Rightarrow> (string, unit) result"

text \<open>The answer: the ticket with which the results are fetched. \<open>search_path\<close> is the header, if present, after \<open>to_str\<close>.\<close>

record flight_info =
  fi_ticket :: string

definition query_to_stream ::
    "('cx, 'm, 'p, 'w, 'b) query_engine \<Rightarrow> 'cx \<Rightarrow> string \<Rightarrow> string \<Rightarrow> (string, string) result option \<Rightarrow> 'm option \<Rightarrow>
      (('l, 'b) handler \<times> 'w, string, flight_info) st" where
  "query_to_stream Q cx query query_id search_path memory_store =
     bind_st (lift_res (case search_path of
         Some header \<Rightarrow> bind_res (map_err (\<lambda>e. ''Couldn't parse search path from header value: '' @ e) header) (\<lambda>s.
           Inr (qe_scope_to_schema Q s cx))
       | None \<Rightarrow> Inr cx)) (\<lambda>ctx.
     let ctx = (case memory_store of Some m \<Rightarrow> qe_with_metastore Q m ctx | None \<Rightarrow> ctx) in
     bind_st (on_snd (qe_plan_query Q ctx query)) (\<lambda>plan.
     bind_st (on_snd (qe_execute_stream Q ctx plan)) (\<lambda>batch_stream.
     bind_st (on_fst (modify_st (\<lambda>h. h\<lparr>fh_results := imap_insert query_id batch_stream (fh_results h)\<rparr>))) (\<lambda>_.
     bind_st (lift_res (qe_try_with_schema Q batch_stream)) (\<lambda>_.
     return_st \<lparr>fi_ticket = query_id\<rparr>)))))"

definition fetch_stream :: "string \<Rightarrow> (('l, 'b) handler, status, 'b) st" where
  "fetch_stream query_id h = (case imap_get (fh_results h) query_id of
      None \<Rightarrow> (Inl (StatusNotFound (''No results found for query id '' @ query_id)), h)
    | Some batch_stream \<Rightarrow> (Inr batch_stream, h\<lparr>fh_results := imap_shift_remove query_id (fh_results h)\<rparr>))"

definition internal_status :: "(string, 'a) result \<times> 's \<Rightarrow> (status, 'a) result \<times> 's" where
  "internal_status = (\<lambda>(r, s). (map_err StatusInternal r, s))"

definition get_flight_info_statement ::
    "('cx, 'm, 'p, 'w, 'b) query_engine \<Rightarrow> 'cx \<Rightarrow> string \<Rightarrow> string \<Rightarrow> (string, string) result option \<Rightarrow>
      (('l, 'b) handler \<times> 'w, status, flight_info) st" where
  "get_flight_info_statement Q cx query_id query search_path s =
     internal_status (query_to_stream Q cx query query_id search_path None s)"

text \<open>A query with an inline metastore; the schemas are optional in the message.\<close>

definition get_flight_info_fallback ::
    "('cx, 'm, 'p, 'w, 'b) query_engine \<Rightarrow> 'cx \<Rightarrow> string \<Rightarrow> (string, string \<times> 'm option) result \<Rightarrow> (string, string) result option \<Rightarrow>
      (('l, 'b) handler \<times> 'w, status, flight_info) st" where
  "get_flight_info_fallback Q cx query_id message search_path =
     bind_st (lift_res (map_err (\<lambda>e. InvalidArgument (''Couldn't decode command: '' @ e)) message)) (\<lambda>(query, schemas).
     bind_st (lift_res (ok_or (StatusPanic ''Schema list provided'') schemas)) (\<lambda>m s.
     internal_status (query_to_stream Q cx query query_id search_path (Some m) s)))"

definition do_get_statement :: "string \<Rightarrow> (('l, 'b) handler, status, 'b) st" where
  "do_get_statement statement_handle = fetch_stream statement_handle"

subsection \<open>Runs of the service\<close>

text \<open>
  Any sequence of requests with changes and turns of the background task, with queries in between, which only touch
  the results. The ids of transactions are generated: \<open>used\<close> has the ones that were drawn so far.
\<close>

inductive service_run ::
    "arrow_kernels \<Rightarrow> ('l, 'j) lake \<Rightarrow> DataSyncConfig \<Rightarrow> 'url sync_stores \<Rightarrow> 'l \<Rightarrow> Uuid set \<Rightarrow> ('l, 'b) handler \<Rightarrow> bool"
  for K :: arrow_kernels and E :: "('l, 'j) lake" and conf :: DataSyncConfig and S :: "'url sync_stores" and l :: 'l where
  start: "service_run K E conf S l {} (new_handler l)"
| put: "service_run K E conf S l used h \<Longrightarrow> ct_fresh t \<notin> used \<Longrightarrow>
    do_put_fallback K E conf S t message stream h = (r, h') \<Longrightarrow> service_run K E conf S l (insert (ct_fresh t) used) h'"
| turn: "service_run K E conf S l used h \<Longrightarrow> service_run K E conf S l used (flush_task_turn E conf t h)"
| queries: "service_run K E conf S l used h \<Longrightarrow> service_run K E conf S l used (h\<lparr>fh_results := results\<rparr>)"

definition tx_keys :: "'l history \<Rightarrow> Uuid set" where
  "tx_keys h = fst ` set (h_done h) \<union> fst ` set (w_txs (h_writer h))"

text \<open>The histories of the writer that end in a given state of the service and used only these ids.\<close>

definition explains :: "arrow_kernels \<Rightarrow> ('l, 'j) lake \<Rightarrow> 'l \<Rightarrow> Uuid set \<Rightarrow> writer \<Rightarrow> 'l \<Rightarrow> 'l history \<Rightarrow> bool" where
  "explains K E l used w lk hist \<longleftrightarrow>
     sync_steps K E (init_history l) hist \<and> h_writer hist = w \<and> h_lake hist = lk \<and> tx_keys hist \<subseteq> used"

lemma explains_inv: "explains K E l used w lk hist \<Longrightarrow> run_inv K hist"
  unfolding explains_def by (elim conjE) (rule run_inv_steps [OF _ run_inv_init])

lemma explains_enqueue:
  assumes ex: "explains K E l used w lk hist" and fresh: "fresh \<notin> used"
    and run: "enqueue_sync K clk fresh ls seq origin schema batches w = (r, w')"
  shows "explains K E l (insert fresh used) w' lk (after_enqueue hist w')"
proof -
  have w: "h_writer hist = w" "h_lake hist = lk" "tx_keys hist \<subseteq> used" using ex by (simp_all add: explains_def)
  then have "imap_get (h_done hist) fresh = None" "imap_get (w_txs (h_writer hist)) fresh = None"
    using fresh by (auto simp: tx_keys_def map_of_eq_None_iff)
  from sync_step.enqueue [OF run [folded w(1)] this]
  have "sync_steps K E (init_history l) (after_enqueue hist w')" using ex by (auto simp: explains_def intro: more_steps)
  moreover have "tx_keys (after_enqueue hist w') \<subseteq> insert fresh used"
  proof -
    have "set (map fst (w_txs w')) \<subseteq> insert fresh (set (map fst (w_txs w)))"
      using enqueue_sync_keys [OF run] by (auto simp del: set_map)
    moreover have "tx_keys (after_enqueue hist w') = set (map fst (h_done hist)) \<union> set (map fst (w_txs w'))"
      by (simp add: tx_keys_def after_enqueue_def)
    moreover have "set (map fst (h_done hist)) \<union> set (map fst (w_txs w)) \<subseteq> used"
      using w by (simp add: tx_keys_def)
    ultimately show ?thesis by blast
  qed
  ultimately show ?thesis using w by (simp add: explains_def after_enqueue_def)
qed

lemma explains_flush_syncs:
  assumes ex: "explains K E l used w lk hist" and run: "flush_syncs E clk url (w, lk) = (r, (w', lk'))"
  shows "explains K E l used w' lk' (after_flush hist url r w' lk')"
proof -
  have w: "h_writer hist = w" "h_lake hist = lk" "tx_keys hist \<subseteq> used" using ex by (simp_all add: explains_def)
  from sync_step.flush_url [OF run [folded w(1,2)]]
  have "sync_steps K E (init_history l) (after_flush hist url r w' lk')" using ex by (auto simp: explains_def intro: more_steps)
  moreover have "set (map fst (w_txs w')) \<subseteq> set (map fst (w_txs w))"
  proof -
    have "writer_inv K w" using explains_inv [OF ex] w by (simp add: run_inv_def)
    from flush_effect(1) [OF this run] show ?thesis by (metis Un_upper2 set_append)
  qed
  moreover have "tx_keys (after_flush hist url r w' lk') \<subseteq> tx_keys hist"
  proof -
    have "fst ` set (filter (\<lambda>(i, _). i \<notin> fst ` set (w_txs w')) (w_txs w)) \<subseteq> fst ` set (w_txs w)" by auto
    with \<open>set (map fst (w_txs w')) \<subseteq> set (map fst (w_txs w))\<close> show ?thesis
      unfolding set_map tx_keys_def using w by (simp add: after_flush_def image_Un) blast
  qed
  ultimately show ?thesis using w(3) by (auto simp: explains_def after_flush_def)
qed

lemma explains_flush_loop:
  assumes "explains K E l used w lk hist" and "flush_loop E conf clk n (w, lk) = (r, (w', lk'))"
  shows "\<exists>hist'. explains K E l used w' lk' hist'"
  using assms
proof (induction E conf clk n "(w, lk)" arbitrary: w lk hist rule: flush_loop.induct)
  case (1 E conf clk n w lk)
  note step = "1.prems"(2) [unfolded flush_loop.simps [of E conf clk n w lk]]
  show ?case
  proof (cases "\<exists>url. flush_ready conf (clk n) w = Inr (Some url)")
    case False
    with step have "w' = w" "lk' = lk" by (auto split: sum.splits option.splits)
    with "1.prems"(1) show ?thesis by blast
  next
    case True
    then obtain url where url: "flush_ready conf (clk n) w = Inr (Some url)" by blast
    obtain r1 w1 l1 where run: "flush_syncs E (clk n) url (w, lk) = (r1, (w1, l1))" by (metis prod_cases3)
    note ex = explains_flush_syncs [OF "1.prems"(1) run]
    show ?thesis
    proof (cases r1)
      case (Inl e)
      with step url run ex show ?thesis by auto
    next
      case (Inr u)
      with step url run have "flush_loop E conf clk (Suc n) (w1, l1) = (r, (w', lk'))" by simp
      with "1.hyps" [OF url refl run [symmetric] Inr] ex show ?thesis by blast
    qed
  qed
qed

lemma explains_flush:
  assumes "explains K E l used w lk hist" and "flush E conf clk (w, lk) = (r, (w', lk'))"
  shows "\<exists>hist'. explains K E l used w' lk' hist'"
proof -
  obtain r1 w1 where loop: "flush_loop E conf clk 0 (w, lk) = (r1, (w1, lk'))"
    and w': "w' = w1 \<or> w' = log_metrics [InMemoryOldest (oldest_insertion w1)] w1"
    using assms(2) by (cases "flush_loop E conf clk 0 (w, lk)")
      (auto simp: flush_def bind_st_def on_fst_def modify_st_def split: prod.splits sum.splits)
  from explains_flush_loop [OF assms(1) loop] obtain hist1 where ex: "explains K E l used w1 lk' hist1" by blast
  from w' show ?thesis
  proof
    assume "w' = log_metrics [InMemoryOldest (oldest_insertion w1)] w1"
    then have "explains K E l used w' lk' (hist1\<lparr>h_writer := w'\<rparr>)"
      using ex sync_step.log [of K E hist1 "[InMemoryOldest (oldest_insertion w1)]"]
      by (auto simp: explains_def tx_keys_def log_metrics_def intro: more_steps)
    then show ?thesis by blast
  qed (use ex in blast)
qed

lemma explains_mono: "explains K E l used w lk hist \<Longrightarrow> used \<subseteq> used' \<Longrightarrow> explains K E l used' w lk hist"
  by (auto simp: explains_def)

lemma explains_put:
  assumes ex: "explains K E l used (fh_writer h) (fh_lake h) hist" and fresh: "ct_fresh t \<notin> used"
    and run: "process_sync_cmd K E conf S t cmd schema batches h = (r, h')"
  shows "\<exists>hist'. explains K E l (insert (ct_fresh t) used) (fh_writer h') (fh_lake h') hist'"
proof (cases "fh_writer h' = fh_writer h \<and> fh_lake h' = fh_lake h")
  case True
  then show ?thesis by (intro exI [of _ hist]) (simp add: explains_mono [OF ex subset_insertI])
next
  case False
  then obtain ls r1 w1 where enq: "enqueue_sync K (ct_clock t) (ct_fresh t) ls (dc_sequence_number cmd) (dc_origin cmd) schema batches
      (fh_writer h) = (r1, w1)"
    and rest: "(\<exists>e. r1 = Inl e) \<and> fh_writer h' = w1 \<and> fh_lake h' = fh_lake h \<or>
      (\<exists>r2. flush E conf (ct_flush_clock t) (w1, fh_lake h) = (r2, (fh_writer h', fh_lake h')))"
    using run by (auto simp: process_sync_cmd_def Let_def split: if_splits sum.splits prod.splits)
  note ex1 = explains_enqueue [OF ex fresh enq]
  from rest show ?thesis using ex1 explains_flush [OF ex1] by auto
qed

lemma service_explained:
  "service_run K E conf S l used h \<Longrightarrow> \<exists>hist. explains K E l used (fh_writer h) (fh_lake h) hist"
proof (induction rule: service_run.induct)
  case start
  have "explains K E l {} new_writer l (init_history l)"
    by (simp add: explains_def init_history_def tx_keys_def new_writer_def no_step)
  then show ?case by (auto simp: new_handler_def)
next
  case (put used h t message stream r h')
  then obtain hist where ex: "explains K E l used (fh_writer h) (fh_lake h) hist" by blast
  show ?case
  proof (cases "\<exists>cmd schema batches r'. process_sync_cmd K E conf S t cmd schema batches h = (r', h')")
    case True
    then show ?thesis using explains_put [OF ex put.hyps(2)] by blast
  next
    case False
    have "h' = h"
    proof (rule ccontr)
      assume "h' \<noteq> h"
      with put.hyps(3) False show False
        by (auto simp: do_put_fallback_def bind_st_def lift_res_def split: sum.splits prod.splits)
    qed
    then show ?thesis by (intro exI [of _ hist]) (simp add: explains_mono [OF ex subset_insertI])
  qed
next
  case (turn used h t)
  then obtain hist where ex: "explains K E l used (fh_writer h) (fh_lake h) hist" by blast
  obtain r w lk where "flush E conf (ct_flush_clock t) (fh_writer h, fh_lake h) = (r, (w, lk))" by (metis prod_cases3)
  with explains_flush [OF ex this] ex show ?case by (auto simp: flush_task_turn_def)
qed simp

subsection \<open>What the answers mean\<close>

lemma flush_syncs_memory: "flush_syncs E clk url (w, l) = (r, (w', l')) \<Longrightarrow> w_origin_memory w' = w_origin_memory w"
  by (erule flush_syncs_cases)
    (auto simp: log_metrics_def remove_sync_def finish_flush_def advance_durable_def remove_tx_locations_def Let_def
      split: prod.splits option.splits)

lemma flush_loop_memory:
  "flush_loop E conf clk n (w, l) = (r, (w', l')) \<Longrightarrow> w_origin_memory w' = w_origin_memory w"
proof (induction E conf clk n "(w, l)" arbitrary: w l rule: flush_loop.induct)
  case (1 E conf clk n w l)
  note step = "1.prems" [unfolded flush_loop.simps [of E conf clk n w l]]
  show ?case
  proof (cases "\<exists>url. flush_ready conf (clk n) w = Inr (Some url)")
    case False
    with step show ?thesis by (auto split: sum.splits option.splits)
  next
    case True
    then obtain url where url: "flush_ready conf (clk n) w = Inr (Some url)" by blast
    obtain r1 w1 l1 where run: "flush_syncs E (clk n) url (w, l) = (r1, (w1, l1))" by (metis prod_cases3)
    note same = flush_syncs_memory [OF run]
    show ?thesis
    proof (cases r1)
      case (Inl e)
      with step url run same show ?thesis by auto
    next
      case (Inr u)
      with step url run have "flush_loop E conf clk (Suc n) (w1, l1) = (r, (w', l'))" by simp
      with "1.hyps" [OF url refl run [symmetric] Inr] same show ?thesis by simp
    qed
  qed
qed

lemma flush_memory: "flush E conf clk (w, l) = (r, (w', l')) \<Longrightarrow> w_origin_memory w' = w_origin_memory w"
  using flush_loop_memory [of E conf clk 0 w l]
  by (auto simp: flush_def bind_st_def on_fst_def modify_st_def log_metrics_def split: prod.splits sum.splits)

lemma enqueue_memory:
  "enqueue_sync K clk fresh ls (Some q) origin schema batches w = (Inr u, w') \<Longrightarrow> imap_get (w_origin_memory w') origin = Some q"
  by (auto simp: enqueue_sync_def Let_def bind_st_eq_Inr log_metrics_def imap_simps)

text \<open>The calls that reach the writer.\<close>

lemma process_sync_cmd_Inr:
  assumes "process_sync_cmd K E conf S t cmd schema batches h = (Inr resp, h')"
  shows "dr_first resp = fh_first_sync h \<and> \<not> fh_first_sync h' \<and> fh_results h' = fh_results h \<and>
    (if dr_accepted resp
     then resp = sync_response (fh_writer h') (dc_origin cmd) (fh_first_sync h) \<and>
       (\<forall>q. dc_sequence_number cmd = Some q \<longrightarrow> dr_memory_sequence_number resp = Some q)
     else fh_writer h' = fh_writer h \<and> fh_lake h' = fh_lake h \<and> \<not> ct_lock t \<and>
       dr_memory_sequence_number resp = None \<and> dr_durable_sequence_number resp = None)"
proof -
  have mem: "imap_get (w_origin_memory w') (dc_origin cmd) = Some q"
    if "enqueue_sync K (ct_clock t) (ct_fresh t) ls (Some q) (dc_origin cmd) schema batches (fh_writer h) = (Inr u, w1)"
      "flush E conf (ct_flush_clock t) (w1, lk) = (r, (w', l'))" for ls q u w1 lk r w' l'
    using enqueue_memory [OF that(1)] flush_memory [OF that(2)] by simp
  show ?thesis
    using assms mem
    by (auto simp: process_sync_cmd_def Let_def sync_response_def stored_sequences_def split: if_splits sum.splits prod.splits)
qed

lemma do_put_Inr:
  assumes "do_put_fallback K E conf S t (Inr cmd) stream h = (Inr resp, h')"
  obtains schema batches where "stream = Inr batches" and "num_rows batches \<le> SEAFOWL_SYNC_CALL_MAX_ROWS"
    and "process_sync_cmd K E conf S t cmd schema batches h = (Inr resp, h')"
  using assms
  by (auto simp: do_put_fallback_def bind_st_def num_rows_def map_err_eq_Inr split: sum.splits prod.splits if_splits)


text \<open>
  C39: the answer to a request with changes. An answer that accepts the changes has the sequence numbers of the writer after
  the call, and in memory at least the number of the request; an answer that does not accept them left writer and
  lake as they were, and only a lock that was not free is a reason for it. The flag \<open>first\<close> is set in the first answer after
  the start and never again. No request with more rows than the limit is answered.
\<close>
theorem put_answers:
  assumes "do_put_fallback K E conf S t (Inr cmd) stream h = (Inr resp, h')"
  shows "(if dr_accepted resp
     then (dr_memory_sequence_number resp, dr_durable_sequence_number resp) = stored_sequences (fh_writer h') (dc_origin cmd) \<and>
       (\<forall>q. dc_sequence_number cmd = Some q \<longrightarrow> dr_memory_sequence_number resp = Some q)
     else fh_writer h' = fh_writer h \<and> fh_lake h' = fh_lake h \<and> \<not> ct_lock t \<and>
       dr_memory_sequence_number resp = None \<and> dr_durable_sequence_number resp = None) \<and>
    dr_first resp = fh_first_sync h \<and> \<not> fh_first_sync h' \<and> fh_results h' = fh_results h \<and>
    (\<exists>batches. stream = Inr batches \<and> num_rows batches \<le> SEAFOWL_SYNC_CALL_MAX_ROWS)"
proof -
  obtain schema batches where s: "stream = Inr batches" "num_rows batches \<le> SEAFOWL_SYNC_CALL_MAX_ROWS"
    and p: "process_sync_cmd K E conf S t cmd schema batches h = (Inr resp, h')"
    by (rule do_put_Inr [OF assms])
  from process_sync_cmd_Inr [OF p] s show ?thesis by (auto simp: sync_response_def split: if_splits prod.splits)
qed

text \<open>
  An error does not mean that the changes were refused. When they are queued and the flush that follows fails,
  the request is answered with the error of the flush, while a probing request then reports its sequence number
  as in memory.
\<close>
theorem failed_flush_hides_acceptance:
  assumes "ct_lock t" and "sync_log_store S cmd = Inr ls" and "dc_sequence_number cmd = Some q"
    and enq: "enqueue_sync K (ct_clock t) (ct_fresh t) ls (Some q) (dc_origin cmd) schema batches (fh_writer h) = (Inr (), w)"
    and flush: "flush E conf (ct_flush_clock t) (w, fh_lake h) = (Inl e, (w', l'))"
    and run: "process_sync_cmd K E conf S t cmd schema batches h = (r, h')"
  shows "r = Inl e \<and> fst (process_sync_cmd K E conf S t' (cmd\<lparr>dc_sequence_number := None\<rparr>) empty_schema [] h') =
    Inr \<lparr>dr_accepted = True, dr_memory_sequence_number = Some q,
      dr_durable_sequence_number = imap_get (w_origin_durable w') (dc_origin cmd), dr_first = False\<rparr>"
proof -
  have "imap_get (w_origin_memory w') (dc_origin cmd) = Some q"
    using enqueue_memory [OF enq] flush_memory [OF flush] by simp
  moreover have "r = Inl e \<and> h' = h\<lparr>fh_first_sync := False, fh_writer := w', fh_lake := l'\<rparr>"
    using run assms(1-3) enq flush by (auto simp: process_sync_cmd_def Let_def)
  ultimately show ?thesis
    by (simp add: process_sync_cmd_def Let_def num_rows_def sync_response_def stored_sequences_def)
qed


subsection \<open>Results are fetched once\<close>

text \<open>
  C40: the results of a query are delivered exactly once. After a query was answered with a ticket, fetching the ticket
  returns the stream of that query, run in the context of its search path and metastore; fetching it again finds
  nothing, and the results of other queries are as they were before.
\<close>
theorem results_fetched_once:
  assumes "query_to_stream Q cx query query_id search_path memory_store (h, w) = (Inr info, (h', w'))"
  shows "\<exists>ctx plan w1 stream h''.
    (case search_path of None \<Rightarrow> ctx = (case memory_store of None \<Rightarrow> cx | Some m \<Rightarrow> qe_with_metastore Q m cx)
      | Some header \<Rightarrow> \<exists>s. header = Inr s \<and>
          ctx = (case memory_store of None \<Rightarrow> qe_scope_to_schema Q s cx | Some m \<Rightarrow> qe_with_metastore Q m (qe_scope_to_schema Q s cx))) \<and>
    qe_plan_query Q ctx query w = (Inr plan, w1) \<and> qe_execute_stream Q ctx plan w1 = (Inr stream, w') \<and>
    do_get_statement (fi_ticket info) h' = (Inr stream, h'') \<and>
    do_get_statement (fi_ticket info) h'' = (Inl (StatusNotFound (''No results found for query id '' @ query_id)), h'') \<and>
    (\<forall>other. other \<noteq> query_id \<longrightarrow> imap_get (fh_results h'') other = imap_get (fh_results h) other) \<and>
    h'' = h\<lparr>fh_results := fh_results h''\<rparr>"
proof -
  obtain ctx plan w1 stream where ctx: "case search_path of None \<Rightarrow> ctx = (case memory_store of None \<Rightarrow> cx | Some m \<Rightarrow> qe_with_metastore Q m cx)
      | Some header \<Rightarrow> \<exists>s. header = Inr s \<and>
          ctx = (case memory_store of None \<Rightarrow> qe_scope_to_schema Q s cx | Some m \<Rightarrow> qe_with_metastore Q m (qe_scope_to_schema Q s cx))"
    and run: "qe_plan_query Q ctx query w = (Inr plan, w1)" "qe_execute_stream Q ctx plan w1 = (Inr stream, w')"
    and h': "h' = h\<lparr>fh_results := imap_insert query_id stream (fh_results h)\<rparr>" and info: "fi_ticket info = query_id"
    using assms
    by (cases search_path)
      (auto simp: query_to_stream_def Let_def bind_st_eq_Inr bind_res_eq_Inr map_err_eq_Inr on_snd_eq on_fst_eq)
  let ?h = "h'\<lparr>fh_results := imap_shift_remove query_id (fh_results h')\<rparr>"
  have "do_get_statement (fi_ticket info) h' = (Inr stream, ?h)"
    by (simp add: do_get_statement_def fetch_stream_def info h' imap_simps)
  moreover have "do_get_statement (fi_ticket info) ?h = (Inl (StatusNotFound (''No results found for query id '' @ query_id)), ?h)"
    by (simp add: do_get_statement_def fetch_stream_def info h' imap_simps)
  moreover have "\<forall>other. other \<noteq> query_id \<longrightarrow> imap_get (fh_results ?h) other = imap_get (fh_results h) other"
    by (simp add: h' imap_simps)
  moreover have "?h = h\<lparr>fh_results := fh_results ?h\<rparr>" by (simp add: h')
  ultimately show ?thesis using ctx run by blast
qed

text \<open>
  A service over tables in memory that flushes after every change, and a query engine whose streams are the texts of the
  queries.
\<close>

definition eager_conf :: DataSyncConfig where
  "eager_conf = \<lparr>max_in_memory_bytes = 1000000, max_replication_lag_s = 1000000, max_syncs_per_url = 1\<rparr>"

definition demo_call :: "Uuid \<Rightarrow> call" where
  "demo_call n = \<lparr>ct_lock = True, ct_clock = script_clock, ct_flush_clock = (\<lambda>_. script_clock), ct_fresh = n\<rparr>"

definition demo_stores :: "unit sync_stores" where
  "demo_stores = \<lparr>ss_internal = Some (\<lambda>path. \<lparr>root_uri = path\<rparr>), ss_parse = (\<lambda>_. Inl ''no url''), ss_for_table = (\<lambda>_ _ _. Inl ''no store'')\<rparr>"

definition demo_command :: DataSyncCommand where
  "demo_command = \<lparr>dc_path = ''table_1'', dc_store = None, dc_column_descriptors = test_descs, dc_origin = ''A'',
     dc_sequence_number = Some 7\<rparr>"

definition demo_response :: DataSyncResponse where
  "demo_response = \<lparr>dr_accepted = True, dr_memory_sequence_number = Some 7, dr_durable_sequence_number = Some 7, dr_first = True\<rparr>"

lemma demo_put_runs:
  "fst (do_put_fallback list_kernels mem_lake eager_conf demo_stores (demo_call 0) (Inr demo_command) (Inr (insert_one 1))
     (new_handler [] :: (mem_state, string) handler)) = Inr demo_response"
  by code_simp

lemma demo_put_state:
  obtains h where "do_put_fallback list_kernels mem_lake eager_conf demo_stores (demo_call 0) (Inr demo_command) (Inr (insert_one 1))
     (new_handler [] :: (mem_state, string) handler) = (Inr demo_response, h)"
  using demo_put_runs by (metis prod.collapse)


lemma put_answers_witness:
  "\<exists>h :: (mem_state, string) handler. stored_sequences (fh_writer h) ''A'' = (Some 7, Some 7) \<and> \<not> fh_first_sync h"
proof -
  obtain h where h: "do_put_fallback list_kernels mem_lake eager_conf demo_stores (demo_call 0) (Inr demo_command) (Inr (insert_one 1))
     (new_handler [] :: (mem_state, string) handler) = (Inr demo_response, h)"
    by (rule demo_put_state)
  from put_answers [OF h] show ?thesis by (intro exI [of _ h]) (simp add: demo_response_def demo_command_def)
qed

definition demo_engine :: "(unit, unit, string, unit, string) query_engine" where
  "demo_engine = \<lparr>qe_scope_to_schema = (\<lambda>_ cx. cx), qe_with_metastore = (\<lambda>_ cx. cx), qe_plan_query = (\<lambda>_ q w. (Inr q, w)),
     qe_execute_stream = (\<lambda>_ p w. (Inr p, w)), qe_try_with_schema = (\<lambda>_. Inr ())\<rparr>"

lemma results_fetched_once_witness:
  "\<exists>h' h'' :: (mem_state, string) handler. do_get_statement ''id'' h' = (Inr ''SELECT 1'', h'') \<and> \<not> is_ok (fst (do_get_statement ''id'' h''))"
proof -
  have "query_to_stream demo_engine () ''SELECT 1'' ''id'' None None (new_handler [] :: (mem_state, string) handler, ()) =
      (Inr \<lparr>fi_ticket = ''id''\<rparr>, (new_handler [])\<lparr>fh_results := [(''id'', ''SELECT 1'')]\<rparr>, ())"
    by (simp add: query_to_stream_def demo_engine_def bind_st_def on_snd_def on_fst_def new_handler_def imap_insert_def imap_upsert_def)
  from results_fetched_once [OF this] show ?thesis by (auto simp: demo_engine_def) (metis is_ok.simps(1) fst_conv)
qed

end
