(* ===== verification/Auth.thy ===== *)
theory Auth
  imports Prelude
begin

text \<open>
  Access control of the HTTP frontend: access settings (\<open>src/config/schema.rs\<close>), policies, principals and
  decisions (\<open>src/auth.rs\<close>), the API errors with their status codes
  (\<open>src/frontend/http_utils.rs\<close>) and the extraction of the principal from the authorization header
  (\<open>src/frontend/http.rs\<close>). The hash function is a parameter \<open>H\<close>.
\<close>

subsection \<open>Settings and errors\<close>

datatype AccessSettings = Any | Off | Password string

definition parse_access :: "string \<Rightarrow> AccessSettings" where
  "parse_access s = (if s = ''any'' then Any else if s = ''off'' then Off else Password s)"

definition show_access :: "AccessSettings \<Rightarrow> string" where
  "show_access a = (case a of Any \<Rightarrow> ''any'' | Off \<Rightarrow> ''off'' | Password _ \<Rightarrow> ''password'')"

record HttpFrontend =
  bind_host :: string
  bind_port :: "16 word"
  read_access :: AccessSettings
  write_access :: AccessSettings
  upload_data_max_length :: u64
  cache_control :: string

definition default_http_frontend :: HttpFrontend where
  "default_http_frontend = \<lparr>bind_host = ''127.0.0.1'', bind_port = 8080, read_access = Any,
     write_access = Off, upload_data_max_length = 256, cache_control = ''max-age=43200, public''\<rparr>"

text \<open>Errors that wrap a foreign error carry its text.\<close>

datatype ApiError =
    DataFusionError string
  | IoError string
  | HashMismatch string string
  | NotReadOnlyQuery
  | ReadOnlyEndpointDisabled
  | ReadForbidden
  | WriteForbidden
  | NeedAccessToken
  | UselessAccessToken
  | WrongAccessToken
  | InvalidAuthorizationHeader
  | InvalidMultiStatement
  | EmptyMultiStatement
  | UploadMissingFile
  | UploadMissingFilename
  | UploadMissingFilenameExtension string
  | UploadSchemaDeserializationError string
  | UploadSchemaParseError string
  | UploadFileLoadError string
  | UploadBodyLoadError string
  | UploadHasHeaderParseError
  | UploadUnsupportedFileFormat string
  | QueryDecodeError
  | QueryParsingError string

definition status_code :: "ApiError \<Rightarrow> nat" where
  "status_code e = (case e of
      IoError _ \<Rightarrow> 500
    | NotReadOnlyQuery \<Rightarrow> 405
    | ReadOnlyEndpointDisabled \<Rightarrow> 405
    | ReadForbidden \<Rightarrow> 403
    | WriteForbidden \<Rightarrow> 403
    | NeedAccessToken \<Rightarrow> 401
    | WrongAccessToken \<Rightarrow> 401
    | InvalidAuthorizationHeader \<Rightarrow> 401
    | _ \<Rightarrow> 400)"


subsection \<open>Policies and decisions\<close>

datatype Principal = Anonymous | Writer | Reader

datatype Action = Read | Write

record AccessPolicy =
  p_read :: AccessSettings
  p_write :: AccessSettings

definition from_config :: "HttpFrontend \<Rightarrow> AccessPolicy" where
  "from_config config = \<lparr>p_read = read_access config, p_write = write_access config\<rparr>"

definition free_for_all :: AccessPolicy where
  "free_for_all = \<lparr>p_read = Any, p_write = Any\<rparr>"

definition with_read_disabled :: "AccessPolicy \<Rightarrow> AccessPolicy" where
  "with_read_disabled p = \<lparr>p_read = Off, p_write = p_write p\<rparr>"

definition with_read_password :: "(string \<Rightarrow> string) \<Rightarrow> string \<Rightarrow> AccessPolicy \<Rightarrow> AccessPolicy" where
  "with_read_password H pw p = \<lparr>p_read = Password (H pw), p_write = p_write p\<rparr>"

definition with_write_disabled :: "AccessPolicy \<Rightarrow> AccessPolicy" where
  "with_write_disabled p = \<lparr>p_read = p_read p, p_write = Off\<rparr>"

definition with_write_password :: "(string \<Rightarrow> string) \<Rightarrow> string \<Rightarrow> AccessPolicy \<Rightarrow> AccessPolicy" where
  "with_write_password H pw p = \<lparr>p_read = p_read p, p_write = Password (H pw)\<rparr>"

definition token_to_principal ::
    "(string \<Rightarrow> string) \<Rightarrow> string option \<Rightarrow> AccessPolicy \<Rightarrow> (ApiError, Principal) result" where
  "token_to_principal H token policy =
     (case (token, p_write policy, p_read policy) of
        (None, Off, Off) \<Rightarrow> Inl NeedAccessToken
      | (None, Off, Password _) \<Rightarrow> Inl NeedAccessToken
      | (None, Password _, Off) \<Rightarrow> Inl NeedAccessToken
      | (None, Password _, Password _) \<Rightarrow> Inl NeedAccessToken
      | (None, _, _) \<Rightarrow> Inr Anonymous
      | (Some _, Any, Any) \<Rightarrow> Inl UselessAccessToken
      | (Some _, Any, Off) \<Rightarrow> Inl UselessAccessToken
      | (Some _, Off, Any) \<Rightarrow> Inl UselessAccessToken
      | (Some _, Off, Off) \<Rightarrow> Inl UselessAccessToken
      | (Some t, Password w, Password r) \<Rightarrow>
          if H t = w then Inr Writer else if H t = r then Inr Reader else Inl WrongAccessToken
      | (Some t, Password w, _) \<Rightarrow> if H t = w then Inr Writer else Inl WrongAccessToken
      | (Some t, _, Password r) \<Rightarrow> if H t = r then Inr Reader else Inl WrongAccessToken)"

definition can_perform_action :: "Principal \<Rightarrow> Action \<Rightarrow> AccessPolicy \<Rightarrow> bool" where
  "can_perform_action pr action policy =
     (case (pr, action, p_read policy, p_write policy) of
        (Writer, _, _, _) \<Rightarrow> True
      | (Reader, Read, _, _) \<Rightarrow> True
      | (_, Read, Any, _) \<Rightarrow> True
      | (_, Write, _, Any) \<Rightarrow> True
      | _ \<Rightarrow> False)"

record UserContext =
  u_principal :: Principal
  u_policy :: AccessPolicy

definition user_can :: "UserContext \<Rightarrow> Action \<Rightarrow> bool" where
  "user_can u action = can_perform_action (u_principal u) action (u_policy u)"


subsection \<open>The authorization header\<close>

definition BEARER_PREFIX :: string where
  "BEARER_PREFIX = ''Bearer ''"

definition has_prefix :: "string \<Rightarrow> string \<Rightarrow> bool" where
  "has_prefix p s \<longleftrightarrow> take (length p) s = p"

text \<open>\<open>trim_start_matches\<close> removes the pattern as often as it is there.\<close>

function trim_start_matches :: "string \<Rightarrow> string \<Rightarrow> string" where
  "trim_start_matches p s =
     (if p \<noteq> [] \<and> has_prefix p s then trim_start_matches p (drop (length p) s) else s)"
  by pat_completeness auto

termination trim_start_matches
proof (relation "measure (\<lambda>(p, s). length s)", goal_cases)
  case (2 p s)
  then have "length p \<le> length s" by (metis has_prefix_def length_take min.cobounded1)
  with 2 show ?case by (cases p) (auto simp: has_prefix_def)
qed simp

declare trim_start_matches.simps [simp del]

definition header_to_user_context ::
    "(string \<Rightarrow> string) \<Rightarrow> string option \<Rightarrow> AccessPolicy \<Rightarrow> (ApiError, UserContext) result" where
  "header_to_user_context H header policy =
     bind_res (case header of
                 None \<Rightarrow> Inr None
               | Some h \<Rightarrow> if has_prefix BEARER_PREFIX h
                           then Inr (Some (trim_start_matches BEARER_PREFIX h))
                           else Inl InvalidAuthorizationHeader) (\<lambda>token.
     bind_res (token_to_principal H token policy) (\<lambda>pr.
     Inr \<lparr>u_principal = pr, u_policy = policy\<rparr>))"

text \<open>The filter in front of the cached GET endpoint.\<close>

definition cached_read_query_authz ::
    "(string \<Rightarrow> string) \<Rightarrow> AccessPolicy \<Rightarrow> string option \<Rightarrow> (ApiError, unit) result" where
  "cached_read_query_authz H policy header =
     bind_res (header_to_user_context H header policy) (\<lambda>user.
       if p_read policy = Off then Inl ReadOnlyEndpointDisabled
       else if user_can user Read then Inr ()
       else Inl ReadForbidden)"


subsection \<open>What the decisions amount to\<close>

text \<open>A request is granted an action if its header gives a user that may perform it.\<close>

definition granted :: "(string \<Rightarrow> string) \<Rightarrow> AccessPolicy \<Rightarrow> string option \<Rightarrow> Action \<Rightarrow> bool" where
  "granted H policy header action =
     (case header_to_user_context H header policy of Inl _ \<Rightarrow> False | Inr u \<Rightarrow> user_can u action)"

text \<open>The token that a header carries, and whether it is a password of a setting.\<close>

definition opens :: "(string \<Rightarrow> string) \<Rightarrow> string \<Rightarrow> AccessSettings \<Rightarrow> bool" where
  "opens H t a = (case a of Password h \<Rightarrow> H t = h | _ \<Rightarrow> False)"

lemmas auth_defs = token_to_principal_def can_perform_action_def user_can_def opens_def

lemma token_writer: "token_to_principal H (Some t) p = Inr Writer \<longleftrightarrow> opens H t (p_write p)"
  by (auto simp: auth_defs split: AccessSettings.splits)

lemma token_reader:
  "token_to_principal H (Some t) p = Inr Reader \<longleftrightarrow> opens H t (p_read p) \<and> \<not> opens H t (p_write p)"
  by (auto simp: auth_defs split: AccessSettings.splits)

lemma token_not_anonymous: "token_to_principal H (Some t) p \<noteq> Inr Anonymous"
  by (auto simp: auth_defs split: AccessSettings.splits)

lemma no_token: "token_to_principal H None p = (if p_write p = Any \<or> p_read p = Any then Inr Anonymous else Inl NeedAccessToken)"
  by (auto simp: auth_defs split: AccessSettings.splits)

lemma can_perform_simps:
  "can_perform_action Writer a p" "can_perform_action Reader Read p"
  "can_perform_action Reader Write p \<longleftrightarrow> p_write p = Any"
  "can_perform_action Anonymous Read p \<longleftrightarrow> p_read p = Any"
  "can_perform_action Anonymous Write p \<longleftrightarrow> p_write p = Any"
  by (auto simp: can_perform_action_def split: AccessSettings.splits Action.splits)

lemma token_granted:
  "(case token_to_principal H (Some t) p of Inl _ \<Rightarrow> False | Inr pr \<Rightarrow> can_perform_action pr a p) \<longleftrightarrow>
     opens H t (p_write p) \<or> opens H t (p_read p) \<and> (a = Read \<or> p_write p = Any)"
proof (cases "token_to_principal H (Some t) p")
  case (Inl e)
  then show ?thesis using token_writer [of H t p] token_reader [of H t p] by auto
next
  case (Inr pr)
  then show ?thesis
    using token_writer [of H t p] token_reader [of H t p] token_not_anonymous [of H t p]
    by (cases pr; cases a) (auto simp: can_perform_simps opens_def split: AccessSettings.splits)
qed

text \<open>
  C15: who may do what. A request without a header may perform an action exactly if the action is open to
  anyone. A request with a header must carry a bearer token; it may write exactly if the token is the write
  password, or the read password while writing is open to anyone; it may read exactly if
  the token is the write or the read password. In particular a wrong token never grants anything,
  not even what is open to anonymous requests.
\<close>

theorem granted_iff:
  "granted H policy header action \<longleftrightarrow>
     (case header of
        None \<Rightarrow> (if action = Read then p_read policy = Any else p_write policy = Any)
      | Some h \<Rightarrow> has_prefix BEARER_PREFIX h \<and>
          (let t = trim_start_matches BEARER_PREFIX h in
             opens H t (p_write policy) \<or>
             opens H t (p_read policy) \<and> (action = Read \<or> p_write policy = Any)))"
proof (cases header)
  case None
  then show ?thesis
    by (cases action) (auto simp: granted_def header_to_user_context_def no_token user_can_def can_perform_simps)
next
  case (Some h)
  show ?thesis
  proof (cases "has_prefix BEARER_PREFIX h")
    case False
    with Some show ?thesis by (simp add: granted_def header_to_user_context_def)
  next
    case True
    let ?t = "trim_start_matches BEARER_PREFIX h"
    have "granted H policy header action \<longleftrightarrow>
        (case token_to_principal H (Some ?t) policy of Inl _ \<Rightarrow> False | Inr pr \<Rightarrow> can_perform_action pr action policy)"
      using Some True
      by (cases "token_to_principal H (Some ?t) policy")
        (simp_all add: granted_def header_to_user_context_def user_can_def)
    with token_granted [where H = H and t = ?t and p = policy and a = action] Some True show ?thesis by (simp add: Let_def)
  qed
qed

text \<open>
  The header format strips too much. The bearer prefix is removed as often as it occurs, so a password that
  itself starts with it can never be used: the header that carries it is read as the password without
  the prefix.
\<close>

theorem bearer_prefix_stripped_repeatedly:
  "header_to_user_context H (Some (BEARER_PREFIX @ BEARER_PREFIX @ t)) policy =
   header_to_user_context H (Some (BEARER_PREFIX @ t)) policy"
proof -
  have p: "has_prefix BEARER_PREFIX (BEARER_PREFIX @ s)" "drop (length BEARER_PREFIX) (BEARER_PREFIX @ s) = s"
    "BEARER_PREFIX \<noteq> []" for s
    by (simp_all add: has_prefix_def BEARER_PREFIX_def)
  have "trim_start_matches BEARER_PREFIX (BEARER_PREFIX @ s) = trim_start_matches BEARER_PREFIX s" for s
    by (subst trim_start_matches.simps) (simp add: p)
  then show ?thesis by (simp add: header_to_user_context_def p)
qed

end
