(* ===== verification/HttpFrontend.thy ===== *)
theory HttpFrontend
  imports Auth
begin

text \<open>
  The HTTP frontend (\<open>src/frontend/http.rs\<close>): the handlers of \<open>POST /q\<close>, \<open>GET /q\<close> and
  \<open>POST /upload\<close>, their routes and the health check, with the classification of statements and plans
  (\<open>src/context/logical.rs\<close>). Planning and execution by the Seafowl context and the hash and
  percent-encoding libraries are parameters.
\<close>

subsection \<open>Statements, plans and the context\<close>

text \<open>The kinds of SQL statements and logical plans that the code tells apart.\<close>

datatype sql_statement = Query string | Explain string | ShowTables string | OtherSql string

datatype df_statement = Statement sql_statement | OtherDf string

datatype logical_plan =
    Dml string | Ddl string | Analyze string | Extension string | Copy string
  | TableScan "(nat list \<times> nat list) option"
  | OtherPlan "logical_plan list"

definition is_read_only :: "logical_plan \<Rightarrow> bool" where
  "is_read_only plan = (case plan of
      Dml _ \<Rightarrow> False | Ddl _ \<Rightarrow> False | Analyze _ \<Rightarrow> False | Extension _ \<Rightarrow> False | Copy _ \<Rightarrow> False
    | _ \<Rightarrow> True)"

definition is_statement_read_only :: "df_statement \<Rightarrow> bool" where
  "is_statement_read_only s = (case s of
      Statement (Query _) \<Rightarrow> True
    | Statement (Explain _) \<Rightarrow> True
    | Statement (ShowTables _) \<Rightarrow> True
    | _ \<Rightarrow> False)"

text \<open>
  \<open>'s\<close> is the state behind the context (catalog and stores), \<open>'p\<close> a physical plan. Planning may change the
  state: DDL and DML run when the physical plan is made. Every method takes the catalog to
  which the context is scoped.
\<close>

record ('s, 'p) context_ops =
  cx_default_catalog :: string
  cx_parse_query :: "string \<Rightarrow> (ApiError, df_statement list) result"
  cx_logical :: "string \<Rightarrow> df_statement \<Rightarrow> ('s, ApiError, logical_plan) st"
  cx_physical :: "string \<Rightarrow> logical_plan \<Rightarrow> ('s, ApiError, 'p) st"
  cx_schema :: "'p \<Rightarrow> string"
  cx_execute :: "string \<Rightarrow> 'p \<Rightarrow> ('s, ApiError, nat list) st"
  cx_file_to_table :: "string \<Rightarrow> nat list \<Rightarrow> string \<Rightarrow> string option \<Rightarrow> bool \<Rightarrow> string \<Rightarrow> string \<Rightarrow> ('s, ApiError, int) st"
  cx_hash :: "string \<Rightarrow> string"
  cx_etag_hash :: "nat list \<Rightarrow> string"
  cx_percent_decode :: "string \<Rightarrow> string option"
  cx_content_type :: "string \<Rightarrow> string"

record response =
  rs_status :: nat
  rs_headers :: "(string \<times> string) list"
  rs_body :: "nat list"

definition QUERY_TIME_HEADER :: string where
  "QUERY_TIME_HEADER = ''X-Seafowl-Query-Time''"

definition scoped :: "('s, 'p) context_ops \<Rightarrow> string \<Rightarrow> string" where
  "scoped CX database_name =
     (if database_name \<noteq> cx_default_catalog CX then database_name else cx_default_catalog CX)"


subsection \<open>ETags\<close>

text \<open>The visitor collects the URI and the version bytes of every scanned Delta table, in preorder.\<close>

fun table_versions :: "logical_plan \<Rightarrow> nat list" where
  "table_versions (TableScan (Some (uri, version))) = uri @ version"
| "table_versions (OtherPlan ps) = concat (map table_versions ps)"
| "table_versions _ = []"

definition plan_to_etag :: "('s, 'p) context_ops \<Rightarrow> logical_plan \<Rightarrow> string" where
  "plan_to_etag CX plan = cx_etag_hash CX (table_versions plan)"


subsection \<open>POST /q\<close>

definition plan_to_response :: "('s, 'p) context_ops \<Rightarrow> string \<Rightarrow> 'p \<Rightarrow> ('s, ApiError, response) st" where
  "plan_to_response CX db plan =
     bind_st (cx_execute CX db plan) (\<lambda>body. return_st \<lparr>rs_status = 200, rs_headers = [], rs_body = body\<rparr>)"

definition add_header :: "string \<Rightarrow> string \<Rightarrow> response \<Rightarrow> response" where
  "add_header k v r = r\<lparr>rs_headers := rs_headers r @ [(k, v)]\<rparr>"

fun run_statements ::
    "('s, 'p) context_ops \<Rightarrow> string \<Rightarrow> df_statement list \<Rightarrow> 'p option \<Rightarrow> ('s, ApiError, 'p option) st" where
  "run_statements CX db [] out = return_st out"
| "run_statements CX db (stmt # stmts) out =
     bind_st (cx_logical CX db stmt) (\<lambda>logical.
     bind_st (cx_physical CX db logical) (\<lambda>plan.
     run_statements CX db stmts (Some plan)))"

definition uncached_read_write_query ::
    "('s, 'p) context_ops \<Rightarrow> string \<Rightarrow> string \<Rightarrow> UserContext \<Rightarrow> string \<Rightarrow> ('s, ApiError, response) st" where
  "uncached_read_write_query CX elapsed database_name user query =
     (let db = scoped CX database_name in
      bind_st (lift_res (cx_parse_query CX query)) (\<lambda>statements.
      if statements = [] then lift_res (Inl EmptyMultiStatement)
      else
        let reads = length (filter is_statement_read_only statements) in
        if \<not> user_can user (if reads = length statements then Read else Write)
        then lift_res (Inl WriteForbidden)
        else if reads > 1 \<or> (reads = 1 \<and> \<not> is_statement_read_only (last statements))
        then lift_res (Inl InvalidMultiStatement)
        else
          bind_st (run_statements CX db statements None) (\<lambda>out.
          case out of
            None \<Rightarrow> lift_res (Inl (IoError ''at least one statement in the list''))
          | Some plan \<Rightarrow>
              bind_st (plan_to_response CX db plan) (\<lambda>response.
              return_st (add_header QUERY_TIME_HEADER elapsed
                (if reads > 0 then add_header ''content-type'' (cx_content_type CX (cx_schema CX plan)) response
                 else response))))))"


subsection \<open>GET /q\<close>

text \<open>\<open>split('.').next()\<close>.\<close>

definition first_segment :: "string \<Rightarrow> string" where
  "first_segment s = takeWhile (\<lambda>c. c \<noteq> CHR ''.'') s"

definition decoded_query ::
    "('s, 'p) context_ops \<Rightarrow> string \<Rightarrow> string option \<Rightarrow> (ApiError, string) result" where
  "decoded_query CX query_or_hash maybe_raw_query =
     (let query_or_hash = first_segment query_or_hash in
      case maybe_raw_query of
        Some raw_query \<Rightarrow>
          bind_res (ok_or QueryDecodeError (cx_percent_decode CX raw_query)) (\<lambda>decoded.
            if query_or_hash \<noteq> cx_hash CX decoded
            then Inl (HashMismatch (cx_hash CX decoded) query_or_hash)
            else Inr decoded)
      | None \<Rightarrow> ok_or QueryDecodeError (cx_percent_decode CX query_or_hash))"

definition create_logical_plan :: "('s, 'p) context_ops \<Rightarrow> string \<Rightarrow> string \<Rightarrow> ('s, ApiError, logical_plan) st" where
  "create_logical_plan CX db sql =
     bind_st (lift_res (cx_parse_query CX sql)) (\<lambda>statements.
       case statements of
         [stmt] \<Rightarrow> cx_logical CX db stmt
       | _ \<Rightarrow> lift_res (Inl (DataFusionError ''The context currently only supports a single SQL statement'')))"

definition cached_read_query ::
    "('s, 'p) context_ops \<Rightarrow> string \<Rightarrow> string \<Rightarrow> string \<Rightarrow> string option \<Rightarrow> string option \<Rightarrow>
     ('s, ApiError, response) st" where
  "cached_read_query CX elapsed database_name query_or_hash maybe_raw_query if_none_match =
     bind_st (lift_res (decoded_query CX query_or_hash maybe_raw_query)) (\<lambda>decoded.
     let db = scoped CX database_name in
     bind_st (create_logical_plan CX db decoded) (\<lambda>plan.
     if \<not> is_read_only plan then lift_res (Inl NotReadOnlyQuery)
     else
       let etag = plan_to_etag CX plan in
       if if_none_match = Some etag
       then return_st \<lparr>rs_status = 304, rs_headers = [], rs_body = map of_char ''NOT_MODIFIED''\<rparr>
       else
         bind_st (cx_physical CX db plan) (\<lambda>physical.
         bind_st (plan_to_response CX db physical) (\<lambda>response.
         return_st (add_header ''content-type'' (cx_content_type CX (cx_schema CX physical))
           (add_header ''etag'' etag (add_header QUERY_TIME_HEADER elapsed response)))))))"

text \<open>The whole route: authorization, the handler, and the cache control header on success.\<close>

definition cached_read_route ::
    "('s, 'p) context_ops \<Rightarrow> HttpFrontend \<Rightarrow> string \<Rightarrow> string option \<Rightarrow> string \<Rightarrow> string \<Rightarrow> string option \<Rightarrow>
     string option \<Rightarrow> ('s, ApiError, response) st" where
  "cached_read_route CX config elapsed header database_name query_or_hash maybe_raw_query if_none_match =
     bind_st (lift_res (cached_read_query_authz (cx_hash CX) (from_config config) header)) (\<lambda>_.
     bind_st (cached_read_query CX elapsed database_name query_or_hash maybe_raw_query if_none_match) (\<lambda>response.
     return_st (add_header ''cache-control'' (cache_control config) response)))"

definition uncached_route ::
    "('s, 'p) context_ops \<Rightarrow> HttpFrontend \<Rightarrow> string \<Rightarrow> string option \<Rightarrow> string \<Rightarrow> string \<Rightarrow> ('s, ApiError, response) st" where
  "uncached_route CX config elapsed header database_name query =
     bind_st (lift_res (header_to_user_context (cx_hash CX) header (from_config config))) (\<lambda>user.
     uncached_read_write_query CX elapsed database_name user query)"


subsection \<open>POST /upload\<close>

text \<open>A part of the form: its name, its file name, and its chunks.\<close>

record form_part =
  fp_name :: string
  fp_filename :: "string option"
  fp_chunks :: "(ApiError, nat list) result list"

record upload_state =
  up_has_header :: bool
  up_schema :: "string option"
  up_filename :: string
  up_bytes :: "nat list"

definition load_part :: "form_part \<Rightarrow> (ApiError, nat list) result" where
  "load_part part = bind_res (collect_res (\<lambda>c. c) (fp_chunks part)) (\<lambda>cs. Inr (concat cs))"

record form_decoders =
  fd_utf8 :: "nat list \<Rightarrow> string option"
  fd_schema :: "string \<Rightarrow> (ApiError, string) result"

definition read_part :: "form_decoders \<Rightarrow> form_part \<Rightarrow> upload_state \<Rightarrow> (ApiError, upload_state) result" where
  "read_part D part st =
     (if fp_name part = ''has_header'' then
        bind_res (load_part part) (\<lambda>bytes.
        bind_res (ok_or UploadHasHeaderParseError (fd_utf8 D bytes)) (\<lambda>s.
        Inr (st\<lparr>up_has_header := has_prefix ''true'' s\<rparr>)))
      else if fp_name part = ''schema'' then
        bind_res (load_part part) (\<lambda>bytes.
        bind_res (ok_or (UploadSchemaDeserializationError ''utf-8'') (fd_utf8 D bytes)) (\<lambda>s.
        bind_res (fd_schema D s) (\<lambda>schema.
        Inr (st\<lparr>up_schema := Some schema\<rparr>))))
      else if fp_name part = ''data'' \<or> fp_name part = ''file'' then
        bind_res (ok_or UploadMissingFile (fp_filename part)) (\<lambda>filename.
        bind_res (load_part part) (\<lambda>bytes.
        Inr (st\<lparr>up_filename := filename, up_bytes := up_bytes st @ bytes\<rparr>)))
      else Inr st)"

fun read_parts ::
    "form_decoders \<Rightarrow> (ApiError, form_part) result list \<Rightarrow> upload_state \<Rightarrow> (ApiError, upload_state) result" where
  "read_parts D [] st = Inr st"
| "read_parts D (maybe_part # parts) st =
     bind_res maybe_part (\<lambda>part. bind_res (read_part D part st) (\<lambda>st'. read_parts D parts st'))"

text \<open>\<open>split('.').last()\<close>: the text after the last dot, the whole name if there is none.\<close>

definition file_extension :: "string \<Rightarrow> string" where
  "file_extension filename = rev (takeWhile (\<lambda>c. c \<noteq> CHR ''.'') (rev filename))"

definition upload ::
    "('s, 'p) context_ops \<Rightarrow> form_decoders \<Rightarrow> string \<Rightarrow> string \<Rightarrow> string \<Rightarrow> UserContext \<Rightarrow>
     (ApiError, form_part) result list \<Rightarrow> ('s, ApiError, int) st" where
  "upload CX D database_name schema_name table_name user form =
     (if \<not> user_can user Write then lift_res (Inl WriteForbidden)
      else
        let db = scoped CX database_name in
        bind_st (lift_res (read_parts D form
          \<lparr>up_has_header = True, up_schema = None, up_filename = [], up_bytes = []\<rparr>)) (\<lambda>st.
        if up_filename st = [] then lift_res (Inl UploadMissingFile)
        else
          let file_type = file_extension (up_filename st) in
          if file_type \<noteq> ''csv'' \<and> file_type \<noteq> ''parquet''
          then lift_res (Inl (UploadUnsupportedFileFormat (up_filename st)))
          else cx_file_to_table CX db (up_bytes st) file_type (up_schema st) (up_has_header st)
                 schema_name table_name))"

text \<open>The health check: \<open>flight\<close> is whether the Flight frontend is configured and, if so, reachable.\<close>

definition health_endpoint :: "bool option \<Rightarrow> response" where
  "health_endpoint flight =
     (if flight = Some False
      then \<lparr>rs_status = 503, rs_headers = [], rs_body = map of_char ''not_ready''\<rparr>
      else \<lparr>rs_status = 200, rs_headers = [], rs_body = map of_char ''ready''\<rparr>)"


subsection \<open>What the endpoints guarantee\<close>

lemma run_statements_unchanged: "run_statements CX db [] out s = (Inr out, s)"
  by simp

definition needed_action :: "df_statement list \<Rightarrow> Action" where
  "needed_action stmts = (if list_all is_statement_read_only stmts then Read else Write)"

lemma needed_action_count:
  "(if length (filter is_statement_read_only stmts) = length stmts then Read else Write) = needed_action stmts"
proof -
  have "length (filter P xs) = length xs \<longleftrightarrow> list_all P xs" for P :: "df_statement \<Rightarrow> bool" and xs
    by (induction xs) (auto simp: le_imp_less_Suc [OF length_filter_le, THEN less_imp_neq])
  then show ?thesis by (simp add: needed_action_def)
qed

text \<open>A multi-statement query is well formed if it has at most one read, at the end.\<close>

definition reads_last :: "df_statement list \<Rightarrow> bool" where
  "reads_last stmts \<longleftrightarrow> stmts \<noteq> [] \<and> list_all (\<lambda>s. \<not> is_statement_read_only s) (butlast stmts)"

lemma reads_last_count:
  assumes "stmts \<noteq> []"
  shows "(let reads = length (filter is_statement_read_only stmts)
          in \<not> (reads > 1 \<or> (reads = 1 \<and> \<not> is_statement_read_only (last stmts)))) = reads_last stmts"
proof -
  have split: "stmts = butlast stmts @ [last stmts]" using assms by simp
  have count: "length (filter is_statement_read_only stmts) =
      length (filter is_statement_read_only (butlast stmts)) + (if is_statement_read_only (last stmts) then 1 else 0)"
    by (subst split) simp
  define n where "n = length (filter is_statement_read_only (butlast stmts))"
  have "list_all (\<lambda>s. \<not> is_statement_read_only s) (butlast stmts) \<longleftrightarrow> n = 0"
    by (auto simp: list_all_iff filter_empty_conv n_def)
  moreover have "length (filter is_statement_read_only stmts) =
      n + (if is_statement_read_only (last stmts) then 1 else 0)" using count by (simp add: n_def)
  ultimately show ?thesis using assms by (auto simp: Let_def reads_last_def)
qed

lemma uncached_read_write_query_eq:
  "uncached_read_write_query CX elapsed db user q s =
     (case cx_parse_query CX q of
        Inl e \<Rightarrow> (Inl e, s)
      | Inr stmts \<Rightarrow>
          if stmts = [] then (Inl EmptyMultiStatement, s)
          else if \<not> user_can user (needed_action stmts) then (Inl WriteForbidden, s)
          else if \<not> reads_last stmts then (Inl InvalidMultiStatement, s)
          else bind_st (run_statements CX (scoped CX db) stmts None) (\<lambda>out.
            case out of
              None \<Rightarrow> lift_res (Inl (IoError ''at least one statement in the list''))
            | Some plan \<Rightarrow>
                bind_st (plan_to_response CX (scoped CX db) plan) (\<lambda>response.
                return_st (add_header QUERY_TIME_HEADER elapsed
                  (if length (filter is_statement_read_only stmts) > 0
                   then add_header ''content-type'' (cx_content_type CX (cx_schema CX plan)) response
                   else response)))) s)"
proof (cases "cx_parse_query CX q")
  case (Inl e)
  then show ?thesis by (simp add: uncached_read_write_query_def bind_st_def Let_def)
next
  case (Inr stmts)
  show ?thesis
  proof (cases "stmts = []")
    case True
    with Inr show ?thesis by (simp add: uncached_read_write_query_def bind_st_def Let_def)
  next
    case False
    from reads_last_count [OF this] Inr False show ?thesis
      by (cases "reads_last stmts")
        (auto simp: uncached_read_write_query_def bind_st_def [of "lift_res _"] Let_def needed_action_count)
  qed
qed


text \<open>A context whose state counts the plans that changed something.\<close>

definition demo_context :: "(nat, bool) context_ops" where
  "demo_context = \<lparr>cx_default_catalog = ''default'',
     cx_parse_query = (\<lambda>q. if q = [] then Inr [] else
       Inr [if has_prefix ''SELECT'' q then Statement (Query q) else Statement (OtherSql q)]),
     cx_logical = (\<lambda>_ stmt s. (Inr (if is_statement_read_only stmt then TableScan (Some ([1], [s])) else Dml ''x''), s)),
     cx_physical = (\<lambda>_ plan s. if is_read_only plan then (Inr True, s) else (Inr False, s + 1)),
     cx_schema = (\<lambda>_. ''schema''), cx_execute = (\<lambda>_ _ s. (Inr [s], s)),
     cx_file_to_table = (\<lambda>_ _ _ _ _ _ _ s. (Inr 1, s + 1)),
     cx_hash = (\<lambda>p. p @ ''#''), cx_etag_hash = (\<lambda>bs. map char_of bs),
     cx_percent_decode = Some, cx_content_type = (\<lambda>x. x)\<rparr>"

definition demo_config :: HttpFrontend where
  "demo_config = default_http_frontend\<lparr>write_access := Password ''secret#''\<rparr>"



definition counting_context :: "(nat, bool) context_ops" where
  "counting_context = demo_context\<lparr>cx_execute := (\<lambda>_ _ s. (Inr [s], s + 1))\<rparr>"


text \<open>
  A dot truncates the query. The comment says that dots at the end of the path parameter are ignored; the
  code keeps only what precedes the first dot, so that a request for a query with a dot in it is answered
  exactly as a request for the text before the dot.
\<close>

theorem cached_query_cut_at_first_dot:
  "cached_read_query CX elapsed db (q @ CHR ''.'' # rest) None inm = cached_read_query CX elapsed db q None inm"
proof -
  have "first_segment (q @ CHR ''.'' # rest) = first_segment q"
    by (induction q) (auto simp: first_segment_def)
  then show ?thesis by (simp add: cached_read_query_def decoded_query_def)
qed

text \<open>
  An upload needs no file name extension. The last piece of the split file name always exists, so a
  name without a dot is taken for its own extension and a file called \<open>csv\<close> is loaded as a CSV file; the
  error for a missing extension is never raised.
\<close>

theorem upload_without_extension:
  assumes "user_can user Write"
  shows "upload CX D db sch tab user [Inr \<lparr>fp_name = ''file'', fp_filename = Some ''csv'', fp_chunks = [Inr bytes]\<rparr>] s =
    cx_file_to_table CX (scoped CX db) bytes ''csv'' None True sch tab s"
  using assms
  by (simp add: upload_def read_part_def load_part_def ok_or_def file_extension_def bind_st_def Let_def)

theorem upload_without_extension_witness:
  "upload demo_context \<lparr>fd_utf8 = (\<lambda>_. None), fd_schema = (\<lambda>s. Inr s)\<rparr> ''default'' ''public'' ''t''
     \<lparr>u_principal = Writer, u_policy = free_for_all\<rparr>
     [Inr \<lparr>fp_name = ''file'', fp_filename = Some ''csv'', fp_chunks = [Inr [65]]\<rparr>] 0 = (Inr 1, 1)"
proof -
  have "user_can \<lparr>u_principal = Writer, u_policy = free_for_all\<rparr> Write" by code_simp
  then show ?thesis by (subst upload_without_extension) (simp_all add: demo_context_def)
qed

end
