(* ===== verification/FilterPushdown.thy ===== *)
theory FilterPushdown
  imports Prelude
begin

text \<open>
  Filter pushdown of remote tables (\<open>datafusion_remote_tables/src/filter_pushdown.rs\<close>): a visitor walks a
  filter expression and keeps the SQL of the visited parts on a stack. The theory models the
  visitor with its stack and the three dialects, proves that it computes what a direct recursion
  over the expression computes, and shows where the SQL loses the structure of the expression.
\<close>

subsection \<open>Expressions\<close>

text \<open>
  DataFusion's operators as far as the code names them, scalar values as far as it tells them apart. The display
  of operators and other scalars, the operator precedence and the date conversions belong to
  DataFusion and Arrow; they are a parameter.
\<close>

datatype Operator = RegexMatch | RegexIMatch | RegexNotMatch | RegexNotIMatch | BitwiseXor | Op string

datatype time_unit = Second | Millisecond | Microsecond | Nanosecond

datatype ScalarValue =
    Utf8 "string option" | LargeUtf8 "string option"
  | Date32 "int option" | Date64 "int option"
  | Timestamp time_unit "int option" "string option"
  | OtherScalar string

datatype Expr =
    Column string
  | Literal ScalarValue
  | Not Expr
  | Negative Expr
  | IsNull Expr
  | IsNotNull Expr
  | IsTrue Expr
  | IsFalse Expr
  | IsNotTrue Expr
  | IsNotFalse Expr
  | InList Expr "Expr list" bool
  | BinaryExpr Expr Operator Expr
  | OtherExpr string

record df_display =
  dd_op :: "Operator \<Rightarrow> string"
  dd_precedence :: "Operator \<Rightarrow> nat"
  dd_scalar :: "ScalarValue \<Rightarrow> string"
  dd_date32 :: "int \<Rightarrow> string option"
  dd_timestamp :: "time_unit \<Rightarrow> int \<Rightarrow> string option"

datatype pushdown_error =
    OperatorNotShippable Operator
  | ExpressionNotShippable Expr
  | ScalarNotShippable ScalarValue
  | OperatorNotConvertible Operator
  | NotExactlyOne "string list"
  | EmptyStack


subsection \<open>Dialects\<close>

definition replace_char :: "char \<Rightarrow> string \<Rightarrow> string \<Rightarrow> string" where
  "replace_char c r s = concat (map (\<lambda>x. if x = c then r else [x]) s)"

definition quote_identifier_double_quotes :: "string \<Rightarrow> string" where
  "quote_identifier_double_quotes name =
     [CHR 0x22] @ replace_char (CHR 0x22) [CHR 0x22, CHR 0x22] name @ [CHR 0x22]"

definition quote_identifier_backticks :: "string \<Rightarrow> string" where
  "quote_identifier_backticks name = ''`'' @ replace_char (CHR ''`'') ''``'' name @ ''`''"

record converter =
  cv_col_to_sql :: "string \<Rightarrow> string"
  cv_op_to_sql :: "Operator \<Rightarrow> string option"

definition quoted :: "string \<Rightarrow> string" where
  "quoted s = [CHR 0x27] @ s @ [CHR 0x27]"

definition scalar_value_to_sql :: "df_display \<Rightarrow> ScalarValue \<Rightarrow> string option" where
  "scalar_value_to_sql D v = (case v of
      Utf8 (Some val) \<Rightarrow> Some (quoted (replace_char (CHR 0x27) [CHR 0x27, CHR 0x27] val))
    | LargeUtf8 (Some val) \<Rightarrow> Some (quoted (replace_char (CHR 0x27) [CHR 0x27, CHR 0x27] val))
    | Date32 (Some days) \<Rightarrow> map_option quoted (dd_date32 D days)
    | Date64 (Some t_ms) \<Rightarrow> map_option quoted (dd_timestamp D Millisecond t_ms)
    | Timestamp u (Some t) None \<Rightarrow> map_option quoted (dd_timestamp D u t)
    | Timestamp u _ (Some _) \<Rightarrow> None
    | _ \<Rightarrow> Some (dd_scalar D v))"

definition postgres :: "df_display \<Rightarrow> converter" where
  "postgres D = \<lparr>cv_col_to_sql = quote_identifier_double_quotes, cv_op_to_sql = (\<lambda>op. Some (dd_op D op))\<rparr>"

definition sqlite :: "df_display \<Rightarrow> converter" where
  "sqlite D = \<lparr>cv_col_to_sql = quote_identifier_double_quotes,
     cv_op_to_sql = (\<lambda>op. case op of
        RegexMatch \<Rightarrow> None | RegexIMatch \<Rightarrow> None | RegexNotMatch \<Rightarrow> None | RegexNotIMatch \<Rightarrow> None
      | BitwiseXor \<Rightarrow> None | _ \<Rightarrow> Some (dd_op D op))\<rparr>"

definition mysql :: "df_display \<Rightarrow> converter" where
  "mysql D = \<lparr>cv_col_to_sql = quote_identifier_backticks,
     cv_op_to_sql = (\<lambda>op. case op of
        RegexIMatch \<Rightarrow> None | RegexNotIMatch \<Rightarrow> None
      | RegexMatch \<Rightarrow> Some ''RLIKE'' | RegexNotMatch \<Rightarrow> Some ''NOT RLIKE''
      | BitwiseXor \<Rightarrow> Some ''^'' | _ \<Rightarrow> Some (dd_op D op))\<rparr>"


subsection \<open>The visitor\<close>

text \<open>The stack is a vector; its top is the last element.\<close>

definition pop_sql_expr :: "string list \<Rightarrow> (pushdown_error, string \<times> string list) result" where
  "pop_sql_expr st = (if st = [] then Inl EmptyStack else Inr (last st, butlast st))"

definition f_down :: "converter \<Rightarrow> Expr \<Rightarrow> (pushdown_error, unit) result" where
  "f_down C e = (case e of
      BinaryExpr _ op _ \<Rightarrow> if cv_op_to_sql C op = None then Inl (OperatorNotShippable op) else Inr ()
    | OtherExpr _ \<Rightarrow> Inl (ExpressionNotShippable e)
    | _ \<Rightarrow> Inr ())"

definition parens :: "string \<Rightarrow> string" where
  "parens s = ''('' @ s @ '')''"

text \<open>An operand is put in parentheses if it is a binary expression that binds less tightly.\<close>

definition operand_sql :: "df_display \<Rightarrow> Operator \<Rightarrow> Expr \<Rightarrow> string \<Rightarrow> string" where
  "operand_sql D op e s = (case e of
      BinaryExpr _ op' _ \<Rightarrow>
        (let p = dd_precedence D op' in if p = 0 \<or> p < dd_precedence D op then parens s else s)
    | _ \<Rightarrow> s)"

fun join :: "string \<Rightarrow> string list \<Rightarrow> string" where
  "join sep [] = []"
| "join sep [x] = x"
| "join sep (x # y # xs) = x @ sep @ join sep (y # xs)"

definition unary_up :: "(string \<Rightarrow> string) \<Rightarrow> string list \<Rightarrow> (pushdown_error, string list) result" where
  "unary_up f st = bind_res (pop_sql_expr st) (\<lambda>(inner, st'). Inr (st' @ [f inner]))"

definition f_up :: "df_display \<Rightarrow> converter \<Rightarrow> Expr \<Rightarrow> string list \<Rightarrow> (pushdown_error, string list) result" where
  "f_up D C e st = (case e of
      Column col \<Rightarrow> Inr (st @ [cv_col_to_sql C col])
    | Literal val \<Rightarrow> bind_res (ok_or (ScalarNotShippable val) (scalar_value_to_sql D val)) (\<lambda>s. Inr (st @ [s]))
    | BinaryExpr l op r \<Rightarrow>
        bind_res (pop_sql_expr st) (\<lambda>(right_sql, st1).
        bind_res (pop_sql_expr st1) (\<lambda>(left_sql, st2).
        bind_res (ok_or (OperatorNotConvertible op) (cv_op_to_sql C op)) (\<lambda>op_sql.
        Inr (st2 @ [operand_sql D op l left_sql @ '' '' @ op_sql @ '' '' @ operand_sql D op r right_sql]))))
    | Not _ \<Rightarrow> unary_up (\<lambda>s. ''NOT '' @ s) st
    | Negative _ \<Rightarrow> unary_up (\<lambda>s. ''(- '' @ s @ '')'') st
    | IsNull _ \<Rightarrow> unary_up (\<lambda>s. s @ '' IS NULL'') st
    | IsNotNull _ \<Rightarrow> unary_up (\<lambda>s. s @ '' IS NOT NULL'') st
    | IsTrue _ \<Rightarrow> unary_up (\<lambda>s. s @ '' IS TRUE'') st
    | IsFalse _ \<Rightarrow> unary_up (\<lambda>s. s @ '' IS FALSE'') st
    | IsNotTrue _ \<Rightarrow> unary_up (\<lambda>s. s @ '' IS NOT TRUE'') st
    | IsNotFalse _ \<Rightarrow> unary_up (\<lambda>s. s @ '' IS NOT FALSE'') st
    | InList _ es negated \<Rightarrow>
        if length st < length es then Inl EmptyStack
        else
          let index = length st - length es; list_sql = join '', '' (drop index st) in
          bind_res (pop_sql_expr (take index st)) (\<lambda>(expr_sql, st').
          Inr (st' @ [expr_sql @ (if negated then '' NOT IN ('' else '' IN ('') @ list_sql @ '')'']))
    | OtherExpr _ \<Rightarrow> Inr st)"

text \<open>\<open>TreeNode::visit\<close>: down, the children in order, up; an error ends the walk.\<close>

fun children :: "Expr \<Rightarrow> Expr list" where
  "children (Not e) = [e]"
| "children (Negative e) = [e]"
| "children (IsNull e) = [e]"
| "children (IsNotNull e) = [e]"
| "children (IsTrue e) = [e]"
| "children (IsFalse e) = [e]"
| "children (IsNotTrue e) = [e]"
| "children (IsNotFalse e) = [e]"
| "children (InList e es _) = e # es"
| "children (BinaryExpr l _ r) = [l, r]"
| "children _ = []"

lemma children_size: "c \<in> set (children e) \<Longrightarrow> size c < size e"
  by (cases e) (auto simp: less_Suc_eq_le intro: order_trans [OF size_list_estimation'] dest: size_list_estimation')

function visit :: "df_display \<Rightarrow> converter \<Rightarrow> Expr \<Rightarrow> string list \<Rightarrow> (pushdown_error, string list) result"
  and visit_all :: "df_display \<Rightarrow> converter \<Rightarrow> Expr list \<Rightarrow> string list \<Rightarrow> (pushdown_error, string list) result" where
  "visit D C e st =
     bind_res (f_down C e) (\<lambda>_. bind_res (visit_all D C (children e) st) (\<lambda>st'. f_up D C e st'))"
| "visit_all D C [] st = Inr st"
| "visit_all D C (e # es) st = bind_res (visit D C e st) (\<lambda>st'. visit_all D C es st')"
  by pat_completeness auto

definition max_size :: "Expr list \<Rightarrow> nat" where
  "max_size es = foldr (\<lambda>e m. max (Suc (size e)) m) es 0"

lemma max_size_children: "max_size (children e) \<le> size e"
proof -
  have "(\<And>c. c \<in> set es \<Longrightarrow> size c < n) \<Longrightarrow> max_size es \<le> n" for es n
    by (induction es) (auto simp: max_size_def Suc_le_eq)
  then show ?thesis using children_size by blast
qed

termination visit
  by (relation "measures [\<lambda>x. case x of Inl (_, _, e, _) \<Rightarrow> Suc (size e) | Inr (_, _, es, _) \<Rightarrow> max_size es,
      \<lambda>x. case x of Inl _ \<Rightarrow> 0 | Inr (_, _, es, _) \<Rightarrow> Suc (length es)]")
    (auto simp: max_size_children le_imp_less_Suc, auto simp: max_size_def)

declare visit.simps [simp del]

definition filter_expr_to_sql :: "df_display \<Rightarrow> converter \<Rightarrow> Expr \<Rightarrow> (pushdown_error, string) result" where
  "filter_expr_to_sql D C e =
     bind_res (visit D C e []) (\<lambda>sql_exprs.
       if length sql_exprs \<noteq> 1 then Inl (NotExactlyOne sql_exprs) else Inr (hd sql_exprs))"


subsection \<open>The visitor computes a recursive rendering\<close>

text \<open>The reference: render the parts, then put them together.\<close>

definition assemble :: "df_display \<Rightarrow> converter \<Rightarrow> Expr \<Rightarrow> string list \<Rightarrow> (pushdown_error, string) result" where
  "assemble D C e parts = (case e of
      Column col \<Rightarrow> Inr (cv_col_to_sql C col)
    | Literal val \<Rightarrow> ok_or (ScalarNotShippable val) (scalar_value_to_sql D val)
    | BinaryExpr l op r \<Rightarrow>
        bind_res (ok_or (OperatorNotConvertible op) (cv_op_to_sql C op)) (\<lambda>op_sql.
        Inr (operand_sql D op l (parts ! 0) @ '' '' @ op_sql @ '' '' @ operand_sql D op r (parts ! 1)))
    | Not _ \<Rightarrow> Inr (''NOT '' @ parts ! 0)
    | Negative _ \<Rightarrow> Inr (''(- '' @ parts ! 0 @ '')'')
    | IsNull _ \<Rightarrow> Inr (parts ! 0 @ '' IS NULL'')
    | IsNotNull _ \<Rightarrow> Inr (parts ! 0 @ '' IS NOT NULL'')
    | IsTrue _ \<Rightarrow> Inr (parts ! 0 @ '' IS TRUE'')
    | IsFalse _ \<Rightarrow> Inr (parts ! 0 @ '' IS FALSE'')
    | IsNotTrue _ \<Rightarrow> Inr (parts ! 0 @ '' IS NOT TRUE'')
    | IsNotFalse _ \<Rightarrow> Inr (parts ! 0 @ '' IS NOT FALSE'')
    | InList _ es negated \<Rightarrow>
        Inr (parts ! 0 @ (if negated then '' NOT IN ('' else '' IN ('') @ join '', '' (tl parts) @ '')'')
    | OtherExpr _ \<Rightarrow> Inl (ExpressionNotShippable e))"

function render :: "df_display \<Rightarrow> converter \<Rightarrow> Expr \<Rightarrow> (pushdown_error, string) result"
  and render_all :: "df_display \<Rightarrow> converter \<Rightarrow> Expr list \<Rightarrow> (pushdown_error, string list) result" where
  "render D C e =
     bind_res (f_down C e) (\<lambda>_. bind_res (render_all D C (children e)) (\<lambda>parts. assemble D C e parts))"
| "render_all D C [] = Inr []"
| "render_all D C (e # es) =
     bind_res (render D C e) (\<lambda>s. bind_res (render_all D C es) (\<lambda>ss. Inr (s # ss)))"
  by pat_completeness auto

termination render
  by (relation "measures [\<lambda>x. case x of Inl (_, _, e) \<Rightarrow> Suc (size e) | Inr (_, _, es) \<Rightarrow> max_size es,
      \<lambda>x. case x of Inl _ \<Rightarrow> 0 | Inr (_, _, es) \<Rightarrow> Suc (length es)]")
    (auto simp: max_size_children le_imp_less_Suc, auto simp: max_size_def)

declare render.simps [simp del]

lemma render_all_length: "render_all D C es = Inr ss \<Longrightarrow> length ss = length es"
  by (induction es arbitrary: ss) (auto simp: res_simps)

lemma pop_append [simp]: "pop_sql_expr (st @ [s]) = Inr (s, st)" "pop_sql_expr (st @ [s, t]) = Inr (t, st @ [s])"
  by (simp_all add: pop_sql_expr_def butlast_append)

lemma f_up_assemble:
  assumes "f_down C e = Inr ()" and "length parts = length (children e)"
  shows "f_up D C e (st @ parts) = bind_res (assemble D C e parts) (\<lambda>s. Inr (st @ [s]))"
proof -
  consider (none) "children e = []" | (one) c where "children e = [c]" "\<And>x es n. e \<noteq> InList x es n"
    | (two) l op r where "e = BinaryExpr l op r" | (inlist) x es n where "e = InList x es n"
    by (cases e) auto
  then show ?thesis
  proof cases
    case none
    with assms show ?thesis by (cases e) (auto simp: f_up_def assemble_def ok_or_def f_down_def split: option.splits)
  next
    case (one c)
    with assms obtain s where "parts = [s]" by (auto simp: length_Suc_conv)
    with one show ?thesis by (cases e) (auto simp: f_up_def assemble_def unary_up_def)
  next
    case (two l op r)
    with assms obtain a b where "parts = [a, b]" by (auto simp: length_Suc_conv numeral_2_eq_2)
    with two assms show ?thesis by (auto simp: f_up_def assemble_def ok_or_def f_down_def split: option.splits)
  next
    case (inlist x es n)
    with assms obtain a ps where ps: "parts = a # ps" "length ps = length es" by (auto simp: length_Suc_conv)
    then have "st @ parts = (st @ [a]) @ ps" by simp
    with ps inlist show ?thesis by (simp add: f_up_def assemble_def del: append_assoc)
  qed
qed

lemma visit_render:
  "visit D C e st = bind_res (render D C e) (\<lambda>s. Inr (st @ [s]))"
  "visit_all D C es st = bind_res (render_all D C es) (\<lambda>ss. Inr (st @ ss))"
proof (induction D C e st and D C es st rule: visit_visit_all.induct)
  case (1 D C e st)
  show ?case
  proof (cases "f_down C e")
    case (Inl err)
    then show ?thesis by (simp add: visit.simps render.simps)
  next
    case (Inr u)
    then show ?thesis
      using 1 f_up_assemble [of C e _ D st] render_all_length [of D C "children e"]
      by (cases "render_all D C (children e)") (auto simp: visit.simps render.simps [of D C e])
  qed
next
  case (3 D C e es st)
  then show ?case
    by (cases "render D C e"; cases "render_all D C es") auto
qed simp_all

text \<open>
  C30: the visitor is the recursion. For every filter and every dialect, walking the expression with the stack never
  pops an empty stack and never leaves more or less than one entry: it returns exactly what
  the direct recursive rendering returns, the SQL text or the first error.
\<close>

theorem filter_expr_to_sql_renders: "filter_expr_to_sql D C e = render D C e"
  by (cases "render D C e") (simp_all add: filter_expr_to_sql_def visit_render)


subsection \<open>Quoting\<close>

text \<open>How SQL reads a quoted token after its opening quote: a doubled quote stands for one, a single one ends it.\<close>

fun read_quoted :: "char \<Rightarrow> string \<Rightarrow> (string \<times> string) option" where
  "read_quoted q [] = None"
| "read_quoted q (c # cs) =
     (if c \<noteq> q then map_option (\<lambda>(s, r). (c # s, r)) (read_quoted q cs)
      else case cs of
             [] \<Rightarrow> Some ([], [])
           | d # ds \<Rightarrow> if d = q then map_option (\<lambda>(s, r). (q # s, r)) (read_quoted q ds) else Some ([], cs))"

lemma read_quoted_replace:
  assumes "rest = [] \<or> hd rest \<noteq> q"
  shows "read_quoted q (replace_char q [q, q] s @ q # rest) = Some (s, rest)"
proof (induction s)
  case Nil
  with assms show ?case by (cases rest) (auto simp: replace_char_def)
next
  case (Cons c s)
  then show ?case by (auto simp: replace_char_def)
qed




subsection \<open>Lost structure\<close>

text \<open>
  negation loses its parentheses. The negation of a binary expression is rendered without parentheses, so that the
  filter \<open>NOT (x op e)\<close> is shipped as the same SQL as \<open>(NOT x) op e\<close>, in every dialect.
\<close>

theorem negation_loses_parentheses:
  "filter_expr_to_sql D C (Not (BinaryExpr (Column x) op e)) =
   filter_expr_to_sql D C (BinaryExpr (Not (Column x)) op e)"
  unfolding filter_expr_to_sql_renders
  by (cases "cv_op_to_sql C op"; cases "render D C e")
    (simp_all add: render.simps [of D C "Not (BinaryExpr (Column x) op e)"]
      render.simps [of D C "BinaryExpr (Column x) op e"] render.simps [of D C "Not (Column x)"]
      render.simps [of D C "Column x"] render.simps [of D C "BinaryExpr (Not (Column x)) op e"]
      f_down_def assemble_def ok_or_def operand_sql_def)

text \<open>
  Operators of equal precedence lose their grouping. A right operand with the operator of its parent gets no
  parentheses, so that \<open>x op (y op z)\<close> is shipped as the same SQL as \<open>(x op y) op z\<close>, which the remote system
  evaluates from the left; for subtraction and division that is a different value.
\<close>

theorem equal_precedence_loses_grouping:
  assumes "dd_precedence D op \<noteq> 0"
  shows "filter_expr_to_sql D C (BinaryExpr (Column x) op (BinaryExpr (Column y) op (Column z))) =
    filter_expr_to_sql D C (BinaryExpr (BinaryExpr (Column x) op (Column y)) op (Column z))"
  unfolding filter_expr_to_sql_renders using assms
  by (cases "cv_op_to_sql C op")
    (simp_all add: render.simps f_down_def assemble_def ok_or_def operand_sql_def)

definition demo_display :: df_display where
  "demo_display = \<lparr>dd_op = (\<lambda>op. case op of Op s \<Rightarrow> s | _ \<Rightarrow> ''~''),
     dd_precedence = (\<lambda>op. case op of Op s \<Rightarrow> if s = ''AND'' then 10 else 30 | _ \<Rightarrow> 0),
     dd_scalar = (\<lambda>_. ''NULL''), dd_date32 = (\<lambda>_. None), dd_timestamp = (\<lambda>_ _. None)\<rparr>"

theorem equal_precedence_loses_grouping_witness:
  "filter_expr_to_sql demo_display (mysql demo_display)
     (BinaryExpr (Column ''x'') (Op ''-'') (BinaryExpr (Column ''y'') (Op ''-'') (Column ''z''))) =
   filter_expr_to_sql demo_display (mysql demo_display)
     (BinaryExpr (BinaryExpr (Column ''x'') (Op ''-'') (Column ''y'')) (Op ''-'') (Column ''z'')) \<and>
   filter_expr_to_sql demo_display (mysql demo_display)
     (BinaryExpr (Column ''x'') (Op ''-'') (BinaryExpr (Column ''y'') (Op ''-'') (Column ''z''))) =
   Inr ''`x` - `y` - `z`''"
proof
  show "filter_expr_to_sql demo_display (mysql demo_display)
     (BinaryExpr (Column ''x'') (Op ''-'') (BinaryExpr (Column ''y'') (Op ''-'') (Column ''z''))) =
   filter_expr_to_sql demo_display (mysql demo_display)
     (BinaryExpr (BinaryExpr (Column ''x'') (Op ''-'') (Column ''y'')) (Op ''-'') (Column ''z''))"
    by (rule equal_precedence_loses_grouping) (simp add: demo_display_def)
qed code_simp

end
