(* ===== verification/ObjectCache.thy ===== *)
theory ObjectCache
  imports Prelude
begin

text \<open>
  The on-disk cache of object stores (\<open>src/object_store/cache.rs\<close>): reads are widened to chunks, missing
  chunks are fetched in batches, kept in memory and written to files by background tasks, while
  the cache evicts entries at any time. The theory models the state (cache, files, tasks), the
  operations and the background events, and proves that a read returns the bytes of the object under
  every orderly schedule of the background; it also shows the schedules and ranges for which it does not.
  The wrapped store, the hash of a path and the eviction decisions are parameters.
\<close>

subsection \<open>Keys, values and state\<close>

type_synonym bytes = "8 word list"

record CacheKey =
  k_path :: string
  k_start :: nat
  k_end :: nat

text \<open>The file name is made of the hash of the path and the two bounds, separated by dashes.\<close>

type_synonym filename = "string \<times> nat \<times> nat"

definition as_filename :: "(string \<Rightarrow> string) \<Rightarrow> CacheKey \<Rightarrow> filename" where
  "as_filename H k = (H (k_path k), k_start k, k_end k)"

datatype CacheValue = File filename nat | Memory bytes

definition value_size :: "CacheValue \<Rightarrow> nat" where
  "value_size v = (case v of File _ n \<Rightarrow> n | Memory d \<Rightarrow> length d)"

text \<open>A write task that was spawned: not started, writing the file, or done writing.\<close>

datatype phase = New | Writing | Written

record task =
  t_key :: CacheKey
  t_data :: bytes
  t_phase :: phase

record cache_state =
  cs_cache :: "CacheKey \<Rightarrow> CacheValue option"
  cs_files :: "filename \<Rightarrow> bytes option"
  cs_tasks :: "task list"

datatype cache_error = StoreError string | CachePanic string

definition empty_cache :: cache_state where
  "empty_cache = \<lparr>cs_cache = (\<lambda>_. None), cs_files = (\<lambda>_. None), cs_tasks = []\<rparr>"


subsection \<open>File manager and eviction\<close>

text \<open>\<open>on_evict\<close>: an entry that points to a file takes the file with it.\<close>

definition on_evict :: "CacheValue \<Rightarrow> cache_state \<Rightarrow> cache_state" where
  "on_evict v st = (case v of File f _ \<Rightarrow> st\<lparr>cs_files := (cs_files st)(f := None)\<rparr> | Memory _ \<Rightarrow> st)"

definition remove_entry :: "CacheKey \<Rightarrow> cache_state \<Rightarrow> cache_state" where
  "remove_entry k st =
     (case cs_cache st k of
        None \<Rightarrow> st
      | Some v \<Rightarrow> on_evict v (st\<lparr>cs_cache := (cs_cache st)(k := None)\<rparr>))"

text \<open>Inserting a value evicts the replaced one.\<close>

definition insert_entry :: "CacheKey \<Rightarrow> CacheValue \<Rightarrow> cache_state \<Rightarrow> cache_state" where
  "insert_entry k v st =
     (case cs_cache st k of
        None \<Rightarrow> st\<lparr>cs_cache := (cs_cache st)(k \<mapsto> v)\<rparr>
      | Some old \<Rightarrow> on_evict old (st\<lparr>cs_cache := (cs_cache st)(k \<mapsto> v)\<rparr>))"

definition cache_chunk_data :: "CacheKey \<Rightarrow> bytes \<Rightarrow> cache_state \<Rightarrow> cache_state" where
  "cache_chunk_data k data st =
     (if cs_cache st k \<noteq> None then st
      else st\<lparr>cs_cache := (cs_cache st)(k \<mapsto> Memory data),
              cs_tasks := cs_tasks st @ [\<lparr>t_key = k, t_data = data, t_phase = New\<rparr>]\<rparr>)"


subsection \<open>Background events\<close>

text \<open>
  The cache evicts a key; a task begins to write (it skips the write if the file is there), ends writing, makes
  its file the cache value, or fails, possibly leaving a part of the file behind.
\<close>

datatype event =
    Evict CacheKey
  | StartWrite nat
  | EndWrite nat
  | Publish nat
  | FailWrite nat

definition set_phase :: "nat \<Rightarrow> phase \<Rightarrow> cache_state \<Rightarrow> cache_state" where
  "set_phase i p st = st\<lparr>cs_tasks := (cs_tasks st)[i := (cs_tasks st ! i)\<lparr>t_phase := p\<rparr>]\<rparr>"

definition drop_task :: "nat \<Rightarrow> cache_state \<Rightarrow> cache_state" where
  "drop_task i st = st\<lparr>cs_tasks := take i (cs_tasks st) @ drop (Suc i) (cs_tasks st)\<rparr>"

definition background :: "(string \<Rightarrow> string) \<Rightarrow> event \<Rightarrow> cache_state \<Rightarrow> cache_state" where
  "background H ev st =
     (let tasks = cs_tasks st in
      case ev of
        Evict k \<Rightarrow> remove_entry k st
      | StartWrite i \<Rightarrow>
          if i < length tasks \<and> t_phase (tasks ! i) = New then
            (let f = as_filename H (t_key (tasks ! i)) in
             if cs_files st f \<noteq> None then set_phase i Written st
             else set_phase i Writing (st\<lparr>cs_files := (cs_files st)(f \<mapsto> [])\<rparr>))
          else st
      | EndWrite i \<Rightarrow>
          if i < length tasks \<and> t_phase (tasks ! i) = Writing then
            (let f = as_filename H (t_key (tasks ! i)) in
             set_phase i Written
               (if cs_files st f \<noteq> None then st\<lparr>cs_files := (cs_files st)(f \<mapsto> t_data (tasks ! i))\<rparr> else st))
          else st
      | Publish i \<Rightarrow>
          if i < length tasks \<and> t_phase (tasks ! i) = Written then
            (let t = tasks ! i in
             drop_task i (insert_entry (t_key t) (File (as_filename H (t_key t)) (length (t_data t))) st))
          else st
      | FailWrite i \<Rightarrow>
          if i < length tasks \<and> t_phase (tasks ! i) \<noteq> Written
          then drop_task i (remove_entry (t_key (tasks ! i)) st)
          else st)"

definition run_background :: "(string \<Rightarrow> string) \<Rightarrow> event list \<Rightarrow> cache_state \<Rightarrow> cache_state" where
  "run_background H evs st = fold (background H) evs st"


subsection \<open>Reading\<close>

text \<open>
  \<open>S p a b\<close> is \<open>inner.get_range\<close>. What the background does while a read is suspended may depend on the
  state; a turn gives what it does before the cache is looked up for a chunk, between the lookup and the
  read of the file, and while a batch is fetched.
\<close>

type_synonym store = "string \<Rightarrow> nat \<Rightarrow> nat \<Rightarrow> (string, bytes) result"
type_synonym scheduler = "cache_state \<Rightarrow> event list"

record turn =
  before :: scheduler
  between :: scheduler
  during :: scheduler

definition idle :: turn where
  "idle = \<lparr>before = (\<lambda>_. []), between = (\<lambda>_. []), during = (\<lambda>_. [])\<rparr>"

definition await :: "(string \<Rightarrow> string) \<Rightarrow> scheduler \<Rightarrow> cache_state \<Rightarrow> cache_state" where
  "await H evs st = run_background H (evs st) st"

definition get_range_inner :: "store \<Rightarrow> string \<Rightarrow> nat \<Rightarrow> nat \<Rightarrow> (cache_error, bytes) result" where
  "get_range_inner S loc a b = map_err StoreError (S loc a b)"

definition chunk_key :: "nat \<Rightarrow> string \<Rightarrow> nat \<Rightarrow> CacheKey" where
  "chunk_key mfs loc chunk = \<lparr>k_path = loc, k_start = chunk * mfs, k_end = (chunk + 1) * mfs\<rparr>"

text \<open>What the cache gives for a key; a file that cannot be read is fetched and cached again.\<close>

definition lookup_chunk ::
    "store \<Rightarrow> (string \<Rightarrow> string) \<Rightarrow> CacheKey \<Rightarrow> turn \<Rightarrow> (cache_state, cache_error, bytes option) st" where
  "lookup_chunk S H key t st =
     (case cs_cache st key of
        None \<Rightarrow> (Inr None, st)
      | Some (Memory data) \<Rightarrow> (Inr (Some data), st)
      | Some (File f _) \<Rightarrow>
          let st' = await H (between t) st in
          (case cs_files st' f of
             Some data \<Rightarrow> (Inr (Some data), st')
           | None \<Rightarrow>
               (case get_range_inner S (k_path key) (k_start key) (k_end key) of
                  Inl e \<Rightarrow> (Inl e, st')
                | Inr data \<Rightarrow> (Inr (Some data), cache_chunk_data key data st'))))"

text \<open>Splitting a fetched batch: less than a chunk is not consumed.\<close>

fun cache_batch :: "nat \<Rightarrow> CacheKey list \<Rightarrow> bytes \<Rightarrow> cache_state \<Rightarrow> cache_state" where
  "cache_batch mfs [] batch_data st = st"
| "cache_batch mfs (key # keys) batch_data st =
     (if length batch_data < mfs
      then cache_batch mfs keys batch_data (cache_chunk_data key batch_data st)
      else cache_batch mfs keys (drop mfs batch_data) (cache_chunk_data key (take mfs batch_data) st))"

definition fetch_batch ::
    "store \<Rightarrow> (string \<Rightarrow> string) \<Rightarrow> nat \<Rightarrow> string \<Rightarrow> CacheKey list \<Rightarrow> turn \<Rightarrow> (cache_state, cache_error, bytes) st" where
  "fetch_batch S H mfs loc batch t st =
     (let st' = await H (during t) st in
      case get_range_inner S loc (k_start (hd batch)) (k_end (last batch)) of
        Inl e \<Rightarrow> (Inl e, st')
      | Inr batch_data \<Rightarrow> (Inr batch_data, cache_batch mfs batch batch_data st'))"

definition or_empty :: "bytes option \<Rightarrow> bytes" where
  "or_empty d = (case d of None \<Rightarrow> [] | Some x \<Rightarrow> x)"

fun chunk_loop ::
    "store \<Rightarrow> (string \<Rightarrow> string) \<Rightarrow> nat \<Rightarrow> string \<Rightarrow> nat \<Rightarrow> nat list \<Rightarrow> (nat \<Rightarrow> turn) \<Rightarrow> CacheKey list \<Rightarrow> bytes \<Rightarrow>
     (cache_state, cache_error, bytes) st" where
  "chunk_loop S H mfs loc end_chunk [] sched batch res st = (Inr res, st)"
| "chunk_loop S H mfs loc end_chunk (chunk # chunks) sched batch res st =
     (let key = chunk_key mfs loc chunk; t = sched chunk in
      case lookup_chunk S H key t (await H (before t) st) of
        (Inl e, st1) \<Rightarrow> (Inl e, st1)
      | (Inr chunk_data, st1) \<Rightarrow>
          let batch' = (if chunk_data = None then batch @ [key] else batch) in
          if (chunk_data \<noteq> None \<or> chunk = end_chunk) \<and> batch' \<noteq> [] then
            (case fetch_batch S H mfs loc batch' t st1 of
               (Inl e, st2) \<Rightarrow> (Inl e, st2)
             | (Inr batch_data, st2) \<Rightarrow>
                 chunk_loop S H mfs loc end_chunk chunks sched [] (res @ batch_data @ or_empty chunk_data) st2)
          else chunk_loop S H mfs loc end_chunk chunks sched batch' (res @ or_empty chunk_data) st1)"

definition get_chunk_range ::
    "store \<Rightarrow> (string \<Rightarrow> string) \<Rightarrow> nat \<Rightarrow> string \<Rightarrow> nat \<Rightarrow> nat \<Rightarrow> (nat \<Rightarrow> turn) \<Rightarrow> (cache_state, cache_error, bytes) st" where
  "get_chunk_range S H mfs loc start_chunk end_chunk sched st =
     chunk_loop S H mfs loc end_chunk [start_chunk..<Suc end_chunk] sched [] [] st"

text \<open>Integer subtractions that underflow, a division by zero and an advance beyond the end are panics.\<close>

definition get_range ::
    "store \<Rightarrow> (string \<Rightarrow> string) \<Rightarrow> nat \<Rightarrow> string \<Rightarrow> nat \<Rightarrow> nat \<Rightarrow> (nat \<Rightarrow> turn) \<Rightarrow> (cache_state, cache_error, bytes) st" where
  "get_range S H mfs loc start stop sched st =
     (if stop < start then (Inl (CachePanic ''attempt to subtract with overflow''), st)
      else if mfs = 0 then (Inl (CachePanic ''attempt to divide by zero''), st)
      else if stop = 0 then (Inl (CachePanic ''attempt to subtract with overflow''), st)
      else
        let start_chunk = start div mfs; end_chunk = (stop - 1) div mfs in
        case get_chunk_range S H mfs loc start_chunk end_chunk sched st of
          (Inl e, st') \<Rightarrow> (Inl e, st')
        | (Inr data, st') \<Rightarrow>
            let offset = start - start_chunk * mfs in
            if offset > length data then (Inl (CachePanic ''cannot advance past the end''), st')
            else (Inr (take (stop - start) (drop offset data)), st'))"


subsection \<open>Orderly background work\<close>

text \<open>
  For the cache to be right, a write must not fail half way, a task must not start to write a file the
  cache already points to, a file must not be published while another task writes it, and a file
  must not be written between its lookup and its read. Everything else may happen: evictions at any
  time, tasks in any order, several tasks for one key, writes that fail before they create the file.
\<close>

definition writing :: "cache_state \<Rightarrow> CacheKey \<Rightarrow> bool" where
  "writing st k \<longleftrightarrow> (\<exists>t\<in>set (cs_tasks st). t_key t = k \<and> t_phase t = Writing)"

definition on_disk :: "cache_state \<Rightarrow> CacheKey \<Rightarrow> bool" where
  "on_disk st k \<longleftrightarrow> (case cs_cache st k of Some (File _ _) \<Rightarrow> True | _ \<Rightarrow> False)"

definition orderly_event :: "event \<Rightarrow> cache_state \<Rightarrow> bool" where
  "orderly_event ev st \<longleftrightarrow>
     (let tasks = cs_tasks st in
      case ev of
        FailWrite i \<Rightarrow> i < length tasks \<longrightarrow> t_phase (tasks ! i) \<noteq> Writing
      | StartWrite i \<Rightarrow> i < length tasks \<longrightarrow> \<not> on_disk st (t_key (tasks ! i))
      | Publish i \<Rightarrow> i < length tasks \<longrightarrow> \<not> writing st (t_key (tasks ! i))
      | _ \<Rightarrow> True)"

fun orderly_run :: "(string \<Rightarrow> string) \<Rightarrow> event list \<Rightarrow> cache_state \<Rightarrow> bool" where
  "orderly_run H [] st = True"
| "orderly_run H (ev # evs) st = (orderly_event ev st \<and> orderly_run H evs (background H ev st))"

definition orderly :: "(string \<Rightarrow> string) \<Rightarrow> scheduler \<Rightarrow> bool" where
  "orderly H evs \<longleftrightarrow> (\<forall>st. orderly_run H (evs st) st)"

definition orderly_turn :: "(string \<Rightarrow> string) \<Rightarrow> CacheKey \<Rightarrow> turn \<Rightarrow> bool" where
  "orderly_turn H key t \<longleftrightarrow>
     orderly H (before t) \<and> orderly H (during t) \<and> orderly H (between t) \<and>
     (\<forall>st. \<not> writing st key \<longrightarrow> \<not> writing (await H (between t) st) key)"

text \<open>Bytes \<open>a\<close> to \<open>b\<close> of an object, as far as it goes, and what a store promises for a range that starts within it.\<close>

definition byte_slice :: "bytes \<Rightarrow> nat \<Rightarrow> nat \<Rightarrow> bytes" where
  "byte_slice d a b = take (b - a) (drop a d)"

locale range_store =
  fixes S :: store and objects :: "string \<Rightarrow> bytes"
  assumes range_read: "a < b \<Longrightarrow> a < length (objects p) \<Longrightarrow> S p a b = Inr d \<Longrightarrow> d = byte_slice (objects p) a b"

definition content :: "(string \<Rightarrow> bytes) \<Rightarrow> CacheKey \<Rightarrow> bytes" where
  "content objects k = byte_slice (objects (k_path k)) (k_start k) (k_end k)"

text \<open>
  Every byte the cache holds is a byte of an object, files are complete unless they are being written, and
  the cache does not point to a file that is being written.
\<close>

definition cache_valid :: "(string \<Rightarrow> bytes) \<Rightarrow> (string \<Rightarrow> string) \<Rightarrow> cache_state \<Rightarrow> bool" where
  "cache_valid objects H st \<longleftrightarrow>
     (\<forall>k d. cs_cache st k = Some (Memory d) \<longrightarrow> d = content objects k) \<and>
     (\<forall>k f n. cs_cache st k = Some (File f n) \<longrightarrow> f = as_filename H k \<and> \<not> writing st k) \<and>
     (\<forall>t\<in>set (cs_tasks st). t_data t = content objects (t_key t)) \<and>
     (\<forall>k d. cs_files st (as_filename H k) = Some d \<longrightarrow> d = content objects k \<or> writing st k)"

lemma as_filename_inj: "inj H \<Longrightarrow> as_filename H k = as_filename H k' \<longleftrightarrow> k = k'"
  by (auto simp: as_filename_def inj_eq intro: CacheKey.equality)

lemma set_drop_task: "set (cs_tasks (drop_task i st)) \<subseteq> set (cs_tasks st)"
  by (auto simp: drop_task_def dest: in_set_takeD in_set_dropD)

lemma writing_drop_task:
  assumes "i < length (cs_tasks st)" and "t_phase (cs_tasks st ! i) \<noteq> Writing"
  shows "writing (drop_task i st) k \<longleftrightarrow> writing st k"
proof -
  have "cs_tasks st = take i (cs_tasks st) @ (cs_tasks st ! i) # drop (Suc i) (cs_tasks st)"
    using assms(1) by (rule id_take_nth_drop)
  then have "set (cs_tasks st) = insert (cs_tasks st ! i) (set (cs_tasks (drop_task i st)))"
    by (metis (no_types, lifting) drop_task_def Un_insert_right cache_state.select_convs(3)
        cache_state.surjective cache_state.update_convs(3) list.simps(15) set_append)
  with assms(2) show ?thesis by (auto simp: writing_def)
qed

lemma cache_valid_file:
  assumes "cache_valid objects H st" and "cs_cache st k = Some (File f n)"
  shows "f = as_filename H k \<and> \<not> writing st k"
  using assms unfolding cache_valid_def by blast

lemma cache_valid_disk:
  assumes "cache_valid objects H st" and "cs_files st (as_filename H k) = Some d"
  shows "d = content objects k \<or> writing st k"
  using assms unfolding cache_valid_def by blast

lemma cache_valid_empty: "cache_valid objects H empty_cache"
  by (simp add: cache_valid_def empty_cache_def)

lemma cache_valid_chunk_data:
  assumes "cache_valid objects H st" and "data = content objects k"
  shows "cache_valid objects H (cache_chunk_data k data st)"
  using assms by (auto simp: cache_valid_def cache_chunk_data_def writing_def)

lemma cache_valid_remove:
  assumes "cache_valid objects H st"
  shows "cache_valid objects H (remove_entry k st)"
  using assms
  by (auto simp: cache_valid_def remove_entry_def on_evict_def writing_def split: option.splits CacheValue.splits)

lemma cache_valid_publish:
  assumes "cache_valid objects H st" and "\<not> writing st k"
  shows "cache_valid objects H (insert_entry k (File (as_filename H k) n) st)"
  using assms
  by (auto simp: cache_valid_def insert_entry_def on_evict_def writing_def split: option.splits CacheValue.splits)

lemma writing_remove: "writing (remove_entry k st) = writing st"
  by (rule ext) (auto simp: writing_def remove_entry_def on_evict_def split: option.splits CacheValue.splits)

lemma tasks_remove: "cs_tasks (remove_entry k st) = cs_tasks st"
  by (auto simp: remove_entry_def on_evict_def split: option.splits CacheValue.splits)

lemma tasks_insert: "cs_tasks (insert_entry k v st) = cs_tasks st"
  by (auto simp: insert_entry_def on_evict_def split: option.splits CacheValue.splits)

lemma cache_valid_drop_task:
  assumes "cache_valid objects H st" and "i < length (cs_tasks st)" and "t_phase (cs_tasks st ! i) \<noteq> Writing"
  shows "cache_valid objects H (drop_task i st)"
  using assms(1) writing_drop_task [OF assms(2,3)] set_drop_task [of i st]
  by (auto simp: cache_valid_def drop_task_def)

lemma set_phase_tasks:
  assumes "i < length (cs_tasks st)"
  shows "set (cs_tasks (set_phase i p st)) \<subseteq> insert ((cs_tasks st ! i)\<lparr>t_phase := p\<rparr>) (set (cs_tasks st))"
    and "t \<in> set (cs_tasks st) \<Longrightarrow> t = cs_tasks st ! i \<or> t \<in> set (cs_tasks (set_phase i p st))"
    and "(cs_tasks st ! i)\<lparr>t_phase := p\<rparr> \<in> set (cs_tasks (set_phase i p st))"
proof -
  show "set (cs_tasks (set_phase i p st)) \<subseteq> insert ((cs_tasks st ! i)\<lparr>t_phase := p\<rparr>) (set (cs_tasks st))"
    by (simp add: set_phase_def set_update_subset_insert)
  show "(cs_tasks st ! i)\<lparr>t_phase := p\<rparr> \<in> set (cs_tasks (set_phase i p st))"
    using assms by (simp add: set_phase_def set_update_memI)
  assume "t \<in> set (cs_tasks st)"
  then obtain j where "j < length (cs_tasks st)" and "t = cs_tasks st ! j"
    by (auto simp: in_set_conv_nth)
  then show "t = cs_tasks st ! i \<or> t \<in> set (cs_tasks (set_phase i p st))"
    by (cases "j = i") (auto simp: set_phase_def in_set_conv_nth intro: exI [of _ j])
qed

lemma set_phase_same [simp]:
  "cs_cache (set_phase i p st) = cs_cache st" "cs_files (set_phase i p st) = cs_files st"
  by (simp_all add: set_phase_def)

lemma writing_set_phase_new:
  assumes "i < length (cs_tasks st)" and "t_phase (cs_tasks st ! i) \<noteq> Writing"
  shows "writing (set_phase i p st) k \<longleftrightarrow> writing st k \<or> (p = Writing \<and> k = t_key (cs_tasks st ! i))"
proof
  assume "writing (set_phase i p st) k"
  then obtain t where "t \<in> set (cs_tasks (set_phase i p st))" and t: "t_key t = k" "t_phase t = Writing"
    by (auto simp: writing_def)
  then have "t = (cs_tasks st ! i)\<lparr>t_phase := p\<rparr> \<or> t \<in> set (cs_tasks st)"
    using set_phase_tasks(1) [OF assms(1), where p = p] by blast
  then show "writing st k \<or> (p = Writing \<and> k = t_key (cs_tasks st ! i))"
    using t by (auto simp: writing_def)
next
  assume "writing st k \<or> (p = Writing \<and> k = t_key (cs_tasks st ! i))"
  then show "writing (set_phase i p st) k"
  proof
    assume "writing st k"
    then obtain t where t: "t \<in> set (cs_tasks st)" "t_key t = k" "t_phase t = Writing"
      by (auto simp: writing_def)
    then have "t \<in> set (cs_tasks (set_phase i p st))"
      using set_phase_tasks(2) [OF assms(1), where p = p and t = t] assms(2) by auto
    with t show ?thesis by (auto simp: writing_def)
  next
    assume "p = Writing \<and> k = t_key (cs_tasks st ! i)"
    then show ?thesis using set_phase_tasks(3) [OF assms(1), where p = p]
      by (auto simp: writing_def intro!: bexI [of _ "(cs_tasks st ! i)\<lparr>t_phase := p\<rparr>"])
  qed
qed

lemma writing_set_phase_done:
  assumes "i < length (cs_tasks st)"
  shows "writing (set_phase i Written st) k \<Longrightarrow> writing st k"
    and "writing st k \<Longrightarrow> k \<noteq> t_key (cs_tasks st ! i) \<Longrightarrow> writing (set_phase i Written st) k"
  using set_phase_tasks [OF assms, where p = Written] unfolding writing_def by fastforce+

lemma task_data_set_phase:
  assumes "i < length (cs_tasks st)" and "\<forall>t\<in>set (cs_tasks st). t_data t = content objects (t_key t)"
  shows "\<forall>t\<in>set (cs_tasks (set_phase i p st)). t_data t = content objects (t_key t)"
  using set_phase_tasks(1) [OF assms(1), where p = p] assms by fastforce

lemma cache_valid_skip_write:
  assumes "cache_valid objects H st" and "i < length (cs_tasks st)" and "t_phase (cs_tasks st ! i) = New"
  shows "cache_valid objects H (set_phase i Written st)"
  using assms(1) writing_set_phase_new [of i st Written] task_data_set_phase [OF assms(2)] assms(2,3)
  by (simp add: cache_valid_def)

lemma cache_valid_start_write:
  assumes "inj H" and "cache_valid objects H st" and "i < length (cs_tasks st)" and "t_phase (cs_tasks st ! i) = New"
    and "\<not> on_disk st (t_key (cs_tasks st ! i))"
  shows "cache_valid objects H
           (set_phase i Writing (st\<lparr>cs_files := (cs_files st)(as_filename H (t_key (cs_tasks st ! i)) \<mapsto> [])\<rparr>))"
proof -
  let ?k = "t_key (cs_tasks st ! i)"
  let ?st = "st\<lparr>cs_files := (cs_files st)(as_filename H ?k \<mapsto> [])\<rparr>"
  have w: "writing (set_phase i Writing ?st) k \<longleftrightarrow> writing st k \<or> k = ?k" for k
    using writing_set_phase_new [of i ?st Writing k] assms(3,4) by (simp add: writing_def)
  let ?st' = "set_phase i Writing ?st"
  have c': "cs_cache ?st' = cs_cache st" and f': "cs_files ?st' = cs_files ?st" by simp_all
  have mem: "\<forall>k d. cs_cache st k = Some (Memory d) \<longrightarrow> d = content objects k"
    using assms(2) unfolding cache_valid_def by (elim conjE)
  have disk: "\<forall>k f n. cs_cache st k = Some (File f n) \<longrightarrow> f = as_filename H k \<and> \<not> writing ?st' k"
  proof (intro allI impI)
    fix k f n
    assume k: "cs_cache st k = Some (File f n)"
    then have "k \<noteq> ?k" using assms(5) by (auto simp: on_disk_def)
    then show "f = as_filename H k \<and> \<not> writing ?st' k" using cache_valid_file [OF assms(2) k] w by simp
  qed
  have tasks: "\<forall>t\<in>set (cs_tasks ?st'). t_data t = content objects (t_key t)"
    using task_data_set_phase [of i ?st objects Writing] assms(2,3) by (simp add: cache_valid_def)
  have files: "\<forall>k d. cs_files ?st (as_filename H k) = Some d \<longrightarrow> d = content objects k \<or> writing ?st' k"
  proof (intro allI impI)
    fix k d
    assume d: "cs_files ?st (as_filename H k) = Some d"
    show "d = content objects k \<or> writing ?st' k"
    proof (cases "k = ?k")
      case False
      then have "cs_files st (as_filename H k) = Some d" using d as_filename_inj [OF assms(1)] by simp
      then show ?thesis using cache_valid_disk [OF assms(2)] w by blast
    qed (simp add: w)
  qed
  show ?thesis
    unfolding cache_valid_def c' f' using mem disk tasks files by (intro conjI)
qed

lemma cache_valid_end_write:
  assumes "inj H" and "cache_valid objects H st" and "i < length (cs_tasks st)" and "t_phase (cs_tasks st ! i) = Writing"
  shows "cache_valid objects H (set_phase i Written
           (if cs_files st (as_filename H (t_key (cs_tasks st ! i))) \<noteq> None
            then st\<lparr>cs_files := (cs_files st)(as_filename H (t_key (cs_tasks st ! i)) \<mapsto> t_data (cs_tasks st ! i))\<rparr>
            else st))" (is "cache_valid _ _ (set_phase i Written ?st)")
proof -
  let ?k = "t_key (cs_tasks st ! i)"
  have t: "cs_tasks ?st = cs_tasks st" and c: "cs_cache ?st = cs_cache st" by auto
  have i: "i < length (cs_tasks ?st)" using assms(3) t by simp
  have w1: "writing (set_phase i Written ?st) k \<Longrightarrow> writing st k" for k
    using writing_set_phase_done(1) [OF i] t by (simp add: writing_def)
  have w2: "writing st k \<Longrightarrow> k \<noteq> ?k \<Longrightarrow> writing (set_phase i Written ?st) k" for k
    using writing_set_phase_done(2) [OF i] t by (simp add: writing_def)
  have d: "t_data (cs_tasks st ! i) = content objects ?k"
    using assms(2,3) by (auto simp: cache_valid_def)
  have files: "d' = content objects k \<or> writing (set_phase i Written ?st) k"
    if "cs_files ?st (as_filename H k) = Some d'" for k d'
  proof (cases "k = ?k")
    case True
    then show ?thesis using that d by (auto split: if_splits)
  next
    case False
    then have "cs_files st (as_filename H k) = Some d'"
      using that as_filename_inj [OF assms(1)] by (auto split: if_splits)
    then show ?thesis using cache_valid_disk [OF assms(2)] w2 False by blast
  qed
  have tasks: "\<forall>t\<in>set (cs_tasks (set_phase i Written ?st)). t_data t = content objects (t_key t)"
  proof (rule task_data_set_phase [OF i])
    show "\<forall>t\<in>set (cs_tasks ?st). t_data t = content objects (t_key t)"
      unfolding t using assms(2) unfolding cache_valid_def by (elim conjE)
  qed
  let ?st' = "set_phase i Written ?st"
  have c': "cs_cache ?st' = cs_cache st" using c by (simp only: set_phase_same)
  have f': "cs_files ?st' = cs_files ?st" by (simp only: set_phase_same)
  have mem: "\<forall>k d. cs_cache st k = Some (Memory d) \<longrightarrow> d = content objects k"
    using assms(2) unfolding cache_valid_def by (elim conjE)
  have disk: "\<forall>k f n. cs_cache st k = Some (File f n) \<longrightarrow> f = as_filename H k \<and> \<not> writing st k"
    using assms(2) unfolding cache_valid_def by (elim conjE)
  have disk': "\<forall>k f n. cs_cache st k = Some (File f n) \<longrightarrow> f = as_filename H k \<and> \<not> writing ?st' k"
    using disk w1 by metis
  have files': "\<forall>k d. cs_files ?st (as_filename H k) = Some d \<longrightarrow> d = content objects k \<or> writing ?st' k"
    using files by blast
  show ?thesis
    unfolding cache_valid_def c' f' using mem disk' tasks files' by (intro conjI)
qed

lemma cache_valid_background:
  assumes "inj H" and "cache_valid objects H st" and "orderly_event ev st"
  shows "cache_valid objects H (background H ev st)"
proof (cases ev)
  case (Evict k)
  then show ?thesis using assms(2) by (simp add: background_def cache_valid_remove)
next
  case (StartWrite i)
  then show ?thesis
    using assms cache_valid_skip_write [OF assms(2), of i] cache_valid_start_write [OF assms(1,2), of i]
    by (simp add: background_def orderly_event_def Let_def)
next
  case (EndWrite i)
  then show ?thesis
    using assms cache_valid_end_write [OF assms(1,2), of i] by (simp add: background_def Let_def)
next
  case (Publish i)
  then show ?thesis
    using assms cache_valid_publish [OF assms(2)]
    by (auto simp: background_def orderly_event_def Let_def tasks_insert intro!: cache_valid_drop_task)
next
  case (FailWrite i)
  then show ?thesis
    using assms cache_valid_remove [OF assms(2)]
    by (auto simp: background_def orderly_event_def Let_def tasks_remove intro!: cache_valid_drop_task)
qed

lemma cache_valid_run:
  assumes "inj H" and "cache_valid objects H st" and "orderly_run H evs st"
  shows "cache_valid objects H (run_background H evs st)"
  using assms(2,3)
  by (induction evs arbitrary: st) (auto simp: run_background_def cache_valid_background [OF assms(1)])

lemma cache_valid_await:
  assumes "inj H" and "cache_valid objects H st" and "orderly H evs"
  shows "cache_valid objects H (await H evs st)"
  using assms cache_valid_run unfolding await_def orderly_def by blast


subsection \<open>Reads return the bytes of the object\<close>

lemma slice_append: "a \<le> b \<Longrightarrow> b \<le> c \<Longrightarrow> byte_slice d a b @ byte_slice d b c = byte_slice d a c"
proof -
  assume "a \<le> b" and "b \<le> c"
  then have "take (c - a) (drop a d) = take (b - a) (drop a d) @ take (c - b) (drop (b - a) (drop a d))"
    using take_add [of "b - a" "c - b" "drop a d"] by simp
  with \<open>a \<le> b\<close> show ?thesis by (simp add: byte_slice_def)
qed

lemma length_slice: "length (byte_slice d a b) = min (b - a) (length d - a)"
  by (simp add: byte_slice_def min.commute)

lemma take_slice: "a + n \<le> b \<Longrightarrow> take n (byte_slice d a b) = byte_slice d a (a + n)"
  by (simp add: byte_slice_def min_def)

lemma drop_slice: "drop n (byte_slice d a b) = byte_slice d (a + n) b"
  by (simp add: byte_slice_def drop_take add.commute)

lemma slice_Nil [simp]: "byte_slice d a a = []"
  by (simp add: byte_slice_def)

lemma content_chunk_key:
  "content objects (chunk_key mfs loc c) = byte_slice (objects loc) (c * mfs) (Suc c * mfs)"
  by (simp add: content_def chunk_key_def)

lemma chunk_key_simps [simp]:
  "k_path (chunk_key mfs loc c) = loc" "k_start (chunk_key mfs loc c) = c * mfs"
  "k_end (chunk_key mfs loc c) = Suc c * mfs"
  by (simp_all add: chunk_key_def)

text \<open>A batch of consecutive chunks whose last one starts within the object is split into the right pieces.\<close>

lemma cache_batch_valid:
  assumes "cache_valid objects H st" and "0 < mfs" and "a \<le> b" and "b * mfs < length (objects loc)"
    and "data = byte_slice (objects loc) (a * mfs) (Suc b * mfs)"
  shows "cache_valid objects H (cache_batch mfs (map (chunk_key mfs loc) [a..<Suc b]) data st)"
  using assms
proof (induction "b - a" arbitrary: a data st)
  case 0
  then have ab: "a = b" by simp
  have len: "length data \<le> mfs" using 0 ab by (simp add: length_slice)
  have "data = content objects (chunk_key mfs loc b)" using 0 ab by (simp add: content_chunk_key)
  then show ?case using 0 ab len by (auto intro: cache_valid_chunk_data)
next
  case (Suc n)
  then have ab: "a < b" by simp
  have "Suc a * mfs \<le> b * mfs" using ab by (simp only: mult_le_mono1 Suc_leI)
  then have "mfs \<le> Suc b * mfs - a * mfs \<and> mfs \<le> length (objects loc) - a * mfs"
    using Suc.prems(4) unfolding mult_Suc by arith
  then have len: "mfs \<le> length data" using Suc.prems(5) by (simp add: length_slice)
  have upt: "[a..<Suc b] = a # [Suc a..<Suc b]" using ab by (simp add: upt_conv_Cons)
  have tk: "take mfs data = content objects (chunk_key mfs loc a)"
    using Suc.prems ab by (simp add: take_slice content_chunk_key add.commute)
  have dr: "drop mfs data = byte_slice (objects loc) (Suc a * mfs) (Suc b * mfs)"
    using Suc.prems by (simp add: drop_slice add.commute)
  show ?case
    unfolding upt using Suc.hyps(1) [OF _ cache_valid_chunk_data [OF Suc.prems(1) tk] Suc.prems(2) _ Suc.prems(4) dr]
      Suc.hyps(2) ab len by simp
qed


context range_store
begin

text \<open>What every read guarantees: an error is one of the store, and the cache stays valid.\<close>

definition sound_read :: "(string \<Rightarrow> string) \<Rightarrow> ('a \<Rightarrow> bool) \<Rightarrow> (cache_error, 'a) result \<Rightarrow> cache_state \<Rightarrow> bool" where
  "sound_read H Q r st \<longleftrightarrow> cache_valid objects H st \<and> (case r of Inl e \<Rightarrow> (\<exists>m. e = StoreError m) | Inr x \<Rightarrow> Q x)"

lemma inner_read:
  assumes "a < b" and "a < length (objects loc)" and "get_range_inner S loc a b = Inr d"
  shows "d = byte_slice (objects loc) a b"
  using assms range_read by (auto simp: get_range_inner_def res_simps)

lemma inner_error: "get_range_inner S loc a b = Inl e \<Longrightarrow> \<exists>m. e = StoreError m"
  by (auto simp: get_range_inner_def res_simps)

lemma lookup_chunk_sound:
  assumes "inj H" and "0 < mfs" and "chunk * mfs < length (objects loc)"
    and "orderly_turn H (chunk_key mfs loc chunk) t" and "cache_valid objects H st"
    and "lookup_chunk S H (chunk_key mfs loc chunk) t st = (r, st')"
  shows "sound_read H (\<lambda>d. d = None \<or> d = Some (byte_slice (objects loc) (chunk * mfs) (Suc chunk * mfs))) r st'"
proof (cases "cs_cache st (chunk_key mfs loc chunk)")
  case None
  then show ?thesis using assms(5,6) by (auto simp: lookup_chunk_def sound_read_def)
next
  case (Some v)
  let ?key = "chunk_key mfs loc chunk"
  show ?thesis
  proof (cases v)
    case (Memory d)
    with Some assms(5) have "d = content objects ?key" by (simp add: cache_valid_def)
    with Memory Some assms(5,6) show ?thesis
      by (auto simp: lookup_chunk_def sound_read_def content_chunk_key)
  next
    case (File f n)
    let ?st = "await H (between t) st"
    have v: "cache_valid objects H ?st"
      using cache_valid_await [OF assms(1,5)] assms(4) by (simp add: orderly_turn_def)
    have f: "f = as_filename H ?key" and nw: "\<not> writing ?st ?key"
      using cache_valid_file [OF assms(5)] Some File assms(4) unfolding orderly_turn_def by blast+
    show ?thesis
    proof (cases "cs_files ?st f")
      case (Some d)
      with v f nw have "d = content objects ?key" by (auto simp: cache_valid_def)
      with Some \<open>cs_cache st ?key = Some v\<close> File assms(6) v show ?thesis
        by (auto simp: lookup_chunk_def Let_def sound_read_def content_chunk_key)
    next
      case None
      have range: "chunk * mfs < Suc chunk * mfs" using assms(2) by simp
      show ?thesis
      proof (cases "get_range_inner S loc (chunk * mfs) (Suc chunk * mfs)")
        case (Inl e)
        with None \<open>cs_cache st ?key = Some v\<close> File assms(6) v inner_error [OF Inl] show ?thesis
          by (auto simp: lookup_chunk_def Let_def sound_read_def)
      next
        case (Inr d)
        have d: "d = content objects ?key"
          using inner_read [OF range assms(3) Inr] by (simp add: content_chunk_key)
        with None Inr \<open>cs_cache st ?key = Some v\<close> File assms(6) cache_valid_chunk_data [OF v d] show ?thesis
          by (auto simp: lookup_chunk_def Let_def sound_read_def content_chunk_key)
      qed
    qed
  qed
qed

lemma fetch_batch_sound:
  assumes "inj H" and "0 < mfs" and "a \<le> b" and "b * mfs < length (objects loc)"
    and "orderly H (during t)" and "cache_valid objects H st"
    and "fetch_batch S H mfs loc (map (chunk_key mfs loc) [a..<Suc b]) t st = (r, st')"
  shows "sound_read H (\<lambda>d. d = byte_slice (objects loc) (a * mfs) (Suc b * mfs)) r st'"
proof -
  let ?st = "await H (during t) st"
  have v: "cache_valid objects H ?st" using cache_valid_await [OF assms(1,6,5)] .
  have hd: "k_start (hd (map (chunk_key mfs loc) [a..<Suc b])) = a * mfs"
    using assms(3) by (simp add: hd_map upt_conv_Cons del: upt_Suc)
  have last: "k_end (last (map (chunk_key mfs loc) [a..<Suc b])) = Suc b * mfs"
    using assms(3) by simp
  have "a * mfs \<le> b * mfs" using assms(3) by (rule mult_le_mono1)
  then have ab: "a * mfs < Suc b * mfs" and a: "a * mfs < length (objects loc)"
    using assms(2,4) unfolding mult_Suc by linarith+
  show ?thesis
  proof (cases "get_range_inner S loc (a * mfs) (Suc b * mfs)")
    case (Inl e)
    have "r = Inl e" and "st' = ?st"
      using assms(7) unfolding fetch_batch_def hd last Let_def Inl by simp_all
    then show ?thesis using v inner_error [OF Inl] by (simp add: sound_read_def)
  next
    case (Inr d)
    have d: "d = byte_slice (objects loc) (a * mfs) (Suc b * mfs)"
      using inner_read [OF ab a Inr] .
    have "r = Inr d" and "st' = cache_batch mfs (map (chunk_key mfs loc) [a..<Suc b]) d ?st"
      using assms(7) unfolding fetch_batch_def hd last Let_def Inr by simp_all
    then show ?thesis using cache_batch_valid [OF v assms(2-4) d] d by (simp add: sound_read_def)
  qed
qed

text \<open>
  The loop over the chunks: what was appended reaches up to the first chunk \<open>b\<close> of the pending batch, the batch
  goes on up to the current chunk \<open>c\<close>.
\<close>

lemma chunk_loop_sound:
  assumes "inj H" and "0 < mfs" and "e * mfs < length (objects loc)"
    and "\<And>chunk. orderly_turn H (chunk_key mfs loc chunk) (sched chunk)"
    and "cache_valid objects H st" and "s \<le> b" and "b \<le> c" and "c \<le> Suc e" and "c = Suc e \<Longrightarrow> b = c"
    and "chunk_loop S H mfs loc e [c..<Suc e] sched (map (chunk_key mfs loc) [b..<c])
           (byte_slice (objects loc) (s * mfs) (b * mfs)) st = (r, st')"
  shows "sound_read H (\<lambda>d. d = byte_slice (objects loc) (s * mfs) (Suc e * mfs)) r st'"
  using assms(5-)
proof (induction "Suc e - c" arbitrary: b c st)
  case 0
  then show ?case by (auto simp: sound_read_def)
next
  case (Suc n)
  let ?key = "chunk_key mfs loc c" and ?O = "objects loc"
  have ce: "c \<le> e" using Suc.hyps(2) by simp
  then have upt: "[c..<Suc e] = c # [Suc c..<Suc e]" by (simp add: upt_conv_Cons)
  have cm: "c * mfs \<le> e * mfs" using ce by (rule mult_le_mono1)
  then have cl: "c * mfs < length ?O" using assms(3) by linarith
  have bc: "b * mfs \<le> c * mfs" using Suc.prems(3) by (rule mult_le_mono1)
  have sb: "s * mfs \<le> b * mfs" using Suc.prems(2) by (rule mult_le_mono1)
  have t: "orderly H (before (sched c))" "orderly H (during (sched c))"
    using assms(4) [of c] by (simp_all add: orderly_turn_def)
  obtain r1 st1 where look: "lookup_chunk S H ?key (sched c) (await H (before (sched c)) st) = (r1, st1)"
    by (cases "lookup_chunk S H ?key (sched c) (await H (before (sched c)) st)")
  have L: "sound_read H (\<lambda>d. d = None \<or> d = Some (byte_slice ?O (c * mfs) (Suc c * mfs))) r1 st1"
    using lookup_chunk_sound [OF assms(1,2) cl assms(4) cache_valid_await [OF assms(1) Suc.prems(1) t(1)] look] .
  have step: "sound_read H (\<lambda>d. d = byte_slice ?O (s * mfs) (Suc e * mfs)) r st'"
    if "cache_valid objects H st2" and "s \<le> b'" and "b' \<le> Suc c" and "c = e \<longrightarrow> b' = Suc c"
      and "chunk_loop S H mfs loc e [Suc c..<Suc e] sched (map (chunk_key mfs loc) [b'..<Suc c])
             (byte_slice ?O (s * mfs) (b' * mfs)) st2 = (r, st')" for b' st2
    using Suc.hyps(1) [OF _ that(1-3) _ _ that(5)] Suc.hyps(2) ce that(4) by simp
  note loop = Suc.prems(6) [unfolded upt chunk_loop.simps Let_def look prod.case]
  show ?case
  proof (cases r1)
    case (Inl er)
    with loop L show ?thesis by (auto simp: sound_read_def)
  next
    case (Inr cd)
    have v1: "cache_valid objects H st1" using L by (simp add: sound_read_def)
    have le: "s * mfs \<le> c * mfs" "c * mfs \<le> Suc c * mfs" "b * mfs \<le> Suc c * mfs"
      using sb bc unfolding mult_Suc by linarith+
    note res = slice_append [OF sb bc, of ?O] slice_append [OF le(1,2), of ?O] slice_append [OF sb le(3), of ?O]
    have res': "byte_slice ?O (s * mfs) (b * mfs) @ byte_slice ?O (b * mfs) (c * mfs) @
        byte_slice ?O (c * mfs) (Suc c * mfs) = byte_slice ?O (s * mfs) (Suc c * mfs)"
      by (simp only: slice_append [OF bc le(2)] res(3))
    have advance: "sound_read H (\<lambda>d. d = byte_slice ?O (s * mfs) (Suc e * mfs)) r st'"
      if "cache_valid objects H st2"
        and "chunk_loop S H mfs loc e [Suc c..<Suc e] sched [] (byte_slice ?O (s * mfs) (Suc c * mfs)) st2 = (r, st')" for st2
      using step [of st2 "Suc c"] that Suc.prems(2,3) by simp
    show ?thesis
    proof (cases cd)
      case None
      have batch: "map (chunk_key mfs loc) [b..<c] @ [?key] = map (chunk_key mfs loc) [b..<Suc c]"
        using Suc.prems(3) by simp
      show ?thesis
      proof (cases "c = e")
        case True
        obtain r2 st2 where fetch: "fetch_batch S H mfs loc (map (chunk_key mfs loc) [b..<Suc c]) (sched c) st1 = (r2, st2)"
          by (cases "fetch_batch S H mfs loc (map (chunk_key mfs loc) [b..<Suc c]) (sched c) st1")
        note F = fetch_batch_sound [OF assms(1,2) Suc.prems(3) cl t(2) v1 fetch]
        show ?thesis
          using loop None Inr True F advance [of st2] fetch batch res(3)
          by (cases r2) (auto simp: sound_read_def or_empty_def simp del: upt_Suc)
      next
        case False
        then show ?thesis
          using loop None Inr step [of st1 b] v1 Suc.prems(2,3) batch by (auto simp: or_empty_def simp del: upt_Suc)
      qed
    next
      case (Some d)
      then have d: "d = byte_slice ?O (c * mfs) (Suc c * mfs)" using L Inr by (simp add: sound_read_def)
      show ?thesis
      proof (cases "b = c")
        case True
        then show ?thesis
          using loop Some Inr d res(2) advance [of st1] v1 by (simp add: or_empty_def del: upt_Suc)
      next
        case False
        then obtain c' where c': "c = Suc c'" "b \<le> c'" using Suc.prems(3) by (cases c) auto
        have cl': "c' * mfs < length ?O" using cl c' by simp
        obtain r2 st2 where fetch: "fetch_batch S H mfs loc (map (chunk_key mfs loc) [b..<Suc c']) (sched c) st1 = (r2, st2)"
          by (cases "fetch_batch S H mfs loc (map (chunk_key mfs loc) [b..<Suc c']) (sched c) st1")
        note F = fetch_batch_sound [OF assms(1,2) c'(2) cl' t(2) v1 fetch]
        have ne: "map (chunk_key mfs loc) [b..<c] \<noteq> []" using False Suc.prems(3) by simp
        show ?thesis
          using loop Some Inr F advance [of st2] fetch res' d ne c'(1)
          by (cases r2) (auto simp: sound_read_def or_empty_def simp del: upt_Suc mult_Suc)
      qed
    qed
  qed
qed

lemma get_range_sound:
  assumes "inj H" and "0 < mfs" and "start < stop" and "stop \<le> length (objects loc)"
    and "\<And>chunk. orderly_turn H (chunk_key mfs loc chunk) (sched chunk)"
    and "cache_valid objects H st" and "get_range S H mfs loc start stop sched st = (r, st')"
  shows "sound_read H (\<lambda>d. d = byte_slice (objects loc) start stop) r st'"
proof -
  let ?s = "start div mfs" and ?e = "(stop - 1) div mfs" and ?O = "objects loc"
  have se: "?s \<le> ?e" using assms(3) by (simp add: div_le_mono)
  have s: "?s * mfs \<le> start" by simp
  have "?e * mfs \<le> stop - 1" by simp
  then have e: "?e * mfs < length ?O" using assms(3,4) by linarith
  have "stop - 1 < Suc ?e * mfs" using dividend_less_times_div [OF assms(2)] by (simp add: mult.commute)
  then have stop: "stop \<le> Suc ?e * mfs" by linarith
  obtain r1 st1 where g: "get_chunk_range S H mfs loc ?s ?e sched st = (r1, st1)"
    by (cases "get_chunk_range S H mfs loc ?s ?e sched st")
  have "sound_read H (\<lambda>d. d = byte_slice ?O (?s * mfs) (Suc ?e * mfs)) r1 st1"
    using chunk_loop_sound [OF assms(1,2) e assms(5,6), of ?s ?s ?s r1 st1] g se
    by (simp add: get_chunk_range_def del: upt_Suc mult_Suc)
  moreover have "start - ?s * mfs \<le> length (byte_slice ?O (?s * mfs) (Suc ?e * mfs))"
    using s stop assms(3,4) unfolding length_slice by linarith
  moreover have "take (stop - start) (drop (start - ?s * mfs) (byte_slice ?O (?s * mfs) (Suc ?e * mfs))) =
      byte_slice ?O start stop"
    using s stop assms(3) by (simp add: drop_slice take_slice)
  ultimately show ?thesis
    using assms(2,3,7) g by (cases r1) (auto simp: get_range_def Let_def sound_read_def simp del: mult_Suc)
qed

end

text \<open>An in-memory store that honours the contract, and one with a fault.\<close>

definition memory_store :: "(string \<Rightarrow> bytes) \<Rightarrow> store" where
  "memory_store objects p a b =
     (if a < b \<and> a < length (objects p) then Inr (byte_slice (objects p) a b) else Inl ''range not satisfiable'')"

interpretation memory_store: range_store "memory_store objects" objects for objects
  by unfold_locales (auto simp: memory_store_def)


subsection \<open>Properties\<close>

text \<open>
  C6: A read of a range that lies within an object returns the bytes of that range or an error of the wrapped
  store, from every valid cache and under every orderly schedule of evictions and background writes, and
  leaves a valid cache.
\<close>

theorem get_range_returns_object_bytes:
  assumes "range_store S objects" and "inj H" and "0 < mfs" and "start < stop" and "stop \<le> length (objects loc)"
    and "\<forall>chunk. orderly_turn H (chunk_key mfs loc chunk) (sched chunk)" and "cache_valid objects H st"
  shows "case get_range S H mfs loc start stop sched st of
           (Inl e, st') \<Rightarrow> (\<exists>m. e = StoreError m) \<and> cache_valid objects H st'
         | (Inr d, st') \<Rightarrow> d = byte_slice (objects loc) start stop \<and> cache_valid objects H st'"
proof -
  obtain r st' where g: "get_range S H mfs loc start stop sched st = (r, st')"
    by (cases "get_range S H mfs loc start stop sched st")
  show ?thesis
    using range_store.get_range_sound [OF assms(1-5) _ assms(7) g] assms(6) g
    by (cases r) (auto simp: range_store.sound_read_def [OF assms(1)])
qed

lemma orderly_evictions: "orderly H (\<lambda>_. map Evict ks)"
proof -
  have "orderly_run H (map Evict ks) st" for st
    by (induction ks arbitrary: st) (auto simp: orderly_event_def)
  then show ?thesis by (simp add: orderly_def)
qed

definition eviction_turn :: "CacheKey list \<Rightarrow> turn" where
  "eviction_turn ks = \<lparr>before = (\<lambda>_. map Evict ks), between = (\<lambda>_. []), during = (\<lambda>_. map Evict ks)\<rparr>"

lemma orderly_eviction_turn: "orderly_turn H key (eviction_turn ks)"
  using orderly_evictions [of H ks] orderly_evictions [of H "[]"]
  by (simp add: orderly_turn_def eviction_turn_def await_def run_background_def)

definition demo_objects :: "string \<Rightarrow> bytes" where
  "demo_objects p = (if p = ''o'' then [1, 2, 3, 4, 5] else [])"

theorem get_range_returns_object_bytes_witness:
  "fst (get_range (memory_store demo_objects) id 2 ''o'' 1 5
     (\<lambda>c. eviction_turn [chunk_key 2 ''o'' 0]) empty_cache) = Inr [2, 3, 4, 5]"
proof -
  have len: "5 \<le> length (demo_objects ''o'')" by (simp add: demo_objects_def)
  have "case get_range (memory_store demo_objects) id 2 ''o'' 1 5 (\<lambda>c. eviction_turn [chunk_key 2 ''o'' 0]) empty_cache of
      (Inl e, st') \<Rightarrow> (\<exists>m. e = StoreError m) \<and> cache_valid demo_objects id st'
    | (Inr d, st') \<Rightarrow> d = byte_slice (demo_objects ''o'') 1 5 \<and> cache_valid demo_objects id st'"
    by (rule get_range_returns_object_bytes)
      (use memory_store.range_store_axioms len orderly_eviction_turn cache_valid_empty in auto)
  moreover have "is_ok (fst (get_range (memory_store demo_objects) id 2 ''o'' 1 5
      (\<lambda>c. eviction_turn [chunk_key 2 ''o'' 0]) empty_cache))"
    by code_simp
  moreover have "byte_slice (demo_objects ''o'') 1 5 = [2, 3, 4, 5]" by code_simp
  ultimately show ?thesis by (auto simp: is_ok_iff split: prod.splits sum.splits)
qed

text \<open>
  A range that reaches beyond the end of an object is read right once, from the store; the rest of the
  batch is cached under the key of every chunk beyond the end, so that reading the same range
  again gives the last bytes several times.
\<close>

theorem read_past_end_repeats_bytes:
  "let S = memory_store (\<lambda>_. [1, 2, 3]);
       (r1, st1) = get_range S id 2 ''o'' 0 8 (\<lambda>_. idle) empty_cache;
       (r2, st2) = get_range S id 2 ''o'' 0 8 (\<lambda>_. idle) st1
   in r1 = Inr [1, 2, 3] \<and> r2 = Inr [1, 2, 3, 3, 3]"
  by code_simp

text \<open>
  A write that fails half way leaves its file behind. The next write task for the chunk finds the file,
  skips the write and publishes it: from then on, the read of the chunk gives the partial file, or
  panics when the read starts behind its end.
\<close>

theorem failed_write_corrupts_cache:
  "let S = memory_store (\<lambda>_. [1, 2]);
       read = (\<lambda>a b st. get_range S id 2 ''o'' a b (\<lambda>_. idle) st);
       (r1, st1) = read 0 2 empty_cache;
       (r2, st2) = read 0 2 (run_background id [StartWrite 0, FailWrite 0] st1);
       st3 = run_background id [StartWrite 0, Publish 0] st2
   in r1 = Inr [1, 2] \<and> r2 = Inr [1, 2] \<and> fst (read 0 2 st3) = Inr [] \<and>
      fst (read 1 2 st3) = Inl (CachePanic ''cannot advance past the end'')"
  by code_simp

end
