(* ===== verification/HttpStore.thy ===== *)
theory HttpStore
  imports ObjectCache
begin

text \<open>
  The object store over HTTP (\<open>src/object_store/http.rs\<close>): the encoding of a location so that DataFusion
  routes it to the store, the requests that the store sends, what it makes of the responses, and its use beneath the
  cache. The client that sends a request, the clock and the reading of dates are parameters. Strings are sequences of
  bytes. Integer arithmetic that overflows is a panic.
\<close>

subsection \<open>Percent encoding\<close>

abbreviation code :: "char \<Rightarrow> nat" where
  "code c \<equiv> of_char c"

definition is_digit :: "char \<Rightarrow> bool" where
  "is_digit c \<longleftrightarrow> 48 \<le> code c \<and> code c \<le> 57"

definition is_alphanumeric :: "char \<Rightarrow> bool" where
  "is_alphanumeric c \<longleftrightarrow> is_digit c \<or> 65 \<le> code c \<and> code c \<le> 90 \<or> 97 \<le> code c \<and> code c \<le> 122"

definition hex_char :: "nat \<Rightarrow> char" where
  "hex_char n = (if n < 10 then char_of (48 + n) else char_of (55 + n))"

definition hex_value :: "char \<Rightarrow> nat option" where
  "hex_value c =
     (if is_digit c then Some (code c - 48)
      else if 65 \<le> code c \<and> code c \<le> 70 then Some (code c - 55)
      else if 97 \<le> code c \<and> code c \<le> 102 then Some (code c - 87)
      else None)"

text \<open>\<open>utf8_percent_encode(l, NON_ALPHANUMERIC)\<close>.\<close>

definition percent_encode :: "string \<Rightarrow> string" where
  "percent_encode l = concat (map (\<lambda>c. if is_alphanumeric c then [c] else [CHR ''%'', hex_char (code c div 16), hex_char (code c mod 16)]) l)"

text \<open>\<open>percent_decode_str\<close>: a percent sign that two hexadecimal digits do not follow stays.\<close>

fun percent_decode :: "string \<Rightarrow> string" where
  "percent_decode [] = []"
| "percent_decode (c # cs) =
     (if c = CHR ''%'' then
        (case cs of
           h # l # rest \<Rightarrow>
             (case (hex_value h, hex_value l) of
                (Some x, Some y) \<Rightarrow> char_of (16 * x + y) # percent_decode rest
              | _ \<Rightarrow> c # percent_decode cs)
         | _ \<Rightarrow> c # percent_decode cs)
      else c # percent_decode cs)"

text \<open>Whether bytes are a string of Rust.\<close>

definition continuation :: "char \<Rightarrow> bool" where
  "continuation c \<longleftrightarrow> 128 \<le> code c \<and> code c < 192"

fun utf8_ok :: "string \<Rightarrow> bool" where
  "utf8_ok [] = True"
| "utf8_ok (a # s) =
     (if code a < 128 then utf8_ok s
      else if 194 \<le> code a \<and> code a < 224 then (case s of b # s' \<Rightarrow> continuation b \<and> utf8_ok s' | _ \<Rightarrow> False)
      else if 224 \<le> code a \<and> code a < 240 then
        (case s of
           b # c # s' \<Rightarrow> continuation b \<and> (code a = 224 \<longrightarrow> 160 \<le> code b) \<and> (code a = 237 \<longrightarrow> code b < 160) \<and> continuation c \<and> utf8_ok s'
         | _ \<Rightarrow> False)
      else if 240 \<le> code a \<and> code a < 245 then
        (case s of
           b # c # d # s' \<Rightarrow> continuation b \<and> (code a = 240 \<longrightarrow> 144 \<le> code b) \<and> (code a = 244 \<longrightarrow> code b < 144) \<and>
             continuation c \<and> continuation d \<and> utf8_ok s'
         | _ \<Rightarrow> False)
      else False)"

definition strip_prefix :: "string \<Rightarrow> string \<Rightarrow> string option" where
  "strip_prefix p s = (if take (length p) s = p then Some (drop (length p) s) else None)"

definition ANYHOST :: string where "ANYHOST = ''anyhost''"

definition try_prepare_http_url :: "string \<Rightarrow> string option" where
  "try_prepare_http_url location =
     (case strip_prefix ''http://'' location of
        Some l \<Rightarrow> Some (''http://'' @ ANYHOST @ ''/'' @ percent_encode l)
      | None \<Rightarrow> map_option (\<lambda>l. ''https://'' @ ANYHOST @ ''/'' @ percent_encode l) (strip_prefix ''https://'' location))"


subsection \<open>Requests and responses\<close>

datatype http_method = GET | HEAD

record http_request =
  rq_method :: http_method
  rq_uri :: string
  rq_headers :: "(string \<times> string) list"

record http_response =
  rs_status :: nat
  rs_headers :: "(string \<times> string) list"
  rs_body :: "(nat option, bytes) result" \<comment> \<open>reading the body may fail\<close>

text \<open>An error of the client has the status of the response, when there was one.\<close>

datatype http_error =
    WritesUnsupported | NoContentLengthResponse | ContentRangeError | ListingUnsupported
  | HttpClientError "nat option" | RangesUnsupported | HeaderParsingError string

datatype store_error = StoreGeneric http_error | StoreNotSupported http_error | StoreNotImplemented | StorePanic string

record http_store =
  hs_scheme :: string
  hs_user_agent :: string
  hs_client :: "http_request \<Rightarrow> (nat option, http_response) result"
  hs_now :: int
  hs_rfc2822 :: "string \<Rightarrow> int option"

record object_meta =
  om_location :: string
  om_last_modified :: int
  om_size :: nat
  om_e_tag :: "string option"

text \<open>\<open>HeaderValue::to_str\<close>: only visible ASCII characters, blanks and tabs.\<close>

definition header_str :: "string \<Rightarrow> string option" where
  "header_str h = (if \<forall>c\<in>set h. 32 \<le> code c \<and> code c < 127 \<or> code c = 9 then Some h else None)"

text \<open>\<open>parse::<u64>\<close> and \<open>parse::<usize>\<close>: a plus sign may come first, the number fits into 64 bits.\<close>

definition parse_u64 :: "string \<Rightarrow> nat option" where
  "parse_u64 s =
     (let ds = (case s of c # cs \<Rightarrow> if c = CHR ''+'' then cs else s | [] \<Rightarrow> []) in
      if ds \<noteq> [] \<and> (\<forall>c\<in>set ds. is_digit c) \<and> read_nat ds < 2 ^ 64 then Some (read_nat ds) else None)"

definition get_uri :: "http_store \<Rightarrow> string \<Rightarrow> (store_error, string) result" where
  "get_uri H path =
     (let decoded = percent_decode path in
      if utf8_ok decoded then Inr (hs_scheme H @ ''://'' @ decoded) else Inl (StorePanic ''Utf8Error''))"

definition request_builder :: "http_store \<Rightarrow> string \<Rightarrow> (store_error, http_request) result" where
  "request_builder H path =
     bind_res (get_uri H path) (\<lambda>uri.
       Inr \<lparr>rq_method = GET, rq_uri = uri, rq_headers = [(''User-Agent'', ''Seafowl/'' @ hs_user_agent H)]\<rparr>)"

definition add_header :: "string \<Rightarrow> string option \<Rightarrow> http_request \<Rightarrow> http_request" where
  "add_header name val rq = (case val of None \<Rightarrow> rq | Some v \<Rightarrow> rq\<lparr>rq_headers := rq_headers rq @ [(name, v)]\<rparr>)"

text \<open>\<open>GetOptions\<close>, with the range and the dates as the texts they are formatted to.\<close>

record get_options =
  go_range :: "string option"
  go_if_match :: "string option"
  go_if_none_match :: "string option"
  go_if_unmodified_since :: "string option"
  go_if_modified_since :: "string option"

definition default_options :: get_options where
  "default_options = \<lparr>go_range = None, go_if_match = None, go_if_none_match = None, go_if_unmodified_since = None, go_if_modified_since = None\<rparr>"

definition request_builder_with_get_options :: "http_store \<Rightarrow> string \<Rightarrow> get_options \<Rightarrow> (store_error, http_request) result" where
  "request_builder_with_get_options H path options =
     bind_res (request_builder H path) (\<lambda>rq.
       Inr (add_header ''If-Modified-Since'' (go_if_modified_since options)
         (add_header ''If-Unmodified-Since'' (go_if_unmodified_since options)
         (add_header ''If-None-Match'' (go_if_none_match options)
         (add_header ''If-Match'' (go_if_match options)
         (add_header ''Range'' (go_range options) rq))))))"

text \<open>A response with a status of 4xx or 5xx is an error.\<close>

definition send_request :: "http_store \<Rightarrow> http_request \<Rightarrow> (http_error, http_response) result" where
  "send_request H rq =
     (case hs_client H rq of
        Inl e \<Rightarrow> Inl (HttpClientError e)
      | Inr r \<Rightarrow> if 400 \<le> rs_status r \<and> rs_status r < 600 then Inl (HttpClientError (Some (rs_status r))) else Inr r)"

abbreviation header_of :: "http_response \<Rightarrow> string \<Rightarrow> string option" where
  "header_of r name \<equiv> map_of (rs_headers r) name"


subsection \<open>Content ranges\<close>

abbreviation is_blank :: "char \<Rightarrow> bool" where
  "is_blank c \<equiv> c = CHR '' '' \<or> code c = 9"

definition opt_blank :: "string \<Rightarrow> string" where
  "opt_blank s = (case s of c # cs \<Rightarrow> if is_blank c then cs else s | [] \<Rightarrow> [])"

text \<open>
  The fourth group of \<open>(^bytes)\s+(\d+)\s?-\s?(\d+)?\s?/?\s?(\d+|\*)?\<close>: \<open>None\<close> when the expression does not match,
  \<open>Some None\<close> when it matches without that group. What follows the dash may all be missing, and the classes do not
  overlap, so that the match never has to go back.
\<close>

definition content_range_size :: "string \<Rightarrow> string option option" where
  "content_range_size s =
     (case strip_prefix ''bytes'' s of
        None \<Rightarrow> None
      | Some r0 \<Rightarrow>
          let r1 = dropWhile is_blank r0; r2 = opt_blank (dropWhile is_digit r1) in
          if r1 = r0 \<or> takeWhile is_digit r1 = [] then None
          else case r2 of
            [] \<Rightarrow> None
          | c # r3 \<Rightarrow>
              if c \<noteq> CHR ''-'' then None
              else
                let r4 = opt_blank (dropWhile is_digit (opt_blank r3));
                    r5 = (case r4 of c # cs \<Rightarrow> if c = CHR ''/'' then cs else r4 | [] \<Rightarrow> []);
                    r6 = opt_blank r5 in
                Some (case r6 of
                    [] \<Rightarrow> None
                  | c # _ \<Rightarrow> if is_digit c then Some (takeWhile is_digit r6) else if c = CHR ''*'' then Some ''*'' else None))"

definition trim :: "string \<Rightarrow> string" where
  "trim s = rev (dropWhile is_blank (rev (dropWhile is_blank s)))"

definition split_once :: "char \<Rightarrow> string \<Rightarrow> (string \<times> string) option" where
  "split_once c s = (if c \<in> set s then Some (takeWhile (\<lambda>x. x \<noteq> c) s, tl (dropWhile (\<lambda>x. x \<noteq> c) s)) else None)"

text \<open>\<open>ContentRange::from_str\<close>: the bounds of the range and the size. \<open>end + 1\<close> may overflow.\<close>

definition content_range_from_str :: "string \<Rightarrow> (store_error, (nat \<times> nat) \<times> nat) result option" where
  "content_range_from_str s =
     Option.bind (strip_prefix ''bytes '' (trim s)) (\<lambda>rem.
     Option.bind (split_once CHR ''/'' rem) (\<lambda>(range, size_s).
     Option.bind (parse_u64 size_s) (\<lambda>size.
     Option.bind (split_once CHR ''-'' range) (\<lambda>(start_s, end_s).
     Option.bind (parse_u64 start_s) (\<lambda>start.
     Option.bind (parse_u64 end_s) (\<lambda>end.
       Some (if 2 ^ 64 \<le> end + 1 then Inl (StorePanic ''attempt to add with overflow'') else Inr ((start, end + 1), size))))))))"


subsection \<open>Reading\<close>

definition header_meta :: "http_store \<Rightarrow> string \<Rightarrow> http_response \<Rightarrow> (http_error, object_meta) result" where
  "header_meta H location r =
     bind_res (case header_of r ''Last-Modified'' of
         None \<Rightarrow> Inr 0
       | Some h \<Rightarrow>
           bind_res (ok_or (HeaderParsingError ''last-modified'') (header_str h)) (\<lambda>s.
           ok_or (HeaderParsingError ''rfc2822 datetime'') (hs_rfc2822 H s))) (\<lambda>last_modified.
     bind_res (case header_of r ''ETag'' of
         None \<Rightarrow> Inr None
       | Some h \<Rightarrow> bind_res (ok_or (HeaderParsingError ''etag'') (header_str h)) (\<lambda>s. Inr (Some s))) (\<lambda>e_tag.
     bind_res (ok_or (HeaderParsingError ''Missing content-length'') (header_of r ''Content-Length'')) (\<lambda>h.
     bind_res (ok_or (HeaderParsingError ''content-length'') (header_str h)) (\<lambda>s.
     bind_res (ok_or (HeaderParsingError ''content-length as int'') (parse_u64 s)) (\<lambda>size.
       Inr \<lparr>om_location = location, om_last_modified = last_modified, om_size = size, om_e_tag = e_tag\<rparr>)))))"

definition plain_meta :: "http_store \<Rightarrow> string \<Rightarrow> nat \<Rightarrow> object_meta" where
  "plain_meta H location len = \<lparr>om_location = location, om_last_modified = hs_now H, om_size = len, om_e_tag = None\<rparr>"

definition head_via_get :: "http_store \<Rightarrow> string \<Rightarrow> (store_error, object_meta) result" where
  "head_via_get H location =
     bind_res (request_builder H location) (\<lambda>rq.
     bind_res (map_err StoreGeneric (send_request H (add_header ''Range'' (Some ''bytes=0-0'') rq))) (\<lambda>r.
     bind_res (ok_or (StoreGeneric NoContentLengthResponse) (header_of r ''Content-Range'')) (\<lambda>h.
     bind_res (ok_or (StoreGeneric NoContentLengthResponse) (header_str h)) (\<lambda>content_range_str.
     bind_res (ok_or (StoreGeneric NoContentLengthResponse) (content_range_size content_range_str)) (\<lambda>g4.
     bind_res (ok_or (StorePanic ''called `Option::unwrap()` on a `None` value'') g4) (\<lambda>s.
     bind_res (ok_or (StoreGeneric NoContentLengthResponse) (parse_u64 s)) (\<lambda>length.
       Inr (plain_meta H location length))))))))"

record get_result =
  gr_range :: "nat \<times> nat"
  gr_payload :: "(http_error, bytes) result"
  gr_meta :: object_meta

definition http_get_opts :: "http_store \<Rightarrow> string \<Rightarrow> get_options \<Rightarrow> (store_error, get_result) result" where
  "http_get_opts H location options =
     bind_res (request_builder_with_get_options H location options) (\<lambda>rq.
     bind_res (map_err StoreGeneric (send_request H rq)) (\<lambda>r.
     bind_res (map_err StoreGeneric (header_meta H location r)) (\<lambda>meta.
     let payload = map_err HttpClientError (rs_body r) in
     case go_range options of
       Some _ \<Rightarrow>
         bind_res (ok_or (StoreGeneric ContentRangeError) (header_of r ''Content-Range'')) (\<lambda>val.
         bind_res (ok_or (StoreGeneric ContentRangeError) (header_str val)) (\<lambda>s.
         bind_res (ok_or (StoreGeneric ContentRangeError) (content_range_from_str s)) (\<lambda>parsed.
         bind_res parsed (\<lambda>(actual, size).
           Inr \<lparr>gr_range = actual, gr_payload = payload, gr_meta = meta\<lparr>om_size := size\<rparr>\<rparr>))))
     | None \<Rightarrow> Inr \<lparr>gr_range = (0, om_size meta), gr_payload = payload, gr_meta = meta\<rparr>)))"

definition http_get :: "http_store \<Rightarrow> string \<Rightarrow> (store_error, get_result) result" where
  "http_get H location = http_get_opts H location default_options"

text \<open>The range of bytes from \<open>a\<close> up to and without \<open>b\<close>.\<close>

definition range_header :: "nat \<Rightarrow> nat \<Rightarrow> string" where
  "range_header a b = ''bytes='' @ show_nat a @ ''-'' @ show_nat (b - 1)"

definition http_get_range :: "http_store \<Rightarrow> string \<Rightarrow> nat \<Rightarrow> nat \<Rightarrow> (store_error, bytes) result" where
  "http_get_range H location a b =
     bind_res (request_builder H location) (\<lambda>rq.
     if b = 0 then Inl (StorePanic ''attempt to subtract with overflow'')
     else
       bind_res (map_err StoreGeneric (send_request H (add_header ''Range'' (Some (range_header a b)) rq))) (\<lambda>r.
       if rs_status r = 206 then map_err (\<lambda>e. StoreGeneric (HttpClientError e)) (rs_body r)
       else Inl (StoreGeneric RangesUnsupported)))"

definition http_head :: "http_store \<Rightarrow> string \<Rightarrow> (store_error, object_meta) result" where
  "http_head H location =
     bind_res (get_uri H location) (\<lambda>uri.
     case send_request H \<lparr>rq_method = HEAD, rq_uri = uri, rq_headers = [(''User-Agent'', ''Seafowl/'' @ hs_user_agent H)]\<rparr> of
       Inl e \<Rightarrow> if e = HttpClientError (Some 403) then head_via_get H location else Inl (StoreGeneric e)
     | Inr r \<Rightarrow>
         bind_res (ok_or (StoreGeneric NoContentLengthResponse) (header_of r ''Content-Length'')) (\<lambda>h.
         bind_res (ok_or (StoreGeneric NoContentLengthResponse) (header_str h)) (\<lambda>s.
         bind_res (ok_or (StoreGeneric NoContentLengthResponse) (parse_u64 s)) (\<lambda>length.
         bind_res (ok_or (StoreGeneric RangesUnsupported) (header_of r ''Accept-Ranges'')) (\<lambda>a.
         bind_res (ok_or (StoreGeneric RangesUnsupported) (header_str a)) (\<lambda>accept_ranges.
         if to_ascii_lowercase accept_ranges \<noteq> ''bytes'' then Inl (StoreGeneric RangesUnsupported)
         else Inr (plain_meta H location length)))))))"

text \<open>The listing of a path that does not end in a slash has its one entry.\<close>

definition http_list :: "http_store \<Rightarrow> string option \<Rightarrow> (store_error, object_meta) result list" where
  "http_list H prefix =
     (case prefix of
        None \<Rightarrow> [Inl (StoreGeneric ListingUnsupported)]
      | Some p \<Rightarrow>
          if p \<noteq> [] \<and> last p = CHR ''/'' then [Inl (StoreGeneric ListingUnsupported)]
          else [http_head H p])"

definition http_list_with_delimiter :: "http_store \<Rightarrow> string option \<Rightarrow> (store_error, 'a) result" where
  "http_list_with_delimiter H prefix = Inl StoreNotImplemented"

datatype http_write_op =
    Put string bytes | PutOpts string bytes | PutMultipart string | PutMultipartOpts string
  | Delete string | Copy string string | CopyIfNotExists string string

definition http_write :: "http_store \<Rightarrow> http_write_op \<Rightarrow> (store_error, 'a) result" where
  "http_write H op = Inl (StoreNotSupported WritesUnsupported)"

subsection \<open>Encoding and decoding\<close>

lemma code_char [simp]: "n < 256 \<Longrightarrow> code (char_of n) = n"
  by simp

lemma code_less: "code c < 256"
  using mod_less_divisor [of 256 "code c"] by simp

lemma hex_value_hex_char: "n < 16 \<Longrightarrow> hex_value (hex_char n) = Some n"
  by (auto simp: hex_value_def hex_char_def is_digit_def)

lemma percent_decode_encode [simp]: "percent_decode (percent_encode l) = l"
proof (induction l)
  case (Cons c l)
  have "code c div 16 < 16" using code_less [of c] by (simp add: less_mult_imp_div_less)
  moreover have "char_of (16 * (code c div 16) + code c mod 16) = c" by simp
  moreover have "is_alphanumeric c \<Longrightarrow> c \<noteq> CHR ''%''" by (auto simp: is_alphanumeric_def is_digit_def)
  ultimately show ?case
    using Cons by (auto simp: percent_encode_def hex_value_hex_char simp del: mult_div_mod_eq)
qed (simp add: percent_encode_def)

lemma hex_char_alphanumeric: "n < 16 \<Longrightarrow> is_alphanumeric (hex_char n)"
  by (auto simp: hex_char_def is_alphanumeric_def is_digit_def)

lemma percent_encode_chars: "c \<in> set (percent_encode l) \<Longrightarrow> is_alphanumeric c \<or> c = CHR ''%''"
proof -
  have "is_alphanumeric (hex_char (code x div 16)) \<and> is_alphanumeric (hex_char (code x mod 16))" for x
    using code_less [of x] by (auto intro!: hex_char_alphanumeric simp: less_mult_imp_div_less)
  then show "c \<in> set (percent_encode l) \<Longrightarrow> is_alphanumeric c \<or> c = CHR ''%''"
    by (auto simp: percent_encode_def split: if_splits)
qed

lemma strip_prefix_Some: "strip_prefix p s = Some r \<longleftrightarrow> s = p @ r"
  by (auto simp: strip_prefix_def) (metis append_take_drop_id)

text \<open>
  locations survive the detour through DataFusion. A location that is not an HTTP or HTTPS URL is left to others.
  Otherwise the prepared URL has the scheme of the location, the host that the store is registered for, and a path of letters,
  digits and percent signs only, so that neither a query string nor a slash of the location is cut off; the store with this
  scheme turns the path back into exactly the location.
\<close>
theorem prepared_url_round_trip:
  assumes "utf8_ok location"
  shows "case try_prepare_http_url location of
      None \<Rightarrow> (\<nexists>l. location = ''http://'' @ l) \<and> (\<nexists>l. location = ''https://'' @ l)
    | Some url \<Rightarrow> \<exists>scheme path. scheme \<in> {''http'', ''https''} \<and> url = scheme @ ''://'' @ ANYHOST @ ''/'' @ path \<and>
        (\<forall>c\<in>set path. is_alphanumeric c \<or> c = CHR ''%'') \<and>
        (\<forall>H. hs_scheme H = scheme \<longrightarrow> get_uri H path = Inr location)"
proof -
  have uri: "get_uri H (percent_encode l) = Inr location" if "location = hs_scheme H @ ''://'' @ l" "hs_scheme H = ''http'' \<or> hs_scheme H = ''https''" for l H
    using that assms by (auto simp: get_uri_def)
  show ?thesis
  proof (cases "strip_prefix ''http://'' location")
    case (Some l)
    then have "location = ''http://'' @ l" by (simp only: strip_prefix_Some)
    with Some uri [of _ l] show ?thesis
      by (simp add: try_prepare_http_url_def)
        (intro exI [of _ "''http''"] exI [of _ "percent_encode l"] conjI ballI; simp add: percent_encode_chars)
  next
    case http: None
    then have no: "\<nexists>l. location = ''http://'' @ l" by (metis option.distinct(1) strip_prefix_Some)
    show ?thesis
    proof (cases "strip_prefix ''https://'' location")
      case (Some l)
      then have "location = ''https://'' @ l" by (simp only: strip_prefix_Some)
      with Some http uri [of _ l] show ?thesis
        by (simp add: try_prepare_http_url_def)
          (intro exI [of _ "''https''"] exI [of _ "percent_encode l"] conjI ballI; simp add: percent_encode_chars)
    next
      case None
      then have "\<nexists>l. location = ''https://'' @ l" by (metis option.distinct(1) strip_prefix_Some)
      with no http None show ?thesis by (simp add: try_prepare_http_url_def)
    qed
  qed
qed

lemma prepared_url_round_trip_witness:
  "try_prepare_http_url ''https://h/f?k=a%20b'' = Some ''https://anyhost/h%2Ff%3Fk%3Da%2520b'' \<and>
   (\<exists>scheme path. ''https://anyhost/h%2Ff%3Fk%3Da%2520b'' = scheme @ ''://'' @ ANYHOST @ ''/'' @ path \<and>
     (\<forall>H. hs_scheme H = scheme \<longrightarrow> get_uri H path = Inr ''https://h/f?k=a%20b''))"
proof -
  have ok: "utf8_ok ''https://h/f?k=a%20b''" by code_simp
  have url: "try_prepare_http_url ''https://h/f?k=a%20b'' = Some ''https://anyhost/h%2Ff%3Fk%3Da%2520b''" by code_simp
  from prepared_url_round_trip [OF ok, unfolded url option.case] url show ?thesis by blast
qed


subsection \<open>Numbers in headers\<close>

lemma show_nat_digits: "(\<forall>c\<in>set (show_nat n). is_digit c) \<and> show_nat n \<noteq> []"
proof (induction n rule: show_nat.induct)
  case (1 n)
  then show ?case by (subst (1 2) show_nat.simps) (auto simp: is_digit_def)
qed

lemma show_nat_digit [simp]: "c \<in> set (show_nat n) \<Longrightarrow> is_digit c" and show_nat_nonempty [simp]: "show_nat n \<noteq> []"
  using show_nat_digits by blast+

lemma digit_not [simp]: "is_digit c \<Longrightarrow> c \<noteq> CHR ''+''" "is_digit c \<Longrightarrow> c \<noteq> CHR ''-''" "is_digit c \<Longrightarrow> c \<noteq> CHR ''/''"
  "is_digit c \<Longrightarrow> \<not> is_blank c" "is_digit c \<Longrightarrow> 32 \<le> code c \<and> code c < 127"
  by (auto simp: is_digit_def)

lemma parse_u64_show [simp]: "n < 2 ^ 64 \<Longrightarrow> parse_u64 (show_nat n) = Some n"
proof -
  assume n: "n < 2 ^ 64"
  obtain c cs where s: "show_nat n = c # cs" by (cases "show_nat n") auto
  then have "c \<noteq> CHR ''+''" using show_nat_digit [of c n] by auto
  moreover have "read_nat (c # cs) = n" using read_show_nat [of n] s by simp
  moreover have "\<forall>x\<in>set (c # cs). is_digit x" using show_nat_digits [of n] s by simp
  ultimately show ?thesis using n by (simp add: parse_u64_def s Let_def)
qed

lemma header_str_append [simp]: "header_str (a @ b) = (if header_str a \<noteq> None \<and> header_str b \<noteq> None then Some (a @ b) else None)"
  by (auto simp: header_str_def)

lemma header_str_show [simp]: "header_str (show_nat n) = Some (show_nat n)"
proof -
  have "32 \<le> code c \<and> code c < 127" if "c \<in> set (show_nat n)" for c using show_nat_digit [OF that] by simp
  then show ?thesis by (simp add: header_str_def)
qed

lemma takeWhile_digits [simp]:
  "takeWhile is_digit (show_nat n @ r) = show_nat n @ takeWhile is_digit r" "dropWhile is_digit (show_nat n @ r) = dropWhile is_digit r"
  "takeWhile is_digit (show_nat n) = show_nat n" "dropWhile is_digit (show_nat n) = []"
  using show_nat_digits [of n] by (simp_all add: takeWhile_append2 dropWhile_append2 takeWhile_eq_all_conv dropWhile_eq_Nil_conv)

subsection \<open>Cached reads over HTTP\<close>

text \<open>
  What HTTP says of a request for a range: when the server answers with \<open>206 Partial Content\<close>, the body has the
  bytes of that range, as far as the resource goes.
\<close>

definition serves :: "http_store \<Rightarrow> (string \<Rightarrow> bytes) \<Rightarrow> bool" where
  "serves H resources \<longleftrightarrow>
     (\<forall>rq r a b d. hs_client H rq = Inr r \<longrightarrow> rq_method rq = GET \<longrightarrow>
        map_of (rq_headers rq) ''Range'' = Some (range_header a b) \<longrightarrow> a < b \<longrightarrow> a < length (resources (rq_uri rq)) \<longrightarrow>
        rs_status r = 206 \<longrightarrow> rs_body r = Inr d \<longrightarrow> d = byte_slice (resources (rq_uri rq)) a b)"

text \<open>The store as the cache sees it, with the text of its errors, and the resource that a path stands for.\<close>

definition http_range_store :: "(store_error \<Rightarrow> string) \<Rightarrow> http_store \<Rightarrow> store" where
  "http_range_store msg H p a b = map_err msg (http_get_range H p a b)"

definition resource_of :: "http_store \<Rightarrow> string \<Rightarrow> string" where
  "resource_of H p = hs_scheme H @ ''://'' @ percent_decode p"

lemma http_get_range_Inr:
  assumes "http_get_range H p a b = Inr d"
  obtains rq r where "hs_client H rq = Inr r" "rq_method rq = GET" "rq_uri rq = resource_of H p"
    "map_of (rq_headers rq) ''Range'' = Some (range_header a b)" "rs_status r = 206" "rs_body r = Inr d"
  using assms
  by (auto simp: http_get_range_def request_builder_def get_uri_def resource_of_def Let_def add_header_def send_request_def
      bind_res_eq_Inr map_err_eq_Inr split: if_splits sum.splits intro!: that)

lemma servesD:
  assumes "serves H resources" "hs_client H rq = Inr r" "rq_method rq = GET" "rq_uri rq = u"
    "map_of (rq_headers rq) ''Range'' = Some (range_header a b)" "a < b" "a < length (resources u)" "rs_status r = 206" "rs_body r = Inr d"
  shows "d = byte_slice (resources u) a b"
  using assms unfolding serves_def by blast

lemma serves_range_store:
  assumes "serves H resources"
  shows "range_store (http_range_store msg H) (\<lambda>p. resources (resource_of H p))"
proof unfold_locales
  fix a b p d
  assume ab: "a < b" "a < length (resources (resource_of H p))" and run: "http_range_store msg H p a b = Inr d"
  then have "http_get_range H p a b = Inr d" by (simp add: http_range_store_def map_err_eq_Inr)
  then show "d = byte_slice (resources (resource_of H p)) a b"
    by (rule http_get_range_Inr) (rule servesD [OF assms _ _ _ _ ab])
qed


text \<open>A server that has files and honours ranges.\<close>

definition parse_range :: "string \<Rightarrow> (nat \<times> nat) option" where
  "parse_range h =
     Option.bind (strip_prefix ''bytes='' h) (\<lambda>r. map_option (\<lambda>(a, b). (read_nat a, read_nat b)) (split_once CHR ''-'' r))"

definition file_server :: "string \<Rightarrow> (string \<Rightarrow> bytes) \<Rightarrow> http_store" where
  "file_server scheme resources = \<lparr>hs_scheme = scheme, hs_user_agent = ''0'',
     hs_client = (\<lambda>rq. let d = resources (rq_uri rq) in
       case rq_method rq of
         HEAD \<Rightarrow> Inr \<lparr>rs_status = 200, rs_headers = [(''Content-Length'', show_nat (length d)), (''Accept-Ranges'', ''bytes'')], rs_body = Inr []\<rparr>
       | GET \<Rightarrow>
           (case Option.bind (map_of (rq_headers rq) ''Range'') parse_range of
              None \<Rightarrow> Inr \<lparr>rs_status = 200, rs_headers = [(''Content-Length'', show_nat (length d))], rs_body = Inr d\<rparr>
            | Some (a, b) \<Rightarrow>
                if a \<le> b \<and> a < length d then
                  Inr \<lparr>rs_status = 206, rs_headers = [(''Content-Length'', show_nat (length (byte_slice d a (Suc b)))),
                    (''Content-Range'', ''bytes '' @ show_nat a @ ''-'' @ show_nat (min b (length d - 1)) @ ''/'' @ show_nat (length d))],
                    rs_body = Inr (byte_slice d a (Suc b))\<rparr>
                else Inr \<lparr>rs_status = 416, rs_headers = [], rs_body = Inr []\<rparr>)),
     hs_now = 0, hs_rfc2822 = (\<lambda>_. None)\<rparr>"

lemma no_digit: "\<not> is_digit c \<Longrightarrow> c \<notin> set (show_nat n)"
  using show_nat_digit by blast

lemma split_once_show [simp]:
  "\<not> is_digit c \<Longrightarrow> split_once c (show_nat n @ c # r) = Some (show_nat n, r)"
proof -
  assume c: "\<not> is_digit c"
  then have "\<forall>x\<in>set (show_nat n). x \<noteq> c" using show_nat_digit by blast
  then show ?thesis by (simp add: split_once_def takeWhile_append2 dropWhile_append2)
qed

lemma not_digit [simp]: "\<not> is_digit CHR ''-''" "\<not> is_digit CHR ''/''" "\<not> is_digit CHR '' ''"
  by (simp_all add: is_digit_def)

lemma parse_range_header [simp]: "parse_range (range_header a b) = Some (a, b - 1)"
  by (simp add: parse_range_def range_header_def strip_prefix_def)

lemma file_server_serves: "serves (file_server scheme resources) resources"
  by (auto simp: serves_def file_server_def Let_def split: if_splits)

definition demo_resources :: "string \<Rightarrow> bytes" where
  "demo_resources u = (if u = ''http://h/o?k=1'' then [1, 2, 3, 4, 5] else [])"



subsection \<open>Sizes\<close>

lemma content_range_size_show [simp]:
  "content_range_size (''bytes 0-0/'' @ show_nat n) = Some (Some (show_nat n))"
  "content_range_size ''bytes 0-0'' = Some None"
proof -
  obtain c cs where s: "show_nat n = c # cs" by (cases "show_nat n") auto
  then have c: "is_digit c" using show_nat_digit [of c n] by simp
  then have "\<not> is_blank c" by (rule digit_not)
  moreover have "takeWhile is_digit (c # cs) = c # cs" using takeWhile_digits(3) [of n] s by simp
  ultimately show "content_range_size (''bytes 0-0/'' @ show_nat n) = Some (Some (show_nat n))"
    using c by (simp add: content_range_size_def strip_prefix_def opt_blank_def is_digit_def [of "CHR ''0''"] is_digit_def [of "CHR ''-''"] s Let_def)
  show "content_range_size ''bytes 0-0'' = Some None" by code_simp
qed

text \<open>What \<open>head\<close> makes of a server that forbids \<open>HEAD\<close>.\<close>

lemma head_forbidden:
  assumes uri: "get_uri H p = Inr u"
    and hd: "hs_client H \<lparr>rq_method = HEAD, rq_uri = u, rq_headers = [(''User-Agent'', ''Seafowl/'' @ hs_user_agent H)]\<rparr> = Inr r'" "rs_status r' = 403"
    and gt: "hs_client H \<lparr>rq_method = GET, rq_uri = u,
        rq_headers = [(''User-Agent'', ''Seafowl/'' @ hs_user_agent H), (''Range'', ''bytes=0-0'')]\<rparr> = Inr r" "rs_status r = 206"
    and v: "header_of r ''Content-Range'' = Some v" "header_str v = Some v" "content_range_size v = Some g4"
  shows "http_head H p =
    bind_res (ok_or (StorePanic ''called `Option::unwrap()` on a `None` value'') g4) (\<lambda>s.
    bind_res (ok_or (StoreGeneric NoContentLengthResponse) (parse_u64 s)) (\<lambda>length. Inr (plain_meta H p length)))"
  using assms by (simp add: http_head_def head_via_get_def send_request_def add_header_def request_builder_def ok_or_def)

text \<open>
  \<open>head\<close> reports the size of the resource both ways. When the server answers the \<open>HEAD\<close> request and announces the
  length and byte ranges, and also when it forbids \<open>HEAD\<close> but answers a \<open>GET\<close> for the first byte with a content range that
  has the size, the result is the size; no other request is made.
\<close>
theorem head_reports_size:
  assumes uri: "get_uri H p = Inr u" and n: "n < 2 ^ 64"
    and hd: "hd_rq = \<lparr>rq_method = HEAD, rq_uri = u, rq_headers = [(''User-Agent'', ''Seafowl/'' @ hs_user_agent H)]\<rparr>"
    and gt: "gt_rq = \<lparr>rq_method = GET, rq_uri = u, rq_headers = [(''User-Agent'', ''Seafowl/'' @ hs_user_agent H), (''Range'', ''bytes=0-0'')]\<rparr>"
    and answer: "(hs_client H hd_rq = Inr r \<and> rs_status r = 200 \<and> header_of r ''Content-Length'' = Some (show_nat n) \<and>
        header_of r ''Accept-Ranges'' = Some ''bytes'') \<or>
      (hs_client H hd_rq = Inr r' \<and> rs_status r' = 403 \<and> hs_client H gt_rq = Inr r \<and> rs_status r = 206 \<and>
        header_of r ''Content-Range'' = Some (''bytes 0-0/'' @ show_nat n))"
  shows "http_head H p = Inr (plain_meta H p n)"
proof -
  have str: "header_str ''bytes'' = Some ''bytes''" "header_str ''bytes 0-0/'' = Some ''bytes 0-0/''" by code_simp+
  have cr: "header_str (''bytes 0-0/'' @ show_nat n) = Some (''bytes 0-0/'' @ show_nat n)"
    using str(2) by (simp only: header_str_append header_str_show) simp
  from answer show ?thesis
  proof
    assume a: "hs_client H hd_rq = Inr r \<and> rs_status r = 200 \<and> header_of r ''Content-Length'' = Some (show_nat n) \<and>
        header_of r ''Accept-Ranges'' = Some ''bytes''"
    then have "send_request H hd_rq = Inr r" by (simp add: send_request_def)
    with a n show ?thesis unfolding http_head_def uri bind_res_simps hd [symmetric] by (simp add: ok_or_def str lower_char_def)
  next
    assume a: "hs_client H hd_rq = Inr r' \<and> rs_status r' = 403 \<and> hs_client H gt_rq = Inr r \<and> rs_status r = 206 \<and>
        header_of r ''Content-Range'' = Some (''bytes 0-0/'' @ show_nat n)"
    then show ?thesis
      using head_forbidden [OF uri, folded hd gt, of r' r "''bytes 0-0/'' @ show_nat n" "Some (show_nat n)"] n cr
      by (simp add: ok_or_def del: append.simps header_str_append)
  qed
qed

lemma head_reports_size_witness:
  "http_head (file_server ''http'' demo_resources) (percent_encode ''h/o?k=1'') =
    Inr (plain_meta (file_server ''http'' demo_resources) (percent_encode ''h/o?k=1'') 5)"
proof -
  let ?H = "file_server ''http'' demo_resources"
  let ?rq = "\<lambda>m hs. \<lparr>rq_method = m, rq_uri = ''http://h/o?k=1'', rq_headers = (''User-Agent'', ''Seafowl/'' @ hs_user_agent ?H) # hs\<rparr>"
  have uri: "get_uri ?H (percent_encode ''h/o?k=1'') = Inr ''http://h/o?k=1''" by code_simp
  have "hs_client ?H (?rq HEAD []) = Inr \<lparr>rs_status = 200,
      rs_headers = [(''Content-Length'', show_nat 5), (''Accept-Ranges'', ''bytes'')], rs_body = Inr []\<rparr>"
    by (simp add: file_server_def demo_resources_def eval_nat_numeral)
  then show ?thesis
    by (intro head_reports_size [OF uri _ refl refl, where r = "\<lparr>rs_status = 200,
      rs_headers = [(''Content-Length'', show_nat 5), (''Accept-Ranges'', ''bytes'')], rs_body = Inr []\<rparr>"]) simp_all
qed

text \<open>
  a content range without a size is a panic. The fourth group of the expression may be missing in a match: when the
  server forbids \<open>HEAD\<close> and answers the \<open>GET\<close> with \<open>bytes 0-0\<close>, then \<open>head\<close> panics instead of returning
  an error.
\<close>
theorem head_panics_without_size:
  assumes uri: "get_uri H p = Inr u"
    and hd: "hs_client H \<lparr>rq_method = HEAD, rq_uri = u, rq_headers = [(''User-Agent'', ''Seafowl/'' @ hs_user_agent H)]\<rparr> = Inr r'" "rs_status r' = 403"
    and gt: "hs_client H \<lparr>rq_method = GET, rq_uri = u,
        rq_headers = [(''User-Agent'', ''Seafowl/'' @ hs_user_agent H), (''Range'', ''bytes=0-0'')]\<rparr> = Inr r" "rs_status r = 206"
      "header_of r ''Content-Range'' = Some ''bytes 0-0''"
  shows "http_head H p = Inl (StorePanic ''called `Option::unwrap()` on a `None` value'')"
proof -
  have str: "header_str ''bytes 0-0'' = Some ''bytes 0-0''" by code_simp
  show ?thesis using head_forbidden [OF uri hd gt str] by (simp add: ok_or_def)
qed

definition forbidding_server :: http_store where
  "forbidding_server = \<lparr>hs_scheme = ''http'', hs_user_agent = ''0'', hs_client = (\<lambda>rq. Inr (case rq_method rq of
       HEAD \<Rightarrow> \<lparr>rs_status = 403, rs_headers = [], rs_body = Inr []\<rparr>
     | GET \<Rightarrow> \<lparr>rs_status = 206, rs_headers = [(''Content-Range'', ''bytes 0-0'')], rs_body = Inr [1]\<rparr>)),
     hs_now = 0, hs_rfc2822 = (\<lambda>_. None)\<rparr>"

lemma head_panics_without_size_witness:
  "http_head forbidding_server ''h'' = Inl (StorePanic ''called `Option::unwrap()` on a `None` value'')"
proof -
  have uri: "get_uri forbidding_server ''h'' = Inr ''http://h''" by code_simp
  show ?thesis by (rule head_panics_without_size [OF uri]) (simp add: forbidding_server_def | simp)+
qed

lemma trim_id: "s \<noteq> [] \<Longrightarrow> \<not> is_blank (hd s) \<Longrightarrow> \<not> is_blank (last s) \<Longrightarrow> trim s = s"
proof -
  assume s: "s \<noteq> []" "\<not> is_blank (hd s)" "\<not> is_blank (last s)"
  then have "dropWhile is_blank s = s" by (simp add: dropWhile_eq_self_iff)
  moreover have "dropWhile is_blank (rev s) = rev s" using s by (simp add: dropWhile_eq_self_iff hd_rev)
  ultimately show "trim s = s" by (simp add: trim_def)
qed

lemma content_range_from_str_show:
  assumes "a < 2 ^ 64" "b + 1 < 2 ^ 64" "n < 2 ^ 64"
  shows "content_range_from_str (''bytes '' @ show_nat a @ ''-'' @ show_nat b @ ''/'' @ show_nat n) = Some (Inr ((a, b + 1), n))"
proof -
  let ?r = "show_nat a @ CHR ''-'' # show_nat b" and ?s = "''bytes '' @ (show_nat a @ CHR ''-'' # show_nat b) @ CHR ''/'' # show_nat n"
  have "is_digit (last (show_nat n))" by (rule show_nat_digit [of _ n]) simp
  then have "trim ?s = ?s" using digit_not(4) by (intro trim_id) auto
  moreover have "strip_prefix ''bytes '' ?s = Some (?r @ CHR ''/'' # show_nat n)" by (simp add: strip_prefix_def)
  moreover have "split_once CHR ''/'' (?r @ CHR ''/'' # show_nat n) = Some (?r, show_nat n)"
  proof -
    have "x \<noteq> CHR ''/''" if "x \<in> set ?r" for x using that no_digit [of "CHR ''/''"] by auto
    then show ?thesis by (simp add: split_once_def takeWhile_append2 dropWhile_append2)
  qed
  moreover have "b < 2 ^ 64" using assms(2) by simp
  ultimately show ?thesis using assms by (simp add: content_range_from_str_def)
qed

text \<open>
  a range is not checked. A request with a range whose response has a well-formed content range succeeds with the
  range and the size that the server states, whatever range was asked for and whatever the status below 400 is.
\<close>
theorem get_opts_takes_any_range:
  assumes rq: "request_builder_with_get_options H p options = Inr rq" and range: "go_range options \<noteq> None"
    and r: "hs_client H rq = Inr r" "rs_status r < 400" "header_meta H p r = Inr meta"
    and cr: "header_of r ''Content-Range'' = Some (''bytes '' @ show_nat a @ ''-'' @ show_nat b @ ''/'' @ show_nat n)"
    and bounds: "a < 2 ^ 64" "b + 1 < 2 ^ 64" "n < 2 ^ 64"
  shows "http_get_opts H p options =
    Inr \<lparr>gr_range = (a, b + 1), gr_payload = map_err HttpClientError (rs_body r), gr_meta = meta\<lparr>om_size := n\<rparr>\<rparr>"
proof -
  let ?v = "''bytes '' @ show_nat a @ ''-'' @ show_nat b @ ''/'' @ show_nat n"
  have "header_str ''bytes '' = Some ''bytes ''" "header_str ''-'' = Some ''-''" "header_str ''/'' = Some ''/''" by code_simp+
  then have str: "header_str ?v = Some ?v" by (simp only: header_str_append header_str_show) simp
  obtain g where g: "go_range options = Some g" using range by blast
  have "send_request H rq = Inr r" using r by (simp add: send_request_def)
  then show ?thesis
    unfolding http_get_opts_def rq bind_res_simps g
    using r(3) cr str content_range_from_str_show [OF bounds] by (simp add: ok_or_def del: append.simps header_str_append)
qed

lemma get_opts_takes_any_range_witness:
  "let H = \<lparr>hs_scheme = ''http'', hs_user_agent = ''0'', hs_client = (\<lambda>_. Inr \<lparr>rs_status = 206,
         rs_headers = [(''Content-Length'', show_nat 2), (''Content-Range'', ''bytes '' @ show_nat 7 @ ''-'' @ show_nat 8 @ ''/'' @ show_nat 9)],
         rs_body = Inr [1, 2]\<rparr>), hs_now = 0, hs_rfc2822 = (\<lambda>_. None)\<rparr> in
   map_sum id gr_range (http_get_opts H ''h'' (default_options\<lparr>go_range := Some ''bytes=0-1''\<rparr>)) = Inr (7, 9)"
proof -
  let ?H = "\<lparr>hs_scheme = ''http'', hs_user_agent = ''0'', hs_client = (\<lambda>_. Inr \<lparr>rs_status = 206,
         rs_headers = [(''Content-Length'', show_nat 2), (''Content-Range'', ''bytes '' @ show_nat 7 @ ''-'' @ show_nat 8 @ ''/'' @ show_nat 9)],
         rs_body = Inr [1, 2]\<rparr>), hs_now = 0, hs_rfc2822 = (\<lambda>_. None)\<rparr>"
  let ?o = "default_options\<lparr>go_range := Some ''bytes=0-1''\<rparr>"
  have "is_ok (request_builder_with_get_options ?H ''h'' ?o)" by code_simp
  then obtain rq where rq: "request_builder_with_get_options ?H ''h'' ?o = Inr rq" by (auto simp: is_ok_iff)
  have "\<exists>meta. header_meta ?H ''h'' \<lparr>rs_status = 206,
         rs_headers = [(''Content-Length'', show_nat 2), (''Content-Range'', ''bytes '' @ show_nat 7 @ ''-'' @ show_nat 8 @ ''/'' @ show_nat 9)],
         rs_body = Inr [1, 2]\<rparr> = Inr meta"
    by (simp add: header_meta_def ok_or_def)
  then show ?thesis using get_opts_takes_any_range [OF rq, where a = 7 and b = 8 and n = 9] by (auto simp: Let_def)
qed
end
