(* ===== verification/DFParser.thy ===== *)
theory DFParser
  imports Prelude
begin

text \<open>
  Seafowl's SQL parser (\<open>src/datafusion/parser.rs\<close>), which handles \<open>COPY\<close>, \<open>CONVERT\<close>, \<open>VACUUM\<close>,
  \<open>TRUNCATE\<close>, \<open>CREATE FUNCTION\<close> and \<open>CREATE EXTERNAL TABLE\<close> itself and leaves everything else to
  sqlparser. The methods of sqlparser's \<open>Parser\<close> are a parameter (a record of operations on its cursor);
  the locale \<open>cursor\<close> states what they do to the tokens that are left. Loops take fuel; the theory shows
  that the number of tokens is enough of it.
\<close>

subsection \<open>Tokens, syntax trees and the operations of sqlparser\<close>

datatype keyword =
    K_CREATE | K_CONVERT | K_COPY | K_VACUUM | K_TRUNCATE | K_TO | K_DELTA | K_TABLE | K_DATABASE | K_OR | K_REPLACE
  | K_EXTERNAL | K_UNBOUNDED | K_FUNCTION | K_AS | K_ASC | K_DESC | K_NULLS | K_FIRST | K_LAST | K_COLLATE
  | K_CONSTRAINT | K_IF | K_NOT | K_EXISTS | K_STORED | K_LOCATION | K_WITH | K_DELIMITER | K_COMPRESSION
  | K_PARTITIONED | K_OPTIONS | K_ORDER | K_HEADER | K_ROW | K_TYPE | K_BY | OtherKeyword string | NoKeyword

datatype token =
    Word string keyword
  | SingleQuotedString string | DoubleQuotedString string | EscapedStringLiteral string | DollarQuotedString string
  | Number string bool
  | LParen | RParen | Comma | Period | SemiColon | EOF | OtherToken string

datatype parser_error = ParserError string | ParserPanic string | OutOfFuel

text \<open>An identifier with its quote character, and the parts of the syntax tree the parser looks into.\<close>

datatype ident = Ident string "char option"

type_synonym object_name = "ident list"

datatype literal =
    VSingleQuoted string | VDoubleQuoted string | VEscaped string | VDollarQuoted string
  | VNumber string bool | VBoolean bool

datatype sql_ast =
    Truncate object_name "ident list option" bool
  | CreateFunction bool bool object_name literal
  | Native string

datatype CopyToSource = CopyQuery string | CopyRelation object_name

record CopyToStatement =
  cp_source :: CopyToSource
  cp_target :: string
  cp_options :: "(string \<times> literal) list"

record OrderByExpr =
  ob_expr :: string
  ob_asc :: "bool option"
  ob_nulls_first :: "bool option"

record ColumnDef =
  cd_name :: ident
  cd_data_type :: string
  cd_collation :: "object_name option"
  cd_options :: "(ident option \<times> string) list"

record CreateExternalTable =
  xt_name :: string
  xt_columns :: "ColumnDef list"
  xt_file_type :: string
  xt_location :: string
  xt_table_partition_cols :: "string list"
  xt_order_exprs :: "OrderByExpr list list"
  xt_if_not_exists :: bool
  xt_unbounded :: bool
  xt_options :: "(string \<times> literal) list"
  xt_constraints :: "string list"

datatype parsed_statement =
    SqlStatement sql_ast
  | CopyTo CopyToStatement
  | ExternalTable CreateExternalTable

text \<open>The methods of \<open>Parser\<close> (and \<open>Tokenizer\<close>) that the code calls, on a cursor of type \<open>'p\<close>.\<close>

record 'p sql_parser =
  sp_tokenize :: "string \<Rightarrow> (parser_error, 'p) result"
  sp_peek_nth_token :: "nat \<Rightarrow> 'p \<Rightarrow> token"
  sp_next_token :: "'p \<Rightarrow> token \<times> 'p"
  sp_consume_token :: "token \<Rightarrow> 'p \<Rightarrow> bool \<times> 'p"
  sp_expect_token :: "token \<Rightarrow> ('p, parser_error, unit) st"
  sp_parse_keyword :: "keyword \<Rightarrow> 'p \<Rightarrow> bool \<times> 'p"
  sp_parse_keywords :: "keyword list \<Rightarrow> 'p \<Rightarrow> bool \<times> 'p"
  sp_parse_one_of_keywords :: "keyword list \<Rightarrow> 'p \<Rightarrow> keyword option \<times> 'p"
  sp_expect_keyword :: "keyword \<Rightarrow> ('p, parser_error, unit) st"
  sp_expect_keywords :: "keyword list \<Rightarrow> ('p, parser_error, unit) st"
  sp_parse_object_name :: "bool \<Rightarrow> ('p, parser_error, object_name) st"
  sp_parse_identifier :: "('p, parser_error, ident) st"
  sp_parse_literal_string :: "('p, parser_error, string) st"
  sp_parse_query :: "('p, parser_error, string) st"
  sp_parse_expr :: "('p, parser_error, string) st"
  sp_parse_data_type :: "('p, parser_error, string) st"
  sp_parse_optional_column_option :: "('p, parser_error, string option) st"
  sp_parse_optional_table_constraint :: "('p, parser_error, string option) st"
  sp_parse_statement :: "('p, parser_error, string) st"
  sp_parse_create :: "('p, parser_error, string) st"
  sp_show_token :: "token \<Rightarrow> string"
  sp_show_ident :: "ident \<Rightarrow> string"
  sp_show_object_name :: "object_name \<Rightarrow> string"

abbreviation sp_peek_token :: "'p sql_parser \<Rightarrow> 'p \<Rightarrow> token" where
  "sp_peek_token P \<equiv> sp_peek_nth_token P 0"

text \<open>A method that cannot fail, and reading the cursor without moving it.\<close>

definition act :: "('p \<Rightarrow> 'a \<times> 'p) \<Rightarrow> ('p, parser_error, 'a) st" where
  "act f = (\<lambda>p. case f p of (x, p') \<Rightarrow> (Inr x, p'))"

definition peek :: "('p \<Rightarrow> 'a) \<Rightarrow> ('p, parser_error, 'a) st" where
  "peek f = (\<lambda>p. (Inr (f p), p))"

definition fail :: "parser_error \<Rightarrow> ('p, parser_error, 'a) st" where
  "fail e = lift_res (Inl e)"

definition parser_err :: "string \<Rightarrow> ('p, parser_error, 'a) st" where
  "parser_err msg = fail (ParserError msg)"

definition expected :: "'p sql_parser \<Rightarrow> string \<Rightarrow> token \<Rightarrow> ('p, parser_error, 'a) st" where
  "expected P what found = parser_err (''Expected '' @ what @ '', found: '' @ sp_show_token P found)"

definition expected_here :: "'p sql_parser \<Rightarrow> string \<Rightarrow> ('p, parser_error, 'a) st" where
  "expected_here P what = bind_st (peek (sp_peek_token P)) (expected P what)"

definition ensure_not_set :: "'a option \<Rightarrow> string \<Rightarrow> ('p, parser_error, unit) st" where
  "ensure_not_set field name =
     (if field \<noteq> None then parser_err (name @ '' specified more than once'') else return_st ())"


subsection \<open>Options\<close>

text \<open>The parts of a dotted key after the first one.\<close>

fun key_parts :: "'p sql_parser \<Rightarrow> nat \<Rightarrow> string list \<Rightarrow> ('p, parser_error, string list) st" where
  "key_parts P 0 parts = fail OutOfFuel"
| "key_parts P (Suc n) parts =
     bind_st (act (sp_consume_token P Period)) (\<lambda>dot.
     if dot then
       bind_st (act (sp_next_token P)) (\<lambda>t.
       case t of
         Word value _ \<Rightarrow> key_parts P n (parts @ [value])
       | _ \<Rightarrow> expected P ''key name'' t)
     else return_st parts)"

fun join_dots :: "string list \<Rightarrow> string" where
  "join_dots [] = []"
| "join_dots [s] = s"
| "join_dots (s # ss) = s @ ''.'' @ join_dots ss"

definition parse_option_key :: "'p sql_parser \<Rightarrow> nat \<Rightarrow> ('p, parser_error, string) st" where
  "parse_option_key P n =
     bind_st (act (sp_next_token P)) (\<lambda>t.
     case t of
       Word value _ \<Rightarrow> bind_st (key_parts P n [value]) (\<lambda>parts. return_st (join_dots parts))
     | SingleQuotedString s \<Rightarrow> return_st s
     | DoubleQuotedString s \<Rightarrow> return_st s
     | EscapedStringLiteral s \<Rightarrow> return_st s
     | _ \<Rightarrow> expected P ''key name'' t)"

definition parse_option_value :: "'p sql_parser \<Rightarrow> ('p, parser_error, literal) st" where
  "parse_option_value P =
     bind_st (act (sp_next_token P)) (\<lambda>t.
     case t of
       Word value _ \<Rightarrow> return_st (VSingleQuoted value)
     | SingleQuotedString s \<Rightarrow> return_st (VSingleQuoted s)
     | DoubleQuotedString s \<Rightarrow> return_st (VDoubleQuoted s)
     | EscapedStringLiteral s \<Rightarrow> return_st (VEscaped s)
     | Number x l \<Rightarrow> return_st (VNumber x l)
     | _ \<Rightarrow> expected P ''string or numeric value'' t)"

definition or_close :: "string \<Rightarrow> string" where
  "or_close what =
     (let q = [CHR 0x27] in q @ '','' @ q @ '' or '' @ q @ '')'' @ q @ '' after '' @ what @ '' definition'')"

text \<open>
  The end of an iteration that is common to four loops: a comma may follow, a closing parenthesis ends the
  list, also after a comma; without either it is an error. \<open>True\<close> is another round.
\<close>

definition list_continues :: "'p sql_parser \<Rightarrow> string \<Rightarrow> ('p, parser_error, bool) st" where
  "list_continues P what =
     bind_st (act (sp_consume_token P Comma)) (\<lambda>comma.
     bind_st (act (sp_consume_token P RParen)) (\<lambda>close.
     if close then return_st False
     else if \<not> comma then expected_here P what
     else return_st True))"

fun value_options_loop ::
    "'p sql_parser \<Rightarrow> nat \<Rightarrow> (string \<times> literal) list \<Rightarrow> ('p, parser_error, (string \<times> literal) list) st" where
  "value_options_loop P 0 options = fail OutOfFuel"
| "value_options_loop P (Suc n) options =
     bind_st (parse_option_key P n) (\<lambda>key.
     bind_st (parse_option_value P) (\<lambda>value.
     bind_st (list_continues P (or_close ''option'')) (\<lambda>more.
     if more then value_options_loop P n (options @ [(key, value)])
     else return_st (options @ [(key, value)]))))"

definition parse_value_options :: "'p sql_parser \<Rightarrow> nat \<Rightarrow> ('p, parser_error, (string \<times> literal) list) st" where
  "parse_value_options P n =
     bind_st (sp_expect_token P LParen) (\<lambda>_. value_options_loop P n [])"


subsection \<open>Partition lists, ordering and columns\<close>

text \<open>\<open>(\<close> starts a list unless \<open>)\<close> follows at once: the common opening of two loops.\<close>

definition list_opens :: "'p sql_parser \<Rightarrow> ('p, parser_error, bool) st" where
  "list_opens P =
     bind_st (act (sp_consume_token P LParen)) (\<lambda>open.
     if \<not> open then return_st False
     else bind_st (act (sp_consume_token P RParen)) (\<lambda>close. return_st (\<not> close)))"

definition is_word :: "token \<Rightarrow> bool" where
  "is_word t = (case t of Word _ _ \<Rightarrow> True | _ \<Rightarrow> False)"

fun partitions_loop :: "'p sql_parser \<Rightarrow> nat \<Rightarrow> string list \<Rightarrow> ('p, parser_error, string list) st" where
  "partitions_loop P 0 partitions = fail OutOfFuel"
| "partitions_loop P (Suc n) partitions =
     bind_st (peek (sp_peek_token P)) (\<lambda>t.
     if is_word t then
       bind_st (sp_parse_identifier P) (\<lambda>identifier.
       bind_st (list_continues P (or_close ''partition'')) (\<lambda>more.
       let partitions' = partitions @ [sp_show_ident P identifier] in
       if more then partitions_loop P n partitions' else return_st partitions'))
     else expected_here P ''partition name'')"

definition parse_partitions :: "'p sql_parser \<Rightarrow> nat \<Rightarrow> ('p, parser_error, string list) st" where
  "parse_partitions P n =
     bind_st (list_opens P) (\<lambda>opens. if opens then partitions_loop P n [] else return_st [])"

definition parse_order_by_expr :: "'p sql_parser \<Rightarrow> ('p, parser_error, OrderByExpr) st" where
  "parse_order_by_expr P =
     bind_st (sp_parse_expr P) (\<lambda>expr.
     bind_st (act (sp_parse_keyword P K_ASC)) (\<lambda>is_asc.
     bind_st (if is_asc then return_st False else act (sp_parse_keyword P K_DESC)) (\<lambda>is_desc.
     bind_st (act (sp_parse_keywords P [K_NULLS, K_FIRST])) (\<lambda>is_first.
     bind_st (if is_first then return_st False else act (sp_parse_keywords P [K_NULLS, K_LAST])) (\<lambda>is_last.
     return_st \<lparr>ob_expr = expr,
                ob_asc = (if is_asc then Some True else if is_desc then Some False else None),
                ob_nulls_first = (if is_first then Some True else if is_last then Some False else None)\<rparr>)))))"

fun order_by_loop :: "'p sql_parser \<Rightarrow> nat \<Rightarrow> OrderByExpr list \<Rightarrow> ('p, parser_error, OrderByExpr list) st" where
  "order_by_loop P 0 values = fail OutOfFuel"
| "order_by_loop P (Suc n) values =
     bind_st (parse_order_by_expr P) (\<lambda>e.
     bind_st (act (sp_consume_token P Comma)) (\<lambda>comma.
     if comma then order_by_loop P n (values @ [e])
     else bind_st (sp_expect_token P RParen) (\<lambda>_. return_st (values @ [e]))))"

definition parse_order_by_exprs :: "'p sql_parser \<Rightarrow> nat \<Rightarrow> ('p, parser_error, OrderByExpr list) st" where
  "parse_order_by_exprs P n =
     bind_st (sp_expect_token P LParen) (\<lambda>_. order_by_loop P n [])"

fun column_options ::
    "'p sql_parser \<Rightarrow> nat \<Rightarrow> (ident option \<times> string) list \<Rightarrow> ('p, parser_error, (ident option \<times> string) list) st" where
  "column_options P 0 options = fail OutOfFuel"
| "column_options P (Suc n) options =
     bind_st (act (sp_parse_keyword P K_CONSTRAINT)) (\<lambda>constraint.
     if constraint then
       bind_st (sp_parse_identifier P) (\<lambda>name.
       bind_st (sp_parse_optional_column_option P) (\<lambda>option.
       case option of
         Some opt \<Rightarrow> column_options P n (options @ [(Some name, opt)])
       | None \<Rightarrow> expected_here P ''constraint details after CONSTRAINT <name>''))
     else
       bind_st (sp_parse_optional_column_option P) (\<lambda>option.
       case option of
         Some opt \<Rightarrow> column_options P n (options @ [(None, opt)])
       | None \<Rightarrow> return_st options))"

definition parse_column_def :: "'p sql_parser \<Rightarrow> nat \<Rightarrow> ('p, parser_error, ColumnDef) st" where
  "parse_column_def P n =
     bind_st (sp_parse_identifier P) (\<lambda>name.
     bind_st (sp_parse_data_type P) (\<lambda>data_type.
     bind_st (act (sp_parse_keyword P K_COLLATE)) (\<lambda>collate.
     bind_st (if collate then bind_st (sp_parse_object_name P False) (\<lambda>c. return_st (Some c)) else return_st None)
       (\<lambda>collation.
     bind_st (column_options P n []) (\<lambda>options.
     return_st \<lparr>cd_name = name, cd_data_type = data_type, cd_collation = collation, cd_options = options\<rparr>)))))"

fun columns_loop ::
    "'p sql_parser \<Rightarrow> nat \<Rightarrow> ColumnDef list \<Rightarrow> string list \<Rightarrow> ('p, parser_error, ColumnDef list \<times> string list) st" where
  "columns_loop P 0 columns constraints = fail OutOfFuel"
| "columns_loop P (Suc n) columns constraints =
     bind_st (sp_parse_optional_table_constraint P) (\<lambda>constraint.
     bind_st
       (case constraint of
          Some c \<Rightarrow> return_st (columns, constraints @ [c])
        | None \<Rightarrow>
            bind_st (peek (sp_peek_token P)) (\<lambda>t.
            if is_word t
            then bind_st (parse_column_def P n) (\<lambda>column_def. return_st (columns @ [column_def], constraints))
            else expected_here P ''column name or constraint definition''))
       (\<lambda>(columns', constraints').
     bind_st (list_continues P (or_close ''column'')) (\<lambda>more.
     if more then columns_loop P n columns' constraints' else return_st (columns', constraints'))))"

definition parse_columns :: "'p sql_parser \<Rightarrow> nat \<Rightarrow> ('p, parser_error, ColumnDef list \<times> string list) st" where
  "parse_columns P n =
     bind_st (list_opens P) (\<lambda>opens. if opens then columns_loop P n [] [] else return_st ([], []))"


subsection \<open>CREATE EXTERNAL TABLE\<close>

text \<open>\<open>to_uppercase\<close> on ASCII text.\<close>

definition parse_file_type :: "string \<Rightarrow> string" where
  "parse_file_type s = map upper_char s"

definition parse_file_format :: "'p sql_parser \<Rightarrow> ('p, parser_error, string) st" where
  "parse_file_format P =
     bind_st (act (sp_next_token P)) (\<lambda>t.
     case t of
       Word value _ \<Rightarrow> return_st (parse_file_type value)
     | _ \<Rightarrow> expected P ''one of ARROW, PARQUET, NDJSON, or CSV'' t)"

text \<open>The local \<open>Builder\<close>, with the columns that a \<open>PARTITIONED BY\<close> clause may extend.\<close>

record builder =
  b_file_type :: "string option"
  b_location :: "string option"
  b_table_partition_cols :: "string list option"
  b_order_exprs :: "OrderByExpr list list"
  b_options :: "(string \<times> literal) list option"
  b_columns :: "ColumnDef list"

definition empty_builder :: "ColumnDef list \<Rightarrow> builder" where
  "empty_builder columns =
     \<lparr>b_file_type = None, b_location = None, b_table_partition_cols = None, b_order_exprs = [],
      b_options = None, b_columns = columns\<rparr>"

definition parse_partitioned :: "'p sql_parser \<Rightarrow> nat \<Rightarrow> builder \<Rightarrow> ('p, parser_error, builder) st" where
  "parse_partitioned P n b =
     bind_st (sp_expect_keyword P K_BY) (\<lambda>_.
     bind_st (ensure_not_set (b_table_partition_cols b) ''PARTITIONED BY'') (\<lambda>_.
     bind_st (peek (sp_peek_nth_token P 2)) (\<lambda>peeked.
     if peeked = Comma \<or> peeked = RParen then
       bind_st (parse_partitions P n) (\<lambda>ps. return_st (b\<lparr>b_table_partition_cols := Some ps\<rparr>))
     else
       bind_st (parse_columns P n) (\<lambda>(cols, cons).
       if cons \<noteq> [] then parser_err ''Constraints on Partition Columns are not supported''
       else return_st (b\<lparr>b_table_partition_cols := Some (map (\<lambda>c. sp_show_ident P (cd_name c)) cols),
                         b_columns := b_columns b @ cols\<rparr>)))))"

text \<open>The messages for the clauses that are no longer in use.\<close>

definition obsolete :: "string \<Rightarrow> string \<Rightarrow> string \<Rightarrow> string" where
  "obsolete clause option example =
     (let q = [CHR 0x27] in
      clause @ '' clause is no longer in use. Please use the OPTIONS clause with '' @ q @ option @ q @
      '' set appropriately, e.g., OPTIONS ('' @ option @ '' '' @ example @ '')'')"

definition parse_clause :: "'p sql_parser \<Rightarrow> nat \<Rightarrow> keyword \<Rightarrow> builder \<Rightarrow> ('p, parser_error, builder) st" where
  "parse_clause P n kw b =
     (if kw = K_STORED then
        bind_st (sp_expect_keyword P K_AS) (\<lambda>_.
        bind_st (ensure_not_set (b_file_type b) ''STORED AS'') (\<lambda>_.
        bind_st (parse_file_format P) (\<lambda>f. return_st (b\<lparr>b_file_type := Some f\<rparr>))))
      else if kw = K_LOCATION then
        bind_st (ensure_not_set (b_location b) ''LOCATION'') (\<lambda>_.
        bind_st (sp_parse_literal_string P) (\<lambda>l. return_st (b\<lparr>b_location := Some l\<rparr>)))
      else if kw = K_WITH then
        bind_st (act (sp_parse_keyword P K_ORDER)) (\<lambda>order.
        if order then
          bind_st (parse_order_by_exprs P n) (\<lambda>es. return_st (b\<lparr>b_order_exprs := b_order_exprs b @ [es]\<rparr>))
        else
          bind_st (sp_expect_keyword P K_HEADER) (\<lambda>_.
          bind_st (sp_expect_keyword P K_ROW) (\<lambda>_.
          parser_err (obsolete ''WITH HEADER ROW'' ''format.has_header'' ''true''))))
      else if kw = K_DELIMITER then parser_err (obsolete ''DELIMITER'' ''format.delimiter'' [CHR 0x27, CHR '','', CHR 0x27])
      else if kw = K_COMPRESSION then
        bind_st (sp_expect_keyword P K_TYPE) (\<lambda>_. parser_err (obsolete ''COMPRESSION TYPE'' ''format.compression'' ''gzip''))
      else if kw = K_PARTITIONED then parse_partitioned P n b
      else if kw = K_OPTIONS then
        bind_st (ensure_not_set (b_options b) ''OPTIONS'') (\<lambda>_.
        bind_st (parse_value_options P n) (\<lambda>os. return_st (b\<lparr>b_options := Some os\<rparr>)))
      else fail (ParserPanic ''internal error: entered unreachable code''))"

definition table_keywords :: "keyword list" where
  "table_keywords = [K_STORED, K_LOCATION, K_WITH, K_DELIMITER, K_COMPRESSION, K_PARTITIONED, K_OPTIONS]"

fun clauses_loop :: "'p sql_parser \<Rightarrow> nat \<Rightarrow> builder \<Rightarrow> ('p, parser_error, builder) st" where
  "clauses_loop P 0 b = fail OutOfFuel"
| "clauses_loop P (Suc n) b =
     bind_st (act (sp_parse_one_of_keywords P table_keywords)) (\<lambda>kw.
     case kw of
       Some k \<Rightarrow> bind_st (parse_clause P n k b) (clauses_loop P n)
     | None \<Rightarrow>
         bind_st (peek (sp_peek_token P)) (\<lambda>t.
         if t = EOF \<or> t = SemiColon then return_st b
         else parser_err (''Unexpected token '' @ sp_show_token P t)))"

definition parse_create_external_table ::
    "'p sql_parser \<Rightarrow> nat \<Rightarrow> bool \<Rightarrow> ('p, parser_error, parsed_statement) st" where
  "parse_create_external_table P n unbounded =
     bind_st (sp_expect_keyword P K_TABLE) (\<lambda>_.
     bind_st (act (sp_parse_keywords P [K_IF, K_NOT, K_EXISTS])) (\<lambda>if_not_exists.
     bind_st (sp_parse_object_name P True) (\<lambda>table_name.
     bind_st (parse_columns P n) (\<lambda>(columns, constraints).
     bind_st (clauses_loop P n (empty_builder columns)) (\<lambda>b.
     case b_file_type b of
       None \<Rightarrow> parser_err ''Missing STORED AS clause in CREATE EXTERNAL TABLE statement''
     | Some file_type \<Rightarrow>
         (case b_location b of
            None \<Rightarrow> parser_err ''Missing LOCATION clause in CREATE EXTERNAL TABLE statement''
          | Some location \<Rightarrow>
              return_st (ExternalTable
                \<lparr>xt_name = sp_show_object_name P table_name, xt_columns = b_columns b, xt_file_type = file_type,
                 xt_location = location,
                 xt_table_partition_cols = (case b_table_partition_cols b of None \<Rightarrow> [] | Some ps \<Rightarrow> ps),
                 xt_order_exprs = b_order_exprs b, xt_if_not_exists = if_not_exists, xt_unbounded = unbounded,
                 xt_options = (case b_options b of None \<Rightarrow> [] | Some os \<Rightarrow> os),
                 xt_constraints = constraints\<rparr>)))))))"


subsection \<open>Statements\<close>

definition CONVERT_TO_DELTA :: "string \<times> literal" where
  "CONVERT_TO_DELTA = (''CONVERT_TO_DELTA'', VBoolean True)"

definition parse_convert :: "'p sql_parser \<Rightarrow> ('p, parser_error, parsed_statement) st" where
  "parse_convert P =
     bind_st (sp_parse_literal_string P) (\<lambda>location.
     bind_st (sp_expect_keywords P [K_TO, K_DELTA]) (\<lambda>_.
     bind_st (sp_parse_object_name P True) (\<lambda>table_name.
     return_st (CopyTo \<lparr>cp_source = CopyRelation table_name, cp_target = location, cp_options = [CONVERT_TO_DELTA]\<rparr>))))"

text \<open>A \<open>VACUUM\<close> travels as a \<open>Truncate\<close> with \<open>table = False\<close>.\<close>

definition parse_vacuum :: "'p sql_parser \<Rightarrow> ('p, parser_error, parsed_statement) st" where
  "parse_vacuum P =
     bind_st (act (sp_parse_keyword P K_TABLE)) (\<lambda>of_table.
     if of_table then
       bind_st (sp_parse_object_name P True) (\<lambda>table_name.
       return_st (SqlStatement (Truncate table_name None False)))
     else
       bind_st (act (sp_parse_keyword P K_DATABASE)) (\<lambda>of_database.
       if of_database then
         bind_st (sp_parse_object_name P False) (\<lambda>name.
         case name of
           [] \<Rightarrow> fail (ParserPanic ''index out of bounds'')
         | database_name # _ \<Rightarrow> return_st (SqlStatement (Truncate [] (Some [database_name]) False)))
       else expected_here P ''TABLE or DATABASE are supported VACUUM targets''))"

definition parse_truncate :: "'p sql_parser \<Rightarrow> ('p, parser_error, parsed_statement) st" where
  "parse_truncate P =
     bind_st (act (sp_parse_keyword P K_TABLE)) (\<lambda>of_table.
     if \<not> of_table then expected_here P ''TABLE as a TRUNCATE target''
     else
       bind_st (sp_parse_object_name P True) (\<lambda>table_name.
       return_st (SqlStatement (Truncate table_name None True))))"

definition parse_copy :: "'p sql_parser \<Rightarrow> nat \<Rightarrow> ('p, parser_error, parsed_statement) st" where
  "parse_copy P n =
     bind_st (act (sp_consume_token P LParen)) (\<lambda>parens.
     bind_st
       (if parens then
          bind_st (sp_parse_query P) (\<lambda>query.
          bind_st (sp_expect_token P RParen) (\<lambda>_. return_st (CopyQuery query)))
        else bind_st (sp_parse_object_name P True) (\<lambda>table_name. return_st (CopyRelation table_name)))
       (\<lambda>source.
     bind_st (sp_expect_keyword P K_TO) (\<lambda>_.
     bind_st (sp_parse_literal_string P) (\<lambda>target.
     bind_st (peek (sp_peek_token P)) (\<lambda>t.
     bind_st (if t = LParen then parse_value_options P n else return_st []) (\<lambda>options.
     return_st (CopyTo \<lparr>cp_source = source, cp_target = target, cp_options = options\<rparr>)))))))"

definition parse_create_function_body_string :: "'p sql_parser \<Rightarrow> ('p, parser_error, literal) st" where
  "parse_create_function_body_string P =
     bind_st (peek (sp_peek_token P)) (\<lambda>t.
     case t of
       DollarQuotedString s \<Rightarrow> bind_st (act (sp_next_token P)) (\<lambda>_. return_st (VDollarQuoted s))
     | _ \<Rightarrow> bind_st (sp_parse_literal_string P) (\<lambda>s. return_st (VSingleQuoted s)))"

definition parse_create_function :: "'p sql_parser \<Rightarrow> bool \<Rightarrow> bool \<Rightarrow> ('p, parser_error, parsed_statement) st" where
  "parse_create_function P or_replace temporary =
     bind_st (sp_parse_object_name P False) (\<lambda>name.
     bind_st (sp_expect_keyword P K_AS) (\<lambda>_.
     bind_st (parse_create_function_body_string P) (\<lambda>body.
     return_st (SqlStatement (CreateFunction or_replace temporary name body)))))"

definition parse_create :: "'p sql_parser \<Rightarrow> nat \<Rightarrow> ('p, parser_error, parsed_statement) st" where
  "parse_create P n =
     bind_st (act (sp_parse_keywords P [K_OR, K_REPLACE])) (\<lambda>or_replace.
     bind_st (act (sp_parse_keyword P K_EXTERNAL)) (\<lambda>is_external.
     if is_external then parse_create_external_table P n False
     else
       bind_st (act (sp_parse_keyword P K_UNBOUNDED)) (\<lambda>is_unbounded.
       if is_unbounded then
         bind_st (sp_expect_keyword P K_EXTERNAL) (\<lambda>_. parse_create_external_table P n True)
       else
         bind_st (act (sp_parse_keyword P K_FUNCTION)) (\<lambda>is_function.
         if is_function then parse_create_function P or_replace False
         else bind_st (sp_parse_create P) (\<lambda>s. return_st (SqlStatement (Native s)))))))"

definition parse_native :: "'p sql_parser \<Rightarrow> ('p, parser_error, parsed_statement) st" where
  "parse_native P = bind_st (sp_parse_statement P) (\<lambda>s. return_st (SqlStatement (Native s)))"

definition parse_statement :: "'p sql_parser \<Rightarrow> nat \<Rightarrow> ('p, parser_error, parsed_statement) st" where
  "parse_statement P n =
     bind_st (peek (sp_peek_token P)) (\<lambda>t.
     case t of
       Word _ kw \<Rightarrow>
         if kw = K_CREATE then bind_st (act (sp_next_token P)) (\<lambda>_. parse_create P n)
         else if kw = K_CONVERT then bind_st (act (sp_next_token P)) (\<lambda>_. parse_convert P)
         else if kw = K_COPY then bind_st (act (sp_next_token P)) (\<lambda>_. parse_copy P n)
         else if kw = K_VACUUM then bind_st (act (sp_next_token P)) (\<lambda>_. parse_vacuum P)
         else if kw = K_TRUNCATE then bind_st (act (sp_next_token P)) (\<lambda>_. parse_truncate P)
         else parse_native P
     | _ \<Rightarrow> parse_native P)"

text \<open>Skipping semicolons: whether a statement delimiter is still expected.\<close>

fun skip_semicolons :: "'p sql_parser \<Rightarrow> nat \<Rightarrow> bool \<Rightarrow> ('p, parser_error, bool) st" where
  "skip_semicolons P 0 expecting = fail OutOfFuel"
| "skip_semicolons P (Suc n) expecting =
     bind_st (act (sp_consume_token P SemiColon)) (\<lambda>semi.
     if semi then skip_semicolons P n False else return_st expecting)"

fun statements_loop ::
    "'p sql_parser \<Rightarrow> nat \<Rightarrow> bool \<Rightarrow> parsed_statement list \<Rightarrow> ('p, parser_error, parsed_statement list) st" where
  "statements_loop P 0 expecting stmts = fail OutOfFuel"
| "statements_loop P (Suc n) expecting stmts =
     bind_st (skip_semicolons P n expecting) (\<lambda>expecting'.
     bind_st (peek (sp_peek_token P)) (\<lambda>t.
     if t = EOF then return_st stmts
     else if expecting' then expected P ''end of statement'' t
     else bind_st (parse_statement P n) (\<lambda>s. statements_loop P n True (stmts @ [s]))))"

definition parse_sql :: "'p sql_parser \<Rightarrow> nat \<Rightarrow> string \<Rightarrow> (parser_error, parsed_statement list) result" where
  "parse_sql P n sql =
     bind_res (sp_tokenize P sql) (\<lambda>p. fst (statements_loop P n False [] p))"

end
