(* ===== verification/DFParserCorrect.thy ===== *)
theory DFParserCorrect
  imports DFParser
begin

text \<open>
  Properties of the SQL parser: what the methods of sqlparser promise (the locale \<open>cursor\<close>), that the number of
  tokens is enough fuel and more of it makes no difference, that printed options are parsed back, and
  what the statements \<open>COPY\<close>, \<open>CONVERT\<close>, \<open>CREATE OR REPLACE\<close> and \<open>CREATE EXTERNAL TABLE\<close> become.
\<close>

subsection \<open>What sqlparser promises\<close>

text \<open>\<open>toks p\<close> are the tokens, without white space, that are left; at the end the cursor reads \<open>EOF\<close>.\<close>

fun eat_keywords :: "keyword list \<Rightarrow> token list \<Rightarrow> token list option" where
  "eat_keywords [] ts = Some ts"
| "eat_keywords (k # ks) (Word v k' # ts) = (if k' = k then eat_keywords ks ts else None)"
| "eat_keywords (k # ks) ts = None"

definition eat_token :: "token \<Rightarrow> token list \<Rightarrow> token list option" where
  "eat_token t ts = (case ts of t' # r \<Rightarrow> if t' = t then Some r else None | [] \<Rightarrow> None)"

locale cursor =
  fixes P :: "'p sql_parser" and toks :: "'p \<Rightarrow> token list"
  assumes peek_nth_token_law: "sp_peek_nth_token P i p = (if i < length (toks p) then toks p ! i else EOF)"
    and next_token_law: "sp_next_token P p = (t, p') \<Longrightarrow>
      (case toks p of [] \<Rightarrow> t = EOF \<and> toks p' = [] | t' # ts \<Rightarrow> t = t' \<and> toks p' = ts)"
    and consume_token_law: "sp_consume_token P t p = (b, p') \<Longrightarrow>
      (case eat_token t (toks p) of None \<Rightarrow> \<not> b \<and> p' = p | Some ts \<Rightarrow> b \<and> toks p' = ts)"
    and expect_token_law: "sp_expect_token P t p = (r, p') \<Longrightarrow>
      (case eat_token t (toks p) of None \<Rightarrow> p' = p \<and> (\<exists>m. r = Inl (ParserError m)) | Some ts \<Rightarrow> r = Inr () \<and> toks p' = ts)"
    and parse_keywords_law: "sp_parse_keywords P ks p = (b, p') \<Longrightarrow>
      (case eat_keywords ks (toks p) of None \<Rightarrow> \<not> b \<and> p' = p | Some ts \<Rightarrow> b \<and> toks p' = ts)"
    and parse_keyword_law: "sp_parse_keyword P k = sp_parse_keywords P [k]"
    and parse_one_of_keywords_law: "sp_parse_one_of_keywords P ks p = (kw, p') \<Longrightarrow>
      (case kw of None \<Rightarrow> p' = p \<and> (\<forall>k\<in>set ks. eat_keywords [k] (toks p) = None)
       | Some k \<Rightarrow> k \<in> set ks \<and> eat_keywords [k] (toks p) = Some (toks p'))"
    and expect_keywords_law: "sp_expect_keywords P ks p = (r, p') \<Longrightarrow>
      (case eat_keywords ks (toks p) of None \<Rightarrow> (\<exists>m. r = Inl (ParserError m)) | Some ts \<Rightarrow> r = Inr () \<and> toks p' = ts)"
    and expect_keyword_law: "sp_expect_keyword P k = sp_expect_keywords P [k]"
    and object_name_law: "sp_parse_object_name P w p = (rn, p') \<Longrightarrow> length (toks p') \<le> length (toks p) \<and> rn \<noteq> Inl OutOfFuel"
    and identifier_law: "sp_parse_identifier P p = (ri, p') \<Longrightarrow> ri \<noteq> Inl OutOfFuel \<and> (is_ok ri \<longrightarrow> length (toks p') < length (toks p))"
    and literal_string_law: "sp_parse_literal_string P p = (rs, p') \<Longrightarrow> length (toks p') \<le> length (toks p) \<and> rs \<noteq> Inl OutOfFuel"
    and query_law: "sp_parse_query P p = (rs, p') \<Longrightarrow> length (toks p') \<le> length (toks p) \<and> rs \<noteq> Inl OutOfFuel"
    and expr_law: "sp_parse_expr P p = (rs, p') \<Longrightarrow> length (toks p') \<le> length (toks p) \<and> rs \<noteq> Inl OutOfFuel"
    and data_type_law: "sp_parse_data_type P p = (rs, p') \<Longrightarrow> length (toks p') \<le> length (toks p) \<and> rs \<noteq> Inl OutOfFuel"
    and column_option_law: "sp_parse_optional_column_option P p = (r', p') \<Longrightarrow>
      length (toks p') \<le> length (toks p) \<and> r' \<noteq> Inl OutOfFuel \<and> (\<forall>x. r' = Inr (Some x) \<longrightarrow> length (toks p') < length (toks p))"
    and table_constraint_law: "sp_parse_optional_table_constraint P p = (r', p') \<Longrightarrow>
      length (toks p') \<le> length (toks p) \<and> r' \<noteq> Inl OutOfFuel"
    and native_statement_law: "sp_parse_statement P p = (rs, p') \<Longrightarrow> length (toks p') \<le> length (toks p) \<and> rs \<noteq> Inl OutOfFuel"
    and native_create_law: "sp_parse_create P p = (rs, p') \<Longrightarrow> length (toks p') \<le> length (toks p) \<and> rs \<noteq> Inl OutOfFuel"
    and tokenize_law: "sp_tokenize P sql \<noteq> Inl OutOfFuel"
begin

text \<open>Running a parser: it does not run out of fuel, and a result satisfies \<open>Q\<close>.\<close>

definition runs :: "('p, parser_error, 'a) st \<Rightarrow> 'p \<Rightarrow> ('a \<Rightarrow> 'p \<Rightarrow> bool) \<Rightarrow> bool" where
  "runs m p Q \<longleftrightarrow> (case m p of (Inl e, _) \<Rightarrow> e \<noteq> OutOfFuel | (Inr x, p') \<Rightarrow> Q x p')"

abbreviation len :: "'p \<Rightarrow> nat" where
  "len p \<equiv> length (toks p)"

lemma runs_mono: "runs m p Q \<Longrightarrow> (\<And>x p'. Q x p' \<Longrightarrow> Q' x p') \<Longrightarrow> runs m p Q'"
  by (auto simp: runs_def split: prod.splits sum.splits)

lemma runs_bind: "runs m p (\<lambda>x p'. runs (f x) p' Q) \<Longrightarrow> runs (bind_st m f) p Q"
  by (auto simp: runs_def bind_st_def split: prod.splits sum.splits)

lemma runs_basic:
  "Q x p \<Longrightarrow> runs (return_st x) p Q"
  "e \<noteq> OutOfFuel \<Longrightarrow> runs (fail e) p Q"
  "Q (f p) p \<Longrightarrow> runs (peek f) p Q"
  "runs (parser_err msg) p Q"
  "runs (expected P what t) p Q"
  by (simp_all add: runs_def fail_def peek_def parser_err_def expected_def)

lemma runs_expected_here: "runs (expected_here P what) p Q"
  by (auto simp: expected_here_def intro!: runs_bind runs_basic)

lemma runs_not_set: "(field = None \<Longrightarrow> Q () p) \<Longrightarrow> runs (ensure_not_set field name) p Q"
  by (auto simp: ensure_not_set_def intro!: runs_basic)

lemmas runs_more = runs_expected_here runs_not_set

lemma eat_token_Some: "eat_token t ts = Some r \<longleftrightarrow> ts = t # r"
  by (auto simp: eat_token_def split: list.splits if_splits)

lemma eat_keywords_length: "eat_keywords ks ts = Some r \<Longrightarrow> length ts = length ks + length r"
  by (induction ks ts rule: eat_keywords.induct) (auto split: if_splits)

lemma runs_next: "(\<And>t p'. len p' \<le> len p \<Longrightarrow> t = EOF \<or> len p' < len p \<Longrightarrow> Q t p') \<Longrightarrow> runs (act (sp_next_token P)) p Q"
  using next_token_law [of p "fst (sp_next_token P p)" "snd (sp_next_token P p)"]
  by (auto simp: runs_def act_def split: prod.splits list.splits)

lemma runs_consume:
  "(\<And>b p'. len p' \<le> len p \<Longrightarrow> b \<longrightarrow> len p' < len p \<Longrightarrow> Q b p') \<Longrightarrow> runs (act (sp_consume_token P t)) p Q"
  using consume_token_law [of t p "fst (sp_consume_token P t p)" "snd (sp_consume_token P t p)"]
  by (auto simp: runs_def act_def eat_token_Some split: prod.splits option.splits)

lemma runs_expect: "(\<And>p'. len p' < len p \<Longrightarrow> Q () p') \<Longrightarrow> runs (sp_expect_token P t) p Q"
  using expect_token_law [of t p "fst (sp_expect_token P t p)" "snd (sp_expect_token P t p)"]
  by (auto simp: runs_def eat_token_Some split: prod.splits option.splits sum.splits)

lemma runs_keywords:
  "(\<And>b p'. len p' \<le> len p \<Longrightarrow> Q b p') \<Longrightarrow> runs (act (sp_parse_keywords P ks)) p Q"
  using parse_keywords_law [of ks p "fst (sp_parse_keywords P ks p)" "snd (sp_parse_keywords P ks p)"]
  by (auto simp: runs_def act_def dest!: eat_keywords_length split: prod.splits option.splits)

lemma runs_keyword:
  "(\<And>b p'. len p' \<le> len p \<Longrightarrow> b \<longrightarrow> len p' < len p \<Longrightarrow> Q b p') \<Longrightarrow> runs (act (sp_parse_keyword P k)) p Q"
  using parse_keywords_law [of "[k]" p "fst (sp_parse_keyword P k p)" "snd (sp_parse_keyword P k p)"]
  by (auto simp: runs_def act_def parse_keyword_law dest!: eat_keywords_length split: prod.splits option.splits)

lemma runs_one_of_keywords:
  assumes "Q None p" and "\<And>k p'. len p' < len p \<Longrightarrow> k \<in> set ks \<Longrightarrow> Q (Some k) p'"
  shows "runs (act (sp_parse_one_of_keywords P ks)) p Q"
proof -
  obtain kw p' where r: "sp_parse_one_of_keywords P ks p = (kw, p')"
    by (cases "sp_parse_one_of_keywords P ks p")
  show ?thesis
    using assms r parse_one_of_keywords_law [OF r]
    by (cases kw) (auto simp: runs_def act_def dest!: eat_keywords_length)
qed

lemma runs_expect_keywords: "(\<And>p'. len p' \<le> len p \<Longrightarrow> Q () p') \<Longrightarrow> runs (sp_expect_keywords P ks) p Q"
  using expect_keywords_law [of ks p "fst (sp_expect_keywords P ks p)" "snd (sp_expect_keywords P ks p)"]
  by (auto simp: runs_def dest!: eat_keywords_length split: prod.splits option.splits sum.splits)

lemma runs_expect_keyword: "(\<And>p'. len p' \<le> len p \<Longrightarrow> Q () p') \<Longrightarrow> runs (sp_expect_keyword P k) p Q"
  unfolding expect_keyword_law by (rule runs_expect_keywords)

lemma runs_column_option:
  assumes "\<And>p'. len p' \<le> len p \<Longrightarrow> Q None p'" and "\<And>y p'. len p' < len p \<Longrightarrow> Q (Some y) p'"
  shows "runs (sp_parse_optional_column_option P) p Q"
proof -
  obtain r p' where r: "sp_parse_optional_column_option P p = (r, p')"
    by (cases "sp_parse_optional_column_option P p")
  show ?thesis
  proof (cases r)
    case (Inl e)
    then show ?thesis using r column_option_law [OF r] by (simp add: runs_def)
  next
    case (Inr x)
    then show ?thesis using assms r column_option_law [OF r] by (cases x) (simp_all add: runs_def)
  qed
qed

lemma runs_opaque:
  "(\<And>x p'. len p' \<le> len p \<Longrightarrow> Q1 x p') \<Longrightarrow> runs (sp_parse_object_name P w) p Q1"
  "(\<And>x p'. len p' \<le> len p \<Longrightarrow> Q2 x p') \<Longrightarrow> runs (sp_parse_literal_string P) p Q2"
  "(\<And>x p'. len p' \<le> len p \<Longrightarrow> Q2 x p') \<Longrightarrow> runs (sp_parse_query P) p Q2"
  "(\<And>x p'. len p' \<le> len p \<Longrightarrow> Q2 x p') \<Longrightarrow> runs (sp_parse_expr P) p Q2"
  "(\<And>x p'. len p' \<le> len p \<Longrightarrow> Q2 x p') \<Longrightarrow> runs (sp_parse_data_type P) p Q2"
  "(\<And>x p'. len p' \<le> len p \<Longrightarrow> Q2 x p') \<Longrightarrow> runs (sp_parse_statement P) p Q2"
  "(\<And>x p'. len p' \<le> len p \<Longrightarrow> Q2 x p') \<Longrightarrow> runs (sp_parse_create P) p Q2"
  "(\<And>x p'. len p' \<le> len p \<Longrightarrow> Q3 x p') \<Longrightarrow> runs (sp_parse_optional_table_constraint P) p Q3"
  "(\<And>x p'. len p' < len p \<Longrightarrow> Q4 x p') \<Longrightarrow> runs (sp_parse_identifier P) p Q4"
  by (auto simp: runs_def is_ok_iff split: prod.splits sum.splits option.splits
      dest: object_name_law literal_string_law query_law expr_law data_type_law native_statement_law
        native_create_law table_constraint_law identifier_law)

lemmas runs_intros =
  runs_bind runs_basic runs_more runs_next runs_consume runs_expect runs_keywords runs_keyword
  runs_one_of_keywords runs_expect_keywords runs_expect_keyword runs_column_option runs_opaque

lemma runs_if: "(b \<Longrightarrow> runs x p Q) \<Longrightarrow> (\<not> b \<Longrightarrow> runs y p Q) \<Longrightarrow> runs (if b then x else y) p Q"
  by simp

lemma runs_list_continues:
  "(\<And>b p'. len p' \<le> len p \<Longrightarrow> b \<longrightarrow> len p' < len p \<Longrightarrow> Q b p') \<Longrightarrow> runs (list_continues P what) p Q"
  unfolding list_continues_def by (intro runs_intros runs_if) auto

lemma runs_list_opens: "(\<And>b p'. len p' \<le> len p \<Longrightarrow> Q b p') \<Longrightarrow> runs (list_opens P) p Q"
  unfolding list_opens_def by (intro runs_intros runs_if) auto

lemma runs_key_parts:
  "len p < n \<Longrightarrow> (\<And>x p'. len p' \<le> len p \<Longrightarrow> Q x p') \<Longrightarrow> runs (key_parts P n parts) p Q"
proof (induction n arbitrary: p parts)
  case (Suc n)
  then show ?case by (auto intro!: runs_intros runs_if split: token.split)
qed simp

lemma runs_option_key:
  assumes "len p \<le> n" and "\<And>x p'. len p' \<le> len p \<Longrightarrow> Q x p'"
  shows "runs (parse_option_key P n) p Q"
  unfolding parse_option_key_def using assms by (auto intro!: runs_intros runs_key_parts split: token.split)

lemma runs_option_value:
  assumes "\<And>x p'. len p' \<le> len p \<Longrightarrow> Q x p'"
  shows "runs (parse_option_value P) p Q"
  unfolding parse_option_value_def using assms by (auto intro!: runs_intros split: token.split)

lemma runs_value_options_loop:
  "len p < n \<Longrightarrow> (\<And>x p'. len p' \<le> len p \<Longrightarrow> Q x p') \<Longrightarrow> runs (value_options_loop P n os) p Q"
proof (induction n arbitrary: p os)
  case (Suc n)
  then show ?case
    by (auto intro!: runs_bind runs_basic runs_option_key runs_option_value runs_list_continues)
qed simp

lemma runs_value_options:
  assumes "len p < n" and "\<And>x p'. len p' \<le> len p \<Longrightarrow> Q x p'"
  shows "runs (parse_value_options P n) p Q"
  unfolding parse_value_options_def using assms by (auto intro!: runs_bind runs_expect runs_value_options_loop)

lemma runs_partitions_loop:
  "len p < n \<Longrightarrow> (\<And>x p'. len p' \<le> len p \<Longrightarrow> Q x p') \<Longrightarrow> runs (partitions_loop P n ps) p Q"
proof (induction n arbitrary: p ps)
  case (Suc n)
  then show ?case
    by (auto simp: Let_def intro!: runs_bind runs_basic runs_more runs_opaque runs_list_continues)
qed simp

lemma runs_partitions:
  assumes "len p < n" and "\<And>x p'. len p' \<le> len p \<Longrightarrow> Q x p'"
  shows "runs (parse_partitions P n) p Q"
  unfolding parse_partitions_def using assms
  by (auto intro!: runs_bind runs_basic runs_list_opens runs_partitions_loop)

lemma runs_order_by_expr:
  assumes "\<And>x p'. len p' \<le> len p \<Longrightarrow> Q x p'"
  shows "runs (parse_order_by_expr P) p Q"
  unfolding parse_order_by_expr_def by (intro runs_intros runs_if assms) auto

lemma runs_order_by_loop:
  "len p < n \<Longrightarrow> (\<And>x p'. len p' \<le> len p \<Longrightarrow> Q x p') \<Longrightarrow> runs (order_by_loop P n es) p Q"
proof (induction n arbitrary: p es)
  case (Suc n)
  then show ?case
    by (auto intro!: runs_bind runs_basic runs_consume runs_expect runs_order_by_expr)
qed simp

lemma runs_order_by_exprs:
  assumes "len p < n" and "\<And>x p'. len p' \<le> len p \<Longrightarrow> Q x p'"
  shows "runs (parse_order_by_exprs P n) p Q"
  unfolding parse_order_by_exprs_def using assms by (auto intro!: runs_bind runs_expect runs_order_by_loop)

lemma runs_column_options:
  "len p < n \<Longrightarrow> (\<And>x p'. len p' \<le> len p \<Longrightarrow> Q x p') \<Longrightarrow> runs (column_options P n os) p Q"
proof (induction n arbitrary: p os)
  case (Suc n)
  then show ?case
    by (auto intro!: runs_bind runs_basic runs_more runs_keyword runs_column_option runs_opaque)
qed simp

lemma runs_column_def:
  assumes "len p \<le> n" and "\<And>x p'. len p' \<le> len p \<Longrightarrow> Q x p'"
  shows "runs (parse_column_def P n) p Q"
  unfolding parse_column_def_def using assms
  by (auto intro!: runs_bind runs_basic runs_keyword runs_opaque runs_column_options)

lemma runs_columns_loop:
  "len p < n \<Longrightarrow> (\<And>x p'. len p' \<le> len p \<Longrightarrow> Q x p') \<Longrightarrow> runs (columns_loop P n cs ks) p Q"
proof (induction n arbitrary: p cs ks)
  case (Suc n)
  then show ?case
    by (auto intro!: runs_bind runs_basic runs_more runs_opaque runs_column_def runs_list_continues split: option.split)
qed simp

lemma runs_columns:
  assumes "len p < n" and "\<And>x p'. len p' \<le> len p \<Longrightarrow> Q x p'"
  shows "runs (parse_columns P n) p Q"
  unfolding parse_columns_def using assms
  by (auto intro!: runs_bind runs_basic runs_list_opens runs_columns_loop)

lemma runs_file_format:
  assumes "\<And>x p'. len p' \<le> len p \<Longrightarrow> Q x p'"
  shows "runs (parse_file_format P) p Q"
  unfolding parse_file_format_def using assms by (auto intro!: runs_intros split: token.split)

lemma runs_partitioned:
  assumes "len p < n" and "\<And>x p'. len p' \<le> len p \<Longrightarrow> Q x p'"
  shows "runs (parse_partitioned P n b) p Q"
  unfolding parse_partitioned_def using assms
  by (auto intro!: runs_bind runs_basic runs_more runs_expect_keyword runs_partitions runs_columns)

lemma runs_clause:
  assumes "len p < n" and "\<And>x p'. len p' \<le> len p \<Longrightarrow> Q x p'"
  shows "runs (parse_clause P n kw b) p Q"
  unfolding parse_clause_def using assms
  by (auto intro!: runs_bind runs_basic runs_more runs_expect_keyword runs_keyword runs_opaque
      runs_file_format runs_partitioned runs_order_by_exprs runs_value_options)

lemma runs_clauses_loop:
  "len p < n \<Longrightarrow> (\<And>x p'. len p' \<le> len p \<Longrightarrow> Q x p') \<Longrightarrow> runs (clauses_loop P n b) p Q"
proof (induction n arbitrary: p b)
  case (Suc n)
  then show ?case
    by (auto intro!: runs_bind runs_basic runs_one_of_keywords runs_clause)
qed simp

lemma runs_create_external_table:
  assumes "len p < n" and "\<And>x p'. len p' \<le> len p \<Longrightarrow> Q x p'"
  shows "runs (parse_create_external_table P n unbounded) p Q"
  unfolding parse_create_external_table_def using assms
  by (auto intro!: runs_bind runs_basic runs_expect_keyword runs_keywords runs_opaque runs_columns runs_clauses_loop
      split: option.split)

lemma runs_simple_statements:
  assumes "\<And>x p'. len p' \<le> len p \<Longrightarrow> Q x p'"
  shows "runs (parse_convert P) p Q" and "runs (parse_vacuum P) p Q" and "runs (parse_truncate P) p Q"
    and "runs (parse_create_function P orr temp) p Q" and "runs (parse_native P) p Q"
  unfolding parse_convert_def parse_vacuum_def parse_truncate_def parse_create_function_def
    parse_create_function_body_string_def parse_native_def
  using assms
  by (auto intro!: runs_bind runs_basic runs_more runs_expect_keyword runs_expect_keywords runs_keyword runs_next
      runs_opaque split: list.split token.split)

lemma runs_copy:
  assumes "len p < n" and "\<And>x p'. len p' \<le> len p \<Longrightarrow> Q x p'"
  shows "runs (parse_copy P n) p Q"
  unfolding parse_copy_def using assms
  by (auto intro!: runs_bind runs_basic runs_consume runs_expect runs_expect_keyword runs_opaque runs_value_options)

lemma runs_create:
  assumes "len p < n" and "\<And>x p'. len p' \<le> len p \<Longrightarrow> Q x p'"
  shows "runs (parse_create P n) p Q"
  unfolding parse_create_def using assms
  by (auto intro!: runs_bind runs_basic runs_keywords runs_keyword runs_expect_keyword runs_opaque
      runs_create_external_table runs_simple_statements(4))

lemma runs_statement:
  assumes "len p < n" and "\<And>x p'. len p' \<le> len p \<Longrightarrow> Q x p'"
  shows "runs (parse_statement P n) p Q"
  unfolding parse_statement_def using assms
  by (auto intro!: runs_bind runs_basic runs_next runs_create runs_copy runs_simple_statements split: token.split)

lemma runs_skip_semicolons:
  "len p < n \<Longrightarrow> Q expecting p \<Longrightarrow> (\<And>p'. len p' < len p \<Longrightarrow> Q False p') \<Longrightarrow> runs (skip_semicolons P n expecting) p Q"
proof (induction n arbitrary: p expecting)
  case (Suc n)
  show ?case
    unfolding skip_semicolons.simps
  proof (intro runs_bind)
    obtain b p' where r: "sp_consume_token P SemiColon p = (b, p')" by (cases "sp_consume_token P SemiColon p")
    show "runs (act (sp_consume_token P SemiColon)) p
        (\<lambda>semi p'. runs (if semi then skip_semicolons P n False else return_st expecting) p' Q)"
      using consume_token_law [OF r] r Suc.prems Suc.IH [of p' False]
      by (cases b) (auto simp: runs_def act_def eat_token_Some split: option.splits)
  qed
qed simp

text \<open>Every round of the statement loop but the first begins with a semicolon.\<close>

lemma runs_statements_loop:
  "len p + (if expecting then 2 else 3) \<le> n \<Longrightarrow> runs (statements_loop P n expecting stmts) p (\<lambda>_ _. True)"
proof (induction n arbitrary: p expecting stmts)
  case (Suc n)
  then show ?case
    by (auto intro!: runs_bind runs_basic runs_skip_semicolons runs_statement split: if_splits)
qed (simp split: if_splits)

lemma parse_sql_enough_fuel:
  assumes "\<And>p. sp_tokenize P sql = Inr p \<Longrightarrow> length (toks p) + 3 \<le> n"
  shows "parse_sql P n sql \<noteq> Inl OutOfFuel"
proof (cases "sp_tokenize P sql")
  case (Inl e)
  then show ?thesis using tokenize_law [of sql] by (simp add: parse_sql_def)
next
  case (Inr p)
  have "runs (statements_loop P n False []) p (\<lambda>_ _. True)"
    using runs_statements_loop [of p False n] assms [OF Inr] by simp
  then show ?thesis using Inr by (auto simp: parse_sql_def runs_def split: prod.splits sum.splits)
qed

text \<open>A parser that succeeds with a value and leaves certain tokens.\<close>

definition yields :: "('p, parser_error, 'a) st \<Rightarrow> 'p \<Rightarrow> 'a \<Rightarrow> token list \<Rightarrow> bool" where
  "yields m p x ts \<longleftrightarrow> (\<exists>p'. m p = (Inr x, p') \<and> toks p' = ts)"

lemma yields_bind:
  assumes "yields m p x ts" and "\<And>p'. toks p' = ts \<Longrightarrow> yields (f x) p' y us"
  shows "yields (bind_st m f) p y us"
  using assms by (fastforce simp: yields_def bind_st_def)

lemma yields_return: "toks p = ts \<Longrightarrow> yields (return_st x) p x ts"
  by (simp add: yields_def)

lemma yields_peek: "toks p = ts \<Longrightarrow> x = f p \<Longrightarrow> yields (peek f) p x ts"
  by (simp add: yields_def peek_def)

lemma yields_next: "toks p = t # ts \<Longrightarrow> yields (act (sp_next_token P)) p t ts"
  using next_token_law [of p "fst (sp_next_token P p)" "snd (sp_next_token P p)"]
  by (auto simp: yields_def act_def split: prod.splits)

lemma yields_consume: "toks p = t # ts \<Longrightarrow> yields (act (sp_consume_token P t)) p True ts"
  using consume_token_law [of t p "fst (sp_consume_token P t p)" "snd (sp_consume_token P t p)"]
  by (auto simp: yields_def act_def eat_token_def split: prod.splits)

lemma yields_no_consume:
  "toks p = t' # ts \<Longrightarrow> t' \<noteq> t \<Longrightarrow> yields (act (sp_consume_token P t)) p False (t' # ts)"
  using consume_token_law [of t p "fst (sp_consume_token P t p)" "snd (sp_consume_token P t p)"]
  by (auto simp: yields_def act_def eat_token_def split: prod.splits)

lemma yields_expect: "toks p = t # ts \<Longrightarrow> yields (sp_expect_token P t) p () ts"
  using expect_token_law [of t p "fst (sp_expect_token P t p)" "snd (sp_expect_token P t p)"]
  by (cases "sp_expect_token P t p") (auto simp: yields_def eat_token_def)

lemma yields_keywords:
  "eat_keywords ks (toks p) = Some ts \<Longrightarrow> yields (act (sp_parse_keywords P ks)) p True ts"
  "eat_keywords ks (toks p) = None \<Longrightarrow> toks p = us \<Longrightarrow> yields (act (sp_parse_keywords P ks)) p False us"
  using parse_keywords_law [of ks p "fst (sp_parse_keywords P ks p)" "snd (sp_parse_keywords P ks p)"]
  by (auto simp: yields_def act_def split: prod.splits)

lemmas yields_keyword = yields_keywords [where ks = "[k]" for k, folded parse_keyword_law]

end


subsection \<open>More fuel gives the same result\<close>

definition extends :: "('p, parser_error, 'a) st \<Rightarrow> ('p, parser_error, 'a) st \<Rightarrow> bool" where
  "extends m m' \<longleftrightarrow> (\<forall>p. fst (m p) \<noteq> Inl OutOfFuel \<longrightarrow> m' p = m p)"

lemma extends_refl: "extends m m"
  by (simp add: extends_def)

lemma extends_fail: "extends (fail OutOfFuel) m"
  by (simp add: extends_def fail_def)

lemma extends_bind:
  assumes "extends m m'" and "\<And>x. extends (f x) (f' x)"
  shows "extends (bind_st m f) (bind_st m' f')"
  unfolding extends_def
proof (intro allI impI)
  fix p
  assume *: "fst (bind_st m f p) \<noteq> Inl OutOfFuel"
  show "bind_st m' f' p = bind_st m f p"
  proof (cases "m p")
    case (Pair r q)
    then show ?thesis
      using * assms by (cases r) (auto simp: bind_st_def extends_def)
  qed
qed

lemma extends_if: "(b \<Longrightarrow> extends x x') \<Longrightarrow> (\<not> b \<Longrightarrow> extends y y') \<Longrightarrow> extends (if b then x else y) (if b then x' else y')"
  by simp

lemmas extends_intros = extends_refl extends_bind extends_if

lemma extends_key_parts: "extends (key_parts P n parts) (key_parts P (Suc n) parts)"
proof (induction n arbitrary: parts)
  case (Suc n)
  then show ?case by (auto intro!: extends_intros split: token.split)
qed (simp add: extends_fail)

lemma extends_option_key: "extends (parse_option_key P n) (parse_option_key P (Suc n))"
  unfolding parse_option_key_def
  by (auto intro!: extends_bind extends_refl extends_key_parts simp del: key_parts.simps split: token.split)

lemma extends_value_options_loop: "extends (value_options_loop P n os) (value_options_loop P (Suc n) os)"
proof (induction n arbitrary: os)
  case (Suc n)
  then show ?case by (subst (1 2) value_options_loop.simps) (intro extends_intros extends_option_key)
qed (simp add: extends_fail)

lemma extends_partitions_loop: "extends (partitions_loop P n ps) (partitions_loop P (Suc n) ps)"
proof (induction n arbitrary: ps)
  case (Suc n)
  then show ?case by (subst (1 2) partitions_loop.simps) (unfold Let_def, intro extends_intros)
qed (simp add: extends_fail)

lemma extends_order_by_loop: "extends (order_by_loop P n es) (order_by_loop P (Suc n) es)"
proof (induction n arbitrary: es)
  case (Suc n)
  then show ?case by (subst (1 2) order_by_loop.simps) (intro extends_intros)
qed (simp add: extends_fail)

lemma extends_column_options: "extends (column_options P n os) (column_options P (Suc n) os)"
proof (induction n arbitrary: os)
  case (Suc n)
  then show ?case by (subst (1 2) column_options.simps) (auto intro!: extends_intros split: option.split)
qed (simp add: extends_fail)

lemma extends_column_def: "extends (parse_column_def P n) (parse_column_def P (Suc n))"
  unfolding parse_column_def_def by (intro extends_bind extends_refl extends_column_options)

lemma extends_columns_loop: "extends (columns_loop P n cs ks) (columns_loop P (Suc n) cs ks)"
proof (induction n arbitrary: cs ks)
  case (Suc n)
  then show ?case
    by (subst (1 2) columns_loop.simps) (auto intro!: extends_intros extends_column_def split: option.split)
qed (simp add: extends_fail)

lemma extends_lists:
  "extends (parse_value_options P n) (parse_value_options P (Suc n))"
  "extends (parse_partitions P n) (parse_partitions P (Suc n))"
  "extends (parse_order_by_exprs P n) (parse_order_by_exprs P (Suc n))"
  "extends (parse_columns P n) (parse_columns P (Suc n))"
  unfolding parse_value_options_def parse_partitions_def parse_order_by_exprs_def parse_columns_def
  by (intro extends_intros extends_value_options_loop extends_partitions_loop extends_order_by_loop
      extends_columns_loop)+

lemma extends_clause: "extends (parse_clause P n kw b) (parse_clause P (Suc n) kw b)"
  unfolding parse_clause_def parse_partitioned_def by (intro extends_intros extends_lists)

lemma extends_clauses_loop: "extends (clauses_loop P n b) (clauses_loop P (Suc n) b)"
proof (induction n arbitrary: b)
  case (Suc n)
  then show ?case
    by (subst (1 2) clauses_loop.simps) (auto intro!: extends_bind extends_refl extends_clause split: option.split)
qed (simp add: extends_fail)

lemma extends_external_table:
  "extends (parse_create_external_table P n u) (parse_create_external_table P (Suc n) u)"
  unfolding parse_create_external_table_def
  by (auto intro!: extends_bind extends_refl extends_lists extends_clauses_loop
      simp del: clauses_loop.simps split: option.split)

lemma extends_statement: "extends (parse_statement P n) (parse_statement P (Suc n))"
proof -
  have "extends (parse_create P n) (parse_create P (Suc n))"
    unfolding parse_create_def by (intro extends_intros extends_external_table)
  moreover have "extends (parse_copy P n) (parse_copy P (Suc n))"
    unfolding parse_copy_def by (intro extends_intros extends_lists)
  ultimately show ?thesis
    unfolding parse_statement_def by (auto intro!: extends_bind extends_refl split: token.split)
qed

lemma extends_skip_semicolons: "extends (skip_semicolons P n b) (skip_semicolons P (Suc n) b)"
proof (induction n arbitrary: b)
  case (Suc n)
  then show ?case by (subst (1 2) skip_semicolons.simps) (intro extends_intros)
qed (simp add: extends_fail)

lemma extends_statements_loop: "extends (statements_loop P n b ss) (statements_loop P (Suc n) b ss)"
proof (induction n arbitrary: b ss)
  case (Suc n)
  then show ?case
    by (subst (1 2) statements_loop.simps) (intro extends_intros extends_skip_semicolons extends_statement)
qed (simp add: extends_fail)

lemma parse_sql_more_fuel:
  assumes "parse_sql P n sql \<noteq> Inl OutOfFuel"
  shows "parse_sql P (n + k) sql = parse_sql P n sql"
proof (induction k)
  case (Suc k)
  have "parse_sql P (Suc m) sql = parse_sql P m sql" if "parse_sql P m sql \<noteq> Inl OutOfFuel" for m
    using that extends_statements_loop [of P m False "[]"]
    by (cases "sp_tokenize P sql") (simp_all add: parse_sql_def extends_def)
  with Suc assms show ?case by simp
qed simp


subsection \<open>A cursor over a list of tokens\<close>

definition list_word :: "(string \<Rightarrow> 'a) \<Rightarrow> (token list, parser_error, 'a) st" where
  "list_word f ts = (case ts of
      Word v _ # r \<Rightarrow> (Inr (f v), r)
    | _ \<Rightarrow> (Inl (ParserError ''Expected word''), ts))"

definition list_keywords :: "keyword list \<Rightarrow> token list \<Rightarrow> bool \<times> token list" where
  "list_keywords ks ts = (case eat_keywords ks ts of None \<Rightarrow> (False, ts) | Some r \<Rightarrow> (True, r))"

definition list_expect_keywords :: "keyword list \<Rightarrow> (token list, parser_error, unit) st" where
  "list_expect_keywords ks ts =
     (case eat_keywords ks ts of None \<Rightarrow> (Inl (ParserError ''Expected keyword''), ts) | Some r \<Rightarrow> (Inr (), r))"

definition list_parser :: "(string \<Rightarrow> token list) \<Rightarrow> token list sql_parser" where
  "list_parser tokenizer =
     \<lparr>sp_tokenize = (\<lambda>sql. Inr (tokenizer sql)),
      sp_peek_nth_token = (\<lambda>i ts. if i < length ts then ts ! i else EOF),
      sp_next_token = (\<lambda>ts. case ts of [] \<Rightarrow> (EOF, []) | t # r \<Rightarrow> (t, r)),
      sp_consume_token = (\<lambda>t ts. case eat_token t ts of None \<Rightarrow> (False, ts) | Some r \<Rightarrow> (True, r)),
      sp_expect_token = (\<lambda>t ts. case eat_token t ts of
        None \<Rightarrow> (Inl (ParserError ''Expected token''), ts) | Some r \<Rightarrow> (Inr (), r)),
      sp_parse_keyword = (\<lambda>k. list_keywords [k]),
      sp_parse_keywords = list_keywords,
      sp_parse_one_of_keywords = (\<lambda>ks ts.
        case find (\<lambda>k. eat_keywords [k] ts \<noteq> None) ks of
          None \<Rightarrow> (None, ts) | Some k \<Rightarrow> (Some k, the (eat_keywords [k] ts))),
      sp_expect_keyword = (\<lambda>k. list_expect_keywords [k]),
      sp_expect_keywords = list_expect_keywords,
      sp_parse_object_name = (\<lambda>_. list_word (\<lambda>v. [Ident v None])),
      sp_parse_identifier = list_word (\<lambda>v. Ident v None),
      sp_parse_literal_string = (\<lambda>ts. case ts of
        SingleQuotedString s # r \<Rightarrow> (Inr s, r) | _ \<Rightarrow> (Inl (ParserError ''Expected literal string''), ts)),
      sp_parse_query = (\<lambda>ts. (Inr ''query'', dropWhile (\<lambda>t. t \<noteq> RParen) ts)),
      sp_parse_expr = list_word (\<lambda>v. v),
      sp_parse_data_type = list_word (\<lambda>v. v),
      sp_parse_optional_column_option = (\<lambda>ts. case ts of
        Word v (OtherKeyword o') # r \<Rightarrow> (Inr (Some v), r) | _ \<Rightarrow> (Inr None, ts)),
      sp_parse_optional_table_constraint = (\<lambda>ts. (Inr None, ts)),
      sp_parse_statement = (\<lambda>ts. (Inr ''statement'', dropWhile (\<lambda>t. t \<noteq> SemiColon) ts)),
      sp_parse_create = (\<lambda>ts. (Inr ''create'', dropWhile (\<lambda>t. t \<noteq> SemiColon) ts)),
      sp_show_token = (\<lambda>_. ''token''),
      sp_show_ident = (\<lambda>i. case i of Ident v _ \<Rightarrow> v),
      sp_show_object_name = (\<lambda>name. join_dots (map (\<lambda>i. case i of Ident v _ \<Rightarrow> v) name))\<rparr>"

lemma list_word_length:
  "list_word f ts = (r, ts') \<Longrightarrow> length ts' \<le> length ts \<and> r \<noteq> Inl OutOfFuel \<and> (is_ok r \<longrightarrow> length ts' < length ts)"
  by (auto simp: list_word_def split: list.splits token.splits)

interpretation list_cursor: cursor "list_parser tokenizer" "\<lambda>ts. ts" for tokenizer
proof unfold_locales
  fix ks p kw p'
  assume *: "sp_parse_one_of_keywords (list_parser tokenizer) ks p = (kw, p')"
  show "case kw of None \<Rightarrow> p' = p \<and> (\<forall>k\<in>set ks. eat_keywords [k] p = None)
      | Some k \<Rightarrow> k \<in> set ks \<and> eat_keywords [k] p = Some p'"
  proof (cases "find (\<lambda>k. eat_keywords [k] p \<noteq> None) ks")
    case None
    with * have "kw = None" and "p' = p" by (simp_all add: list_parser_def)
    with None show ?thesis by (simp add: find_None_iff)
  next
    case (Some k)
    with * have "kw = Some k" and "p' = the (eat_keywords [k] p)" by (simp_all add: list_parser_def)
    with find_SomeD [OF Some] show ?thesis by (simp del: eat_keywords.simps)
  qed
qed (auto simp: list_parser_def list_keywords_def list_expect_keywords_def length_dropWhile_le
      dest: list_word_length split: option.splits list.splits token.splits keyword.splits prod.splits)


subsection \<open>Printing options\<close>

datatype key_syntax = Quoted string | Dotted string "string list"

fun key_text :: "key_syntax \<Rightarrow> string" where
  "key_text (Quoted s) = s"
| "key_text (Dotted w ws) = join_dots (w # ws)"

fun key_tokens :: "key_syntax \<Rightarrow> token list" where
  "key_tokens (Quoted s) = [SingleQuotedString s]"
| "key_tokens (Dotted w ws) = Word w NoKeyword # concat (map (\<lambda>x. [Period, Word x NoKeyword]) ws)"

fun value_token :: "literal \<Rightarrow> token" where
  "value_token (VSingleQuoted s) = SingleQuotedString s"
| "value_token (VDoubleQuoted s) = DoubleQuotedString s"
| "value_token (VEscaped s) = EscapedStringLiteral s"
| "value_token (VNumber x l) = Number x l"
| "value_token _ = OtherToken []"

fun printable :: "literal \<Rightarrow> bool" where
  "printable (VDollarQuoted _) = False"
| "printable (VBoolean _) = False"
| "printable _ = True"

fun option_list_tokens :: "bool \<Rightarrow> (key_syntax \<times> literal) list \<Rightarrow> token list" where
  "option_list_tokens trailing [] = []"
| "option_list_tokens trailing [(k, v)] =
     key_tokens k @ [value_token v] @ (if trailing then [Comma] else []) @ [RParen]"
| "option_list_tokens trailing ((k, v) # kv # r) =
     key_tokens k @ [value_token v, Comma] @ option_list_tokens trailing (kv # r)"

lemma key_tokens_first: "\<exists>t ts. key_tokens k = t # ts \<and> t \<noteq> RParen"
  by (cases k) auto

lemma option_list_first: "opts \<noteq> [] \<Longrightarrow> \<exists>t ts. option_list_tokens tr opts @ rest = t # ts \<and> t \<noteq> RParen"
  using key_tokens_first
  by (induction tr opts rule: option_list_tokens.induct) (auto, (metis append_Cons)+)

lemma value_token_not_period: "value_token v \<noteq> Period"
  by (cases v) auto

context cursor
begin

lemma yields_key_parts:
  assumes "toks p = concat (map (\<lambda>x. [Period, Word x NoKeyword]) ws) @ t # ts" and "t \<noteq> Period" and "length ws < n"
  shows "yields (key_parts P n parts) p (parts @ ws) (t # ts)"
  using assms
proof (induction ws arbitrary: p parts n)
  case Nil
  then obtain m where "n = Suc m" by (cases n) auto
  then show ?case
    using Nil by (auto intro!: yields_bind [OF yields_no_consume] yields_return)
next
  case (Cons w ws)
  then obtain m where n: "n = Suc m" by (cases n) auto
  show ?case
    unfolding n key_parts.simps
  proof (rule yields_bind [OF yields_consume])
    show "toks p = Period # (Word w NoKeyword # concat (map (\<lambda>x. [Period, Word x NoKeyword]) ws) @ t # ts)"
      using Cons.prems(1) by simp
    fix q
    assume q: "toks q = Word w NoKeyword # concat (map (\<lambda>x. [Period, Word x NoKeyword]) ws) @ t # ts"
    have step: "yields (key_parts P m (parts @ [w])) q' (parts @ w # ws) (t # ts)"
      if "toks q' = concat (map (\<lambda>x. [Period, Word x NoKeyword]) ws) @ t # ts" for q'
      using Cons.IH [OF that Cons.prems(2), of m "parts @ [w]"] Cons.prems(3) n by simp
    show "yields (if True then bind_st (act (sp_next_token P)) (\<lambda>t. case t of
          Word value _ \<Rightarrow> key_parts P m (parts @ [value]) | _ \<Rightarrow> expected P ''key name'' t) else return_st parts) q
        (parts @ w # ws) (t # ts)"
      using step by (auto intro!: yields_bind [OF yields_next [OF q]])
  qed
qed

lemma yields_option_key:
  assumes "toks p = key_tokens k @ t # ts" and "t \<noteq> Period" and "length (key_tokens k) \<le> n"
  shows "yields (parse_option_key P n) p (key_text k) (t # ts)"
proof (cases k)
  case (Quoted s)
  with assms(1) show ?thesis
    unfolding parse_option_key_def by (auto intro!: yields_bind [OF yields_next] yields_return)
next
  case (Dotted w ws)
  have "length (concat (map (\<lambda>x. [Period, Word x NoKeyword]) ws)) = 2 * length ws"
    by (induction ws) auto
  then have "length ws < n" using assms(3) Dotted by simp
  then have parts: "yields (key_parts P n [w]) q (w # ws) (t # ts)"
    if "toks q = concat (map (\<lambda>x. [Period, Word x NoKeyword]) ws) @ t # ts" for q
    using yields_key_parts [OF that assms(2), of n "[w]"] by simp
  have p: "toks p = Word w NoKeyword # concat (map (\<lambda>x. [Period, Word x NoKeyword]) ws) @ t # ts"
    using assms(1) Dotted by simp
  show ?thesis
    unfolding parse_option_key_def Dotted key_text.simps
    by (rule yields_bind [OF yields_next [OF p]]) (auto intro!: yields_bind [OF parts] yields_return)
qed

lemma yields_option_value:
  assumes "toks p = value_token v # ts" and "printable v"
  shows "yields (parse_option_value P) p v ts"
  unfolding parse_option_value_def using assms
  by (cases v) (auto intro!: yields_bind [OF yields_next] yields_return)

lemma yields_list_continues:
  "toks p = Comma # t # ts \<Longrightarrow> t \<noteq> RParen \<Longrightarrow> yields (list_continues P what) p True (t # ts)"
  "toks p = (if tr then [Comma] else []) @ RParen # ts \<Longrightarrow> yields (list_continues P what) p False ts"
proof -
  show "yields (list_continues P what) p True (t # ts)" if "toks p = Comma # t # ts" "t \<noteq> RParen"
    unfolding list_continues_def using that
    by (auto intro!: yields_bind [OF yields_consume [OF that(1)]] yields_bind [OF yields_no_consume [OF _ that(2)]]
        yields_return)
  have close: "yields (bind_st (act (sp_consume_token P RParen)) (\<lambda>close.
      if close then return_st False else if \<not> comma then expected_here P what else return_st True)) q False ts"
    if "toks q = RParen # ts" for q comma
    by (rule yields_bind [OF yields_consume [OF that]]) (simp add: yields_return)
  show "yields (list_continues P what) p False ts" if "toks p = (if tr then [Comma] else []) @ RParen # ts"
  proof (cases tr)
    case True
    then show ?thesis
      unfolding list_continues_def using that by (auto intro!: yields_bind [OF yields_consume] close)
  next
    case False
    then have p: "toks p = RParen # ts" using that by simp
    show ?thesis
      unfolding list_continues_def by (rule yields_bind [OF yields_no_consume [OF p]]) (simp_all add: close)
  qed
qed

lemma yields_value_options_loop:
  assumes "opts \<noteq> []" and "\<forall>(k, v)\<in>set opts. printable v" and "toks p = option_list_tokens tr opts @ rest"
    and "length (option_list_tokens tr opts) < n"
  shows "yields (value_options_loop P n os) p (os @ map (\<lambda>(k, v). (key_text k, v)) opts) rest"
  using assms
proof (induction tr opts arbitrary: p n os rule: option_list_tokens.induct)
  case (1 tr)
  then show ?case by simp
next
  case (2 tr k v)
  then obtain m where n: "n = Suc m" by (cases n) auto
  show ?case
    unfolding n value_options_loop.simps
    using 2 n
    by (auto intro!: yields_bind [OF yields_option_key [where k = k]] yields_bind [OF yields_option_value [where v = v]]
        yields_bind [OF yields_list_continues(2) [where tr = tr]] yields_return simp: value_token_not_period)
next
  case (3 tr k v kv r)
  then obtain m where n: "n = Suc m" by (cases n) auto
  obtain t ts where first: "option_list_tokens tr (kv # r) @ rest = t # ts" "t \<noteq> RParen"
    using option_list_first [of "kv # r"] by blast
  have next_round: "yields (value_options_loop P m (os @ [(key_text k, v)])) q
      (os @ map (\<lambda>(k, v). (key_text k, v)) ((k, v) # kv # r)) rest"
    if "toks q = t # ts" for q
    using "3.IH" [of q m "os @ [(key_text k, v)]"] "3.prems" that first n by (cases kv) simp
  have p: "toks p = key_tokens k @ value_token v # Comma # t # ts"
    using "3.prems"(3) first by simp
  have fuel: "length (key_tokens k) \<le> m" and v: "printable v" using "3.prems" n by auto
  show ?case
    unfolding n value_options_loop.simps
    by (rule yields_bind [OF yields_option_key [OF p value_token_not_period fuel]],
        rule yields_bind [OF yields_option_value [OF _ v]], assumption,
        rule yields_bind [OF yields_list_continues(1) [OF _ first(2)]], assumption)
      (simp only: if_True next_round)
qed

end


subsection \<open>Properties\<close>

text \<open>
  C32: Parsing always ends: three more than the number of tokens is enough fuel for every loop of the parser,
  and more fuel does not change the result.
\<close>

theorem parse_sql_terminates:
  assumes "cursor P toks" and "\<forall>p. sp_tokenize P sql = Inr p \<longrightarrow> length (toks p) + 3 \<le> n" and "n \<le> n'"
  shows "parse_sql P n sql \<noteq> Inl OutOfFuel \<and> parse_sql P n' sql = parse_sql P n sql"
proof -
  have enough: "parse_sql P n sql \<noteq> Inl OutOfFuel"
    by (rule cursor.parse_sql_enough_fuel [OF assms(1)]) (use assms(2) in blast)
  then have "parse_sql P (n + (n' - n)) sql = parse_sql P n sql" by (rule parse_sql_more_fuel)
  with enough assms(3) show ?thesis by simp
qed

definition demo_tokens :: "token list" where
  "demo_tokens =
     [Word ''COPY'' K_COPY, Word ''t'' NoKeyword, Word ''TO'' K_TO, SingleQuotedString ''f'', LParen,
      Word ''a'' NoKeyword, Period, Word ''b'' NoKeyword, Number ''1'' False, Comma, RParen, SemiColon, SemiColon,
      Word ''VACUUM'' K_VACUUM, Word ''TABLE'' K_TABLE, Word ''t'' NoKeyword]"

definition demo_statements :: "parsed_statement list" where
  "demo_statements =
     [CopyTo \<lparr>cp_source = CopyRelation [Ident ''t'' None], cp_target = ''f'', cp_options = [(''a.b'', VNumber ''1'' False)]\<rparr>,
      SqlStatement (Truncate [Ident ''t'' None] None False)]"

theorem parse_sql_terminates_witness:
  "parse_sql (list_parser (\<lambda>_. demo_tokens)) 40 ''sql'' = Inr demo_statements"
proof -
  have "parse_sql (list_parser (\<lambda>_. demo_tokens)) 19 ''sql'' \<noteq> Inl OutOfFuel \<and>
      parse_sql (list_parser (\<lambda>_. demo_tokens)) 40 ''sql'' = parse_sql (list_parser (\<lambda>_. demo_tokens)) 19 ''sql''"
    by (rule parse_sql_terminates [OF list_cursor.cursor_axioms]) (auto simp: list_parser_def demo_tokens_def)
  moreover have "parse_sql (list_parser (\<lambda>_. demo_tokens)) 19 ''sql'' = Inr demo_statements"
    by code_simp
  ultimately show ?thesis by simp
qed

text \<open>
  C33: Options that are printed as a parenthesised list are parsed to the same options: keys quoted or as
  dotted words, string and numeric values, with or without a trailing comma.
\<close>

theorem value_options_round_trip:
  assumes "cursor P toks" and "opts \<noteq> []" and "\<forall>(k, v)\<in>set opts. printable v"
    and "toks p = LParen # option_list_tokens trailing opts @ rest" and "length (toks p) \<le> n"
  shows "\<exists>p'. parse_value_options P n p = (Inr (map (\<lambda>(k, v). (key_text k, v)) opts), p') \<and> toks p' = rest"
proof -
  have "cursor.yields toks (parse_value_options P n) p (map (\<lambda>(k, v). (key_text k, v)) opts) rest"
    unfolding parse_value_options_def
  proof (rule cursor.yields_bind [OF assms(1) cursor.yields_expect [OF assms(1,4)]])
    fix q
    assume "toks q = option_list_tokens trailing opts @ rest"
    then show "cursor.yields toks (value_options_loop P n []) q (map (\<lambda>(k, v). (key_text k, v)) opts) rest"
      using cursor.yields_value_options_loop [OF assms(1-3), of q trailing rest n "[]"] assms(4,5) by simp
  qed
  then show ?thesis by (simp add: cursor.yields_def [OF assms(1)])
qed

theorem value_options_round_trip_witness:
  "\<exists>p'. parse_value_options (list_parser (\<lambda>_. [])) 20
      (LParen # option_list_tokens True [(Dotted ''format'' [''has_header''], VSingleQuoted ''true''),
                                          (Quoted ''x y'', VNumber ''1'' False)] @ [SemiColon]) =
      (Inr [(''format.has_header'', VSingleQuoted ''true''), (''x y'', VNumber ''1'' False)], p') \<and> p' = [SemiColon]"
  using value_options_round_trip [OF list_cursor.cursor_axioms, where trailing = True and n = 20
      and opts = "[(Dotted ''format'' [''has_header''], VSingleQuoted ''true''), (Quoted ''x y'', VNumber ''1'' False)]"
      and rest = "[SemiColon]"]
  by simp

text \<open>What holds of every result of a parser.\<close>

definition ensures :: "('p, parser_error, 'a) st \<Rightarrow> ('a \<Rightarrow> bool) \<Rightarrow> bool" where
  "ensures m Q \<longleftrightarrow> (\<forall>p x p'. m p = (Inr x, p') \<longrightarrow> Q x)"

lemma ensures_bind: "ensures m R \<Longrightarrow> (\<And>x. R x \<Longrightarrow> ensures (f x) Q) \<Longrightarrow> ensures (bind_st m f) Q"
  by (fastforce simp: ensures_def res_simps)

lemma ensures_any: "ensures m (\<lambda>_. True)"
  by (simp add: ensures_def)

lemma ensures_basic:
  "Q x \<Longrightarrow> ensures (return_st x) Q"
  "ensures (fail e) Q"
  "ensures (parser_err msg) Q"
  "ensures (expected P what t) Q"
  by (simp_all add: ensures_def fail_def parser_err_def expected_def)

lemma ensures_expected_here: "ensures (expected_here P what) Q"
  unfolding expected_here_def by (rule ensures_bind [OF ensures_any ensures_basic(4)])

lemma ensures_not_set:
  "(field = None \<Longrightarrow> ensures (f ()) Q) \<Longrightarrow> ensures (bind_st (ensure_not_set field name) f) Q"
  by (auto simp: ensure_not_set_def ensures_def res_simps parser_err_def fail_def)

lemma ensures_if: "(b \<Longrightarrow> ensures x Q) \<Longrightarrow> (\<not> b \<Longrightarrow> ensures y Q) \<Longrightarrow> ensures (if b then x else y) Q"
  by simp

lemma ensures_prod: "(\<And>a b. ensures (f a b) Q) \<Longrightarrow> ensures (case x of (a, b) \<Rightarrow> f a b) Q"
  by (simp split: prod.split)

lemmas ensures_skip = ensures_bind [OF ensures_any]
lemmas ensures_intros = ensures_basic ensures_expected_here ensures_if

definition no_marker :: "(string \<times> literal) list \<Rightarrow> bool" where
  "no_marker os \<longleftrightarrow> (\<forall>(k, v)\<in>set os. \<forall>b. v \<noteq> VBoolean b)"

lemma no_marker_converts: "no_marker os \<Longrightarrow> CONVERT_TO_DELTA \<notin> set os"
  by (auto simp: no_marker_def CONVERT_TO_DELTA_def)

lemma ensures_option_value: "ensures (parse_option_value P) (\<lambda>v. \<forall>b. v \<noteq> VBoolean b)"
  unfolding parse_option_value_def by (auto intro!: ensures_skip ensures_basic split: token.split)

lemma ensures_value_options_loop: "no_marker os \<Longrightarrow> ensures (value_options_loop P n os) no_marker"
proof (induction n arbitrary: os)
  case (Suc n)
  have "no_marker (os @ [(key, v)])" if "\<forall>b. v \<noteq> VBoolean b" for key v
    using that Suc.prems by (auto simp: no_marker_def)
  then show ?case
    unfolding value_options_loop.simps
    by (intro ensures_skip ensures_bind [OF ensures_option_value] ensures_if ensures_basic Suc.IH) auto
qed (simp add: ensures_basic)

lemma ensures_copy: "ensures (parse_copy P n) (\<lambda>s. \<exists>c. s = CopyTo c \<and> no_marker (cp_options c))"
proof -
  have options: "ensures (if t = LParen then parse_value_options P n else return_st []) no_marker" for t
    unfolding parse_value_options_def
    by (intro ensures_if ensures_skip ensures_value_options_loop ensures_basic) (simp_all add: no_marker_def)
  show ?thesis
    unfolding parse_copy_def by (intro ensures_skip ensures_bind [OF options] ensures_basic) simp
qed

lemma ensures_not_copy:
  "ensures (parse_vacuum P) (\<lambda>s. \<forall>c. s \<noteq> CopyTo c)"
  "ensures (parse_truncate P) (\<lambda>s. \<forall>c. s \<noteq> CopyTo c)"
  "ensures (parse_native P) (\<lambda>s. \<forall>c. s \<noteq> CopyTo c)"
  "ensures (parse_create P n) (\<lambda>s. \<forall>c. s \<noteq> CopyTo c)"
  unfolding parse_vacuum_def parse_truncate_def parse_native_def parse_create_def parse_create_external_table_def
    parse_create_function_def
  by (auto intro!: ensures_skip ensures_intros split: list.split option.split)

lemma ensures_convert: "ensures (parse_convert P) (\<lambda>s. \<exists>c. s = CopyTo c \<and> CONVERT_TO_DELTA \<in> set (cp_options c))"
  unfolding parse_convert_def by (intro ensures_skip ensures_basic) simp

text \<open>
  C34: The marker by which \<open>CONVERT TO DELTA\<close> travels in a \<open>CopyTo\<close> statement cannot be forged: a statement
  has it exactly if it started with the keyword \<open>CONVERT\<close>, whatever options a \<open>COPY\<close> has.
\<close>

theorem convert_marker_not_forged:
  assumes "parse_statement P n p = (Inr (CopyTo c), p')"
  shows "CONVERT_TO_DELTA \<in> set (cp_options c) \<longleftrightarrow> (\<exists>v. sp_peek_token P p = Word v K_CONVERT)"
proof (cases "sp_peek_token P p")
  case (Word v kw)
  have skip: "ensures (bind_st (act (sp_next_token P)) (\<lambda>_. m)) Q" if "ensures m Q" for m :: "('a, parser_error, parsed_statement) st" and Q
    using that by (rule ensures_skip)
  consider "kw = K_CONVERT" | "kw = K_COPY" | "kw \<noteq> K_CONVERT" "kw \<noteq> K_COPY" by blast
  then show ?thesis
  proof cases
    case 1
    then have "bind_st (act (sp_next_token P)) (\<lambda>_. parse_convert P) p = (Inr (CopyTo c), p')"
      using assms Word by (simp add: parse_statement_def bind_st_def peek_def)
    then show ?thesis using skip [OF ensures_convert] Word 1 by (fastforce simp: ensures_def)
  next
    case 2
    then have "bind_st (act (sp_next_token P)) (\<lambda>_. parse_copy P n) p = (Inr (CopyTo c), p')"
      using assms Word by (simp add: parse_statement_def bind_st_def peek_def)
    then have "no_marker (cp_options c)" using skip [OF ensures_copy] by (fastforce simp: ensures_def)
    then show ?thesis using Word 2 no_marker_converts by simp
  next
    case 3
    let ?m = "if kw = K_CREATE then bind_st (act (sp_next_token P)) (\<lambda>_. parse_create P n)
      else if kw = K_VACUUM then bind_st (act (sp_next_token P)) (\<lambda>_. parse_vacuum P)
      else if kw = K_TRUNCATE then bind_st (act (sp_next_token P)) (\<lambda>_. parse_truncate P)
      else parse_native P"
    have "ensures ?m (\<lambda>s. \<forall>c. s \<noteq> CopyTo c)" by (intro ensures_if skip ensures_not_copy)
    moreover have "?m p = (Inr (CopyTo c), p')"
      using assms Word 3 by (simp add: parse_statement_def bind_st_def peek_def split: if_splits)
    ultimately show ?thesis by (auto simp: ensures_def)
  qed
qed (use assms ensures_not_copy(3) [of P] in \<open>auto simp: parse_statement_def bind_st_def peek_def ensures_def\<close>)

theorem convert_marker_not_forged_witness:
  "\<exists>c p'. parse_statement (list_parser (\<lambda>_. [])) 9
      [Word ''COPY'' K_COPY, Word ''t'' NoKeyword, Word ''TO'' K_TO, SingleQuotedString ''f'', LParen,
       Word ''CONVERT_TO_DELTA'' NoKeyword, Word ''true'' NoKeyword, RParen] = (Inr (CopyTo c), p') \<and>
      CONVERT_TO_DELTA \<notin> set (cp_options c)"
proof -
  let ?P = "list_parser (\<lambda>_. [])"
  let ?ts = "[Word ''COPY'' K_COPY, Word ''t'' NoKeyword, Word ''TO'' K_TO, SingleQuotedString ''f'', LParen,
       Word ''CONVERT_TO_DELTA'' NoKeyword, Word ''true'' NoKeyword, RParen]"
  let ?c = "\<lparr>cp_source = CopyRelation [Ident ''t'' None], cp_target = ''f'',
      cp_options = [(''CONVERT_TO_DELTA'', VSingleQuoted ''true'')]\<rparr>"
  have "parse_statement ?P 9 ?ts = (Inr (CopyTo ?c), [])" by code_simp
  moreover have "sp_peek_token ?P ?ts = Word ''COPY'' K_COPY" by code_simp
  ultimately show ?thesis using convert_marker_not_forged [of ?P 9 ?ts ?c "[]"] by auto
qed

text \<open>What a clause leaves as it was: everything that was set, and the columns so far.\<close>

definition keeps :: "builder \<Rightarrow> builder \<Rightarrow> bool" where
  "keeps b b' \<longleftrightarrow>
     (b_file_type b \<noteq> None \<longrightarrow> b_file_type b' = b_file_type b) \<and>
     (b_location b \<noteq> None \<longrightarrow> b_location b' = b_location b) \<and>
     (b_table_partition_cols b \<noteq> None \<longrightarrow> b_table_partition_cols b' = b_table_partition_cols b) \<and>
     (b_options b \<noteq> None \<longrightarrow> b_options b' = b_options b) \<and>
     (\<exists>es. b_order_exprs b' = b_order_exprs b @ es) \<and> (\<exists>cs. b_columns b' = b_columns b @ cs)"

lemma keeps_refl: "keeps b b"
  by (simp add: keeps_def)

lemma keeps_trans: "keeps a b \<Longrightarrow> keeps b c \<Longrightarrow> keeps a c"
  by (auto simp: keeps_def)

lemma ensures_clause: "ensures (parse_clause P n kw b) (keeps b)"
  unfolding parse_clause_def parse_partitioned_def
  by (rule ensures_not_set ensures_if ensures_basic ensures_prod | rule ensures_skip | simp add: keeps_def)+

lemma ensures_clauses_loop: "ensures (clauses_loop P n b) (keeps b)"
proof (induction n arbitrary: b)
  case (Suc n)
  have "ensures (clauses_loop P n b') (keeps b)" if "keeps b b'" for b'
    using Suc.IH [of b'] that by (auto simp: ensures_def intro: keeps_trans)
  then show ?case
    unfolding clauses_loop.simps
    by (auto intro!: ensures_skip ensures_bind [OF ensures_clause] ensures_intros keeps_refl split: option.split)
qed (simp add: ensures_basic)

text \<open>
  The clauses of \<open>CREATE EXTERNAL TABLE\<close> set each of file type, location, partition columns and options
  at most once: what one clause set, no later clause changes, and orderings and columns are only
  added.
\<close>

theorem external_table_clauses_set_once:
  assumes "clauses_loop P n b p = (Inr b', p')"
  shows "keeps b b'"
  using assms ensures_clauses_loop [of P n b] unfolding ensures_def by blast

definition demo_builder :: builder where
  "demo_builder = (empty_builder [])\<lparr>b_location := Some ''here'', b_options := Some []\<rparr>"

theorem external_table_clauses_set_once_witness:
  "keeps demo_builder (demo_builder\<lparr>b_file_type := Some ''CSV''\<rparr>)"
  by (rule external_table_clauses_set_once [where P = "list_parser (\<lambda>_. [])" and n = 3 and p' = "[]"
        and p = "[Word ''STORED'' K_STORED, Word ''AS'' K_AS, Word ''csv'' NoKeyword]"]) code_simp

text \<open>
  C29: \<open>OR REPLACE\<close> is lost: whatever is created other than a function or an external table, the keywords
  are consumed and sqlparser parses a plain \<open>CREATE\<close> from the tokens after them.
\<close>

theorem create_or_replace_dropped:
  assumes "cursor P toks"
    and "toks p = Word c K_CREATE # Word r K_OR # Word s K_REPLACE # Word w k # rest"
    and "k \<noteq> K_EXTERNAL" and "k \<noteq> K_UNBOUNDED" and "k \<noteq> K_FUNCTION"
  shows "\<exists>q. toks q = Word w k # rest \<and>
           parse_statement P n p = bind_st (sp_parse_create P) (\<lambda>s. return_st (SqlStatement (Native s))) q"
proof -
  have peeked: "sp_peek_token P p = Word c K_CREATE"
    using cursor.peek_nth_token_law [OF assms(1)] assms(2) by simp
  have "cursor.yields toks (act (sp_next_token P)) p (Word c K_CREATE) (Word r K_OR # Word s K_REPLACE # Word w k # rest)"
    by (rule cursor.yields_next [OF assms(1,2)])
  then obtain p1 where p1: "act (sp_next_token P) p = (Inr (Word c K_CREATE), p1)"
    and t1: "toks p1 = Word r K_OR # Word s K_REPLACE # Word w k # rest"
    by (auto simp: cursor.yields_def [OF assms(1)])
  have "cursor.yields toks (act (sp_parse_keywords P [K_OR, K_REPLACE])) p1 True (Word w k # rest)"
    by (rule cursor.yields_keywords(1) [OF assms(1)]) (simp add: t1)
  then obtain q where q: "act (sp_parse_keywords P [K_OR, K_REPLACE]) p1 = (Inr True, q)" and tq: "toks q = Word w k # rest"
    by (auto simp: cursor.yields_def [OF assms(1)])
  have no: "act (sp_parse_keyword P k') q = (Inr False, q)" if "k \<noteq> k'" for k'
    using cursor.parse_keywords_law [OF assms(1), of "[k']" q] that tq
    by (cases "sp_parse_keyword P k' q") (auto simp: cursor.parse_keyword_law [OF assms(1)] act_def)
  have "parse_statement P n p = bind_st (sp_parse_create P) (\<lambda>s. return_st (SqlStatement (Native s))) q"
    using peeked p1 q no assms(3-5) by (simp add: parse_statement_def parse_create_def bind_st_def peek_def)
  with tq show ?thesis by blast
qed

theorem create_or_replace_dropped_witness:
  "\<exists>q. q = [Word ''VIEW'' (OtherKeyword ''VIEW''), Word ''v'' NoKeyword] \<and>
     parse_statement (list_parser (\<lambda>_. [])) 9
       (Word ''CREATE'' K_CREATE # Word ''OR'' K_OR # Word ''REPLACE'' K_REPLACE # Word ''VIEW'' (OtherKeyword ''VIEW'') #
        [Word ''v'' NoKeyword]) =
     bind_st (sp_parse_create (list_parser (\<lambda>_. []))) (\<lambda>s. return_st (SqlStatement (Native s))) q"
  by (rule create_or_replace_dropped [OF list_cursor.cursor_axioms]) simp_all

end
