(* ===== verification/Repository.thy ===== *)
theory Repository
  imports Prelude "HOL-Library.List_Lexorder" "HOL-Library.Char_ord" "HOL-Library.Option_ord"
    "HOL-Library.Product_Lexorder"
begin

text \<open>
  The metadata repository: the queries of \<open>implement_repository!\<close> (src/src/repository/default.rs)
  over the tables that the migrations create (src/migrations), for both back ends
  (src/src/repository/sqlite.rs and postgres.rs). A statement is a function on the rows of the
  tables: an insert takes an id, checks the unique and foreign keys and appends, a delete cascades
  along the foreign keys, a select is a join of the row lists. Each method sequences its statements
  the way the source does and without a transaction, so a failure keeps the earlier statements.
\<close>


subsection \<open>Rows\<close>

type_synonym uuid = "128 word"

record database_record =
  dbr_id :: int
  dbr_name :: string

record collection_record =
  coll_id :: int
  coll_database_id :: int
  coll_name :: string

record table_row =
  tbl_id :: int
  tbl_collection_id :: int
  tbl_name :: string
  tbl_uuid :: uuid

record table_record =
  table_id :: int
  table_collection_id :: int
  table_name :: string

record version_row =
  ver_id :: int
  ver_table_id :: int
  ver_creation_time :: int
  ver_version :: int

record column_row =
  col_id :: int
  col_version_id :: int
  col_name :: string
  col_type :: string

record function_row =
  fn_id :: int
  fn_database_id :: int
  fn_name :: string
  fn_entrypoint :: string
  fn_language :: string
  fn_input_types :: string
  fn_return_type :: string
  fn_data :: string
  fn_volatility :: string

text \<open>A row of \<open>dropped_table\<close>: the deletion status is kept as text under a \<open>CHECK\<close>.\<close>

record dropped_row =
  drop_database_name :: string
  drop_collection_name :: string
  drop_table_name :: string
  drop_uuid :: uuid
  drop_status :: string
  drop_time :: int

text \<open>What the joins return to the catalog.\<close>

record all_database_columns_result =
  adc_database_name :: string
  adc_collection_name :: string
  adc_table_name :: "string option"
  adc_table_id :: "int option"
  adc_table_uuid :: "uuid option"
  adc_table_version_id :: "int option"
  adc_column_name :: "string option"
  adc_column_type :: "string option"

record table_versions_result =
  tvr_database_name :: string
  tvr_collection_name :: string
  tvr_table_name :: string
  tvr_table_version_id :: int
  tvr_version :: int
  tvr_creation_time :: int

datatype deletion_status = Pending | Retry | Failed

text \<open>\<open>EnumString\<close> and \<open>Display\<close> with \<open>serialize_all = "UPPERCASE"\<close>.\<close>

fun deletion_status_of_string :: "string \<Rightarrow> deletion_status option" where
  "deletion_status_of_string s =
     (if s = ''PENDING'' then Some Pending
      else if s = ''RETRY'' then Some Retry
      else if s = ''FAILED'' then Some Failed
      else None)"

record dropped_tables_result =
  dtr_database_name :: string
  dtr_collection_name :: string
  dtr_table_name :: string
  dtr_uuid :: uuid
  dtr_deletion_status :: deletion_status
  dtr_drop_time :: int


subsection \<open>Errors\<close>

datatype dialect = SQLite | Postgres

record database_error =
  dbe_message :: string
  dbe_code :: "string option"

datatype sqlx_error = RowNotFound | Database database_error | ColumnDecode

datatype repo_error =
    UniqueConstraintViolation sqlx_error
  | FKConstraintViolation sqlx_error
  | SqlxError sqlx_error
  | SerdeJsonError string

definition contains :: "string \<Rightarrow> string \<Rightarrow> bool" where
  "contains s p \<longleftrightarrow> list_ex (\<lambda>i. take (length p) (drop i s) = p) [0..<Suc (length s)]"

fun interpret_error :: "dialect \<Rightarrow> sqlx_error \<Rightarrow> repo_error" where
  "interpret_error SQLite (Database d) =
     (if contains (dbe_message d) ''FOREIGN KEY constraint failed''
      then FKConstraintViolation (Database d)
      else if contains (dbe_message d) ''UNIQUE constraint failed''
      then UniqueConstraintViolation (Database d)
      else SqlxError (Database d))"
| "interpret_error Postgres (Database d) =
     (case dbe_code d of
        Some code \<Rightarrow>
          if code = ''23505'' then UniqueConstraintViolation (Database d)
          else if code = ''23503'' then FKConstraintViolation (Database d)
          else SqlxError (Database d)
      | None \<Rightarrow> SqlxError (Database d))"
| "interpret_error _ e = SqlxError e"

text \<open>
  What the two databases report for the failures that the statements below can meet. The message
  of a unique violation names the columns of the constraint.
\<close>

datatype unique_key = Database_Name | Collection_Name | Table_Name | Column_Name | Function_Name

fun unique_key_columns :: "unique_key \<Rightarrow> string" where
  "unique_key_columns Database_Name = ''database.name''"
| "unique_key_columns Collection_Name = ''collection.name, collection.database_id''"
| "unique_key_columns Table_Name = ''table.name, table.collection_id''"
| "unique_key_columns Column_Name = ''table_column.name, table_column.table_version_id''"
| "unique_key_columns Function_Name = ''function.name, function.database_id''"

fun unique_error :: "dialect \<Rightarrow> unique_key \<Rightarrow> sqlx_error" where
  "unique_error SQLite k = Database
     \<lparr>dbe_message = ''UNIQUE constraint failed: '' @ unique_key_columns k, dbe_code = Some ''2067''\<rparr>"
| "unique_error Postgres k = Database
     \<lparr>dbe_message = ''duplicate key value violates unique constraint'', dbe_code = Some ''23505''\<rparr>"

fun fk_error :: "dialect \<Rightarrow> sqlx_error" where
  "fk_error SQLite = Database
     \<lparr>dbe_message = ''FOREIGN KEY constraint failed'', dbe_code = Some ''787''\<rparr>"
| "fk_error Postgres = Database
     \<lparr>dbe_message = ''insert or update on table violates foreign key constraint'',
      dbe_code = Some ''23503''\<rparr>"

fun check_error :: "dialect \<Rightarrow> sqlx_error" where
  "check_error SQLite = Database
     \<lparr>dbe_message = ''CHECK constraint failed'', dbe_code = Some ''275''\<rparr>"
| "check_error Postgres = Database
     \<lparr>dbe_message = ''new row violates check constraint'', dbe_code = Some ''23514''\<rparr>"

text \<open>PostgreSQL refuses an empty \<open>IN ()\<close> and a bind that has more values than placeholders.\<close>

definition syntax_error :: sqlx_error where
  "syntax_error = Database \<lparr>dbe_message = ''syntax error'', dbe_code = Some ''42601''\<rparr>"

definition bind_error :: sqlx_error where
  "bind_error = Database \<lparr>dbe_message = ''bind message supplies a wrong number of parameters'',
     dbe_code = Some ''08P01''\<rparr>"


subsection \<open>Tables and statements\<close>

text \<open>
  A table is the list of its rows, oldest first, and the next value of its identity sequence.
  PostgreSQL takes the id of an inserted row from the sequence, which a failed insert advances too;
  SQLite takes the successor of the largest row id present, so it may hand out an id again.
\<close>

record 'r sql_table =
  sql_rows :: "'r list"
  sql_next :: int

definition new_id :: "dialect \<Rightarrow> ('r \<Rightarrow> int) \<Rightarrow> 'r sql_table \<Rightarrow> int" where
  "new_id d rid t = (case d of
     SQLite \<Rightarrow> foldr max (map rid (sql_rows t)) 0 + 1
   | Postgres \<Rightarrow> sql_next t)"

definition take_id :: "dialect \<Rightarrow> 'r sql_table \<Rightarrow> 'r sql_table" where
  "take_id d t = (case d of SQLite \<Rightarrow> t | Postgres \<Rightarrow> t\<lparr>sql_next := sql_next t + 1\<rparr>)"

definition insert_row ::
    "dialect \<Rightarrow> ('r \<Rightarrow> int) \<Rightarrow> unique_key \<Rightarrow> ('r \<Rightarrow> bool) \<Rightarrow> bool \<Rightarrow> (int \<Rightarrow> 'r) \<Rightarrow>
      'r sql_table \<Rightarrow> (sqlx_error, int) result \<times> 'r sql_table" where
  "insert_row d rid k clash fk mk t =
     (let i = new_id d rid t; t' = take_id d t in
      if list_ex clash (sql_rows t) then (Inl (unique_error d k), t')
      else if \<not> fk then (Inl (fk_error d), t')
      else (Inr i, t'\<lparr>sql_rows := sql_rows t @ [mk i]\<rparr>))"

definition delete_rows :: "('r \<Rightarrow> bool) \<Rightarrow> 'r sql_table \<Rightarrow> 'r sql_table" where
  "delete_rows P t = t\<lparr>sql_rows := filter (\<lambda>r. \<not> P r) (sql_rows t)\<rparr>"

definition update_rows :: "('r \<Rightarrow> bool) \<Rightarrow> ('r \<Rightarrow> 'r) \<Rightarrow> 'r sql_table \<Rightarrow> 'r sql_table" where
  "update_rows P f t = t\<lparr>sql_rows := map (\<lambda>r. if P r then f r else r) (sql_rows t)\<rparr>"

record repo_db =
  db_databases :: "database_record sql_table"
  db_collections :: "collection_record sql_table"
  db_tables :: "table_row sql_table"
  db_versions :: "version_row sql_table"
  db_columns :: "column_row sql_table"
  db_functions :: "function_row sql_table"
  db_dropped :: "dropped_row list"
  db_now :: int

abbreviation empty_table :: "'r sql_table" where
  "empty_table \<equiv> \<lparr>sql_rows = [], sql_next = 1\<rparr>"

text \<open>The database that the migrations leave behind, at the time \<open>now\<close>.\<close>

definition migrated_db :: "int \<Rightarrow> repo_db" where
  "migrated_db now = \<lparr>db_databases = empty_table, db_collections = empty_table,
     db_tables = empty_table, db_versions = empty_table, db_columns = empty_table,
     db_functions = empty_table, db_dropped = [], db_now = now\<rparr>"

abbreviation database_rows :: "repo_db \<Rightarrow> database_record list" where
  "database_rows s \<equiv> sql_rows (db_databases s)"
abbreviation collection_rows :: "repo_db \<Rightarrow> collection_record list" where
  "collection_rows s \<equiv> sql_rows (db_collections s)"
abbreviation table_rows :: "repo_db \<Rightarrow> table_row list" where
  "table_rows s \<equiv> sql_rows (db_tables s)"
abbreviation version_rows :: "repo_db \<Rightarrow> version_row list" where
  "version_rows s \<equiv> sql_rows (db_versions s)"
abbreviation column_rows :: "repo_db \<Rightarrow> column_row list" where
  "column_rows s \<equiv> sql_rows (db_columns s)"
abbreviation function_rows :: "repo_db \<Rightarrow> function_row list" where
  "function_rows s \<equiv> sql_rows (db_functions s)"

type_synonym 'a repo_st = "(repo_db, repo_error, 'a) st"

text \<open>\<open>fetch_one\<close>: the first row of the result, or \<open>RowNotFound\<close>.\<close>

definition fetch_one :: "dialect \<Rightarrow> 'r list \<Rightarrow> 'r repo_st" where
  "fetch_one d rs = lift_res (case rs of [] \<Rightarrow> Inl (interpret_error d RowNotFound) | r # _ \<Rightarrow> Inr r)"


subsection \<open>Deletes with their cascades\<close>

definition delete_versions_where :: "(version_row \<Rightarrow> bool) \<Rightarrow> repo_db \<Rightarrow> repo_db" where
  "delete_versions_where P s =
     (let gone = map ver_id (filter P (version_rows s)) in
      s\<lparr>db_versions := delete_rows P (db_versions s),
        db_columns := delete_rows (\<lambda>c. col_version_id c \<in> set gone) (db_columns s)\<rparr>)"

definition delete_tables_where :: "(table_row \<Rightarrow> bool) \<Rightarrow> repo_db \<Rightarrow> repo_db" where
  "delete_tables_where P s =
     (let gone = map tbl_id (filter P (table_rows s)) in
      delete_versions_where (\<lambda>v. ver_table_id v \<in> set gone)
        (s\<lparr>db_tables := delete_rows P (db_tables s)\<rparr>))"

definition delete_collections_where :: "(collection_record \<Rightarrow> bool) \<Rightarrow> repo_db \<Rightarrow> repo_db" where
  "delete_collections_where P s =
     (let gone = map coll_id (filter P (collection_rows s)) in
      delete_tables_where (\<lambda>t. tbl_collection_id t \<in> set gone)
        (s\<lparr>db_collections := delete_rows P (db_collections s)\<rparr>))"

definition delete_databases_where :: "(database_record \<Rightarrow> bool) \<Rightarrow> repo_db \<Rightarrow> repo_db" where
  "delete_databases_where P s =
     (let gone = map dbr_id (filter P (database_rows s)) in
      delete_collections_where (\<lambda>c. coll_database_id c \<in> set gone)
        (s\<lparr>db_databases := delete_rows P (db_databases s),
           db_functions := delete_rows (\<lambda>f. fn_database_id f \<in> set gone) (db_functions s)\<rparr>))"


subsection \<open>Selects\<close>

definition get_database :: "dialect \<Rightarrow> string \<Rightarrow> database_record repo_st" where
  "get_database d name s = fetch_one d [r \<leftarrow> database_rows s. dbr_name r = name] s"

definition get_collection :: "dialect \<Rightarrow> string \<Rightarrow> string \<Rightarrow> collection_record repo_st" where
  "get_collection d database_name collection_name s =
     fetch_one d
       [\<lparr>coll_id = coll_id c, coll_database_id = dbr_id db, coll_name = coll_name c\<rparr>.
          c \<leftarrow> collection_rows s, db \<leftarrow> database_rows s,
          coll_database_id c = dbr_id db,
          dbr_name db = database_name \<and> coll_name c = collection_name] s"

definition get_table :: "dialect \<Rightarrow> string \<Rightarrow> string \<Rightarrow> string \<Rightarrow> table_record repo_st" where
  "get_table d database_name collection_name tname s =
     fetch_one d
       [\<lparr>table_id = tbl_id t, table_collection_id = coll_id c, table_name = tbl_name t\<rparr>.
          t \<leftarrow> table_rows s, c \<leftarrow> collection_rows s, tbl_collection_id t = coll_id c,
          db \<leftarrow> database_rows s, coll_database_id c = dbr_id db,
          dbr_name db = database_name \<and> coll_name c = collection_name \<and> tbl_name t = tname] s"

text \<open>
  The common table expression \<open>desired_table_versions\<close>: SQLite takes the row with the largest id of
  every table, PostgreSQL the one with the largest creation time and among those the largest id.
\<close>

definition version_key :: "dialect \<Rightarrow> version_row \<Rightarrow> int \<times> int" where
  "version_key d v = (case d of
     SQLite \<Rightarrow> (0, ver_id v)
   | Postgres \<Rightarrow> (ver_creation_time v, ver_id v))"

definition newest :: "('r \<Rightarrow> int \<times> int) \<Rightarrow> 'r list \<Rightarrow> 'r option" where
  "newest key rs = fold (\<lambda>r best. case best of
     None \<Rightarrow> Some r
   | Some b \<Rightarrow> Some (if key b < key r then r else b)) rs None"

definition latest_table_version :: "dialect \<Rightarrow> repo_db \<Rightarrow> int \<Rightarrow> version_row option" where
  "latest_table_version d s tid = newest (version_key d) [v \<leftarrow> version_rows s. ver_table_id v = tid]"

text \<open>A left join: a row without a partner is kept once, with no partner.\<close>

definition left_join :: "'a list \<Rightarrow> 'a option list" where
  "left_join rs = (if rs = [] then [None] else map Some rs)"

definition column_join_rows ::
    "dialect \<Rightarrow> repo_db \<Rightarrow> string \<Rightarrow> string \<Rightarrow> table_row option \<Rightarrow> all_database_columns_result list" where
  "column_join_rows d s dn cn t_opt =
     (let v_opt = Option.bind t_opt (\<lambda>t. latest_table_version d s (tbl_id t));
          cols = (case v_opt of None \<Rightarrow> []
                  | Some v \<Rightarrow> [c \<leftarrow> column_rows s. col_version_id c = ver_id v]) in
      map (\<lambda>c_opt. \<lparr>adc_database_name = dn, adc_collection_name = cn,
              adc_table_name = map_option tbl_name t_opt, adc_table_id = map_option tbl_id t_opt,
              adc_table_uuid = map_option tbl_uuid t_opt,
              adc_table_version_id = map_option ver_id v_opt,
              adc_column_name = map_option col_name c_opt,
              adc_column_type = map_option col_type c_opt\<rparr>)
        (left_join cols))"

text \<open>The columns of \<open>ORDER BY collection_name, table_name, table_version_id, column_name\<close>.\<close>

definition column_order :: "all_database_columns_result \<Rightarrow>
    string \<times> string option \<times> int option \<times> string option" where
  "column_order r = (adc_collection_name r, adc_table_name r, adc_table_version_id r,
     adc_column_name r)"

definition list_collections :: "dialect \<Rightarrow> string \<Rightarrow> all_database_columns_result list repo_st" where
  "list_collections d database_name s =
     (Inr (sort_key column_order
        [r. db \<leftarrow> database_rows s, c \<leftarrow> collection_rows s, dbr_id db = coll_database_id c,
            t_opt \<leftarrow> left_join [t \<leftarrow> table_rows s. coll_id c = tbl_collection_id t],
            r \<leftarrow> column_join_rows d s (dbr_name db) (coll_name c) t_opt,
            dbr_name db = database_name]), s)"

text \<open>
  Times are kept by SQLite in seconds and by PostgreSQL in microseconds; \<open>cast_timestamp\<close> turns them
  into whole seconds (a cast of a numeric to \<open>INT8\<close> rounds).
\<close>

definition cast_timestamp :: "dialect \<Rightarrow> int \<Rightarrow> int" where
  "cast_timestamp d t = (case d of SQLite \<Rightarrow> t | Postgres \<Rightarrow> (t + 500000) div 1000000)"

definition get_all_versions ::
    "dialect \<Rightarrow> string \<Rightarrow> string list option \<Rightarrow> table_versions_result list repo_st" where
  "get_all_versions d database_name table_names s =
     (Inr [\<lparr>tvr_database_name = dbr_name db, tvr_collection_name = coll_name c,
            tvr_table_name = tbl_name t, tvr_table_version_id = ver_id v,
            tvr_version = ver_version v,
            tvr_creation_time = cast_timestamp d (ver_creation_time v)\<rparr>.
            v \<leftarrow> version_rows s, t \<leftarrow> table_rows s, tbl_id t = ver_table_id v,
            c \<leftarrow> collection_rows s, coll_id c = tbl_collection_id t,
            db \<leftarrow> database_rows s, dbr_id db = coll_database_id c,
            dbr_name db = database_name \<and>
            (case table_names of None \<Rightarrow> True
             | Some names \<Rightarrow> names \<noteq> [] \<longrightarrow> tbl_name t \<in> set names)], s)"

definition get_all_functions_in_database :: "dialect \<Rightarrow> int \<Rightarrow> function_row list repo_st" where
  "get_all_functions_in_database d database_id s =
     (Inr [f \<leftarrow> function_rows s. fn_database_id f = database_id], s)"

definition decode_dropped :: "dialect \<Rightarrow> dropped_row \<Rightarrow> (repo_error, dropped_tables_result) result" where
  "decode_dropped d r = (case deletion_status_of_string (drop_status r) of
     None \<Rightarrow> Inl (interpret_error d ColumnDecode)
   | Some st \<Rightarrow> Inr \<lparr>dtr_database_name = drop_database_name r,
       dtr_collection_name = drop_collection_name r, dtr_table_name = drop_table_name r,
       dtr_uuid = drop_uuid r, dtr_deletion_status = st,
       dtr_drop_time = cast_timestamp d (drop_time r)\<rparr>)"

definition get_dropped_tables :: "dialect \<Rightarrow> string option \<Rightarrow> dropped_tables_result list repo_st" where
  "get_dropped_tables d database_name s =
     lift_res (collect_res (decode_dropped d)
       (case database_name of None \<Rightarrow> db_dropped s
        | Some database \<Rightarrow> [r \<leftarrow> db_dropped s. drop_database_name r = database])) s"


subsection \<open>Inserts\<close>

text \<open>One \<open>INSERT\<close> statement on one of the tables, with its error interpreted.\<close>

definition insert_stmt ::
    "dialect \<Rightarrow> (repo_db \<Rightarrow> 'r sql_table) \<Rightarrow> ('r sql_table \<Rightarrow> repo_db \<Rightarrow> repo_db) \<Rightarrow> ('r \<Rightarrow> int) \<Rightarrow>
      unique_key \<Rightarrow> ('r \<Rightarrow> bool) \<Rightarrow> (repo_db \<Rightarrow> bool) \<Rightarrow> (int \<Rightarrow> 'r) \<Rightarrow> int repo_st" where
  "insert_stmt d get put rid k clash fk mk s =
     (case insert_row d rid k clash (fk s) mk (get s) of
        (r, t) \<Rightarrow> (map_err (interpret_error d) r, put t s))"

definition create_database :: "dialect \<Rightarrow> string \<Rightarrow> int repo_st" where
  "create_database d name =
     insert_stmt d db_databases (\<lambda>t. db_databases_update (\<lambda>_. t)) dbr_id Database_Name
       (\<lambda>r. dbr_name r = name) (\<lambda>_. True) (\<lambda>i. \<lparr>dbr_id = i, dbr_name = name\<rparr>)"

definition create_collection :: "dialect \<Rightarrow> int \<Rightarrow> string \<Rightarrow> int repo_st" where
  "create_collection d database_id collection_name =
     insert_stmt d db_collections (\<lambda>t. db_collections_update (\<lambda>_. t)) coll_id Collection_Name
       (\<lambda>r. coll_name r = collection_name \<and> coll_database_id r = database_id)
       (\<lambda>s. database_id \<in> dbr_id ` set (database_rows s))
       (\<lambda>i. \<lparr>coll_id = i, coll_database_id = database_id, coll_name = collection_name\<rparr>)"

definition insert_table :: "dialect \<Rightarrow> int \<Rightarrow> string \<Rightarrow> uuid \<Rightarrow> int repo_st" where
  "insert_table d collection_id tname uuid =
     insert_stmt d db_tables (\<lambda>t. db_tables_update (\<lambda>_. t)) tbl_id Table_Name
       (\<lambda>r. tbl_name r = tname \<and> tbl_collection_id r = collection_id)
       (\<lambda>s. collection_id \<in> coll_id ` set (collection_rows s))
       (\<lambda>i. \<lparr>tbl_id = i, tbl_collection_id = collection_id, tbl_name = tname, tbl_uuid = uuid\<rparr>)"

text \<open>\<open>table_version\<close> has no unique key of its own; its creation time is the time of the insert.\<close>

definition insert_version :: "dialect \<Rightarrow> int \<Rightarrow> int \<Rightarrow> int repo_st" where
  "insert_version d tid version s =
     insert_stmt d db_versions (\<lambda>t. db_versions_update (\<lambda>_. t)) ver_id Table_Name
       (\<lambda>_. False) (\<lambda>s. tid \<in> tbl_id ` set (table_rows s))
       (\<lambda>i. \<lparr>ver_id = i, ver_table_id = tid, ver_creation_time = db_now s, ver_version = version\<rparr>) s"

text \<open>
  One statement that inserts several columns: the rows are checked against the unique key one by
  one and the reference at the end, and a failure leaves no row (but uses up ids of the sequence).
\<close>

fun insert_column_rows :: "dialect \<Rightarrow> int \<Rightarrow> (string \<times> string) list \<Rightarrow> column_row sql_table \<Rightarrow>
    (sqlx_error, unit) result \<times> column_row sql_table" where
  "insert_column_rows d vid [] t = (Inr (), t)"
| "insert_column_rows d vid ((n, ty) # cs) t =
     (case insert_row d col_id Column_Name (\<lambda>r. col_name r = n \<and> col_version_id r = vid) True
             (\<lambda>i. \<lparr>col_id = i, col_version_id = vid, col_name = n, col_type = ty\<rparr>) t of
        (Inl e, t') \<Rightarrow> (Inl e, t')
      | (Inr _, t') \<Rightarrow> insert_column_rows d vid cs t')"

definition insert_columns :: "dialect \<Rightarrow> int \<Rightarrow> (string \<times> string) list \<Rightarrow> unit repo_st" where
  "insert_columns d vid cs s =
     (case insert_column_rows d vid cs (db_columns s) of
        (Inl e, t) \<Rightarrow>
          (Inl (interpret_error d e), s\<lparr>db_columns := (db_columns s)\<lparr>sql_next := sql_next t\<rparr>\<rparr>)
      | (Inr _, t) \<Rightarrow>
          if cs = [] \<or> vid \<in> ver_id ` set (version_rows s) then (Inr (), s\<lparr>db_columns := t\<rparr>)
          else (Inl (interpret_error d (fk_error d)),
                s\<lparr>db_columns := (db_columns s)\<lparr>sql_next := sql_next t\<rparr>\<rparr>))"

text \<open>
  \<open>create_table\<close>: the table, its initial version (of the default version number 0) and the columns
  of the schema, a list of fields with their names; \<open>to_json\<close> is \<open>serde_json::to_string\<close>.
\<close>

definition schema_fields ::
    "('f \<Rightarrow> (string, string) result) \<Rightarrow> (string \<times> 'f) list \<Rightarrow> (repo_error, (string \<times> string) list) result" where
  "schema_fields to_json schema =
     collect_res (\<lambda>(n, f). map_err SerdeJsonError (bind_res (to_json f) (\<lambda>j. Inr (n, j)))) schema"

definition create_table ::
    "dialect \<Rightarrow> ('f \<Rightarrow> (string, string) result) \<Rightarrow> int \<Rightarrow> string \<Rightarrow> (string \<times> 'f) list \<Rightarrow> uuid \<Rightarrow>
      (int \<times> int) repo_st" where
  "create_table d to_json collection_id tname schema uuid =
     bind_st (insert_table d collection_id tname uuid) (\<lambda>new_table_id.
     bind_st (insert_version d new_table_id 0) (\<lambda>new_version_id.
     bind_st (if schema = [] then return_st () else
       bind_st (lift_res (schema_fields to_json schema)) (\<lambda>fields.
       insert_columns d new_version_id fields)) (\<lambda>_.
     return_st (new_table_id, new_version_id))))"

text \<open>\<open>SELECT name, type FROM table_column WHERE table_version_id = vid\<close>\<close>

definition columns_of :: "repo_db \<Rightarrow> int \<Rightarrow> (string \<times> string) list" where
  "columns_of s vid = map (\<lambda>c. (col_name c, col_type c)) [c \<leftarrow> column_rows s. col_version_id c = vid]"

definition create_new_version :: "dialect \<Rightarrow> uuid \<Rightarrow> int \<Rightarrow> int repo_st" where
  "create_new_version d uuid version s =
     (let ids = [ver_id v. v \<leftarrow> version_rows s, t \<leftarrow> table_rows s, ver_table_id v = tbl_id t,
                   tbl_uuid t = uuid] in
      bind_st (lift_res (if ids = [] then Inl (interpret_error d ColumnDecode)
                         else Inr (Max (set ids)))) (\<lambda>last_version_id.
      bind_st (fetch_one d [v \<leftarrow> version_rows s. ver_id v = last_version_id]) (\<lambda>v.
      bind_st (insert_version d (ver_table_id v) version) (\<lambda>new_version_id.
      bind_st (\<lambda>s. insert_columns d new_version_id (columns_of s last_version_id) s) (\<lambda>_.
      return_st new_version_id)))) s)"

record function_columns =
  fc_entrypoint :: string
  fc_language :: string
  fc_input_types :: string
  fc_return_type :: string
  fc_data :: string
  fc_volatility :: string

definition function_row_of :: "int \<Rightarrow> int \<Rightarrow> string \<Rightarrow> function_columns \<Rightarrow> function_row" where
  "function_row_of i database_id name c =
     \<lparr>fn_id = i, fn_database_id = database_id, fn_name = name, fn_entrypoint = fc_entrypoint c,
      fn_language = fc_language c, fn_input_types = fc_input_types c,
      fn_return_type = fc_return_type c, fn_data = fc_data c, fn_volatility = fc_volatility c\<rparr>"

text \<open>
  \<open>create_function\<close> on the bound values: \<open>ON CONFLICT (database_id, name) DO UPDATE\<close> replaces all
  columns but the key and returns the id of the row that was there.
\<close>

definition create_function_columns ::
    "dialect \<Rightarrow> int \<Rightarrow> string \<Rightarrow> bool \<Rightarrow> function_columns \<Rightarrow> int repo_st" where
  "create_function_columns d database_id function_name or_replace c s =
     (let same = (\<lambda>r. fn_name r = function_name \<and> fn_database_id r = database_id) in
      case (if or_replace then find same (function_rows s) else None) of
        Some r \<Rightarrow> (Inr (fn_id r), s\<lparr>db_functions := update_rows same
          (\<lambda>r. function_row_of (fn_id r) database_id function_name c) (take_id d (db_functions s))\<rparr>)
      | None \<Rightarrow> insert_stmt d db_functions (\<lambda>t. db_functions_update (\<lambda>_. t)) fn_id Function_Name same
          (\<lambda>s. database_id \<in> dbr_id ` set (database_rows s))
          (\<lambda>i. function_row_of i database_id function_name c) s)"


subsection \<open>Updates and deletes\<close>

definition rename_table :: "dialect \<Rightarrow> int \<Rightarrow> string \<Rightarrow> int option \<Rightarrow> unit repo_st" where
  "rename_table d tid new_table_name new_collection_id s =
     (case find (\<lambda>t. tbl_id t = tid) (table_rows s) of
        None \<Rightarrow> (Inl (interpret_error d RowNotFound), s)
      | Some t \<Rightarrow>
          let cid = (case new_collection_id of None \<Rightarrow> tbl_collection_id t | Some c \<Rightarrow> c) in
          if list_ex (\<lambda>r. tbl_id r \<noteq> tid \<and> tbl_name r = new_table_name \<and> tbl_collection_id r = cid)
               (table_rows s)
          then (Inl (interpret_error d (unique_error d Table_Name)), s)
          else if new_collection_id \<noteq> None \<and> cid \<notin> coll_id ` set (collection_rows s)
          then (Inl (interpret_error d (fk_error d)), s)
          else (Inr (), s\<lparr>db_tables := update_rows (\<lambda>r. tbl_id r = tid)
                 (\<lambda>r. r\<lparr>tbl_name := new_table_name, tbl_collection_id := cid\<rparr>) (db_tables s)\<rparr>))"

text \<open>
  \<open>drop_function\<close> writes the placeholder \<open>$2\<close> for every name and binds every name: SQLite reads the
  first name for each of them and ignores the other values, PostgreSQL refuses the bind.
\<close>

definition drop_function :: "dialect \<Rightarrow> int \<Rightarrow> string list \<Rightarrow> unit repo_st" where
  "drop_function d database_id func_names s =
     (let placeholders = map (\<lambda>_. 2) func_names; bound = length func_names + 1 in
      if d = Postgres \<and> placeholders = [] then (Inl (interpret_error d syntax_error), s)
      else if d = Postgres \<and> bound \<noteq> foldr max placeholders 1
      then (Inl (interpret_error d bind_error), s)
      else
        let hit = (\<lambda>f. fn_database_id f = database_id \<and>
              fn_name f \<in> set (map (\<lambda>p. func_names ! (p - 2)) placeholders)) in
        if \<not> list_ex hit (function_rows s) then (Inl (interpret_error d RowNotFound), s)
        else (Inr (), s\<lparr>db_functions := delete_rows hit (db_functions s)\<rparr>))"

text \<open>A \<open>DELETE \<dots> RETURNING id\<close> that is asked for one row: an error when there was none.\<close>

definition delete_stmt ::
    "dialect \<Rightarrow> (repo_db \<Rightarrow> 'r list) \<Rightarrow> ((('r \<Rightarrow> bool) \<Rightarrow> repo_db \<Rightarrow> repo_db)) \<Rightarrow> ('r \<Rightarrow> bool) \<Rightarrow> unit repo_st" where
  "delete_stmt d rows del P s =
     (if list_ex P (rows s) then (Inr (), del P s) else (Inl (interpret_error d RowNotFound), s))"

definition delete_table :: "dialect \<Rightarrow> int \<Rightarrow> unit repo_st" where
  "delete_table d tid = delete_stmt d table_rows delete_tables_where (\<lambda>t. tbl_id t = tid)"

definition delete_collection :: "dialect \<Rightarrow> int \<Rightarrow> unit repo_st" where
  "delete_collection d cid =
     delete_stmt d collection_rows delete_collections_where (\<lambda>c. coll_id c = cid)"

definition delete_database :: "dialect \<Rightarrow> int \<Rightarrow> unit repo_st" where
  "delete_database d did =
     delete_stmt d database_rows delete_databases_where (\<lambda>db. dbr_id db = did)"

text \<open>
  \<open>delete_old_versions\<close>: the window function orders by creation time, then id, on both back ends.
  The result is the number of deleted rows.
\<close>

definition delete_old_versions :: "dialect \<Rightarrow> int \<Rightarrow> nat repo_st" where
  "delete_old_versions d tid s =
     (let kept = List.map_filter (\<lambda>v. map_option ver_id (newest (version_key Postgres)
                   [w \<leftarrow> version_rows s. ver_table_id w = ver_table_id v])) (version_rows s);
          old = (\<lambda>v. ver_table_id v = tid \<and> ver_id v \<notin> set kept) in
      (Inr (length (filter old (version_rows s))), delete_versions_where old s))"

text \<open>
  The status is bound as the derived \<open>sqlx::Type\<close> encodes it (\<open>encode\<close>); the \<open>CHECK\<close> of the column
  admits the three upper case names only.
\<close>

definition update_dropped_table ::
    "dialect \<Rightarrow> (deletion_status \<Rightarrow> string) \<Rightarrow> uuid \<Rightarrow> deletion_status \<Rightarrow> unit repo_st" where
  "update_dropped_table d encode uuid st s =
     (if \<not> list_ex (\<lambda>r. drop_uuid r = uuid) (db_dropped s)
      then (Inl (interpret_error d RowNotFound), s)
      else if encode st \<notin> {''PENDING'', ''RETRY'', ''FAILED''}
      then (Inl (interpret_error d (check_error d)), s)
      else (Inr (), s\<lparr>db_dropped :=
        map (\<lambda>r. if drop_uuid r = uuid then r\<lparr>drop_status := encode st\<rparr> else r) (db_dropped s)\<rparr>))"

definition delete_dropped_table :: "dialect \<Rightarrow> uuid \<Rightarrow> unit repo_st" where
  "delete_dropped_table d uuid s =
     (if \<not> list_ex (\<lambda>r. drop_uuid r = uuid) (db_dropped s)
      then (Inl (interpret_error d RowNotFound), s)
      else (Inr (), s\<lparr>db_dropped := [r \<leftarrow> db_dropped s. drop_uuid r \<noteq> uuid]\<rparr>))"

text \<open>
  The part of \<open>setup\<close> that rewrites the stored types, row by row: \<open>migrate\<close> reads the old JSON format
  and prints the canonical one, \<open>None\<close> where one of the steps fails.
\<close>

definition migrate_column :: "(string \<Rightarrow> string option) \<Rightarrow> column_row \<Rightarrow> repo_db \<Rightarrow> repo_db" where
  "migrate_column migrate row s = (case migrate (col_type row) of
     None \<Rightarrow> s
   | Some field_json \<Rightarrow> s\<lparr>db_columns := update_rows (\<lambda>c. col_id c = col_id row)
       (\<lambda>c. c\<lparr>col_type := field_json\<rparr>) (db_columns s)\<rparr>)"

definition setup_column_types :: "(string \<Rightarrow> string option) \<Rightarrow> repo_db \<Rightarrow> repo_db" where
  "setup_column_types migrate s = fold (migrate_column migrate) (column_rows s) s"

end
