(* ===== verification/RepositoryInvariant.thy ===== *)
theory RepositoryInvariant
  imports Repository
begin

text \<open>
  The invariant of the metadata repository: keys unique, references present, every table with a
  version. Every method keeps it whether it succeeds or fails, also where SQLite hands out a row id
  again; it is stated for the states that any sequence of method calls reaches.
\<close>


subsection \<open>Keys and references\<close>

named_theorems sql_simps "rows of the tables after a statement"
named_theorems sql_intros "keys and references after a statement"

definition table_ok :: "dialect \<Rightarrow> ('r \<Rightarrow> int) \<Rightarrow> ('r \<Rightarrow> 'k) \<Rightarrow> 'r sql_table \<Rightarrow> bool" where
  "table_ok d rid key t \<longleftrightarrow>
     distinct (map rid (sql_rows t)) \<and> distinct (map key (sql_rows t)) \<and>
     (d = Postgres \<longrightarrow> (\<forall>r\<in>set (sql_rows t). rid r < sql_next t))"

definition refs :: "('c \<Rightarrow> int) \<Rightarrow> 'c sql_table \<Rightarrow> ('p \<Rightarrow> int) \<Rightarrow> 'p sql_table \<Rightarrow> bool" where
  "refs f child g parent \<longleftrightarrow> f ` set (sql_rows child) \<subseteq> g ` set (sql_rows parent)"

lemma sql_rows_simps [simp, sql_simps]:
  "sql_rows (take_id d t) = sql_rows t"
  "sql_rows (delete_rows P t) = filter (\<lambda>r. \<not> P r) (sql_rows t)"
  "sql_rows (update_rows P f t) = map (\<lambda>r. if P r then f r else r) (sql_rows t)"
  "sql_next (delete_rows P t) = sql_next t"
  "sql_next (update_rows P f t) = sql_next t"
  by (simp_all add: take_id_def delete_rows_def update_rows_def split: dialect.splits)

lemma sql_next_take_id: "sql_next t \<le> sql_next (take_id d t)"
  by (simp add: take_id_def split: dialect.splits)

lemma foldr_max_ge: "x \<in> set xs \<Longrightarrow> (x::int) \<le> foldr max xs b"
  by (induction xs) auto

lemma new_id_fresh: "table_ok d rid key t \<Longrightarrow> r \<in> set (sql_rows t) \<Longrightarrow> rid r \<noteq> new_id d rid t"
  using foldr_max_ge [of "rid r" "map rid (sql_rows t)" 0]
  by (auto simp: new_id_def table_ok_def split: dialect.splits)

lemma new_id_notin: "table_ok d rid key t \<Longrightarrow> new_id d rid t \<notin> rid ` set (sql_rows t)"
  using new_id_fresh [of d rid key t] by (metis imageE)

lemma table_okI_subset:
  assumes "table_ok d rid key t" and "distinct (map rid (sql_rows t'))"
    and "distinct (map key (sql_rows t'))"
    and "rid ` set (sql_rows t') \<subseteq> rid ` set (sql_rows t)" and "sql_next t \<le> sql_next t'"
  shows "table_ok d rid key t'"
  using assms by (fastforce simp: table_ok_def)

lemma table_ok_take_id [sql_intros]: "table_ok d rid key t \<Longrightarrow> table_ok d rid key (take_id d t)"
  by (rule table_okI_subset) (auto simp: table_ok_def sql_next_take_id)

lemma table_ok_next [sql_intros]:
  "table_ok d rid key t \<Longrightarrow> sql_next t \<le> n \<Longrightarrow> table_ok d rid key (t\<lparr>sql_next := n\<rparr>)"
  by (rule table_okI_subset) (auto simp: table_ok_def)

lemma table_ok_delete_rows [sql_intros]:
  "table_ok d rid key t \<Longrightarrow> table_ok d rid key (delete_rows P t)"
  by (rule table_okI_subset) (auto simp: table_ok_def distinct_map_filter)

lemma table_ok_append [sql_intros]:
  assumes "table_ok d rid key t" and "rid r = new_id d rid t" and "key r \<notin> key ` set (sql_rows t)"
  shows "table_ok d rid key ((take_id d t)\<lparr>sql_rows := sql_rows t @ [r]\<rparr>)"
  using assms new_id_fresh [OF assms(1)]
  by (force simp: table_ok_def take_id_def new_id_def split: dialect.splits)

lemma table_ok_update_rows [sql_intros]:
  assumes "table_ok d rid key t" and "\<And>r. rid (f r) = rid r"
    and "distinct (map (key \<circ> (\<lambda>r. if P r then f r else r)) (sql_rows t))"
  shows "table_ok d rid key (update_rows P f t)"
proof (rule table_okI_subset [OF assms(1)])
  have "map rid (sql_rows (update_rows P f t)) = map rid (sql_rows t)"
    using assms(2) by simp
  then show "distinct (map rid (sql_rows (update_rows P f t)))"
    using assms(1) by (simp only: table_ok_def)
qed (use assms in \<open>auto simp: image_image\<close>)

lemma refsI: "(\<And>c. c \<in> set (sql_rows child) \<Longrightarrow> f c \<in> g ` set (sql_rows parent)) \<Longrightarrow> refs f child g parent"
  by (auto simp: refs_def)

lemma refsD: "refs f child g parent \<Longrightarrow> c \<in> set (sql_rows child) \<Longrightarrow> \<exists>p\<in>set (sql_rows parent). g p = f c"
  by (force simp: refs_def)

lemma refs_cong_rows:
  "sql_rows child = sql_rows child' \<Longrightarrow> sql_rows parent = sql_rows parent' \<Longrightarrow>
     refs f child g parent = refs f child' g parent'"
  by (simp add: refs_def)

lemma refs_take_id [simp, sql_simps]:
  "refs f (take_id d child) g parent = refs f child g parent"
  "refs f child g (take_id d parent) = refs f child g parent"
  "refs f (child\<lparr>sql_next := n\<rparr>) g parent = refs f child g parent"
  by (simp_all add: refs_def)

lemma refs_append_child [simp, sql_simps]:
  "refs f (child\<lparr>sql_rows := rs @ [c]\<rparr>) g parent \<longleftrightarrow>
     refs f (child\<lparr>sql_rows := rs\<rparr>) g parent \<and> f c \<in> g ` set (sql_rows parent)"
  by (auto simp: refs_def)

lemma refs_same_rows [simp, sql_simps]:
  "refs f ((take_id d child)\<lparr>sql_rows := sql_rows child\<rparr>) g parent = refs f child g parent"
  by (simp add: refs_def)

lemma refs_append_parent [sql_intros]:
  "refs f child g parent \<Longrightarrow> refs f child g (t\<lparr>sql_rows := sql_rows parent @ [p]\<rparr>)"
  by (auto simp: refs_def)

lemma refs_update_parent:
  "(\<And>p. g (h p) = g p) \<Longrightarrow> refs f child g (update_rows P h parent) = refs f child g parent"
proof -
  assume "\<And>p. g (h p) = g p"
  then have "g ` (\<lambda>r. if P r then h r else r) ` set (sql_rows parent) = g ` set (sql_rows parent)"
    unfolding image_image by (intro image_cong) simp_all
  then show ?thesis by (simp only: refs_def sql_rows_simps set_map)
qed

lemma refs_delete_child [sql_intros]:
  "refs f child g parent \<Longrightarrow> refs f (delete_rows P child) g parent"
  by (auto simp: refs_def)

lemma refs_delete_cascade:
  assumes "refs f child g parent"
  shows "refs f (delete_rows (\<lambda>c. f c \<in> set (map g (filter P (sql_rows parent)))) child)
           g (delete_rows P parent)"
  using assms by (fastforce simp: refs_def)


subsection \<open>The invariant of the repository\<close>

definition coll_key :: "collection_record \<Rightarrow> int \<times> string" where
  "coll_key c = (coll_database_id c, coll_name c)"
definition tbl_key :: "table_row \<Rightarrow> int \<times> string" where
  "tbl_key t = (tbl_collection_id t, tbl_name t)"
definition col_key :: "column_row \<Rightarrow> int \<times> string" where
  "col_key c = (col_version_id c, col_name c)"
definition fn_key :: "function_row \<Rightarrow> int \<times> string" where
  "fn_key f = (fn_database_id f, fn_name f)"

lemmas key_defs = coll_key_def tbl_key_def col_key_def fn_key_def

text \<open>What the constraints of the migrations say of the stored rows.\<close>

definition rows_ok :: "dialect \<Rightarrow> repo_db \<Rightarrow> bool" where
  "rows_ok d s \<longleftrightarrow>
     table_ok d dbr_id dbr_name (db_databases s) \<and>
     table_ok d coll_id coll_key (db_collections s) \<and>
     table_ok d tbl_id tbl_key (db_tables s) \<and>
     table_ok d ver_id ver_id (db_versions s) \<and>
     table_ok d col_id col_key (db_columns s) \<and>
     table_ok d fn_id fn_key (db_functions s) \<and>
     refs coll_database_id (db_collections s) dbr_id (db_databases s) \<and>
     refs tbl_collection_id (db_tables s) coll_id (db_collections s) \<and>
     refs ver_table_id (db_versions s) tbl_id (db_tables s) \<and>
     refs col_version_id (db_columns s) ver_id (db_versions s) \<and>
     refs fn_database_id (db_functions s) dbr_id (db_databases s)"

text \<open>What the methods add to it: every table has a version.\<close>

definition versioned :: "repo_db \<Rightarrow> bool" where
  "versioned s \<longleftrightarrow> refs tbl_id (db_tables s) ver_table_id (db_versions s)"

definition repo_ok :: "dialect \<Rightarrow> repo_db \<Rightarrow> bool" where
  "repo_ok d s \<longleftrightarrow> rows_ok d s \<and> versioned s"

lemma repo_ok_migrated: "repo_ok d (migrated_db now)"
  by (simp add: repo_ok_def rows_ok_def versioned_def migrated_db_def table_ok_def refs_def)

lemma rows_okD:
  assumes "rows_ok d s"
  shows "table_ok d dbr_id dbr_name (db_databases s)"
    and "table_ok d coll_id coll_key (db_collections s)"
    and "table_ok d tbl_id tbl_key (db_tables s)"
    and "table_ok d ver_id ver_id (db_versions s)"
    and "table_ok d col_id col_key (db_columns s)"
    and "table_ok d fn_id fn_key (db_functions s)"
    and "refs coll_database_id (db_collections s) dbr_id (db_databases s)"
    and "refs tbl_collection_id (db_tables s) coll_id (db_collections s)"
    and "refs ver_table_id (db_versions s) tbl_id (db_tables s)"
    and "refs col_version_id (db_columns s) ver_id (db_versions s)"
    and "refs fn_database_id (db_functions s) dbr_id (db_databases s)"
  using assms by (simp_all add: rows_ok_def)

lemmas insert_defs = insert_stmt_def insert_row_def Let_def list_ex_iff key_defs

text \<open>The error that each constraint ends in.\<close>

lemma interpret_unique_error [simp]:
  "interpret_error d (unique_error d k) = UniqueConstraintViolation (unique_error d k)"
proof (cases d)
  case SQLite
  then show ?thesis by (cases k) (hypsubst, code_simp)+
qed simp

lemma interpret_fk_error [simp]:
  "interpret_error d (fk_error d) = FKConstraintViolation (fk_error d)"
  by (cases d) (hypsubst, code_simp)+

lemma interpret_check_error [simp]:
  "interpret_error d (check_error d) = SqlxError (check_error d)"
  by (cases d) (hypsubst, code_simp)+

lemma interpret_row_errors [simp]:
  "interpret_error d RowNotFound = SqlxError RowNotFound"
  "interpret_error d ColumnDecode = SqlxError ColumnDecode"
  by (cases d; simp)+

text \<open>The single inserts, by their outcome.\<close>

lemma create_database_eq:
  "create_database d name s =
    (if name \<in> dbr_name ` set (database_rows s)
     then (Inl (UniqueConstraintViolation (unique_error d Database_Name)),
           s\<lparr>db_databases := take_id d (db_databases s)\<rparr>)
     else (Inr (new_id d dbr_id (db_databases s)), s\<lparr>db_databases := (take_id d (db_databases s))
         \<lparr>sql_rows := database_rows s @ [\<lparr>dbr_id = new_id d dbr_id (db_databases s), dbr_name = name\<rparr>]\<rparr>\<rparr>))"
  by (auto simp: create_database_def insert_defs)

lemma create_collection_eq:
  "create_collection d did name s =
    (if (did, name) \<in> coll_key ` set (collection_rows s)
     then (Inl (UniqueConstraintViolation (unique_error d Collection_Name)),
           s\<lparr>db_collections := take_id d (db_collections s)\<rparr>)
     else if did \<notin> dbr_id ` set (database_rows s)
     then (Inl (FKConstraintViolation (fk_error d)),
           s\<lparr>db_collections := take_id d (db_collections s)\<rparr>)
     else (Inr (new_id d coll_id (db_collections s)), s\<lparr>db_collections := (take_id d (db_collections s))
         \<lparr>sql_rows := collection_rows s @ [\<lparr>coll_id = new_id d coll_id (db_collections s),
            coll_database_id = did, coll_name = name\<rparr>]\<rparr>\<rparr>))"
  by (auto simp: create_collection_def insert_defs)

lemma insert_table_eq:
  "insert_table d cid name u s =
    (if (cid, name) \<in> tbl_key ` set (table_rows s)
     then (Inl (UniqueConstraintViolation (unique_error d Table_Name)),
           s\<lparr>db_tables := take_id d (db_tables s)\<rparr>)
     else if cid \<notin> coll_id ` set (collection_rows s)
     then (Inl (FKConstraintViolation (fk_error d)), s\<lparr>db_tables := take_id d (db_tables s)\<rparr>)
     else (Inr (new_id d tbl_id (db_tables s)), s\<lparr>db_tables := (take_id d (db_tables s))
         \<lparr>sql_rows := table_rows s @ [\<lparr>tbl_id = new_id d tbl_id (db_tables s),
            tbl_collection_id = cid, tbl_name = name, tbl_uuid = u\<rparr>]\<rparr>\<rparr>))"
  by (auto simp: insert_table_def insert_defs)

lemma rows_ok_create_database: "rows_ok d s \<Longrightarrow> rows_ok d (snd (create_database d name s))"
  by (auto simp: create_database_def insert_defs rows_ok_def intro!: sql_intros)

lemma rows_ok_create_collection: "rows_ok d s \<Longrightarrow> rows_ok d (snd (create_collection d did name s))"
  by (auto simp: create_collection_def insert_defs rows_ok_def intro!: sql_intros)

lemma rows_ok_insert_table: "rows_ok d s \<Longrightarrow> rows_ok d (snd (insert_table d cid name u s))"
  by (auto simp: insert_table_def insert_defs rows_ok_def intro!: sql_intros)

lemma rows_ok_insert_version: "rows_ok d s \<Longrightarrow> rows_ok d (snd (insert_version d tid v s))"
  by (auto simp: insert_version_def insert_defs rows_ok_def dest: new_id_fresh intro!: sql_intros)

lemma insert_column_rows_ok:
  assumes "table_ok d col_id col_key t" and "insert_column_rows d vid cs t = (r, t')"
  shows "table_ok d col_id col_key t' \<and> sql_next t \<le> sql_next t' \<and>
    (\<exists>new. sql_rows t' = sql_rows t @ new \<and> (\<forall>c\<in>set new. col_version_id c = vid) \<and>
       (r = Inr () \<longrightarrow> map (\<lambda>c. (col_name c, col_type c)) new = cs))"
  using assms
proof (induction d vid cs t rule: insert_column_rows.induct)
  case (1 d vid t)
  then show ?case by simp
next
  case (2 d vid n ty cs t)
  let ?row = "\<lparr>col_id = new_id d col_id t, col_version_id = vid, col_name = n, col_type = ty\<rparr>"
  let ?t = "(take_id d t)\<lparr>sql_rows := sql_rows t @ [?row]\<rparr>"
  show ?case
  proof (cases "list_ex (\<lambda>r. col_name r = n \<and> col_version_id r = vid) (sql_rows t)")
    case True
    with 2(2,3) have "r = Inl (unique_error d Column_Name)" "t' = take_id d t"
      by (auto simp: insert_row_def Let_def)
    with 2(2) show ?thesis by (auto intro: sql_intros simp: sql_next_take_id)
  next
    case False
    then have ok: "table_ok d col_id col_key ?t"
      by (intro table_ok_append [OF 2(2)]) (auto simp: list_ex_iff key_defs)
    have "insert_column_rows d vid cs ?t = (r, t')"
      using False 2(3) by (simp add: insert_row_def Let_def)
    with 2(1) [of "Inr (new_id d col_id t)" ?t "new_id d col_id t"] False ok
    obtain new where "table_ok d col_id col_key t'" "sql_next ?t \<le> sql_next t'"
      "sql_rows t' = sql_rows ?t @ new" "\<forall>c\<in>set new. col_version_id c = vid"
      "r = Inr () \<longrightarrow> map (\<lambda>c. (col_name c, col_type c)) new = cs"
      by (auto simp: insert_row_def Let_def)
    moreover have "sql_next t \<le> sql_next ?t" by (simp add: sql_next_take_id)
    ultimately show ?thesis
      by (intro conjI exI [of _ "?row # new"]) auto
  qed
qed

lemma insert_column_rows_Inr:
  "fst (insert_column_rows d vid cs t) = Inr () \<longleftrightarrow>
     distinct (map fst cs) \<and>
     (\<forall>c\<in>set (sql_rows t). col_version_id c = vid \<longrightarrow> col_name c \<notin> fst ` set cs)"
  by (induction d vid cs t rule: insert_column_rows.induct)
    (auto simp: insert_row_def Let_def list_ex_iff)

lemma rows_ok_insert_columns:
  assumes "rows_ok d s"
  shows "rows_ok d (snd (insert_columns d vid cs s))"
proof -
  obtain r t where eq: "insert_column_rows d vid cs (db_columns s) = (r, t)"
    by (cases "insert_column_rows d vid cs (db_columns s)")
  from insert_column_rows_ok [OF rows_okD(5) [OF assms] eq] obtain new
    where "table_ok d col_id col_key t" "sql_next (db_columns s) \<le> sql_next t"
      "sql_rows t = column_rows s @ new" "\<forall>c\<in>set new. col_version_id c = vid"
      "r = Inr () \<longrightarrow> map (\<lambda>c. (col_name c, col_type c)) new = cs"
    by blast
  moreover from this have "refs col_version_id t ver_id (db_versions s)"
    if "vid \<in> ver_id ` set (version_rows s)"
    using that rows_okD(10) [OF assms] by (auto simp: refs_def)
  moreover have "refs col_version_id t ver_id (db_versions s)" if "r = Inr ()" "cs = []"
    using calculation that rows_okD(10) [OF assms] by (auto simp: refs_def)
  ultimately show ?thesis
    using assms eq
    by (auto simp: insert_columns_def rows_ok_def table_ok_next split: sum.splits)
qed

text \<open>Sequencing keeps what every part keeps, on success and on failure.\<close>

lemma bind_st_preserves:
  assumes "P (snd (m s))" and "\<And>x s. P s \<Longrightarrow> P (snd (f x s))"
  shows "P (snd (bind_st m f s))"
  using assms by (auto simp: bind_st_def split: prod.splits sum.splits)

lemma rows_ok_create_table:
  assumes "rows_ok d s"
  shows "rows_ok d (snd (create_table d to_json cid name schema u s))"
  unfolding create_table_def
  by (intro bind_st_preserves [where P = "rows_ok d"])
    (auto simp: assms rows_ok_insert_table rows_ok_insert_version
      intro!: bind_st_preserves [where P = "rows_ok d"] rows_ok_insert_columns)

lemma rows_ok_create_new_version:
  assumes "rows_ok d s"
  shows "rows_ok d (snd (create_new_version d u v s))"
  unfolding create_new_version_def Let_def
  by (intro bind_st_preserves [where P = "rows_ok d"])
    (auto simp: assms fetch_one_def rows_ok_insert_version rows_ok_insert_columns)

lemma distinct_map_update:
  assumes "distinct (map key xs)"
    and "\<And>x. x \<in> set xs \<Longrightarrow> P x \<Longrightarrow> key (f x) = k"
    and "\<And>x. x \<in> set xs \<Longrightarrow> \<not> P x \<Longrightarrow> key x \<noteq> k"
    and "\<And>x y. x \<in> set xs \<Longrightarrow> y \<in> set xs \<Longrightarrow> P x \<Longrightarrow> P y \<Longrightarrow> key x = key y"
  shows "distinct (map (key \<circ> (\<lambda>x. if P x then f x else x)) xs)"
proof -
  have "inj_on key (set xs)" and "distinct xs"
    using assms(1) by (simp_all add: distinct_map)
  then have "inj_on (key \<circ> (\<lambda>x. if P x then f x else x)) (set xs)"
  proof (intro inj_onI)
    fix x y
    assume xy: "x \<in> set xs" "y \<in> set xs"
      and eq: "(key \<circ> (\<lambda>x. if P x then f x else x)) x = (key \<circ> (\<lambda>x. if P x then f x else x)) y"
    then have "P x \<longleftrightarrow> P y"
      using assms(2,3) [OF xy(1)] assms(2,3) [OF xy(2)] by (cases "P x"; cases "P y") simp_all
    then have "key x = key y"
      using eq assms(4) [OF xy] by (cases "P y") simp_all
    with \<open>inj_on key (set xs)\<close> xy show "x = y" by (simp add: inj_on_def)
  qed
  with \<open>distinct xs\<close> show ?thesis by (simp add: distinct_map)
qed

lemma rows_ok_create_function: "rows_ok d s \<Longrightarrow> rows_ok d (snd (create_function_columns d did name r c s))"
proof -
  assume ok: "rows_ok d s"
  let ?same = "\<lambda>r. fn_name r = name \<and> fn_database_id r = did"
  let ?put = "\<lambda>r. function_row_of (fn_id r) did name c"
  have keys: "distinct (map (fn_key \<circ> (\<lambda>r. if ?same r then ?put r else r)) (function_rows s))"
    using rows_okD(6) [OF ok]
    by (intro distinct_map_update [where k = "(did, name)"])
      (auto simp: table_ok_def fn_key_def function_row_of_def)
  have upd: "table_ok d fn_id fn_key (update_rows ?same ?put (take_id d (db_functions s)))"
    using keys by (intro table_ok_update_rows table_ok_take_id rows_okD(6) [OF ok])
      (simp_all add: function_row_of_def)
  have "refs fn_database_id (update_rows ?same ?put (take_id d (db_functions s))) dbr_id (db_databases s)"
    using rows_okD(11) [OF ok] by (fastforce simp: refs_def function_row_of_def)
  with upd ok show ?thesis
    by (auto simp: create_function_columns_def insert_defs rows_ok_def function_row_of_def
        split: option.splits intro!: sql_intros)
qed

lemma rows_ok_rename_table: "rows_ok d s \<Longrightarrow> rows_ok d (snd (rename_table d tid name new_cid s))"
proof -
  assume ok: "rows_ok d s"
  show ?thesis
  proof (cases "rename_table d tid name new_cid s")
    case (Pair r s')
    show ?thesis
    proof (cases r)
      case (Inl e)
      with Pair ok show ?thesis
        by (auto simp: rename_table_def Let_def split: option.splits if_splits)
    next
      case (Inr x)
      obtain t cid where t: "find (\<lambda>t. tbl_id t = tid) (table_rows s) = Some t"
        and cid: "cid = (case new_cid of None \<Rightarrow> tbl_collection_id t | Some c \<Rightarrow> c)"
        and no: "\<And>r. r \<in> set (table_rows s) \<Longrightarrow> tbl_id r \<noteq> tid \<Longrightarrow> tbl_key r \<noteq> (cid, name)"
        and fk: "new_cid \<noteq> None \<Longrightarrow> cid \<in> coll_id ` set (collection_rows s)"
        and s': "s' = s\<lparr>db_tables := update_rows (\<lambda>r. tbl_id r = tid)
            (\<lambda>r. r\<lparr>tbl_name := name, tbl_collection_id := cid\<rparr>) (db_tables s)\<rparr>"
        using Pair Inr
        by (auto simp: rename_table_def Let_def list_ex_iff tbl_key_def split: option.splits if_splits)
      from find_SomeD [OF t] have mem: "t \<in> set (table_rows s)" "tbl_id t = tid" by auto
      let ?t = "update_rows (\<lambda>r. tbl_id r = tid)
            (\<lambda>r. r\<lparr>tbl_name := name, tbl_collection_id := cid\<rparr>) (db_tables s)"
      have dist: "distinct (map tbl_id (table_rows s))" "distinct (map tbl_key (table_rows s))"
        using rows_okD(3) [OF ok] by (auto simp: table_ok_def)
      have keys: "distinct (map (tbl_key \<circ> (\<lambda>r. if tbl_id r = tid
            then r\<lparr>tbl_name := name, tbl_collection_id := cid\<rparr> else r)) (table_rows s))"
        using dist no
        by (intro distinct_map_update [where k = "(cid, name)"])
          (auto simp: tbl_key_def distinct_map dest: inj_onD)
      have "table_ok d tbl_id tbl_key ?t"
        using keys by (intro table_ok_update_rows rows_okD(3) [OF ok]) auto
      moreover have "cid \<in> coll_id ` set (collection_rows s)"
        using fk rows_okD(8) [OF ok] mem cid by (cases new_cid) (auto simp: refs_def)
      then have "refs tbl_collection_id ?t coll_id (db_collections s)"
        using rows_okD(8) [OF ok] by (auto simp: refs_def)
      moreover have "refs ver_table_id (db_versions s) tbl_id ?t"
        using rows_okD(9) [OF ok] by (simp add: refs_update_parent)
      ultimately show ?thesis
        using ok s' Pair by (simp add: rows_ok_def)
    qed
  qed
qed

lemma rows_ok_drop_function: "rows_ok d s \<Longrightarrow> rows_ok d (snd (drop_function d did names s))"
  by (auto simp: drop_function_def Let_def rows_ok_def intro!: sql_intros)

lemmas delete_defs = delete_databases_where_def delete_collections_where_def
  delete_tables_where_def delete_versions_where_def Let_def

lemma rows_ok_delete_versions_where: "rows_ok d s \<Longrightarrow> rows_ok d (delete_versions_where P s)"
  by (simp del: set_map set_filter add: delete_defs rows_ok_def)
    (intro conjI; (rule refs_delete_cascade | rule sql_intros)+; simp)

lemma rows_ok_delete_tables_where: "rows_ok d s \<Longrightarrow> rows_ok d (delete_tables_where P s)"
  by (simp del: set_map set_filter add: delete_defs rows_ok_def)
    (intro conjI; (rule refs_delete_cascade | rule sql_intros)+; simp)

lemma rows_ok_delete_collections_where: "rows_ok d s \<Longrightarrow> rows_ok d (delete_collections_where P s)"
  by (simp del: set_map set_filter add: delete_defs rows_ok_def)
    (intro conjI; (rule refs_delete_cascade | rule sql_intros)+; simp)

lemma rows_ok_delete_databases_where: "rows_ok d s \<Longrightarrow> rows_ok d (delete_databases_where P s)"
  by (simp del: set_map set_filter add: delete_defs rows_ok_def)
    (intro conjI; (rule refs_delete_cascade | rule sql_intros)+; simp)

lemma newest_snoc: "newest key (rs @ [r]) =
    Some (case newest key rs of None \<Rightarrow> r | Some b \<Rightarrow> if key b < key r then r else b)"
  by (simp add: newest_def split: option.splits)

lemma newest_Nil [simp]: "newest key [] = None"
  by (simp add: newest_def)

lemma newest_spec:
  "(newest key rs = None \<longleftrightarrow> rs = []) \<and>
   (\<forall>r. newest key rs = Some r \<longrightarrow> r \<in> set rs \<and> (\<forall>x\<in>set rs. key x \<le> key r))"
  by (induction rs rule: rev_induct)
    (auto simp: newest_snoc split: option.splits, meson order.strict_implies_order order.trans)

lemma newest_eq_None [simp]: "newest key rs = None \<longleftrightarrow> rs = []"
  using newest_spec [of key rs] by simp

lemma newest_SomeD: "newest key rs = Some r \<Longrightarrow> r \<in> set rs \<and> (\<forall>x\<in>set rs. key x \<le> key r)"
  using newest_spec [of key rs] by simp

lemma newest_SomeI:
  "r \<in> set rs \<Longrightarrow> (\<And>x. x \<in> set rs \<Longrightarrow> x \<noteq> r \<Longrightarrow> key x < key r) \<Longrightarrow> newest key rs = Some r"
proof -
  assume r: "r \<in> set rs" "\<And>x. x \<in> set rs \<Longrightarrow> x \<noteq> r \<Longrightarrow> key x < key r"
  then obtain b where b: "newest key rs = Some b" by (cases "newest key rs") auto
  with newest_SomeD [OF b] r have "b = r" by (metis not_less)
  with b show ?thesis by simp
qed

text \<open>The version of a table that \<open>delete_old_versions\<close> keeps.\<close>

definition newest_version :: "repo_db \<Rightarrow> int \<Rightarrow> version_row option" where
  "newest_version s tid = newest (version_key Postgres) [v \<leftarrow> version_rows s. ver_table_id v = tid]"

lemma delete_old_versions_alt:
  assumes "distinct (map ver_id (version_rows s))"
  shows "delete_old_versions d tid s =
    (let old = (\<lambda>v. ver_table_id v = tid \<and> newest_version s tid \<noteq> Some v) in
     (Inr (length (filter old (version_rows s))), delete_versions_where old s))"
proof -
  let ?kept = "List.map_filter (\<lambda>v. map_option ver_id (newest_version s (ver_table_id v))) (version_rows s)"
  have kept: "ver_id v \<in> set ?kept \<longleftrightarrow> newest_version s tid = Some v"
    if "v \<in> set (version_rows s)" "ver_table_id v = tid" for v
  proof
    assume "ver_id v \<in> set ?kept"
    then obtain w u where w: "w \<in> set (version_rows s)"
      "newest_version s (ver_table_id w) = Some u" "ver_id u = ver_id v"
      by (auto simp: List.map_filter_def)
    moreover from w(2) have "u \<in> set (version_rows s)" "ver_table_id u = ver_table_id w"
      by (auto simp: newest_version_def dest: newest_SomeD)
    ultimately show "newest_version s tid = Some v"
      using assms that by (metis (no_types, lifting) distinct_map inj_onD)
  next
    assume "newest_version s tid = Some v"
    with that show "ver_id v \<in> set ?kept" by (force simp: List.map_filter_def)
  qed
  have "filter (\<lambda>v. ver_table_id v = tid \<and> ver_id v \<notin> set ?kept) (version_rows s) =
      filter (\<lambda>v. ver_table_id v = tid \<and> newest_version s tid \<noteq> Some v) (version_rows s)"
    using kept by (intro filter_cong) auto
  moreover have "filter (\<lambda>v. \<not> (ver_table_id v = tid \<and> ver_id v \<notin> set ?kept)) (version_rows s) =
      filter (\<lambda>v. \<not> (ver_table_id v = tid \<and> newest_version s tid \<noteq> Some v)) (version_rows s)"
    using kept by (intro filter_cong) auto
  ultimately show ?thesis
    unfolding delete_old_versions_def delete_versions_where_def delete_rows_def
      newest_version_def [symmetric] Let_def by simp
qed

lemma versioned_delete_old_versions:
  assumes "rows_ok d s" and "versioned s"
  shows "versioned (snd (delete_old_versions d tid s))"
  unfolding versioned_def
proof (rule refsI)
  fix t assume t: "t \<in> set (sql_rows (db_tables (snd (delete_old_versions d tid s))))"
  then have mem: "t \<in> set (table_rows s)"
    by (simp add: delete_old_versions_def delete_versions_where_def Let_def)
  have dist: "distinct (map ver_id (version_rows s))"
    using rows_okD(4) [OF assms(1)] by (simp add: table_ok_def)
  from assms(2) mem obtain v where v: "v \<in> set (version_rows s)" "ver_table_id v = tbl_id t"
    by (auto simp: versioned_def dest: refsD)
  then obtain u where u: "newest_version s (tbl_id t) = Some u"
    by (cases "newest_version s (tbl_id t)") (auto simp: newest_version_def filter_empty_conv)
  then have "u \<in> set (version_rows s)" "ver_table_id u = tbl_id t"
    by (auto simp: newest_version_def dest: newest_SomeD)
  with u show "tbl_id t \<in> ver_table_id ` set (sql_rows (db_versions (snd (delete_old_versions d tid s))))"
    by (force simp: delete_old_versions_alt [OF dist] delete_versions_where_def Let_def)
qed

lemma versioned_delete_tables_where:
  assumes "inj_on tbl_id (set (table_rows s))" and "versioned s"
  shows "versioned (delete_tables_where P s)"
  unfolding versioned_def
proof (rule refsI)
  fix t assume "t \<in> set (sql_rows (db_tables (delete_tables_where P s)))"
  then have t: "t \<in> set (table_rows s)" "\<not> P t" by (auto simp: delete_defs)
  obtain v where v: "v \<in> set (version_rows s)" "ver_table_id v = tbl_id t"
    using assms(2) t by (auto simp: versioned_def dest: refsD)
  from assms(1) t have "tbl_id t \<notin> tbl_id ` {r \<in> set (table_rows s). P r}"
    by (auto dest: inj_onD)
  with v show "tbl_id t \<in> ver_table_id ` set (sql_rows (db_versions (delete_tables_where P s)))"
    by (intro image_eqI [of _ _ v]) (auto simp: delete_defs)
qed

lemma versioned_cong:
  "db_tables s' = db_tables s \<Longrightarrow> db_versions s' = db_versions s \<Longrightarrow> versioned s' = versioned s"
  by (simp add: versioned_def)

lemma insert_columns_frame [simp]:
  "db_databases (snd (insert_columns d v cs s)) = db_databases s"
  "db_collections (snd (insert_columns d v cs s)) = db_collections s"
  "db_tables (snd (insert_columns d v cs s)) = db_tables s"
  "db_versions (snd (insert_columns d v cs s)) = db_versions s"
  "db_functions (snd (insert_columns d v cs s)) = db_functions s"
  "db_dropped (snd (insert_columns d v cs s)) = db_dropped s"
  by (auto simp: insert_columns_def split: prod.splits sum.splits)

lemma versioned_insert_columns: "versioned s \<Longrightarrow> versioned (snd (insert_columns d v cs s))"
  by (simp add: versioned_def)

lemma versioned_insert_version: "versioned s \<Longrightarrow> versioned (snd (insert_version d tid v s))"
  by (auto simp: insert_version_def insert_defs versioned_def intro: sql_intros)

text \<open>The initial version of a new table is always inserted: the row it refers to is there.\<close>

lemma insert_table_cases:
  obtains (fails) e where "insert_table d cid name u s = (Inl e, s\<lparr>db_tables := take_id d (db_tables s)\<rparr>)"
  | (works) tid where "tid = new_id d tbl_id (db_tables s)"
      "insert_table d cid name u s = (Inr tid, s\<lparr>db_tables := (take_id d (db_tables s))
         \<lparr>sql_rows := table_rows s @
           [\<lparr>tbl_id = tid, tbl_collection_id = cid, tbl_name = name, tbl_uuid = u\<rparr>]\<rparr>\<rparr>)"
      "cid \<in> coll_id ` set (collection_rows s)" "(cid, name) \<notin> tbl_key ` set (table_rows s)"
  using insert_table_eq [of d cid name u s] by (metis (no_types, lifting))

lemma insert_version_works:
  "tid \<in> tbl_id ` set (table_rows s) \<Longrightarrow>
    insert_version d tid v s = (Inr (new_id d ver_id (db_versions s)),
      s\<lparr>db_versions := (take_id d (db_versions s))\<lparr>sql_rows := version_rows s @
        [\<lparr>ver_id = new_id d ver_id (db_versions s), ver_table_id = tid, ver_creation_time = db_now s,
          ver_version = v\<rparr>]\<rparr>\<rparr>)"
  by (auto simp: insert_version_def insert_defs)

lemma versioned_create_table:
  assumes "versioned s"
  shows "versioned (snd (create_table d to_json cid name schema u s))"
proof (cases rule: insert_table_cases [of d cid name u s])
  case (fails e)
  with assms show ?thesis by (simp add: create_table_def bind_st_def versioned_def)
next
  case (works tid)
  let ?s = "snd (insert_table d cid name u s)"
  have "tid \<in> tbl_id ` set (table_rows ?s)" by (simp add: works)
  then have "versioned (snd (insert_version d tid 0 ?s))"
    using assms by (auto simp: insert_version_works works versioned_def refs_def)
  with \<open>tid \<in> tbl_id ` set (table_rows ?s)\<close> works(2) show ?thesis
    unfolding create_table_def
    by (simp add: bind_st_def [of "insert_table d cid name u"] bind_st_def [of "insert_version d tid 0"]
        insert_version_works)
      (auto intro!: bind_st_preserves [where P = versioned] versioned_insert_columns)
qed

lemma versioned_create_new_version:
  assumes "versioned s"
  shows "versioned (snd (create_new_version d u v s))"
  unfolding create_new_version_def Let_def
  by (intro bind_st_preserves [where P = versioned])
    (auto simp: assms fetch_one_def versioned_insert_version versioned_insert_columns)

lemma versioned_rename_table: "versioned s \<Longrightarrow> versioned (snd (rename_table d tid name c s))"
  by (auto simp: rename_table_def Let_def versioned_def refs_def split: option.splits)

lemma rows_ok_inj_tbl_id: "rows_ok d s \<Longrightarrow> inj_on tbl_id (set (table_rows s))"
  by (auto dest: rows_okD(3) simp: table_ok_def distinct_map)

lemma versioned_delete_collections_where:
  "rows_ok d s \<Longrightarrow> versioned s \<Longrightarrow> versioned (delete_collections_where P s)"
  unfolding delete_collections_where_def Let_def
  by (rule versioned_delete_tables_where) (simp_all add: rows_ok_inj_tbl_id versioned_def)

lemma versioned_delete_databases_where:
  "rows_ok d s \<Longrightarrow> versioned s \<Longrightarrow> versioned (delete_databases_where P s)"
  unfolding delete_databases_where_def delete_collections_where_def Let_def
  by (rule versioned_delete_tables_where) (simp_all add: rows_ok_inj_tbl_id versioned_def)

lemma versioned_setup_column_types: "versioned s \<Longrightarrow> versioned (setup_column_types m s)"
  unfolding setup_column_types_def
  by (rule fold_invariant [where Q = "\<lambda>_. True"])
    (auto simp: migrate_column_def versioned_def split: option.splits)

lemma rows_ok_migrate_column:
  assumes "rows_ok d s"
  shows "rows_ok d (migrate_column m row s)"
proof (cases "m (col_type row)")
  case (Some j)
  let ?t = "update_rows (\<lambda>c. col_id c = col_id row) (\<lambda>c. c\<lparr>col_type := j\<rparr>) (db_columns s)"
  have keys: "map (col_key \<circ> (\<lambda>c. if col_id c = col_id row then c\<lparr>col_type := j\<rparr> else c))
      (column_rows s) = map col_key (column_rows s)"
    by (simp add: col_key_def)
  have "table_ok d col_id col_key ?t"
    using rows_okD(5) [OF assms] keys
    by (intro table_ok_update_rows rows_okD(5) [OF assms]) (simp_all only: table_ok_def, simp)
  moreover have "refs col_version_id ?t ver_id (db_versions s)"
    using rows_okD(10) [OF assms] by (auto simp: refs_def)
  ultimately show ?thesis using assms Some by (simp add: rows_ok_def migrate_column_def)
qed (simp add: assms migrate_column_def)

lemma rows_ok_setup_column_types: "rows_ok d s \<Longrightarrow> rows_ok d (setup_column_types m s)"
  unfolding setup_column_types_def
  by (rule fold_invariant [where Q = "\<lambda>_. True"]) (auto simp: rows_ok_migrate_column)


subsection \<open>Every sequence of calls\<close>

text \<open>
  One step of the repository: a method call with any arguments, successful or not, a restart that
  runs \<open>setup\<close> again, or the passing of time.
\<close>

inductive repo_step :: "dialect \<Rightarrow> ('f \<Rightarrow> (string, string) result) \<Rightarrow> repo_db \<Rightarrow> repo_db \<Rightarrow> bool"
  for d to_json where
  create_database: "repo_step d to_json s (snd (create_database d name s))"
| create_collection: "repo_step d to_json s (snd (create_collection d did name s))"
| create_table: "repo_step d to_json s (snd (create_table d to_json cid name schema u s))"
| create_new_version: "repo_step d to_json s (snd (create_new_version d u v s))"
| create_function: "repo_step d to_json s (snd (create_function_columns d did name r c s))"
| rename_table: "repo_step d to_json s (snd (rename_table d tid name new_cid s))"
| drop_function: "repo_step d to_json s (snd (drop_function d did names s))"
| delete_table: "repo_step d to_json s (snd (delete_table d tid s))"
| delete_collection: "repo_step d to_json s (snd (delete_collection d cid s))"
| delete_database: "repo_step d to_json s (snd (delete_database d did s))"
| delete_old_versions: "repo_step d to_json s (snd (delete_old_versions d tid s))"
| update_dropped_table: "repo_step d to_json s (snd (update_dropped_table d encode u st s))"
| delete_dropped_table: "repo_step d to_json s (snd (delete_dropped_table d u s))"
| restart: "repo_step d to_json s (setup_column_types migrate s)"
| tick: "db_now s \<le> now \<Longrightarrow> repo_step d to_json s (s\<lparr>db_now := now\<rparr>)"

inductive repo_reachable :: "dialect \<Rightarrow> ('f \<Rightarrow> (string, string) result) \<Rightarrow> repo_db \<Rightarrow> bool"
  for d to_json where
  migrated: "repo_reachable d to_json (migrated_db now)"
| step: "repo_reachable d to_json s \<Longrightarrow> repo_step d to_json s s' \<Longrightarrow> repo_reachable d to_json s'"

lemma delete_stmt_preserves:
  "P s \<Longrightarrow> (\<And>Q. P (del Q s)) \<Longrightarrow> P (snd (delete_stmt d rows del Q s))"
  by (simp add: delete_stmt_def)

lemma rows_ok_irrelevant [simp]:
  "rows_ok d (s\<lparr>db_dropped := x\<rparr>) = rows_ok d s"
  "rows_ok d (s\<lparr>db_now := n\<rparr>) = rows_ok d s"
  by (simp_all add: rows_ok_def)

lemma versioned_irrelevant [simp]:
  "versioned (s\<lparr>db_databases := a\<rparr>) = versioned s"
  "versioned (s\<lparr>db_collections := b\<rparr>) = versioned s"
  "versioned (s\<lparr>db_functions := c\<rparr>) = versioned s"
  "versioned (s\<lparr>db_dropped := x\<rparr>) = versioned s"
  "versioned (s\<lparr>db_now := n\<rparr>) = versioned s"
  by (simp_all add: versioned_def)

lemma rows_ok_step: "repo_step d to_json s s' \<Longrightarrow> rows_ok d s \<Longrightarrow> rows_ok d s'"
  by (induction rule: repo_step.induct)
    (auto simp: rows_ok_create_database rows_ok_create_collection rows_ok_create_table
      rows_ok_create_new_version rows_ok_create_function rows_ok_rename_table rows_ok_drop_function
      delete_table_def delete_collection_def delete_database_def delete_old_versions_def Let_def
      rows_ok_delete_tables_where rows_ok_delete_collections_where rows_ok_delete_databases_where
      rows_ok_delete_versions_where update_dropped_table_def delete_dropped_table_def
      rows_ok_setup_column_types intro!: delete_stmt_preserves [where P = "rows_ok d"])

lemma versioned_step: "repo_step d to_json s s' \<Longrightarrow> rows_ok d s \<Longrightarrow> versioned s \<Longrightarrow> versioned s'"
  by (induction rule: repo_step.induct)
    (auto simp: versioned_setup_column_types create_database_eq create_collection_eq versioned_create_table
      versioned_create_new_version create_function_columns_def insert_defs versioned_rename_table
      drop_function_def delete_table_def delete_collection_def delete_database_def
      versioned_delete_tables_where rows_ok_inj_tbl_id versioned_delete_collections_where
      versioned_delete_databases_where versioned_delete_old_versions
      update_dropped_table_def delete_dropped_table_def
      split: option.splits intro!: delete_stmt_preserves [where P = versioned])

lemma repo_ok_reachable: "repo_reachable d to_json s \<Longrightarrow> repo_ok d s"
  by (induction rule: repo_reachable.induct)
    (use repo_ok_migrated in \<open>auto simp: repo_ok_def dest: rows_ok_step versioned_step\<close>)

subsection \<open>Versions and the clock\<close>

text \<open>
  As long as the clock of the database does not run backwards, the ids of the versions follow their
  creation times: a new id is larger than every id present, also one that is handed out again.
\<close>

definition clock_ok :: "repo_db \<Rightarrow> bool" where
  "clock_ok s \<longleftrightarrow> (\<forall>v\<in>set (version_rows s). ver_creation_time v \<le> db_now s \<and>
     (\<forall>w\<in>set (version_rows s). ver_id v < ver_id w \<longrightarrow> ver_creation_time v \<le> ver_creation_time w))"

lemma new_id_greater: "table_ok d rid key t \<Longrightarrow> r \<in> set (sql_rows t) \<Longrightarrow> rid r < new_id d rid t"
  using foldr_max_ge [of "rid r" "map rid (sql_rows t)" 0]
  by (auto simp: new_id_def table_ok_def split: dialect.splits)

lemma clock_ok_subset:
  "clock_ok s \<Longrightarrow> set (version_rows s') \<subseteq> set (version_rows s) \<Longrightarrow> db_now s \<le> db_now s' \<Longrightarrow> clock_ok s'"
  unfolding clock_ok_def by (meson order_trans subsetD)

lemma clock_ok_same:
  "clock_ok s \<Longrightarrow> version_rows s' = version_rows s \<Longrightarrow> db_now s' = db_now s \<Longrightarrow> clock_ok s'"
  by (simp add: clock_ok_def)

lemma clock_ok_insert_version:
  assumes "rows_ok d s" and "clock_ok s"
  shows "clock_ok (snd (insert_version d tid v s))"
proof (cases "tid \<in> tbl_id ` set (table_rows s)")
  case True
  have "ver_id w < new_id d ver_id (db_versions s)" if "w \<in> set (version_rows s)" for w
    using new_id_greater [OF rows_okD(4) [OF assms(1)] that] .
  then have "\<not> new_id d ver_id (db_versions s) < ver_id w" if "w \<in> set (version_rows s)" for w
    using that by (meson not_less_iff_gr_or_eq)
  with assms(2) True show ?thesis
    by (auto simp: insert_version_works clock_ok_def)
next
  case False
  with assms(2) show ?thesis
    by (intro clock_ok_same [OF assms(2)]) (simp_all add: insert_version_def insert_defs)
qed

lemma insert_columns_now [simp]: "db_now (snd (insert_columns d v cs s)) = db_now s"
  by (auto simp: insert_columns_def split: prod.splits sum.splits)

lemma clock_ok_insert_columns: "clock_ok s \<Longrightarrow> clock_ok (snd (insert_columns d v cs s))"
  by (rule clock_ok_same) simp_all

lemma clock_ok_insert_table: "clock_ok s \<Longrightarrow> clock_ok (snd (insert_table d cid name u s))"
  by (simp add: insert_table_eq clock_ok_def)

lemma clock_ok_create_table:
  assumes "rows_ok d s" and "clock_ok s"
  shows "clock_ok (snd (create_table d to_json cid name schema u s))"
proof -
  let ?P = "\<lambda>s. rows_ok d s \<and> clock_ok s"
  have "?P (snd (create_table d to_json cid name schema u s))"
    unfolding create_table_def
    by (intro bind_st_preserves [where P = ?P])
      (auto simp: assms rows_ok_insert_table rows_ok_insert_version clock_ok_insert_table
        clock_ok_insert_version rows_ok_insert_columns clock_ok_insert_columns
        intro!: bind_st_preserves [where P = "rows_ok d"] bind_st_preserves [where P = clock_ok])
  then show ?thesis by simp
qed

lemma clock_ok_create_new_version:
  assumes "rows_ok d s" and "clock_ok s"
  shows "clock_ok (snd (create_new_version d u v s))"
proof -
  let ?P = "\<lambda>s. rows_ok d s \<and> clock_ok s"
  have "?P (snd (create_new_version d u v s))"
    unfolding create_new_version_def Let_def
    by (intro bind_st_preserves [where P = ?P])
      (auto simp: assms fetch_one_def rows_ok_insert_version clock_ok_insert_version
        rows_ok_insert_columns clock_ok_insert_columns)
  then show ?thesis by simp
qed

lemma delete_where_versions:
  "set (version_rows (delete_versions_where P s)) \<subseteq> set (version_rows s)"
  "set (version_rows (delete_tables_where Q s)) \<subseteq> set (version_rows s)"
  "set (version_rows (delete_collections_where R s)) \<subseteq> set (version_rows s)"
  "set (version_rows (delete_databases_where T s)) \<subseteq> set (version_rows s)"
  "db_now (delete_versions_where P s) = db_now s"
  "db_now (delete_tables_where Q s) = db_now s"
  "db_now (delete_collections_where R s) = db_now s"
  "db_now (delete_databases_where T s) = db_now s"
  by (auto simp: delete_defs)

lemma clock_ok_delete_where:
  "clock_ok s \<Longrightarrow> clock_ok (delete_versions_where P s)"
  "clock_ok s \<Longrightarrow> clock_ok (delete_tables_where Q s)"
  "clock_ok s \<Longrightarrow> clock_ok (delete_collections_where R s)"
  "clock_ok s \<Longrightarrow> clock_ok (delete_databases_where T s)"
  using clock_ok_subset delete_where_versions by (metis order_refl)+

lemma clock_ok_setup_column_types: "clock_ok s \<Longrightarrow> clock_ok (setup_column_types m s)"
  unfolding setup_column_types_def
  by (rule fold_invariant [where Q = "\<lambda>_. True"])
    (auto simp: migrate_column_def clock_ok_def split: option.splits)

lemma clock_ok_irrelevant [simp]:
  "clock_ok (s\<lparr>db_databases := a\<rparr>) = clock_ok s"
  "clock_ok (s\<lparr>db_collections := b\<rparr>) = clock_ok s"
  "clock_ok (s\<lparr>db_tables := t\<rparr>) = clock_ok s"
  "clock_ok (s\<lparr>db_functions := c\<rparr>) = clock_ok s"
  "clock_ok (s\<lparr>db_dropped := x\<rparr>) = clock_ok s"
  by (simp_all add: clock_ok_def)

lemma clock_ok_tick: "clock_ok s \<Longrightarrow> db_now s \<le> n \<Longrightarrow> clock_ok (s\<lparr>db_now := n\<rparr>)"
  by (rule clock_ok_subset) simp_all

lemma clock_ok_step: "repo_step d to_json s s' \<Longrightarrow> rows_ok d s \<Longrightarrow> clock_ok s \<Longrightarrow> clock_ok s'"
  by (induction rule: repo_step.induct)
    (auto simp: create_database_eq create_collection_eq clock_ok_create_table
      clock_ok_create_new_version create_function_columns_def insert_defs rename_table_def
      drop_function_def delete_table_def delete_collection_def delete_database_def
      delete_old_versions_def clock_ok_delete_where clock_ok_setup_column_types clock_ok_tick
      update_dropped_table_def delete_dropped_table_def
      split: option.splits intro!: delete_stmt_preserves [where P = clock_ok])

lemma clock_ok_reachable: "repo_reachable d to_json s \<Longrightarrow> clock_ok s"
proof (induction rule: repo_reachable.induct)
  case (step s s')
  then show ?case
    using repo_ok_reachable [of d to_json s] by (auto simp: repo_ok_def intro: clock_ok_step)
qed (simp add: clock_ok_def migrated_db_def)

text \<open>So both orders of the versions agree.\<close>

lemma latest_is_newest:
  assumes "rows_ok d s" and "clock_ok s"
  shows "latest_table_version d' s tid = newest_version s tid"
proof (cases "newest_version s tid")
  case None
  then show ?thesis by (simp add: newest_version_def latest_table_version_def)
next
  case (Some v)
  have inj: "inj_on ver_id (set (version_rows s))"
    using rows_okD(4) [OF assms(1)] by (simp add: table_ok_def distinct_map)
  from newest_SomeD [OF Some [unfolded newest_version_def]]
  have v: "v \<in> set (version_rows s)" "ver_table_id v = tid"
    and max: "\<And>w. w \<in> set (version_rows s) \<Longrightarrow> ver_table_id w = tid \<Longrightarrow>
      (ver_creation_time w, ver_id w) \<le> (ver_creation_time v, ver_id v)"
    by (auto simp: version_key_def)
  have "version_key d' w < version_key d' v"
    if w: "w \<in> set (version_rows s)" "ver_table_id w = tid" "w \<noteq> v" for w
  proof -
    have ne: "ver_id w \<noteq> ver_id v" using inj w v by (auto dest: inj_onD)
    have "\<not> ver_id v < ver_id w"
    proof
      assume "ver_id v < ver_id w"
      with assms(2) v w have "ver_creation_time v \<le> ver_creation_time w"
        by (auto simp: clock_ok_def)
      with max [OF w(1,2)] \<open>ver_id v < ver_id w\<close> show False by auto
    qed
    with ne max [OF w(1,2)] show ?thesis by (auto simp: version_key_def split: dialect.splits)
  qed
  with v have "latest_table_version d' s tid = Some v"
    unfolding latest_table_version_def by (intro newest_SomeI) auto
  with Some show ?thesis by simp
qed

end
