(* ===== verification/RepositoryCorrect.thy ===== *)
theory RepositoryCorrect
  imports RepositoryInvariant
begin

text \<open>
  What the methods of the metadata repository do: a created table starts from nothing but its own
  rows, a new version carries the columns of the last one, vacuuming keeps the version that the
  catalog shows, and the ways in which the methods fail.
\<close>


subsection \<open>Columns and versions\<close>

lemma no_columns_of_new_version:
  assumes "rows_ok d s" and "vid \<notin> ver_id ` set (version_rows s)"
  shows "columns_of s vid = []"
proof -
  have "col_version_id c \<noteq> vid" if "c \<in> set (column_rows s)" for c
    using refsD [OF rows_okD(10) [OF assms(1)] that] assms(2) by force
  then show ?thesis by (simp add: columns_of_def filter_empty_conv)
qed

lemma distinct_columns_of: "rows_ok d s \<Longrightarrow> distinct (map fst (columns_of s vid))"
proof -
  assume "rows_ok d s"
  then have "distinct (map col_key (filter (\<lambda>c. col_version_id c = vid) (column_rows s)))"
    by (auto dest: rows_okD(5) simp: table_ok_def distinct_map_filter)
  then have "distinct (map (snd \<circ> col_key) (filter (\<lambda>c. col_version_id c = vid) (column_rows s)))"
    by (auto simp: distinct_map col_key_def inj_on_def)
  then show ?thesis by (simp add: columns_of_def col_key_def comp_def)
qed

lemma insert_column_rows_Inl:
  "fst (insert_column_rows d vid cs t) = Inl e \<Longrightarrow> e = unique_error d Column_Name"
  by (induction d vid cs t rule: insert_column_rows.induct)
    (auto simp: insert_row_def Let_def split: if_splits)

text \<open>Inserting the columns of a version that has none succeeds exactly when no name occurs twice.\<close>

lemma insert_columns_new_version:
  assumes ok: "rows_ok d s" and vid: "vid \<in> ver_id ` set (version_rows s)"
    and none: "columns_of s vid = []" and ins: "insert_columns d vid cs s = (r, s')"
  shows "r = (if distinct (map fst cs) then Inr ()
              else Inl (UniqueConstraintViolation (unique_error d Column_Name)))"
    and "columns_of s' v = (if v = vid \<and> distinct (map fst cs) then cs else columns_of s v)"
proof -
  obtain r' t where eq: "insert_column_rows d vid cs (db_columns s) = (r', t)"
    by (cases "insert_column_rows d vid cs (db_columns s)")
  from insert_column_rows_ok [OF rows_okD(5) [OF ok] eq] obtain new
    where new: "sql_rows t = column_rows s @ new" "\<forall>c\<in>set new. col_version_id c = vid"
      "r' = Inr () \<longrightarrow> map (\<lambda>c. (col_name c, col_type c)) new = cs"
    by blast
  have no: "c \<in> set (column_rows s) \<Longrightarrow> col_version_id c \<noteq> vid" for c
    using none by (auto simp: columns_of_def filter_empty_conv)
  have good: "r' = Inr () \<longleftrightarrow> distinct (map fst cs)"
    using insert_column_rows_Inr [of d vid cs "db_columns s"] eq no by auto
  have bad: "r' = Inl e \<Longrightarrow> e = unique_error d Column_Name" for e
    using insert_column_rows_Inl [of d vid cs "db_columns s" e] eq by simp
  have old: "filter (\<lambda>c. col_version_id c = v) new = (if v = vid then new else [])" for v
    using new(2) by (auto simp: filter_id_conv filter_empty_conv)
  show "r = (if distinct (map fst cs) then Inr ()
              else Inl (UniqueConstraintViolation (unique_error d Column_Name)))"
    using ins eq good bad vid by (auto simp: insert_columns_def split: sum.splits)
  show "columns_of s' v = (if v = vid \<and> distinct (map fst cs) then cs else columns_of s v)"
    using ins eq good new none vid old [of v] none
    by (cases r') (auto simp: insert_columns_def columns_of_def)
qed

lemma schema_fields_names: "schema_fields to_json schema = Inr flds \<Longrightarrow> map fst flds = map fst schema"
  unfolding schema_fields_def
  by (induction schema arbitrary: flds) (auto simp: res_simps split: prod.splits)

text \<open>
  \<open>create_table\<close> with a free name in a present collection: both rows are inserted, and what is left
  is the insert of the columns.
\<close>

definition with_new_table :: "dialect \<Rightarrow> int \<Rightarrow> string \<Rightarrow> uuid \<Rightarrow> repo_db \<Rightarrow> repo_db" where
  "with_new_table d cid name u s =
     (let tid = new_id d tbl_id (db_tables s) in
      snd (insert_version d tid 0 (snd (insert_table d cid name u s))))"

lemma no_columns:
  "bind_st (lift_res (schema_fields to_json schema)) (insert_columns d vid) =
    (if schema = [] then return_st ()
     else bind_st (lift_res (schema_fields to_json schema)) (insert_columns d vid))"
  by (rule ext) (simp add: schema_fields_def bind_st_def insert_columns_def)

lemma create_table_free:
  assumes "cid \<in> coll_id ` set (collection_rows s)" and "(cid, name) \<notin> tbl_key ` set (table_rows s)"
    and "tid = new_id d tbl_id (db_tables s)" and "vid = new_id d ver_id (db_versions s)"
  shows "create_table d to_json cid name schema u s =
      bind_st (bind_st (lift_res (schema_fields to_json schema)) (insert_columns d vid)) (\<lambda>_.
      return_st (tid, vid)) (with_new_table d cid name u s)"
    and "table_rows (with_new_table d cid name u s) = table_rows s @
      [\<lparr>tbl_id = tid, tbl_collection_id = cid, tbl_name = name, tbl_uuid = u\<rparr>]"
    and "version_rows (with_new_table d cid name u s) = version_rows s @
      [\<lparr>ver_id = vid, ver_table_id = tid, ver_creation_time = db_now s, ver_version = 0\<rparr>]"
    and "db_collections (with_new_table d cid name u s) = db_collections s"
    and "db_columns (with_new_table d cid name u s) = db_columns s"
  using assms
  by (simp_all add: create_table_def with_new_table_def no_columns [symmetric] insert_table_eq insert_version_works
      bind_st_def [of "insert_table d cid name u"] bind_st_def [of "insert_version d _ 0"] Let_def)

lemma rows_ok_with_new_table: "rows_ok d s \<Longrightarrow> rows_ok d (with_new_table d cid name u s)"
  by (simp add: with_new_table_def Let_def rows_ok_insert_table rows_ok_insert_version)

lemma create_table_InrD:
  assumes ok: "rows_ok d s" and ct: "create_table d to_json cid name schema u s = (Inr (tid, vid), s')"
  shows "tid = new_id d tbl_id (db_tables s)" "vid = new_id d ver_id (db_versions s)"
    "cid \<in> coll_id ` set (collection_rows s)" "(cid, name) \<notin> tbl_key ` set (table_rows s)"
    "table_rows s' = table_rows (with_new_table d cid name u s)"
    "version_rows s' = version_rows (with_new_table d cid name u s)"
    "\<exists>flds. schema_fields to_json schema = Inr flds \<and> distinct (map fst flds) \<and> columns_of s' vid = flds"
    "\<And>v. v \<noteq> vid \<Longrightarrow> columns_of s' v = columns_of s v"
proof -
  have free: "cid \<in> coll_id ` set (collection_rows s) \<and> (cid, name) \<notin> tbl_key ` set (table_rows s)"
    using ct by (cases rule: insert_table_cases [of d cid name u s])
      (auto simp: create_table_def bind_st_def)
  then show "cid \<in> coll_id ` set (collection_rows s)" "(cid, name) \<notin> tbl_key ` set (table_rows s)"
    by auto
  let ?s = "with_new_table d cid name u s" and ?v = "new_id d ver_id (db_versions s)"
  note ctf = create_table_free [OF conjunct1 [OF free] conjunct2 [OF free] refl refl]
  have ids: "tid = new_id d tbl_id (db_tables s)" "vid = ?v"
    using ct by (auto simp: ctf(1) res_simps split: if_splits)
  then show "tid = new_id d tbl_id (db_tables s)" "vid = ?v" by auto
  have fresh: "?v \<notin> ver_id ` set (version_rows s)"
    by (rule new_id_notin [OF rows_okD(4) [OF ok]])
  have mem: "?v \<in> ver_id ` set (version_rows ?s)" by (simp add: ctf(3))
  have none: "columns_of ?s ?v = []"
    using no_columns_of_new_version [OF ok fresh] by (simp add: columns_of_def ctf(5))
  have cols: "columns_of ?s v = columns_of s v" for v by (simp add: columns_of_def ctf(5))
  obtain flds where f: "schema_fields to_json schema = Inr flds"
    and ins: "insert_columns d ?v flds ?s = (Inr (), s')"
    using ct by (auto simp: ctf(1) res_simps)
  show "table_rows s' = table_rows ?s" "version_rows s' = version_rows ?s"
    using insert_columns_frame(3,4) [of d ?v flds ?s] by (simp_all add: ins)
  note new = insert_columns_new_version [OF rows_ok_with_new_table [OF ok] mem none ins]
  from new(1) have "distinct (map fst flds)" by (simp split: if_splits)
  with new f ids show "\<exists>flds. schema_fields to_json schema = Inr flds \<and> distinct (map fst flds) \<and>
      columns_of s' vid = flds"
    by simp
  show "columns_of s' v = columns_of s v" if "v \<noteq> vid" for v
    using new(2) [of v] that ids cols by simp
qed

subsection \<open>Properties of the repository\<close>

text \<open>
  C13: the constraints of the migrations hold in every state that the methods of the repository reach,
  and every table has a version: names are unique within their parent, ids are unique, every
  reference points to a present row.
\<close>

theorem repository_keeps_constraints:
  assumes "repo_reachable d to_json s"
  shows "distinct (map dbr_name (database_rows s)) \<and>
    distinct (map coll_key (collection_rows s)) \<and> distinct (map tbl_key (table_rows s)) \<and>
    distinct (map col_key (column_rows s)) \<and> distinct (map fn_key (function_rows s)) \<and>
    distinct (map tbl_id (table_rows s)) \<and> distinct (map ver_id (version_rows s)) \<and>
    coll_database_id ` set (collection_rows s) \<subseteq> dbr_id ` set (database_rows s) \<and>
    tbl_collection_id ` set (table_rows s) \<subseteq> coll_id ` set (collection_rows s) \<and>
    col_version_id ` set (column_rows s) \<subseteq> ver_id ` set (version_rows s) \<and>
    fn_database_id ` set (function_rows s) \<subseteq> dbr_id ` set (database_rows s) \<and>
    ver_table_id ` set (version_rows s) = tbl_id ` set (table_rows s)"
  using repo_ok_reachable [OF assms]
  by (auto simp: repo_ok_def rows_ok_def versioned_def table_ok_def refs_def)

definition no_json :: "unit \<Rightarrow> (string, string) result" where
  "no_json _ = Inr ''{}''"

definition example_db :: "dialect \<Rightarrow> repo_db" where
  "example_db d = snd (create_table d no_json 1 ''t'' [(''a'', ())] 7
     (snd (create_collection d 1 ''public'' (snd (create_database d ''default'' (migrated_db 10))))))"

lemma example_db_reachable: "repo_reachable d no_json (example_db d)"
  unfolding example_db_def
  by (intro repo_reachable.step [OF _ repo_step.create_table]
      repo_reachable.step [OF _ repo_step.create_collection]
      repo_reachable.step [OF _ repo_step.create_database] repo_reachable.migrated)

theorem repository_keeps_constraints_witness:
  "repo_reachable SQLite no_json (example_db SQLite) \<and>
   ver_table_id ` set (version_rows (example_db SQLite)) = tbl_id ` set (table_rows (example_db SQLite))"
  using repository_keeps_constraints [OF example_db_reachable [of SQLite]] example_db_reachable [of SQLite]
  by blast

text \<open>
  a table that \<open>create_table\<close> returns starts from nothing but what the call inserted, even where
  SQLite gives it the id of a table that was dropped before: its only version is the new one, with
  version number 0 and the time of the call, the columns of that version are the fields of the schema
  in their order, and the versions and columns of every other table are as they were.
\<close>

theorem created_table_is_fresh:
  assumes "repo_reachable d to_json s"
    and "create_table d to_json cid name schema u s = (Inr (tid, vid), s')"
  shows "tid \<notin> tbl_id ` set (table_rows s) \<and>
    [v \<leftarrow> version_rows s'. ver_table_id v = tid] =
      [\<lparr>ver_id = vid, ver_table_id = tid, ver_creation_time = db_now s, ver_version = 0\<rparr>] \<and>
    schema_fields to_json schema = Inr (columns_of s' vid) \<and>
    (\<forall>tid'. tid' \<noteq> tid \<longrightarrow>
       [v \<leftarrow> version_rows s'. ver_table_id v = tid'] = [v \<leftarrow> version_rows s. ver_table_id v = tid']) \<and>
    (\<forall>v\<in>set (version_rows s). columns_of s' (ver_id v) = columns_of s (ver_id v))"
proof -
  have ok: "rows_ok d s" using repo_ok_reachable [OF assms(1)] by (simp add: repo_ok_def)
  note ct = create_table_InrD [OF ok assms(2)]
  have new: "tid \<notin> tbl_id ` set (table_rows s)" "vid \<notin> ver_id ` set (version_rows s)"
    using new_id_notin rows_okD(3,4) [OF ok] ct(1,2) by metis+
  have vers: "version_rows s' = version_rows s @
      [\<lparr>ver_id = vid, ver_table_id = tid, ver_creation_time = db_now s, ver_version = 0\<rparr>]"
    using create_table_free(3) [OF ct(3,4,1,2)] ct(6) by simp
  have old: "ver_table_id v \<noteq> tid" if "v \<in> set (version_rows s)" for v
    using refsD [OF rows_okD(9) [OF ok] that] new(1) by force
  have "columns_of s' (ver_id v) = columns_of s (ver_id v)" if "v \<in> set (version_rows s)" for v
    using ct(8) [of "ver_id v"] new(2) that by force
  with new old vers ct(7) show ?thesis by (auto simp: filter_empty_conv)
qed

text \<open>
  The witness drops a table on SQLite and creates another one, which takes over both ids.
\<close>

theorem created_table_is_fresh_witness:
  "let s = snd (delete_table SQLite 1 (example_db SQLite));
       r = create_table SQLite no_json 1 ''u'' [(''b'', ())] 8 s in
   fst r = Inr (1, 1) \<and> map ver_version [v \<leftarrow> version_rows (snd r). ver_table_id v = 1] = [0] \<and>
   columns_of (snd r) 1 = [(''b'', ''{}'')]"
proof -
  let ?s = "snd (delete_table SQLite 1 (example_db SQLite))"
  let ?r = "create_table SQLite no_json 1 ''u'' [(''b'', ())] 8 ?s"
  have reach: "repo_reachable SQLite no_json ?s"
    by (intro repo_reachable.step [OF example_db_reachable] repo_step.delete_table)
  have "fst ?r = Inr (1, 1)" by code_simp
  then have "?r = (Inr (1, 1), snd ?r)" by (metis prod.collapse)
  from created_table_is_fresh [OF reach this] \<open>fst ?r = Inr (1, 1)\<close> show ?thesis
    by (simp add: Let_def schema_fields_def no_json_def)
qed

text \<open>
  \<open>create_table\<close> is not atomic. When a field name occurs twice in the schema, the call fails with
  a unique violation after it has inserted the table and its version: the catalog now has a table of
  that name with no columns, and every later call for the name fails, whatever its schema.
\<close>

theorem create_table_not_atomic:
  assumes "repo_reachable d to_json s" and "cid \<in> coll_id ` set (collection_rows s)"
    and "(cid, name) \<notin> tbl_key ` set (table_rows s)"
    and "schema_fields to_json schema = Inr flds" and "\<not> distinct (map fst schema)"
    and "create_table d to_json cid name schema u s = (r, s')"
  shows "r = Inl (UniqueConstraintViolation (unique_error d Column_Name)) \<and>
    table_rows s' = table_rows s @ [\<lparr>tbl_id = new_id d tbl_id (db_tables s), tbl_collection_id = cid,
      tbl_name = name, tbl_uuid = u\<rparr>] \<and>
    columns_of s' (new_id d ver_id (db_versions s)) = [] \<and>
    (\<forall>schema' u'. fst (create_table d to_json cid name schema' u' s') =
       Inl (UniqueConstraintViolation (unique_error d Table_Name)))"
proof -
  have ok: "rows_ok d s" using repo_ok_reachable [OF assms(1)] by (simp add: repo_ok_def)
  let ?s = "with_new_table d cid name u s" and ?v = "new_id d ver_id (db_versions s)"
  note ctf = create_table_free [OF assms(2,3) refl refl]
  have none: "columns_of ?s ?v = []"
    using no_columns_of_new_version [OF ok new_id_notin [OF rows_okD(4) [OF ok]]]
    by (simp add: columns_of_def ctf(5))
  have mem: "?v \<in> ver_id ` set (version_rows ?s)" by (simp add: ctf(3))
  obtain r' s'' where ins: "insert_columns d ?v flds ?s = (r', s'')" by fastforce
  have "\<not> distinct (map fst flds)" using assms(4,5) schema_fields_names by metis
  with insert_columns_new_version [OF rows_ok_with_new_table [OF ok] mem none ins] none
  have r': "r' = Inl (UniqueConstraintViolation (unique_error d Column_Name))" "columns_of s'' ?v = []"
    by simp_all
  have s': "r = r'' \<and> s' = s''" if "r'' = Inl (UniqueConstraintViolation (unique_error d Column_Name))" for r''
    using assms(6) ins r' that by (simp add: ctf(1) assms(4) bind_st_def)
  have rows: "table_rows s'' = table_rows ?s"
    using insert_columns_frame(3) [of d ?v flds ?s] by (simp add: ins)
  then have key: "(cid, name) \<in> tbl_key ` set (table_rows s'')"
    by (simp add: ctf(2) tbl_key_def)
  have "fst (create_table d to_json cid name schema' u' s'') =
      Inl (UniqueConstraintViolation (unique_error d Table_Name))" for schema' u'
    using key by (simp add: create_table_def insert_table_eq bind_st_def)
  with s' r' rows ctf(2) show ?thesis by simp
qed

theorem create_table_not_atomic_witness:
  "fst (create_table SQLite no_json 1 ''u'' [(''b'', ())] 8
     (snd (create_table SQLite no_json 1 ''u'' [(''a'', ()), (''a'', ())] 8 (example_db SQLite)))) =
   Inl (UniqueConstraintViolation (unique_error SQLite Table_Name))"
proof -
  let ?r = "create_table SQLite no_json 1 ''u'' [(''a'', ()), (''a'', ())] 8 (example_db SQLite)"
  have "1 \<in> coll_id ` set (collection_rows (example_db SQLite))"
    "(1, ''u'') \<notin> tbl_key ` set (table_rows (example_db SQLite))"
    by code_simp+
  from create_table_not_atomic [OF example_db_reachable this, of "[(''a'', ()), (''a'', ())]"
      "[(''a'', ''{}''), (''a'', ''{}'')]" 8 "fst ?r" "snd ?r"]
  show ?thesis by (simp add: schema_fields_def no_json_def)
qed

lemma filter_eq_distinct: "distinct xs \<Longrightarrow> v \<in> set xs \<Longrightarrow> filter (\<lambda>w. w = v) xs = [v]"
  by (induction xs) (auto simp: filter_empty_conv)

lemma vacuumed_rows:
  assumes "rows_ok d s" and "delete_old_versions d tid s = (r, s')"
    and "newest_version s tid = Some v"
  shows "[w \<leftarrow> version_rows s'. ver_table_id w = tid] = [v]"
    and "r = Inr (length [w \<leftarrow> version_rows s. ver_table_id w = tid] - 1)"
    and "tid' \<noteq> tid \<Longrightarrow> [w \<leftarrow> version_rows s'. ver_table_id w = tid'] =
      [w \<leftarrow> version_rows s. ver_table_id w = tid']"
    and "u \<in> set (version_rows s') \<Longrightarrow> columns_of s' (ver_id u) = columns_of s (ver_id u)"
proof -
  let ?mine = "[w \<leftarrow> version_rows s. ver_table_id w = tid]"
  let ?old = "\<lambda>w. ver_table_id w = tid \<and> newest_version s tid \<noteq> Some w"
  have dist: "distinct (map ver_id (version_rows s))"
    using rows_okD(4) [OF assms(1)] by (simp add: table_ok_def)
  then have dmine: "distinct ?mine" by (simp add: distinct_map)
  have v: "v \<in> set ?mine"
    using newest_SomeD [OF assms(3) [unfolded newest_version_def]] by simp
  have r: "r = Inr (length (filter ?old (version_rows s)))" and s': "s' = delete_versions_where ?old s"
    using assms(2) by (simp_all add: delete_old_versions_alt [OF dist] Let_def)
  have "[w \<leftarrow> version_rows s'. ver_table_id w = tid] = filter (\<lambda>w. w = v) ?mine"
    by (auto simp: s' delete_versions_where_def Let_def assms(3) intro: filter_cong)
  also have "\<dots> = [v]"
    by (rule filter_eq_distinct [OF dmine v])
  finally show one: "[w \<leftarrow> version_rows s'. ver_table_id w = tid] = [v]" .
  have "filter ?old (version_rows s) = filter (\<lambda>w. w \<noteq> v) ?mine"
    by (auto simp: assms(3) intro: filter_cong)
  moreover have "length (filter (\<lambda>w. w = v) ?mine) + length (filter (\<lambda>w. w \<noteq> v) ?mine) = length ?mine"
    by (rule sum_length_filter_compl)
  moreover have "length (filter (\<lambda>w. w = v) ?mine) = 1"
    using \<open>filter (\<lambda>w. w = v) ?mine = [v]\<close> by simp
  ultimately show "r = Inr (length ?mine - 1)" using r by simp
  show "[w \<leftarrow> version_rows s'. ver_table_id w = tid'] = [w \<leftarrow> version_rows s. ver_table_id w = tid']"
    if "tid' \<noteq> tid"
    using that by (auto simp: s' delete_versions_where_def Let_def intro: filter_cong)
  show "columns_of s' (ver_id u) = columns_of s (ver_id u)" if "u \<in> set (version_rows s')"
  proof -
    from that have "u \<in> set (version_rows s)" "\<not> ?old u"
      by (auto simp: s' delete_versions_where_def Let_def)
    then have "ver_id w \<noteq> ver_id u" if "w \<in> set (version_rows s)" "?old w" for w
      using dist that by (auto simp: distinct_map dest: inj_onD)
    then show ?thesis
      by (auto simp: s' delete_versions_where_def Let_def columns_of_def intro!: arg_cong [of _ _ "map _"] filter_cong)
  qed
qed

lemma latest_table_version_cong:
  "[w \<leftarrow> version_rows s'. ver_table_id w = tid] = [w \<leftarrow> version_rows s. ver_table_id w = tid] \<Longrightarrow>
     latest_table_version d s' tid = latest_table_version d s tid"
  by (simp add: latest_table_version_def)

text \<open>
  \<open>delete_old_versions\<close>, the metadata part of \<open>VACUUM\<close>, keeps exactly one version of the table, and
  it is the one whose columns \<open>list_collections\<close> shows, on both back ends, although the two queries
  order the versions differently; it returns the number of the others and touches no other table.
\<close>

theorem vacuum_keeps_latest:
  assumes "repo_reachable d to_json s" and "tid \<in> tbl_id ` set (table_rows s)"
    and "delete_old_versions d tid s = (r, s')"
  shows "\<exists>v. latest_table_version d s tid = Some v \<and> latest_table_version d s' tid = Some v \<and>
    [w \<leftarrow> version_rows s'. ver_table_id w = tid] = [v] \<and>
    columns_of s' (ver_id v) = columns_of s (ver_id v) \<and>
    r = Inr (length [w \<leftarrow> version_rows s. ver_table_id w = tid] - 1) \<and>
    (\<forall>tid'. tid' \<noteq> tid \<longrightarrow>
       [w \<leftarrow> version_rows s'. ver_table_id w = tid'] = [w \<leftarrow> version_rows s. ver_table_id w = tid'])"
proof -
  have ok: "rows_ok d s" "versioned s" and clk: "clock_ok s"
    using repo_ok_reachable [OF assms(1)] clock_ok_reachable [OF assms(1)] by (simp_all add: repo_ok_def)
  obtain w where "w \<in> set (version_rows s)" "ver_table_id w = tid"
    using ok(2) assms(2) by (auto simp: versioned_def dest: refsD)
  then obtain v where v: "newest_version s tid = Some v"
    by (cases "newest_version s tid") (auto simp: newest_version_def filter_empty_conv)
  note vac = vacuumed_rows [OF ok(1) assms(3) v]
  have "v \<in> set [w \<leftarrow> version_rows s'. ver_table_id w = tid]" by (simp only: vac(1)) simp
  then have "v \<in> set (version_rows s')" by simp
  moreover have "latest_table_version d s' tid = Some v"
    by (simp add: latest_table_version_def vac(1) newest_def)
  ultimately show ?thesis
    using vac latest_is_newest [OF ok(1) clk, of d tid] v by auto
qed

theorem vacuum_keeps_latest_witness:
  "let s = snd (create_new_version Postgres 7 5 (example_db Postgres));
       r = delete_old_versions Postgres 1 s in
   fst r = Inr 1 \<and> map ver_version [w \<leftarrow> version_rows (snd r). ver_table_id w = 1] = [5]"
proof -
  let ?s = "snd (create_new_version Postgres 7 5 (example_db Postgres))"
  let ?r = "delete_old_versions Postgres 1 ?s"
  have reach: "repo_reachable Postgres no_json ?s"
    by (intro repo_reachable.step [OF example_db_reachable] repo_step.create_new_version)
  have tid: "1 \<in> tbl_id ` set (table_rows ?s)" by code_simp
  have latest: "map_option ver_version (latest_table_version Postgres ?s 1) = Some 5" by code_simp
  have len: "length [w \<leftarrow> version_rows ?s. ver_table_id w = 1] = 2" by code_simp
  from vacuum_keeps_latest [OF reach tid prod.collapse [symmetric]] latest len
  show ?thesis by (auto simp: Let_def)
qed

definition uuid_version_ids :: "repo_db \<Rightarrow> uuid \<Rightarrow> int list" where
  "uuid_version_ids s u = [ver_id v. v \<leftarrow> version_rows s, t \<leftarrow> table_rows s, ver_table_id v = tbl_id t,
     tbl_uuid t = u]"

lemma set_uuid_version_ids:
  "set (uuid_version_ids s u) = {ver_id v | v. v \<in> set (version_rows s) \<and>
     (\<exists>t\<in>set (table_rows s). ver_table_id v = tbl_id t \<and> tbl_uuid t = u)}"
  by (auto simp: uuid_version_ids_def)

lemma create_new_version_unknown:
  "u \<notin> tbl_uuid ` set (table_rows s) \<Longrightarrow> create_new_version d u v s = (Inl (SqlxError ColumnDecode), s)"
proof -
  assume "u \<notin> tbl_uuid ` set (table_rows s)"
  then have "set (uuid_version_ids s u) = {}" by (auto simp: set_uuid_version_ids)
  then have "uuid_version_ids s u = []" by simp
  then show ?thesis
    by (simp add: create_new_version_def uuid_version_ids_def [symmetric] Let_def bind_st_def)
qed

lemma last_version_id:
  assumes "rows_ok d s" and "clock_ok s" and "t \<in> set (table_rows s)"
    and "\<And>t'. t' \<in> set (table_rows s) \<Longrightarrow> tbl_uuid t' = tbl_uuid t \<Longrightarrow> t' = t"
    and "latest_table_version d s (tbl_id t) = Some old"
  shows "uuid_version_ids s (tbl_uuid t) \<noteq> []" and "Max (set (uuid_version_ids s (tbl_uuid t))) = ver_id old"
    and "[v \<leftarrow> version_rows s. ver_id v = ver_id old] = [old]" and "ver_table_id old = tbl_id t"
proof -
  have "latest_table_version SQLite s (tbl_id t) = Some old"
    using assms(5) latest_is_newest [OF assms(1,2)] by metis
  then have old: "old \<in> set (version_rows s)" "ver_table_id old = tbl_id t"
    and max: "\<And>w. w \<in> set (version_rows s) \<Longrightarrow> ver_table_id w = tbl_id t \<Longrightarrow> ver_id w \<le> ver_id old"
    by (auto simp: latest_table_version_def version_key_def dest!: newest_SomeD)
  have ids: "set (uuid_version_ids s (tbl_uuid t)) =
      {ver_id v | v. v \<in> set (version_rows s) \<and> ver_table_id v = tbl_id t}"
    using assms(3,4) by (auto simp: set_uuid_version_ids)
  show "uuid_version_ids s (tbl_uuid t) \<noteq> []" using ids old by fastforce
  show "Max (set (uuid_version_ids s (tbl_uuid t))) = ver_id old"
    using old max by (intro Max_eqI) (auto simp: ids)
  have "filter (\<lambda>v. ver_id v = ver_id old) (version_rows s) = filter (\<lambda>v. v = old) (version_rows s)"
    using rows_okD(4) [OF assms(1)] old
    by (intro filter_cong) (auto simp: table_ok_def distinct_map dest: inj_onD)
  also have "\<dots> = [old]"
    using rows_okD(4) [OF assms(1)] old by (intro filter_eq_distinct) (auto simp: table_ok_def distinct_map)
  finally show "[v \<leftarrow> version_rows s. ver_id v = ver_id old] = [old]" .
  show "ver_table_id old = tbl_id t" by (rule old)
qed

lemma latest_after_insert:
  assumes "rows_ok d s" and "clock_ok s" and "version_rows s' = version_rows s @ [new]"
    and "ver_id new = new_id d ver_id (db_versions s)" and "ver_creation_time new = db_now s"
    and "ver_table_id new = tid"
  shows "latest_table_version d' s' tid = Some new"
proof -
  have "version_key d' w < version_key d' new" if "w \<in> set (version_rows s)" for w
    using new_id_greater [OF rows_okD(4) [OF assms(1)] that] assms(2,4,5) that
    by (simp add: version_key_def clock_ok_def split: dialect.splits)
  then show ?thesis
    unfolding latest_table_version_def by (intro newest_SomeI) (auto simp: assms(3,6))
qed

text \<open>
  for a table whose UUID is its own, \<open>create_new_version\<close> succeeds: the new version has the given
  number and the time of the call, becomes the one that the catalog shows, and has the columns of the
  version that was shown before. For a UUID that no table has, the maximum of no ids is NULL, so the
  method fails with a decoding error and not with \<open>RowNotFound\<close>.
\<close>

theorem new_version_copies_columns:
  assumes "repo_reachable d to_json s" and "t \<in> set (table_rows s)"
    and "\<And>t'. t' \<in> set (table_rows s) \<Longrightarrow> tbl_uuid t' = tbl_uuid t \<Longrightarrow> t' = t"
    and "create_new_version d (tbl_uuid t) n s = (r, s')"
    and "u \<notin> tbl_uuid ` set (table_rows s)"
  shows "(\<exists>old vid. latest_table_version d s (tbl_id t) = Some old \<and> r = Inr vid \<and>
      latest_table_version d s' (tbl_id t) = Some \<lparr>ver_id = vid, ver_table_id = tbl_id t,
        ver_creation_time = db_now s, ver_version = n\<rparr> \<and>
      columns_of s' vid = columns_of s (ver_id old) \<and> columns_of s' (ver_id old) = columns_of s (ver_id old)) \<and>
    create_new_version d u n s = (Inl (SqlxError ColumnDecode), s)"
proof -
  have ok: "rows_ok d s" "versioned s" and clk: "clock_ok s"
    using repo_ok_reachable [OF assms(1)] clock_ok_reachable [OF assms(1)] by (simp_all add: repo_ok_def)
  have tid: "tbl_id t \<in> tbl_id ` set (table_rows s)" using assms(2) by simp
  obtain w where "w \<in> set (version_rows s)" "ver_table_id w = tbl_id t"
    using ok(2) assms(2) by (auto simp: versioned_def dest: refsD)
  then obtain old where old: "latest_table_version d s (tbl_id t) = Some old"
    by (cases "latest_table_version d s (tbl_id t)")
      (auto simp: latest_table_version_def filter_empty_conv)
  note last = last_version_id [OF ok(1) clk assms(2,3) old]
  let ?vid = "new_id d ver_id (db_versions s)"
  let ?new = "\<lparr>ver_id = ?vid, ver_table_id = tbl_id t, ver_creation_time = db_now s, ver_version = n\<rparr>"
  define s1 where "s1 = snd (insert_version d (tbl_id t) n s)"
  have s1: "insert_version d (tbl_id t) n s = (Inr ?vid, s1)"
    by (simp add: s1_def insert_version_works [OF tid])
  have rows1: "version_rows s1 = version_rows s @ [?new]" "column_rows s1 = column_rows s"
    by (simp_all add: s1_def insert_version_works [OF tid])
  have ok1: "rows_ok d s1" unfolding s1_def by (rule rows_ok_insert_version [OF ok(1)])
  have notin: "?vid \<notin> ver_id ` set (version_rows s)" by (rule new_id_notin [OF rows_okD(4) [OF ok(1)]])
  have cols: "columns_of s1 v = columns_of s v" for v by (simp add: columns_of_def rows1)
  have none: "columns_of s1 ?vid = []" using no_columns_of_new_version [OF ok(1) notin] cols by simp
  have mem: "?vid \<in> ver_id ` set (version_rows s1)" by (simp add: rows1)
  obtain r' s2 where ins: "insert_columns d ?vid (columns_of s1 (ver_id old)) s1 = (r', s2)" by fastforce
  note new = insert_columns_new_version [OF ok1 mem none ins]
  have "r' = Inr ()" using new(1) distinct_columns_of [OF ok1] by simp
  then have res: "r = Inr ?vid" "s' = s2"
    using assms(4) last s1 ins
    by (simp_all add: create_new_version_def uuid_version_ids_def [symmetric] Let_def bind_st_def
        fetch_one_def)
  have rows2: "version_rows s2 = version_rows s @ [?new]"
    using insert_columns_frame(4) [of d ?vid "columns_of s1 (ver_id old)" s1] by (simp add: ins rows1)
  have "old \<in> set [v \<leftarrow> version_rows s. ver_id v = ver_id old]" by (simp only: last(3)) simp
  then have "ver_id old \<noteq> ?vid" using notin by force
  have "latest_table_version d s2 (tbl_id t) = Some ?new"
    by (rule latest_after_insert [OF ok(1) clk]) (simp_all add: rows2)
  with old res new distinct_columns_of [OF ok1] cols \<open>ver_id old \<noteq> ?vid\<close>
  show ?thesis
    by (auto simp: cols create_new_version_unknown [OF assms(5)])
qed

theorem new_version_copies_columns_witness:
  "let r = create_new_version SQLite 7 3 (example_db SQLite) in
   fst r = Inr 2 \<and> columns_of (snd r) 2 = [(''a'', ''{}'')] \<and>
   fst (create_new_version SQLite 8 3 (example_db SQLite)) = Inl (SqlxError ColumnDecode)"
proof -
  let ?t = "\<lparr>tbl_id = 1, tbl_collection_id = 1, tbl_name = ''t'', tbl_uuid = 7\<rparr>"
  let ?r = "create_new_version SQLite 7 3 (example_db SQLite)"
  have rows: "table_rows (example_db SQLite) = [?t]" by code_simp
  have two: "fst ?r = Inr 2" by code_simp
  have eq: "create_new_version SQLite (tbl_uuid ?t) 3 (example_db SQLite) = (Inr 2, snd ?r)"
    using two by (simp add: prod_eq_iff)
  have latest: "map_option ver_id (latest_table_version SQLite (example_db SQLite) 1) = Some 1"
    by code_simp
  have cols: "columns_of (example_db SQLite) 1 = [(''a'', ''{}'')]" by code_simp
  from new_version_copies_columns [OF example_db_reachable _ _ eq, of 8] latest cols two
  show ?thesis by (auto simp: rows Let_def)
qed

lemma drop_function_names:
  "names \<noteq> [] \<Longrightarrow> set (map (\<lambda>p. names ! (p - 2)) (map (\<lambda>_. 2) names)) = {hd names}"
  by (cases names) auto

text \<open>
  \<open>drop_function\<close> with several names never drops more than the first one. On PostgreSQL the call
  always fails and drops nothing; on SQLite exactly the function of the first name goes, and when
  there is none of that name nothing goes, although the others may exist.
\<close>

theorem drop_function_first_name_only:
  "fst (drop_function d did (n # m # ns) s) =
             (if d = Postgres then Inl (SqlxError bind_error)
              else if (did, n) \<in> fn_key ` set (function_rows s) then Inr ()
              else Inl (SqlxError RowNotFound)) \<and>
    function_rows (snd (drop_function d did (n # m # ns) s)) =
                       (if d = Postgres then function_rows s
                        else [f \<leftarrow> function_rows s. fn_key f \<noteq> (did, n)])"
proof -
  let ?hit = "\<lambda>f. fn_database_id f = did \<and> fn_name f \<in>
      set (map (\<lambda>p. (n # m # ns) ! (p - 2)) (map (\<lambda>_. 2) (n # m # ns)))"
  have hit: "?hit f \<longleftrightarrow> fn_key f = (did, n)" for f
    using drop_function_names [of "n # m # ns"] by (auto simp: fn_key_def)
  have pg: "interpret_error Postgres bind_error = SqlxError bind_error"
    by (simp add: bind_error_def)
  have max: "foldr max (map (\<lambda>_. 2::nat) xs) 1 \<le> 2" for xs :: "string list"
    by (induction xs) auto
  show ?thesis
  proof (cases d)
    case Postgres
    have "length (n # m # ns) + 1 \<noteq> foldr max (map (\<lambda>_. 2::nat) (n # m # ns)) 1"
      using max [of "n # m # ns"] by (auto simp del: foldr.simps list.map)
    with Postgres pg show ?thesis
      by (simp add: drop_function_def Let_def del: foldr.simps)
  next
    case SQLite
    then have "drop_function d did (n # m # ns) s =
        (if \<not> list_ex ?hit (function_rows s) then (Inl (SqlxError RowNotFound), s)
         else (Inr (), s\<lparr>db_functions := delete_rows ?hit (db_functions s)\<rparr>))"
      by (simp only: drop_function_def Let_def dialect.distinct simp_thms if_False interpret_row_errors)
    with SQLite show ?thesis
      unfolding hit by (force simp: list_ex_iff filter_id_conv split: if_splits)
  qed
qed

end
