(* ===== verification/Catalog.thy ===== *)
theory Catalog
  imports RepositoryCorrect
begin

text \<open>
  The catalog on top of the repository (src/src/catalog): the traits \<open>CatalogStore\<close>, \<open>SchemaStore\<close>,
  \<open>TableStore\<close> and \<open>FunctionStore\<close> as \<open>RepositoryStore\<close> implements them, the stores without a
  repository, and the garbage collection of dropped tables (src/src/utils.rs). The store works on
  any implementation of the trait \<open>Repository\<close>, here the record of its methods.
\<close>


subsection \<open>Errors\<close>

datatype catalog_error =
    Generic string
  | CatalogDoesNotExist string
  | CatalogAlreadyExists string
  | SchemaDoesNotExist string
  | SchemaAlreadyExists string
  | TableDoesNotExist string
  | TableUuidDoesNotExist uuid
  | TableAlreadyExists string
  | FunctionAlreadyExists string
  | FunctionDeserializationError string
  | FunctionNotFound string
  | UsedStagingSchema
  | NotImplemented string
  | CatalogSqlxError sqlx_error
  | CatalogSerdeJsonError string
  | NoTableStoreInInlineMetastore string
  | NoInlineMetastore
  | Panicked string \<comment> \<open>a failed \<open>assert_eq!\<close>, which is not a value of the source's type\<close>

definition DEFAULT_SCHEMA :: string where "DEFAULT_SCHEMA = ''public''"
definition STAGING_SCHEMA :: string where "STAGING_SCHEMA = ''staging''"

fun catalog_error_of :: "repo_error \<Rightarrow> catalog_error" where
  "catalog_error_of (UniqueConstraintViolation e) = CatalogSqlxError e"
| "catalog_error_of (FKConstraintViolation e) = CatalogSqlxError e"
| "catalog_error_of (SqlxError e) = CatalogSqlxError e"
| "catalog_error_of (SerdeJsonError e) = CatalogSerdeJsonError e"

definition not_impl :: "(catalog_error, 'a) result" where
  "not_impl = Inl (NotImplemented ''Metastore method not supported'')"

text \<open>\<open>map_err\<close> on a method, and the two matches that most methods use.\<close>

definition map_err_st :: "('e \<Rightarrow> 'f) \<Rightarrow> ('s, 'e, 'a) st \<Rightarrow> ('s, 'f, 'a) st" where
  "map_err_st f m = (\<lambda>s. case m s of (r, s') \<Rightarrow> (map_err f r, s'))"

fun on_row_not_found :: "catalog_error \<Rightarrow> repo_error \<Rightarrow> catalog_error" where
  "on_row_not_found e (SqlxError RowNotFound) = e"
| "on_row_not_found e e' = catalog_error_of e'"

fun on_unique :: "catalog_error \<Rightarrow> repo_error \<Rightarrow> catalog_error" where
  "on_unique e (UniqueConstraintViolation _) = e"
| "on_unique e e' = catalog_error_of e'"


subsection \<open>The repository as a trait object\<close>

record ('s, 'f) repository =
  rp_list_collections :: "string \<Rightarrow> ('s, repo_error, all_database_columns_result list) st"
  rp_get_database :: "string \<Rightarrow> ('s, repo_error, database_record) st"
  rp_get_collection :: "string \<Rightarrow> string \<Rightarrow> ('s, repo_error, collection_record) st"
  rp_get_table :: "string \<Rightarrow> string \<Rightarrow> string \<Rightarrow> ('s, repo_error, table_record) st"
  rp_create_database :: "string \<Rightarrow> ('s, repo_error, int) st"
  rp_create_collection :: "int \<Rightarrow> string \<Rightarrow> ('s, repo_error, int) st"
  rp_create_table :: "int \<Rightarrow> string \<Rightarrow> (string \<times> 'f) list \<Rightarrow> uuid \<Rightarrow> ('s, repo_error, int \<times> int) st"
  rp_delete_old_versions :: "int \<Rightarrow> ('s, repo_error, nat) st"
  rp_create_new_version :: "uuid \<Rightarrow> int \<Rightarrow> ('s, repo_error, int) st"
  rp_get_all_versions ::
    "string \<Rightarrow> string list option \<Rightarrow> ('s, repo_error, table_versions_result list) st"
  rp_rename_table :: "int \<Rightarrow> string \<Rightarrow> int option \<Rightarrow> ('s, repo_error, unit) st"
  rp_create_function :: "int \<Rightarrow> string \<Rightarrow> bool \<Rightarrow> function_columns \<Rightarrow> ('s, repo_error, int) st"
  rp_get_all_functions_in_database :: "int \<Rightarrow> ('s, repo_error, function_row list) st"
  rp_drop_function :: "int \<Rightarrow> string list \<Rightarrow> ('s, repo_error, unit) st"
  rp_delete_table :: "int \<Rightarrow> ('s, repo_error, unit) st"
  rp_delete_collection :: "int \<Rightarrow> ('s, repo_error, unit) st"
  rp_delete_database :: "int \<Rightarrow> ('s, repo_error, unit) st"
  rp_get_dropped_tables :: "string option \<Rightarrow> ('s, repo_error, dropped_tables_result list) st"
  rp_update_dropped_table :: "uuid \<Rightarrow> deletion_status \<Rightarrow> ('s, repo_error, unit) st"
  rp_delete_dropped_table :: "uuid \<Rightarrow> ('s, repo_error, unit) st"

text \<open>\<open>implement_repository!\<close> for one of the two back ends.\<close>

definition default_repository :: "dialect \<Rightarrow> ('f \<Rightarrow> (string, string) result) \<Rightarrow>
    (deletion_status \<Rightarrow> string) \<Rightarrow> (repo_db, 'f) repository" where
  "default_repository d to_json encode =
    \<lparr>rp_list_collections = list_collections d,
     rp_get_database = get_database d,
     rp_get_collection = get_collection d,
     rp_get_table = get_table d,
     rp_create_database = create_database d,
     rp_create_collection = create_collection d,
     rp_create_table = create_table d to_json,
     rp_delete_old_versions = delete_old_versions d,
     rp_create_new_version = create_new_version d,
     rp_get_all_versions = get_all_versions d,
     rp_rename_table = rename_table d,
     rp_create_function = create_function_columns d,
     rp_get_all_functions_in_database = get_all_functions_in_database d,
     rp_drop_function = drop_function d,
     rp_delete_table = delete_table d,
     rp_delete_collection = delete_collection d,
     rp_delete_database = delete_database d,
     rp_get_dropped_tables = get_dropped_tables d,
     rp_update_dropped_table = update_dropped_table d encode,
     rp_delete_dropped_table = delete_dropped_table d\<rparr>"


subsection \<open>Catalogs\<close>

definition catalog_create :: "('s, 'f) repository \<Rightarrow> string \<Rightarrow> ('s, catalog_error, unit) st" where
  "catalog_create R name =
     bind_st (map_err_st (on_unique (CatalogAlreadyExists name)) (rp_create_database R name)) (\<lambda>_.
     return_st ())"

definition catalog_get :: "('s, 'f) repository \<Rightarrow> string \<Rightarrow> ('s, catalog_error, database_record) st" where
  "catalog_get R name =
     map_err_st (on_row_not_found (CatalogDoesNotExist name)) (rp_get_database R name)"

definition catalog_delete :: "('s, 'f) repository \<Rightarrow> string \<Rightarrow> ('s, catalog_error, unit) st" where
  "catalog_delete R name =
     bind_st (catalog_get R name) (\<lambda>database.
     map_err_st (on_row_not_found (CatalogDoesNotExist name)) (rp_delete_database R (dbr_id database)))"


subsection \<open>Schemas\<close>

definition schema_create ::
    "('s, 'f) repository \<Rightarrow> string \<Rightarrow> string \<Rightarrow> ('s, catalog_error, unit) st" where
  "schema_create R catalog_name schema_name =
     (if schema_name = STAGING_SCHEMA then lift_res (Inl UsedStagingSchema)
      else
        bind_st (catalog_get R catalog_name) (\<lambda>database.
        bind_st (map_err_st (on_unique (SchemaAlreadyExists schema_name))
          (rp_create_collection R (dbr_id database) schema_name)) (\<lambda>_.
        return_st ())))"

definition schema_get ::
    "('s, 'f) repository \<Rightarrow> string \<Rightarrow> string \<Rightarrow> ('s, catalog_error, collection_record) st" where
  "schema_get R catalog_name schema_name =
     (if schema_name = STAGING_SCHEMA then lift_res (Inl UsedStagingSchema)
      else map_err_st (on_row_not_found (SchemaDoesNotExist schema_name))
        (rp_get_collection R catalog_name schema_name))"

definition schema_delete ::
    "('s, 'f) repository \<Rightarrow> string \<Rightarrow> string \<Rightarrow> ('s, catalog_error, unit) st" where
  "schema_delete R catalog_name schema_name =
     bind_st (schema_get R catalog_name schema_name) (\<lambda>schema.
     map_err_st (on_row_not_found (SchemaDoesNotExist schema_name))
       (rp_delete_collection R (coll_id schema)))"

text \<open>\<open>chunk_by\<close> of \<open>itertools\<close>: runs of consecutive elements with the same key.\<close>

fun chunk_by :: "('a \<Rightarrow> 'k) \<Rightarrow> 'a list \<Rightarrow> ('k \<times> 'a list) list" where
  "chunk_by f [] = []"
| "chunk_by f (x # xs) =
     (case chunk_by f xs of
        [] \<Rightarrow> [(f x, [x])]
      | (k, ys) # rest \<Rightarrow> if f x = k then (k, x # ys) # rest else (f x, [x]) # (k, ys) # rest)"

record table_object =
  to_name :: string
  to_path :: string
  to_store :: "string option"

record schema_object =
  so_name :: string
  so_tables :: "table_object list"

record store_object =
  st_name :: string
  st_location :: string
  st_options :: "(string \<times> string) list"

record list_schema_response =
  ls_schemas :: "schema_object list"
  ls_stores :: "store_object list"

text \<open>\<open>list\<close>; \<open>uuid_string\<close> is the hyphenated text of a UUID.\<close>

definition schema_list :: "(uuid \<Rightarrow> string) \<Rightarrow> ('s, 'f) repository \<Rightarrow> string \<Rightarrow>
    ('s, catalog_error, list_schema_response) st" where
  "schema_list uuid_string R catalog_name =
     bind_st (map_err_st catalog_error_of (rp_list_collections R catalog_name)) (\<lambda>cols.
     return_st \<lparr>ls_schemas =
         map (\<lambda>(cn, ct). \<lparr>so_name = cn,
             so_tables = List.map_filter (\<lambda>((name, uuid), _).
                 case (name, uuid) of
                   (Some name, Some uuid) \<Rightarrow>
                     Some \<lparr>to_name = name, to_path = uuid_string uuid, to_store = None\<rparr>
                 | _ \<Rightarrow> None)
               (chunk_by (\<lambda>t. (adc_table_name t, adc_table_uuid t)) ct)\<rparr>)
           (chunk_by adc_collection_name cols),
       ls_stores = []\<rparr>)"


subsection \<open>Tables\<close>

fun table_create_error :: "string \<Rightarrow> string \<Rightarrow> repo_error \<Rightarrow> catalog_error" where
  "table_create_error schema_name tname (UniqueConstraintViolation _) = TableAlreadyExists tname"
| "table_create_error schema_name tname (FKConstraintViolation _) = SchemaDoesNotExist schema_name"
| "table_create_error schema_name tname (SqlxError e) = CatalogSqlxError e"
| "table_create_error schema_name tname (SerdeJsonError e) = CatalogSerdeJsonError e"

definition table_create :: "('s, 'f) repository \<Rightarrow> string \<Rightarrow> string \<Rightarrow> string \<Rightarrow>
    (string \<times> 'f) list \<Rightarrow> uuid \<Rightarrow> ('s, catalog_error, int \<times> int) st" where
  "table_create R catalog_name schema_name tname schema uuid =
     bind_st (schema_get R catalog_name schema_name) (\<lambda>collection.
     map_err_st (table_create_error schema_name tname)
       (rp_create_table R (coll_id collection) tname schema uuid))"

definition table_get :: "('s, 'f) repository \<Rightarrow> string \<Rightarrow> string \<Rightarrow> string \<Rightarrow>
    ('s, catalog_error, table_record) st" where
  "table_get R catalog_name schema_name tname =
     map_err_st (on_row_not_found (TableDoesNotExist tname))
       (rp_get_table R catalog_name schema_name tname)"

definition table_create_new_version ::
    "('s, 'f) repository \<Rightarrow> uuid \<Rightarrow> int \<Rightarrow> ('s, catalog_error, int) st" where
  "table_create_new_version R uuid version =
     map_err_st (on_row_not_found (TableUuidDoesNotExist uuid)) (rp_create_new_version R uuid version)"

definition table_delete_old_versions :: "('s, 'f) repository \<Rightarrow> string \<Rightarrow> string \<Rightarrow> string \<Rightarrow>
    ('s, catalog_error, nat) st" where
  "table_delete_old_versions R catalog_name schema_name tname =
     bind_st (table_get R catalog_name schema_name tname) (\<lambda>table.
     map_err_st catalog_error_of (rp_delete_old_versions R (table_id table)))"

definition table_get_all_versions :: "('s, 'f) repository \<Rightarrow> string \<Rightarrow> string list option \<Rightarrow>
    ('s, catalog_error, table_versions_result list) st" where
  "table_get_all_versions R catalog_name table_names =
     map_err_st catalog_error_of (rp_get_all_versions R catalog_name table_names)"

fun table_update_error :: "string \<Rightarrow> string \<Rightarrow> string \<Rightarrow> repo_error \<Rightarrow> catalog_error" where
  "table_update_error new_schema new_table old_table (FKConstraintViolation _) =
     SchemaDoesNotExist new_schema"
| "table_update_error new_schema new_table old_table (UniqueConstraintViolation _) =
     TableAlreadyExists new_table"
| "table_update_error new_schema new_table old_table e =
     on_row_not_found (TableDoesNotExist old_table) e"

definition table_update :: "('s, 'f) repository \<Rightarrow> string \<Rightarrow> string \<Rightarrow> string \<Rightarrow>
    string \<Rightarrow> string \<Rightarrow> string \<Rightarrow> ('s, catalog_error, unit) st" where
  "table_update R old_catalog old_schema old_table new_catalog new_schema new_table =
     (if old_catalog \<noteq> new_catalog
      then lift_res (Inl (Panicked ''Moving across catalogs not yet supported''))
      else
        bind_st (table_get R old_catalog old_schema old_table) (\<lambda>table.
        bind_st (if new_schema \<noteq> old_schema
                 then bind_st (schema_get R old_catalog new_schema) (\<lambda>schema.
                      return_st (Some (coll_id schema)))
                 else return_st None) (\<lambda>new_schema_id.
        map_err_st (table_update_error new_schema new_table old_table)
          (rp_rename_table R (table_id table) new_table new_schema_id))))"

definition table_delete :: "('s, 'f) repository \<Rightarrow> string \<Rightarrow> string \<Rightarrow> string \<Rightarrow>
    ('s, catalog_error, unit) st" where
  "table_delete R catalog_name schema_name tname =
     bind_st (table_get R catalog_name schema_name tname) (\<lambda>table.
     map_err_st (on_row_not_found (TableDoesNotExist tname)) (rp_delete_table R (table_id table)))"

definition table_get_dropped_tables ::
    "('s, 'f) repository \<Rightarrow> string option \<Rightarrow> ('s, catalog_error, dropped_tables_result list) st" where
  "table_get_dropped_tables R catalog_name =
     map_err_st catalog_error_of (rp_get_dropped_tables R catalog_name)"

definition table_update_dropped_table ::
    "('s, 'f) repository \<Rightarrow> uuid \<Rightarrow> deletion_status \<Rightarrow> ('s, catalog_error, unit) st" where
  "table_update_dropped_table R uuid st =
     map_err_st (on_row_not_found (TableUuidDoesNotExist uuid)) (rp_update_dropped_table R uuid st)"

definition table_delete_dropped_table ::
    "('s, 'f) repository \<Rightarrow> uuid \<Rightarrow> ('s, catalog_error, unit) st" where
  "table_delete_dropped_table R uuid =
     map_err_st (on_row_not_found (TableUuidDoesNotExist uuid)) (rp_delete_dropped_table R uuid)"


subsection \<open>Functions\<close>

fun function_create_error :: "string \<Rightarrow> string \<Rightarrow> repo_error \<Rightarrow> catalog_error" where
  "function_create_error catalog_name function_name (FKConstraintViolation _) =
     CatalogDoesNotExist catalog_name"
| "function_create_error catalog_name function_name (UniqueConstraintViolation _) =
     FunctionAlreadyExists function_name"
| "function_create_error catalog_name function_name e = catalog_error_of e"

definition function_create :: "('s, 'f) repository \<Rightarrow> string \<Rightarrow> string \<Rightarrow> bool \<Rightarrow> function_columns \<Rightarrow>
    ('s, catalog_error, unit) st" where
  "function_create R catalog_name function_name or_replace details =
     bind_st (catalog_get R catalog_name) (\<lambda>database.
     bind_st (map_err_st (function_create_error catalog_name function_name)
       (rp_create_function R (dbr_id database) function_name or_replace details)) (\<lambda>_.
     return_st ()))"

definition function_list ::
    "('s, 'f) repository \<Rightarrow> string \<Rightarrow> ('s, catalog_error, function_row list) st" where
  "function_list R catalog_name =
     bind_st (catalog_get R catalog_name) (\<lambda>database.
     map_err_st catalog_error_of (rp_get_all_functions_in_database R (dbr_id database)))"

fun join_names :: "string list \<Rightarrow> string" where
  "join_names [] = ''''"
| "join_names [n] = n"
| "join_names (n # ns) = n @ '', '' @ join_names ns"

definition function_delete :: "('s, 'f) repository \<Rightarrow> string \<Rightarrow> bool \<Rightarrow> string list \<Rightarrow>
    ('s, catalog_error, unit) st" where
  "function_delete R catalog_name if_exists func_names =
     bind_st (catalog_get R catalog_name) (\<lambda>database. \<lambda>s.
     case rp_drop_function R (dbr_id database) func_names s of
       (Inr _, s') \<Rightarrow> (Inr (), s')
     | (Inl (FKConstraintViolation _), s') \<Rightarrow> (Inl (CatalogDoesNotExist catalog_name), s')
     | (Inl (SqlxError RowNotFound), s') \<Rightarrow>
         ((if if_exists then Inr () else Inl (FunctionNotFound (join_names func_names))), s')
     | (Inl e, s') \<Rightarrow> (Inl (catalog_error_of e), s'))"


subsection \<open>Stores without a repository\<close>

text \<open>
  \<open>EmptyStore\<close>, \<open>MemoryStore\<close> and \<open>ExternalStore\<close> override \<open>list\<close> of the schemas and of the functions;
  every other method is the default of the trait, \<open>not_impl\<close>. The external store asks a remote clade
  server, whose answer is a parameter.
\<close>

datatype readonly_store =
    EmptyStore
  | MemoryStore list_schema_response
  | ExternalStore "string \<Rightarrow> (catalog_error, list_schema_response) result"

fun readonly_schema_list :: "readonly_store \<Rightarrow> string \<Rightarrow> (catalog_error, list_schema_response) result" where
  "readonly_schema_list EmptyStore catalog_name = Inl NoInlineMetastore"
| "readonly_schema_list (MemoryStore schemas) catalog_name = Inr schemas"
| "readonly_schema_list (ExternalStore list_schemas) catalog_name = list_schemas catalog_name"

definition readonly_function_list :: "readonly_store \<Rightarrow> string \<Rightarrow> (catalog_error, function_row list) result" where
  "readonly_function_list store catalog_name = Inr []"

definition readonly_schema_create :: "readonly_store \<Rightarrow> string \<Rightarrow> string \<Rightarrow> (catalog_error, unit) result" where
  "readonly_schema_create store catalog_name schema_name = not_impl"


subsection \<open>Garbage collection of dropped tables\<close>

text \<open>
  \<open>gc_databases\<close>; \<open>delete_in_prefix\<close> of the object store is the oracle \<open>deleted\<close>, whether the deletion
  of the directory of a table succeeds. Errors of the catalog are logged and otherwise ignored.
\<close>

definition ignore_err :: "('s, 'e, unit) st \<Rightarrow> 's \<Rightarrow> 's" where
  "ignore_err m s = snd (m s)"

definition gc_table :: "('s, 'f) repository \<Rightarrow> (uuid \<Rightarrow> bool) \<Rightarrow> dropped_tables_result \<Rightarrow> 's \<Rightarrow> 's" where
  "gc_table R deleted dt s =
     (if \<not> deleted (dtr_uuid dt) then
        ignore_err (table_update_dropped_table R (dtr_uuid dt)
          (if dtr_deletion_status dt \<noteq> Pending then Retry else Failed)) s
      else ignore_err (table_delete_dropped_table R (dtr_uuid dt)) s)"

definition gc_databases :: "('s, 'f) repository \<Rightarrow> (uuid \<Rightarrow> bool) \<Rightarrow> string option \<Rightarrow> 's \<Rightarrow> 's" where
  "gc_databases R deleted database_name s =
     (case table_get_dropped_tables R database_name s of
        (r, s') \<Rightarrow>
          let dropped_tables = (case r of Inl _ \<Rightarrow> [] | Inr dts \<Rightarrow> dts) in
          fold (gc_table R deleted) [dt \<leftarrow> dropped_tables. dtr_deletion_status dt \<noteq> Failed] s')"

end
