(* ===== verification/CatalogSpec.thy ===== *)
theory CatalogSpec
  imports Catalog
begin

text \<open>
  What the catalog promises, without rows and ids: sets of catalog and schema names and a map from
  table names to UUIDs, and what each command does to them. The store over the repository refines it:
  the locale \<open>repository_contract\<close> states what the store relies on of a repository, its lemmas prove
  the refinement once, and the repository of both back ends is an interpretation.
\<close>


subsection \<open>The specification\<close>

record names =
  nm_catalogs :: "string set"
  nm_schemas :: "(string \<times> string) set"
  nm_tables :: "string \<times> string \<times> string \<rightharpoonup> uuid"

datatype 'f catalog_command =
    Create_Catalog string
  | Delete_Catalog string
  | Create_Schema string string
  | Delete_Schema string string
  | Create_Table string string string "(string \<times> 'f) list" uuid
  | Delete_Table string string string
  | Rename_Table string string string string string

fun catalog_spec :: "'f catalog_command \<Rightarrow> names \<Rightarrow> (catalog_error, unit) result \<times> names" where
  "catalog_spec (Create_Catalog c) N =
     (if c \<in> nm_catalogs N then (Inl (CatalogAlreadyExists c), N)
      else (Inr (), N\<lparr>nm_catalogs := insert c (nm_catalogs N)\<rparr>))"
| "catalog_spec (Delete_Catalog c) N =
     (if c \<notin> nm_catalogs N then (Inl (CatalogDoesNotExist c), N)
      else (Inr (), \<lparr>nm_catalogs = nm_catalogs N - {c},
              nm_schemas = {k \<in> nm_schemas N. fst k \<noteq> c},
              nm_tables = nm_tables N |` {k. fst k \<noteq> c}\<rparr>))"
| "catalog_spec (Create_Schema c n) N =
     (if n = STAGING_SCHEMA then (Inl UsedStagingSchema, N)
      else if c \<notin> nm_catalogs N then (Inl (CatalogDoesNotExist c), N)
      else if (c, n) \<in> nm_schemas N then (Inl (SchemaAlreadyExists n), N)
      else (Inr (), N\<lparr>nm_schemas := insert (c, n) (nm_schemas N)\<rparr>))"
| "catalog_spec (Delete_Schema c n) N =
     (if n = STAGING_SCHEMA then (Inl UsedStagingSchema, N)
      else if (c, n) \<notin> nm_schemas N then (Inl (SchemaDoesNotExist n), N)
      else (Inr (), N\<lparr>nm_schemas := nm_schemas N - {(c, n)},
              nm_tables := nm_tables N |` {(c', n', t). (c', n') \<noteq> (c, n)}\<rparr>))"
| "catalog_spec (Create_Table c n t schema u) N =
     (if n = STAGING_SCHEMA then (Inl UsedStagingSchema, N)
      else if (c, n) \<notin> nm_schemas N then (Inl (SchemaDoesNotExist n), N)
      else if nm_tables N (c, n, t) \<noteq> None then (Inl (TableAlreadyExists t), N)
      else (Inr (), N\<lparr>nm_tables := (nm_tables N)((c, n, t) \<mapsto> u)\<rparr>))"
| "catalog_spec (Delete_Table c n t) N =
     (if nm_tables N (c, n, t) = None then (Inl (TableDoesNotExist t), N)
      else (Inr (), N\<lparr>nm_tables := (nm_tables N)((c, n, t) := None)\<rparr>))"
| "catalog_spec (Rename_Table c n t n' t') N =
     (case nm_tables N (c, n, t) of
        None \<Rightarrow> (Inl (TableDoesNotExist t), N)
      | Some u \<Rightarrow>
          if n' \<noteq> n \<and> n' = STAGING_SCHEMA then (Inl UsedStagingSchema, N)
          else if n' \<noteq> n \<and> (c, n') \<notin> nm_schemas N then (Inl (SchemaDoesNotExist n'), N)
          else if (n', t') \<noteq> (n, t) \<and> nm_tables N (c, n', t') \<noteq> None
          then (Inl (TableAlreadyExists t'), N)
          else (Inr (), N\<lparr>nm_tables := (nm_tables N)((c, n, t) := None, (c, n', t') \<mapsto> u)\<rparr>))"

text \<open>The same commands on the store.\<close>

fun run_command :: "('s, 'f) repository \<Rightarrow> 'f catalog_command \<Rightarrow> ('s, catalog_error, unit) st" where
  "run_command R (Create_Catalog c) = catalog_create R c"
| "run_command R (Delete_Catalog c) = catalog_delete R c"
| "run_command R (Create_Schema c n) = schema_create R c n"
| "run_command R (Delete_Schema c n) = schema_delete R c n"
| "run_command R (Create_Table c n t schema u) =
     bind_st (table_create R c n t schema u) (\<lambda>_. return_st ())"
| "run_command R (Delete_Table c n t) = table_delete R c n t"
| "run_command R (Rename_Table c n t n' t') = table_update R c n t c n' t'"

text \<open>A sequence of commands, each run whatever became of the ones before.\<close>

fun run_all :: "('c \<Rightarrow> 's \<Rightarrow> 'r \<times> 's) \<Rightarrow> 'c list \<Rightarrow> 's \<Rightarrow> 'r list \<times> 's" where
  "run_all f [] s = ([], s)"
| "run_all f (c # cs) s =
     (case f c s of (r, s') \<Rightarrow> case run_all f cs s' of (rs, s'') \<Rightarrow> (r # rs, s''))"

definition no_names :: names where
  "no_names = \<lparr>nm_catalogs = {}, nm_schemas = {}, nm_tables = Map.empty\<rparr>"

text \<open>
  The names that rows give: databases by name, collections by database and name, tables by
  collection and name (with their UUID).
\<close>

definition names_of ::
    "(string \<rightharpoonup> int) \<Rightarrow> (int \<times> string \<rightharpoonup> int) \<Rightarrow> (int \<times> string \<rightharpoonup> int \<times> uuid) \<Rightarrow> names" where
  "names_of db co ta = \<lparr>nm_catalogs = dom db,
     nm_schemas = {(c, n). \<exists>i. db c = Some i \<and> co (i, n) \<noteq> None},
     nm_tables = (\<lambda>(c, n, t). case db c of None \<Rightarrow> None | Some i \<Rightarrow>
       (case co (i, n) of None \<Rightarrow> None | Some k \<Rightarrow> map_option snd (ta (k, t))))\<rparr>"

text \<open>A command that the specification covers: its schema, if it has one, can be stored.\<close>

fun command_ok :: "((string \<times> 'f) list \<Rightarrow> bool) \<Rightarrow> 'f catalog_command \<Rightarrow> bool" where
  "command_ok good (Create_Table c n t schema u) = good schema"
| "command_ok good _ = True"


text \<open>How the names change with the rows.\<close>

definition one_key :: "('k \<rightharpoonup> 'v) \<Rightarrow> bool" where
  "one_key m \<longleftrightarrow> (\<forall>k k' v. m k = Some v \<longrightarrow> m k' = Some v \<longrightarrow> k = k')"

lemma one_keyD: "one_key m \<Longrightarrow> m k = Some v \<Longrightarrow> m k' = Some v \<Longrightarrow> k = k'"
  unfolding one_key_def by blast

lemma names_create_catalog:
  assumes "db c = None" and "\<And>n. co (i, n) = None"
  shows "names_of (db(c \<mapsto> i)) co ta =
    (names_of db co ta)\<lparr>nm_catalogs := insert c (nm_catalogs (names_of db co ta))\<rparr>"
  using assms by (auto simp: names_of_def fun_eq_iff split: if_splits)

lemma names_create_schema:
  assumes "one_key db" and "db c = Some i" and "co (i, n) = None" and "\<And>t. ta (k, t) = None"
  shows "names_of db (co((i, n) \<mapsto> k)) ta =
    (names_of db co ta)\<lparr>nm_schemas := insert (c, n) (nm_schemas (names_of db co ta))\<rparr>"
  using assms by (auto simp: names_of_def fun_eq_iff dest: one_keyD split: option.splits)

lemma names_create_table:
  assumes "one_key db" and "one_key co" and "db c = Some i" and "co (i, n) = Some k"
  shows "names_of db co (ta((k, t) \<mapsto> (j, u))) =
    (names_of db co ta)\<lparr>nm_tables := (nm_tables (names_of db co ta))((c, n, t) \<mapsto> u)\<rparr>"
  using assms by (auto simp: names_of_def fun_eq_iff dest: one_keyD split: option.splits)

lemma names_delete_table:
  assumes "one_key db" and "one_key co" and "db c = Some i" and "co (i, n) = Some k"
  shows "names_of db co (ta((k, t) := None)) =
    (names_of db co ta)\<lparr>nm_tables := (nm_tables (names_of db co ta))((c, n, t) := None)\<rparr>"
  using assms by (auto simp: names_of_def fun_eq_iff dest: one_keyD split: option.splits)

lemma names_delete_schema:
  assumes "one_key db" and "one_key co" and "db c = Some i" and "co (i, n) = Some k"
  shows "names_of db (co((i, n) := None)) (ta |` {x. fst x \<noteq> k}) =
    (names_of db co ta)\<lparr>nm_schemas := nm_schemas (names_of db co ta) - {(c, n)},
       nm_tables := nm_tables (names_of db co ta) |` {(c', n', t). (c', n') \<noteq> (c, n)}\<rparr>"
  using assms
  by (auto simp: names_of_def fun_eq_iff restrict_map_def dest: one_keyD split: option.splits)

lemma names_delete_catalog:
  assumes "one_key db" and "one_key co" and "db c = Some i"
  shows "names_of (db(c := None)) (co |` {x. fst x \<noteq> i}) (ta |` {x. \<forall>n. co (i, n) \<noteq> Some (fst x)}) =
    \<lparr>nm_catalogs = nm_catalogs (names_of db co ta) - {c},
     nm_schemas = {k \<in> nm_schemas (names_of db co ta). fst k \<noteq> c},
     nm_tables = nm_tables (names_of db co ta) |` {k. fst k \<noteq> c}\<rparr>"
  using assms
  by (auto simp: names_of_def fun_eq_iff restrict_map_def dest: one_keyD split: option.splits)


subsection \<open>What the store relies on\<close>

locale repository_contract =
  fixes R :: "('s, 'f) repository"
    and inv :: "'s \<Rightarrow> bool"
    and db :: "'s \<Rightarrow> string \<rightharpoonup> int"
    and co :: "'s \<Rightarrow> int \<times> string \<rightharpoonup> int"
    and ta :: "'s \<Rightarrow> int \<times> string \<rightharpoonup> int \<times> uuid"
    and good :: "(string \<times> 'f) list \<Rightarrow> bool"
  assumes db_inj: "inv s \<Longrightarrow> db s c = Some i \<Longrightarrow> db s c' = Some i \<Longrightarrow> c = c'"
    and co_inj: "inv s \<Longrightarrow> co s key = Some i \<Longrightarrow> co s key' = Some i \<Longrightarrow> key = key'"
    and co_ref: "inv s \<Longrightarrow> co s (i, n) = Some k \<Longrightarrow> \<exists>c. db s c = Some i"
    and ta_ref: "inv s \<Longrightarrow> ta s (k, t) = Some x \<Longrightarrow> \<exists>key. co s key = Some k"
    and get_database_law: "inv s \<Longrightarrow> rp_get_database R c s =
      ((case db s c of None \<Rightarrow> Inl (SqlxError RowNotFound) | Some i \<Rightarrow> Inr \<lparr>dbr_id = i, dbr_name = c\<rparr>), s)"
    and get_collection_law: "inv s \<Longrightarrow> rp_get_collection R c n s =
      ((case db s c of None \<Rightarrow> Inl (SqlxError RowNotFound) | Some i \<Rightarrow>
        (case co s (i, n) of None \<Rightarrow> Inl (SqlxError RowNotFound)
         | Some k \<Rightarrow> Inr \<lparr>coll_id = k, coll_database_id = i, coll_name = n\<rparr>)), s)"
    and get_table_law: "inv s \<Longrightarrow> rp_get_table R c n t s =
      ((case db s c of None \<Rightarrow> Inl (SqlxError RowNotFound) | Some i \<Rightarrow>
        (case co s (i, n) of None \<Rightarrow> Inl (SqlxError RowNotFound) | Some k \<Rightarrow>
          (case ta s (k, t) of None \<Rightarrow> Inl (SqlxError RowNotFound)
           | Some x \<Rightarrow> Inr \<lparr>table_id = fst x, table_collection_id = k, table_name = t\<rparr>))), s)"
    and create_database_law: "inv s \<Longrightarrow> rp_create_database R c s = (r, s') \<Longrightarrow>
      inv s' \<and> co s' = co s \<and> ta s' = ta s \<and>
      (if db s c \<noteq> None then (\<exists>e. r = Inl (UniqueConstraintViolation e)) \<and> db s' = db s
       else \<exists>i. r = Inr i \<and> db s' = (db s)(c \<mapsto> i))"
    and create_collection_law: "inv s \<Longrightarrow> db s c = Some i \<Longrightarrow> rp_create_collection R i n s = (rc, s') \<Longrightarrow>
      inv s' \<and> db s' = db s \<and> ta s' = ta s \<and>
      (if co s (i, n) \<noteq> None then (\<exists>e. rc = Inl (UniqueConstraintViolation e)) \<and> co s' = co s
       else \<exists>k. rc = Inr k \<and> co s' = (co s)((i, n) \<mapsto> k))"
    and create_table_law: "inv s \<Longrightarrow> co s key = Some k \<Longrightarrow> good schema \<Longrightarrow>
      rp_create_table R k t schema u s = (rt, s') \<Longrightarrow>
      inv s' \<and> db s' = db s \<and> co s' = co s \<and>
      (if ta s (k, t) \<noteq> None then (\<exists>e. rt = Inl (UniqueConstraintViolation e)) \<and> ta s' = ta s
       else \<exists>i v. rt = Inr (i, v) \<and> ta s' = (ta s)((k, t) \<mapsto> (i, u)))"
    and rename_table_law: "inv s \<Longrightarrow> ta s (k, t) = Some x \<Longrightarrow>
      (case new of None \<Rightarrow> k' = k | Some k'' \<Rightarrow> k' = k'' \<and> (\<exists>key. co s key = Some k'')) \<Longrightarrow>
      rp_rename_table R (fst x) t' new s = (ru, s') \<Longrightarrow>
      inv s' \<and> db s' = db s \<and> co s' = co s \<and>
      (if (k', t') \<noteq> (k, t) \<and> ta s (k', t') \<noteq> None
       then (\<exists>e. ru = Inl (UniqueConstraintViolation e)) \<and> ta s' = ta s
       else ru = Inr () \<and> ta s' = (ta s)((k, t) := None, (k', t') \<mapsto> x))"
    and delete_table_law: "inv s \<Longrightarrow> ta s (k, t) = Some x \<Longrightarrow> rp_delete_table R (fst x) s = (ru, s') \<Longrightarrow>
      inv s' \<and> ru = Inr () \<and> db s' = db s \<and> co s' = co s \<and> ta s' = (ta s)((k, t) := None)"
    and delete_collection_law: "inv s \<Longrightarrow> co s key = Some k \<Longrightarrow> rp_delete_collection R k s = (ru, s') \<Longrightarrow>
      inv s' \<and> ru = Inr () \<and> db s' = db s \<and> co s' = (co s)(key := None) \<and>
      ta s' = ta s |` {x. fst x \<noteq> k}"
    and delete_database_law: "inv s \<Longrightarrow> db s c = Some i \<Longrightarrow> rp_delete_database R i s = (ru, s') \<Longrightarrow>
      inv s' \<and> ru = Inr () \<and> db s' = (db s)(c := None) \<and> co s' = co s |` {x. fst x \<noteq> i} \<and>
      ta s' = ta s |` {x. \<forall>n. co s (i, n) \<noteq> Some (fst x)}"
begin

abbreviation nm :: "'s \<Rightarrow> names" where
  "nm s \<equiv> names_of (db s) (co s) (ta s)"

lemma nm_tables_None:
  "db s c = Some i \<Longrightarrow> co s (i, n) = Some k \<Longrightarrow> nm_tables (nm s) (c, n, t) = map_option snd (ta s (k, t))"
  by (simp add: names_of_def)

lemma catalog_get_eq: "inv s \<Longrightarrow> catalog_get R c s =
    ((case db s c of None \<Rightarrow> Inl (CatalogDoesNotExist c) | Some i \<Rightarrow> Inr \<lparr>dbr_id = i, dbr_name = c\<rparr>), s)"
  by (simp add: catalog_get_def map_err_st_def get_database_law split: option.splits)

lemma schema_get_eq: "inv s \<Longrightarrow> schema_get R c n s =
    ((if n = STAGING_SCHEMA then Inl UsedStagingSchema else
      case db s c of None \<Rightarrow> Inl (SchemaDoesNotExist n) | Some i \<Rightarrow>
        (case co s (i, n) of None \<Rightarrow> Inl (SchemaDoesNotExist n)
         | Some k \<Rightarrow> Inr \<lparr>coll_id = k, coll_database_id = i, coll_name = n\<rparr>)), s)"
  by (simp add: schema_get_def map_err_st_def get_collection_law split: option.splits)

lemma table_get_eq: "inv s \<Longrightarrow> table_get R c n t s =
    ((case db s c of None \<Rightarrow> Inl (TableDoesNotExist t) | Some i \<Rightarrow>
        (case co s (i, n) of None \<Rightarrow> Inl (TableDoesNotExist t) | Some k \<Rightarrow>
          (case ta s (k, t) of None \<Rightarrow> Inl (TableDoesNotExist t)
           | Some x \<Rightarrow> Inr \<lparr>table_id = fst x, table_collection_id = k, table_name = t\<rparr>))), s)"
  by (simp add: table_get_def map_err_st_def get_table_law split: option.splits)

lemma one_keys: "inv s \<Longrightarrow> one_key (db s)" "inv s \<Longrightarrow> one_key (co s)"
  using db_inj co_inj by (auto simp: one_key_def)

lemma nm_catalogs_iff: "c \<in> nm_catalogs (nm s) \<longleftrightarrow> db s c \<noteq> None"
  by (auto simp: names_of_def)

lemma nm_schemas_iff: "(c, n) \<in> nm_schemas (nm s) \<longleftrightarrow> (\<exists>i k. db s c = Some i \<and> co s (i, n) = Some k)"
  by (auto simp: names_of_def)

lemma nm_tables_eq: "nm_tables (nm s) (c, n, t) =
    (case db s c of None \<Rightarrow> None | Some i \<Rightarrow>
      (case co s (i, n) of None \<Rightarrow> None | Some k \<Rightarrow> map_option snd (ta s (k, t))))"
  by (simp add: names_of_def)

lemmas nm_simps = nm_catalogs_iff nm_schemas_iff nm_tables_eq

lemma refine_create_catalog:
  assumes "inv s" and "catalog_create R c s = (r, s')"
  shows "inv s' \<and> catalog_spec (Create_Catalog c) (nm s) = (r, nm s')"
proof -
  obtain q s1 where eq: "rp_create_database R c s = (q, s1)" by fastforce
  note law = create_database_law [OF assms(1) eq]
  show ?thesis
  proof (cases "db s c")
    case None
    with law obtain i where i: "q = Inr i" "db s1 = (db s)(c \<mapsto> i)" "co s1 = co s" "ta s1 = ta s" "inv s1"
      by auto
    have "co s (i, n) = None" for n
    proof (rule ccontr)
      assume "co s (i, n) \<noteq> None"
      then obtain c' where "db s c' = Some i" using co_ref [OF assms(1)] by blast
      with db_inj [OF i(5), of c i c'] None i(2) show False by (cases "c' = c") auto
    qed
    with names_create_catalog [of "db s" c "co s" i "ta s"] None i eq assms(2) show ?thesis
      by (auto simp: catalog_create_def map_err_st_def bind_st_def nm_catalogs_iff)
  next
    case (Some j)
    with law eq assms(2) show ?thesis
      by (auto simp: catalog_create_def map_err_st_def bind_st_def nm_catalogs_iff)
  qed
qed

lemma refine_delete_catalog:
  assumes "inv s" and "catalog_delete R c s = (r, s')"
  shows "inv s' \<and> catalog_spec (Delete_Catalog c) (nm s) = (r, nm s')"
proof (cases "db s c")
  case None
  with assms show ?thesis by (auto simp: catalog_delete_def bind_st_def catalog_get_eq nm_catalogs_iff)
next
  case (Some i)
  obtain q s1 where eq: "rp_delete_database R i s = (q, s1)" by fastforce
  from delete_database_law [OF assms(1) Some eq] names_delete_catalog [OF one_keys [OF assms(1)] Some]
    Some eq assms show ?thesis
    by (auto simp: catalog_delete_def bind_st_def catalog_get_eq map_err_st_def nm_catalogs_iff)
qed

lemma refine_create_schema:
  assumes "inv s" and "schema_create R c n s = (r, s')"
  shows "inv s' \<and> catalog_spec (Create_Schema c n) (nm s) = (r, nm s')"
proof (cases "n = STAGING_SCHEMA \<or> db s c = None")
  case True
  with assms show ?thesis by (auto simp: schema_create_def bind_st_def catalog_get_eq nm_catalogs_iff)
next
  case False
  then obtain i where i: "n \<noteq> STAGING_SCHEMA" "db s c = Some i" by blast
  obtain q s1 where eq: "rp_create_collection R i n s = (q, s1)" by fastforce
  note law = create_collection_law [OF assms(1) i(2) eq]
  show ?thesis
  proof (cases "co s (i, n)")
    case None
    with law obtain k where k: "q = Inr k" "co s1 = (co s)((i, n) \<mapsto> k)" "db s1 = db s" "ta s1 = ta s" "inv s1"
      by auto
    have "ta s (k, t) = None" for t
    proof (rule ccontr)
      assume "ta s (k, t) \<noteq> None"
      then obtain key where "co s key = Some k" using ta_ref [OF assms(1)] by blast
      with co_inj [OF k(5), of "(i, n)" k key] None k(2) show False by (cases "key = (i, n)") auto
    qed
    with names_create_schema [of "db s" c i "co s" n "ta s" k] one_keys(1) [OF assms(1)] i k eq None assms show ?thesis
      by (auto simp: schema_create_def map_err_st_def bind_st_def catalog_get_eq nm_simps)
  next
    case (Some j)
    with law i eq assms show ?thesis
      by (auto simp: schema_create_def map_err_st_def bind_st_def catalog_get_eq nm_simps)
  qed
qed

lemma refine_delete_schema:
  assumes "inv s" and "schema_delete R c n s = (r, s')"
  shows "inv s' \<and> catalog_spec (Delete_Schema c n) (nm s) = (r, nm s')"
proof (cases "n \<noteq> STAGING_SCHEMA \<and> (\<exists>i k. db s c = Some i \<and> co s (i, n) = Some k)")
  case False
  with assms show ?thesis
    by (auto simp: schema_delete_def bind_st_def schema_get_eq nm_schemas_iff split: option.splits if_splits)
next
  case True
  then obtain i k where i: "n \<noteq> STAGING_SCHEMA" "db s c = Some i" "co s (i, n) = Some k" by blast
  obtain q s1 where eq: "rp_delete_collection R k s = (q, s1)" by fastforce
  from delete_collection_law [OF assms(1) i(3) eq] names_delete_schema [OF one_keys [OF assms(1)] i(2,3)]
    i eq assms show ?thesis
    by (auto simp: schema_delete_def bind_st_def schema_get_eq map_err_st_def nm_schemas_iff)
qed

lemma refine_create_table:
  assumes "inv s" and "good schema" and "run_command R (Create_Table c n t schema u) s = (r, s')"
  shows "inv s' \<and> catalog_spec (Create_Table c n t schema u) (nm s) = (r, nm s')"
proof (cases "n \<noteq> STAGING_SCHEMA \<and> (\<exists>i k. db s c = Some i \<and> co s (i, n) = Some k)")
  case False
  with assms show ?thesis
    by (auto simp: table_create_def bind_st_def schema_get_eq nm_schemas_iff split: option.splits if_splits)
next
  case True
  then obtain i k where i: "n \<noteq> STAGING_SCHEMA" "db s c = Some i" "co s (i, n) = Some k" by blast
  obtain q s1 where eq: "rp_create_table R k t schema u s = (q, s1)" by fastforce
  from create_table_law [OF assms(1) i(3) assms(2) eq] names_create_table [OF one_keys [OF assms(1)] i(2,3)]
    i eq assms show ?thesis
    by (auto simp: table_create_def bind_st_def schema_get_eq map_err_st_def nm_simps split: if_splits)
qed

lemma table_get_None:
  "inv s \<Longrightarrow> nm_tables (nm s) (c, n, t) = None \<Longrightarrow> table_get R c n t s = (Inl (TableDoesNotExist t), s)"
  by (auto simp: table_get_eq nm_tables_eq split: option.splits)

lemma nm_tables_Some:
  assumes "nm_tables (nm s) (c, n, t) = Some u"
  obtains i k j where "db s c = Some i" "co s (i, n) = Some k" "ta s (k, t) = Some (j, u)"
  using assms by (auto simp: nm_tables_eq split: option.splits)

lemma refine_delete_table:
  assumes "inv s" and "table_delete R c n t s = (r, s')"
  shows "inv s' \<and> catalog_spec (Delete_Table c n t) (nm s) = (r, nm s')"
proof (cases "nm_tables (nm s) (c, n, t)")
  case None
  with assms show ?thesis by (auto simp: table_delete_def bind_st_def table_get_None)
next
  case (Some u)
  then obtain i k j where x: "db s c = Some i" "co s (i, n) = Some k" "ta s (k, t) = Some (j, u)"
    by (rule nm_tables_Some)
  obtain q s1 where eq: "rp_delete_table R j s = (q, s1)" by fastforce
  from delete_table_law [OF assms(1) x(3)] names_delete_table [OF one_keys [OF assms(1)] x(1,2)]
    x eq assms Some show ?thesis
    by (auto simp: table_delete_def bind_st_def table_get_eq map_err_st_def)
qed

lemma refine_rename_table:
  assumes "inv s" and "table_update R c n t c n' t' s = (r, s')"
  shows "inv s' \<and> catalog_spec (Rename_Table c n t n' t') (nm s) = (r, nm s')"
proof (cases "nm_tables (nm s) (c, n, t)")
  case None
  with assms show ?thesis by (auto simp: table_update_def bind_st_def table_get_None)
next
  case (Some u)
  then obtain i k j where x: "db s c = Some i" "co s (i, n) = Some k" "ta s (k, t) = Some (j, u)"
    by (rule nm_tables_Some)
  show ?thesis
  proof (cases "n' \<noteq> n \<and> (n' = STAGING_SCHEMA \<or> co s (i, n') = None)")
    case True
    with assms x Some show ?thesis
      by (auto simp: table_update_def bind_st_def table_get_eq schema_get_eq nm_schemas_iff)
  next
    case False
    obtain k' where k': "co s (i, n') = Some k'" using False x(2) by (cases "n' = n") auto
    let ?new = "if n' = n then None else Some k'"
    obtain q s1 where eq: "rp_rename_table R j t' ?new s = (q, s1)" by fastforce
    have same: "(k', t') = (k, t) \<longleftrightarrow> (n', t') = (n, t)"
      using co_inj [OF assms(1) x(2), of "(i, n')"] k' x(2) by auto
    have side: "case ?new of None \<Rightarrow> k' = k | Some k'' \<Rightarrow> k' = k'' \<and> (\<exists>key. co s key = Some k'')"
      using k' x(2) by auto
    have law: "inv s1 \<and> db s1 = db s \<and> co s1 = co s \<and>
      (if (k', t') \<noteq> (k, t) \<and> ta s (k', t') \<noteq> None
       then (\<exists>e. q = Inl (UniqueConstraintViolation e)) \<and> ta s1 = ta s
       else q = Inr () \<and> ta s1 = (ta s)((k, t) := None, (k', t') \<mapsto> (j, u)))"
      using eq by (intro rename_table_law [OF assms(1) x(3) side]) simp
    have upd: "table_update R c n t c n' t' s = (map_err (table_update_error n' t' t) q, s1)"
      using False assms(1) x k' eq
      by (auto simp: table_update_def bind_st_def table_get_eq schema_get_eq map_err_st_def)
    have taken: "nm_tables (nm s) (c, n', t') = map_option snd (ta s (k', t'))"
      using x(1) k' by (simp add: nm_tables_eq)
    have nms: "names_of (db s) (co s) ((ta s)((k, t) := None, (k', t') \<mapsto> (j, u))) =
        (nm s)\<lparr>nm_tables := (nm_tables (nm s))((c, n, t) := None, (c, n', t') \<mapsto> u)\<rparr>"
      using names_create_table [OF one_keys [OF assms(1)] x(1) k'] x
        names_delete_table [OF one_keys [OF assms(1)] x(1,2)] by simp
    show ?thesis
    proof (cases "(n', t') \<noteq> (n, t) \<and> ta s (k', t') \<noteq> None")
      case True
      then show ?thesis
        using law upd assms(2) Some False same taken x(1) k' nm_schemas_iff [of c n' s]
        by (auto simp del: catalog_spec.simps simp: catalog_spec.simps(7))
    next
      case free: False
      then have "q = Inr ()" "ta s1 = (ta s)((k, t) := None, (k', t') \<mapsto> (j, u))" "inv s1"
        "db s1 = db s" "co s1 = co s"
        using law same by auto
      with free show ?thesis
        using upd assms(2) Some False taken x(1) k' nm_schemas_iff [of c n' s] nms by auto
    qed
  qed
qed

lemma refine_command:
  assumes "inv s" and "command_ok good cmd" and "run_command R cmd s = (r, s')"
  shows "inv s' \<and> catalog_spec cmd (nm s) = (r, nm s')"
  using assms refine_create_catalog refine_delete_catalog refine_create_schema refine_delete_schema
    refine_create_table refine_delete_table refine_rename_table
  by (cases cmd) (simp_all del: catalog_spec.simps)

lemma refine_commands:
  assumes "inv s" and "\<forall>cmd\<in>set cmds. command_ok good cmd" and "run_all (run_command R) cmds s = (rs, s')"
  shows "inv s' \<and> run_all catalog_spec cmds (nm s) = (rs, nm s')"
  using assms
proof (induction cmds arbitrary: s rs s')
  case (Cons cmd cmds)
  obtain r s1 where one: "run_command R cmd s = (r, s1)" by fastforce
  obtain rs1 s2 where rest: "run_all (run_command R) cmds s1 = (rs1, s2)" by fastforce
  from refine_command [OF Cons.prems(1) _ one] Cons.prems(2)
  have "inv s1" "catalog_spec cmd (nm s) = (r, nm s1)" by auto
  with Cons.IH [OF _ _ rest] Cons.prems one rest show ?case by auto
qed simp

end

end
