(* ===== verification/CatalogStore.thy ===== *)
theory CatalogStore
  imports CatalogSpec
begin

text \<open>
  The repository of both back ends meets the contract of the catalog, so the store over it refines
  the specification of \<open>CatalogSpec\<close>. Further: what \<open>list\<close> of the schemas returns, and the garbage
  collection of dropped tables.
\<close>


subsection \<open>Rows as maps\<close>

definition db_map :: "repo_db \<Rightarrow> string \<rightharpoonup> int" where
  "db_map s = map_of (map (\<lambda>r. (dbr_name r, dbr_id r)) (database_rows s))"

definition coll_map :: "repo_db \<Rightarrow> int \<times> string \<rightharpoonup> int" where
  "coll_map s = map_of (map (\<lambda>c. (coll_key c, coll_id c)) (collection_rows s))"

definition tbl_map :: "repo_db \<Rightarrow> int \<times> string \<rightharpoonup> int \<times> uuid" where
  "tbl_map s = map_of (map (\<lambda>t. (tbl_key t, (tbl_id t, tbl_uuid t))) (table_rows s))"

definition good_schema :: "('f \<Rightarrow> (string, string) result) \<Rightarrow> (string \<times> 'f) list \<Rightarrow> bool" where
  "good_schema to_json schema \<longleftrightarrow> is_ok (schema_fields to_json schema) \<and> distinct (map fst schema)"

lemma map_of_rows:
  "distinct (map f xs) \<Longrightarrow> map_of (map (\<lambda>x. (f x, g x)) xs) k = Some v \<longleftrightarrow> (\<exists>x\<in>set xs. f x = k \<and> g x = v)"
proof -
  assume "distinct (map f xs)"
  then have "distinct (map fst (map (\<lambda>x. (f x, g x)) xs))" by (simp add: comp_def)
  then show ?thesis by (simp only: map_of_eq_Some_iff) auto
qed

lemma map_of_rows_None: "map_of (map (\<lambda>x. (f x, g x)) xs) k = None \<longleftrightarrow> (\<forall>x\<in>set xs. f x \<noteq> k)"
  by (force simp: map_of_eq_None_iff)

lemma map_of_rows_snoc:
  "k \<notin> f ` set xs \<Longrightarrow> map_of (map (\<lambda>x. (f x, g x)) xs @ [(k, v)]) = (map_of (map (\<lambda>x. (f x, g x)) xs))(k \<mapsto> v)"
  by (induction xs) (auto simp: fun_eq_iff)

lemma map_eqI: "(\<And>k v. m k = Some v \<longleftrightarrow> m' k = Some v) \<Longrightarrow> m = (m' :: 'k \<rightharpoonup> 'v)"
  by (rule ext) (metis option.exhaust)

lemma rows_ok_distinct:
  assumes "rows_ok d s"
  shows "distinct (map dbr_name (database_rows s))" "distinct (map coll_key (collection_rows s))"
    "distinct (map tbl_key (table_rows s))" "distinct (map dbr_id (database_rows s))"
    "distinct (map coll_id (collection_rows s))" "distinct (map tbl_id (table_rows s))"
  using assms by (simp_all add: rows_ok_def table_ok_def)

lemma row_eta [simp]:
  "\<lparr>dbr_id = dbr_id r, dbr_name = dbr_name r\<rparr> = r"
  "\<lparr>coll_id = coll_id c, coll_database_id = coll_database_id c, coll_name = coll_name c\<rparr> = c"
  "\<lparr>tbl_id = tbl_id t, tbl_collection_id = tbl_collection_id t, tbl_name = tbl_name t,
    tbl_uuid = tbl_uuid t\<rparr> = t"
  by simp_all

lemma db_map_iff: "rows_ok d s \<Longrightarrow> db_map s c = Some i \<longleftrightarrow> \<lparr>dbr_id = i, dbr_name = c\<rparr> \<in> set (database_rows s)"
  unfolding db_map_def by (subst map_of_rows, simp add: rows_ok_distinct) force

lemma coll_map_iff: "rows_ok d s \<Longrightarrow> coll_map s (i, n) = Some k \<longleftrightarrow>
    \<lparr>coll_id = k, coll_database_id = i, coll_name = n\<rparr> \<in> set (collection_rows s)"
  unfolding coll_map_def by (subst map_of_rows, simp add: rows_ok_distinct) (force simp: coll_key_def)

lemma tbl_map_iff: "rows_ok d s \<Longrightarrow> tbl_map s (k, t) = Some (i, u) \<longleftrightarrow>
    \<lparr>tbl_id = i, tbl_collection_id = k, tbl_name = t, tbl_uuid = u\<rparr> \<in> set (table_rows s)"
  unfolding tbl_map_def by (subst map_of_rows, simp add: rows_ok_distinct) (force simp: tbl_key_def)

lemma inj_ids:
  assumes "rows_ok d s"
  shows "r \<in> set (database_rows s) \<Longrightarrow> r' \<in> set (database_rows s) \<Longrightarrow> dbr_id r = dbr_id r' \<Longrightarrow> r = r'"
    and "c \<in> set (collection_rows s) \<Longrightarrow> c' \<in> set (collection_rows s) \<Longrightarrow> coll_id c = coll_id c' \<Longrightarrow> c = c'"
    and "t \<in> set (table_rows s) \<Longrightarrow> t' \<in> set (table_rows s) \<Longrightarrow> tbl_id t = tbl_id t' \<Longrightarrow> t = t'"
  using rows_ok_distinct [OF assms] by (auto simp: distinct_map dest: inj_onD)


subsection \<open>The selects\<close>

lemma fetch_one_none: "set rs = {} \<Longrightarrow> fetch_one d rs s = (Inl (SqlxError RowNotFound), s)"
  by (simp add: fetch_one_def)

lemma fetch_one_some: "set rs = {r} \<Longrightarrow> fetch_one d rs s = (Inr r, s)"
  by (cases rs) (auto simp: fetch_one_def)

lemma name_row:
  "rows_ok d s \<Longrightarrow> db \<in> set (database_rows s) \<Longrightarrow> db_map s (dbr_name db) = Some (dbr_id db)"
  "rows_ok d s \<Longrightarrow> c \<in> set (collection_rows s) \<Longrightarrow> coll_map s (coll_database_id c, coll_name c) = Some (coll_id c)"
  "rows_ok d s \<Longrightarrow> t \<in> set (table_rows s) \<Longrightarrow>
     tbl_map s (tbl_collection_id t, tbl_name t) = Some (tbl_id t, tbl_uuid t)"
  by (simp_all add: db_map_iff coll_map_iff tbl_map_iff)

lemma get_database_maps:
  assumes "rows_ok d s"
  shows "get_database d c s = ((case db_map s c of None \<Rightarrow> Inl (SqlxError RowNotFound)
    | Some i \<Rightarrow> Inr \<lparr>dbr_id = i, dbr_name = c\<rparr>), s)"
proof (cases "db_map s c")
  case None
  then have "set [r \<leftarrow> database_rows s. dbr_name r = c] = {}"
    by (auto simp: db_map_def map_of_rows_None)
  from fetch_one_none [OF this, of d s] None show ?thesis unfolding get_database_def by simp
next
  case (Some i)
  then have mem: "\<lparr>dbr_id = i, dbr_name = c\<rparr> \<in> set (database_rows s)" by (simp add: db_map_iff [OF assms])
  have uniq: "r = \<lparr>dbr_id = i, dbr_name = c\<rparr>" if "r \<in> set (database_rows s)" "dbr_name r = c" for r
    using name_row(1) [OF assms that(1)] that(2) Some by (cases r) simp
  have "set [r \<leftarrow> database_rows s. dbr_name r = c] = {\<lparr>dbr_id = i, dbr_name = c\<rparr>}"
    using mem by (auto dest: uniq)
  from fetch_one_some [OF this, of d s] Some show ?thesis unfolding get_database_def by simp
qed

lemma get_collection_maps:
  assumes "rows_ok d s"
  shows "get_collection d c n s =
    ((case db_map s c of None \<Rightarrow> Inl (SqlxError RowNotFound) | Some i \<Rightarrow>
       (case coll_map s (i, n) of None \<Rightarrow> Inl (SqlxError RowNotFound)
        | Some k \<Rightarrow> Inr \<lparr>coll_id = k, coll_database_id = i, coll_name = n\<rparr>)), s)"
proof -
  let ?rs = "[\<lparr>coll_id = coll_id r, coll_database_id = dbr_id db, coll_name = coll_name r\<rparr>.
          r \<leftarrow> collection_rows s, db \<leftarrow> database_rows s, coll_database_id r = dbr_id db,
          dbr_name db = c \<and> coll_name r = n]"
  have mem: "x \<in> set ?rs \<longleftrightarrow> (\<exists>i k. db_map s c = Some i \<and> coll_map s (i, n) = Some k \<and>
      x = \<lparr>coll_id = k, coll_database_id = i, coll_name = n\<rparr>)" for x
  proof
    assume "x \<in> set ?rs"
    then obtain r db where "r \<in> set (collection_rows s)" "db \<in> set (database_rows s)"
      "coll_database_id r = dbr_id db" "dbr_name db = c" "coll_name r = n"
      "x = \<lparr>coll_id = coll_id r, coll_database_id = dbr_id db, coll_name = coll_name r\<rparr>"
      by (auto split: if_splits)
    with name_row(1) [OF assms, of db] name_row(2) [OF assms, of r]
    show "\<exists>i k. db_map s c = Some i \<and> coll_map s (i, n) = Some k \<and>
      x = \<lparr>coll_id = k, coll_database_id = i, coll_name = n\<rparr>" by auto
  qed (force simp: db_map_iff [OF assms] coll_map_iff [OF assms])
  show ?thesis
  proof (cases "\<exists>i k. db_map s c = Some i \<and> coll_map s (i, n) = Some k")
    case True
    then obtain i k where ik: "db_map s c = Some i" "coll_map s (i, n) = Some k" by blast
    have "set ?rs = {\<lparr>coll_id = k, coll_database_id = i, coll_name = n\<rparr>}"
      by (intro set_eqI) (simp only: mem, simp add: ik)
    then have "fetch_one d ?rs s = (Inr \<lparr>coll_id = k, coll_database_id = i, coll_name = n\<rparr>, s)"
      by (rule fetch_one_some)
    then show ?thesis unfolding get_collection_def by (rule trans) (simp add: ik)
  next
    case False
    have "set ?rs = {}" using False by (intro equals0I) (simp only: mem, blast)
    then have "fetch_one d ?rs s = (Inl (SqlxError RowNotFound), s)" by (rule fetch_one_none)
    then show ?thesis unfolding get_collection_def by (rule trans) (use False in \<open>auto split: option.splits\<close>)
  qed
qed

lemma get_table_maps:
  assumes "rows_ok d s"
  shows "get_table d c n t s =
    ((case db_map s c of None \<Rightarrow> Inl (SqlxError RowNotFound) | Some i \<Rightarrow>
       (case coll_map s (i, n) of None \<Rightarrow> Inl (SqlxError RowNotFound) | Some k \<Rightarrow>
         (case tbl_map s (k, t) of None \<Rightarrow> Inl (SqlxError RowNotFound)
          | Some x \<Rightarrow> Inr \<lparr>table_id = fst x, table_collection_id = k, table_name = t\<rparr>))), s)"
proof -
  let ?rs = "[\<lparr>table_id = tbl_id r, table_collection_id = coll_id co, table_name = tbl_name r\<rparr>.
          r \<leftarrow> table_rows s, co \<leftarrow> collection_rows s, tbl_collection_id r = coll_id co,
          db \<leftarrow> database_rows s, coll_database_id co = dbr_id db,
          dbr_name db = c \<and> coll_name co = n \<and> tbl_name r = t]"
  have mem: "x \<in> set ?rs \<longleftrightarrow> (\<exists>i k j u. db_map s c = Some i \<and> coll_map s (i, n) = Some k \<and>
      tbl_map s (k, t) = Some (j, u) \<and> x = \<lparr>table_id = j, table_collection_id = k, table_name = t\<rparr>)" for x
  proof
    assume "x \<in> set ?rs"
    then obtain r co db where "r \<in> set (table_rows s)" "co \<in> set (collection_rows s)"
      "db \<in> set (database_rows s)" "tbl_collection_id r = coll_id co"
      "coll_database_id co = dbr_id db" "dbr_name db = c" "coll_name co = n" "tbl_name r = t"
      "x = \<lparr>table_id = tbl_id r, table_collection_id = coll_id co, table_name = tbl_name r\<rparr>"
      by (auto split: if_splits)
    with name_row(1) [OF assms, of db] name_row(2) [OF assms, of co] name_row(3) [OF assms, of r]
    show "\<exists>i k j u. db_map s c = Some i \<and> coll_map s (i, n) = Some k \<and>
      tbl_map s (k, t) = Some (j, u) \<and> x = \<lparr>table_id = j, table_collection_id = k, table_name = t\<rparr>"
      by auto
  qed (force simp: db_map_iff [OF assms] coll_map_iff [OF assms] tbl_map_iff [OF assms])
  show ?thesis
  proof (cases "\<exists>i k j u. db_map s c = Some i \<and> coll_map s (i, n) = Some k \<and> tbl_map s (k, t) = Some (j, u)")
    case True
    then obtain i k j u where
      ik: "db_map s c = Some i" "coll_map s (i, n) = Some k" "tbl_map s (k, t) = Some (j, u)" by blast
    have "set ?rs = {\<lparr>table_id = j, table_collection_id = k, table_name = t\<rparr>}"
      by (intro set_eqI) (simp only: mem, simp add: ik)
    then have "fetch_one d ?rs s = (Inr \<lparr>table_id = j, table_collection_id = k, table_name = t\<rparr>, s)"
      by (rule fetch_one_some)
    then show ?thesis unfolding get_table_def by (rule trans) (simp add: ik)
  next
    case False
    have "set ?rs = {}" using False by (intro equals0I) (simp only: mem, blast)
    then have "fetch_one d ?rs s = (Inl (SqlxError RowNotFound), s)" by (rule fetch_one_none)
    then show ?thesis unfolding get_table_def by (rule trans) (use False in \<open>auto split: option.splits\<close>)
  qed
qed

subsection \<open>The changes\<close>

lemma maps_dom:
  "c \<in> dbr_name ` set (database_rows s) \<longleftrightarrow> db_map s c \<noteq> None"
  "k \<in> coll_key ` set (collection_rows s) \<longleftrightarrow> coll_map s k \<noteq> None"
  "x \<in> tbl_key ` set (table_rows s) \<longleftrightarrow> tbl_map s x \<noteq> None"
  by (force simp: db_map_def coll_map_def tbl_map_def map_of_eq_None_iff)+

lemma maps_frame [simp]:
  "db_map (s\<lparr>db_collections := a\<rparr>) = db_map s" "db_map (s\<lparr>db_tables := b\<rparr>) = db_map s"
  "db_map (s\<lparr>db_versions := v\<rparr>) = db_map s" "db_map (s\<lparr>db_columns := w\<rparr>) = db_map s"
  "db_map (s\<lparr>db_functions := f\<rparr>) = db_map s"
  "coll_map (s\<lparr>db_databases := c\<rparr>) = coll_map s" "coll_map (s\<lparr>db_tables := b\<rparr>) = coll_map s"
  "coll_map (s\<lparr>db_versions := v\<rparr>) = coll_map s" "coll_map (s\<lparr>db_columns := w\<rparr>) = coll_map s"
  "coll_map (s\<lparr>db_functions := f\<rparr>) = coll_map s"
  "tbl_map (s\<lparr>db_databases := c\<rparr>) = tbl_map s" "tbl_map (s\<lparr>db_collections := a\<rparr>) = tbl_map s"
  "tbl_map (s\<lparr>db_versions := v\<rparr>) = tbl_map s" "tbl_map (s\<lparr>db_columns := w\<rparr>) = tbl_map s"
  "tbl_map (s\<lparr>db_functions := f\<rparr>) = tbl_map s"
  by (simp_all add: db_map_def coll_map_def tbl_map_def)

lemma maps_same_rows:
  "sql_rows t = database_rows s \<Longrightarrow> db_map (s\<lparr>db_databases := t\<rparr>) = db_map s"
  "sql_rows u = collection_rows s \<Longrightarrow> coll_map (s\<lparr>db_collections := u\<rparr>) = coll_map s"
  "sql_rows w = table_rows s \<Longrightarrow> tbl_map (s\<lparr>db_tables := w\<rparr>) = tbl_map s"
  by (simp_all add: db_map_def coll_map_def tbl_map_def)

lemma maps_snoc:
  "dbr_name r \<notin> dbr_name ` set (database_rows s) \<Longrightarrow>
     db_map (s\<lparr>db_databases := x\<lparr>sql_rows := database_rows s @ [r]\<rparr>\<rparr>) = (db_map s)(dbr_name r \<mapsto> dbr_id r)"
  "coll_key c \<notin> coll_key ` set (collection_rows s) \<Longrightarrow>
     coll_map (s\<lparr>db_collections := y\<lparr>sql_rows := collection_rows s @ [c]\<rparr>\<rparr>) = (coll_map s)(coll_key c \<mapsto> coll_id c)"
  "tbl_key t \<notin> tbl_key ` set (table_rows s) \<Longrightarrow>
     tbl_map (s\<lparr>db_tables := z\<lparr>sql_rows := table_rows s @ [t]\<rparr>\<rparr>) = (tbl_map s)(tbl_key t \<mapsto> (tbl_id t, tbl_uuid t))"
  by (simp_all add: db_map_def coll_map_def tbl_map_def map_of_rows_snoc del: map_of_append)

lemma key_make [simp]:
  "coll_key \<lparr>coll_id = k, coll_database_id = i, coll_name = n\<rparr> = (i, n)"
  "tbl_key \<lparr>tbl_id = j, tbl_collection_id = k, tbl_name = t, tbl_uuid = u\<rparr> = (k, t)"
  by (simp_all add: key_defs)

lemma create_database_maps:
  assumes "rows_ok d s" and "create_database d c s = (r, s')"
  shows "rows_ok d s' \<and> coll_map s' = coll_map s \<and> tbl_map s' = tbl_map s \<and>
    (if db_map s c \<noteq> None then (\<exists>e. r = Inl (UniqueConstraintViolation e)) \<and> db_map s' = db_map s
     else \<exists>i. r = Inr i \<and> db_map s' = (db_map s)(c \<mapsto> i))"
  using assms(2) rows_ok_create_database [OF assms(1), of c]
  by (auto simp: create_database_eq maps_dom maps_same_rows maps_snoc split: if_splits)

lemma create_collection_maps:
  assumes "rows_ok d s" and "db_map s c = Some i" and "create_collection d i n s = (r, s')"
  shows "rows_ok d s' \<and> db_map s' = db_map s \<and> tbl_map s' = tbl_map s \<and>
    (if coll_map s (i, n) \<noteq> None then (\<exists>e. r = Inl (UniqueConstraintViolation e)) \<and> coll_map s' = coll_map s
     else \<exists>k. r = Inr k \<and> coll_map s' = (coll_map s)((i, n) \<mapsto> k))"
proof -
  from assms(2) have "i \<in> dbr_id ` set (database_rows s)" by (force simp: db_map_iff [OF assms(1)])
  then show ?thesis
    using assms(3) rows_ok_create_collection [OF assms(1), of i n]
    by (auto simp: create_collection_eq maps_dom maps_same_rows maps_snoc split: if_splits)
qed

lemma create_table_maps:
  assumes "rows_ok d s" and "coll_map s key = Some k" and "good_schema to_json schema"
    and "create_table d to_json k t schema u s = (r, s')"
  shows "rows_ok d s' \<and> db_map s' = db_map s \<and> coll_map s' = coll_map s \<and>
    (if tbl_map s (k, t) \<noteq> None then (\<exists>e. r = Inl (UniqueConstraintViolation e)) \<and> tbl_map s' = tbl_map s
     else \<exists>i v. r = Inr (i, v) \<and> tbl_map s' = (tbl_map s)((k, t) \<mapsto> (i, u)))"
proof -
  have ok': "rows_ok d s'" using rows_ok_create_table [OF assms(1), of to_json k t schema u] assms(4) by simp
  obtain i n where key: "key = (i, n)" by (cases key)
  have coll: "k \<in> coll_id ` set (collection_rows s)"
    using assms(2) by (force simp: key coll_map_iff [OF assms(1)])
  show ?thesis
  proof (cases "tbl_map s (k, t)")
    case (Some x)
    then have "(k, t) \<in> tbl_key ` set (table_rows s)" by (simp add: maps_dom)
    then have "r = Inl (UniqueConstraintViolation (unique_error d Table_Name))"
      "s' = s\<lparr>db_tables := take_id d (db_tables s)\<rparr>"
      using assms(4) by (simp_all add: create_table_def insert_table_eq bind_st_def)
    with Some ok' show ?thesis by (simp add: maps_same_rows)
  next
    case None
    then have free: "(k, t) \<notin> tbl_key ` set (table_rows s)" by (simp add: maps_dom)
    let ?s = "with_new_table d k t u s" and ?v = "new_id d ver_id (db_versions s)"
    let ?t = "new_id d tbl_id (db_tables s)"
    note ctf = create_table_free [OF coll free refl refl]
    obtain flds where flds: "schema_fields to_json schema = Inr flds"
      using assms(3) by (auto simp: good_schema_def is_ok_iff)
    have dist: "distinct (map fst flds)"
      using assms(3) schema_fields_names [OF flds] by (simp add: good_schema_def)
    have none: "columns_of ?s ?v = []"
      using no_columns_of_new_version [OF assms(1) new_id_notin [OF rows_okD(4) [OF assms(1)]]]
      by (simp add: columns_of_def ctf(5))
    obtain r' s'' where ins: "insert_columns d ?v flds ?s = (r', s'')" by fastforce
    have "r' = Inr ()"
      using insert_columns_new_version(1) [OF rows_ok_with_new_table [OF assms(1)] _ none ins] dist
      by (simp add: ctf(3))
    with assms(4) ins flds have res: "r = Inr (?t, ?v)" "s' = s''" by (simp_all add: ctf(1) bind_st_def)
    have frame: "db_databases s'' = db_databases ?s" "db_collections s'' = db_collections ?s"
      "db_tables s'' = db_tables ?s"
      using insert_columns_frame(1-3) [of d ?v flds ?s] by (simp_all add: ins)
    have "tbl_map s'' = (tbl_map s)((k, t) \<mapsto> (?t, u))"
      using map_of_rows_snoc [OF free, of "\<lambda>t. (tbl_id t, tbl_uuid t)"]
      by (simp add: tbl_map_def frame ctf(2))
    moreover have "db_map s'' = db_map s" "coll_map s'' = coll_map s"
      by (simp_all add: db_map_def coll_map_def frame ctf(4))
        (simp add: with_new_table_def insert_version_def insert_table_def insert_defs Let_def)
    ultimately show ?thesis using None ok' res by simp
  qed
qed

lemma map_pair_eqI: "(\<And>a b v. m (a, b) = Some v \<longleftrightarrow> m' (a, b) = Some v) \<Longrightarrow> m = (m' :: 'a \<times> 'b \<rightharpoonup> 'v)"
  by (rule map_eqI) auto

lemma key_row_unique:
  assumes "rows_ok d s" and "t \<in> set (table_rows s)" and "t' \<in> set (table_rows s)" and "tbl_key t = tbl_key t'"
  shows "t = t'"
  using rows_ok_distinct(3) [OF assms(1)] assms(2-4) by (auto simp: distinct_map dest: inj_onD)

lemma tbl_map_rename:
  assumes "rows_ok d s" and "tbl_map s (k, t) = Some (j, u)"
    and "s' = s\<lparr>db_tables := update_rows (\<lambda>r. tbl_id r = j)
      (\<lambda>r. r\<lparr>tbl_name := t', tbl_collection_id := k'\<rparr>) (db_tables s)\<rparr>" and "rows_ok d s'"
    and free: "(k', t') = (k, t) \<or> tbl_map s (k', t') = None"
  shows "tbl_map s' = (tbl_map s)((k, t) := None, (k', t') \<mapsto> (j, u))"
proof (rule map_pair_eqI)
  fix a b and x :: "int \<times> uuid"
  obtain c e where x: "x = (c, e)" by (cases x)
  let ?row = "\<lparr>tbl_id = j, tbl_collection_id = k, tbl_name = t, tbl_uuid = u\<rparr>"
  have row: "?row \<in> set (table_rows s)" using assms(2) by (simp add: tbl_map_iff [OF assms(1)])
  have id_row: "tbl_id ?row = j" by simp
  have id_j: "r = ?row" if "r \<in> set (table_rows s)" "tbl_id r = j" for r
    using inj_ids(3) [OF assms(1) that(1) row] that(2) by simp
  have "tbl_map s' (a, b) = Some x \<longleftrightarrow>
      \<lparr>tbl_id = c, tbl_collection_id = a, tbl_name = b, tbl_uuid = e\<rparr> \<in> set (table_rows s')"
    by (simp add: x tbl_map_iff [OF assms(4)])
  also have "set (table_rows s') =
      insert \<lparr>tbl_id = j, tbl_collection_id = k', tbl_name = t', tbl_uuid = u\<rparr> {r \<in> set (table_rows s). tbl_id r \<noteq> j}"
  proof -
    have one: "set (table_rows s) \<inter> {r. tbl_id r = j} = {?row}" using row id_j id_row by blast
    have "set (table_rows s') = (\<lambda>r. r\<lparr>tbl_name := t', tbl_collection_id := k'\<rparr>) `
        (set (table_rows s) \<inter> {r. tbl_id r = j}) \<union> set (table_rows s) \<inter> {r. tbl_id r \<noteq> j}"
      by (simp add: assms(3))
    then show ?thesis unfolding one by auto
  qed
  also have "\<lparr>tbl_id = c, tbl_collection_id = a, tbl_name = b, tbl_uuid = e\<rparr> \<in> \<dots> \<longleftrightarrow>
      (c = j \<and> a = k' \<and> b = t' \<and> e = u) \<or>
      (c \<noteq> j \<and> \<lparr>tbl_id = c, tbl_collection_id = a, tbl_name = b, tbl_uuid = e\<rparr> \<in> set (table_rows s))"
    by auto
  also have "\<dots> \<longleftrightarrow> ((tbl_map s)((k, t) := None, (k', t') \<mapsto> (j, u))) (a, b) = Some x"
  proof -
    let ?r = "\<lparr>tbl_id = c, tbl_collection_id = a, tbl_name = b, tbl_uuid = e\<rparr>"
    have mem: "?r \<in> set (table_rows s) \<longleftrightarrow> tbl_map s (a, b) = Some (c, e)"
      by (simp add: tbl_map_iff [OF assms(1)])
    have "tbl_map s (a, b) = Some (c, e) \<Longrightarrow> c = j \<longleftrightarrow> (a, b) = (k, t)"
      using id_j [of ?r] assms(2) mem by auto
    with free assms(2) mem show ?thesis
      by (cases "(a, b) = (k', t')"; cases "(a, b) = (k, t)") (auto simp: x)
  qed
  finally show "tbl_map s' (a, b) = Some x \<longleftrightarrow>
      ((tbl_map s)((k, t) := None, (k', t') \<mapsto> (j, u))) (a, b) = Some x" .
qed

lemma rename_table_maps:
  assumes "rows_ok d s" and "tbl_map s (k, t) = Some x"
    and "case new of None \<Rightarrow> k' = k | Some k'' \<Rightarrow> k' = k'' \<and> (\<exists>key. coll_map s key = Some k'')"
    and "rename_table d (fst x) t' new s = (r, s')"
  shows "rows_ok d s' \<and> db_map s' = db_map s \<and> coll_map s' = coll_map s \<and>
    (if (k', t') \<noteq> (k, t) \<and> tbl_map s (k', t') \<noteq> None
     then (\<exists>e. r = Inl (UniqueConstraintViolation e)) \<and> tbl_map s' = tbl_map s
     else r = Inr () \<and> tbl_map s' = (tbl_map s)((k, t) := None, (k', t') \<mapsto> x))"
proof -
  obtain j u where x: "x = (j, u)" by (cases x)
  let ?row = "\<lparr>tbl_id = j, tbl_collection_id = k, tbl_name = t, tbl_uuid = u\<rparr>"
  have row: "?row \<in> set (table_rows s)" using assms(2) by (simp add: x tbl_map_iff [OF assms(1)])
  have ok': "rows_ok d s'" using rows_ok_rename_table [OF assms(1), of "fst x" t' new] assms(4) by simp
  obtain q where q: "find (\<lambda>r. tbl_id r = j) (table_rows s) = Some q"
    using row by (cases "find (\<lambda>r. tbl_id r = j) (table_rows s)") (auto simp: find_None_iff)
  have "q = ?row" using find_SomeD [OF q] inj_ids(3) [OF assms(1) _ row, of q] by simp
  then have cid: "(case new of None \<Rightarrow> tbl_collection_id q | Some c \<Rightarrow> c) = k'"
    using assms(3) by (auto split: option.splits)
  have fk: "(new \<noteq> None \<and> k' \<notin> coll_id ` set (collection_rows s)) = False"
    using assms(3) by (force simp: coll_map_iff [OF assms(1)] split: option.splits)
  have clash: "list_ex (\<lambda>r. tbl_id r \<noteq> j \<and> tbl_name r = t' \<and> tbl_collection_id r = k') (table_rows s) \<longleftrightarrow>
      (k', t') \<noteq> (k, t) \<and> tbl_map s (k', t') \<noteq> None"
  proof
    assume "list_ex (\<lambda>r. tbl_id r \<noteq> j \<and> tbl_name r = t' \<and> tbl_collection_id r = k') (table_rows s)"
    then obtain p where p: "p \<in> set (table_rows s)" "tbl_id p \<noteq> j" "tbl_key p = (k', t')"
      by (auto simp: list_ex_iff tbl_key_def)
    then show "(k', t') \<noteq> (k, t) \<and> tbl_map s (k', t') \<noteq> None"
      using key_row_unique [OF assms(1) p(1) row] maps_dom(3) [of "(k', t')" s] by force
  next
    assume "(k', t') \<noteq> (k, t) \<and> tbl_map s (k', t') \<noteq> None"
    then obtain p where p: "p \<in> set (table_rows s)" "tbl_key p = (k', t')" "(k', t') \<noteq> (k, t)"
      using maps_dom(3) [of "(k', t')" s] by auto
    have "tbl_id p \<noteq> j"
    proof
      assume "tbl_id p = j"
      then have "p = ?row" using inj_ids(3) [OF assms(1) p(1) row] by simp
      with p(2,3) show False by simp
    qed
    with p show "list_ex (\<lambda>r. tbl_id r \<noteq> j \<and> tbl_name r = t' \<and> tbl_collection_id r = k') (table_rows s)"
      by (auto simp: list_ex_iff tbl_key_def)
  qed
  have eq: "(r, s') = (if (k', t') \<noteq> (k, t) \<and> tbl_map s (k', t') \<noteq> None
      then (Inl (UniqueConstraintViolation (unique_error d Table_Name)), s)
      else (Inr (), s\<lparr>db_tables := update_rows (\<lambda>r. tbl_id r = j)
        (\<lambda>r. r\<lparr>tbl_name := t', tbl_collection_id := k'\<rparr>) (db_tables s)\<rparr>))"
    using assms(4) by (simp only: rename_table_def x fst_conv q option.case Let_def cid clash fk if_False
        interpret_unique_error)
  show ?thesis
  proof (cases "(k', t') \<noteq> (k, t) \<and> tbl_map s (k', t') \<noteq> None")
    case True
    with eq ok' show ?thesis by auto
  next
    case False
    then have "r = Inr ()" and s': "s' = s\<lparr>db_tables := update_rows (\<lambda>r. tbl_id r = j)
        (\<lambda>r. r\<lparr>tbl_name := t', tbl_collection_id := k'\<rparr>) (db_tables s)\<rparr>"
      using eq by (simp_all only: if_False prod.inject)
    moreover have "(k', t') = (k, t) \<or> tbl_map s (k', t') = None" using False by blast
    note tbl_map_rename [OF assms(1) assms(2) [unfolded x] s' ok' this]
    moreover have "db_map s' = db_map s" "coll_map s' = coll_map s" by (simp_all add: s')
    ultimately show ?thesis using False ok' by (simp only: x if_False simp_thms)
  qed
qed

lemma delete_tables_frame:
  "db_databases (delete_tables_where P s) = db_databases s"
  "db_collections (delete_tables_where P s) = db_collections s"
  "table_rows (delete_tables_where P s) = [t \<leftarrow> table_rows s. \<not> P t]"
  by (simp_all add: delete_defs)

lemma delete_collections_frame:
  "db_databases (delete_collections_where P s) = db_databases s"
  "collection_rows (delete_collections_where P s) = [c \<leftarrow> collection_rows s. \<not> P c]"
  "table_rows (delete_collections_where P s) =
     [t \<leftarrow> table_rows s. tbl_collection_id t \<notin> coll_id ` {c \<in> set (collection_rows s). P c}]"
  by (simp_all add: delete_collections_where_def Let_def delete_tables_frame)

lemma delete_databases_frame:
  "database_rows (delete_databases_where P s) = [r \<leftarrow> database_rows s. \<not> P r]"
  "collection_rows (delete_databases_where P s) =
     [c \<leftarrow> collection_rows s. coll_database_id c \<notin> dbr_id ` {r \<in> set (database_rows s). P r}]"
  "table_rows (delete_databases_where P s) =
     [t \<leftarrow> table_rows s. tbl_collection_id t \<notin> coll_id ` {c \<in> set (collection_rows s).
        coll_database_id c \<in> dbr_id ` {r \<in> set (database_rows s). P r}}]"
  by (simp_all add: delete_databases_where_def Let_def delete_collections_frame)

lemma delete_table_maps:
  assumes "rows_ok d s" and "tbl_map s (k, t) = Some x" and "delete_table d (fst x) s = (r, s')"
  shows "rows_ok d s' \<and> r = Inr () \<and> db_map s' = db_map s \<and> coll_map s' = coll_map s \<and>
    tbl_map s' = (tbl_map s)((k, t) := None)"
proof -
  obtain j u where x: "x = (j, u)" by (cases x)
  let ?row = "\<lparr>tbl_id = j, tbl_collection_id = k, tbl_name = t, tbl_uuid = u\<rparr>"
  have row: "?row \<in> set (table_rows s)" using assms(2) by (simp add: x tbl_map_iff [OF assms(1)])
  then have "list_ex (\<lambda>t. tbl_id t = j) (table_rows s)" by (force simp: list_ex_iff)
  with assms(3) have s': "r = Inr ()" "s' = delete_tables_where (\<lambda>t. tbl_id t = j) s"
    by (simp_all add: delete_table_def delete_stmt_def x)
  have ok': "rows_ok d s'" unfolding s' by (rule rows_ok_delete_tables_where [OF assms(1)])
  have rows': "table_rows s' = [t \<leftarrow> table_rows s. tbl_id t \<noteq> j]" by (simp add: s' delete_tables_frame)
  have "tbl_map s' = (tbl_map s)((k, t) := None)"
  proof (rule map_pair_eqI)
    fix a b and y :: "int \<times> uuid"
    obtain c e where y: "y = (c, e)" by (cases y)
    let ?r = "\<lparr>tbl_id = c, tbl_collection_id = a, tbl_name = b, tbl_uuid = e\<rparr>"
    have new: "tbl_map s' (a, b) = Some y \<longleftrightarrow> ?r \<in> set (table_rows s) \<and> c \<noteq> j"
      by (simp add: y tbl_map_iff [OF ok'] rows')
    have old: "((tbl_map s)((k, t) := None)) (a, b) = Some y \<longleftrightarrow>
        ?r \<in> set (table_rows s) \<and> \<not> (a = k \<and> b = t)"
      by (simp add: y tbl_map_iff [OF assms(1)])
    have "c = j \<longleftrightarrow> a = k \<and> b = t" if "?r \<in> set (table_rows s)"
    proof
      assume "c = j"
      then have "?r = ?row" by (intro inj_ids(3) [OF assms(1) that row]) simp
      then show "a = k \<and> b = t" by simp
    next
      assume "a = k \<and> b = t"
      then have "?r = ?row" by (intro key_row_unique [OF assms(1) that row]) simp
      then show "c = j" by simp
    qed
    then show "tbl_map s' (a, b) = Some y \<longleftrightarrow> ((tbl_map s)((k, t) := None)) (a, b) = Some y"
      unfolding new old by blast
  qed
  with s' ok' show ?thesis by (simp add: db_map_def coll_map_def delete_tables_frame)
qed

lemma delete_collection_maps:
  assumes "rows_ok d s" and "coll_map s key = Some k" and "delete_collection d k s = (r, s')"
  shows "rows_ok d s' \<and> r = Inr () \<and> db_map s' = db_map s \<and> coll_map s' = (coll_map s)(key := None) \<and>
    tbl_map s' = tbl_map s |` {x. fst x \<noteq> k}"
proof -
  obtain i n where key: "key = (i, n)" by (cases key)
  let ?row = "\<lparr>coll_id = k, coll_database_id = i, coll_name = n\<rparr>"
  have row: "?row \<in> set (collection_rows s)" using assms(2) by (simp add: key coll_map_iff [OF assms(1)])
  then have "list_ex (\<lambda>c. coll_id c = k) (collection_rows s)" by (force simp: list_ex_iff)
  with assms(3) have s': "r = Inr ()" "s' = delete_collections_where (\<lambda>c. coll_id c = k) s"
    by (simp_all add: delete_collection_def delete_stmt_def)
  have ok': "rows_ok d s'" unfolding s' by (rule rows_ok_delete_collections_where [OF assms(1)])
  have gone: "coll_id ` {c \<in> set (collection_rows s). coll_id c = k} = {k}" using row by force
  have rows': "collection_rows s' = [c \<leftarrow> collection_rows s. coll_id c \<noteq> k]"
    "table_rows s' = [t \<leftarrow> table_rows s. tbl_collection_id t \<noteq> k]"
    by (simp_all only: s' delete_collections_frame gone singleton_iff simp_thms)
  have "coll_map s' = (coll_map s)(key := None)"
  proof (rule map_pair_eqI)
    fix a b c
    let ?r = "\<lparr>coll_id = c, coll_database_id = a, coll_name = b\<rparr>"
    have "c = k \<longleftrightarrow> a = i \<and> b = n" if "?r \<in> set (collection_rows s)"
      using that row inj_ids(2) [OF assms(1) that row]
        coll_map_iff [OF assms(1), of a b c] coll_map_iff [OF assms(1), of i n k] by auto
    then show "coll_map s' (a, b) = Some c \<longleftrightarrow> ((coll_map s)(key := None)) (a, b) = Some c"
      by (auto simp: key coll_map_iff [OF ok'] coll_map_iff [OF assms(1)] rows')
  qed
  moreover have "tbl_map s' = tbl_map s |` {x. fst x \<noteq> k}"
    by (rule map_pair_eqI)
      (auto simp: restrict_map_def tbl_map_iff [OF ok'] tbl_map_iff [OF assms(1)] rows')
  ultimately show ?thesis using s' ok' by (simp add: db_map_def delete_collections_frame)
qed

lemma delete_database_maps:
  assumes "rows_ok d s" and "db_map s c = Some i" and "delete_database d i s = (r, s')"
  shows "rows_ok d s' \<and> r = Inr () \<and> db_map s' = (db_map s)(c := None) \<and>
    coll_map s' = coll_map s |` {x. fst x \<noteq> i} \<and>
    tbl_map s' = tbl_map s |` {x. \<forall>n. coll_map s (i, n) \<noteq> Some (fst x)}"
proof -
  let ?row = "\<lparr>dbr_id = i, dbr_name = c\<rparr>"
  have row: "?row \<in> set (database_rows s)" using assms(2) by (simp add: db_map_iff [OF assms(1)])
  then have "list_ex (\<lambda>c. dbr_id c = i) (database_rows s)" by (force simp: list_ex_iff)
  with assms(3) have s': "r = Inr ()" "s' = delete_databases_where (\<lambda>c. dbr_id c = i) s"
    by (simp_all add: delete_database_def delete_stmt_def)
  have ok': "rows_ok d s'" unfolding s' by (rule rows_ok_delete_databases_where [OF assms(1)])
  have gone: "dbr_id ` {r \<in> set (database_rows s). dbr_id r = i} = {i}" using row by force
  have gone': "k \<in> coll_id ` {c \<in> set (collection_rows s). coll_database_id c = i} \<longleftrightarrow>
      (\<exists>n. coll_map s (i, n) = Some k)" for k
  proof
    assume "k \<in> coll_id ` {c \<in> set (collection_rows s). coll_database_id c = i}"
    then show "\<exists>n. coll_map s (i, n) = Some k" using name_row(2) [OF assms(1)] by auto
  qed (force simp: coll_map_iff [OF assms(1)])
  have rows': "database_rows s' = [r \<leftarrow> database_rows s. dbr_id r \<noteq> i]"
    "collection_rows s' = [c \<leftarrow> collection_rows s. coll_database_id c \<noteq> i]"
    "table_rows s' = [t \<leftarrow> table_rows s. \<forall>n. coll_map s (i, n) \<noteq> Some (tbl_collection_id t)]"
    by (simp_all only: s' delete_databases_frame gone singleton_iff gone' not_ex simp_thms)
  have "db_map s' = (db_map s)(c := None)"
  proof (rule map_eqI)
    fix a b
    let ?r = "\<lparr>dbr_id = b, dbr_name = a\<rparr>"
    have "b = i \<longleftrightarrow> a = c" if "?r \<in> set (database_rows s)"
      using that row inj_ids(1) [OF assms(1) that row]
        db_map_iff [OF assms(1), of a b] db_map_iff [OF assms(1), of c i] by auto
    then show "db_map s' a = Some b \<longleftrightarrow> ((db_map s)(c := None)) a = Some b"
      by (auto simp: db_map_iff [OF ok'] db_map_iff [OF assms(1)] rows')
  qed
  moreover have "coll_map s' = coll_map s |` {x. fst x \<noteq> i}"
    by (rule map_pair_eqI)
      (auto simp: restrict_map_def coll_map_iff [OF ok'] coll_map_iff [OF assms(1)] rows')
  moreover have "tbl_map s' = tbl_map s |` {x. \<forall>n. coll_map s (i, n) \<noteq> Some (fst x)}"
    by (rule map_pair_eqI)
      (auto simp: restrict_map_def tbl_map_iff [OF ok'] tbl_map_iff [OF assms(1)] rows')
  ultimately show ?thesis using s' ok' by simp
qed


subsection \<open>The interpretation\<close>

lemma default_repository_simps [simp]:
  "rp_get_database (default_repository d to_json encode) = get_database d"
  "rp_get_collection (default_repository d to_json encode) = get_collection d"
  "rp_get_table (default_repository d to_json encode) = get_table d"
  "rp_list_collections (default_repository d to_json encode) = list_collections d"
  "rp_create_database (default_repository d to_json encode) = create_database d"
  "rp_create_collection (default_repository d to_json encode) = create_collection d"
  "rp_create_table (default_repository d to_json encode) = create_table d to_json"
  "rp_rename_table (default_repository d to_json encode) = rename_table d"
  "rp_delete_table (default_repository d to_json encode) = delete_table d"
  "rp_delete_collection (default_repository d to_json encode) = delete_collection d"
  "rp_delete_database (default_repository d to_json encode) = delete_database d"
  "rp_create_new_version (default_repository d to_json encode) = create_new_version d"
  "rp_get_dropped_tables (default_repository d to_json encode) = get_dropped_tables d"
  "rp_update_dropped_table (default_repository d to_json encode) = update_dropped_table d encode"
  "rp_delete_dropped_table (default_repository d to_json encode) = delete_dropped_table d"
  by (simp_all add: default_repository_def)

interpretation store: repository_contract
  "default_repository d to_json encode" "rows_ok d" db_map coll_map tbl_map "good_schema to_json"
  for d to_json encode
proof (unfold_locales, goal_cases)
  case (1 s c i c')
  then show ?case
    using inj_ids(1) [OF 1(1), of "\<lparr>dbr_id = i, dbr_name = c\<rparr>" "\<lparr>dbr_id = i, dbr_name = c'\<rparr>"]
    by (simp add: db_map_iff [OF 1(1)])
next
  case (2 s key i key')
  obtain a b where k: "key = (a, b)" by (cases key)
  obtain a' b' where k': "key' = (a', b')" by (cases key')
  show ?case
    using 2 inj_ids(2) [OF 2(1), of "\<lparr>coll_id = i, coll_database_id = a, coll_name = b\<rparr>"
        "\<lparr>coll_id = i, coll_database_id = a', coll_name = b'\<rparr>"]
    by (simp add: k k' coll_map_iff [OF 2(1)])
next
  case (3 s i n k)
  then show ?case
    using refsD [OF rows_okD(7) [OF 3(1)]] name_row(1) [OF 3(1)] by (fastforce simp: coll_map_iff [OF 3(1)])
next
  case (4 s k t x)
  then show ?case
    using refsD [OF rows_okD(8) [OF 4(1)]] name_row(2) [OF 4(1)]
    by (cases x) (fastforce simp: tbl_map_iff [OF 4(1)])
next
  case (5 s c)
  then show ?case by (simp add: get_database_maps)
next
  case (6 s c n)
  then show ?case by (simp add: get_collection_maps)
next
  case (7 s c n t)
  then show ?case by (simp add: get_table_maps)
next
  case (8 s c r s')
  then show ?case by (intro create_database_maps) simp_all
next
  case (9 s c i n rc s')
  then show ?case by (intro create_collection_maps) simp_all
next
  case (10 s key k schema t u rt s')
  then show ?case by (intro create_table_maps) simp_all
next
  case (11 s k t x new k' t' ru s')
  then show ?case by (intro rename_table_maps) simp_all
next
  case (12 s k t x ru s')
  then show ?case by (intro delete_table_maps) simp_all
next
  case (13 s key k ru s')
  then show ?case by (intro delete_collection_maps) simp_all
next
  case (14 s c i ru s')
  then show ?case by (intro delete_database_maps) simp_all
qed

subsection \<open>Properties of the catalog\<close>

text \<open>
  C5: the catalog refines its specification on every sequence of commands that starts from an empty
  database, whatever the outcome of the commands: the results, errors included, are those of the
  specification, and so are the names that the rows of the final state stand for. The commands create
  and delete catalogs, schemas and tables and rename tables, also into another schema; the schema of
  a created table has distinct field names (see \<open>create_table_not_atomic\<close> for the others).
\<close>

theorem catalog_refines_spec:
  assumes "\<forall>cmd\<in>set cmds. command_ok (good_schema to_json) cmd"
    and "run_all (run_command (default_repository d to_json encode)) cmds (migrated_db now) = (rs, s')"
  shows "run_all catalog_spec cmds no_names = (rs, names_of (db_map s') (coll_map s') (tbl_map s'))"
proof -
  have "rows_ok d (migrated_db now)" using repo_ok_migrated [of d now] by (simp add: repo_ok_def)
  from store.refine_commands [OF this assms]
  have "run_all catalog_spec cmds (names_of (db_map (migrated_db now)) (coll_map (migrated_db now))
      (tbl_map (migrated_db now))) = (rs, names_of (db_map s') (coll_map s') (tbl_map s'))"
    by blast
  moreover have "names_of (db_map (migrated_db now)) (coll_map (migrated_db now))
      (tbl_map (migrated_db now)) = no_names"
    by (simp add: names_of_def db_map_def coll_map_def tbl_map_def migrated_db_def no_names_def fun_eq_iff)
  ultimately show ?thesis by simp
qed

definition example_commands :: "unit catalog_command list" where
  "example_commands = [Create_Catalog ''c'', Create_Schema ''c'' ''a'', Create_Schema ''c'' ''b'',
     Create_Table ''c'' ''a'' ''t'' [(''x'', ())] 1, Create_Table ''c'' ''b'' ''t'' [] 2,
     Rename_Table ''c'' ''a'' ''t'' ''b'' ''t'', Delete_Schema ''c'' ''b'',
     Rename_Table ''c'' ''a'' ''t'' ''b'' ''t'', Delete_Table ''c'' ''b'' ''t'']"

theorem catalog_refines_spec_witness:
  "fst (run_all (run_command (default_repository Postgres no_json (\<lambda>_. ''RETRY''))) example_commands
     (migrated_db 0)) =
   [Inr (), Inr (), Inr (), Inr (), Inr (), Inl (TableAlreadyExists ''t''), Inr (),
    Inl (SchemaDoesNotExist ''b''), Inl (TableDoesNotExist ''t'')]"
proof -
  let ?r = "run_all (run_command (default_repository Postgres no_json (\<lambda>_. ''RETRY''))) example_commands
     (migrated_db 0)"
  have "\<forall>cmd\<in>set example_commands. command_ok (good_schema no_json) cmd"
    by (simp add: example_commands_def good_schema_def schema_fields_def no_json_def)
  from catalog_refines_spec [OF this, of Postgres "\<lambda>_. ''RETRY''" 0 "fst ?r" "snd ?r"]
  have "fst ?r = fst (run_all catalog_spec example_commands no_names)" by simp
  also have "\<dots> = [Inr (), Inr (), Inr (), Inr (), Inr (), Inl (TableAlreadyExists ''t''), Inr (),
    Inl (SchemaDoesNotExist ''b''), Inl (TableDoesNotExist ''t'')]"
    by (simp add: example_commands_def no_names_def STAGING_SCHEMA_def restrict_map_def)
  finally show ?thesis .
qed

end
