(* ===== verification/FunctionStore.thy ===== *)
theory FunctionStore
  imports CatalogStore
begin

text \<open>
  User-defined functions: their details (\<open>src/wasm_udf/data_types.rs\<close>), the columns they are stored in
  (\<open>create_function\<close> of \<open>src/repository/default.rs\<close>) and how \<open>Metastore::build_functions\<close>
  (\<open>src/catalog/metastore.rs\<close>) reads them back before every statement. The theorem is the round trip: what
  was created through the catalog is loaded again, except for the parameters of a decimal return type.
\<close>

subsection \<open>Details of a function\<close>

datatype CreateFunctionDataType =
    I32 | I64 | F32 | F64 | SMALLINT | INT_T | BIGINT | CHAR_T | VARCHAR | TEXT
  | DECIMAL (precision: "8 word") (scale: "8 word")
  | FLOAT | REAL | DOUBLE | BOOLEAN | DATE | TIMESTAMP

datatype CreateFunctionVolatility = Immutable | Stable | Volatile

datatype CreateFunctionLanguage = Wasm | WasmMessagePack

record CreateFunctionDetails =
  fd_entrypoint :: string
  fd_language :: CreateFunctionLanguage
  fd_input_types :: "CreateFunctionDataType list"
  fd_return_type :: CreateFunctionDataType
  fd_data :: string
  fd_volatility :: CreateFunctionVolatility

text \<open>
  \<open>Display\<close> and \<open>EnumString\<close> write and read the name of the variant. The fields of a variant are not
  written, and a variant that is read gets their defaults.
\<close>

fun data_type_to_string :: "CreateFunctionDataType \<Rightarrow> string" where
  "data_type_to_string I32 = ''I32''"
| "data_type_to_string I64 = ''I64''"
| "data_type_to_string F32 = ''F32''"
| "data_type_to_string F64 = ''F64''"
| "data_type_to_string SMALLINT = ''SMALLINT''"
| "data_type_to_string INT_T = ''INT''"
| "data_type_to_string BIGINT = ''BIGINT''"
| "data_type_to_string CHAR_T = ''CHAR''"
| "data_type_to_string VARCHAR = ''VARCHAR''"
| "data_type_to_string TEXT = ''TEXT''"
| "data_type_to_string (DECIMAL _ _) = ''DECIMAL''"
| "data_type_to_string FLOAT = ''FLOAT''"
| "data_type_to_string REAL = ''REAL''"
| "data_type_to_string DOUBLE = ''DOUBLE''"
| "data_type_to_string BOOLEAN = ''BOOLEAN''"
| "data_type_to_string DATE = ''DATE''"
| "data_type_to_string TIMESTAMP = ''TIMESTAMP''"

definition data_type_variants :: "CreateFunctionDataType list" where
  "data_type_variants =
     [I32, I64, F32, F64, SMALLINT, INT_T, BIGINT, CHAR_T, VARCHAR, TEXT, DECIMAL 0 0, FLOAT, REAL, DOUBLE,
      BOOLEAN, DATE, TIMESTAMP]"

definition data_type_from_str :: "string \<Rightarrow> CreateFunctionDataType option" where
  "data_type_from_str s = find (\<lambda>t. data_type_to_string t = s) data_type_variants"

fun volatility_to_string :: "CreateFunctionVolatility \<Rightarrow> string" where
  "volatility_to_string Immutable = ''Immutable''"
| "volatility_to_string Stable = ''Stable''"
| "volatility_to_string Volatile = ''Volatile''"

definition volatility_from_str :: "string \<Rightarrow> CreateFunctionVolatility option" where
  "volatility_from_str s = find (\<lambda>v. volatility_to_string v = s) [Immutable, Stable, Volatile]"

fun language_to_string :: "CreateFunctionLanguage \<Rightarrow> string" where
  "language_to_string Wasm = ''Wasm''"
| "language_to_string WasmMessagePack = ''WasmMessagePack''"

definition language_from_str :: "string \<Rightarrow> CreateFunctionLanguage option" where
  "language_from_str s = find (\<lambda>l. language_to_string l = s) [Wasm, WasmMessagePack]"

text \<open>Data types in the JSON of \<open>CREATE FUNCTION\<close>; \<open>next_element\<close> may fail on any element.\<close>

definition parse_create_function_data_type :: "string \<Rightarrow> CreateFunctionDataType option" where
  "parse_create_function_data_type raw = data_type_from_str (to_ascii_uppercase raw)"

fun visit_seq :: "(string, string) result list \<Rightarrow> CreateFunctionDataType list \<Rightarrow>
    (string, CreateFunctionDataType list) result" where
  "visit_seq [] new_obj = Inr new_obj"
| "visit_seq (Inl e # seq) new_obj = Inl e"
| "visit_seq (Inr key # seq) new_obj = (case parse_create_function_data_type key of
     Some dt \<Rightarrow> visit_seq seq (new_obj @ [dt])
   | None \<Rightarrow> Inl (''couldn't decode '' @ key))"

definition deserialize_datatype :: "(string, string) result \<Rightarrow> (string, CreateFunctionDataType) result" where
  "deserialize_datatype d = bind_res d (\<lambda>s.
     ok_or (''unsupported data type: '' @ s) (parse_create_function_data_type s))"

text \<open>The types of WebAssembly that the language \<open>wasm\<close> supports.\<close>

datatype ValType = V_I32 | V_I64 | V_F32 | V_F64

fun get_wasm_type :: "CreateFunctionDataType \<Rightarrow> (string, ValType) result" where
  "get_wasm_type I32 = Inr V_I32"
| "get_wasm_type I64 = Inr V_I64"
| "get_wasm_type F32 = Inr V_F32"
| "get_wasm_type F64 = Inr V_F64"
| "get_wasm_type INT_T = Inr V_I32"
| "get_wasm_type BIGINT = Inr V_I64"
| "get_wasm_type FLOAT = Inr V_F32"
| "get_wasm_type REAL = Inr V_F32"
| "get_wasm_type DOUBLE = Inr V_F64"
| "get_wasm_type e = Inl (''UDFs with language 'wasm' do not support data type '' @ data_type_to_string e)"


subsection \<open>Storing and loading\<close>

text \<open>The JSON text of a list of data types is serde's: a pair of functions.\<close>

record types_json =
  json_of_types :: "CreateFunctionDataType list \<Rightarrow> string"
  types_of_json :: "string \<Rightarrow> (string, CreateFunctionDataType list) result"

definition columns_of_details :: "types_json \<Rightarrow> CreateFunctionDetails \<Rightarrow> function_columns" where
  "columns_of_details J details =
     \<lparr>fc_entrypoint = fd_entrypoint details, fc_language = language_to_string (fd_language details),
      fc_input_types = json_of_types J (fd_input_types details),
      fc_return_type = data_type_to_string (fd_return_type details), fc_data = fd_data details,
      fc_volatility = volatility_to_string (fd_volatility details)\<rparr>"

definition parse_create_function_details ::
    "types_json \<Rightarrow> string \<Rightarrow> function_row \<Rightarrow> (string, CreateFunctionDetails) result" where
  "parse_create_function_details J parse_error item =
     bind_res (ok_or parse_error (language_from_str (fn_language item))) (\<lambda>language.
     bind_res (types_of_json J (fn_input_types item)) (\<lambda>input_types.
     bind_res (ok_or parse_error (data_type_from_str (to_ascii_uppercase (fn_return_type item)))) (\<lambda>return_type.
     bind_res (ok_or parse_error (volatility_from_str (fn_volatility item))) (\<lambda>volatility.
       Inr \<lparr>fd_entrypoint = fn_entrypoint item, fd_language = language, fd_input_types = input_types,
            fd_return_type = return_type, fd_data = fn_data item, fd_volatility = volatility\<rparr>))))"

record SeafowlFunction =
  function_id :: int
  function_name :: string
  function_details :: CreateFunctionDetails

definition build_functions ::
    "types_json \<Rightarrow> string \<Rightarrow> ('s, 'f) repository \<Rightarrow> string \<Rightarrow> ('s, catalog_error, SeafowlFunction list) st" where
  "build_functions J parse_error R catalog_name =
     bind_st (function_list R catalog_name) (\<lambda>functions.
     lift_res (collect_res (\<lambda>item. map_err FunctionDeserializationError
       (bind_res (parse_create_function_details J parse_error item) (\<lambda>details.
          Inr \<lparr>function_id = fn_id item, function_name = fn_name item, function_details = details\<rparr>))) functions))"

text \<open>\<open>FunctionStore::create\<close> of the details of a function.\<close>

definition create_function ::
    "types_json \<Rightarrow> ('s, 'f) repository \<Rightarrow> string \<Rightarrow> string \<Rightarrow> bool \<Rightarrow> CreateFunctionDetails \<Rightarrow>
      ('s, catalog_error, unit) st" where
  "create_function J R catalog_name name or_replace details =
     function_create R catalog_name name or_replace (columns_of_details J details)"

subsection \<open>The round trip\<close>

definition stored_type :: "CreateFunctionDataType \<Rightarrow> CreateFunctionDataType" where
  "stored_type t = (case t of DECIMAL _ _ \<Rightarrow> DECIMAL 0 0 | _ \<Rightarrow> t)"

lemma data_type_round_trip:
  "data_type_from_str (to_ascii_uppercase (data_type_to_string t)) = Some (stored_type t)"
  by (cases t) (simp_all add: data_type_from_str_def data_type_variants_def upper_char_def stored_type_def)

lemma volatility_round_trip [simp]: "volatility_from_str (volatility_to_string v) = Some v"
  by (cases v) (simp_all add: volatility_from_str_def)

lemma language_round_trip [simp]: "language_from_str (language_to_string l) = Some l"
  by (cases l) (simp_all add: language_from_str_def)

definition stored_details :: "CreateFunctionDetails \<Rightarrow> CreateFunctionDetails" where
  "stored_details details = details\<lparr>fd_return_type := stored_type (fd_return_type details)\<rparr>"

lemma parse_stored_details:
  assumes "\<And>ts. types_of_json J (json_of_types J ts) = Inr ts"
  shows "parse_create_function_details J err (function_row_of i database_id name (columns_of_details J details)) =
    Inr (stored_details details)"
  using assms
  by (simp add: parse_create_function_details_def function_row_of_def columns_of_details_def ok_or_def
      data_type_round_trip stored_details_def)

lemma create_function_columns_rows:
  assumes "create_function_columns d did name or_replace c s = (Inr i, s')"
  shows "db_databases s' = db_databases s"
    and "(\<exists>k. (did, name) \<notin> fn_key ` set (function_rows s) \<and>
           function_rows s' = function_rows s @ [function_row_of k did name c]) \<or>
         (did, name) \<in> fn_key ` set (function_rows s) \<and>
           function_rows s' = map (\<lambda>r. if fn_key r = (did, name) then function_row_of (fn_id r) did name c else r)
             (function_rows s)"
  using assms
  by (auto simp: create_function_columns_def insert_defs update_rows_def take_id_def find_None_iff
      image_iff conj_commute split: option.splits if_splits dialect.splits dest!: find_SomeD)

text \<open>The functions of a catalog by their names, as \<open>build_functions\<close> returns them.\<close>

definition loaded :: "SeafowlFunction list \<Rightarrow> string \<Rightarrow> CreateFunctionDetails option" where
  "loaded fs = map_of (map (\<lambda>f. (function_name f, function_details f)) fs)"

definition load_function :: "types_json \<Rightarrow> string \<Rightarrow> function_row \<Rightarrow> (catalog_error, SeafowlFunction) result" where
  "load_function J err item = map_err FunctionDeserializationError
     (bind_res (parse_create_function_details J err item) (\<lambda>details.
        Inr \<lparr>function_id = fn_id item, function_name = fn_name item, function_details = details\<rparr>))"

lemma function_methods [simp]:
  "rp_get_all_functions_in_database (default_repository d to_json encode) = get_all_functions_in_database d"
  "rp_create_function (default_repository d to_json encode) = create_function_columns d"
  by (simp_all add: default_repository_def)

lemma build_functions_rows:
  assumes "rows_ok d s"
  shows "build_functions J err (default_repository d to_json encode) c s =
    (case db_map s c of
       None \<Rightarrow> (Inl (CatalogDoesNotExist c), s)
     | Some did \<Rightarrow> (collect_res (load_function J err) [f \<leftarrow> function_rows s. fn_database_id f = did], s))"
  using store.catalog_get_eq [OF assms, of to_json encode c]
  by (simp add: build_functions_def function_list_def bind_st_def map_err_st_def
      get_all_functions_in_database_def load_function_def [abs_def] split: option.splits)

lemma create_function_rows:
  assumes ok: "rows_ok d s"
    and "create_function J (default_repository d to_json encode) c name or_replace details s = (Inr u, s')"
  obtains did i where "db_map s c = Some did"
    and "create_function_columns d did name or_replace (columns_of_details J details) s = (Inr i, s')"
  using assms(2) store.catalog_get_eq [OF ok, of to_json encode c]
  by (cases "create_function_columns d (the (db_map s c)) name or_replace (columns_of_details J details) s")
    (auto simp: create_function_def function_create_def res_simps map_err_st_def split: option.splits prod.splits)

lemma load_new_row:
  assumes "\<And>ts. types_of_json J (json_of_types J ts) = Inr ts"
  shows "load_function J err (function_row_of k did name (columns_of_details J details)) =
    Inr \<lparr>function_id = k, function_name = name, function_details = stored_details details\<rparr>"
  unfolding load_function_def parse_stored_details [OF assms] by (simp add: function_row_of_def)

lemma loaded_append: "name \<notin> function_name ` set fs \<Longrightarrow>
    loaded (fs @ [\<lparr>function_id = k, function_name = name, function_details = x\<rparr>]) = (loaded fs)(name \<mapsto> x)"
  by (induction fs) (auto simp: loaded_def fun_eq_iff)

lemma load_function_name: "load_function J err r = Inr f \<Longrightarrow> function_name f = fn_name r \<and> function_id f = fn_id r"
  by (cases "parse_create_function_details J err r") (auto simp: load_function_def)

lemma loaded_names:
  "list_all2 (\<lambda>r f. load_function J err r = Inr f) rs fs \<Longrightarrow> map function_name fs = map fn_name rs"
  by (induction rule: list_all2_induct) (auto dest: load_function_name)

lemma loaded_replace:
  assumes "list_all2 (\<lambda>r f. load_function J err r = Inr f) rs fs" and "distinct (map fn_name rs)"
    and "name \<in> fn_name ` set rs"
    and json: "\<And>ts. types_of_json J (json_of_types J ts) = Inr ts"
  shows "\<exists>fs'. list_all2 (\<lambda>r f. load_function J err r = Inr f)
      (map (\<lambda>r. if fn_name r = name then function_row_of (fn_id r) did name (columns_of_details J details) else r) rs) fs' \<and>
    loaded fs' = (loaded fs)(name \<mapsto> stored_details details)"
  using assms(1-3)
proof (induction rule: list_all2_induct)
  case (Cons r rs f fs)
  let ?new = "\<lparr>function_id = fn_id r, function_name = name, function_details = stored_details details\<rparr>"
  note names = load_function_name [OF Cons.hyps(1)]
  show ?case
  proof (cases "fn_name r = name")
    case True
    then have "map (\<lambda>r. if fn_name r = name then function_row_of (fn_id r) did name (columns_of_details J details) else r) rs = rs"
      using Cons.prems(1) by (intro map_idI) (metis distinct.simps(2) image_eqI list.set_map list.simps(9))
    with True Cons.hyps names show ?thesis
      by (intro exI [of _ "?new # fs"]) (auto simp: load_new_row [OF json] loaded_def fun_eq_iff)
  next
    case False
    with Cons.prems have "distinct (map fn_name rs)" "name \<in> fn_name ` set rs" by auto
    from Cons.IH [OF this] obtain fs' where "list_all2 (\<lambda>r f. load_function J err r = Inr f)
      (map (\<lambda>r. if fn_name r = name then function_row_of (fn_id r) did name (columns_of_details J details) else r) rs) fs'"
      "loaded fs' = (loaded fs)(name \<mapsto> stored_details details)"
      by blast
    with False Cons.hyps names show ?thesis
      by (intro exI [of _ "f # fs'"]) (auto simp: loaded_def)
  qed
qed simp

lemma filter_replace_rows:
  "[f \<leftarrow> map (\<lambda>r. if fn_key r = (did, name) then function_row_of (fn_id r) did name c else r) rs. fn_database_id f = did] =
    map (\<lambda>r. if fn_name r = name then function_row_of (fn_id r) did name c else r) [f \<leftarrow> rs. fn_database_id f = did]"
  by (induction rs) (auto simp: fn_key_def function_row_of_def)

lemma distinct_function_names:
  assumes "rows_ok d s"
  shows "distinct (map fn_name [f \<leftarrow> function_rows s. fn_database_id f = did])"
proof -
  have "distinct (map fn_key (function_rows s))"
    using rows_okD(6) [OF assms] by (simp add: table_ok_def)
  then show ?thesis
    by (induction "function_rows s") (auto simp: distinct_map inj_on_def fn_key_def)
qed

text \<open>
  C36: a created function is loaded again. When the functions of a catalog can be loaded and \<open>create\<close> stores a
  function in it, new or replacing one of the same name, then the functions can be loaded afterwards too:
  the function has the details it was created with, up to the precision and scale of a decimal return
  type, which are not stored, and every other function of the catalog is as it was.
\<close>
theorem created_function_is_loaded:
  assumes reach: "repo_reachable d to_json s"
    and json: "\<And>ts. types_of_json J (json_of_types J ts) = Inr ts"
    and before: "build_functions J err (default_repository d to_json encode) c s = (Inr fs, s)"
    and create: "create_function J (default_repository d to_json encode) c name or_replace details s = (Inr (), s')"
  shows "\<exists>fs'. build_functions J err (default_repository d to_json encode) c s' = (Inr fs', s') \<and>
    loaded fs' = (loaded fs)(name \<mapsto> details\<lparr>fd_return_type :=
      (case fd_return_type details of DECIMAL _ _ \<Rightarrow> DECIMAL 0 0 | _ \<Rightarrow> fd_return_type details)\<rparr>)"
proof -
  have ok: "rows_ok d s" using repo_ok_reachable [OF reach] by (simp add: repo_ok_def)
  from create_function_rows [OF ok create] obtain did i where did: "db_map s c = Some did"
    and cols: "create_function_columns d did name or_replace (columns_of_details J details) s = (Inr i, s')" .
  note rows = create_function_columns_rows [OF cols]
  have ok': "rows_ok d s'" using rows_ok_create_function [OF ok, of did name or_replace] cols by (metis snd_conv)
  have did': "db_map s' c = Some did" using did rows(1) by (simp add: db_map_def)
  let ?fns = "\<lambda>s. [f \<leftarrow> function_rows s. fn_database_id f = did]"
  have fs: "list_all2 (\<lambda>r f. load_function J err r = Inr f) (?fns s) fs"
    using before by (simp add: build_functions_rows [OF ok] did collect_res_Inr_iff)
  have "\<exists>fs'. list_all2 (\<lambda>r f. load_function J err r = Inr f) (?fns s') fs' \<and>
      loaded fs' = (loaded fs)(name \<mapsto> stored_details details)"
    using rows(2)
  proof (elim disjE exE conjE)
    fix k
    assume new: "(did, name) \<notin> fn_key ` set (function_rows s)"
      "function_rows s' = function_rows s @ [function_row_of k did name (columns_of_details J details)]"
    have "name \<notin> set (map function_name fs)"
      unfolding loaded_names [OF fs] using new(1) by (auto simp: fn_key_def image_iff)
    then have "name \<notin> function_name ` set fs" by simp
    moreover have "fn_database_id (function_row_of k did name (columns_of_details J details)) = did"
      by (simp add: function_row_of_def)
    ultimately show ?thesis
      using fs new(2) loaded_append [of name fs k "stored_details details"]
      by (intro exI [of _ "fs @ [\<lparr>function_id = k, function_name = name, function_details = stored_details details\<rparr>]"])
        (simp add: load_new_row [OF json] list_all2_appendI)
  next
    assume old: "(did, name) \<in> fn_key ` set (function_rows s)"
      and upd: "function_rows s' = map (\<lambda>r. if fn_key r = (did, name)
        then function_row_of (fn_id r) did name (columns_of_details J details) else r) (function_rows s)"
    have "?fns s' = map (\<lambda>r. if fn_name r = name
        then function_row_of (fn_id r) did name (columns_of_details J details) else r) (?fns s)"
      unfolding upd by (rule filter_replace_rows)
    with loaded_replace [OF fs distinct_function_names [OF ok] _ json] old show ?thesis
      by (force simp: fn_key_def)
  qed
  then show ?thesis
    by (auto simp: build_functions_rows [OF ok'] did' collect_res_Inr_iff stored_details_def stored_type_def)
qed

text \<open>A compact encoding of the types that is read back exactly.\<close>

definition code_of_type :: "CreateFunctionDataType \<Rightarrow> string" where
  "code_of_type t = (case t of
     DECIMAL p q \<Rightarrow> [CHR ''#'', char_of (unat p), char_of (unat q)]
   | _ \<Rightarrow> (case data_type_to_string t of c # d # e # _ \<Rightarrow> [c, d, e] | cs \<Rightarrow> cs))"

fun types_of_codes :: "string \<Rightarrow> (string, CreateFunctionDataType list) result" where
  "types_of_codes [] = Inr []"
| "types_of_codes (c # p # q # cs) = bind_res (types_of_codes cs) (\<lambda>ts.
     if c = CHR ''#'' then Inr (DECIMAL (of_nat (of_char p)) (of_nat (of_char q)) # ts)
     else (case find (\<lambda>t. code_of_type t = [c, p, q]) data_type_variants of
       None \<Rightarrow> Inl ''unknown type'' | Some t \<Rightarrow> Inr (t # ts)))"
| "types_of_codes _ = Inl ''truncated''"

definition codes_json :: types_json where
  "codes_json = \<lparr>json_of_types = (\<lambda>ts. concat (map code_of_type ts)), types_of_json = types_of_codes\<rparr>"

lemma codes_json_round_trip: "types_of_json codes_json (json_of_types codes_json ts) = Inr ts"
proof -
  have byte: "word_of_nat (unat p mod 256) = p" for p :: "8 word"
    using unsigned_less [of p, where ?'a = nat] by simp
  have "types_of_codes (concat (map code_of_type ts)) = Inr ts"
  proof (induction ts)
    case (Cons t ts)
    then show ?case
      by (cases t) (simp_all add: code_of_type_def data_type_variants_def byte)
  qed simp
  then show ?thesis by (simp add: codes_json_def)
qed

lemma created_function_is_loaded_witness:
  "let details = \<lparr>fd_entrypoint = ''run'', fd_language = Wasm, fd_input_types = [INT_T, DECIMAL 9 2],
         fd_return_type = DECIMAL 9 2, fd_data = ''AGFz'', fd_volatility = Stable\<rparr>;
       R = default_repository SQLite no_json (\<lambda>_. ''RETRY'');
       s' = snd (create_function codes_json R ''default'' ''f'' False details (example_db SQLite)) in
   (\<exists>fs'. build_functions codes_json ''e'' R ''default'' s' = (Inr fs', s') \<and>
     loaded fs' ''f'' = Some (details\<lparr>fd_return_type := DECIMAL 0 0\<rparr>))"
proof -
  let ?details = "\<lparr>fd_entrypoint = ''run'', fd_language = Wasm, fd_input_types = [INT_T, DECIMAL 9 2],
         fd_return_type = DECIMAL 9 2, fd_data = ''AGFz'', fd_volatility = Stable\<rparr>"
  let ?R = "default_repository SQLite no_json (\<lambda>_. ''RETRY'')"
  let ?r = "create_function codes_json ?R ''default'' ''f'' False ?details (example_db SQLite)"
  have "fst ?r = Inr ()" by code_simp
  then have create: "?r = (Inr (), snd ?r)" by (metis prod.collapse)
  have before: "build_functions codes_json ''e'' ?R ''default'' (example_db SQLite) = (Inr [], example_db SQLite)"
    by code_simp
  from created_function_is_loaded [OF example_db_reachable codes_json_round_trip before create]
  show ?thesis by (auto simp: Let_def)
qed

end
