(* ===== verification/CatalogList.thy ===== *)
theory CatalogList
  imports CatalogStore
begin

text \<open>
  What \<open>SchemaStore::list\<close> returns over the repository, and the garbage collection of dropped tables.
  The listing groups consecutive rows of a join, so it relies on the order in which the query returns
  them: the lemmas on \<open>chunk_by\<close> say when runs of equal keys are all the elements of the key.
\<close>


subsection \<open>Runs of consecutive elements\<close>

lemma chunk_by_Cons_hd: "\<exists>ys rest. chunk_by f (x # xs) = (f x, x # ys) # rest"
  by (auto split: list.splits prod.splits)

lemma chunk_by_keys: "fst ` set (chunk_by f xs) = f ` set xs"
proof (induction xs)
  case (Cons x xs)
  show ?case
  proof (cases "chunk_by f xs")
    case Nil
    with Cons.IH show ?thesis by simp
  next
    case (Cons e rest)
    with Cons.IH show ?thesis by (cases e) auto
  qed
qed simp

lemma chunk_by_sorted:
  fixes g :: "'a \<Rightarrow> 'k::linorder"
  assumes "sorted (map g xs)" and "\<And>x y. x \<in> set xs \<Longrightarrow> y \<in> set xs \<Longrightarrow> f x = f y \<longleftrightarrow> g x = g y"
  shows "distinct (map fst (chunk_by f xs)) \<and>
    (\<forall>(k, c)\<in>set (chunk_by f xs). c = filter (\<lambda>x. f x = k) xs)"
  using assms
proof (induction xs)
  case (Cons x xs)
  have IH: "distinct (map fst (chunk_by f xs))"
    "\<forall>(k, c)\<in>set (chunk_by f xs). c = filter (\<lambda>x. f x = k) xs"
    using Cons.IH Cons.prems by auto
  show ?case
  proof (cases xs)
    case Nil
    then show ?thesis by simp
  next
    case (Cons y ys)
    obtain zs rest where ch: "chunk_by f xs = (f y, y # zs) # rest"
      using chunk_by_Cons_hd [of f y ys] Cons by auto
    have keys: "fst ` set (chunk_by f xs) = f ` set xs" by (rule chunk_by_keys)
    show ?thesis
    proof (cases "f x = f y")
      case True
      moreover have "f y \<notin> fst ` set rest" using IH(1) ch by simp
      ultimately show ?thesis using IH ch by force
    next
      case False
      have "f x \<noteq> f z" if "z \<in> set xs" for z
      proof
        assume "f x = f z"
        then have "g x = g z" using Cons.prems(2) that by simp
        moreover have "g x \<le> g y" "g y \<le> g z" using Cons.prems(1) that Cons by auto
        ultimately have "g x = g y" by simp
        then show False using Cons.prems(2) [of x y] False Cons by simp
      qed
      then have fx: "f x \<notin> f ` set xs" by blast
      then have "filter (\<lambda>z. f z = f x) xs = []" by (metis (mono_tags, lifting) filter_False image_eqI)
      moreover have "c = filter (\<lambda>z. f z = k) (x # xs)" if "(k, c) \<in> set (chunk_by f xs)" for k c
      proof -
        have "k \<in> f ` set xs" using that keys by force
        with fx IH(2) that show ?thesis by auto
      qed
      ultimately show ?thesis
        using False ch IH fx keys by auto
    qed
  qed
qed simp

subsection \<open>The rows of the listing\<close>

definition listing_rows :: "dialect \<Rightarrow> string \<Rightarrow> repo_db \<Rightarrow> all_database_columns_result list" where
  "listing_rows d dn s = sort_key column_order
     [r. db \<leftarrow> database_rows s, c \<leftarrow> collection_rows s, dbr_id db = coll_database_id c,
         t_opt \<leftarrow> left_join [t \<leftarrow> table_rows s. coll_id c = tbl_collection_id t],
         r \<leftarrow> column_join_rows d s (dbr_name db) (coll_name c) t_opt,
         dbr_name db = dn]"

lemma list_collections_eq: "list_collections d dn s = (Inr (listing_rows d dn s), s)"
  by (simp add: list_collections_def listing_rows_def)

lemma left_join_nonempty [simp]: "left_join rs \<noteq> []"
  by (simp add: left_join_def)

lemma column_join_rows_set:
  "r \<in> set (column_join_rows d s dn cn t_opt) \<Longrightarrow>
     adc_collection_name r = cn \<and> adc_table_name r = map_option tbl_name t_opt \<and>
     adc_table_uuid r = map_option tbl_uuid t_opt"
  by (auto simp: column_join_rows_def Let_def)

lemma column_join_rows_nonempty: "\<exists>r. r \<in> set (column_join_rows d s dn cn t_opt)"
proof -
  have "column_join_rows d s dn cn t_opt \<noteq> []" by (simp add: column_join_rows_def Let_def)
  then show ?thesis by (meson list.set_sel(1))
qed

text \<open>The join pairs every collection of the database with its tables, or with none if it has none.\<close>

definition listed :: "repo_db \<Rightarrow> string \<Rightarrow> string \<Rightarrow> table_row option \<Rightarrow> bool" where
  "listed s dn n t_opt \<longleftrightarrow> (\<exists>db\<in>set (database_rows s). \<exists>c\<in>set (collection_rows s).
     dbr_name db = dn \<and> coll_database_id c = dbr_id db \<and> coll_name c = n \<and>
     t_opt \<in> set (left_join [t \<leftarrow> table_rows s. coll_id c = tbl_collection_id t]))"

lemma listing_rows_set:
  "r \<in> set (listing_rows d dn s) \<longleftrightarrow>
     (\<exists>n t_opt. listed s dn n t_opt \<and> r \<in> set (column_join_rows d s dn n t_opt))"
proof
  assume "r \<in> set (listing_rows d dn s)"
  then obtain db c t_opt where "db \<in> set (database_rows s)" "c \<in> set (collection_rows s)"
    "dbr_id db = coll_database_id c" "dbr_name db = dn"
    "t_opt \<in> set (left_join [t \<leftarrow> table_rows s. coll_id c = tbl_collection_id t])"
    "r \<in> set (column_join_rows d s dn (coll_name c) t_opt)"
    by (auto simp: listing_rows_def split: if_splits)
  then show "\<exists>n t_opt. listed s dn n t_opt \<and> r \<in> set (column_join_rows d s dn n t_opt)"
    unfolding listed_def by metis
next
  assume "\<exists>n t_opt. listed s dn n t_opt \<and> r \<in> set (column_join_rows d s dn n t_opt)"
  then obtain db c t_opt where rows: "db \<in> set (database_rows s)" "c \<in> set (collection_rows s)"
    "dbr_id db = coll_database_id c" "dbr_name db = dn"
    "t_opt \<in> set (left_join [t \<leftarrow> table_rows s. coll_id c = tbl_collection_id t])"
    "r \<in> set (column_join_rows d s (dbr_name db) (coll_name c) t_opt)"
    unfolding listed_def by metis
  show "r \<in> set (listing_rows d dn s)"
    using rows by (auto simp: listing_rows_def intro!: bexI [of _ db] bexI [of _ c] bexI [of _ t_opt])
qed

lemma listed_collection:
  assumes "rows_ok d s"
  shows "(\<exists>t_opt. listed s dn n t_opt) \<longleftrightarrow> (dn, n) \<in> nm_schemas (names_of (db_map s) (coll_map s) (tbl_map s))"
proof
  assume "\<exists>t_opt. listed s dn n t_opt"
  then obtain db c where "db \<in> set (database_rows s)" "c \<in> set (collection_rows s)"
    "dbr_name db = dn" "coll_database_id c = dbr_id db" "coll_name c = n"
    by (auto simp: listed_def)
  with name_row(1,2) [OF assms] show "(dn, n) \<in> nm_schemas (names_of (db_map s) (coll_map s) (tbl_map s))"
    by (force simp: names_of_def)
next
  assume "(dn, n) \<in> nm_schemas (names_of (db_map s) (coll_map s) (tbl_map s))"
  then obtain i k where ik: "\<lparr>dbr_id = i, dbr_name = dn\<rparr> \<in> set (database_rows s)"
    "\<lparr>coll_id = k, coll_database_id = i, coll_name = n\<rparr> \<in> set (collection_rows s)"
    by (auto simp: names_of_def db_map_iff [OF assms] coll_map_iff [OF assms])
  obtain t_opt where "t_opt \<in> set (left_join [t \<leftarrow> table_rows s. k = tbl_collection_id t])"
    using left_join_nonempty by (meson list.set_sel(1))
  with ik show "\<exists>t_opt. listed s dn n t_opt"
    unfolding listed_def by (intro exI [of _ t_opt] bexI [OF _ ik(1)] bexI [OF _ ik(2)]) simp_all
qed

lemma listed_table:
  assumes "rows_ok d s"
  shows "(\<exists>t. listed s dn n (Some t) \<and> tbl_name t = tn \<and> tbl_uuid t = u) \<longleftrightarrow>
    nm_tables (names_of (db_map s) (coll_map s) (tbl_map s)) (dn, n, tn) = Some u"
proof
  assume "\<exists>t. listed s dn n (Some t) \<and> tbl_name t = tn \<and> tbl_uuid t = u"
  then obtain db c t where "db \<in> set (database_rows s)" "c \<in> set (collection_rows s)"
    "dbr_name db = dn" "coll_database_id c = dbr_id db" "coll_name c = n"
    "t \<in> set (table_rows s)" "coll_id c = tbl_collection_id t" "tbl_name t = tn" "tbl_uuid t = u"
    by (auto simp: listed_def left_join_def split: if_splits)
  with name_row(1) [OF assms, of db] name_row(2) [OF assms, of c] name_row(3) [OF assms, of t]
  show "nm_tables (names_of (db_map s) (coll_map s) (tbl_map s)) (dn, n, tn) = Some u"
    by (simp add: names_of_def)
next
  assume "nm_tables (names_of (db_map s) (coll_map s) (tbl_map s)) (dn, n, tn) = Some u"
  then obtain i k j where ik: "\<lparr>dbr_id = i, dbr_name = dn\<rparr> \<in> set (database_rows s)"
    "\<lparr>coll_id = k, coll_database_id = i, coll_name = n\<rparr> \<in> set (collection_rows s)"
    "\<lparr>tbl_id = j, tbl_collection_id = k, tbl_name = tn, tbl_uuid = u\<rparr> \<in> set (table_rows s)"
    by (auto simp: names_of_def db_map_iff [OF assms] coll_map_iff [OF assms] tbl_map_iff [OF assms]
        split: option.splits)
  let ?t = "\<lparr>tbl_id = j, tbl_collection_id = k, tbl_name = tn, tbl_uuid = u\<rparr>"
  have "Some ?t \<in> set (left_join [t \<leftarrow> table_rows s. k = tbl_collection_id t])"
    using ik(3) by (force simp: left_join_def filter_empty_conv)
  then have "listed s dn n (Some ?t)"
    unfolding listed_def by (intro bexI [OF _ ik(1)] bexI [OF _ ik(2)]) simp_all
  then show "\<exists>t. listed s dn n (Some t) \<and> tbl_name t = tn \<and> tbl_uuid t = u" by force
qed

text \<open>Within a collection the name of a table determines the row, and an empty collection has one.\<close>

lemma listed_unique:
  assumes "rows_ok d s" and "listed s dn n x" and "listed s dn n y"
    and "map_option tbl_name x = map_option tbl_name y"
  shows "x = y"
proof -
  obtain db c where x: "db \<in> set (database_rows s)" "c \<in> set (collection_rows s)" "dbr_name db = dn"
    "coll_database_id c = dbr_id db" "coll_name c = n"
    "x \<in> set (left_join [t \<leftarrow> table_rows s. coll_id c = tbl_collection_id t])"
    using assms(2) by (auto simp: listed_def)
  obtain db' c' where y: "db' \<in> set (database_rows s)" "c' \<in> set (collection_rows s)" "dbr_name db' = dn"
    "coll_database_id c' = dbr_id db'" "coll_name c' = n"
    "y \<in> set (left_join [t \<leftarrow> table_rows s. coll_id c' = tbl_collection_id t])"
    using assms(3) by (auto simp: listed_def)
  have "coll_id c = coll_id c'"
    using name_row(1) [OF assms(1) x(1)] name_row(1) [OF assms(1) y(1)]
      name_row(2) [OF assms(1) x(2)] name_row(2) [OF assms(1) y(2)] x y by simp
  with x(6) y(6) assms(4) show ?thesis
    by (auto simp: left_join_def tbl_key_def split: if_splits intro: key_row_unique [OF assms(1)])
qed

lemma listing_rows_sorted: "sorted (map column_order (listing_rows d dn s))"
  by (simp add: listing_rows_def)

lemma sorted_collection_names: "sorted (map adc_collection_name (listing_rows d dn s))"
proof -
  have "sorted_wrt (\<lambda>x y. column_order x \<le> column_order y) (listing_rows d dn s)"
    using listing_rows_sorted [of d dn s] by (simp only: sorted_map)
  then show ?thesis
    unfolding sorted_map by (rule sorted_wrt_mono_rel [rotated]) (auto simp: column_order_def)
qed

lemma sorted_table_names:
  "sorted (map adc_table_name (filter (\<lambda>r. adc_collection_name r = n) (listing_rows d dn s)))"
proof -
  have "sorted_wrt (\<lambda>x y. column_order x \<le> column_order y)
      (filter (\<lambda>r. adc_collection_name r = n) (listing_rows d dn s))"
    using listing_rows_sorted [of d dn s] by (auto simp only: sorted_map intro: sorted_wrt_filter)
  then show ?thesis
    unfolding sorted_map by (rule sorted_wrt_mono_rel [rotated]) (auto simp: column_order_def)
qed

definition table_object_of :: "(uuid \<Rightarrow> string) \<Rightarrow> (string option \<times> uuid option) \<times> 'c \<Rightarrow> table_object option" where
  "table_object_of uuid_string = (\<lambda>((name, uuid), _).
     case (name, uuid) of
       (Some name, Some uuid) \<Rightarrow> Some \<lparr>to_name = name, to_path = uuid_string uuid, to_store = None\<rparr>
     | _ \<Rightarrow> None)"

definition schema_object_of :: "(uuid \<Rightarrow> string) \<Rightarrow> string \<times> all_database_columns_result list \<Rightarrow> schema_object" where
  "schema_object_of uuid_string = (\<lambda>(cn, ct). \<lparr>so_name = cn,
     so_tables = List.map_filter (table_object_of uuid_string)
       (chunk_by (\<lambda>t. (adc_table_name t, adc_table_uuid t)) ct)\<rparr>)"

lemma table_object_of_Some [simp]:
  "table_object_of us ((Some t, Some u), c) = Some \<lparr>to_name = t, to_path = us u, to_store = None\<rparr>"
  by (simp add: table_object_of_def)

lemma table_object_of_eq_Some:
  "table_object_of us x = Some y \<longleftrightarrow> (\<exists>t u c. x = ((Some t, Some u), c) \<and>
     y = \<lparr>to_name = t, to_path = us u, to_store = None\<rparr>)"
  by (auto simp: table_object_of_def split: prod.splits option.splits)

lemma schema_list_eq:
  "schema_list us (default_repository d to_json encode) dn s =
    (Inr \<lparr>ls_schemas = map (schema_object_of us) (chunk_by adc_collection_name (listing_rows d dn s)),
      ls_stores = []\<rparr>, s)"
  by (simp add: schema_list_def bind_st_def map_err_st_def list_collections_eq schema_object_of_def
      table_object_of_def)

lemma outer_chunks:
  "distinct (map fst (chunk_by adc_collection_name (listing_rows d dn s)))"
  "(n, ct) \<in> set (chunk_by adc_collection_name (listing_rows d dn s)) \<Longrightarrow>
     ct = filter (\<lambda>r. adc_collection_name r = n) (listing_rows d dn s)"
  using chunk_by_sorted [OF sorted_collection_names [of d dn s], of adc_collection_name] by auto

lemma inner_chunks:
  fixes n d dn s
  defines "ct \<equiv> filter (\<lambda>r. adc_collection_name r = n) (listing_rows d dn s)"
  assumes "rows_ok d s"
  shows "distinct (map (fst \<circ> fst) (chunk_by (\<lambda>t. (adc_table_name t, adc_table_uuid t)) ct))"
    and "fst ` set (chunk_by (\<lambda>t. (adc_table_name t, adc_table_uuid t)) ct) =
      {(map_option tbl_name x, map_option tbl_uuid x) | x. listed s dn n x}"
proof -
  let ?f = "\<lambda>t. (adc_table_name t, adc_table_uuid t)"
  have ct: "\<exists>x. listed s dn n x \<and> adc_table_name r = map_option tbl_name x \<and>
      adc_table_uuid r = map_option tbl_uuid x" if "r \<in> set ct" for r
    using that unfolding ct_def by (auto simp: listing_rows_set dest!: column_join_rows_set)
  have same: "?f x = ?f y \<longleftrightarrow> adc_table_name x = adc_table_name y" if "x \<in> set ct" "y \<in> set ct" for x y
    using ct [OF that(1)] ct [OF that(2)] listed_unique [OF assms(2), of dn n] by fastforce
  note ch = chunk_by_sorted [of adc_table_name ct ?f, OF sorted_table_names [of n d dn s, folded ct_def] same]
  have keys: "fst ` set (chunk_by ?f ct) = ?f ` set ct" by (rule chunk_by_keys)
  have "inj_on fst (?f ` set ct)" using same by (auto simp: inj_on_def)
  then have "inj_on fst (set (map fst (chunk_by ?f ct)))" by (simp add: keys)
  with ch show "distinct (map (fst \<circ> fst) (chunk_by ?f ct))"
    by (simp add: distinct_map comp_inj_on)
  have "?f ` set ct = {(map_option tbl_name x, map_option tbl_uuid x) | x. listed s dn n x}"
  proof (intro equalityI subsetI)
    fix z assume "z \<in> {(map_option tbl_name x, map_option tbl_uuid x) | x. listed s dn n x}"
    then obtain x where x: "listed s dn n x" "z = (map_option tbl_name x, map_option tbl_uuid x)" by blast
    obtain r where r: "r \<in> set (column_join_rows d s dn n x)" using column_join_rows_nonempty by blast
    with x(1) have "r \<in> set ct"
      unfolding ct_def by (auto simp: listing_rows_set dest: column_join_rows_set)
    with column_join_rows_set [OF r] x(2) show "z \<in> ?f ` set ct" by force
  qed (use ct in force)
  then show "fst ` set (chunk_by ?f ct) = {(map_option tbl_name x, map_option tbl_uuid x) | x. listed s dn n x}"
    by (simp add: keys)
qed

lemma map_filter_alt: "List.map_filter f xs = map (the \<circ> f) (filter (\<lambda>x. f x \<noteq> None) xs)"
  by (induction xs) (auto simp: List.map_filter_def)

lemma distinct_map_the: "distinct xs \<Longrightarrow> (\<And>x. x \<in> set xs \<Longrightarrow> x \<noteq> None) \<Longrightarrow> distinct (map the xs)"
  unfolding distinct_map by (metis inj_onI option.expand)

lemma listing_collection_names: "adc_collection_name ` set (listing_rows d c s) = {n. \<exists>x. listed s c n x}"
proof (intro equalityI subsetI)
  fix n assume "n \<in> {n. \<exists>x. listed s c n x}"
  then obtain x where x: "listed s c n x" by blast
  obtain r where r: "r \<in> set (column_join_rows d s c n x)" using column_join_rows_nonempty by blast
  with x have "r \<in> set (listing_rows d c s)" by (auto simp: listing_rows_set)
  with column_join_rows_set [OF r] show "n \<in> adc_collection_name ` set (listing_rows d c s)" by blast
qed (use column_join_rows_set in \<open>fastforce simp: listing_rows_set\<close>)

lemma schema_object_tables:
  fixes n d dn s us
  defines "so \<equiv> schema_object_of us (n, filter (\<lambda>r. adc_collection_name r = n) (listing_rows d dn s))"
  assumes "rows_ok d s"
  shows "distinct (map to_name (so_tables so))"
    and "{(to_name t, to_path t) | t. t \<in> set (so_tables so)} =
      {(t, us u) | t u. nm_tables (names_of (db_map s) (coll_map s) (tbl_map s)) (dn, n, t) = Some u}"
proof -
  let ?ch = "chunk_by (\<lambda>t. (adc_table_name t, adc_table_uuid t))
    (filter (\<lambda>r. adc_collection_name r = n) (listing_rows d dn s))"
  let ?g = "table_object_of us"
  note inner = inner_chunks [OF assms(2), where n = n and dn = dn]
  have tabs: "so_tables so = map (the \<circ> ?g) (filter (\<lambda>x. ?g x \<noteq> None) ?ch)"
    by (simp add: so_def schema_object_of_def map_filter_alt)
  have name: "to_name (the (?g x)) = the (fst (fst x)) \<and> fst (fst x) \<noteq> None" if "?g x \<noteq> None" for x
    using that by (auto simp: table_object_of_eq_Some)
  have "distinct (map (fst \<circ> fst) (filter (\<lambda>x. ?g x \<noteq> None) ?ch))"
    using inner(1) by (rule distinct_map_filter)
  then have "distinct (map the (map (fst \<circ> fst) (filter (\<lambda>x. ?g x \<noteq> None) ?ch)))"
    by (rule distinct_map_the) (use name in fastforce)
  then have "distinct (map (the \<circ> (fst \<circ> fst)) (filter (\<lambda>x. ?g x \<noteq> None) ?ch))"
    by (simp only: map_map)
  moreover have "map to_name (so_tables so) = map (the \<circ> (fst \<circ> fst)) (filter (\<lambda>x. ?g x \<noteq> None) ?ch)"
    unfolding tabs map_map by (intro map_cong refl) (auto simp: table_object_of_eq_Some)
  ultimately show "distinct (map to_name (so_tables so))" by simp
  have "{(to_name t, to_path t) | t. t \<in> set (so_tables so)} =
      {(t, us u) | t u. (Some t, Some u) \<in> fst ` set ?ch}"
    unfolding tabs by (force simp: table_object_of_eq_Some)
  also have "\<dots> = {(t, us u) | t u. \<exists>x. listed s dn n (Some x) \<and> tbl_name x = t \<and> tbl_uuid x = u}"
    unfolding inner(2) by (auto simp: eq_commute [of "Some _"])
  also have "\<dots> = {(t, us u) | t u. nm_tables (names_of (db_map s) (coll_map s) (tbl_map s)) (dn, n, t) = Some u}"
    unfolding listed_table [OF assms(2)] ..
  finally show "{(to_name t, to_path t) | t. t \<in> set (so_tables so)} =
      {(t, us u) | t u. nm_tables (names_of (db_map s) (coll_map s) (tbl_map s)) (dn, n, t) = Some u}" .
qed

lemma schema_list_result:
  assumes "repo_reachable d to_json s"
  defines "N \<equiv> names_of (db_map s) (coll_map s) (tbl_map s)"
  shows "\<exists>resp. schema_list us (default_repository d to_json encode) c s = (Inr resp, s) \<and>
    ls_stores resp = [] \<and> distinct (map so_name (ls_schemas resp)) \<and> so_name ` set (ls_schemas resp) = {n. (c, n) \<in> nm_schemas N} \<and>
    (\<forall>so\<in>set (ls_schemas resp). distinct (map to_name (so_tables so)) \<and>
       (\<forall>t\<in>set (so_tables so). to_store t = None) \<and>
       {(to_name t, to_path t) | t. t \<in> set (so_tables so)} =
       {(t, us u) | t u. nm_tables N (c, so_name so, t) = Some u})"
proof -
  have ok: "rows_ok d s" using repo_ok_reachable [OF assms(1)] by (simp add: repo_ok_def)
  let ?ch = "chunk_by adc_collection_name (listing_rows d c s)"
  have name: "so_name \<circ> schema_object_of us = fst"
    by (auto simp: schema_object_of_def)
  have "fst ` set ?ch = adc_collection_name ` set (listing_rows d c s)" by (rule chunk_by_keys)
  also have "\<dots> = {n. \<exists>x. listed s c n x}"
    by (rule listing_collection_names)
  also have "\<dots> = {n. (c, n) \<in> nm_schemas N}" using listed_collection [OF ok] by (simp add: N_def)
  finally have "so_name ` set (map (schema_object_of us) ?ch) = {n. (c, n) \<in> nm_schemas N}"
    by (simp add: image_comp name)
  moreover have "distinct (map so_name (map (schema_object_of us) ?ch))"
    using outer_chunks(1) by (simp add: name)
  moreover have "distinct (map to_name (so_tables so)) \<and> {(to_name t, to_path t) | t. t \<in> set (so_tables so)} =
       {(t, us u) | t u. nm_tables N (c, so_name so, t) = Some u}"
    if so: "so \<in> set (map (schema_object_of us) ?ch)" for so
  proof -
    from so obtain n ct where mem: "(n, ct) \<in> set ?ch" "so = schema_object_of us (n, ct)" by auto
    have ct: "ct = filter (\<lambda>r. adc_collection_name r = n) (listing_rows d c s)"
      by (rule outer_chunks(2) [OF mem(1)])
    have "so_name so = n" by (simp add: mem(2) schema_object_of_def)
    then show ?thesis
      using schema_object_tables [OF ok, of us n c] by (simp add: mem(2) ct N_def)
  qed
  moreover have "to_store t = None" if "so \<in> set (map (schema_object_of us) ?ch)" "t \<in> set (so_tables so)" for so t
    using that by (auto simp: schema_object_of_def List.map_filter_def table_object_of_eq_Some)
  ultimately show ?thesis unfolding schema_list_eq by simp
qed

text \<open>
  C35: \<open>SchemaStore::list\<close> lists what the catalog has: every schema of the catalog once, also one
  without tables, and under it every table once, with the path of its UUID. It never fails, and it
  does not change the database; a catalog that does not exist has no schemas.
\<close>

theorem schema_list_exact:
  assumes "repo_reachable d to_json s"
  defines "N \<equiv> names_of (db_map s) (coll_map s) (tbl_map s)"
  shows "\<exists>resp. schema_list us (default_repository d to_json encode) c s = (Inr resp, s) \<and>
    distinct (map so_name (ls_schemas resp)) \<and> so_name ` set (ls_schemas resp) = {n. (c, n) \<in> nm_schemas N} \<and>
    (\<forall>so\<in>set (ls_schemas resp). distinct (map to_name (so_tables so)) \<and>
       {(to_name t, to_path t) | t. t \<in> set (so_tables so)} =
       {(t, us u) | t u. nm_tables N (c, so_name so, t) = Some u})"
  unfolding N_def by (rule ex_forward [OF schema_list_result [OF assms(1), of us encode c]]) simp

theorem schema_list_exact_witness:
  "\<exists>resp. fst (schema_list (\<lambda>_. ''path'') (default_repository SQLite no_json (\<lambda>_. ''RETRY'')) ''default''
      (example_db SQLite)) = Inr resp \<and>
    (\<forall>so\<in>set (ls_schemas resp). so_name so = ''public'' \<longrightarrow>
       {(to_name t, to_path t) | t. t \<in> set (so_tables so)} = {(''t'', ''path'')})"
proof -
  let ?s = "example_db SQLite"
  let ?N = "names_of (db_map ?s) (coll_map ?s) (tbl_map ?s)"
  have rows: "database_rows ?s = [\<lparr>dbr_id = 1, dbr_name = ''default''\<rparr>]"
    "collection_rows ?s = [\<lparr>coll_id = 1, coll_database_id = 1, coll_name = ''public''\<rparr>]"
    "table_rows ?s = [\<lparr>tbl_id = 1, tbl_collection_id = 1, tbl_name = ''t'', tbl_uuid = 7\<rparr>]"
    by code_simp+
  have "nm_tables ?N (''default'', ''public'', t) = (if t = ''t'' then Some 7 else None)" for t
    by (simp add: names_of_def db_map_def coll_map_def tbl_map_def rows)
  with schema_list_exact [OF example_db_reachable [of SQLite], of "\<lambda>_. ''path''" "\<lambda>_. ''RETRY''" "''default''"]
  show ?thesis by fastforce
qed

subsection \<open>Garbage collection\<close>

lemma map_filter_Cons: "List.map_filter f (x # xs) =
    (case f x of None \<Rightarrow> List.map_filter f xs | Some y \<Rightarrow> y # List.map_filter f xs)"
  by (simp add: List.map_filter_def split: option.splits)

lemma map_filter_Nil [simp]: "List.map_filter f [] = []"
  by (simp add: List.map_filter_def)

lemma map_filter_map_filter:
  "List.map_filter g (List.map_filter f xs) = List.map_filter (\<lambda>x. Option.bind (f x) g) xs"
  by (induction xs) (auto simp: map_filter_Cons split: option.splits)

lemma map_filter_cong: "(\<And>x. x \<in> set xs \<Longrightarrow> f x = g x) \<Longrightarrow> List.map_filter f xs = List.map_filter g xs"
  by (induction xs) (auto simp: map_filter_Cons split: option.splits)

lemma map_filter_Some: "List.map_filter (\<lambda>x. Some (f x)) xs = map f xs"
  by (induction xs) (auto simp: map_filter_Cons)

lemma map_filter_keep [simp]: "List.map_filter Some xs = xs"
  by (induction xs) (auto simp: map_filter_Cons)

text \<open>What the collection does to the entry of a table whose status it read as \<open>st\<close>.\<close>

definition gc_status :: "(deletion_status \<Rightarrow> string) \<Rightarrow> deletion_status \<Rightarrow> string \<Rightarrow> string" where
  "gc_status encode st old =
     (let new = encode (if st \<noteq> Pending then Retry else Failed) in
      if new \<in> {''PENDING'', ''RETRY'', ''FAILED''} then new else old)"

definition gc_entry :: "(deletion_status \<Rightarrow> string) \<Rightarrow> (uuid \<Rightarrow> bool) \<Rightarrow> deletion_status \<Rightarrow> dropped_row \<Rightarrow>
    dropped_row option" where
  "gc_entry encode deleted st r =
     (if deleted (drop_uuid r) then None else Some (r\<lparr>drop_status := gc_status encode st (drop_status r)\<rparr>))"

lemma gc_table_dropped:
  "db_dropped (gc_table (default_repository d to_json encode) deleted dt s) =
    List.map_filter (\<lambda>r. if drop_uuid r = dtr_uuid dt
      then gc_entry encode deleted (dtr_deletion_status dt) r else Some r) (db_dropped s)"
proof (cases "list_ex (\<lambda>r. drop_uuid r = dtr_uuid dt) (db_dropped s)")
  case False
  then have "List.map_filter (\<lambda>r. if drop_uuid r = dtr_uuid dt
      then gc_entry encode deleted (dtr_deletion_status dt) r else Some r) (db_dropped s) =
      List.map_filter (\<lambda>r. Some r) (db_dropped s)"
    by (intro map_filter_cong) (auto simp: list_ex_iff)
  also have "\<dots> = db_dropped s" by simp
  finally show ?thesis
    using False by (simp add: gc_table_def ignore_err_def table_update_dropped_table_def
        table_delete_dropped_table_def map_err_st_def update_dropped_table_def delete_dropped_table_def)
next
  case True
  have keep: "filter (\<lambda>r. drop_uuid r \<noteq> u) rs =
      List.map_filter (\<lambda>r. if drop_uuid r = u then None else Some r) rs" for u and rs :: "dropped_row list"
    by (induction rs) (auto simp: map_filter_Cons)
  show ?thesis
  proof (cases "deleted (dtr_uuid dt)")
    case del: True
    have "List.map_filter (\<lambda>r. if drop_uuid r = dtr_uuid dt
        then gc_entry encode deleted (dtr_deletion_status dt) r else Some r) (db_dropped s) =
      List.map_filter (\<lambda>r. if drop_uuid r = dtr_uuid dt then None else Some r) (db_dropped s)"
      by (intro map_filter_cong) (auto simp: gc_entry_def del)
    with True del show ?thesis
      by (simp add: gc_table_def ignore_err_def table_delete_dropped_table_def map_err_st_def
          delete_dropped_table_def keep)
  next
    case keep: False
    have "List.map_filter (\<lambda>r. if drop_uuid r = dtr_uuid dt
        then gc_entry encode deleted (dtr_deletion_status dt) r else Some r) (db_dropped s) =
      List.map_filter (\<lambda>r. Some (if drop_uuid r = dtr_uuid dt
        then r\<lparr>drop_status := gc_status encode (dtr_deletion_status dt) (drop_status r)\<rparr> else r)) (db_dropped s)"
      by (intro map_filter_cong) (auto simp: gc_entry_def keep)
    moreover have "map (\<lambda>r. if drop_uuid r = dtr_uuid dt
        then r\<lparr>drop_status := gc_status encode (dtr_deletion_status dt) (drop_status r)\<rparr> else r) (db_dropped s) =
        db_dropped s"
      if "encode (if dtr_deletion_status dt \<noteq> Pending then Retry else Failed) \<notin> {''PENDING'', ''RETRY'', ''FAILED''}"
      using that by (intro map_idI) (simp add: gc_status_def Let_def)
    ultimately show ?thesis
      using True keep
      by (auto simp: gc_table_def ignore_err_def table_update_dropped_table_def map_err_st_def
          update_dropped_table_def map_filter_Some gc_status_def Let_def intro!: map_idI)
  qed
qed

lemma gc_tables_dropped:
  assumes "distinct (map dtr_uuid dts)"
  shows "db_dropped (fold (gc_table (default_repository d to_json encode) deleted) dts s) =
    List.map_filter (\<lambda>r. case find (\<lambda>dt. dtr_uuid dt = drop_uuid r) dts of
      None \<Rightarrow> Some r | Some dt \<Rightarrow> gc_entry encode deleted (dtr_deletion_status dt) r) (db_dropped s)"
  using assms
proof (induction dts arbitrary: s)
  case Nil
  then show ?case by simp
next
  case (Cons dt dts)
  let ?R = "default_repository d to_json encode"
  have none: "find (\<lambda>dt'. dtr_uuid dt' = dtr_uuid dt) dts = None"
    using Cons.prems by (simp add: find_None_iff image_iff) metis
  have uuid: "drop_uuid r' = drop_uuid r" if "gc_entry encode deleted st r = Some r'" for st r r'
    using that by (auto simp: gc_entry_def split: if_splits)
  have "db_dropped (fold (gc_table ?R deleted) (dt # dts) s) =
      List.map_filter (\<lambda>r. case find (\<lambda>dt. dtr_uuid dt = drop_uuid r) dts of
        None \<Rightarrow> Some r | Some dt \<Rightarrow> gc_entry encode deleted (dtr_deletion_status dt) r)
      (db_dropped (gc_table ?R deleted dt s))"
    using Cons by simp
  also have "\<dots> = List.map_filter (\<lambda>r. case find (\<lambda>dt. dtr_uuid dt = drop_uuid r) (dt # dts) of
      None \<Rightarrow> Some r | Some dt \<Rightarrow> gc_entry encode deleted (dtr_deletion_status dt) r) (db_dropped s)"
    unfolding gc_table_dropped map_filter_map_filter
  proof (intro map_filter_cong)
    fix r
    show "Option.bind (if drop_uuid r = dtr_uuid dt
          then gc_entry encode deleted (dtr_deletion_status dt) r else Some r)
        (\<lambda>r. case find (\<lambda>dt. dtr_uuid dt = drop_uuid r) dts of None \<Rightarrow> Some r
          | Some dt \<Rightarrow> gc_entry encode deleted (dtr_deletion_status dt) r) =
      (case find (\<lambda>dt. dtr_uuid dt = drop_uuid r) (dt # dts) of None \<Rightarrow> Some r
          | Some dt \<Rightarrow> gc_entry encode deleted (dtr_deletion_status dt) r)"
    proof (cases "drop_uuid r = dtr_uuid dt")
      case True
      then show ?thesis
        using none uuid [of "dtr_deletion_status dt" r]
        by (cases "gc_entry encode deleted (dtr_deletion_status dt) r") simp_all
    qed auto
  qed
  finally show ?case .
qed

text \<open>The entries that the query of the garbage collector selects, and what it reads of each.\<close>

definition gc_selects :: "string option \<Rightarrow> dropped_row \<Rightarrow> bool" where
  "gc_selects name r \<longleftrightarrow> name \<in> {None, Some (drop_database_name r)} \<and> drop_status r \<noteq> ''FAILED''"

definition gc_read :: "dialect \<Rightarrow> dropped_row \<Rightarrow> dropped_tables_result" where
  "gc_read d r = projr (decode_dropped d r)"

lemma gc_read:
  assumes "drop_status r \<in> {''PENDING'', ''RETRY'', ''FAILED''}"
  shows "decode_dropped d r = Inr (gc_read d r)"
    and "dtr_uuid (gc_read d r) = drop_uuid r"
    and "dtr_deletion_status (gc_read d r) =
      (if drop_status r = ''PENDING'' then Pending else if drop_status r = ''RETRY'' then Retry else Failed)"
  using assms by (auto simp: gc_read_def decode_dropped_def)

lemma find_key:
  assumes "distinct (map k xs)" and "x \<in> set xs" and "\<And>y. y \<in> set xs \<Longrightarrow> k' (g y) = k y"
  shows "find (\<lambda>z. k' z = k x) (map g (filter Q xs)) = (if Q x then Some (g x) else None)"
  using assms
proof (induction xs)
  case (Cons y ys)
  show ?case
  proof (cases "x = y")
    case True
    then have "find (\<lambda>z. k' z = k x) (map g (filter Q ys)) = None"
      using Cons.prems by (simp add: find_None_iff image_iff) metis
    then show ?thesis using True Cons.prems(3) [of y] by simp
  next
    case False
    then have "k x \<noteq> k y" using Cons.prems(1,2) by (simp add: image_iff) metis
    then show ?thesis using False Cons by simp
  qed
qed simp

text \<open>
  one run of the garbage collection, on the entries of \<open>dropped_tables\<close> with distinct uuids and
  with the statuses that the \<open>CHECK\<close> admits. The entries of another database and those marked
  \<open>FAILED\<close> stay as they are. A selected entry disappears exactly when the directory of the table was
  deleted. When the deletion failed, a \<open>PENDING\<close> entry gets the status that encodes \<open>Failed\<close> and a
  \<open>RETRY\<close> entry the one that encodes \<open>Retry\<close>, or keeps its status when the \<open>CHECK\<close> refuses the
  encoded one.
\<close>
theorem gc_databases_entries:
  assumes distinct: "distinct (map drop_uuid (db_dropped s))"
    and status: "\<forall>r \<in> set (db_dropped s). drop_status r \<in> {''PENDING'', ''RETRY'', ''FAILED''}"
  shows "db_dropped (gc_databases (default_repository d to_json encode) deleted name s) =
    List.map_filter (\<lambda>r.
      if name \<notin> {None, Some (drop_database_name r)} \<or> drop_status r = ''FAILED'' then Some r
      else if deleted (drop_uuid r) then None
      else let new = encode (if drop_status r = ''PENDING'' then Failed else Retry) in
        Some (if new \<in> {''PENDING'', ''RETRY'', ''FAILED''} then r\<lparr>drop_status := new\<rparr> else r))
    (db_dropped s)"
proof -
  let ?R = "default_repository d to_json encode"
  let ?rs = "[r \<leftarrow> db_dropped s. name \<in> {None, Some (drop_database_name r)}]"
  let ?dts = "map (gc_read d) [r \<leftarrow> db_dropped s. gc_selects name r]"
  note read = gc_read [OF status [rule_format]]
  have "(case name of None \<Rightarrow> db_dropped s
      | Some database \<Rightarrow> [r \<leftarrow> db_dropped s. drop_database_name r = database]) = ?rs"
    by (auto split: option.splits intro: filter_cong)
  then have "table_get_dropped_tables ?R name s = (Inr (map (gc_read d) ?rs), s)"
    using collect_res_map [of ?rs "decode_dropped d" "gc_read d"] read(1)
    by (simp add: table_get_dropped_tables_def map_err_st_def get_dropped_tables_def lift_res_def
        default_repository_def)
  moreover have "[dt \<leftarrow> map (gc_read d) ?rs. dtr_deletion_status dt \<noteq> Failed] = ?dts"
    using read(3) status by (auto simp: filter_map gc_selects_def intro!: arg_cong [of _ _ "map (gc_read d)"] filter_cong)
  ultimately have "gc_databases ?R deleted name s = fold (gc_table ?R deleted) ?dts s"
    by (simp add: gc_databases_def)
  moreover have "distinct (map dtr_uuid ?dts)"
    using distinct read(2) by (simp add: distinct_map_filter cong: map_cong)
  ultimately have "db_dropped (gc_databases ?R deleted name s) = List.map_filter (\<lambda>r.
      case find (\<lambda>dt. dtr_uuid dt = drop_uuid r) ?dts of
        None \<Rightarrow> Some r | Some dt \<Rightarrow> gc_entry encode deleted (dtr_deletion_status dt) r) (db_dropped s)"
    by (simp add: gc_tables_dropped)
  also have "\<dots> = List.map_filter (\<lambda>r.
      if gc_selects name r then gc_entry encode deleted (dtr_deletion_status (gc_read d r)) r else Some r)
      (db_dropped s)"
    using find_key [OF distinct, of _ dtr_uuid "gc_read d" "gc_selects name"] read(2)
    by (intro map_filter_cong) simp
  also have "\<dots> = List.map_filter (\<lambda>r.
      if name \<notin> {None, Some (drop_database_name r)} \<or> drop_status r = ''FAILED'' then Some r
      else if deleted (drop_uuid r) then None
      else let new = encode (if drop_status r = ''PENDING'' then Failed else Retry) in
        Some (if new \<in> {''PENDING'', ''RETRY'', ''FAILED''} then r\<lparr>drop_status := new\<rparr> else r))
    (db_dropped s)"
  proof (intro map_filter_cong)
    fix r assume "r \<in> set (db_dropped s)"
    with status read(3) [of r d] show "(if gc_selects name r
        then gc_entry encode deleted (dtr_deletion_status (gc_read d r)) r else Some r) =
      (if name \<notin> {None, Some (drop_database_name r)} \<or> drop_status r = ''FAILED'' then Some r
      else if deleted (drop_uuid r) then None
      else let new = encode (if drop_status r = ''PENDING'' then Failed else Retry) in
        Some (if new \<in> {''PENDING'', ''RETRY'', ''FAILED''} then r\<lparr>drop_status := new\<rparr> else r))"
      by (auto simp: gc_selects_def gc_entry_def gc_status_def Let_def)
  qed
  finally show ?thesis .
qed

definition dropped_example :: "repo_db" where
  "dropped_example = (migrated_db 0)\<lparr>db_dropped :=
     [\<lparr>drop_database_name = ''default'', drop_collection_name = ''public'', drop_table_name = ''t'',
       drop_uuid = 1, drop_status = ''PENDING'', drop_time = 0\<rparr>,
      \<lparr>drop_database_name = ''default'', drop_collection_name = ''public'', drop_table_name = ''u'',
       drop_uuid = 2, drop_status = ''PENDING'', drop_time = 0\<rparr>,
      \<lparr>drop_database_name = ''other'', drop_collection_name = ''public'', drop_table_name = ''v'',
       drop_uuid = 3, drop_status = ''RETRY'', drop_time = 0\<rparr>]\<rparr>"

lemma gc_databases_entries_witness:
  "map (\<lambda>r. (drop_uuid r, drop_status r)) (db_dropped (gc_databases
      (default_repository SQLite no_json (\<lambda>st. if st = Retry then ''RETRY'' else ''FAILED''))
      (\<lambda>u. u = 1) (Some ''default'') dropped_example)) = [(2, ''FAILED''), (3, ''RETRY'')]"
proof -
  have "distinct (map drop_uuid (db_dropped dropped_example))"
    "\<forall>r \<in> set (db_dropped dropped_example). drop_status r \<in> {''PENDING'', ''RETRY'', ''FAILED''}"
    by (simp_all add: dropped_example_def)
  from gc_databases_entries [OF this, of SQLite no_json "\<lambda>st. if st = Retry then ''RETRY'' else ''FAILED''"
      "\<lambda>u. u = 1" "Some ''default''"]
  show ?thesis by (simp add: dropped_example_def map_filter_Cons Let_def)
qed

end
