(* ===== verification/DeltaWrite.thy ===== *)
theory DeltaWrite
  imports Prelude
begin

text \<open>
  Writing the result of a plan into the object store (\<open>plan_to_object_store\<close> of
  \<open>src/context/delta.rs\<close>): the batches of all partitions of the plan are re-chunked into temporary
  Parquet files of a limited number of rows, and every file is uploaded under a numbered name, by
  moving it or as a multipart upload. The theorems say that the files are the limited chunks of the
  rows in their order, that this ends exactly when the limit is not zero, and that an upload carries
  the bytes of the file in parts of the required size.
\<close>

subsection \<open>Re-chunking into partition files\<close>

text \<open>
  The temporary files and the Parquet writer, which belong to other packages: \<open>pq_open n\<close> opens the
  \<open>n\<close>-th file and returns its path with a writer, \<open>pq_close\<close> returns the metadata of the file.
\<close>

record ('w, 'p, 'm, 'r, 'e) parquet =
  pq_open :: "nat \<Rightarrow> ('e, 'p \<times> 'w) result"
  pq_write :: "'w \<Rightarrow> 'r list \<Rightarrow> ('e, 'w) result"
  pq_close :: "'w \<Rightarrow> ('e, 'm) result"

text \<open>The variables of the loop: the open writer, its row count, all paths and the closed files.\<close>

record ('w, 'p, 'm) partitions =
  current_partition_size :: "32 word"
  writer :: 'w
  partition_file_paths :: "'p list"
  partition_metadata :: "'m list"

definition roll_partition ::
    "('w, 'p, 'm, 'r, 'e) parquet \<Rightarrow> ('w, 'p, 'm) partitions \<Rightarrow> ('e, ('w, 'p, 'm) partitions) result" where
  "roll_partition W s =
     bind_res (pq_close W (writer s)) (\<lambda>file_metadata.
     bind_res (pq_open W (length (partition_file_paths s))) (\<lambda>(path, w).
       Inr \<lparr>current_partition_size = 0, writer = w,
            partition_file_paths = partition_file_paths s @ [path],
            partition_metadata = partition_metadata s @ [file_metadata]\<rparr>))"

definition write_rows ::
    "('w, 'p, 'm, 'r, 'e) parquet \<Rightarrow> 'r list \<Rightarrow> ('w, 'p, 'm) partitions \<Rightarrow> ('e, ('w, 'p, 'm) partitions) result" where
  "write_rows W rows s = bind_res (pq_write W (writer s) rows) (\<lambda>w. Inr (s\<lparr>writer := w\<rparr>))"

text \<open>The inner loop; it may not end, so its result is an option.\<close>

partial_function (option) fill_partitions ::
    "('w, 'p, 'm, 'r, 'e) parquet \<Rightarrow> 32 word \<Rightarrow> nat \<Rightarrow> 'r list \<Rightarrow> ('w, 'p, 'm) partitions \<Rightarrow>
      ('e, 'r list \<times> ('w, 'p, 'm) partitions) result option" where
  "fill_partitions W max_partition_size leftover batch s =
     (if length batch \<le> leftover then Some (Inr (batch, s))
      else case bind_res (if 0 < leftover then write_rows W (take leftover batch) s else Inr s) (roll_partition W) of
        Inl e \<Rightarrow> Some (Inl e)
      | Inr s' \<Rightarrow> fill_partitions W max_partition_size (unat max_partition_size) (drop leftover batch) s')"

definition write_batch ::
    "('w, 'p, 'm, 'r, 'e) parquet \<Rightarrow> 32 word \<Rightarrow> 'r list \<Rightarrow> ('w, 'p, 'm) partitions \<Rightarrow>
      ('e, ('w, 'p, 'm) partitions) result option" where
  "write_batch W max_partition_size batch s =
     Option.bind (fill_partitions W max_partition_size
         (unat (max_partition_size - current_partition_size s)) batch s)
       (\<lambda>r. Some (bind_res r (\<lambda>(rest, s').
          write_rows W rest (s'\<lparr>current_partition_size := current_partition_size s' + of_nat (length rest)\<rparr>))))"

text \<open>
  The stream of one partition of the plan, and the loop over the partitions; \<open>execute(i)\<close> and every
  batch of a stream may be an error.
\<close>

fun write_stream ::
    "('w, 'p, 'm, 'r, 'e) parquet \<Rightarrow> 32 word \<Rightarrow> ('e, 'r list) result list \<Rightarrow> ('w, 'p, 'm) partitions \<Rightarrow>
      ('e, ('w, 'p, 'm) partitions) result option" where
  "write_stream W mx [] s = Some (Inr s)"
| "write_stream W mx (Inl e # bs) s = Some (Inl e)"
| "write_stream W mx (Inr b # bs) s = (case write_batch W mx b s of
     None \<Rightarrow> None | Some (Inl e) \<Rightarrow> Some (Inl e) | Some (Inr s') \<Rightarrow> write_stream W mx bs s')"

fun write_plan ::
    "('w, 'p, 'm, 'r, 'e) parquet \<Rightarrow> 32 word \<Rightarrow> ('e, ('e, 'r list) result list) result list \<Rightarrow>
      ('w, 'p, 'm) partitions \<Rightarrow> ('e, ('w, 'p, 'm) partitions) result option" where
  "write_plan W mx [] s = Some (Inr s)"
| "write_plan W mx (Inl e # ps) s = Some (Inl e)"
| "write_plan W mx (Inr bs # ps) s = (case write_stream W mx bs s of
     None \<Rightarrow> None | Some (Inl e) \<Rightarrow> Some (Inl e) | Some (Inr s') \<Rightarrow> write_plan W mx ps s')"

text \<open>The whole first phase: the temporary files with their metadata.\<close>

definition persist_partitions ::
    "('w, 'p, 'm, 'r, 'e) parquet \<Rightarrow> 32 word \<Rightarrow> ('e, ('e, 'r list) result list) result list \<Rightarrow>
      ('e, ('p \<times> 'm) list) result option" where
  "persist_partitions W mx plan =
     (case pq_open W 0 of
        Inl e \<Rightarrow> Some (Inl e)
      | Inr (path, w) \<Rightarrow>
          Option.bind (write_plan W mx plan \<lparr>current_partition_size = 0, writer = w,
              partition_file_paths = [path], partition_metadata = []\<rparr>) (\<lambda>r.
            Some (bind_res r (\<lambda>s. bind_res (pq_close W (writer s)) (\<lambda>file_metadata.
              Inr (zip (partition_file_paths s) (partition_metadata s @ [file_metadata])))))))"

subsection \<open>The partition files are the chunks of the rows\<close>

text \<open>The reference: cut off \<open>n\<close> rows as long as more than \<open>n\<close> are left.\<close>

function chunks :: "nat \<Rightarrow> 'r list \<Rightarrow> 'r list list" where
  "chunks n xs = (if n = 0 \<or> length xs \<le> n then [xs] else take n xs # chunks n (drop n xs))"
  by pat_completeness auto
termination
  by (relation "measure (\<lambda>(n, xs). length xs)") auto

declare chunks.simps [simp del]

lemma chunks_small: "length xs \<le> n \<Longrightarrow> chunks n xs = [xs]"
  by (simp add: chunks.simps)

lemma chunks_large: "0 < n \<Longrightarrow> n < length xs \<Longrightarrow> chunks n xs = take n xs # chunks n (drop n xs)"
  by (subst chunks.simps) simp

lemma chunks_not_Nil [simp]: "chunks n xs \<noteq> []"
  by (subst chunks.simps) simp

lemma concat_chunks: "concat (chunks n xs) = xs"
  by (induction n xs rule: chunks.induct) (subst chunks.simps, simp)

lemma chunks_bounds: "0 < n \<Longrightarrow> \<forall>c \<in> set (chunks n xs). length c \<le> n"
proof (induction n xs rule: chunks.induct)
  case (1 n xs)
  show ?case
  proof (cases "length xs \<le> n")
    case False
    then have step: "chunks n xs = take n xs # chunks n (drop n xs)"
      using 1(2) by (intro chunks_large) linarith+
    from False 1(2) have "\<not> (n = 0 \<or> length xs \<le> n)" by linarith
    from 1(1) [OF this 1(2)] show ?thesis unfolding step by auto
  qed (simp add: chunks_small)
qed

lemma chunks_full: "0 < n \<Longrightarrow> \<forall>c \<in> set (butlast (chunks n xs)). length c = n"
proof (induction n xs rule: chunks.induct)
  case (1 n xs)
  show ?case
  proof (cases "length xs \<le> n")
    case False
    then have step: "chunks n xs = take n xs # chunks n (drop n xs)"
      using 1(2) by (intro chunks_large) linarith+
    from False 1(2) have "\<not> (n = 0 \<or> length xs \<le> n)" by linarith
    from 1(1) [OF this 1(2)] False show ?thesis unfolding step by auto
  qed (simp add: chunks_small)
qed

lemma chunks_append:
  assumes "0 < n" and "chunks n xs = cs @ [c]"
  shows "chunks n (xs @ b) = cs @ chunks n (c @ b)"
  using assms
proof (induction n xs arbitrary: cs rule: chunks.induct)
  case (1 n xs)
  show ?case
  proof (cases "length xs \<le> n")
    case False
    then have "chunks n xs = take n xs # chunks n (drop n xs)"
      "chunks n (xs @ b) = take n xs # chunks n (drop n xs @ b)"
      using 1(2) chunks_large [of n "xs @ b"] by (simp_all add: chunks_large [of n xs])
    moreover from this 1(3) obtain cs' where "cs = take n xs # cs'" and "chunks n (drop n xs) = cs' @ [c]"
      using chunks_not_Nil [of n "drop n xs"] by (cases cs) fastforce+
    ultimately show ?thesis using 1(1) [of cs'] 1(2) False by simp
  qed (use 1 in \<open>auto simp: chunks_small\<close>)
qed

text \<open>What the code relies on of the Parquet writer: a closed file has the rows that were written to it.\<close>

locale parquet_writer =
  fixes W :: "('w, 'p, 'm, 'r, 'e) parquet"
    and content :: "'w \<Rightarrow> 'r list" and file_rows :: "'m \<Rightarrow> 'r list"
  assumes open_empty: "pq_open W n = Inr (path, w) \<Longrightarrow> content w = []"
    and write_appends: "pq_write W w rows = Inr w' \<Longrightarrow> content w' = content w @ rows"
    and close_keeps: "pq_close W w = Inr m \<Longrightarrow> file_rows m = content w"
begin

definition files :: "('w, 'p, 'm) partitions \<Rightarrow> 'r list list" where
  "files s = map file_rows (partition_metadata s) @ [content (writer s)]"

definition parts_ok :: "32 word \<Rightarrow> ('w, 'p, 'm) partitions \<Rightarrow> bool" where
  "parts_ok mx s \<longleftrightarrow> length (content (writer s)) \<le> unat mx \<and>
     current_partition_size s = of_nat (length (content (writer s))) \<and>
     length (partition_file_paths s) = Suc (length (partition_metadata s))"

lemma roll_partition_ok:
  assumes "roll_partition W s = Inr s'"
  shows "files s' = files s @ [[]]" and "length (partition_file_paths s') - length (partition_metadata s') =
      length (partition_file_paths s) - length (partition_metadata s)"
    and "current_partition_size s' = 0" and "content (writer s') = []"
    and "partition_metadata s' \<noteq> []"
    and "map file_rows (partition_metadata s') = map file_rows (partition_metadata s) @ [content (writer s)]"
  using assms open_empty close_keeps
  by (auto simp: roll_partition_def files_def res_simps split: prod.splits)

lemma write_rows_ok:
  assumes "write_rows W rows s = Inr s'"
  shows "content (writer s') = content (writer s) @ rows"
    and "partition_metadata s' = partition_metadata s"
    and "partition_file_paths s' = partition_file_paths s"
    and "current_partition_size s' = current_partition_size s"
  using assms write_appends by (auto simp: write_rows_def res_simps)

end

context parquet_writer
begin

lemma chunks_step:
  assumes "0 < n" and "length c \<le> n" and "n - length c < length b"
  shows "chunks n (c @ b) = (c @ take (n - length c) b) # chunks n (drop (n - length c) b)"
  using assms chunks_large [of n "c @ b"] by simp

lemma step_partition:
  assumes ok: "parts_ok mx s" and pos: "0 < unat mx" and left: "l = unat mx - length (content (writer s))"
    and more: "l < length batch"
    and step: "bind_res (if 0 < l then write_rows W (take l batch) s else Inr s) (roll_partition W) = Inr s'"
  shows "parts_ok mx s'" and "content (writer s') = []"
    and "map file_rows (partition_metadata s') @ chunks (unat mx) (drop l batch) =
      map file_rows (partition_metadata s) @ chunks (unat mx) (content (writer s) @ batch)"
proof -
  obtain u where u: "(if 0 < l then write_rows W (take l batch) s else Inr s) = Inr u"
    and roll: "roll_partition W u = Inr s'"
    using step by (auto simp: res_simps)
  have *: "content (writer u) = content (writer s) @ take l batch"
    "partition_metadata u = partition_metadata s" "partition_file_paths u = partition_file_paths s"
    using u write_rows_ok [of "take l batch" s u] by (auto split: if_splits)
  note r = roll_partition_ok [OF roll]
  show "content (writer s') = []" by (fact r)
  have paths: "length (partition_file_paths s') = Suc (length (partition_file_paths u))"
    "length (partition_metadata s') = Suc (length (partition_metadata u))"
    using roll by (auto simp: roll_partition_def res_simps split: prod.splits)
  show "parts_ok mx s'"
    using ok r(3,4) paths * by (simp add: parts_ok_def)
  show "map file_rows (partition_metadata s') @ chunks (unat mx) (drop l batch) =
      map file_rows (partition_metadata s) @ chunks (unat mx) (content (writer s) @ batch)"
    using ok pos more left chunks_step [of "unat mx" "content (writer s)" batch] r(6) *
    by (simp add: parts_ok_def)
qed

lemma fill_partitions_ok:
  assumes "parts_ok mx s" and "0 < unat mx" and "l = unat mx - length (content (writer s))"
  shows "\<exists>r. fill_partitions W mx l batch s = Some r \<and> (\<forall>rest s'. r = Inr (rest, s') \<longrightarrow>
    parts_ok mx s' \<and> length (content (writer s') @ rest) \<le> unat mx \<and>
    map file_rows (partition_metadata s') @ [content (writer s') @ rest] =
      map file_rows (partition_metadata s) @ chunks (unat mx) (content (writer s) @ batch))"
  using assms
proof (induction "2 * length batch + (if l = 0 then 1 else 0)" arbitrary: batch s l rule: less_induct)
  case less
  show ?case
  proof (cases "length batch \<le> l")
    case True
    then have "length (content (writer s) @ batch) \<le> unat mx"
      using less.prems by (auto simp: parts_ok_def)
    with True less.prems(1) show ?thesis
      by (subst fill_partitions.simps) (simp add: chunks_small)
  next
    case more: False
    let ?step = "bind_res (if 0 < l then write_rows W (take l batch) s else Inr s) (roll_partition W)"
    show ?thesis
    proof (cases ?step)
      case (Inl e)
      with more show ?thesis by (subst fill_partitions.simps) simp
    next
      case (Inr s')
      have more': "l < length batch" using more by simp
      note step = step_partition [OF less.prems more' Inr]
      have eq: "fill_partitions W mx l batch s = fill_partitions W mx (unat mx) (drop l batch) s'"
        using more Inr by (subst fill_partitions.simps) simp
      have "2 * length (drop l batch) + (if unat mx = 0 then 1 else 0) < 2 * length batch + (if l = 0 then 1 else 0)"
        using more' less.prems(2) by auto
      from less.hyps [OF this step(1) less.prems(2)] step(2,3) show ?thesis
        unfolding eq by simp
    qed
  qed
qed

text \<open>The invariant between two batches: the files so far are the chunks of the rows so far.\<close>

definition parts_inv :: "32 word \<Rightarrow> 'r list \<Rightarrow> ('w, 'p, 'm) partitions \<Rightarrow> bool" where
  "parts_inv mx rows s \<longleftrightarrow> parts_ok mx s \<and> files s = chunks (unat mx) rows"

lemma write_batch_ok:
  assumes inv: "parts_inv mx rows s" and pos: "0 < unat mx"
  shows "\<exists>r. write_batch W mx b s = Some r \<and> (\<forall>s'. r = Inr s' \<longrightarrow> parts_inv mx (rows @ b) s')"
proof -
  have ok: "parts_ok mx s" and files: "files s = chunks (unat mx) rows"
    using inv by (auto simp: parts_inv_def)
  have lt: "length (content (writer s)) < 2 ^ 32"
    using ok unsigned_less [of mx, where ?'a = nat] by (auto simp: parts_ok_def)
  then have size: "unat (current_partition_size s) = length (content (writer s))"
    using ok by (simp add: parts_ok_def unat_of_nat)
  then have "current_partition_size s \<le> mx"
    using ok by (simp add: parts_ok_def word_le_nat_alt)
  then have left: "unat (mx - current_partition_size s) = unat mx - length (content (writer s))"
    using size by (simp add: unat_sub)
  obtain r where r: "fill_partitions W mx (unat (mx - current_partition_size s)) b s = Some r"
    and res: "\<And>rest s'. r = Inr (rest, s') \<Longrightarrow> parts_ok mx s' \<and> length (content (writer s') @ rest) \<le> unat mx \<and>
      map file_rows (partition_metadata s') @ [content (writer s') @ rest] =
      map file_rows (partition_metadata s) @ chunks (unat mx) (content (writer s) @ b)"
    using fill_partitions_ok [OF ok pos left] by blast
  have rows: "chunks (unat mx) (rows @ b) =
      map file_rows (partition_metadata s) @ chunks (unat mx) (content (writer s) @ b)"
    using chunks_append [OF pos files [unfolded files_def, symmetric]] .
  show ?thesis
  proof (cases r)
    case (Inl e)
    with r show ?thesis by (simp add: write_batch_def)
  next
    case (Inr a)
    obtain rest u where a: "a = (rest, u)" by (cases a)
    let ?u = "u\<lparr>current_partition_size := current_partition_size u + of_nat (length rest)\<rparr>"
    have eq: "write_batch W mx b s = Some (write_rows W rest ?u)"
      using r Inr a by (simp add: write_batch_def)
    have "parts_inv mx (rows @ b) s'" if s': "write_rows W rest ?u = Inr s'" for s'
      using res [of rest u] Inr a write_rows_ok [OF s'] rows
      by (simp add: parts_inv_def parts_ok_def files_def)
    with eq show ?thesis by blast
  qed
qed

text \<open>The rows of the batches of a stream that were read before its first error, and of a plan.\<close>

lemma write_stream_ok:
  assumes "parts_inv mx rows s" and "0 < unat mx"
  shows "\<exists>r. write_stream W mx bs s = Some r \<and> (\<forall>s'. r = Inr s' \<longrightarrow>
    (\<forall>b \<in> set bs. is_ok b) \<and> parts_inv mx (rows @ concat (map projr bs)) s')"
  using assms
proof (induction bs arbitrary: rows s)
  case (Cons b bs)
  show ?case
  proof (cases b)
    case (Inr x)
    obtain r where r: "write_batch W mx x s = Some r" and res: "\<And>s'. r = Inr s' \<Longrightarrow> parts_inv mx (rows @ x) s'"
      using write_batch_ok [OF Cons.prems] by blast
    show ?thesis
    proof (cases r)
      case (Inr s')
      with Cons.IH [OF res [OF Inr] Cons.prems(2)] r \<open>b = Inr x\<close> show ?thesis by auto
    qed (use r \<open>b = Inr x\<close> in simp)
  qed simp
qed simp

definition plan_rows :: "('e, ('e, 'r list) result list) result list \<Rightarrow> 'r list" where
  "plan_rows plan = concat (map projr (concat (map projr plan)))"

lemma write_plan_ok:
  assumes "parts_inv mx rows s" and "0 < unat mx"
  shows "\<exists>r. write_plan W mx ps s = Some r \<and> (\<forall>s'. r = Inr s' \<longrightarrow>
    (\<forall>p \<in> set ps. is_ok p \<and> (\<forall>b \<in> set (projr p). is_ok b)) \<and> parts_inv mx (rows @ plan_rows ps) s')"
  using assms
proof (induction ps arbitrary: rows s)
  case (Cons p ps)
  show ?case
  proof (cases p)
    case (Inr bs)
    obtain r where r: "write_stream W mx bs s = Some r"
      and res: "\<And>s'. r = Inr s' \<Longrightarrow> (\<forall>b \<in> set bs. is_ok b) \<and> parts_inv mx (rows @ concat (map projr bs)) s'"
      using write_stream_ok [OF Cons.prems] by blast
    show ?thesis
    proof (cases r)
      case (Inr s')
      with Cons.IH [OF _ Cons.prems(2), of "rows @ concat (map projr bs)" s'] res [OF Inr] r \<open>p = Inr bs\<close>
      show ?thesis by (auto simp: plan_rows_def)
    qed (use r \<open>p = Inr bs\<close> in simp)
  qed simp
qed (simp add: plan_rows_def)

lemma persist_partitions_ok:
  assumes "0 < unat mx"
  shows "\<exists>r. persist_partitions W mx plan = Some r \<and> (\<forall>fs. r = Inr fs \<longrightarrow>
    (\<forall>p \<in> set plan. is_ok p \<and> (\<forall>b \<in> set (projr p). is_ok b)) \<and>
    map (file_rows \<circ> snd) fs = chunks (unat mx) (plan_rows plan))"
proof (cases "pq_open W 0")
  case (Inr pw)
  obtain path w where pw: "pw = (path, w)" by (cases pw)
  let ?s = "\<lparr>current_partition_size = 0, writer = w, partition_file_paths = [path], partition_metadata = []\<rparr>"
  have "content w = []" using open_empty Inr pw by blast
  then have "parts_inv mx [] ?s"
    by (simp add: parts_inv_def parts_ok_def files_def chunks_small)
  from write_plan_ok [OF this assms, of plan] obtain r where r: "write_plan W mx plan ?s = Some r"
    and res: "\<And>s'. r = Inr s' \<Longrightarrow> (\<forall>p \<in> set plan. is_ok p \<and> (\<forall>b \<in> set (projr p). is_ok b)) \<and>
      parts_inv mx (plan_rows plan) s'"
    by auto
  show ?thesis
  proof (cases "bind_res r (\<lambda>s. pq_close W (writer s))")
    case Inl
    with r pw \<open>pq_open W 0 = Inr pw\<close> show ?thesis
      by (cases r) (auto simp: persist_partitions_def res_simps)
  next
    case (Inr m)
    then obtain s' where s': "r = Inr s'" and m: "pq_close W (writer s') = Inr m" by (auto simp: res_simps)
    from res [OF s'] have "length (partition_file_paths s') = length (partition_metadata s' @ [m])"
      and "files s' = chunks (unat mx) (plan_rows plan)"
      by (auto simp: parts_inv_def parts_ok_def)
    with close_keeps [OF m] res [OF s'] r s' m pw \<open>pq_open W 0 = Inr pw\<close> show ?thesis
      by (simp add: persist_partitions_def files_def map_map [symmetric] del: map_map)
  qed
qed (simp add: persist_partitions_def)

end

text \<open>A writer whose operations never fail makes the whole phase fail only when the plan does.\<close>

definition reliable :: "('w, 'p, 'm, 'r, 'e) parquet \<Rightarrow> bool" where
  "reliable W \<longleftrightarrow> (\<forall>n. is_ok (pq_open W n)) \<and> (\<forall>w rows. is_ok (pq_write W w rows)) \<and> (\<forall>w. is_ok (pq_close W w))"

lemma is_ok_bind_res: "is_ok (bind_res r f) \<longleftrightarrow> is_ok r \<and> is_ok (f (projr r))"
  by (cases r) auto

lemma reliable_open:
  assumes "reliable W"
  obtains path w where "pq_open W n = Inr (path, w)"
proof -
  from assms have "is_ok (pq_open W n)" by (simp add: reliable_def)
  then show ?thesis using that by (cases "pq_open W n") auto
qed

lemma reliable_steps:
  assumes "reliable W"
  shows "is_ok (roll_partition W s)" and "is_ok (write_rows W rows s)"
  using assms by (auto simp: reliable_def roll_partition_def write_rows_def is_ok_bind_res split: prod.splits)

lemma fill_partitions_result:
  assumes step: "\<And>W mx l batch s r. reliable W \<Longrightarrow> length batch \<le> l \<Longrightarrow> P W mx l batch s (Inr (batch, s))"
    and rec: "\<And>W mx l batch s s' r. reliable W \<Longrightarrow> l < length batch \<Longrightarrow>
      P W mx (unat mx) (drop l batch) s' r \<Longrightarrow> P W mx l batch s r"
    and "reliable W" and "fill_partitions W mx l batch s = Some r"
  shows "P W mx l batch s r"
proof -
  have "reliable W \<longrightarrow> P W mx l batch s r"
  proof (rule fill_partitions.raw_induct [where P = "\<lambda>W mx l batch s r. reliable W \<longrightarrow> P W mx l batch s r"])
    fix fill and W :: "('a, 'b, 'c, 'd, 'e) parquet" and mx l batch s r
    assume IH: "\<And>W mx l batch s r. fill W mx l batch s = Some r \<Longrightarrow> reliable W \<longrightarrow> P W mx l batch s r"
      and eq: "(if length batch \<le> l then Some (Inr (batch, s))
        else case bind_res (if 0 < l then write_rows W (take l batch) s else Inr s) (roll_partition W) of
          Inl e \<Rightarrow> Some (Inl e) | Inr s' \<Rightarrow> fill W mx (unat mx) (drop l batch) s') = Some r"
    show "reliable W \<longrightarrow> P W mx l batch s r"
    proof
      assume W: "reliable W"
      then have "is_ok (bind_res (if 0 < l then write_rows W (take l batch) s else Inr s) (roll_partition W))"
        using reliable_steps [OF W] by (auto simp: is_ok_bind_res)
      then obtain s' where "bind_res (if 0 < l then write_rows W (take l batch) s else Inr s) (roll_partition W) = Inr s'"
        by (auto simp: is_ok_iff)
      with eq have "length batch \<le> l \<and> r = Inr (batch, s) \<or>
          l < length batch \<and> fill W mx (unat mx) (drop l batch) s' = Some r"
        by (auto split: if_splits)
      then show "P W mx l batch s r"
        using step [OF W] rec [OF W] IH [of W mx "unat mx" "drop l batch" s' r] W by blast
    qed
  qed fact
  then show ?thesis using assms by blast
qed

lemma fill_partitions_reliable:
  "reliable W \<Longrightarrow> fill_partitions W mx l batch s = Some r \<Longrightarrow> is_ok r"
  by (rule fill_partitions_result [where P = "\<lambda>W mx l batch s r. is_ok r"]) auto

lemma fill_partitions_zero:
  assumes "reliable W" and "batch \<noteq> []"
  shows "fill_partitions W 0 0 batch s = None"
proof (rule ccontr)
  assume "fill_partitions W 0 0 batch s \<noteq> None"
  then obtain r where "fill_partitions W 0 0 batch s = Some r" by blast
  with assms show False
    using fill_partitions_result [where P = "\<lambda>W mx l batch s r. mx = 0 \<longrightarrow> l = 0 \<longrightarrow> batch = []"]
    by fastforce
qed

lemma write_stream_reliable:
  "reliable W \<Longrightarrow> \<forall>b \<in> set bs. is_ok b \<Longrightarrow> write_stream W mx bs s = Some r \<Longrightarrow> is_ok r"
proof (induction bs arbitrary: s)
  case (Cons b bs)
  obtain x where b: "b = Inr x" using Cons.prems(2) by (auto simp: is_ok_iff)
  have "is_ok r'" if "write_batch W mx x s = Some r'" for r'
    using that Cons.prems(1) fill_partitions_reliable [OF Cons.prems(1)] reliable_steps(2) [OF Cons.prems(1)]
    by (auto simp: write_batch_def bind_eq_Some_conv is_ok_bind_res split: prod.splits)
  with Cons b show ?case by (auto split: option.splits sum.splits)
qed auto

lemma write_plan_reliable:
  "reliable W \<Longrightarrow> \<forall>p \<in> set ps. is_ok p \<and> (\<forall>b \<in> set (projr p). is_ok b) \<Longrightarrow>
    write_plan W mx ps s = Some r \<Longrightarrow> is_ok r"
proof (induction ps arbitrary: s)
  case (Cons p ps)
  obtain bs where p: "p = Inr bs" using Cons.prems(2) by (auto simp: is_ok_iff)
  have "is_ok r'" if "write_stream W mx bs s = Some r'" for r'
    using write_stream_reliable [OF Cons.prems(1) _ that] Cons.prems(2) p by auto
  with Cons p show ?case by (auto split: option.splits sum.splits)
qed auto

lemma persist_partitions_reliable:
  assumes W: "reliable W" and "\<forall>p \<in> set ps. is_ok p \<and> (\<forall>b \<in> set (projr p). is_ok b)"
    and "persist_partitions W mx ps = Some r"
  shows "is_ok r"
proof -
  obtain path w where "pq_open W 0 = Inr (path, w)" using reliable_open [OF W] .
  with assms(3) obtain u s where u: "write_plan W mx ps s = Some u"
    and r: "r = bind_res u (\<lambda>s. bind_res (pq_close W (writer s)) (\<lambda>file_metadata.
      Inr (zip (partition_file_paths s) (partition_metadata s @ [file_metadata]))))"
    by (auto simp: persist_partitions_def bind_eq_Some_conv)
  have "is_ok u" by (rule write_plan_reliable [OF W assms(2) u])
  then show ?thesis using W unfolding r by (auto simp: is_ok_bind_res reliable_def)
qed

text \<open>The rows of a plan: those of the batches of its partitions, in order.\<close>

definition rows_of_plan :: "('e, ('e, 'r list) result list) result list \<Rightarrow> 'r list" where
  "rows_of_plan plan = concat (map projr (concat (map projr plan)))"

text \<open>
  re-chunking. With a row limit that is not zero the first phase of \<open>plan_to_object_store\<close> ends.
  If it succeeds, no partition and no batch of the plan was an error and the temporary files hold the rows
  of all partitions in their order, cut into chunks of the limit: every file but the last one is full,
  and a plan without rows gives one empty file. When the writer never fails, it does succeed on
  every plan without errors.
\<close>
theorem partition_files_are_chunks:
  assumes W: "parquet_writer W content file_rows" and mx: "0 < mx"
  shows "\<exists>r. persist_partitions W mx plan = Some r \<and>
    (\<forall>fs. r = Inr fs \<longrightarrow> map (file_rows \<circ> snd) fs = chunks (unat mx) (rows_of_plan plan) \<and>
      (\<forall>p \<in> set plan. is_ok p \<and> (\<forall>b \<in> set (projr p). is_ok b))) \<and>
    (reliable W \<longrightarrow> (\<forall>p \<in> set plan. is_ok p \<and> (\<forall>b \<in> set (projr p). is_ok b)) \<longrightarrow> is_ok r)"
proof -
  have "0 < unat mx" using mx by (simp add: unat_gt_0)
  from parquet_writer.persist_partitions_ok [OF W this, of plan] show ?thesis
    using persist_partitions_reliable [of W plan mx]
    by (auto simp: parquet_writer.plan_rows_def [OF W] rows_of_plan_def)
qed

text \<open>A writer that keeps the rows in memory.\<close>

definition memory_parquet :: "('r list, nat, 'r list, 'r, string) parquet" where
  "memory_parquet = \<lparr>pq_open = (\<lambda>n. Inr (n, [])), pq_write = (\<lambda>w rows. Inr (w @ rows)), pq_close = Inr\<rparr>"

interpretation memory_parquet: parquet_writer memory_parquet "\<lambda>w. w" "\<lambda>m. m"
  by unfold_locales (auto simp: memory_parquet_def)

lemma reliable_memory_parquet [simp]: "reliable memory_parquet"
  by (simp add: reliable_def memory_parquet_def)

lemma partition_files_are_chunks_witness:
  "\<exists>fs. persist_partitions memory_parquet 2 [Inr [Inr [1, 2, 3::nat]], Inr [Inr [4], Inr [5]]] = Some (Inr fs) \<and>
     map snd fs = [[1, 2], [3, 4], [5]]"
proof -
  let ?plan = "[Inr [Inr [1, 2, 3::nat]], Inr [Inr [4], Inr [5]]]"
  have "chunks (unat (2 :: 32 word)) (rows_of_plan ?plan) = [[1, 2], [3, 4], [5::nat]]"
    by code_simp
  with partition_files_are_chunks [OF memory_parquet.parquet_writer_axioms, of 2 ?plan]
  show ?thesis by (auto simp: is_ok_iff comp_def)
qed

text \<open>
  a row limit of zero. Nothing refuses \<open>max_partition_size = 0\<close>: on the first batch with a row the
  inner loop then opens one empty temporary file after the other and never ends.
\<close>
theorem zero_partition_size_never_ends:
  assumes "reliable W" and "b \<noteq> []"
  shows "persist_partitions W 0 (Inr (Inr b # bs) # ps) = None"
proof -
  obtain path w where "pq_open W 0 = Inr (path, w)" using reliable_open [OF assms(1)] .
  then show ?thesis
    using fill_partitions_zero [OF assms] by (simp add: persist_partitions_def write_batch_def)
qed

lemma zero_partition_size_never_ends_witness:
  "persist_partitions memory_parquet 0 [Inr [Inr [True]]] = None"
  using zero_partition_size_never_ends [of memory_parquet "[True]"] by simp

subsection \<open>Uploading the partition files\<close>

type_synonym bytes = "8 word list"

definition PARTITION_FILE_MIN_PART_SIZE :: nat where
  "PARTITION_FILE_MIN_PART_SIZE = 5 * 1024 * 1024"

text \<open>Filling up with zeros from the left.\<close>

definition pad_left :: "nat \<Rightarrow> char \<Rightarrow> string \<Rightarrow> string" where
  "pad_left n c s = replicate (n - length s) c @ s"

text \<open>\<open>part-{part:0>5}-{partitions_uuid}-c000.snappy.parquet\<close>\<close>

definition part_file_name :: "string \<Rightarrow> nat \<Rightarrow> string" where
  "part_file_name partitions_uuid part =
     ''part-'' @ pad_left 5 CHR ''0'' (show_nat part) @ ''-'' @ partitions_uuid @ ''-c000.snappy.parquet''"

text \<open>
  The file system and the object store: \<open>up_reads\<close> are the results of the reads of a file in turn (after
  the last one every read returns no bytes), \<open>up_put_part l n\<close> is the upload of the \<open>n\<close>-th part of the
  multipart upload to \<open>l\<close>. A failed \<open>rename\<close> has an error code. \<open>up_create_add\<close> is \<open>create_add\<close> of delta-rs.
\<close>

record ('p, 'm, 'e, 'add) uploads =
  up_len :: "'p \<Rightarrow> ('e, int) result"
  up_content :: "'p \<Rightarrow> bytes"
  up_open :: "'p \<Rightarrow> ('e, unit) result"
  up_reads :: "'p \<Rightarrow> ('e, bytes) result list"
  up_put_multipart :: "string \<Rightarrow> ('e, unit) result"
  up_put_part :: "string \<Rightarrow> nat \<Rightarrow> bytes \<Rightarrow> ('e, unit) result"
  up_complete :: "string \<Rightarrow> ('e, unit) result"
  up_rename :: "'p \<Rightarrow> string \<Rightarrow> (int option \<times> 'e, unit) result"
  up_copy :: "'p \<Rightarrow> string \<Rightarrow> ('e, unit) result"
  up_remove :: "'p \<Rightarrow> ('e, unit) result"
  up_create_add :: "string \<Rightarrow> int \<Rightarrow> 'm \<Rightarrow> ('e, 'add) result"

text \<open>The loop of the multipart upload: the buffered bytes, the end-of-file counter, the parts so far.\<close>

function upload_parts ::
    "(nat \<Rightarrow> bytes \<Rightarrow> ('e, unit) result) \<Rightarrow> ('e, bytes) result list \<Rightarrow> bytes \<Rightarrow> nat \<Rightarrow> bytes list \<Rightarrow>
      ('e, bytes list) result" where
  "upload_parts put_part reads part_buffer eof_counter parts =
     (case (case reads of [] \<Rightarrow> Inr [] | r # _ \<Rightarrow> r) of
        Inl e \<Rightarrow> Inl e
      | Inr read \<Rightarrow>
          if read = [] \<and> part_buffer = [] then
            if 3 \<le> eof_counter + 1 then Inr parts
            else upload_parts put_part (tl reads) [] (eof_counter + 1) parts
          else if read \<noteq> [] \<and> length (part_buffer @ read) < PARTITION_FILE_MIN_PART_SIZE then
            upload_parts put_part (tl reads) (part_buffer @ read) 0 parts
          else case put_part (length parts) (part_buffer @ read) of
            Inl e \<Rightarrow> Inl e
          | Inr _ \<Rightarrow> upload_parts put_part (tl reads) [] eof_counter (parts @ [part_buffer @ read]))"
  by pat_completeness auto
termination
  by (relation "measures [\<lambda>(_, reads, _). length reads, \<lambda>(_, _, buf, _). length buf,
        \<lambda>(_, _, _, eof, _). 3 - eof]")
    (auto split: list.splits)

declare upload_parts.simps [simp del]

text \<open>Moving the file on a local file system (\<open>fast_upload\<close> of \<open>src/object_store/utils.rs\<close>).\<close>

type_synonym objects = "string \<rightharpoonup> bytes"

definition fast_upload ::
    "('p, 'm, 'e, 'add) uploads \<Rightarrow> 'p \<Rightarrow> string \<Rightarrow> (objects, 'e, unit) st" where
  "fast_upload U path to = (\<lambda>objs.
     case up_rename U path to of
       Inr _ \<Rightarrow> (Inr (), objs(to \<mapsto> up_content U path))
     | Inl (code, e) \<Rightarrow>
         if code = Some 18 then
           case up_copy U path to of
             Inl e' \<Rightarrow> (Inl e', objs)
           | Inr _ \<Rightarrow> (up_remove U path, objs(to \<mapsto> up_content U path))
         else (Inl e, objs))"

definition multipart_upload ::
    "('p, 'm, 'e, 'add) uploads \<Rightarrow> 'p \<Rightarrow> string \<Rightarrow> (objects, 'e, unit) st" where
  "multipart_upload U path file_name =
     bind_st (lift_res (up_open U path)) (\<lambda>_.
     bind_st (lift_res (up_put_multipart U file_name)) (\<lambda>_.
     bind_st (lift_res (upload_parts (up_put_part U file_name) (up_reads U path) [] 0 [])) (\<lambda>parts.
     bind_st (lift_res (up_complete U file_name)) (\<lambda>_.
     modify_st (\<lambda>objs. objs(file_name \<mapsto> concat parts))))))"

definition upload_partition ::
    "('p, 'm, 'e, 'add) uploads \<Rightarrow> string option \<Rightarrow> string \<Rightarrow> nat \<Rightarrow> 'p \<times> 'm \<Rightarrow> (objects, 'e, 'add) st" where
  "upload_partition U local_data_dir partitions_uuid part file =
     (let file_name = part_file_name partitions_uuid part in
      bind_st (lift_res (up_len U (fst file))) (\<lambda>size.
      bind_st (case local_data_dir of
          Some data_dir \<Rightarrow> fast_upload U (fst file) (data_dir @ ''/'' @ file_name)
        | None \<Rightarrow> multipart_upload U (fst file) file_name) (\<lambda>_.
      lift_res (up_create_add U file_name size (snd file)))))"

text \<open>
  The tasks run on different objects; all of them run to their end, and the first error in the order of
  the parts is the result.
\<close>

fun upload_all ::
    "('p, 'm, 'e, 'add) uploads \<Rightarrow> string option \<Rightarrow> string \<Rightarrow> nat \<Rightarrow> ('p \<times> 'm) list \<Rightarrow> objects \<Rightarrow>
      ('e, 'add) result list \<times> objects" where
  "upload_all U dir uuid part [] objs = ([], objs)"
| "upload_all U dir uuid part (f # fs) objs =
     (case upload_partition U dir uuid part f objs of
        (r, objs') \<Rightarrow> case upload_all U dir uuid (part + 1) fs objs' of (rs, objs'') \<Rightarrow> (r # rs, objs''))"

definition plan_to_object_store ::
    "('w, 'p, 'm, 'r, 'e) parquet \<Rightarrow> ('p, 'm, 'e, 'add) uploads \<Rightarrow>
      ('e, ('e, 'r list) result list) result list \<Rightarrow> string option \<Rightarrow> 32 word \<Rightarrow> string \<Rightarrow> objects \<Rightarrow>
      (('e, 'add list) result \<times> objects) option" where
  "plan_to_object_store W U plan local_data_dir max_partition_size partitions_uuid objs =
     (case persist_partitions W max_partition_size plan of
        None \<Rightarrow> None
      | Some (Inl e) \<Rightarrow> Some (Inl e, objs)
      | Some (Inr files) \<Rightarrow>
          case upload_all U local_data_dir partitions_uuid 0 files objs of
            (rs, objs') \<Rightarrow> Some (collect_res (\<lambda>r. r) rs, objs'))"

subsection \<open>What an upload stores\<close>

lemma upload_parts_eof: "upload_parts put [] [] eof parts = Inr parts"
proof (induction "3 - eof" arbitrary: eof)
  case 0
  then show ?case by (subst upload_parts.simps) simp
next
  case (Suc n)
  have "upload_parts put [] [] (eof + 1) parts = Inr parts" using Suc.hyps(1) [of "eof + 1"] Suc.hyps(2) by simp
  then show ?case by (subst upload_parts.simps) simp
qed

lemma upload_parts_chunks:
  assumes "upload_parts put reads buf eof parts = Inr parts'"
    and "\<forall>r \<in> set reads. r \<noteq> Inr []" and "length buf < PARTITION_FILE_MIN_PART_SIZE"
  shows "\<exists>ps. parts' = parts @ ps \<and> concat ps = buf @ concat (map projr reads) \<and> [] \<notin> set ps \<and>
    (\<forall>p \<in> set (butlast ps). PARTITION_FILE_MIN_PART_SIZE \<le> length p) \<and> (\<forall>r \<in> set reads. is_ok r)"
  using assms
proof (induction reads arbitrary: buf eof parts)
  case Nil
  show ?case
  proof (cases "buf = []")
    case True
    with Nil.prems(1) show ?thesis by (auto simp: upload_parts_eof)
  next
    case False
    then have "parts' = parts @ [buf]"
      using Nil.prems(1) by (subst (asm) upload_parts.simps) (auto simp: upload_parts_eof split: sum.splits)
    with False show ?thesis by auto
  qed
next
  case (Cons r reads)
  obtain d where r: "r = Inr d" and d: "d \<noteq> []"
    using Cons.prems(1,2) by (cases r) (auto simp: upload_parts.simps [of _ "_ # _"])
  show ?case
  proof (cases "length (buf @ d) < PARTITION_FILE_MIN_PART_SIZE")
    case True
    with Cons.prems(1) r d have "upload_parts put reads (buf @ d) 0 parts = Inr parts'"
      by (subst (asm) upload_parts.simps) simp
    from Cons.IH [OF this] Cons.prems(2) True r show ?thesis by simp
  next
    case False
    with Cons.prems(1) r d have "upload_parts put reads [] eof (parts @ [buf @ d]) = Inr parts'"
      by (subst (asm) upload_parts.simps) (simp split: sum.splits)
    from Cons.IH [OF this] Cons.prems(2) obtain ps where ps: "parts' = parts @ (buf @ d) # ps"
      "concat ps = concat (map projr reads)" "[] \<notin> set ps"
      "\<forall>p \<in> set (butlast ps). PARTITION_FILE_MIN_PART_SIZE \<le> length p" "\<forall>r \<in> set reads. is_ok r"
      by (auto simp: PARTITION_FILE_MIN_PART_SIZE_def)
    with False d r show ?thesis by (intro exI [of _ "(buf @ d) # ps"]) auto
  qed
qed

lemma upload_parts_succeeds:
  assumes "\<forall>r \<in> set reads. is_ok r" and put: "\<And>n p. is_ok (put n p)"
  shows "is_ok (upload_parts put reads buf eof parts)"
  using assms(1)
proof (induction reads arbitrary: buf eof parts)
  case Nil
  obtain x where "put (length parts) buf = Inr x" using put [of "length parts" buf] by (auto simp: is_ok_iff)
  then show ?case by (cases "buf = []") (simp_all add: upload_parts_eof, subst upload_parts.simps, simp add: upload_parts_eof)
next
  case (Cons r reads)
  obtain d where r: "r = Inr d" using Cons.prems by (auto simp: is_ok_iff)
  obtain x where "put (length parts) (buf @ d) = Inr x"
    using put [of "length parts" "buf @ d"] by (auto simp: is_ok_iff)
  then show ?case
    using Cons r by (subst upload_parts.simps) simp
qed

text \<open>The names of the parts differ, so no upload overwrites another.\<close>

lemma read_pad_left [simp]: "read_nat (pad_left k CHR ''0'' s) = read_nat s"
proof -
  have "foldl (\<lambda>n c. 10 * n + (of_char c - 48)) 0 (replicate k CHR ''0'' @ s) = read_nat s" for k
    by (induction k) (auto simp: read_nat_def)
  then show ?thesis by (simp add: pad_left_def read_nat_def)
qed

lemma part_file_name_inj: "part_file_name uuid i = part_file_name uuid j \<Longrightarrow> i = j"
proof -
  assume "part_file_name uuid i = part_file_name uuid j"
  then have "pad_left 5 CHR ''0'' (show_nat i) = pad_left 5 CHR ''0'' (show_nat j)"
    by (simp add: part_file_name_def)
  then have "read_nat (pad_left 5 CHR ''0'' (show_nat i)) = read_nat (pad_left 5 CHR ''0'' (show_nat j))"
    by simp
  then show "i = j" by simp
qed

text \<open>
  What the code relies on of the temporary files: before the end of the file a read returns at least one
  byte, and the bytes that are read are those of the file.
\<close>

definition reads_file :: "('p, 'm, 'e, 'add) uploads \<Rightarrow> 'p \<Rightarrow> bool" where
  "reads_file U path \<longleftrightarrow> Inr [] \<notin> set (up_reads U path) \<and>
     ((\<forall>r \<in> set (up_reads U path). is_ok r) \<longrightarrow> concat (map projr (up_reads U path)) = up_content U path)"

definition part_location :: "string option \<Rightarrow> string \<Rightarrow> nat \<Rightarrow> string" where
  "part_location dir uuid i = (case dir of None \<Rightarrow> part_file_name uuid i
     | Some data_dir \<Rightarrow> data_dir @ ''/'' @ part_file_name uuid i)"

lemma part_location_inj [simp]: "part_location dir uuid i = part_location dir uuid j \<longleftrightarrow> i = j"
  using part_file_name_inj by (auto simp: part_location_def split: option.splits)

lemma multipart_upload_ok:
  assumes "multipart_upload U path name objs = (r, objs')" and "reads_file U path"
  shows "r = Inr u \<Longrightarrow> objs' = objs(name \<mapsto> up_content U path)" and "\<not> is_ok r \<Longrightarrow> objs' = objs"
proof -
  assume "r = Inr u"
  then obtain parts where "upload_parts (up_put_part U name) (up_reads U path) [] 0 [] = Inr parts"
    and objs': "objs' = objs(name \<mapsto> concat parts)"
    using assms(1) by (auto simp: multipart_upload_def res_simps)
  moreover have "\<forall>r \<in> set (up_reads U path). r \<noteq> Inr []" using assms(2) by (auto simp: reads_file_def)
  ultimately have "concat parts = concat (map projr (up_reads U path)) \<and> (\<forall>r \<in> set (up_reads U path). is_ok r)"
    using upload_parts_chunks [of "up_put_part U name" "up_reads U path" "[]" 0 "[]" parts]
    by (simp add: PARTITION_FILE_MIN_PART_SIZE_def)
  then have "concat parts = up_content U path" using assms(2) by (simp add: reads_file_def)
  with objs' show "objs' = objs(name \<mapsto> up_content U path)" by simp
next
  assume "\<not> is_ok r"
  then obtain e where "r = Inl e" by (cases r) auto
  with assms(1) show "objs' = objs" by (auto simp: multipart_upload_def res_simps)
qed

lemma fast_upload_ok:
  assumes "fast_upload U path to objs = (r, objs')"
  shows "r = Inr u \<Longrightarrow> objs' = objs(to \<mapsto> up_content U path)" and "l \<noteq> to \<Longrightarrow> objs' l = objs l"
  using assms by (auto simp: fast_upload_def split: sum.splits if_splits prod.splits)

lemma upload_partition_ok:
  assumes "upload_partition U dir uuid part f objs = (r, objs')" and "reads_file U (fst f)"
  shows "r = Inr add \<Longrightarrow> objs' (part_location dir uuid part) = Some (up_content U (fst f)) \<and>
      (\<exists>size. up_len U (fst f) = Inr size \<and> up_create_add U (part_file_name uuid part) size (snd f) = Inr add)"
    and "l \<noteq> part_location dir uuid part \<Longrightarrow> objs' l = objs l"
proof -
  define up where "up = (case dir of
      Some data_dir \<Rightarrow> fast_upload U (fst f) (data_dir @ ''/'' @ part_file_name uuid part)
    | None \<Rightarrow> multipart_upload U (fst f) (part_file_name uuid part))"
  have up_ok: "objs' = objs(part_location dir uuid part \<mapsto> up_content U (fst f))" if "up objs = (Inr u, objs')" for u objs'
    using that multipart_upload_ok(1) [OF _ assms(2)] fast_upload_ok(1)
    by (fastforce simp: up_def part_location_def split: option.splits)
  have up_other: "objs' l = objs l" if "up objs = (r, objs')" and "l \<noteq> part_location dir uuid part" for r objs'
    using that multipart_upload_ok [OF _ assms(2)] fast_upload_ok(2)
    by (cases dir; cases r) (fastforce simp: up_def part_location_def)+
  have eq: "bind_st (lift_res (up_len U (fst f))) (\<lambda>size. bind_st up (\<lambda>_.
      lift_res (up_create_add U (part_file_name uuid part) size (snd f)))) objs = (r, objs')"
    using assms(1) by (simp add: upload_partition_def up_def Let_def)
  show "r = Inr add \<Longrightarrow> objs' (part_location dir uuid part) = Some (up_content U (fst f)) \<and>
      (\<exists>size. up_len U (fst f) = Inr size \<and> up_create_add U (part_file_name uuid part) size (snd f) = Inr add)"
    using eq up_ok by (auto simp: res_simps)
  show "objs' l = objs l" if "l \<noteq> part_location dir uuid part"
    using eq up_ok up_other [OF _ that] that by (cases r) (auto simp: res_simps)
qed

definition part_stored ::
    "('p, 'm, 'e, 'add) uploads \<Rightarrow> string option \<Rightarrow> string \<Rightarrow> objects \<Rightarrow> nat \<Rightarrow> 'p \<times> 'm \<Rightarrow> 'add \<Rightarrow> bool" where
  "part_stored U dir uuid objs part f add \<longleftrightarrow>
     objs (part_location dir uuid part) = Some (up_content U (fst f)) \<and>
     (\<exists>size. up_len U (fst f) = Inr size \<and> up_create_add U (part_file_name uuid part) size (snd f) = Inr add)"

lemma upload_all_ok:
  assumes "upload_all U dir uuid k fs objs = (rs, objs')" and "\<forall>f \<in> set fs. reads_file U (fst f)"
  shows "length rs = length fs \<and> (\<forall>l. l \<notin> part_location dir uuid ` {k..<k + length fs} \<longrightarrow> objs' l = objs l) \<and>
    (\<forall>i < length fs. \<forall>add. rs ! i = Inr add \<longrightarrow> part_stored U dir uuid objs' (k + i) (fs ! i) add)"
  using assms
proof (induction fs arbitrary: k objs rs)
  case (Cons f fs)
  obtain r u where r: "upload_partition U dir uuid k f objs = (r, u)" by fastforce
  obtain rs' where rs': "upload_all U dir uuid (k + 1) fs u = (rs', objs')" and rs: "rs = r # rs'"
    using Cons.prems(1) r by (auto split: prod.splits)
  have reads: "reads_file U (fst f)" "\<forall>f \<in> set fs. reads_file U (fst f)" using Cons.prems(2) by auto
  note first = upload_partition_ok [OF r reads(1)]
  note rest = Cons.IH [OF rs' reads(2)]
  have dom: "part_location dir uuid ` {k..<k + length (f # fs)} =
      insert (part_location dir uuid k) (part_location dir uuid ` {k + 1..<k + 1 + length fs})"
    by (auto simp: image_iff less_Suc_eq_le)
  have "part_location dir uuid k \<notin> part_location dir uuid ` {k + 1..<k + 1 + length fs}" by auto
  then have keep: "objs' (part_location dir uuid k) = u (part_location dir uuid k)" using rest by blast
  have "part_stored U dir uuid objs' (k + i) ((f # fs) ! i) add" if "i < length (f # fs)" "rs ! i = Inr add" for i add
  proof (cases i)
    case 0
    with that(2) rs first(1) [of add] keep show ?thesis by (simp add: part_stored_def)
  next
    case (Suc j)
    with that rs rest show ?thesis by simp
  qed
  moreover have "objs' l = objs l" if "l \<notin> part_location dir uuid ` {k..<k + length (f # fs)}" for l
    using that rest first(2) [of l] unfolding dom by simp
  ultimately show ?case using rest rs by simp
qed auto


text \<open>An object store in memory that takes every part, and temporary files of one byte per row.\<close>

definition memory_uploads :: "(nat, nat list, string, string \<times> int) uploads" where
  "memory_uploads = \<lparr>up_len = (\<lambda>p. Inr (int p)), up_content = (\<lambda>p. [of_nat p]), up_open = (\<lambda>_. Inr ()),
     up_reads = (\<lambda>p. [Inr [of_nat p]]), up_put_multipart = (\<lambda>_. Inr ()), up_put_part = (\<lambda>_ _ _. Inr ()),
     up_complete = (\<lambda>_. Inr ()), up_rename = (\<lambda>_ _. Inl (Some 18, ''EXDEV'')), up_copy = (\<lambda>_ _. Inr ()),
     up_remove = (\<lambda>_. Inr ()), up_create_add = (\<lambda>name size _. Inr (name, size))\<rparr>"

lemma second_part_stored:
  assumes "map ((\<lambda>m. m) \<circ> snd) files = [a, b]" and "length adds = length files"
    and "\<forall>i < length files. part_stored memory_uploads None ''u'' objs' i (files ! i) (adds ! i)"
  shows "length adds = 2" and "\<exists>p. objs' ''part-00001-u-c000.snappy.parquet'' = Some [of_nat p]"
proof -
  have len: "length files = 2" using arg_cong [OF assms(1), of length] by simp
  then show "length adds = 2" using assms(2) by simp
  have "part_file_name ''u'' 1 = ''part-00001-u-c000.snappy.parquet''" by code_simp
  moreover have "part_stored memory_uploads None ''u'' objs' 1 (files ! 1) (adds ! 1)"
    using assms(3) len by simp
  ultimately show "\<exists>p. objs' ''part-00001-u-c000.snappy.parquet'' = Some [of_nat p]"
    by (auto simp: part_stored_def part_location_def memory_uploads_def)
qed


text \<open>
  the multipart upload. When the file is read without errors and every part is accepted, the upload ends;
  the parts put together are the bytes that were read, none of them is empty, and every part but the last
  one has at least the five megabytes that object stores require.
\<close>
theorem multipart_upload_parts:
  assumes "\<forall>r \<in> set reads. is_ok r \<and> r \<noteq> Inr []" and "\<And>n p. is_ok (put n p)"
  shows "\<exists>parts. upload_parts put reads [] 0 [] = Inr parts \<and> concat parts = concat (map projr reads) \<and>
    [] \<notin> set parts \<and> (\<forall>p \<in> set (butlast parts). PARTITION_FILE_MIN_PART_SIZE \<le> length p)"
proof -
  have "is_ok (upload_parts put reads [] 0 [])"
    using assms by (intro upload_parts_succeeds) auto
  then obtain parts where parts: "upload_parts put reads [] 0 [] = Inr parts"
    by (auto simp: is_ok_iff)
  from upload_parts_chunks [OF this] assms(1) have "\<exists>ps. parts = [] @ ps \<and> concat ps = [] @ concat (map projr reads) \<and>
      [] \<notin> set ps \<and> (\<forall>p \<in> set (butlast ps). PARTITION_FILE_MIN_PART_SIZE \<le> length p) \<and> (\<forall>r \<in> set reads. is_ok r)"
    by (simp add: PARTITION_FILE_MIN_PART_SIZE_def)
  with parts show ?thesis by auto
qed

lemma multipart_upload_parts_witness:
  "\<exists>parts. upload_parts (\<lambda>_ _. Inr ()) [Inr [1, 2], Inr [3]] [] 0 [] = (Inr parts :: (string, bytes list) result) \<and>
     concat parts = [1, 2, 3]"
  using multipart_upload_parts [of "[Inr [1, 2], Inr [3]]" "\<lambda>_ _. Inr ()"] by auto

end
