(* ===== verification/Context.thy ===== *)
theory Context
  imports FunctionStore CatalogList DeltaWrite
begin

text \<open>
  The Seafowl context (\<open>src/context/mod.rs\<close>) over the metastore (\<open>src/catalog/metastore.rs\<close>) and the
  session that it fills for DataFusion (\<open>src/provider.rs\<close>): before a statement is planned the schemas
  and tables of the default catalog are listed and turned into providers, through which the handlers
  then find a table and its uuid.
\<close>

subsection \<open>Errors\<close>

datatype df_error =
    Plan string | CatalogPlan catalog_error | Execution string | NotImplementedDf string
  | Internal string | External string | DfPanic

text \<open>\<open>From<CatalogError> for DataFusionError\<close>; the text of the error is left as the error itself.\<close>

fun df_error_of :: "catalog_error \<Rightarrow> df_error" where
  "df_error_of (NotImplemented reason) = NotImplementedDf reason"
| "df_error_of (Panicked _) = DfPanic"
| "df_error_of e = CatalogPlan e"


subsection \<open>The metastore builds the providers\<close>

text \<open>
  \<open>ObjectStoreFactory\<close>: \<open>os_parse\<close> is \<open>Url::parse\<close>, \<open>os_for_table\<close> is \<open>get_log_store_for_table\<close> and
  \<open>os_default\<close> is \<open>get_default_log_store\<close>. A provider is the log store of a Delta table, with a mark whether the
  table has been loaded; \<open>build_table\<close> does not load it.
\<close>

record ('url, 'ls) object_stores =
  os_parse :: "string \<Rightarrow> (catalog_error, 'url) result"
  os_for_table :: "'url \<Rightarrow> (string \<times> string) list \<Rightarrow> string \<Rightarrow> (catalog_error, 'ls) result"
  os_default :: "string \<Rightarrow> 'ls option"

text \<open>Collecting pairs into a hash map: a later pair of the same key replaces an earlier one.\<close>

definition collect_map :: "('k \<times> 'v) list \<Rightarrow> ('k, 'v) imap" where
  "collect_map kvs = fold (\<lambda>(k, v) m. imap_insert k v m) kvs []"

definition build_table ::
    "('url, 'ls) object_stores \<Rightarrow> (string, string \<times> (string \<times> string) list) imap \<Rightarrow> table_object \<Rightarrow>
      (catalog_error, string \<times> 'ls \<times> bool) result" where
  "build_table OS store_options table =
     bind_res (case to_store table of
         Some name \<Rightarrow>
           bind_res (ok_or (Generic (''Object store with name '' @ name @ '' not found''))
             (imap_get store_options name)) (\<lambda>(location, this_store_options).
           bind_res (os_parse OS location) (\<lambda>url.
             os_for_table OS url this_store_options (to_path table)))
       | None \<Rightarrow> ok_or (NoTableStoreInInlineMetastore (to_name table)) (os_default OS (to_path table)))
     (\<lambda>table_log_store. Inr (to_name table, table_log_store, False))"

definition build_schema ::
    "('url, 'ls) object_stores \<Rightarrow> (string, string \<times> (string \<times> string) list) imap \<Rightarrow> schema_object \<Rightarrow>
      (catalog_error, string \<times> (string, 'ls \<times> bool) imap) result" where
  "build_schema OS store_options schema =
     bind_res (collect_res (build_table OS store_options) (so_tables schema)) (\<lambda>tables.
       Inr (so_name schema, collect_map tables))"

text \<open>The schemas of a \<open>SeafowlDatabase\<close>; its staging and system schema are kept apart.\<close>

type_synonym 'ls schemas = "(string, (string, 'ls \<times> bool) imap) imap"

definition build_catalog ::
    "('url, 'ls) object_stores \<Rightarrow> (string \<Rightarrow> ('s, catalog_error, list_schema_response) st) \<Rightarrow> string \<Rightarrow>
      ('s, catalog_error, 'ls schemas) st" where
  "build_catalog OS list_schemas catalog_name =
     bind_st (list_schemas catalog_name) (\<lambda>catalog_schemas.
     let store_options = collect_map (map (\<lambda>store. (st_name store, (st_location store, st_options store)))
           (ls_stores catalog_schemas)) in
     lift_res (bind_res (collect_res (build_schema OS store_options) (ls_schemas catalog_schemas)) (\<lambda>schemas.
       Inr (collect_map schemas))))"


subsection \<open>The providers\<close>

definition SYSTEM_SCHEMA :: string where "SYSTEM_SCHEMA = ''system''"

text \<open>What a name of a schema or of a table stands for in the session.\<close>

datatype 'ls schema_provider = Staging | System | Seafowl "(string, 'ls \<times> bool) imap"

datatype 'ls table_provider = Delta 'ls | Foreign

definition database_schema_names :: "'ls schemas \<Rightarrow> string list" where
  "database_schema_names schemas = map fst schemas @ [STAGING_SCHEMA, SYSTEM_SCHEMA]"

definition database_schema :: "'ls schemas \<Rightarrow> string \<Rightarrow> 'ls schema_provider option" where
  "database_schema schemas name =
     (if name = STAGING_SCHEMA then Some Staging
      else if name = SYSTEM_SCHEMA then Some System
      else map_option Seafowl (imap_get schemas name))"

text \<open>\<open>register_table\<close> of \<open>SeafowlSchema\<close>.\<close>

definition schema_register_table ::
    "string \<Rightarrow> 'ls \<times> bool \<Rightarrow> (string, 'ls \<times> bool) imap \<Rightarrow> (df_error, (string, 'ls \<times> bool) imap) result" where
  "schema_register_table name table tables =
     (if imap_get tables name \<noteq> None then Inl (Execution (''The table '' @ name @ '' already exists''))
      else Inr (imap_insert name table tables))"

text \<open>\<open>table\<close> of \<open>SeafowlSchema\<close>: a table is loaded when it is first asked for.\<close>

definition schema_table ::
    "('ls \<Rightarrow> ('l, df_error, unit) st) \<Rightarrow> string \<Rightarrow> (string, 'ls \<times> bool) imap \<Rightarrow>
      ('l, df_error, ('ls \<times> (string, 'ls \<times> bool) imap) option) st" where
  "schema_table load name tables =
     (case imap_get tables name of
        None \<Rightarrow> return_st None
      | Some (ls, True) \<Rightarrow> return_st (Some (ls, tables))
      | Some (ls, False) \<Rightarrow> bind_st (load ls) (\<lambda>_. return_st (Some (ls, imap_insert name (ls, True) tables))))"


subsection \<open>The context\<close>

record resolved_ref =
  rr_catalog :: string
  rr_schema :: string
  rr_table :: string

text \<open>
  What the context uses of DataFusion, delta-rs and the object store: references to tables
  (\<open>en_ref\<close> reads the text of a reference), loading, the path of a table, \<open>Uuid::try_parse\<close> and the
  decoding and compilation of a user-defined function.
\<close>

record ('ref, 'ls, 'l) engine =
  en_ref :: "string \<Rightarrow> 'ref"
  en_full :: "resolved_ref \<Rightarrow> 'ref"
  en_ref_string :: "'ref \<Rightarrow> string"
  en_resolve :: "'ref \<Rightarrow> string \<Rightarrow> string \<Rightarrow> resolved_ref"
  en_load :: "'ls \<Rightarrow> ('l, df_error, unit) st"
  en_uri_parts :: "'ls \<Rightarrow> string list"
  en_parse_uuid :: "string \<Rightarrow> uuid option"
  en_create_udf :: "string \<Rightarrow> CreateFunctionDetails \<Rightarrow> (df_error, unit) result"

text \<open>The metastore as the context calls it: a repository, or one of the stores that only list.\<close>

record ('s, 'f) metastore =
  ms_repository :: "('s, 'f) repository"
  ms_list_schemas :: "string \<Rightarrow> ('s, catalog_error, list_schema_response) st"
  ms_functions :: "string \<Rightarrow> ('s, catalog_error, SeafowlFunction list) st"

record 'ls seafowl_context =
  cx_default_catalog :: string
  cx_default_schema :: string
  cx_internal :: "(string \<Rightarrow> 'ls) option" \<comment> \<open>\<open>get_log_store\<close> of the internal object store\<close>

text \<open>The metadata, the lake, and what the session of DataFusion holds for this context.\<close>

record ('s, 'l, 'ls) world =
  w_repo :: 's
  w_lake :: 'l
  w_schemas :: "'ls schemas option"
  w_staging :: "string list"
  w_udfs :: "string list"

type_synonym ('s, 'l, 'ls, 'a) act = "(('s, 'l, 'ls) world, df_error, 'a) st"

definition on_repo :: "('s, catalog_error, 'a) st \<Rightarrow> ('s, 'l, 'ls, 'a) act" where
  "on_repo m = (\<lambda>w. case m (w_repo w) of (r, s) \<Rightarrow> (map_err df_error_of r, w\<lparr>w_repo := s\<rparr>))"

definition on_lake :: "('l, df_error, 'a) st \<Rightarrow> ('s, 'l, 'ls, 'a) act" where
  "on_lake m = (\<lambda>w. case m (w_lake w) of (r, l) \<Rightarrow> (r, w\<lparr>w_lake := l\<rparr>))"

definition scope_to :: "string \<Rightarrow> string \<Rightarrow> 'ls seafowl_context \<Rightarrow> 'ls seafowl_context" where
  "scope_to catalog schema cx = cx\<lparr>cx_default_catalog := catalog, cx_default_schema := schema\<rparr>"

definition scope_to_catalog :: "string \<Rightarrow> 'ls seafowl_context \<Rightarrow> 'ls seafowl_context" where
  "scope_to_catalog catalog cx = scope_to catalog DEFAULT_SCHEMA cx"

definition scope_to_schema :: "string \<Rightarrow> 'ls seafowl_context \<Rightarrow> 'ls seafowl_context" where
  "scope_to_schema schema cx = scope_to (cx_default_catalog cx) schema cx"

definition register_function ::
    "('ref, 'ls, 'l) engine \<Rightarrow> string \<Rightarrow> CreateFunctionDetails \<Rightarrow> ('s, 'l, 'ls, unit) act" where
  "register_function E name details =
     bind_st (lift_res (en_create_udf E name details)) (\<lambda>_.
     modify_st (\<lambda>w. w\<lparr>w_udfs := (if name \<in> set (w_udfs w) then w_udfs w else w_udfs w @ [name])\<rparr>))"

fun register_functions ::
    "('ref, 'ls, 'l) engine \<Rightarrow> SeafowlFunction list \<Rightarrow> ('s, 'l, 'ls, unit) act" where
  "register_functions E [] = return_st ()"
| "register_functions E (f # fs) = bind_st (register_function E (function_name f) (function_details f)) (\<lambda>_.
     register_functions E fs)"

definition reload_schema ::
    "('ref, 'ls, 'l) engine \<Rightarrow> ('url, 'ls) object_stores \<Rightarrow> ('s, 'f) metastore \<Rightarrow> 'ls seafowl_context \<Rightarrow>
      ('s, 'l, 'ls, unit) act" where
  "reload_schema E OS M cx =
     bind_st (on_repo (build_catalog OS (ms_list_schemas M) (cx_default_catalog cx))) (\<lambda>schemas.
     bind_st (modify_st (\<lambda>w. w\<lparr>w_schemas := Some schemas\<rparr>)) (\<lambda>_.
     bind_st (on_repo (ms_functions M (cx_default_catalog cx))) (\<lambda>functions.
     register_functions E functions)))"

definition resolve_table_ref :: "('ref, 'ls, 'l) engine \<Rightarrow> 'ls seafowl_context \<Rightarrow> 'ref \<Rightarrow> resolved_ref" where
  "resolve_table_ref E cx name = en_resolve E name (cx_default_catalog cx) (cx_default_schema cx)"

definition resolve_staging_ref ::
    "('ref, 'ls, 'l) engine \<Rightarrow> 'ls seafowl_context \<Rightarrow> 'ref \<Rightarrow> (df_error, 'ref) result" where
  "resolve_staging_ref E cx name =
     (let reference = en_ref E (en_ref_string E name);
          resolved = en_resolve E reference (cx_default_catalog cx) STAGING_SCHEMA in
      if rr_catalog resolved \<noteq> cx_default_catalog cx \<or> rr_schema resolved \<noteq> STAGING_SCHEMA
      then Inl (Plan ''Can only create external tables in the staging schema.'')
      else Inr (en_full E resolved))"

text \<open>
  \<open>SessionContext::table_provider\<close>: the reference is resolved against the defaults of the session and looked
  up in the catalog that \<open>reload_schema\<close> registered.
\<close>

definition not_found :: "resolved_ref \<Rightarrow> df_error" where
  "not_found r = Plan (''table '' @ rr_table r @ '' not found'')"

definition table_provider ::
    "('ref, 'ls, 'l) engine \<Rightarrow> 'ls seafowl_context \<Rightarrow> 'ref \<Rightarrow> ('s, 'l, 'ls, 'ls table_provider) act" where
  "table_provider E cx name = (\<lambda>w.
     let r = resolve_table_ref E cx name in
     case (if rr_catalog r = cx_default_catalog cx then w_schemas w else None) of
       None \<Rightarrow> (Inl (not_found r), w)
     | Some schemas \<Rightarrow>
         (case database_schema schemas (rr_schema r) of
            None \<Rightarrow> (Inl (not_found r), w)
          | Some Staging \<Rightarrow> (if rr_table r \<in> set (w_staging w) then Inr Foreign else Inl (not_found r), w)
          | Some System \<Rightarrow>
              (if rr_table r \<in> {''table_versions'', ''dropped_tables''} then Inr Foreign else Inl (not_found r), w)
          | Some (Seafowl tables) \<Rightarrow>
              (case schema_table (en_load E) (rr_table r) tables (w_lake w) of
                 (Inl e, l) \<Rightarrow> (Inl e, w\<lparr>w_lake := l\<rparr>)
               | (Inr None, l) \<Rightarrow> (Inl (not_found r), w\<lparr>w_lake := l\<rparr>)
               | (Inr (Some (ls, tables')), l) \<Rightarrow>
                   (Inr (Delta ls), w\<lparr>w_lake := l, w_schemas := Some (imap_insert (rr_schema r) tables' schemas)\<rparr>))))"

definition try_get_delta_table ::
    "('ref, 'ls, 'l) engine \<Rightarrow> 'ls seafowl_context \<Rightarrow> 'ref \<Rightarrow> ('s, 'l, 'ls, 'ls) act" where
  "try_get_delta_table E cx name =
     bind_st (table_provider E cx name) (\<lambda>p. case p of
       Delta ls \<Rightarrow> return_st ls
     | Foreign \<Rightarrow> lift_res (Inl (Execution ''Table {table_name} not found'')))"

definition get_table_uuid ::
    "('ref, 'ls, 'l) engine \<Rightarrow> 'ls seafowl_context \<Rightarrow> 'ref \<Rightarrow> ('s, 'l, 'ls, uuid) act" where
  "get_table_uuid E cx name =
     bind_st (table_provider E cx name) (\<lambda>p. case p of
       Foreign \<Rightarrow> lift_res (Inl (Execution ''Couldn't fetch table uuid''))
     | Delta ls \<Rightarrow>
         (if en_uri_parts E ls = [] then lift_res (Inl (Execution ''Failed parsing the uuid suffix''))
          else lift_res (ok_or (Execution ''Failed parsing uuid'') (en_parse_uuid E (last (en_uri_parts E ls))))))"

definition get_internal_object_store :: "'ls seafowl_context \<Rightarrow> (df_error, string \<Rightarrow> 'ls) result" where
  "get_internal_object_store cx = ok_or
     (Plan ''Internal object store isn't configured, CREATE EXTERNAL TABLE not supported'') (cx_internal cx)"

subsection \<open>Names resolve to the uuids of the catalog\<close>

lemma imap_get_collect_map: "imap_get (collect_map kvs) k = map_of (rev kvs) k"
proof -
  have "imap_get (fold (\<lambda>(k, v) m. imap_insert k v m) kvs m) k =
      (case map_of (rev kvs) k of None \<Rightarrow> imap_get m k | Some v \<Rightarrow> Some v)" for m
    by (induction kvs arbitrary: m) (auto simp: imap_simps map_add_def split: option.splits)
  then show ?thesis by (simp add: collect_map_def split: option.splits)
qed

lemma imap_get_collect_map_distinct:
  "distinct (map fst kvs) \<Longrightarrow> imap_get (collect_map kvs) k = Some v \<longleftrightarrow> (k, v) \<in> set kvs"
  by (simp add: imap_get_collect_map rev_map [symmetric] distinct_rev)

lemma register_functions_keeps:
  "register_functions E fs w = (r, w') \<Longrightarrow>
    w_schemas w' = w_schemas w \<and> w_repo w' = w_repo w \<and> w_lake w' = w_lake w \<and> w_staging w' = w_staging w"
proof (induction fs arbitrary: w)
  case (Cons f fs)
  show ?case
  proof (cases "en_create_udf E (function_name f) (function_details f)")
    case Inl
    with Cons.prems show ?thesis by (simp add: register_function_def bind_st_def)
  next
    case (Inr u)
    with Cons.prems Cons.IH show ?thesis by (auto simp: register_function_def bind_st_def)
  qed
qed simp

text \<open>The internal object store: every path is a table of its own, whose uri ends in that path.\<close>

definition internal_store :: "('url, 'ls) object_stores \<Rightarrow> ('ref, 'ls, 'l) engine \<Rightarrow> (uuid \<Rightarrow> string) \<Rightarrow> bool" where
  "internal_store OS E us \<longleftrightarrow>
     (\<forall>p. \<exists>ls. os_default OS p = Some ls \<and> en_uri_parts E ls \<noteq> [] \<and> last (en_uri_parts E ls) = p) \<and>
     (\<forall>u. en_parse_uuid E (us u) = Some u)"

lemma build_schema_tables:
  assumes "\<forall>t\<in>set (so_tables so). to_store t = None" and "distinct (map to_name (so_tables so))"
    and "\<And>p. os_default OS p = Some (mk p)"
  shows "\<exists>tables. build_schema OS opts so = Inr (so_name so, tables) \<and>
    (\<forall>t v. imap_get tables t = Some v \<longleftrightarrow> (\<exists>x\<in>set (so_tables so). to_name x = t \<and> v = (mk (to_path x), False)))"
proof -
  let ?kvs = "map (\<lambda>t. (to_name t, mk (to_path t), False)) (so_tables so)"
  have "collect_res (build_table OS opts) (so_tables so) = Inr ?kvs"
    using assms(1,3) by (intro collect_res_map) (auto simp: build_table_def ok_or_def)
  moreover have "distinct (map fst ?kvs)" using assms(2) by (simp add: comp_def)
  ultimately show ?thesis
    by (auto simp: build_schema_def imap_get_collect_map_distinct)
qed

lemma build_catalog_names:
  fixes OS :: "('url, 'ls) object_stores"
  assumes reach: "repo_reachable d to_json s" and mk: "\<And>p. os_default OS p = Some (mk p)"
  defines "N \<equiv> names_of (db_map s) (coll_map s) (tbl_map s)"
  shows "\<exists>S. build_catalog OS (schema_list us (default_repository d to_json encode)) c s = (Inr S, s) \<and>
    (\<forall>n. imap_get S n = None \<longleftrightarrow> (c, n) \<notin> nm_schemas N) \<and>
    (\<forall>n tables t. imap_get S n = Some tables \<longrightarrow>
      imap_get tables t = map_option (\<lambda>u. (mk (us u), False)) (nm_tables N (c, n, t)))"
proof -
  obtain resp where resp: "schema_list us (default_repository d to_json encode) c s = (Inr resp, s)"
    and stores: "ls_stores resp = []" and dist: "distinct (map so_name (ls_schemas resp))"
    and names: "so_name ` set (ls_schemas resp) = {n. (c, n) \<in> nm_schemas N}"
    and tabs: "\<And>so. so \<in> set (ls_schemas resp) \<Longrightarrow> distinct (map to_name (so_tables so)) \<and>
       (\<forall>t\<in>set (so_tables so). to_store t = None) \<and>
       {(to_name t, to_path t) | t. t \<in> set (so_tables so)} =
       {(t, us u) | t u. nm_tables N (c, so_name so, t) = Some u}"
    using schema_list_result [OF reach, of us encode c, folded N_def] by (elim exE conjE) (rule that, assumption+, erule (1) bspec)
  have built: "\<exists>tables. build_schema OS (collect_map []) so = Inr (so_name so, tables) \<and>
      (\<forall>t. imap_get tables t = map_option (\<lambda>u. (mk (us u), False)) (nm_tables N (c, so_name so, t)))"
    if so: "so \<in> set (ls_schemas resp)" for so
  proof -
    note T = tabs [OF so]
    have T1: "\<forall>t\<in>set (so_tables so). to_store t = None" and T2: "distinct (map to_name (so_tables so))"
      using T by simp_all
    from build_schema_tables [OF T1 T2 mk, of "collect_map []"]
    obtain tables where tables: "build_schema OS (collect_map []) so = Inr (so_name so, tables) \<and>
      (\<forall>t v. imap_get tables t = Some v \<longleftrightarrow> (\<exists>x\<in>set (so_tables so). to_name x = t \<and> v = (mk (to_path x), False)))"
      by (elim exE) (rule that)
    note eq = tables [THEN conjunct1] and get = tables [THEN conjunct2, rule_format]
    have iff: "(\<exists>x\<in>set (so_tables so). to_name x = t \<and> to_path x = p) \<longleftrightarrow> (\<exists>u. nm_tables N (c, so_name so, t) = Some u \<and> p = us u)" for t p
    proof -
      from T have "(t, p) \<in> {(to_name t, to_path t) | t. t \<in> set (so_tables so)} \<longleftrightarrow>
          (t, p) \<in> {(t, us u) | t u. nm_tables N (c, so_name so, t) = Some u}" by (elim conjE) (rule arg_cong)
      then show ?thesis unfolding mem_Collect_eq prod.inject by metis
    qed
    have "imap_get tables t = map_option (\<lambda>u. (mk (us u), False)) (nm_tables N (c, so_name so, t))" for t
    proof (cases "nm_tables N (c, so_name so, t)")
      case None
      then have "imap_get tables t \<noteq> Some v" for v using get [of t v] iff [of t] by auto
      then show ?thesis using None by (cases "imap_get tables t") auto
    next
      case (Some u)
      then obtain x where "x \<in> set (so_tables so)" "to_name x = t" "to_path x = us u"
        using iff [of t "us u"] by auto
      then have "imap_get tables t = Some (mk (us u), False)" unfolding get by (intro bexI [of _ x]) simp_all
      with Some show ?thesis by simp
    qed
    with eq show ?thesis by blast
  qed
  define tb where "tb = (\<lambda>so. snd (projr (build_schema OS (collect_map []) so)))"
  have tb: "build_schema OS (collect_map []) so = Inr (so_name so, tb so)"
    "imap_get (tb so) t = map_option (\<lambda>u. (mk (us u), False)) (nm_tables N (c, so_name so, t))"
    if "so \<in> set (ls_schemas resp)" for so t
    using built [OF that] by (auto simp: tb_def)
  let ?kvs = "map (\<lambda>so. (so_name so, tb so)) (ls_schemas resp)"
  have get: "imap_get (collect_map ?kvs) n = Some tables \<longleftrightarrow> (n, tables) \<in> set ?kvs" for n tables
    using dist by (intro imap_get_collect_map_distinct) (simp add: comp_def)
  have "build_catalog OS (schema_list us (default_repository d to_json encode)) c s = (Inr (collect_map ?kvs), s)"
    using collect_res_map [of "ls_schemas resp" "build_schema OS (collect_map [])" "\<lambda>so. (so_name so, tb so)"] tb(1)
    by (simp add: build_catalog_def bind_st_def resp stores)
  moreover have "imap_get (collect_map ?kvs) n = None \<longleftrightarrow> (c, n) \<notin> nm_schemas N" for n
  proof -
    have "imap_get (collect_map ?kvs) n \<noteq> None \<longleftrightarrow> n \<in> so_name ` set (ls_schemas resp)"
      using get by (auto simp: image_iff)
    then show ?thesis unfolding names by blast
  qed
  moreover have "imap_get tables t = map_option (\<lambda>u. (mk (us u), False)) (nm_tables N (c, n, t))"
    if "imap_get (collect_map ?kvs) n = Some tables" for n tables t
    using that [unfolded get] tb(2) by auto
  ultimately show ?thesis by blast
qed

text \<open>The metastore over a repository.\<close>

definition new_from_repository ::
    "(uuid \<Rightarrow> string) \<Rightarrow> types_json \<Rightarrow> ('s, 'f) repository \<Rightarrow> ('s, 'f) metastore" where
  "new_from_repository us J R =
     \<lparr>ms_repository = R, ms_list_schemas = schema_list us R, ms_functions = build_functions J ''ParseError'' R\<rparr>"

lemma reload_schema_names:
  fixes OS :: "('url, 'ls) object_stores" and w :: "(repo_db, 'l, 'ls) world"
  assumes reach: "repo_reachable d to_json (w_repo w)" and mk: "\<And>p. os_default OS p = Some (mk p)"
    and reload: "reload_schema E OS (new_from_repository us J (default_repository d to_json encode)) cx w = (Inr u, w')"
  defines "N \<equiv> names_of (db_map (w_repo w)) (coll_map (w_repo w)) (tbl_map (w_repo w))"
  obtains S where "w_schemas w' = Some S" and "w_repo w' = w_repo w"
    and "\<And>n. imap_get S n = None \<longleftrightarrow> (cx_default_catalog cx, n) \<notin> nm_schemas N"
    and "\<And>n tables t. imap_get S n = Some tables \<Longrightarrow>
      imap_get tables t = map_option (\<lambda>u. (mk (us u), False)) (nm_tables N (cx_default_catalog cx, n, t))"
proof -
  let ?R = "default_repository d to_json encode" and ?c = "cx_default_catalog cx"
  have ok: "rows_ok d (w_repo w)" using repo_ok_reachable [OF reach] by (simp add: repo_ok_def)
  from build_catalog_names [OF reach mk, of us encode ?c, folded N_def]
  obtain S where S: "build_catalog OS (schema_list us ?R) ?c (w_repo w) = (Inr S, w_repo w) \<and>
    (\<forall>n. imap_get S n = None \<longleftrightarrow> (?c, n) \<notin> nm_schemas N) \<and>
    (\<forall>n tables t. imap_get S n = Some tables \<longrightarrow>
      imap_get tables t = map_option (\<lambda>u. (mk (us u), False)) (nm_tables N (?c, n, t)))"
    by (elim exE) (rule that)
  let ?w = "w\<lparr>w_schemas := Some S\<rparr>"
  obtain r where fns: "build_functions J ''ParseError'' ?R ?c (w_repo w) = (r, w_repo w)"
    using build_functions_rows [OF ok, of J "''ParseError''" to_json encode ?c] by (cases "db_map (w_repo w) ?c") auto
  have "on_repo (build_catalog OS (schema_list us ?R) ?c) w = (Inr S, w)"
    using S by (simp add: on_repo_def)
  moreover have "on_repo (build_functions J ''ParseError'' ?R ?c) ?w = (map_err df_error_of r, ?w)"
    using fns by (simp add: on_repo_def)
  ultimately obtain fs where "register_functions E fs ?w = (Inr u, w')"
    using reload by (cases r) (auto simp: reload_schema_def new_from_repository_def bind_st_def)
  from register_functions_keeps [OF this] have "w_schemas w' = Some S" "w_repo w' = w_repo w" by simp_all
  then show ?thesis
    using S [THEN conjunct2, THEN conjunct1, rule_format] S [THEN conjunct2, THEN conjunct2, rule_format]
    by (intro that)
qed

text \<open>
  C10: names resolve to the uuids of the catalog. After \<open>reload_schema\<close> over the metadata database a name that
  resolves to a table of the default catalog leads to the directory whose name is the uuid that the catalog
  keeps for it, so that \<open>get_table_uuid\<close> returns exactly that uuid; for a name that the catalog does not
  have it reports that the table does not exist.
\<close>
theorem names_resolve_to_catalog_uuids:
  assumes "repo_reachable d to_json (w_repo w)" and store: "internal_store OS E us"
    and load: "\<And>ls l. en_load E ls l = (Inr (), l)"
    and "reload_schema E OS (new_from_repository us J (default_repository d to_json encode)) cx w = (Inr (), w')"
    and ref: "resolve_table_ref E cx name = \<lparr>rr_catalog = cx_default_catalog cx, rr_schema = n, rr_table = t\<rparr>"
    and n: "n \<noteq> STAGING_SCHEMA" "n \<noteq> SYSTEM_SCHEMA"
  shows "fst (get_table_uuid E cx name w') =
    (case nm_tables (names_of (db_map (w_repo w)) (coll_map (w_repo w)) (tbl_map (w_repo w)))
       (cx_default_catalog cx, n, t) of
       Some u \<Rightarrow> Inr u
     | None \<Rightarrow> Inl (not_found (resolve_table_ref E cx name)))"
proof -
  let ?N = "names_of (db_map (w_repo w)) (coll_map (w_repo w)) (tbl_map (w_repo w))"
  define mk where "mk = (\<lambda>p. the (os_default OS p))"
  have mk: "os_default OS p = Some (mk p)" "en_uri_parts E (mk p) \<noteq> []" "last (en_uri_parts E (mk p)) = p" for p
    using store by (auto simp: internal_store_def mk_def dest!: spec [of _ p])
  show ?thesis
  proof (rule reload_schema_names [OF assms(1) mk(1) assms(4)])
    fix S
    assume S: "w_schemas w' = Some S"
      and none: "\<And>n. imap_get S n = None \<longleftrightarrow> (cx_default_catalog cx, n) \<notin> nm_schemas ?N"
      and tabs: "\<And>n tables t. imap_get S n = Some tables \<Longrightarrow>
        imap_get tables t = map_option (\<lambda>u. (mk (us u), False)) (nm_tables ?N (cx_default_catalog cx, n, t))"
    show ?thesis
    proof (cases "imap_get S n")
      case None
      then have "nm_tables ?N (cx_default_catalog cx, n, t) = None"
        using none [of n] by (auto simp: names_of_def split: option.splits)
      with None S ref n show ?thesis
        by (simp add: get_table_uuid_def bind_st_def table_provider_def database_schema_def)
    next
      case (Some tables)
      show ?thesis
      proof (cases "nm_tables ?N (cx_default_catalog cx, n, t)")
        case None
        with Some tabs [OF Some, of t] S ref n show ?thesis
          by (simp add: get_table_uuid_def bind_st_def table_provider_def database_schema_def schema_table_def)
      next
        case u: (Some u)
        have "en_parse_uuid E (us u) = Some u" using store by (simp add: internal_store_def)
        with Some tabs [OF Some, of t] u S ref n load mk(2,3) show ?thesis
          by (simp add: get_table_uuid_def bind_st_def table_provider_def database_schema_def schema_table_def ok_or_def)
      qed
    qed
  qed
qed

text \<open>A session where a name is a table of the default schema and a log store is its path.\<close>

definition path_engine :: "(string, string, unit) engine" where
  "path_engine = \<lparr>en_ref = (\<lambda>s. s), en_full = rr_table, en_ref_string = (\<lambda>s. s),
     en_resolve = (\<lambda>name c n. \<lparr>rr_catalog = c, rr_schema = n, rr_table = name\<rparr>),
     en_load = (\<lambda>_ l. (Inr (), l)), en_uri_parts = (\<lambda>ls. [''tables'', ls]),
     en_parse_uuid = (\<lambda>p. Some (of_nat (read_nat p))), en_create_udf = (\<lambda>_ _. Inr ())\<rparr>"

definition path_stores :: "(string, string) object_stores" where
  "path_stores = \<lparr>os_parse = Inr, os_for_table = (\<lambda>_ _ p. Inr p), os_default = Some\<rparr>"

definition path_context :: "string seafowl_context" where
  "path_context = \<lparr>cx_default_catalog = ''default'', cx_default_schema = ''public'', cx_internal = Some (\<lambda>p. p)\<rparr>"

definition uuid_text :: "uuid \<Rightarrow> string" where
  "uuid_text u = show_nat (unat u)"

lemma path_stores_internal: "internal_store path_stores path_engine uuid_text"
  by (simp add: internal_store_def path_stores_def path_engine_def uuid_text_def)

definition example_world :: "(repo_db, unit, string) world" where
  "example_world = \<lparr>w_repo = example_db SQLite, w_lake = (), w_schemas = None, w_staging = [], w_udfs = []\<rparr>"

lemma names_resolve_to_catalog_uuids_witness:
  "let R = default_repository SQLite no_json (\<lambda>_. ''RETRY'');
       w' = snd (reload_schema path_engine path_stores (new_from_repository uuid_text codes_json R) path_context example_world) in
   fst (get_table_uuid path_engine path_context ''t'' w') = Inr 7 \<and>
   fst (get_table_uuid path_engine path_context ''u'' w') =
     Inl (not_found \<lparr>rr_catalog = ''default'', rr_schema = ''public'', rr_table = ''u''\<rparr>)"
proof -
  let ?R = "default_repository SQLite no_json (\<lambda>_. ''RETRY'')"
  let ?r = "reload_schema path_engine path_stores (new_from_repository uuid_text codes_json ?R) path_context example_world"
  have "fst ?r = Inr ()" by code_simp
  then have reload: "?r = (Inr (), snd ?r)" by (metis prod.collapse)
  have reach: "repo_reachable SQLite no_json (w_repo example_world)"
    by (simp add: example_world_def example_db_reachable)
  have load: "en_load path_engine ls l = (Inr (), l)" for ls l by (simp add: path_engine_def)
  have ref: "resolve_table_ref path_engine path_context x =
      \<lparr>rr_catalog = cx_default_catalog path_context, rr_schema = ''public'', rr_table = x\<rparr>" for x
    by (simp add: resolve_table_ref_def path_engine_def path_context_def)
  have rows: "database_rows (w_repo example_world) = [\<lparr>dbr_id = 1, dbr_name = ''default''\<rparr>]"
    "collection_rows (w_repo example_world) = [\<lparr>coll_id = 1, coll_database_id = 1, coll_name = ''public''\<rparr>]"
    "table_rows (w_repo example_world) = [\<lparr>tbl_id = 1, tbl_collection_id = 1, tbl_name = ''t'', tbl_uuid = 7\<rparr>]"
    by code_simp+
  have tables: "nm_tables (names_of (db_map (w_repo example_world)) (coll_map (w_repo example_world)) (tbl_map (w_repo example_world)))
      (cx_default_catalog path_context, ''public'', x) = (if x = ''t'' then Some 7 else None)" for x
    by (simp add: names_of_def db_map_def coll_map_def tbl_map_def rows path_context_def)
  have "fst (get_table_uuid path_engine path_context x (snd ?r)) =
      (case if x = ''t'' then Some 7 else None of Some u \<Rightarrow> Inr u
       | None \<Rightarrow> Inl (not_found (resolve_table_ref path_engine path_context x)))" for x
    using names_resolve_to_catalog_uuids [OF reach path_stores_internal load reload ref, of x] unfolding tables
    by (simp add: STAGING_SCHEMA_def SYSTEM_SCHEMA_def)
  moreover have "cx_default_catalog path_context = ''default''" by (simp add: path_context_def)
  ultimately show ?thesis by (simp add: Let_def ref)
qed

end
