(* ===== verification/DeltaDml.thy ===== *)
theory DeltaDml
  imports Context "HOL-Library.Multiset"
begin

text \<open>
  \<open>INSERT\<close>, \<open>UPDATE\<close>, \<open>DELETE\<close> and \<open>TRUNCATE\<close> on Delta tables (\<open>create_physical_plan\<close> of
  \<open>src/context/physical.rs\<close>, \<open>plan_to_delta_table\<close> of \<open>src/context/delta.rs\<close>, \<open>project_expressions\<close> of
  \<open>src/provider.rs\<close>): the files that may hold affected rows are pruned out, rewritten and exchanged in one
  commit, whose version is recorded in the catalog. The theorems relate the rows of the table before
  and after to what the statements mean in SQL.
\<close>

subsection \<open>Plans, expressions and the Delta table\<close>

record add_file =
  add_path :: string
  add_size :: int

datatype action = AddFile add_file | RemoveFile string int int

text \<open>
  DataFusion: planning (\<open>df_plan\<close>), logical predicates and their physical expressions, \<open>PruningPredicate\<close>,
  and the operators that the handlers build, over the schema of the table where a column is looked up. A scan is planned on a snapshot with filters that it may use to leave
  out files.
\<close>

record ('input, 'plan, 'pred, 'expr, 'pexpr, 'ty, 'ls, 'snap) dataframes =
  df_plan :: "'input \<Rightarrow> (df_error, 'plan) result"
  df_predicate :: "(string \<times> 'ty) list \<Rightarrow> 'pred \<Rightarrow> (df_error, 'pexpr) result"
  df_not :: "'pred \<Rightarrow> 'pred"
  df_unqualify :: "'pred \<Rightarrow> (df_error, 'pred) result"
  df_prune :: "'pexpr \<Rightarrow> 'snap \<Rightarrow> (df_error, bool list) result"
  df_scan :: "'ls \<Rightarrow> 'snap \<Rightarrow> 'pred list \<Rightarrow> (df_error, 'plan) result"
  df_filter :: "'pexpr \<Rightarrow> 'plan \<Rightarrow> (df_error, 'plan) result"
  df_projection :: "('pexpr \<times> string) list \<Rightarrow> 'plan \<Rightarrow> (df_error, 'plan) result"
  df_physical :: "(string \<times> 'ty) list \<Rightarrow> 'expr \<Rightarrow> (df_error, 'pexpr) result"
  df_type :: "(string \<times> 'ty) list \<Rightarrow> 'pexpr \<Rightarrow> (df_error, 'ty) result"
  df_cast :: "(string \<times> 'ty) list \<Rightarrow> 'pexpr \<Rightarrow> 'ty \<Rightarrow> (df_error, 'pexpr) result"
  df_case :: "'pexpr \<Rightarrow> 'pexpr \<Rightarrow> 'pexpr \<Rightarrow> (df_error, 'pexpr) result"
  df_col :: "(string \<times> 'ty) list \<Rightarrow> string \<Rightarrow> (df_error, 'pexpr) result"

text \<open>delta-rs: loading a snapshot, its schema and files, the commit; \<open>dl_write\<close> is \<open>plan_to_object_store\<close>.\<close>

record ('plan, 'ty, 'ls, 'l, 'snap) delta =
  dl_load :: "'ls \<Rightarrow> ('l, df_error, 'snap) st"
  dl_fields :: "'snap \<Rightarrow> (string \<times> 'ty) list"
  dl_files :: "'snap \<Rightarrow> (df_error, add_file list) result"
  dl_write :: "'plan \<Rightarrow> 'ls \<Rightarrow> ('l, df_error, add_file list) st"
  dl_commit :: "action list \<Rightarrow> 'ls \<Rightarrow> 'snap \<Rightarrow> ('l, df_error, int) st"
  dl_now :: int

definition remove_file :: "int \<Rightarrow> add_file \<Rightarrow> action" where
  "remove_file deletion_timestamp add = RemoveFile (add_path add) (add_size add) deletion_timestamp"

definition files_to_prune :: "add_file list \<Rightarrow> bool list \<Rightarrow> add_file list" where
  "files_to_prune files prune_map = map fst (filter snd (zip files prune_map))"


subsection \<open>The assignments of an UPDATE\<close>

datatype 'expr aliased = Alias 'expr string | Plain 'expr

fun de_alias :: "'expr aliased \<Rightarrow> 'expr" where
  "de_alias (Alias expr _) = expr"
| "de_alias (Plain expr) = expr"

definition project_expression ::
    "('input, 'plan, 'pred, 'expr, 'pexpr, 'ty, 'ls, 'snap) dataframes \<Rightarrow> (string \<times> 'ty) list \<Rightarrow> 'pexpr option \<Rightarrow>
      'expr aliased \<times> string \<times> 'ty \<Rightarrow> (df_error, 'pexpr \<times> string) result" where
  "project_expression DF schema selection_expr = (\<lambda>(expr, name, data_type).
     bind_res (df_physical DF schema (de_alias expr)) (\<lambda>proj_expr.
     bind_res (df_type DF schema proj_expr) (\<lambda>ty.
     bind_res (if ty \<noteq> data_type then df_cast DF schema proj_expr data_type else Inr proj_expr) (\<lambda>proj_expr.
     bind_res (case selection_expr of
         Some sel_expr \<Rightarrow> bind_res (df_col DF schema name) (df_case DF sel_expr proj_expr)
       | None \<Rightarrow> Inr proj_expr) (\<lambda>proj_expr.
     Inr (proj_expr, name))))))"

definition project_expressions ::
    "('input, 'plan, 'pred, 'expr, 'pexpr, 'ty, 'ls, 'snap) dataframes \<Rightarrow> 'expr aliased list \<Rightarrow> (string \<times> 'ty) list \<Rightarrow>
      'pexpr option \<Rightarrow> (df_error, ('pexpr \<times> string) list) result" where
  "project_expressions DF exprs schema selection_expr =
     collect_res (project_expression DF schema selection_expr) (zip exprs schema)"


subsection \<open>The statements\<close>

definition record_version ::
    "('s, 'f) metastore \<Rightarrow> uuid \<Rightarrow> int \<Rightarrow> ('s, 'l, 'ls, unit) act" where
  "record_version M uuid version =
     bind_st (on_repo (table_create_new_version (ms_repository M) uuid version)) (\<lambda>_. return_st ())"

definition plan_to_delta_table ::
    "('ref, 'ls, 'l) engine \<Rightarrow> ('plan, 'ty, 'ls, 'l, 'snap) delta \<Rightarrow> (uuid \<Rightarrow> string) \<Rightarrow> ('s, 'f) metastore \<Rightarrow>
      'ls seafowl_context \<Rightarrow> 'ref \<Rightarrow> 'plan \<Rightarrow> ('s, 'l, 'ls, unit) act" where
  "plan_to_delta_table E DL us M cx name plan =
     bind_st (get_table_uuid E cx name) (\<lambda>table_uuid.
     bind_st (lift_res (get_internal_object_store cx)) (\<lambda>get_log_store.
     let table_log_store = get_log_store (us table_uuid) in
     bind_st (on_lake (dl_write DL plan table_log_store)) (\<lambda>adds.
     bind_st (on_lake (dl_load DL table_log_store)) (\<lambda>snapshot.
     bind_st (on_lake (dl_commit DL (map AddFile adds) table_log_store snapshot)) (\<lambda>version.
     record_version M table_uuid version)))))"

definition dml_insert ::
    "('ref, 'ls, 'l) engine \<Rightarrow> ('input, 'plan, 'pred, 'expr, 'pexpr, 'ty, 'ls, 'snap) dataframes \<Rightarrow>
      ('plan, 'ty, 'ls, 'l, 'snap) delta \<Rightarrow> (uuid \<Rightarrow> string) \<Rightarrow> ('s, 'f) metastore \<Rightarrow> 'ls seafowl_context \<Rightarrow>
      'ref \<Rightarrow> 'input \<Rightarrow> ('s, 'l, 'ls, unit) act" where
  "dml_insert E DF DL us M cx name input =
     bind_st (lift_res (df_plan DF input)) (\<lambda>physical. plan_to_delta_table E DL us M cx name physical)"

text \<open>\<open>UPDATE\<close>: the input is a projection of the assignments over an optional filter.\<close>

datatype ('expr, 'pred) update_input = Projection "'expr aliased list" "'pred option" | OtherInput

text \<open>The filters of the scan, the physical predicate, and the files to rewrite.\<close>

definition update_selection ::
    "('input, 'plan, 'pred, 'expr, 'pexpr, 'ty, 'ls, 'snap) dataframes \<Rightarrow> ('plan, 'ty, 'ls, 'l, 'snap) delta \<Rightarrow>
      'snap \<Rightarrow> 'pred option \<Rightarrow> (df_error, 'pred list \<times> 'pexpr option \<times> add_file list) result" where
  "update_selection DF DL snapshot predicate =
     (case predicate of
        Some p \<Rightarrow>
          bind_res (df_unqualify DF p) (\<lambda>unqualified.
          bind_res (df_predicate DF (dl_fields DL snapshot) p) (\<lambda>filter_expr.
          bind_res (df_prune DF filter_expr snapshot) (\<lambda>prune_map.
          bind_res (dl_files DL snapshot) (\<lambda>files.
            Inr ([unqualified], Some filter_expr, files_to_prune files prune_map)))))
      | None \<Rightarrow> bind_res (dl_files DL snapshot) (\<lambda>files. Inr ([], None, files)))"

definition dml_update ::
    "('ref, 'ls, 'l) engine \<Rightarrow> ('input, 'plan, 'pred, 'expr, 'pexpr, 'ty, 'ls, 'snap) dataframes \<Rightarrow>
      ('plan, 'ty, 'ls, 'l, 'snap) delta \<Rightarrow> (uuid \<Rightarrow> string) \<Rightarrow> ('s, 'f) metastore \<Rightarrow> 'ls seafowl_context \<Rightarrow>
      'ref \<Rightarrow> ('expr, 'pred) update_input \<Rightarrow> ('s, 'l, 'ls, unit) act" where
  "dml_update E DF DL us M cx name input =
     bind_st (lift_res (get_internal_object_store cx)) (\<lambda>get_log_store.
     case input of
       OtherInput \<Rightarrow> lift_res (Inl (Plan ''Update plan doesn't contain a Projection node''))
     | Projection expr predicate \<Rightarrow>
     bind_st (try_get_delta_table E cx name) (\<lambda>table.
     bind_st (on_lake (dl_load DL table)) (\<lambda>snapshot.
     bind_st (lift_res (update_selection DF DL snapshot predicate)) (\<lambda>(filters, selection_expr, removes).
     bind_st (get_table_uuid E cx name) (\<lambda>uuid.
     bind_st (if removes = [] then return_st []
         else
           bind_st (lift_res (df_scan DF table snapshot filters)) (\<lambda>base_scan.
           bind_st (lift_res (project_expressions DF expr (dl_fields DL snapshot) selection_expr)) (\<lambda>projections.
           bind_st (lift_res (df_projection DF projections base_scan)) (\<lambda>update_plan.
           bind_st (on_lake (dl_write DL update_plan (get_log_store (us uuid)))) (\<lambda>adds.
             return_st (map AddFile adds @ map (remove_file (dl_now DL)) removes))))))
     (\<lambda>actions.
     bind_st (on_lake (dl_commit DL actions table snapshot)) (\<lambda>version.
     record_version M uuid version)))))))"

definition dml_delete ::
    "('ref, 'ls, 'l) engine \<Rightarrow> ('input, 'plan, 'pred, 'expr, 'pexpr, 'ty, 'ls, 'snap) dataframes \<Rightarrow>
      ('plan, 'ty, 'ls, 'l, 'snap) delta \<Rightarrow> (uuid \<Rightarrow> string) \<Rightarrow> ('s, 'f) metastore \<Rightarrow> 'ls seafowl_context \<Rightarrow>
      'ref \<Rightarrow> (string \<times> 'ty) list \<Rightarrow> 'pred option \<Rightarrow> ('s, 'l, 'ls, unit) act" where
  "dml_delete E DF DL us M cx name table_schema predicate =
     bind_st (lift_res (get_internal_object_store cx)) (\<lambda>get_log_store.
     bind_st (get_table_uuid E cx name) (\<lambda>uuid.
     bind_st (try_get_delta_table E cx name) (\<lambda>table.
     bind_st (on_lake (dl_load DL table)) (\<lambda>snapshot.
     bind_st (case predicate of
         Some p \<Rightarrow>
           bind_st (lift_res (df_predicate DF table_schema p)) (\<lambda>prune_expr.
           bind_st (lift_res (df_prune DF prune_expr snapshot)) (\<lambda>prune_map.
           bind_st (lift_res (dl_files DL snapshot)) (\<lambda>files.
           let pruned = files_to_prune files prune_map in
           if pruned = [] then return_st ([], [])
           else
             bind_st (lift_res (df_predicate DF table_schema (df_not DF p))) (\<lambda>filter_expr.
             bind_st (lift_res (df_scan DF table snapshot [p])) (\<lambda>base_scan.
             bind_st (lift_res (df_filter DF filter_expr base_scan)) (\<lambda>filter_plan.
             bind_st (on_lake (dl_write DL filter_plan (get_log_store (us uuid)))) (\<lambda>adds.
               return_st (adds, pruned))))))))
       | None \<Rightarrow> bind_st (lift_res (dl_files DL snapshot)) (\<lambda>files. return_st ([], files)))
     (\<lambda>(adds, removes).
     bind_st (on_lake (dl_commit DL (map AddFile adds @ map (remove_file (dl_now DL)) removes) table snapshot)) (\<lambda>version.
     record_version M uuid version))))))"

text \<open>\<open>TRUNCATE\<close>: no version is recorded in the catalog.\<close>

definition truncate_table ::
    "('ref, 'ls, 'l) engine \<Rightarrow> ('plan, 'ty, 'ls, 'l, 'snap) delta \<Rightarrow> 'ls seafowl_context \<Rightarrow> string \<Rightarrow>
      ('s, 'l, 'ls, unit) act" where
  "truncate_table E DL cx name =
     bind_st (try_get_delta_table E cx (en_ref E name)) (\<lambda>table.
     bind_st (on_lake (dl_load DL table)) (\<lambda>snapshot.
     bind_st (lift_res (dl_files DL snapshot)) (\<lambda>files.
     bind_st (on_lake (dl_commit DL (map (remove_file (dl_now DL)) files) table snapshot)) (\<lambda>_.
     return_st ()))))"

subsection \<open>Looking a table up twice\<close>

text \<open>What a name is bound to, whether it is loaded or not.\<close>

definition bound :: "('ref, 'ls, 'l) engine \<Rightarrow> 'ls seafowl_context \<Rightarrow> 'ref \<Rightarrow> ('s, 'l, 'ls) world \<Rightarrow>
    'ls table_provider option" where
  "bound E cx name w =
     (let r = resolve_table_ref E cx name in
      case (if rr_catalog r = cx_default_catalog cx then w_schemas w else None) of
        None \<Rightarrow> None
      | Some schemas \<Rightarrow>
          (case database_schema schemas (rr_schema r) of
             None \<Rightarrow> None
           | Some Staging \<Rightarrow> if rr_table r \<in> set (w_staging w) then Some Foreign else None
           | Some System \<Rightarrow> if rr_table r \<in> {''table_versions'', ''dropped_tables''} then Some Foreign else None
           | Some (Seafowl tables) \<Rightarrow> map_option (Delta \<circ> fst) (imap_get tables (rr_table r))))"

lemma database_schema_Seafowl:
  "database_schema S n = Some (Seafowl tables) \<longleftrightarrow> n \<noteq> STAGING_SCHEMA \<and> n \<noteq> SYSTEM_SCHEMA \<and> imap_get S n = Some tables"
  by (auto simp: database_schema_def)

lemma database_schema_insert:
  assumes "database_schema S n = Some (Seafowl tables)"
  shows "database_schema (imap_insert n tables' S) n' = (if n' = n then Some (Seafowl tables') else database_schema S n')"
  using assms by (auto simp: database_schema_def imap_simps split: if_splits)

lemma schema_table_Inr:
  assumes "schema_table load t tables l = (Inr (Some (ls, tables')), l')" and "\<forall>ls l r l'. load ls l = (r, l') \<longrightarrow> l' = l"
  shows "l' = l \<and> (\<exists>b. imap_get tables t = Some (ls, b)) \<and>
    (\<forall>t'. map_option fst (imap_get tables' t') = map_option fst (imap_get tables t'))"
  using assms
  by (auto simp: schema_table_def bind_st_def imap_simps split: option.splits bool.splits prod.splits sum.splits)

lemma table_provider_bound:
  fixes w :: "('s, 'l, 'ls) world"
  assumes run: "table_provider E cx name w = (Inr p, w')" and load: "\<forall>ls l r l'. en_load E ls l = (r, l') \<longrightarrow> l' = l"
  shows "bound E cx name w = Some p" and "w_lake w' = w_lake w" and "w_repo w' = w_repo w"
    and "bound E cx name' w' = bound E cx name' w"
proof -
  let ?r = "resolve_table_ref E cx name"
  obtain S where cat: "rr_catalog ?r = cx_default_catalog cx" and S: "w_schemas w = Some S"
    using run by (auto simp: table_provider_def Let_def split: if_splits option.splits)
  consider (foreign) "p = Foreign" "w' = w" "bound E cx name w = Some Foreign"
    | (delta) tables ls tables' l where "database_schema S (rr_schema ?r) = Some (Seafowl tables)" "p = Delta ls"
        "schema_table (en_load E) (rr_table ?r) tables (w_lake w) = (Inr (Some (ls, tables')), l)"
        "w' = w\<lparr>w_lake := l, w_schemas := Some (imap_insert (rr_schema ?r) tables' S)\<rparr>"
    using run cat S
    by (auto simp: table_provider_def bound_def Let_def split: option.splits schema_provider.splits prod.splits
        sum.splits if_splits)
  then have "bound E cx name w = Some p \<and> w_lake w' = w_lake w \<and> w_repo w' = w_repo w \<and>
      bound E cx name' w' = bound E cx name' w"
  proof cases
    case foreign
    then show ?thesis by simp
  next
    case delta
    note st = schema_table_Inr [OF delta(3) load]
    note st1 = st [THEN conjunct1] and st2 = st [THEN conjunct2, THEN conjunct1]
      and st3 = st [THEN conjunct2, THEN conjunct2, rule_format]
    have "map_option (Delta \<circ> fst) (imap_get tables' t) = map_option (Delta \<circ> fst) (imap_get tables t)" for t
      using arg_cong [OF st3 [of t], of "map_option Delta"] by (simp add: option.map_comp)
    then have "bound E cx name' w' = bound E cx name' w"
      using S cat database_schema_insert [OF delta(1), of tables'] delta(1)
      by (simp add: bound_def delta(4) Let_def)
    moreover have "bound E cx name w = Some p"
      using S cat delta(1,2) st2 by (auto simp: bound_def Let_def)
    ultimately show ?thesis using delta(4) st1 by simp
  qed
  then show "bound E cx name w = Some p" "w_lake w' = w_lake w" "w_repo w' = w_repo w"
    "bound E cx name' w' = bound E cx name' w" by simp_all
qed


text \<open>Loading a table for the session reads the lake and does not change it.\<close>

definition quiet_load :: "('ref, 'ls, 'l) engine \<Rightarrow> bool" where
  "quiet_load E \<longleftrightarrow> (\<forall>ls l r l'. en_load E ls l = (r, l') \<longrightarrow> l' = l)"

text \<open>The table is one of the internal object store: its directory there is its log store.\<close>

definition internal_table ::
    "('ref, 'ls, 'l) engine \<Rightarrow> (uuid \<Rightarrow> string) \<Rightarrow> 'ls seafowl_context \<Rightarrow> 'ls \<Rightarrow> bool" where
  "internal_table E us cx ls \<longleftrightarrow>
     (\<forall>g u. cx_internal cx = Some g \<longrightarrow> en_parse_uuid E (last (en_uri_parts E ls)) = Some u \<longrightarrow> g (us u) = ls)"

definition same_state :: "('ref, 'ls, 'l) engine \<Rightarrow> 'ls seafowl_context \<Rightarrow> ('s, 'l, 'ls) world \<Rightarrow>
    ('s, 'l, 'ls) world \<Rightarrow> bool" where
  "same_state E cx w w' \<longleftrightarrow> w_lake w' = w_lake w \<and> w_repo w' = w_repo w \<and> (\<forall>name. bound E cx name w' = bound E cx name w)"

lemma table_provider_res:
  assumes "table_provider E cx name w = (Inr p, w')"
  obtains (Delta) ls where "p = Delta ls" and "table_provider E cx name w = (Inr (Delta ls), w')"
  | (Foreign) "p = Foreign"
  using assms by (cases p) auto

lemma try_get_delta_table_Inr:
  assumes "try_get_delta_table E cx name w = (Inr ls, w')" and "quiet_load E"
  shows "bound E cx name w = Some (Delta ls)" and "same_state E cx w w'"
proof -
  have prov: "table_provider E cx name w = (Inr (Delta ls), w')"
    using assms(1) [unfolded try_get_delta_table_def bind_st_eq_Inr]
    by (elim exE conjE) (erule table_provider_res, simp_all)
  note b = table_provider_bound [OF prov assms(2) [unfolded quiet_load_def]]
  show "bound E cx name w = Some (Delta ls)" by (rule b)
  show "same_state E cx w w'" unfolding same_state_def by (intro conjI allI b)
qed

lemma get_table_uuid_Inr:
  assumes "get_table_uuid E cx name w = (Inr u, w')" and "quiet_load E"
  shows "\<exists>ls. bound E cx name w = Some (Delta ls) \<and> en_parse_uuid E (last (en_uri_parts E ls)) = Some u"
    and "same_state E cx w w'"
proof -
  obtain ls where prov: "table_provider E cx name w = (Inr (Delta ls), w')"
    and u: "en_parse_uuid E (last (en_uri_parts E ls)) = Some u"
    using assms(1) [unfolded get_table_uuid_def bind_st_eq_Inr]
    by (elim exE conjE) (erule table_provider_res, auto simp: ok_or_def split: if_splits option.splits)
  note b = table_provider_bound [OF prov assms(2) [unfolded quiet_load_def]]
  show "\<exists>ls. bound E cx name w = Some (Delta ls) \<and> en_parse_uuid E (last (en_uri_parts E ls)) = Some u"
    using b(1) u by (intro exI conjI)
  show "same_state E cx w w'" unfolding same_state_def by (intro conjI allI b)
qed

lemma on_lake_Inr:
  "on_lake m w = (Inr x, w') \<longleftrightarrow> (\<exists>l. m (w_lake w) = (Inr x, l) \<and> w' = w\<lparr>w_lake := l\<rparr>)"
  by (auto simp: on_lake_def split: prod.splits)

lemma on_repo_Inr:
  "on_repo m w = (Inr x, w') \<longleftrightarrow> (\<exists>s. m (w_repo w) = (Inr x, s) \<and> w' = w\<lparr>w_repo := s\<rparr>)"
  by (cases "m (w_repo w)"; cases "fst (m (w_repo w))") (auto simp: on_repo_def)

lemma bound_update [simp]:
  "bound E cx name (w\<lparr>w_lake := l\<rparr>) = bound E cx name w" "bound E cx name (w\<lparr>w_repo := s\<rparr>) = bound E cx name w"
  by (simp_all add: bound_def Let_def cong: if_cong option.case_cong schema_provider.case_cong)

lemma record_version_Inr:
  "record_version M u v w = (Inr x, w') \<longleftrightarrow> (\<exists>n s. table_create_new_version (ms_repository M) u v (w_repo w) = (Inr n, s) \<and>
     w' = w\<lparr>w_repo := s\<rparr>)"
  by (auto simp: record_version_def res_simps on_repo_Inr)


subsection \<open>What the statements rely on\<close>

text \<open>The rows of some files, and of a table; what a row becomes when its file is left out.\<close>

definition rows_in :: "('l \<Rightarrow> 'ls \<Rightarrow> string \<Rightarrow> 'v list list) \<Rightarrow> 'l \<Rightarrow> 'ls \<Rightarrow> add_file list \<Rightarrow> 'v list multiset" where
  "rows_in file_rows l ls fs = mset (concat (map (file_rows l ls \<circ> add_path) fs))"

definition lake_rows ::
    "('l \<Rightarrow> 'ls \<Rightarrow> add_file list) \<Rightarrow> ('l \<Rightarrow> 'ls \<Rightarrow> string \<Rightarrow> 'v list list) \<Rightarrow> 'l \<Rightarrow> 'ls \<Rightarrow> 'v list multiset" where
  "lake_rows files file_rows l ls = rows_in file_rows l ls (files l ls)"

lemma rows_in_simps [simp]:
  "rows_in r l ls [] = {#}" "rows_in r l ls (f # fs) = mset (r l ls (add_path f)) + rows_in r l ls fs"
  "rows_in r l ls (fs @ gs) = rows_in r l ls fs + rows_in r l ls gs"
  by (simp_all add: rows_in_def)

lemma rows_in_mset: "mset fs = mset gs \<Longrightarrow> rows_in r l ls fs = rows_in r l ls gs"
proof -
  have "rows_in r l ls fs = \<Sum>\<^sub># (image_mset (\<lambda>f. mset (r l ls (add_path f))) (mset fs))" for fs
    by (induction fs) simp_all
  then show "mset fs = mset gs \<Longrightarrow> rows_in r l ls fs = rows_in r l ls gs" by simp
qed

text \<open>
  The rows of a plan and of a file, and the value of an expression on a row; a predicate is true, false or
  null. A row is the list of its values in the order of the columns. The laws state what the statements rely on
  of DataFusion and delta-rs: that pruning leaves out no file with a row where the predicate is true, that a
  scan with that predicate reads the files that pruning keeps whole, and that a commit exchanges the files of the
  table as its actions say. That \<open>plan_to_object_store\<close> writes the rows of the plan into new files is
  what \<open>DeltaWrite\<close> shows.
\<close>

locale delta_lake =
  fixes DF :: "('input, 'plan, 'pred, 'expr, 'pexpr, 'ty, 'ls, 'snap) dataframes"
    and DL :: "('plan, 'ty, 'ls, 'l, 'snap) delta"
    and files :: "'l \<Rightarrow> 'ls \<Rightarrow> add_file list" and file_rows :: "'l \<Rightarrow> 'ls \<Rightarrow> string \<Rightarrow> 'v list list"
    and plan_rows :: "'plan \<Rightarrow> 'v list list"
    and holds :: "(string \<times> 'ty) list \<Rightarrow> 'pred \<Rightarrow> 'v list \<Rightarrow> bool option" and test :: "'pexpr \<Rightarrow> 'v list \<Rightarrow> bool option"
    and eval :: "(string \<times> 'ty) list \<Rightarrow> 'expr \<Rightarrow> 'v list \<Rightarrow> 'v" and cast :: "'ty \<Rightarrow> 'v \<Rightarrow> 'v" and val :: "'pexpr \<Rightarrow> 'v list \<Rightarrow> 'v"
    and at :: "'snap \<Rightarrow> 'l \<times> 'ls"
  assumes load: "dl_load DL ls l = (load_res, l') \<Longrightarrow> l' = l \<and> (\<forall>snap. load_res = Inr snap \<longrightarrow> at snap = (l, ls))"
    and snapshot_files: "dl_files DL snap = Inr fs \<Longrightarrow> at snap = (l, ls) \<Longrightarrow> fs = files l ls"
    and distinct_paths: "distinct (map add_path (files l ls))"
    and row_length: "at snap = (l, ls) \<Longrightarrow> row \<in># lake_rows files file_rows l ls \<Longrightarrow> length row = length (dl_fields DL snap)"
    and predicate: "df_predicate DF sch p = Inr e \<Longrightarrow> test e = holds sch p"
    and negation: "holds sch (df_not DF p) row = map_option Not (holds sch p row)"
    and prune_length: "df_prune DF e snap = Inr m \<Longrightarrow> at snap = (l, ls) \<Longrightarrow> length m = length (files l ls)"
    and prune_sound: "df_prune DF e snap = Inr m \<Longrightarrow> at snap = (l, ls) \<Longrightarrow> (f, False) \<in> set (zip (files l ls) m) \<Longrightarrow>
      row \<in> set (file_rows l ls (add_path f)) \<Longrightarrow> test e row \<noteq> Some True"
    and scan_all: "df_scan DF ls snap [] = Inr plan \<Longrightarrow> at snap = (l, ls) \<Longrightarrow>
      mset (plan_rows plan) = lake_rows files file_rows l ls"
    and scan_pruned: "df_scan DF ls snap [q] = Inr plan \<Longrightarrow> at snap = (l, ls) \<Longrightarrow> q = p \<or> df_unqualify DF p = Inr q \<Longrightarrow>
      df_predicate DF (dl_fields DL snap) p = Inr e \<Longrightarrow> df_prune DF e snap = Inr m \<Longrightarrow>
      mset (plan_rows plan) = rows_in file_rows l ls (files_to_prune (files l ls) m)"
    and filter_rows: "df_filter DF e plan = Inr plan' \<Longrightarrow>
      plan_rows plan' = filter (\<lambda>row. test e row = Some True) (plan_rows plan)"
    and projection_rows: "df_projection DF ps plan = Inr plan' \<Longrightarrow>
      plan_rows plan' = map (\<lambda>row. map (\<lambda>(e, _). val e row) ps) (plan_rows plan)"
    and physical_value: "df_physical DF sch x = Inr e \<Longrightarrow> val e row = eval sch x row"
    and cast_value: "df_cast DF sch e ty = Inr e' \<Longrightarrow> val e' row = cast ty (val e row)"
    and type_value: "df_type DF sch e = Inr ty \<Longrightarrow> cast ty (val e row) = val e row"
    and case_value: "df_case DF c t e = Inr e' \<Longrightarrow> val e' row = (if test c row = Some True then val t row else val e row)"
    and column_names: "distinct (map fst (dl_fields DL snap))"
    and col_value: "df_col DF sch (fst (sch ! i)) = Inr e \<Longrightarrow> distinct (map fst sch) \<Longrightarrow> i < length sch \<Longrightarrow> val e row = row ! i"
    and write_keeps: "dl_write DL plan ls l = (written, l') \<Longrightarrow> files l' = files l \<and>
      (\<forall>ls f. f \<in> set (files l ls) \<longrightarrow> file_rows l' ls (add_path f) = file_rows l ls (add_path f))"
    and write_rows: "dl_write DL plan ls l = (Inr adds, l') \<Longrightarrow> rows_in file_rows l' ls adds = mset (plan_rows plan)"
    and commit: "dl_commit DL acts ls snap l = (Inr v, l') \<Longrightarrow>
      files l' ls = [f \<leftarrow> files l ls. \<not> (\<exists>n t. RemoveFile (add_path f) n t \<in> set acts)] @
        List.map_filter (\<lambda>a. case a of AddFile f \<Rightarrow> Some f | _ \<Rightarrow> None) acts"
    and commit_rows: "dl_commit DL acts ls snap l = (committed, l') \<Longrightarrow> file_rows l' = file_rows l"
    and commit_other: "dl_commit DL acts ls snap l = (committed, l') \<Longrightarrow> ls' \<noteq> ls \<Longrightarrow> files l' ls' = files l ls'"
begin

lemma commit_adds:
  "List.map_filter (\<lambda>a. case a of AddFile f \<Rightarrow> Some f | _ \<Rightarrow> None)
    (map AddFile adds @ map (remove_file t) removes) = adds"
proof -
  have "List.map_filter (\<lambda>a. case a of AddFile f \<Rightarrow> Some f | _ \<Rightarrow> None) (map AddFile adds) = adds"
    by (induction adds) (auto simp: List.map_filter_def)
  moreover have "List.map_filter (\<lambda>a. case a of AddFile f \<Rightarrow> Some f | _ \<Rightarrow> None) (map (remove_file t) removes) = []"
    by (induction removes) (auto simp: List.map_filter_def remove_file_def)
  ultimately show ?thesis by (simp add: List.map_filter_def)
qed

lemma commit_removes:
  "(\<exists>n t'. RemoveFile p n t' \<in> set (map AddFile adds @ map (remove_file t) removes)) \<longleftrightarrow> p \<in> add_path ` set removes"
  by (auto simp: remove_file_def image_iff)

text \<open>A commit that exchanges some files of the table for others.\<close>

lemma commit_exchange:
  assumes commit': "dl_commit DL (map AddFile adds @ map (remove_file t) removes) ls snap l = (Inr v, l')"
    and removes: "set removes \<subseteq> set (files l ls)" "distinct removes"
  shows "lake_rows files file_rows l' ls + rows_in file_rows l ls removes =
      lake_rows files file_rows l ls + rows_in file_rows l ls adds"
    and "ls' \<noteq> ls \<Longrightarrow> lake_rows files file_rows l' ls' = lake_rows files file_rows l ls'"
proof -
  let ?gone = "[f \<leftarrow> files l ls. add_path f \<in> add_path ` set removes]"
  let ?kept = "[f \<leftarrow> files l ls. add_path f \<notin> add_path ` set removes]"
  have files: "files l' ls = ?kept @ adds"
    using commit [OF commit'] unfolding commit_adds commit_removes by simp
  have inj: "inj_on add_path (set (files l ls))" using distinct_paths [of l ls] by (simp add: distinct_map)
  have "mset ?gone = mset removes"
  proof (rule set_eq_iff_mset_eq_distinct [THEN iffD1])
    show "distinct ?gone" using distinct_paths [of l ls] by (simp add: distinct_map)
    show "set ?gone = set removes" using removes(1) inj by (auto simp: inj_on_def)
  qed (rule removes)
  moreover have "mset (files l ls) = mset ?gone + mset ?kept"
    unfolding mset_filter by (rule multiset_partition)
  ultimately have "mset (files l ls) = mset (removes @ ?kept)" by (simp only: mset_append)
  from rows_in_mset [OF this, of file_rows l ls]
  show "lake_rows files file_rows l' ls + rows_in file_rows l ls removes =
      lake_rows files file_rows l ls + rows_in file_rows l ls adds"
    by (simp add: lake_rows_def files rows_in_def [where l = l'] commit_rows [OF commit']) (simp add: rows_in_def add.commute)
  show "ls' \<noteq> ls \<Longrightarrow> lake_rows files file_rows l' ls' = lake_rows files file_rows l ls'"
    by (simp add: lake_rows_def rows_in_def commit_rows [OF commit'] commit_other [OF commit'])
qed

lemma write_lake_rows:
  assumes "dl_write DL plan ls l = (r, l')"
  shows "set fs \<subseteq> set (files l ls') \<Longrightarrow> rows_in file_rows l' ls' fs = rows_in file_rows l ls' fs"
    and "lake_rows files file_rows l' ls' = lake_rows files file_rows l ls'" and "files l' = files l"
proof -
  note keep = write_keeps [OF assms, THEN conjunct2, rule_format] and fls = write_keeps [OF assms, THEN conjunct1]
  show rows: "rows_in file_rows l' ls' fs = rows_in file_rows l ls' fs" if "set fs \<subseteq> set (files l ls')" for fs
    using that keep by (induction fs) simp_all
  show "lake_rows files file_rows l' ls' = lake_rows files file_rows l ls'"
    using rows [of "files l ls'"] by (simp add: lake_rows_def fls)
  show "files l' = files l" by (rule fls)
qed

text \<open>A statement that writes files and exchanges them for some files of the table.\<close>

lemma exchange:
  assumes wrote: "dl_write DL plan ls l = (Inr adds, l1)"
    and commit': "dl_commit DL (map AddFile adds @ map (remove_file t) removes) ls snap l1 = (Inr v, l2)"
    and removes: "set removes \<subseteq> set (files l ls)" "distinct removes"
  shows "lake_rows files file_rows l2 ls + rows_in file_rows l ls removes =
      lake_rows files file_rows l ls + mset (plan_rows plan)"
    and "ls' \<noteq> ls \<Longrightarrow> lake_rows files file_rows l2 ls' = lake_rows files file_rows l ls'"
proof -
  note w = write_lake_rows [OF wrote]
  have removes': "set removes \<subseteq> set (files l1 ls)" using removes(1) w(3) by simp
  show "lake_rows files file_rows l2 ls + rows_in file_rows l ls removes =
      lake_rows files file_rows l ls + mset (plan_rows plan)"
    using commit_exchange(1) [OF commit' removes' removes(2)] w(1) [OF removes(1)] w(2) write_rows [OF wrote] by simp
  show "ls' \<noteq> ls \<Longrightarrow> lake_rows files file_rows l2 ls' = lake_rows files file_rows l ls'"
    using commit_exchange(2) [OF commit' removes' removes(2)] w(2) by simp
qed

lemma files_to_prune_subset: "set (files_to_prune fs m) \<subseteq> set fs"
  by (auto simp: files_to_prune_def dest: set_zip_leftD)

lemma distinct_files_to_prune: "distinct fs \<Longrightarrow> distinct (files_to_prune fs m)"
proof (induction fs arbitrary: m)
  case (Cons f fs)
  then show ?case using files_to_prune_subset [of fs "tl m"] by (cases m) (auto simp: files_to_prune_def)
qed (simp add: files_to_prune_def)

text \<open>The files that pruning leaves out have no row to which the statement applies.\<close>

lemma pruned_rows:
  assumes prune: "df_prune DF e snap = Inr m" and at: "at snap = (l, ls)"
  shows "\<exists>N. lake_rows files file_rows l ls = rows_in file_rows l ls (files_to_prune (files l ls) m) + N \<and>
    (\<forall>row. row \<in># N \<longrightarrow> test e row \<noteq> Some True)"
proof -
  have "\<exists>N. rows_in file_rows l ls fs = rows_in file_rows l ls (files_to_prune fs m) + N \<and>
      (\<forall>row. row \<in># N \<longrightarrow> test e row \<noteq> Some True)"
    if "length m = length fs" and "\<forall>f row. (f, False) \<in> set (zip fs m) \<longrightarrow> row \<in> set (file_rows l ls (add_path f)) \<longrightarrow> test e row \<noteq> Some True"
    for fs
    using that
  proof (induction fs arbitrary: m)
    case Nil
    show ?case by (intro exI [of _ "{#}"]) (simp add: files_to_prune_def)
  next
    case (Cons f fs)
    then obtain b m' where m: "m = b # m'" by (cases m) auto
    have len: "length m' = length fs" using Cons.prems(1) m by simp
    have sound: "\<forall>f row. (f, False) \<in> set (zip fs m') \<longrightarrow> row \<in> set (file_rows l ls (add_path f)) \<longrightarrow> test e row \<noteq> Some True"
      using Cons.prems(2) m by simp
    from Cons.IH [OF len sound] obtain N where N: "rows_in file_rows l ls fs = rows_in file_rows l ls (files_to_prune fs m') + N \<and>
      (\<forall>row. row \<in># N \<longrightarrow> test e row \<noteq> Some True)" by (elim exE) (rule that)
    show ?case
    proof (cases b)
      case True
      then show ?thesis using N m by (intro exI [of _ N]) (simp add: files_to_prune_def)
    next
      case False
      have "test e row \<noteq> Some True" if "row \<in> set (file_rows l ls (add_path f))" for row
        using Cons.prems(2) that m False by simp
      then show ?thesis using N m False
        by (intro exI [of _ "mset (file_rows l ls (add_path f)) + N"]) (auto simp: files_to_prune_def)
    qed
  qed
  then show ?thesis unfolding lake_rows_def using prune_length [OF prune at] prune_sound [OF prune at] by blast
qed

end

subsection \<open>The runs of the statements\<close>

lemma get_internal_object_store_Inr: "get_internal_object_store cx = Inr g \<longleftrightarrow> cx_internal cx = Some g"
  by (auto simp: get_internal_object_store_def ok_or_def split: option.splits)

lemma if_run: "(if b then f else g) s = r \<longleftrightarrow> b \<and> f s = r \<or> \<not> b \<and> g s = r"
  by simp

lemmas run_simps = bind_st_eq_Inr basic_st on_lake_Inr record_version_Inr get_internal_object_store_Inr if_run

lemma dml_delete_runs:
  assumes "dml_delete E DF DL us M cx name sch (Some p) w = (Inr x, w')"
  obtains (none) g u w1 ls w2 snap l3 e m fs v l5 n s where
    "cx_internal cx = Some g" "get_table_uuid E cx name w = (Inr u, w1)" "try_get_delta_table E cx name w1 = (Inr ls, w2)"
    "dl_load DL ls (w_lake w2) = (Inr snap, l3)" "df_predicate DF sch p = Inr e" "df_prune DF e snap = Inr m"
    "dl_files DL snap = Inr fs" "files_to_prune fs m = []" "dl_commit DL [] ls snap l3 = (Inr v, l5)"
    "table_create_new_version (ms_repository M) u v (w_repo w2) = (Inr n, s)"
    "w' = w2\<lparr>w_lake := l5, w_repo := s\<rparr>"
  | (some) g u w1 ls w2 snap l3 e m fs ne scan plan adds l4 v l5 n s where
    "cx_internal cx = Some g" "get_table_uuid E cx name w = (Inr u, w1)" "try_get_delta_table E cx name w1 = (Inr ls, w2)"
    "dl_load DL ls (w_lake w2) = (Inr snap, l3)" "df_predicate DF sch p = Inr e" "df_prune DF e snap = Inr m"
    "dl_files DL snap = Inr fs" "df_predicate DF sch (df_not DF p) = Inr ne" "df_scan DF ls snap [p] = Inr scan"
    "df_filter DF ne scan = Inr plan" "dl_write DL plan (g (us u)) l3 = (Inr adds, l4)"
    "dl_commit DL (map AddFile adds @ map (remove_file (dl_now DL)) (files_to_prune fs m)) ls snap l4 = (Inr v, l5)"
    "table_create_new_version (ms_repository M) u v (w_repo w2) = (Inr n, s)"
    "w' = w2\<lparr>w_lake := l5, w_repo := s\<rparr>"
  using assms unfolding dml_delete_def option.case Let_def
  apply (simp add: run_simps split_paired_Ex)
  apply (elim exE conjE disjE; hypsubst)
  subgoal by (rule none) (assumption | simp)+
  subgoal by (rule some) (assumption | simp)+
  done

lemma dml_delete_all_runs:
  assumes "dml_delete E DF DL us M cx name sch None w = (Inr x, w')"
  obtains u w1 ls w2 snap l3 fs v l5 n s where
    "get_table_uuid E cx name w = (Inr u, w1)" "try_get_delta_table E cx name w1 = (Inr ls, w2)"
    "dl_load DL ls (w_lake w2) = (Inr snap, l3)" "dl_files DL snap = Inr fs"
    "dl_commit DL (map AddFile [] @ map (remove_file (dl_now DL)) fs) ls snap l3 = (Inr v, l5)"
    "table_create_new_version (ms_repository M) u v (w_repo w2) = (Inr n, s)"
    "w' = w2\<lparr>w_lake := l5, w_repo := s\<rparr>"
  using assms unfolding dml_delete_def option.case Let_def
  apply (simp add: run_simps split_paired_Ex)
  apply (elim exE conjE; hypsubst)
  subgoal by (rule that) (assumption | simp)+
  done

lemma truncate_table_runs:
  assumes "truncate_table E DL cx name w = (Inr x, w')"
  obtains ls w2 snap l3 fs v l5 where
    "try_get_delta_table E cx (en_ref E name) w = (Inr ls, w2)" "dl_load DL ls (w_lake w2) = (Inr snap, l3)"
    "dl_files DL snap = Inr fs"
    "dl_commit DL (map AddFile [] @ map (remove_file (dl_now DL)) fs) ls snap l3 = (Inr v, l5)"
    "w' = w2\<lparr>w_lake := l5\<rparr>"
  using assms unfolding truncate_table_def
  apply (simp add: run_simps)
  apply (elim exE conjE; hypsubst)
  subgoal by (rule that) (assumption | simp)+
  done

lemma dml_insert_runs:
  assumes "dml_insert E DF DL us M cx name input w = (Inr x, w')"
  obtains plan u w1 g adds l1 snap l2 v l3 n s where
    "df_plan DF input = Inr plan" "get_table_uuid E cx name w = (Inr u, w1)" "cx_internal cx = Some g"
    "dl_write DL plan (g (us u)) (w_lake w1) = (Inr adds, l1)" "dl_load DL (g (us u)) l1 = (Inr snap, l2)"
    "dl_commit DL (map AddFile adds @ map (remove_file 0) []) (g (us u)) snap l2 = (Inr v, l3)"
    "table_create_new_version (ms_repository M) u v (w_repo w1) = (Inr n, s)"
    "w' = w1\<lparr>w_lake := l3, w_repo := s\<rparr>"
  using assms unfolding dml_insert_def plan_to_delta_table_def Let_def
  apply (simp add: run_simps)
  apply (elim exE conjE; hypsubst)
  subgoal by (rule that) (assumption | simp)+
  done


lemma dml_update_runs:
  assumes "dml_update E DF DL us M cx name (Projection exprs predicate) w = (Inr x, w')"
  obtains (none) g ls w1 snap l1 filters sel u w2 v l5 n s where
    "cx_internal cx = Some g" "try_get_delta_table E cx name w = (Inr ls, w1)"
    "dl_load DL ls (w_lake w1) = (Inr snap, l1)" "update_selection DF DL snap predicate = Inr (filters, sel, [])"
    "get_table_uuid E cx name (w1\<lparr>w_lake := l1\<rparr>) = (Inr u, w2)" "dl_commit DL [] ls snap (w_lake w2) = (Inr v, l5)"
    "table_create_new_version (ms_repository M) u v (w_repo w2) = (Inr n, s)"
    "w' = w2\<lparr>w_lake := l5, w_repo := s\<rparr>"
  | (some) g ls w1 snap l1 filters sel removes u w2 scan ps plan adds l4 v l5 n s where
    "cx_internal cx = Some g" "try_get_delta_table E cx name w = (Inr ls, w1)"
    "dl_load DL ls (w_lake w1) = (Inr snap, l1)" "update_selection DF DL snap predicate = Inr (filters, sel, removes)"
    "get_table_uuid E cx name (w1\<lparr>w_lake := l1\<rparr>) = (Inr u, w2)" "df_scan DF ls snap filters = Inr scan"
    "project_expressions DF exprs (dl_fields DL snap) sel = Inr ps" "df_projection DF ps scan = Inr plan"
    "dl_write DL plan (g (us u)) (w_lake w2) = (Inr adds, l4)"
    "dl_commit DL (map AddFile adds @ map (remove_file (dl_now DL)) removes) ls snap l4 = (Inr v, l5)"
    "table_create_new_version (ms_repository M) u v (w_repo w2) = (Inr n, s)"
    "w' = w2\<lparr>w_lake := l5, w_repo := s\<rparr>"
  using assms unfolding dml_update_def update_input.case
  apply (simp add: run_simps split_paired_Ex)
  apply (elim exE conjE disjE; hypsubst)
  subgoal by (rule none) (assumption | simp)+
  subgoal by (rule some) (assumption | simp)+
  done

subsection \<open>What the statements do to the rows of a table\<close>

text \<open>Only the table that the statement names is changed.\<close>

definition other_tables_kept ::
    "('l \<Rightarrow> 'ls \<Rightarrow> add_file list) \<Rightarrow> ('l \<Rightarrow> 'ls \<Rightarrow> string \<Rightarrow> 'v list list) \<Rightarrow> 'ls \<Rightarrow> 'l \<Rightarrow> 'l \<Rightarrow> bool" where
  "other_tables_kept files file_rows ls l l' \<longleftrightarrow> (\<forall>ls'. ls' \<noteq> ls \<longrightarrow> lake_rows files file_rows l' ls' = lake_rows files file_rows l ls')"

text \<open>A new version of the table is recorded in the catalog.\<close>

definition version_recorded :: "('ref, 'ls, 'l) engine \<Rightarrow> ('s, 'f) metastore \<Rightarrow> 'ls \<Rightarrow> 's \<Rightarrow> 's \<Rightarrow> bool" where
  "version_recorded E M ls s s' \<longleftrightarrow> (\<exists>u v n. en_parse_uuid E (last (en_uri_parts E ls)) = Some u \<and>
     table_create_new_version (ms_repository M) u v s = (Inr n, s'))"

text \<open>
  Rows where the predicate holds are gone, rows where it is false are kept; the rows of the files that
  are rewritten are kept only where it is false.
\<close>

definition rows_deleted :: "('v list \<Rightarrow> bool option) \<Rightarrow> 'v list multiset \<Rightarrow> 'v list multiset \<Rightarrow> bool" where
  "rows_deleted h T T' \<longleftrightarrow> (\<forall>row. h row = Some True \<longrightarrow> row \<notin># T') \<and>
     (\<forall>row. h row = Some False \<longrightarrow> count T' row = count T row) \<and>
     (\<exists>rewritten rest. T = rewritten + rest \<and> T' = {#row \<in># rewritten. h row = Some False#} + rest)"

lemma rows_deletedI:
  assumes "T = P + N" and "\<forall>row. row \<in># N \<longrightarrow> h row \<noteq> Some True" and "T' = {#row \<in># P. h row = Some False#} + N"
  shows "rows_deleted h T T'"
proof -
  have "count N row = 0" if "h row = Some True" for row using assms(2) that by (auto simp: count_eq_zero_iff)
  then show ?thesis unfolding rows_deleted_def assms(1,3) by (auto simp: count_eq_zero_iff)
qed

lemma same_state_trans: "same_state E cx w w1 \<Longrightarrow> same_state E cx w1 w2 \<Longrightarrow> same_state E cx w w2"
  by (simp add: same_state_def)

lemma lookups:
  assumes uuid: "get_table_uuid E cx name w = (Inr u, w1)" and tab: "try_get_delta_table E cx name w1 = (Inr ls, w2)"
    and quiet: "quiet_load E"
  shows "bound E cx name w = Some (Delta ls)" and "same_state E cx w w2"
    and "en_parse_uuid E (last (en_uri_parts E ls)) = Some u"
proof -
  note u = get_table_uuid_Inr [OF uuid quiet] and t = try_get_delta_table_Inr [OF tab quiet]
  show b: "bound E cx name w = Some (Delta ls)" using t(1) u(2) by (simp add: same_state_def)
  show "same_state E cx w w2" by (rule same_state_trans [OF u(2) t(2)])
  show "en_parse_uuid E (last (en_uri_parts E ls)) = Some u" using u(1) b by auto
qed

context delta_lake
begin

lemma commit_nothing:
  assumes "dl_commit DL [] ls snap l = (Inr v, l')"
  shows "lake_rows files file_rows l' ls' = lake_rows files file_rows l ls'"
proof -
  have c: "dl_commit DL (map AddFile [] @ map (remove_file 0) []) ls snap l = (Inr v, l')" using assms by simp
  show ?thesis using commit_exchange [OF c] by (cases "ls' = ls") simp_all
qed

lemma delete_rows:
  assumes run: "dml_delete E DF DL us M cx name sch (Some p) w = (Inr x, w')" and quiet: "quiet_load E"
    and internal: "\<And>ls. bound E cx name w = Some (Delta ls) \<Longrightarrow> internal_table E us cx ls"
    and schema: "\<And>ls snap. bound E cx name w = Some (Delta ls) \<Longrightarrow> at snap = (w_lake w, ls) \<Longrightarrow> dl_fields DL snap = sch"
  shows "\<exists>ls. bound E cx name w = Some (Delta ls) \<and>
    rows_deleted (holds sch p) (lake_rows files file_rows (w_lake w) ls) (lake_rows files file_rows (w_lake w') ls) \<and>
    other_tables_kept files file_rows ls (w_lake w) (w_lake w') \<and> version_recorded E M ls (w_repo w) (w_repo w')"
  using run
proof (cases rule: dml_delete_runs)
  case (none g u w1 ls w2 snap l3 e m fs v l5 n s)
  note L = lookups [OF none(2,3) quiet]
  have l: "w_lake w2 = w_lake w" "w_repo w2 = w_repo w" using L(2) by (simp_all add: same_state_def)
  have at: "l3 = w_lake w" "at snap = (w_lake w, ls)" using load [OF none(4)] l by simp_all
  have fs: "fs = files (w_lake w) ls" by (rule snapshot_files [OF none(7) at(2)])
  have "lake_rows files file_rows l5 ls' = lake_rows files file_rows (w_lake w) ls'" for ls'
    using commit_nothing [OF none(9)] at by simp
  moreover have "\<forall>row. row \<in># lake_rows files file_rows (w_lake w) ls \<longrightarrow> holds sch p row \<noteq> Some True"
    using pruned_rows [OF none(6) at(2)] none(8) fs predicate [OF none(5)] by auto
  then have "rows_deleted (holds sch p) (lake_rows files file_rows (w_lake w) ls) (lake_rows files file_rows (w_lake w) ls)"
    by (intro rows_deletedI [where P = "{#}"]) simp_all
  ultimately show ?thesis
    using L(1,3) none(10,11) l
    by (intro exI [of _ ls]) (auto simp: other_tables_kept_def version_recorded_def)
next
  case (some g u w1 ls w2 snap l3 e m fs ne scan plan adds l4 v l5 n s)
  note L = lookups [OF some(2,3) quiet]
  have l: "w_lake w2 = w_lake w" "w_repo w2 = w_repo w" using L(2) by (simp_all add: same_state_def)
  have at: "l3 = w_lake w" "at snap = (w_lake w, ls)" using load [OF some(4)] l by simp_all
  have fs: "fs = files (w_lake w) ls" by (rule snapshot_files [OF some(7) at(2)])
  have gu: "g (us u) = ls" using internal [OF L(1)] some(1) L(3) by (simp add: internal_table_def)
  let ?P = "rows_in file_rows (w_lake w) ls (files_to_prune fs m)"
  note X = exchange [OF some(11) [unfolded gu at(1)] some(12)]
  have removes: "set (files_to_prune fs m) \<subseteq> set (files (w_lake w) ls)" "distinct (files_to_prune fs m)"
    using files_to_prune_subset distinct_files_to_prune distinct_paths [of "w_lake w" ls]
    by (simp_all add: fs distinct_map)
  have "mset (plan_rows scan) = ?P"
    unfolding fs by (rule scan_pruned [OF some(9) at(2) _ _ some(6), of p]) (simp_all add: some(5) schema [OF L(1) at(2)])
  moreover have "plan_rows plan = filter (\<lambda>row. holds sch p row = Some False) (plan_rows scan)"
    unfolding filter_rows [OF some(10)] predicate [OF some(8)] negation by (rule filter_cong) auto
  ultimately have rest: "mset (plan_rows plan) = {#row \<in># ?P. holds sch p row = Some False#}" by simp
  obtain N where N: "lake_rows files file_rows (w_lake w) ls = ?P + N \<and> (\<forall>row. row \<in># N \<longrightarrow> holds sch p row \<noteq> Some True)"
    using pruned_rows [OF some(6) at(2), folded fs, unfolded predicate [OF some(5)]] by (elim exE) (rule that)
  have new: "lake_rows files file_rows l5 ls = N + {#row \<in># ?P. holds sch p row = Some False#}"
    using X(1) [OF removes] N unfolding rest by (simp add: add.commute add.left_commute)
  have "rows_deleted (holds sch p) (lake_rows files file_rows (w_lake w) ls) (lake_rows files file_rows l5 ls)"
    using N new by (intro rows_deletedI [of _ ?P N]) (simp_all add: add.commute)
  then show ?thesis
    using X(2) [OF removes] L(1,3) some(13,14) l N new
    by (intro exI [of _ ls]) (auto simp: other_tables_kept_def version_recorded_def)
qed

end

text \<open>A row after an \<open>UPDATE\<close>: every column gets the value of its expression, cast to its type.\<close>

definition updated_row ::
    "('expr \<Rightarrow> 'v list \<Rightarrow> 'v) \<Rightarrow> ('ty \<Rightarrow> 'v \<Rightarrow> 'v) \<Rightarrow> ('expr aliased \<times> string \<times> 'ty) list \<Rightarrow> ('v list \<Rightarrow> bool) \<Rightarrow> 'v list \<Rightarrow> 'v list" where
  "updated_row eval cast sets selected row =
     (if selected row then map (\<lambda>(x, _, ty). cast ty (eval (de_alias x) row)) sets else row)"

lemma image_mset_unchanged: "(\<And>x. x \<in># N \<Longrightarrow> f x = x) \<Longrightarrow> image_mset f N = N"
  by (metis image_mset_cong multiset.map_ident)

lemma project_expression_Inr:
  assumes "project_expression DF sch sel (x, name, ty) = Inr (e, name')"
  obtains e1 t e2 where "df_physical DF sch (de_alias x) = Inr e1" "df_type DF sch e1 = Inr t"
    "t = ty \<and> e2 = e1 \<or> df_cast DF sch e1 ty = Inr e2"
    "sel = None \<and> e = e2 \<or> (\<exists>c k. sel = Some c \<and> df_col DF sch name = Inr k \<and> df_case DF c e2 k = Inr e)"
  using assms unfolding project_expression_def
  by (cases sel) (auto simp: res_simps split: if_splits)

context delta_lake
begin

lemma project_expressions_row:
  assumes "project_expressions DF exprs (dl_fields DL snap) sel = Inr ps" and len: "length exprs = length (dl_fields DL snap)"
    and row: "length row = length (dl_fields DL snap)"
  shows "map (\<lambda>(e, _). val e row) ps =
    updated_row (eval (dl_fields DL snap)) cast (zip exprs (dl_fields DL snap)) (\<lambda>row. case sel of None \<Rightarrow> True | Some c \<Rightarrow> test c row = Some True) row"
    (is "_ = updated_row _ cast ?sets ?sel row")
proof -
  let ?fs = "dl_fields DL snap"
  have all: "list_all2 (\<lambda>x y. project_expression DF ?fs sel x = Inr y) ?sets ps"
    using assms(1) by (simp add: project_expressions_def collect_res_Inr_iff)
  have n: "length ps = length ?fs" using list_all2_lengthD [OF all] len by simp
  have new_value: "val (fst (ps ! i)) row = (if ?sel row then cast (snd (?fs ! i)) (eval ?fs (de_alias (exprs ! i)) row) else row ! i)"
    if i: "i < length ?fs" for i
  proof -
    obtain name ty where f: "?fs ! i = (name, ty)" by force
    obtain e name' where p: "ps ! i = (e, name')" by force
    have "project_expression DF ?fs sel (exprs ! i, name, ty) = Inr (e, name')"
      using list_all2_nthD [OF all, of i] i len f p by simp
    then obtain e1 t e2 where e: "df_physical DF ?fs (de_alias (exprs ! i)) = Inr e1" "df_type DF ?fs e1 = Inr t"
      "t = ty \<and> e2 = e1 \<or> df_cast DF ?fs e1 ty = Inr e2"
      "sel = None \<and> e = e2 \<or> (\<exists>c k. sel = Some c \<and> df_col DF ?fs name = Inr k \<and> df_case DF c e2 k = Inr e)"
      by (rule project_expression_Inr)
    have "val e2 row = cast ty (eval ?fs (de_alias (exprs ! i)) row)"
      using e(3) type_value [OF e(2), of row] cast_value [of ?fs e1 ty e2 row] physical_value [OF e(1), of row] by auto
    with e(4) show ?thesis using col_value [of ?fs i _ row] column_names [of snap] case_value i by (auto simp: f p)
  qed
  show ?thesis
  proof (rule nth_equalityI)
    show "length (map (\<lambda>(e, _). val e row) ps) = length (updated_row (eval ?fs) cast ?sets ?sel row)"
      using n len row by (simp add: updated_row_def)
    fix i
    assume "i < length (map (\<lambda>(e, _). val e row) ps)"
    then have i: "i < length ?fs" using n by simp
    have "map (\<lambda>(e, _). val e row) ps ! i = val (fst (ps ! i)) row" using i n by (simp add: case_prod_unfold)
    also have "\<dots> = updated_row (eval ?fs) cast ?sets ?sel row ! i"
      using new_value [OF i] i len by (simp add: updated_row_def case_prod_unfold)
    finally show "map (\<lambda>(e, _). val e row) ps ! i = updated_row (eval ?fs) cast ?sets ?sel row ! i" .
  qed
qed

text \<open>What is scanned and rewritten, and what is left alone.\<close>

lemma update_selection_rows:
  assumes sel: "update_selection DF DL snap predicate = Inr (filters, sel, removes)" and at: "at snap = (l, ls)"
  shows "set removes \<subseteq> set (files l ls)" and "distinct removes"
    and "(\<lambda>row. case sel of None \<Rightarrow> True | Some c \<Rightarrow> test c row = Some True) =
      (\<lambda>row. case predicate of None \<Rightarrow> True | Some p \<Rightarrow> holds (dl_fields DL snap) p row = Some True)"
    and "df_scan DF ls snap filters = Inr scan \<Longrightarrow> mset (plan_rows scan) = rows_in file_rows l ls removes"
    and "\<exists>N. lake_rows files file_rows l ls = rows_in file_rows l ls removes + N \<and>
      (\<forall>row. row \<in># N \<longrightarrow> \<not> (case predicate of None \<Rightarrow> True | Some p \<Rightarrow> holds (dl_fields DL snap) p row = Some True))"
proof -
  have dist: "distinct (files l ls)" using distinct_paths [of l ls] by (simp add: distinct_map)
  have "set removes \<subseteq> set (files l ls) \<and> distinct removes \<and>
    (\<lambda>row. case sel of None \<Rightarrow> True | Some c \<Rightarrow> test c row = Some True) =
      (\<lambda>row. case predicate of None \<Rightarrow> True | Some p \<Rightarrow> holds (dl_fields DL snap) p row = Some True) \<and>
    (df_scan DF ls snap filters = Inr scan \<longrightarrow> mset (plan_rows scan) = rows_in file_rows l ls removes) \<and>
    (\<exists>N. lake_rows files file_rows l ls = rows_in file_rows l ls removes + N \<and>
      (\<forall>row. row \<in># N \<longrightarrow> \<not> (case predicate of None \<Rightarrow> True | Some p \<Rightarrow> holds (dl_fields DL snap) p row = Some True)))"
  proof (cases predicate)
    case None
    then have r: "filters = []" "sel = None" "removes = files l ls"
      using sel snapshot_files [OF _ at] by (auto simp: update_selection_def res_simps)
    show ?thesis unfolding None r using dist scan_all [OF _ at, of scan] by (simp add: lake_rows_def)
  next
    case (Some p)
    then obtain q e m fs where r: "df_unqualify DF p = Inr q" "df_predicate DF (dl_fields DL snap) p = Inr e" "df_prune DF e snap = Inr m"
      "dl_files DL snap = Inr fs" "filters = [q]" "sel = Some e" "removes = files_to_prune fs m"
      using sel by (auto simp: update_selection_def res_simps)
    note fs = snapshot_files [OF r(4) at]
    have "mset (plan_rows scan) = rows_in file_rows l ls (files_to_prune (files l ls) m)" if "df_scan DF ls snap [q] = Inr scan"
      using scan_pruned [OF that at _ r(2,3)] r(1) by simp
    moreover note pruned_rows [OF r(3) at, unfolded predicate [OF r(2)]]
    ultimately show ?thesis
      unfolding Some r(5-7) fs option.case predicate [OF r(2)] using files_to_prune_subset distinct_files_to_prune [OF dist] by blast
  qed
  then show "set removes \<subseteq> set (files l ls)" "distinct removes"
    "(\<lambda>row. case sel of None \<Rightarrow> True | Some c \<Rightarrow> test c row = Some True) =
      (\<lambda>row. case predicate of None \<Rightarrow> True | Some p \<Rightarrow> holds (dl_fields DL snap) p row = Some True)"
    "df_scan DF ls snap filters = Inr scan \<Longrightarrow> mset (plan_rows scan) = rows_in file_rows l ls removes"
    "\<exists>N. lake_rows files file_rows l ls = rows_in file_rows l ls removes + N \<and>
      (\<forall>row. row \<in># N \<longrightarrow> \<not> (case predicate of None \<Rightarrow> True | Some p \<Rightarrow> holds (dl_fields DL snap) p row = Some True))"
    by simp_all
qed

end

context delta_lake
begin

lemma update_rows:
  assumes run: "dml_update E DF DL us M cx name (Projection exprs predicate) w = (Inr x, w')" and quiet: "quiet_load E"
    and internal: "\<And>ls. bound E cx name w = Some (Delta ls) \<Longrightarrow> internal_table E us cx ls"
    and columns: "\<And>ls snap. bound E cx name w = Some (Delta ls) \<Longrightarrow> at snap = (w_lake w, ls) \<Longrightarrow> length exprs = length (dl_fields DL snap)"
  shows "\<exists>ls snap. bound E cx name w = Some (Delta ls) \<and> at snap = (w_lake w, ls) \<and>
    lake_rows files file_rows (w_lake w') ls = image_mset (updated_row (eval (dl_fields DL snap)) cast (zip exprs (dl_fields DL snap))
      (\<lambda>row. case predicate of None \<Rightarrow> True | Some p \<Rightarrow> holds (dl_fields DL snap) p row = Some True)) (lake_rows files file_rows (w_lake w) ls) \<and>
    other_tables_kept files file_rows ls (w_lake w) (w_lake w') \<and> version_recorded E M ls (w_repo w) (w_repo w')"
  using run
proof (cases rule: dml_update_runs)
  case (none g ls w1 snap l1 filters sel u w2 v l5 n s)
  note T = try_get_delta_table_Inr [OF none(2) quiet] and U = get_table_uuid_Inr [OF none(5) quiet]
  have l1: "l1 = w_lake w1" using load [OF none(3)] by simp
  have l: "w_lake w2 = w_lake w" "w_repo w2 = w_repo w" using T(2) U(2) l1 by (simp_all add: same_state_def)
  have u: "en_parse_uuid E (last (en_uri_parts E ls)) = Some u" using U(1) T by (auto simp: same_state_def)
  have at: "at snap = (w_lake w, ls)" using load [OF none(3)] T(2) by (simp add: same_state_def)
  let ?f = "updated_row (eval (dl_fields DL snap)) cast (zip exprs (dl_fields DL snap)) (\<lambda>row. case predicate of None \<Rightarrow> True | Some p \<Rightarrow> holds (dl_fields DL snap) p row = Some True)"
  have rows: "lake_rows files file_rows l5 ls' = lake_rows files file_rows (w_lake w) ls'" for ls'
    using commit_nothing [OF none(6)] l by simp
  have "image_mset ?f (lake_rows files file_rows (w_lake w) ls) = lake_rows files file_rows (w_lake w) ls"
    using update_selection_rows(5) [OF none(4) at] by (intro image_mset_unchanged) (auto simp: updated_row_def)
  then show ?thesis
    using T(1) u none(7,8) l at rows
    by (intro exI [of _ ls] exI [of _ snap]) (auto simp: other_tables_kept_def version_recorded_def)
next
  case (some g ls w1 snap l1 filters sel removes u w2 scan ps plan adds l4 v l5 n s)
  note T = try_get_delta_table_Inr [OF some(2) quiet] and U = get_table_uuid_Inr [OF some(5) quiet]
  have l1: "l1 = w_lake w1" using load [OF some(3)] by simp
  have l: "w_lake w2 = w_lake w" "w_repo w2 = w_repo w" using T(2) U(2) l1 by (simp_all add: same_state_def)
  have u: "en_parse_uuid E (last (en_uri_parts E ls)) = Some u" using U(1) T by (auto simp: same_state_def)
  have at: "at snap = (w_lake w, ls)" using load [OF some(3)] T(2) by (simp add: same_state_def)
  have gu: "g (us u) = ls" using internal [OF T(1)] some(1) u by (simp add: internal_table_def)
  let ?f = "updated_row (eval (dl_fields DL snap)) cast (zip exprs (dl_fields DL snap)) (\<lambda>row. case predicate of None \<Rightarrow> True | Some p \<Rightarrow> holds (dl_fields DL snap) p row = Some True)"
  let ?P = "rows_in file_rows (w_lake w) ls removes"
  note S = update_selection_rows [OF some(4) at]
  note X = exchange [OF some(9) [unfolded gu l(1)] some(10) S(1,2)]
  obtain N where N: "lake_rows files file_rows (w_lake w) ls = ?P + N \<and>
      (\<forall>row. row \<in># N \<longrightarrow> \<not> (case predicate of None \<Rightarrow> True | Some p \<Rightarrow> holds (dl_fields DL snap) p row = Some True))"
    using S(5) by (elim exE) (rule that)
  have "map (\<lambda>(e, _). val e row) ps = ?f row" if "row \<in># ?P" for row
    using project_expressions_row [OF some(7) columns [OF T(1) at] row_length [OF at]] that N unfolding S(3) by simp
  then have "image_mset (\<lambda>row. map (\<lambda>(e, _). val e row) ps) ?P = image_mset ?f ?P" by (rule image_mset_cong)
  then have "mset (plan_rows plan) = image_mset ?f ?P"
    unfolding projection_rows [OF some(8)] mset_map S(4) [OF some(6)] .
  moreover have "image_mset ?f N = N" using N by (intro image_mset_unchanged) (simp add: updated_row_def)
  ultimately have "lake_rows files file_rows l5 ls = image_mset ?f (lake_rows files file_rows (w_lake w) ls)"
    using X(1) N by (simp add: add.commute add.left_commute)
  then show ?thesis
    using X(2) T(1) u some(11,12) l at
    by (intro exI [of _ ls] exI [of _ snap]) (auto simp: other_tables_kept_def version_recorded_def)
qed

lemma remove_all_rows:
  assumes load': "dl_load DL ls l = (Inr snap, l1)" and fs: "dl_files DL snap = Inr fs"
    and commit': "dl_commit DL (map AddFile [] @ map (remove_file t) fs) ls snap l1 = (Inr v, l2)"
  shows "lake_rows files file_rows l2 ls = {#}" and "other_tables_kept files file_rows ls l l2"
proof -
  have at: "l1 = l" "at snap = (l, ls)" using load [OF load'] by simp_all
  have fls: "fs = files l1 ls" using snapshot_files [OF fs at(2)] at(1) by simp
  have d: "distinct fs" using distinct_paths [of l1 ls] fls by (simp add: distinct_map)
  show "lake_rows files file_rows l2 ls = {#}" using commit_exchange(1) [OF commit' _ d] fls by (simp add: lake_rows_def)
  show "other_tables_kept files file_rows ls l l2"
    unfolding other_tables_kept_def using commit_exchange(2) [OF commit' _ d] fls at(1) by simp
qed

lemma delete_all_rows:
  assumes run: "dml_delete E DF DL us M cx name sch None w = (Inr x, w')" and quiet: "quiet_load E"
  shows "\<exists>ls. bound E cx name w = Some (Delta ls) \<and> lake_rows files file_rows (w_lake w') ls = {#} \<and>
    other_tables_kept files file_rows ls (w_lake w) (w_lake w') \<and> version_recorded E M ls (w_repo w) (w_repo w')"
  using run
proof (cases rule: dml_delete_all_runs)
  case (1 u w1 ls w2 snap l3 fs v l5 n s)
  note L = lookups [OF 1(1,2) quiet]
  show ?thesis
    using L 1(6,7) remove_all_rows [OF 1(3-5)]
    by (intro exI [of _ ls]) (auto simp: version_recorded_def same_state_def)
qed

lemma truncate_rows:
  assumes run: "truncate_table E DL cx name w = (Inr x, w')" and quiet: "quiet_load E"
  shows "\<exists>ls. bound E cx (en_ref E name) w = Some (Delta ls) \<and> lake_rows files file_rows (w_lake w') ls = {#} \<and>
    other_tables_kept files file_rows ls (w_lake w) (w_lake w') \<and> w_repo w' = w_repo w"
  using run
proof (cases rule: truncate_table_runs)
  case (1 ls w2 snap l3 fs v l5)
  note L = try_get_delta_table_Inr [OF 1(1) quiet]
  show ?thesis
    using L 1(5) remove_all_rows [OF 1(2-4)] by (intro exI [of _ ls]) (auto simp: same_state_def)
qed

lemma insert_rows:
  assumes run: "dml_insert E DF DL us M cx name input w = (Inr x, w')" and quiet: "quiet_load E"
    and internal: "\<And>ls. bound E cx name w = Some (Delta ls) \<Longrightarrow> internal_table E us cx ls"
  shows "\<exists>ls plan. bound E cx name w = Some (Delta ls) \<and> df_plan DF input = Inr plan \<and>
    lake_rows files file_rows (w_lake w') ls = lake_rows files file_rows (w_lake w) ls + mset (plan_rows plan) \<and>
    other_tables_kept files file_rows ls (w_lake w) (w_lake w') \<and> version_recorded E M ls (w_repo w) (w_repo w')"
  using run
proof (cases rule: dml_insert_runs)
  case (1 plan u w1 g adds l1 snap l2 v l3 n s)
  note U = get_table_uuid_Inr [OF 1(2) quiet]
  obtain ls where ls: "bound E cx name w = Some (Delta ls)" "en_parse_uuid E (last (en_uri_parts E ls)) = Some u"
    using U(1) by blast
  have gu: "g (us u) = ls" using internal [OF ls(1)] 1(3) ls(2) by (simp add: internal_table_def)
  have l: "w_lake w1 = w_lake w" "w_repo w1 = w_repo w" using U(2) by (simp_all add: same_state_def)
  have l2: "l2 = l1" using load [OF 1(5)] by simp
  note X = exchange [OF 1(4) [unfolded gu l(1)] 1(6) [unfolded gu l2], simplified]
  show ?thesis
    using ls 1(1,7,8) l X
    by (intro exI [of _ ls] exI [of _ plan]) (auto simp: other_tables_kept_def version_recorded_def)
qed

end

subsection \<open>A lake in memory\<close>

text \<open>
  Tables of two columns \<open>x\<close> and \<open>y\<close> of nullable numbers, predicates that compare a column with a number, files of
  at most two rows with the names of \<open>plan_to_object_store\<close>. A commit whose files clash is refused.
\<close>

type_synonym row = "int option list"

datatype compare = Above string int | Negated compare

datatype number_expr = Column string | Number int

datatype physical = PColumn nat | PNumber int | PTest "(string \<times> unit) list" compare | PCase physical physical physical

record memory_table =
  mt_version :: int
  mt_files :: "add_file list"
  mt_rows :: "(string \<times> row list) list"

type_synonym memory_lake = "string \<Rightarrow> memory_table"

fun column_index :: "(string \<times> unit) list \<Rightarrow> string \<Rightarrow> nat option" where
  "column_index [] name = None"
| "column_index (f # fs) name = (if fst f = name then Some 0 else map_option Suc (column_index fs name))"

fun compare_holds :: "(string \<times> unit) list \<Rightarrow> compare \<Rightarrow> row \<Rightarrow> bool option" where
  "compare_holds sch (Above c k) row = (case column_index sch c of
     Some i \<Rightarrow> if i < length row then map_option (\<lambda>x. k < x) (row ! i) else None
   | None \<Rightarrow> None)"
| "compare_holds sch (Negated p) row = map_option Not (compare_holds sch p row)"

fun number_eval :: "(string \<times> unit) list \<Rightarrow> number_expr \<Rightarrow> row \<Rightarrow> int option" where
  "number_eval sch (Column c) row = (case column_index sch c of Some i \<Rightarrow> row ! i | None \<Rightarrow> None)"
| "number_eval sch (Number k) row = Some k"

fun physical_test :: "physical \<Rightarrow> row \<Rightarrow> bool option" where
  "physical_test (PTest sch p) row = compare_holds sch p row"
| "physical_test _ row = None"

fun physical_val :: "physical \<Rightarrow> row \<Rightarrow> int option" where
  "physical_val (PColumn i) row = row ! i"
| "physical_val (PNumber k) row = Some k"
| "physical_val (PTest sch p) row = None"
| "physical_val (PCase c t e) row = (if physical_test c row = Some True then physical_val t row else physical_val e row)"

definition physical_of :: "(string \<times> unit) list \<Rightarrow> number_expr \<Rightarrow> (df_error, physical) result" where
  "physical_of sch x = (case x of
     Number k \<Rightarrow> Inr (PNumber k)
   | Column c \<Rightarrow> ok_or (Plan ''no such column'') (map_option PColumn (column_index sch c)))"

definition memory_fields :: "(string \<times> unit) list" where
  "memory_fields = [(''x'', ()), (''y'', ())]"

definition memory_files :: "memory_lake \<Rightarrow> string \<Rightarrow> add_file list" where
  "memory_files l ls = (let fs = mt_files (l ls) in if distinct (map add_path fs) then fs else [])"

definition memory_rows :: "memory_lake \<Rightarrow> string \<Rightarrow> string \<Rightarrow> row list" where
  "memory_rows l ls p = (case map_of (mt_rows (l ls)) p of
     None \<Rightarrow> []
   | Some rows \<Rightarrow> filter (\<lambda>row. length row = length memory_fields) rows)"

definition memory_scan ::
    "string \<Rightarrow> memory_lake \<times> string \<Rightarrow> compare list \<Rightarrow> (df_error, row list) result" where
  "memory_scan ls snap filters = (case snap of (l, ls) \<Rightarrow> Inr (concat (filter
     (\<lambda>rows. \<forall>p\<in>set filters. \<exists>row\<in>set rows. compare_holds memory_fields p row = Some True)
     (map (memory_rows l ls \<circ> add_path) (memory_files l ls)))))"

definition memory_prune :: "physical \<Rightarrow> memory_lake \<times> string \<Rightarrow> (df_error, bool list) result" where
  "memory_prune e snap = (case snap of (l, ls) \<Rightarrow> Inr (map
     (\<lambda>f. \<exists>row\<in>set (memory_rows l ls (add_path f)). physical_test e row = Some True) (memory_files l ls)))"

definition memory_frames ::
    "(row list, row list, compare, number_expr, physical, unit, string, memory_lake \<times> string) dataframes" where
  "memory_frames = \<lparr>df_plan = Inr, df_predicate = (\<lambda>sch p. Inr (PTest sch p)), df_not = Negated, df_unqualify = Inr,
     df_prune = memory_prune, df_scan = memory_scan,
     df_filter = (\<lambda>e rows. Inr (filter (\<lambda>row. physical_test e row = Some True) rows)),
     df_projection = (\<lambda>ps rows. Inr (map (\<lambda>row. map (\<lambda>(e, _). physical_val e row) ps) rows)),
     df_physical = physical_of, df_type = (\<lambda>_ _. Inr ()), df_cast = (\<lambda>_ e _. Inr e), df_case = (\<lambda>c t e. Inr (PCase c t e)),
     df_col = (\<lambda>sch name. physical_of sch (Column name))\<rparr>"

definition memory_write :: "row list \<Rightarrow> string \<Rightarrow> (memory_lake, df_error, add_file list) st" where
  "memory_write rows ls = (\<lambda>l.
     if \<forall>row\<in>set rows. length row = length memory_fields then
       let uuid = replicate (sum_list (map (length \<circ> add_path) (memory_files l ls))) CHR ''u'';
           parts = chunks 2 rows;
           names = map (part_file_name uuid) [0..<length parts] in
       (Inr (map (\<lambda>n. \<lparr>add_path = n, add_size = 1\<rparr>) names), l(ls := (l ls)\<lparr>mt_rows := zip names parts @ mt_rows (l ls)\<rparr>))
     else (Inl (Execution ''schema mismatch''), l))"

definition memory_commit :: "action list \<Rightarrow> string \<Rightarrow> memory_lake \<times> string \<Rightarrow> (memory_lake, df_error, int) st" where
  "memory_commit acts ls snap = (\<lambda>l.
     let fs = filter (\<lambda>f. list_all (\<lambda>a. case a of RemoveFile p _ _ \<Rightarrow> p \<noteq> add_path f | _ \<Rightarrow> True) acts) (memory_files l ls) @
           List.map_filter (\<lambda>a. case a of AddFile f \<Rightarrow> Some f | _ \<Rightarrow> None) acts in
     if distinct (map add_path fs)
     then (Inr (mt_version (l ls) + 1), l(ls := (l ls)\<lparr>mt_version := mt_version (l ls) + 1, mt_files := fs\<rparr>))
     else (Inl (Execution ''conflict''), l))"

definition memory_delta :: "(row list, unit, string, memory_lake, memory_lake \<times> string) delta" where
  "memory_delta = \<lparr>dl_load = (\<lambda>ls l. (Inr (l, ls), l)), dl_fields = (\<lambda>_. memory_fields),
     dl_files = (\<lambda>(l, ls). Inr (memory_files l ls)), dl_write = memory_write, dl_commit = memory_commit, dl_now = 1700000000000\<rparr>"

lemma column_index_nth:
  "distinct (map fst sch) \<Longrightarrow> i < length sch \<Longrightarrow> column_index sch (fst (sch ! i)) = Some i"
proof (induction sch arbitrary: i)
  case (Cons f fs)
  then show ?case by (cases i) (auto dest: nth_mem)
qed simp

lemma column_index_length: "column_index sch c = Some i \<Longrightarrow> i < length sch"
  by (induction sch arbitrary: i) (auto split: if_splits)

lemma memory_files_distinct: "distinct (map add_path (memory_files l ls))"
  by (simp add: memory_files_def Let_def)

lemma memory_scan_pruned:
  "mset (concat (filter (\<lambda>rows. \<exists>row\<in>set rows. P row) (map g fs))) =
   rows_in (\<lambda>_ _. h) l ls (files_to_prune fs (map (\<lambda>f. \<exists>row\<in>set (g f). P row) fs))"
  if "\<And>f. g f = h (add_path f)"
  using that by (induction fs) (simp_all add: files_to_prune_def rows_in_def)

text \<open>A new file has a longer name than every file of the table.\<close>

lemma memory_fresh:
  assumes "f \<in> set fs"
  shows "part_file_name (replicate (sum_list (map (length \<circ> add_path) fs)) CHR ''u'') i \<noteq> add_path f"
proof -
  have "length (add_path f) \<le> sum_list (map (length \<circ> add_path) fs)"
    using member_le_sum_list [of "length (add_path f)" "map (length \<circ> add_path) fs"] assms by auto
  moreover have "length (part_file_name (replicate n c) i) > n" for n c by (simp add: part_file_name_def)
  ultimately show ?thesis by (metis leD)
qed

lemma rows_in_parts:
  assumes "distinct names" and "length names = length parts"
  shows "concat (map (\<lambda>n. case map_of (zip names parts @ old) n of None \<Rightarrow> [] | Some rows \<Rightarrow> rows) names) = concat parts"
proof -
  have "map (\<lambda>n. case map_of (zip names parts @ old) n of None \<Rightarrow> [] | Some rows \<Rightarrow> rows) names = parts"
  proof (rule nth_equalityI)
    fix i
    assume "i < length (map (\<lambda>n. case map_of (zip names parts @ old) n of None \<Rightarrow> [] | Some rows \<Rightarrow> rows) names)"
    then have i: "i < length names" by simp
    have "map_of (zip names parts) (names ! i) = Some (parts ! i)"
      using assms i by (simp add: map_of_zip_nth)
    then show "map (\<lambda>n. case map_of (zip names parts @ old) n of None \<Rightarrow> [] | Some rows \<Rightarrow> rows) names ! i = parts ! i"
      using i by (simp add: map_add_Some_iff map_add_find_right)
  qed (simp add: assms)
  then show ?thesis by simp
qed

lemmas memory_defs = memory_frames_def memory_delta_def memory_prune_def memory_scan_def

lemma memory_write_keeps:
  assumes "memory_write rows ls l = (r, l')"
  shows "memory_files l' = memory_files l \<and>
    (\<forall>ls f. f \<in> set (memory_files l ls) \<longrightarrow> memory_rows l' ls (add_path f) = memory_rows l ls (add_path f))"
proof (intro conjI ext allI impI)
  fix ls'
  show "memory_files l' ls' = memory_files l ls'"
    using assms by (auto simp: memory_write_def memory_files_def Let_def split: if_splits)
  fix f
  assume f: "f \<in> set (memory_files l ls')"
  let ?uuid = "replicate (sum_list (map (length \<circ> add_path) (memory_files l ls'))) CHR ''u''"
  have "add_path f \<notin> range (part_file_name ?uuid)" by (rule notI, elim rangeE) (erule memory_fresh [OF f, THEN notE, OF sym])
  then have new: "map_of (zip (map (part_file_name ?uuid) [0..<length parts]) parts) (add_path f) = None" for parts :: "row list list"
    by (auto simp: map_of_eq_None_iff dest!: set_zip_leftD)
  show "memory_rows l' ls' (add_path f) = memory_rows l ls' (add_path f)"
  proof (cases "ls' = ls")
    case True
    show ?thesis
      using assms by (auto simp: memory_write_def memory_rows_def Let_def map_add_def new [unfolded True] True split: if_splits)
  qed (use assms in \<open>auto simp: memory_write_def memory_rows_def Let_def split: if_splits\<close>)
qed

lemma memory_write_rows:
  assumes "memory_write rows ls l = (Inr adds, l')"
  shows "rows_in memory_rows l' ls adds = mset rows"
proof -
  define uuid where "uuid = replicate (sum_list (map (length \<circ> add_path) (memory_files l ls))) CHR ''u''"
  define names where "names = map (part_file_name uuid) [0..<length (chunks 2 rows)]"
  have len: "\<forall>row\<in>set rows. length row = length memory_fields" and adds: "adds = map (\<lambda>n. \<lparr>add_path = n, add_size = 1\<rparr>) names"
    and l': "l' = l(ls := (l ls)\<lparr>mt_rows := zip names (chunks 2 rows) @ mt_rows (l ls)\<rparr>)"
    using assms by (auto simp: memory_write_def Let_def uuid_def names_def split: if_splits)
  have d: "distinct names" using part_file_name_inj by (auto simp: names_def distinct_map inj_on_def)
  let ?get = "\<lambda>n. case map_of (zip names (chunks 2 rows) @ mt_rows (l ls)) n of None \<Rightarrow> [] | Some rows \<Rightarrow> rows"
  have all: "concat (map ?get names) = rows"
    using rows_in_parts [OF d, of "chunks 2 rows" "mt_rows (l ls)"] by (simp add: names_def concat_chunks)
  have "filter (\<lambda>row. length row = length memory_fields) (?get n) = ?get n" if "n \<in> set names" for n
  proof -
    have "set (?get n) \<subseteq> set (concat (map ?get names))" using that by auto
    then show ?thesis unfolding all using len by (intro filter_True) blast
  qed
  moreover have "memory_rows l' ls n = filter (\<lambda>row. length row = length memory_fields) (?get n)" for n
    by (simp add: memory_rows_def l' option.case_eq_if)
  ultimately have "memory_rows l' ls n = ?get n" if "n \<in> set names" for n using that by (simp only:)
  then have "map (memory_rows l' ls \<circ> add_path) adds = map ?get names" by (simp add: adds)
  then show ?thesis by (simp only: rows_in_def all)
qed

lemma memory_commit_files:
  assumes "memory_commit acts ls snap l = (r, l')"
  shows "memory_rows l' = memory_rows l" and "ls' \<noteq> ls \<Longrightarrow> memory_files l' ls' = memory_files l ls'"
    and "r = Inr v \<Longrightarrow> memory_files l' ls = [f \<leftarrow> memory_files l ls. \<not> (\<exists>n t. RemoveFile (add_path f) n t \<in> set acts)] @
        List.map_filter (\<lambda>a. case a of AddFile f \<Rightarrow> Some f | _ \<Rightarrow> None) acts"
proof -
  have "list_all (\<lambda>a. case a of RemoveFile p _ _ \<Rightarrow> p \<noteq> q | _ \<Rightarrow> True) acts \<longleftrightarrow> \<not> (\<exists>n t. RemoveFile q n t \<in> set acts)" for q
    by (induction acts) (auto split: action.splits)
  note C = assms [unfolded memory_commit_def Let_def this]
  have "l' = l \<or> (\<exists>v fs. l' = l(ls := (l ls)\<lparr>mt_version := v, mt_files := fs\<rparr>))"
    using C by (auto simp: Let_def split: if_splits)
  then show "memory_rows l' = memory_rows l"
    by (elim disjE exE) (simp_all add: memory_rows_def fun_eq_iff)
  show "memory_files l' ls' = memory_files l ls'" if "ls' \<noteq> ls"
    using C that by (auto simp: memory_files_def split: if_splits)
  show "memory_files l' ls = [f \<leftarrow> memory_files l ls. \<not> (\<exists>n t. RemoveFile (add_path f) n t \<in> set acts)] @
        List.map_filter (\<lambda>a. case a of AddFile f \<Rightarrow> Some f | _ \<Rightarrow> None) acts" if "r = Inr v"
    using C that by (auto simp: memory_files_def [of l'] split: if_splits)
qed

lemma memory_rows_length: "row \<in># rows_in memory_rows l ls fs \<Longrightarrow> length row = length memory_fields"
  by (auto simp: rows_in_def memory_rows_def split: option.splits)

lemma memory_prune_sound:
  assumes "memory_prune e (l, ls) = Inr m" and "(f, False) \<in> set (zip (memory_files l ls) m)"
    and "row \<in> set (memory_rows l ls (add_path f))"
  shows "physical_test e row \<noteq> Some True"
  using assms by (auto simp: memory_prune_def in_set_zip)

lemma memory_scan_rows:
  assumes "memory_scan ls (l, ls) [p] = Inr plan" and "memory_prune (PTest memory_fields p) (l, ls) = Inr m"
  shows "mset plan = rows_in memory_rows l ls (files_to_prune (memory_files l ls) m)"
  using assms memory_scan_pruned [of "memory_rows l ls \<circ> add_path" "memory_rows l ls"
      "\<lambda>row. compare_holds memory_fields p row = Some True" "memory_files l ls" l ls]
  by (auto simp: memory_scan_def memory_prune_def rows_in_def)

lemma physical_of_val: "physical_of sch x = Inr e \<Longrightarrow> physical_val e row = number_eval sch x row"
  by (auto simp: physical_of_def ok_or_def split: number_expr.splits option.splits)

lemma memory_prune_length: "memory_prune e (l, ls) = Inr m \<Longrightarrow> length m = length (memory_files l ls)"
  by (auto simp: memory_prune_def)

lemma memory_scan_all: "memory_scan ls (l, ls) [] = Inr plan \<Longrightarrow> mset plan = rows_in memory_rows l ls (memory_files l ls)"
  by (auto simp: memory_scan_def rows_in_def)

lemma memory_fields_names: "distinct (map fst memory_fields)"
  by (simp add: memory_fields_def)

interpretation memory_lake: delta_lake memory_frames memory_delta memory_files memory_rows "\<lambda>rows. rows"
    compare_holds physical_test number_eval "\<lambda>_ v. v" physical_val "\<lambda>snap. snap"
  by unfold_locales
    (auto simp: memory_frames_def memory_delta_def lake_rows_def memory_fields_names ok_or_def physical_of_def column_index_nth
      intro: memory_files_distinct memory_rows_length memory_scan_rows memory_scan_all physical_of_val memory_write_rows
        memory_prune_length
      dest: memory_write_keeps memory_commit_files memory_prune_sound)

subsection \<open>The statements mean what SQL says\<close>




text \<open>
  \<open>TRUNCATE\<close> and \<open>DELETE\<close> without a predicate. Both leave the table empty and other tables as they are; but
  only \<open>DELETE\<close> records the new version of the table, \<open>TRUNCATE\<close> leaves the catalog as it was, so
  that the latest version it knows is the one before the rows were removed.
\<close>
theorem truncate_empties_without_version:
  assumes "delta_lake DF DL files file_rows plan_rows holds test eval cast val at" and "quiet_load E"
  shows "(dml_delete E DF DL us M cx (en_ref E name) sch None w = (Inr (), w') \<longrightarrow>
      (\<exists>ls. bound E cx (en_ref E name) w = Some (Delta ls) \<and> lake_rows files file_rows (w_lake w') ls = {#} \<and>
        other_tables_kept files file_rows ls (w_lake w) (w_lake w') \<and> version_recorded E M ls (w_repo w) (w_repo w'))) \<and>
    (truncate_table E DL cx name w = (Inr (), w'') \<longrightarrow>
      (\<exists>ls. bound E cx (en_ref E name) w = Some (Delta ls) \<and> lake_rows files file_rows (w_lake w'') ls = {#} \<and>
        other_tables_kept files file_rows ls (w_lake w) (w_lake w'') \<and> w_repo w'' = w_repo w))"
  by (intro conjI impI) (erule delta_lake.delete_all_rows [OF assms(1) _ assms(2)], erule delta_lake.truncate_rows [OF assms(1) _ assms(2)])


subsection \<open>Example runs\<close>

definition memory_engine :: "(string, string, memory_lake) engine" where
  "memory_engine = \<lparr>en_ref = (\<lambda>s. s), en_full = rr_table, en_ref_string = (\<lambda>s. s),
     en_resolve = (\<lambda>name c n. \<lparr>rr_catalog = c, rr_schema = n, rr_table = name\<rparr>),
     en_load = (\<lambda>_ l. (Inr (), l)), en_uri_parts = (\<lambda>ls. [''tables'', ls]),
     en_parse_uuid = (\<lambda>p. Some (of_nat (read_nat p))), en_create_udf = (\<lambda>_ _. Inr ())\<rparr>"

definition lake_world :: "(repo_db, memory_lake, string) world" where
  "lake_world = \<lparr>w_repo = example_db SQLite,
     w_lake = (\<lambda>_. \<lparr>mt_version = 0, mt_files = [], mt_rows = []\<rparr>)(''7'' := \<lparr>mt_version = 0,
       mt_files = [\<lparr>add_path = ''a'', add_size = 1\<rparr>, \<lparr>add_path = ''b'', add_size = 1\<rparr>],
       mt_rows = [(''a'', [[Some 1, Some 10], [None, Some 20], [Some 9, Some 30]]), (''b'', [[Some 2, Some 40], [None, Some 50]])]\<rparr>),
     w_schemas = Some [(''public'', [(''t'', (''7'', False))])], w_staging = [], w_udfs = []\<rparr>"

definition lake_metastore :: "(repo_db, unit) metastore" where
  "lake_metastore = new_from_repository uuid_text codes_json (default_repository SQLite no_json (\<lambda>_. ''RETRY''))"

definition table_list :: "('s, memory_lake, string) world \<Rightarrow> row list" where
  "table_list w = concat (map (memory_rows (w_lake w) ''7'' \<circ> add_path) (memory_files (w_lake w) ''7''))"

lemma lake_world_bound: "bound memory_engine path_context ''t'' lake_world = Some (Delta ''7'')"
  by code_simp

lemma lake_world_internal:
  "\<forall>ls. bound memory_engine path_context ''t'' lake_world = Some (Delta ls) \<longrightarrow>
    internal_table memory_engine uuid_text path_context ls"
proof -
  have "uuid_text (of_nat (read_nat ''7'')) = ''7''" by code_simp
  then have "internal_table memory_engine uuid_text path_context ''7''"
    by (simp add: internal_table_def path_context_def memory_engine_def)
  then show ?thesis by (simp add: lake_world_bound)
qed

lemma memory_engine_quiet: "quiet_load memory_engine"
  by (simp add: quiet_load_def memory_engine_def)

lemma lake_rows_table_list: "lake_rows memory_files memory_rows (w_lake w) ''7'' = mset (table_list w)"
  by (simp add: lake_rows_def rows_in_def table_list_def)




lemma truncate_empties_without_version_witness:
  "let w' = snd (dml_delete memory_engine memory_frames memory_delta uuid_text lake_metastore path_context ''t''
         memory_fields None lake_world);
       w'' = snd (truncate_table memory_engine memory_delta path_context ''t'' lake_world) in
   table_list w' = [] \<and> table_list w'' = [] \<and> w_repo w'' = w_repo lake_world \<and>
   length (version_rows (w_repo w')) = 2 \<and> length (version_rows (w_repo w'')) = 1"
proof -
  let ?d = "dml_delete memory_engine memory_frames memory_delta uuid_text lake_metastore path_context (en_ref memory_engine ''t'')
         memory_fields None lake_world"
  let ?t = "truncate_table memory_engine memory_delta path_context ''t'' lake_world"
  have ref: "en_ref memory_engine ''t'' = ''t''" by (simp add: memory_engine_def)
  have "fst ?d = Inr ()" "fst ?t = Inr ()" by code_simp+
  then have run: "?d = (Inr (), snd ?d)" "?t = (Inr (), snd ?t)" by (metis prod.collapse)+
  note T = truncate_empties_without_version [OF memory_lake.delta_lake_axioms memory_engine_quiet, of uuid_text lake_metastore
      path_context "''t''" memory_fields lake_world "snd ?d" "snd ?t"]
  have "table_list (snd ?d) = []" "table_list (snd ?t) = [] \<and> w_repo (snd ?t) = w_repo lake_world"
    using T [THEN conjunct1, rule_format, OF run(1)] T [THEN conjunct2, rule_format, OF run(2)]
    unfolding ref lake_world_bound option.inject table_provider.inject
    by (elim exE conjE, hypsubst, simp add: lake_rows_table_list)+
  moreover have "length (version_rows (w_repo (snd ?d))) = 2" "length (version_rows (w_repo (snd ?t))) = 1" by code_simp+
  ultimately show ?thesis unfolding Let_def ref by simp
qed

end
