(* ===== verification/Ddl.thy ===== *)
theory Ddl
  imports DeltaDml "HOL-Library.Sublist"
begin

text \<open>
  DDL statements (\<open>create_physical_plan\<close> and \<open>file_to_table\<close> of \<open>src/context/physical.rs\<close>,
  \<open>create_delta_table\<close> and \<open>delete_delta_table\<close> of \<open>src/context/delta.rs\<close>): they act on the object store, on the
  catalog and on the tables that the session knows, in this order, without a transaction around the
  three. The theorems say which names the catalog has afterwards, also when a step fails.
\<close>

subsection \<open>Creating and deleting Delta tables\<close>

text \<open>
  delta-rs: the conversion of a schema, \<open>CreateBuilder\<close>, \<open>ConvertToDeltaBuilder\<close> (its errors are their texts), the
  deletion of all objects of a table, \<open>VacuumBuilder\<close>, and the schema of a provider.
\<close>

record ('ty, 'ls, 'l) tables =
  tb_delta_schema :: "(string \<times> 'ty) list \<Rightarrow> (df_error, (string \<times> 'ty) list) result"
  tb_create :: "'ls \<Rightarrow> string \<Rightarrow> (string \<times> 'ty) list \<Rightarrow> ('l, df_error, (string \<times> 'ty) list) st"
  tb_convert :: "'ls \<Rightarrow> string \<Rightarrow> ('l, string, (string \<times> 'ty) list) st"
  tb_purge :: "'ls \<Rightarrow> ('l, df_error, unit) st"
  tb_vacuum :: "'ls \<Rightarrow> ('l, df_error, unit) st"
  tb_schema :: "'ls table_provider \<Rightarrow> 'l \<Rightarrow> (string \<times> 'ty) list"

datatype 'ty CreateDeltaTableDetails = EmptyTable "(string \<times> 'ty) list" | FromPath string

text \<open>\<open>SessionContext::register_table\<close>: the schema provider that the reference names takes the table.\<close>

definition session_register_table ::
    "'ls seafowl_context \<Rightarrow> resolved_ref \<Rightarrow> 'ls \<Rightarrow> ('s, 'l, 'ls, unit) act" where
  "session_register_table cx r ls = (\<lambda>w.
     case (if rr_catalog r = cx_default_catalog cx then w_schemas w else None) of
       None \<Rightarrow> (Inl (Plan (''failed to resolve catalog: '' @ rr_catalog r)), w)
     | Some schemas \<Rightarrow>
         (case database_schema schemas (rr_schema r) of
            None \<Rightarrow> (Inl (Plan (''failed to resolve schema: '' @ rr_schema r)), w)
          | Some Staging \<Rightarrow>
              if rr_table r \<in> set (w_staging w) then (Inl (Execution (''The table '' @ rr_table r @ '' already exists'')), w)
              else (Inr (), w\<lparr>w_staging := w_staging w @ [rr_table r]\<rparr>)
          | Some System \<Rightarrow> (Inl (Execution ''schema provider does not support registering tables''), w)
          | Some (Seafowl tables) \<Rightarrow>
              (case schema_register_table (rr_table r) (ls, True) tables of
                 Inl e \<Rightarrow> (Inl e, w)
               | Inr tables' \<Rightarrow> (Inr (), w\<lparr>w_schemas := Some (imap_insert (rr_schema r) tables' schemas)\<rparr>))))"

definition ALREADY_DELTA :: string where
  "ALREADY_DELTA = ''The given location is already a delta table location''"

text \<open>What \<open>create_delta_table\<close> does when the table itself has been created.\<close>

definition register_delta_table ::
    "('s, 'ty) metastore \<Rightarrow> 'ls seafowl_context \<Rightarrow> resolved_ref \<Rightarrow> uuid \<Rightarrow> 'ls \<Rightarrow> (string \<times> 'ty) list \<Rightarrow>
      ('s, 'l, 'ls, 'ls) act" where
  "register_delta_table M cx resolved_ref table_uuid table schema =
     bind_st (on_repo (table_create (ms_repository M) (cx_default_catalog cx) (rr_schema resolved_ref)
       (rr_table resolved_ref) schema table_uuid)) (\<lambda>_.
     bind_st (session_register_table cx resolved_ref table) (\<lambda>_.
     return_st table))"

text \<open>\<open>new_uuid\<close> is the uuid that \<open>get_uuid\<close> generates.\<close>

definition create_delta_table ::
    "('ref, 'ls, 'l) engine \<Rightarrow> ('ty, 'ls, 'l) tables \<Rightarrow> (uuid \<Rightarrow> string) \<Rightarrow> ('s, 'ty) metastore \<Rightarrow>
      'ls seafowl_context \<Rightarrow> uuid \<Rightarrow> 'ref \<Rightarrow> 'ty CreateDeltaTableDetails \<Rightarrow> ('s, 'l, 'ls, 'ls) act" where
  "create_delta_table E TB us M cx new_uuid name details =
     (let resolved_ref = resolve_table_ref E cx name in
     bind_st (lift_res (get_internal_object_store cx)) (\<lambda>get_log_store.
     bind_st (on_repo (schema_get (ms_repository M) (cx_default_catalog cx) (rr_schema resolved_ref))) (\<lambda>_.
     case details of
       EmptyTable schema \<Rightarrow>
         (let table_log_store = get_log_store (us new_uuid) in
         bind_st (lift_res (tb_delta_schema TB schema)) (\<lambda>delta_schema.
         bind_st (on_lake (tb_create TB table_log_store (rr_table resolved_ref) delta_schema)) (\<lambda>table_schema.
         register_delta_table M cx resolved_ref new_uuid table_log_store table_schema)))
     | FromPath path \<Rightarrow>
         bind_st (lift_res (ok_or (Execution ''Unable to parse the UUID path of the table'') (en_parse_uuid E path)))
           (\<lambda>table_uuid w.
         let table_log_store = get_log_store (us table_uuid) in
         case on_lake (\<lambda>l. case tb_convert TB table_log_store (rr_table resolved_ref) l of (r, l') \<Rightarrow> (Inr r, l')) w of
           (Inr (Inr table_schema), w') \<Rightarrow> register_delta_table M cx resolved_ref table_uuid table_log_store table_schema w'
         | (Inr (Inl err), w') \<Rightarrow>
             if sublist ALREADY_DELTA err
             then bind_st (on_lake (en_load E table_log_store)) (\<lambda>_. return_st table_log_store) w'
             else (Inl (External err), w')
         | (Inl e, w') \<Rightarrow> (Inl e, w')))))"

definition delete_delta_table ::
    "('ref, 'ls, 'l) engine \<Rightarrow> ('ty, 'ls, 'l) tables \<Rightarrow> 'ls seafowl_context \<Rightarrow> 'ref \<Rightarrow> ('s, 'l, 'ls, unit) act" where
  "delete_delta_table E TB cx name =
     bind_st (try_get_delta_table E cx name) (\<lambda>table. on_lake (tb_purge TB table))"


subsection \<open>Data types that Delta does not have\<close>

datatype time_unit = Second | Millisecond | Microsecond | Nanosecond

datatype data_type = Timestamp time_unit "string option" | OtherType string

fun coerced_type :: "data_type \<Rightarrow> data_type" where
  "coerced_type (Timestamp Nanosecond tz) = Timestamp Microsecond tz"
| "coerced_type t = t"

text \<open>
  \<open>plan_schema\<close> and \<open>column\<close> are \<open>plan.schema()\<close> and \<open>Column::new\<close> of DataFusion. The flag
  \<open>incompatible_data_type\<close> is whether some type changes.
\<close>

definition coerce_plan ::
    "('input, 'plan, 'pred, 'expr, 'pexpr, data_type, 'ls, 'snap) dataframes \<Rightarrow> ('plan \<Rightarrow> (string \<times> data_type) list) \<Rightarrow>
      (string \<Rightarrow> nat \<Rightarrow> 'pexpr) \<Rightarrow> 'plan \<Rightarrow> (df_error, 'plan) result" where
  "coerce_plan DF plan_schema column plan =
     (let schema = plan_schema plan in
     bind_res (collect_res (\<lambda>(id, name, ty).
         case ty of
           Timestamp Nanosecond tz \<Rightarrow>
             bind_res (df_cast DF schema (column name id) (Timestamp Microsecond tz)) (\<lambda>e. Inr (e, name))
         | _ \<Rightarrow> Inr (column name id, name)) (enumerate 0 schema)) (\<lambda>projection.
     if \<exists>f\<in>set schema. coerced_type (snd f) \<noteq> snd f then df_projection DF projection plan
     else Inr plan))"


subsection \<open>The statements\<close>

datatype schema_ref = BareSchema string | FullSchema string string

fun schema_ref_name :: "schema_ref \<Rightarrow> string" where
  "schema_ref_name (BareSchema n) = n"
| "schema_ref_name (FullSchema c n) = n"

text \<open>A call whose error is only logged.\<close>

definition logged :: "('s, 'e, 'a) st \<Rightarrow> ('s, 'e, unit) st" where
  "logged m = (\<lambda>s. (Inr (), snd (m s)))"

text \<open>\<open>is_ok\<close> of a call.\<close>

definition found :: "('s, 'e, 'a) st \<Rightarrow> 's \<Rightarrow> bool \<times> 's" where
  "found m = (\<lambda>s. case m s of (r, s') \<Rightarrow> (is_ok r, s'))"

definition ddl_create_schema ::
    "('s, 'ty) metastore \<Rightarrow> 'ls seafowl_context \<Rightarrow> string \<Rightarrow> ('s, 'l, 'ls, unit) act" where
  "ddl_create_schema M cx schema_name = on_repo (schema_create (ms_repository M) (cx_default_catalog cx) schema_name)"

definition ddl_create_catalog :: "('s, 'ty) metastore \<Rightarrow> string \<Rightarrow> bool \<Rightarrow> ('s, 'l, 'ls, unit) act" where
  "ddl_create_catalog M catalog_name if_not_exists = (\<lambda>w.
     case on_repo (catalog_get (ms_repository M) catalog_name) w of
       (Inr _, w') \<Rightarrow>
         if \<not> if_not_exists then (Inl (Plan (''Database '' @ catalog_name @ '' already exists'')), w') else (Inr (), w')
     | (Inl _, w') \<Rightarrow>
         bind_st (on_repo (catalog_create (ms_repository M) catalog_name)) (\<lambda>_.
         on_repo (schema_create (ms_repository M) catalog_name DEFAULT_SCHEMA)) w')"

definition ddl_create_table_as ::
    "('ref, 'ls, 'l) engine \<Rightarrow> ('input, 'plan, 'pred, 'expr, 'pexpr, data_type, 'ls, 'snap) dataframes \<Rightarrow>
      ('plan, data_type, 'ls, 'l, 'snap) delta \<Rightarrow> (data_type, 'ls, 'l) tables \<Rightarrow> ('plan \<Rightarrow> (string \<times> data_type) list) \<Rightarrow>
      (string \<Rightarrow> nat \<Rightarrow> 'pexpr) \<Rightarrow> (uuid \<Rightarrow> string) \<Rightarrow> ('s, data_type) metastore \<Rightarrow> 'ls seafowl_context \<Rightarrow>
      uuid \<Rightarrow> 'ref \<Rightarrow> 'input \<Rightarrow> bool \<Rightarrow> ('s, 'l, 'ls, unit) act" where
  "ddl_create_table_as E DF DL TB plan_schema column us M cx new_uuid name input if_not_exists = (\<lambda>w.
     case (if if_not_exists then found (try_get_delta_table E cx name) w else (False, w)) of
       (True, w') \<Rightarrow> (Inr (), w')
     | (False, w') \<Rightarrow>
         bind_st (lift_res (df_plan DF input)) (\<lambda>plan.
         bind_st (lift_res (coerce_plan DF plan_schema column plan)) (\<lambda>plan.
         bind_st (create_delta_table E TB us M cx new_uuid name (EmptyTable (plan_schema plan))) (\<lambda>_.
         plan_to_delta_table E DL us M cx name plan))) w')"

definition session_deregister_staging ::
    "'ls seafowl_context \<Rightarrow> resolved_ref \<Rightarrow> ('s, 'l, 'ls, unit) act" where
  "session_deregister_staging cx r = (\<lambda>w.
     case (if rr_catalog r = cx_default_catalog cx then w_schemas w else None) of
       None \<Rightarrow> (Inl (Plan (''failed to resolve catalog: '' @ rr_catalog r)), w)
     | Some _ \<Rightarrow> (Inr (), w\<lparr>w_staging := removeAll (rr_table r) (w_staging w)\<rparr>))"

definition ddl_drop_table ::
    "('ref, 'ls, 'l) engine \<Rightarrow> ('ty, 'ls, 'l) tables \<Rightarrow> ('s, 'ty) metastore \<Rightarrow> 'ls seafowl_context \<Rightarrow> 'ref \<Rightarrow> bool \<Rightarrow>
      ('s, 'l, 'ls, unit) act" where
  "ddl_drop_table E TB M cx name if_exists = (\<lambda>w.
     case (if if_exists then found (try_get_delta_table E cx name) w else (True, w)) of
       (False, w') \<Rightarrow> (Inr (), w')
     | (True, w') \<Rightarrow>
         (let resolved_ref = resolve_table_ref E cx name in
         if rr_schema resolved_ref = STAGING_SCHEMA then session_deregister_staging cx resolved_ref w'
         else
           bind_st (logged (delete_delta_table E TB cx name)) (\<lambda>_.
           on_repo (table_delete (ms_repository M) (rr_catalog resolved_ref) (rr_schema resolved_ref)
             (rr_table resolved_ref))) w'))"

fun provider_table_names :: "string list \<Rightarrow> 'ls schema_provider \<Rightarrow> string list" where
  "provider_table_names staging Staging = staging"
| "provider_table_names staging System = [''table_versions'', ''dropped_tables'']"
| "provider_table_names staging (Seafowl tables) = map fst tables"

fun drop_tables ::
    "('ref, 'ls, 'l) engine \<Rightarrow> ('ty, 'ls, 'l) tables \<Rightarrow> ('s, 'ty) metastore \<Rightarrow> 'ls seafowl_context \<Rightarrow> string \<Rightarrow>
      string list \<Rightarrow> ('s, 'l, 'ls, unit) act" where
  "drop_tables E TB M cx schema_name [] = return_st ()"
| "drop_tables E TB M cx schema_name (t # ts) =
     bind_st (delete_delta_table E TB cx
       (en_full E \<lparr>rr_catalog = cx_default_catalog cx, rr_schema = schema_name, rr_table = t\<rparr>)) (\<lambda>_.
     bind_st (on_repo (table_delete (ms_repository M) (cx_default_catalog cx) schema_name t)) (\<lambda>_.
     drop_tables E TB M cx schema_name ts))"

definition ddl_drop_schema ::
    "('ref, 'ls, 'l) engine \<Rightarrow> ('ty, 'ls, 'l) tables \<Rightarrow> ('s, 'ty) metastore \<Rightarrow> 'ls seafowl_context \<Rightarrow> schema_ref \<Rightarrow> bool \<Rightarrow>
      ('s, 'l, 'ls, unit) act" where
  "ddl_drop_schema E TB M cx name if_exists = (\<lambda>w.
     let schema_name = schema_ref_name name in
     if (case name of FullSchema catalog _ \<Rightarrow> catalog \<noteq> cx_default_catalog cx | BareSchema _ \<Rightarrow> False)
     then (Inl (Execution ''Cannot delete schemas in other catalogs''), w)
     else case w_schemas w of
       None \<Rightarrow> (Inl DfPanic, w)
     | Some schemas \<Rightarrow>
         (case database_schema schemas schema_name of
            None \<Rightarrow> (if if_exists then Inr () else Inl (Execution (''Schema '' @ schema_name @ '' does not exist'')), w)
          | Some schema \<Rightarrow>
              bind_st (drop_tables E TB M cx schema_name (provider_table_names (w_staging w) schema)) (\<lambda>_.
              on_repo (schema_delete (ms_repository M) (cx_default_catalog cx) schema_name)) w))"

definition ddl_create_function ::
    "('ref, 'ls, 'l) engine \<Rightarrow> types_json \<Rightarrow> ('s, 'ty) metastore \<Rightarrow> 'ls seafowl_context \<Rightarrow> string \<Rightarrow> bool \<Rightarrow>
      CreateFunctionDetails \<Rightarrow> ('s, 'l, 'ls, unit) act" where
  "ddl_create_function E J M cx name or_replace details =
     bind_st (register_function E name details) (\<lambda>_.
     on_repo (create_function J (ms_repository M) (cx_default_catalog cx) name or_replace details))"

definition ddl_drop_function ::
    "('s, 'ty) metastore \<Rightarrow> 'ls seafowl_context \<Rightarrow> bool \<Rightarrow> string list \<Rightarrow> ('s, 'l, 'ls, unit) act" where
  "ddl_drop_function M cx if_exists func_names =
     on_repo (function_delete (ms_repository M) (cx_default_catalog cx) if_exists func_names)"

definition ddl_rename_table ::
    "('ref, 'ls, 'l) engine \<Rightarrow> ('s, 'ty) metastore \<Rightarrow> 'ls seafowl_context \<Rightarrow> string \<Rightarrow> string \<Rightarrow> ('s, 'l, 'ls, unit) act" where
  "ddl_rename_table E M cx old_name new_name =
     (let resolved_new_ref = resolve_table_ref E cx (en_ref E new_name) in
     if rr_catalog resolved_new_ref \<noteq> cx_default_catalog cx
     then lift_res (Inl (Plan ''Changing the table's database is not supported!''))
     else
       let resolved_old_ref = resolve_table_ref E cx (en_ref E old_name) in
       on_repo (table_update (ms_repository M)
         (rr_catalog resolved_old_ref) (rr_schema resolved_old_ref) (rr_table resolved_old_ref)
         (rr_catalog resolved_new_ref) (rr_schema resolved_new_ref) (rr_table resolved_new_ref)))"

definition ddl_vacuum ::
    "('ref, 'ls, 'l) engine \<Rightarrow> ('ty, 'ls, 'l) tables \<Rightarrow> ('s, 'ty) metastore \<Rightarrow> 'ls seafowl_context \<Rightarrow> (uuid \<Rightarrow> bool) \<Rightarrow>
      string option \<Rightarrow> string option \<Rightarrow> ('s, 'l, 'ls, unit) act" where
  "ddl_vacuum E TB M cx deleted database vacuumed =
     (case database of
        Some _ \<Rightarrow>
          bind_st (lift_res (get_internal_object_store cx)) (\<lambda>_.
          modify_st (\<lambda>w. w\<lparr>w_repo := gc_databases (ms_repository M) deleted database (w_repo w)\<rparr>))
      | None \<Rightarrow>
          (case vacuumed of
             None \<Rightarrow> return_st ()
           | Some t \<Rightarrow> (\<lambda>w.
               let resolved_ref = resolve_table_ref E cx (en_ref E t);
                   (r, w1) = (case try_get_delta_table E cx (en_full E resolved_ref) w of
                     (Inr delta_table, w1) \<Rightarrow> on_lake (tb_vacuum TB delta_table) w1
                   | (Inl _, w1) \<Rightarrow> (Inr (), w1)) in
               case r of
                 Inl e \<Rightarrow> (Inl e, w1)
               | Inr _ \<Rightarrow>
                   (case on_repo (table_delete_old_versions (ms_repository M) (rr_catalog resolved_ref)
                       (rr_schema resolved_ref) (rr_table resolved_ref)) w1 of
                      (Inr _, w2) \<Rightarrow> (Inr (), w2)
                    | (Inl _, w2) \<Rightarrow> (Inl (Internal ''Failed to delete old table versions''), w2)))))"

subsection \<open>Uploading a file\<close>

text \<open>
  DataFusion's listing tables: reading a location, inferring the schema of a file (\<open>ListingOptions::infer_schema\<close>) and
  the scan of a \<open>ListingTable\<close> with a schema, for a file type and whether it has a header.
\<close>

record ('path, 'plan, 'ty) listing =
  li_parse :: "string \<Rightarrow> (df_error, 'path) result"
  li_infer :: "'path \<Rightarrow> string \<Rightarrow> bool \<Rightarrow> (df_error, (string \<times> 'ty) list) result"
  li_scan :: "'path \<Rightarrow> string \<Rightarrow> bool \<Rightarrow> (string \<times> 'ty) list \<Rightarrow> (df_error, 'plan) result"

text \<open>
  Whether the table exists, and its schema then: an existing schema is only checked for, the table is looked up by its
  bare name, which the session resolves against the default schema. A schema that does not exist is created.
\<close>

definition upload_target ::
    "('ref, 'ls, 'l) engine \<Rightarrow> ('url, 'ls) object_stores \<Rightarrow> ('ty, 'ls, 'l) tables \<Rightarrow> ('s, 'ty) metastore \<Rightarrow>
      'ls seafowl_context \<Rightarrow> string \<Rightarrow> string \<Rightarrow> ('s, 'l, 'ls, (string \<times> 'ty) list option) act" where
  "upload_target E OS TB M cx schema_name tname = (\<lambda>w.
     case w_schemas w of
       None \<Rightarrow> (Inl (Plan (''Database '' @ cx_default_catalog cx @ '' not found!'')), w)
     | Some schemas \<Rightarrow>
         (case database_schema schemas schema_name of
            Some _ \<Rightarrow>
              (case table_provider E cx (en_ref E tname) w of
                 (Inr table, w') \<Rightarrow> (Inr (Some (tb_schema TB table (w_lake w'))), w')
               | (Inl _, w') \<Rightarrow> (Inr None, w'))
          | None \<Rightarrow>
              bind_st (on_repo (schema_create (ms_repository M) (cx_default_catalog cx) schema_name)) (\<lambda>_.
              bind_st (reload_schema E OS M cx) (\<lambda>_.
              return_st None)) w))"

definition file_to_table ::
    "('ref, 'ls, 'l) engine \<Rightarrow> ('url, 'ls) object_stores \<Rightarrow> ('plan, 'ty, 'ls, 'l, 'snap) delta \<Rightarrow> ('ty, 'ls, 'l) tables \<Rightarrow>
      ('path, 'plan, 'ty) listing \<Rightarrow> ('plan \<Rightarrow> (string \<times> 'ty) list) \<Rightarrow> (uuid \<Rightarrow> string) \<Rightarrow> ('s, 'ty) metastore \<Rightarrow>
      'ls seafowl_context \<Rightarrow> uuid \<Rightarrow> string \<Rightarrow> string \<Rightarrow> (string \<times> 'ty) list option \<Rightarrow> bool \<Rightarrow> string \<Rightarrow> string \<Rightarrow>
      ('s, 'l, 'ls, unit) act" where
  "file_to_table E OS DL TB LI plan_schema us M cx new_uuid file_path file_type file_schema has_header schema_name tname =
     bind_st (reload_schema E OS M cx) (\<lambda>_.
     bind_st (upload_target E OS TB M cx schema_name tname) (\<lambda>table_schema.
     bind_st (lift_res (li_parse LI file_path)) (\<lambda>table_path.
     if file_type \<noteq> ''csv'' \<and> file_type \<noteq> ''parquet''
     then lift_res (Inl (Plan (''File type '' @ file_type @ '' not supported!'')))
     else
       bind_st (lift_res (case (if table_schema = None then file_schema else table_schema) of
           Some schema \<Rightarrow> Inr schema
         | None \<Rightarrow> li_infer LI table_path file_type has_header)) (\<lambda>schema.
       bind_st (lift_res (li_scan LI table_path file_type has_header schema)) (\<lambda>plan.
       let table_ref = en_full E \<lparr>rr_catalog = cx_default_catalog cx, rr_schema = schema_name, rr_table = tname\<rparr> in
       bind_st (if table_schema = None
         then bind_st (create_delta_table E TB us M cx new_uuid table_ref (EmptyTable (plan_schema plan))) (\<lambda>_. return_st ())
         else return_st ()) (\<lambda>_.
       plan_to_delta_table E DL us M cx table_ref plan))))))"


subsection \<open>The names after a statement\<close>

datatype 'ref ddl_statement =
    CreateSchema string
  | CreateDatabase string bool
  | DropTable 'ref bool
  | DropSchema schema_ref bool
  | RenameTable string string

fun run_ddl ::
    "('ref, 'ls, 'l) engine \<Rightarrow> ('ty, 'ls, 'l) tables \<Rightarrow> ('s, 'ty) metastore \<Rightarrow> 'ls seafowl_context \<Rightarrow>
      'ref ddl_statement \<Rightarrow> ('s, 'l, 'ls, unit) act" where
  "run_ddl E TB M cx (CreateSchema n) = ddl_create_schema M cx n"
| "run_ddl E TB M cx (CreateDatabase c if_not_exists) = ddl_create_catalog M c if_not_exists"
| "run_ddl E TB M cx (DropTable name if_exists) = ddl_drop_table E TB M cx name if_exists"
| "run_ddl E TB M cx (DropSchema name if_exists) = ddl_drop_schema E TB M cx name if_exists"
| "run_ddl E TB M cx (RenameTable old new) = ddl_rename_table E M cx old new"

text \<open>What a statement that succeeds may do to the names of the catalog.\<close>

fun ddl_outcome :: "('ref, 'ls, 'l) engine \<Rightarrow> 'ls seafowl_context \<Rightarrow> 'ref ddl_statement \<Rightarrow> names \<Rightarrow> names \<Rightarrow> bool" where
  "ddl_outcome E cx (CreateSchema n) N N' \<longleftrightarrow>
     catalog_spec (Create_Schema (cx_default_catalog cx) n :: unit catalog_command) N = (Inr (), N')"
| "ddl_outcome E cx (CreateDatabase c if_not_exists) N N' \<longleftrightarrow>
     (if c \<in> nm_catalogs N then if_not_exists \<and> N' = N
      else N' = N\<lparr>nm_catalogs := insert c (nm_catalogs N), nm_schemas := insert (c, DEFAULT_SCHEMA) (nm_schemas N)\<rparr>)"
| "ddl_outcome E cx (DropTable name if_exists) N N' \<longleftrightarrow>
     (let r = resolve_table_ref E cx name in
      if_exists \<and> N' = N \<or> rr_schema r = STAGING_SCHEMA \<and> N' = N \<or>
      catalog_spec (Delete_Table (rr_catalog r) (rr_schema r) (rr_table r) :: unit catalog_command) N = (Inr (), N'))"
| "ddl_outcome E cx (DropSchema name if_exists) N N' \<longleftrightarrow>
     if_exists \<and> N' = N \<or>
     catalog_spec (Delete_Schema (cx_default_catalog cx) (schema_ref_name name) :: unit catalog_command) N = (Inr (), N')"
| "ddl_outcome E cx (RenameTable old new) N N' \<longleftrightarrow>
     (let r = resolve_table_ref E cx (en_ref E old); r' = resolve_table_ref E cx (en_ref E new) in
      rr_catalog r' = cx_default_catalog cx \<and> rr_catalog r = cx_default_catalog cx \<and>
      catalog_spec (Rename_Table (rr_catalog r) (rr_schema r) (rr_table r) (rr_schema r') (rr_table r') :: unit catalog_command) N =
        (Inr (), N'))"

abbreviation repo_names :: "repo_db \<Rightarrow> names" where
  "repo_names s \<equiv> names_of (db_map s) (coll_map s) (tbl_map s)"

lemma table_provider_repo: "table_provider E cx name w = (r, w') \<Longrightarrow> w_repo w' = w_repo w"
  by (auto simp: table_provider_def Let_def split: option.splits schema_provider.splits prod.splits sum.splits if_splits)

lemma try_get_delta_table_repo: "try_get_delta_table E cx name w = (r, w') \<Longrightarrow> w_repo w' = w_repo w"
  unfolding try_get_delta_table_def bind_st_def
  by (auto split: prod.splits sum.splits table_provider.splits dest: table_provider_repo)

lemma delete_delta_table_repo: "delete_delta_table E TB cx name w = (r, w') \<Longrightarrow> w_repo w' = w_repo w"
  unfolding delete_delta_table_def bind_st_def
  by (auto simp: on_lake_def split: prod.splits sum.splits dest: try_get_delta_table_repo)

lemma found_repo: "found (try_get_delta_table E cx name) w = (b, w') \<Longrightarrow> w_repo w' = w_repo w"
  by (auto simp: found_def split: prod.splits dest: try_get_delta_table_repo)

text \<open>A command of the catalog in a statement.\<close>

lemma catalog_spec_erased: "catalog_spec (map_catalog_command f cmd) N = catalog_spec cmd N"
  by (cases cmd) (simp_all split: option.split)

lemma on_repo_command:
  assumes "rows_ok d (w_repo w)" and "command_ok (good_schema to_json) cmd"
    and "on_repo (run_command (default_repository d to_json encode) cmd) w = (Inr x, w')"
  shows "rows_ok d (w_repo w')"
    and "catalog_spec (map_catalog_command (\<lambda>_. ()) cmd) (repo_names (w_repo w)) = (Inr (), repo_names (w_repo w'))"
  using assms(3) store.refine_command [OF assms(1,2)] by (auto simp: on_repo_Inr catalog_spec_erased)

lemma drop_tables_names:
  assumes "drop_tables E TB M cx n ts w = (Inr x, w')" and "ms_repository M = default_repository d to_json encode"
    and "rows_ok d (w_repo w)"
  shows "rows_ok d (w_repo w') \<and> nm_catalogs (repo_names (w_repo w')) = nm_catalogs (repo_names (w_repo w)) \<and>
    nm_schemas (repo_names (w_repo w')) = nm_schemas (repo_names (w_repo w)) \<and>
    (\<forall>k. nm_tables (repo_names (w_repo w')) k =
      (if k \<in> {(cx_default_catalog cx, n, t) | t. t \<in> set ts} then None else nm_tables (repo_names (w_repo w)) k))"
  using assms
proof (induction ts arbitrary: w)
  case (Cons t ts)
  let ?c = "cx_default_catalog cx"
  obtain w1 w2 where steps: "delete_delta_table E TB cx (en_full E \<lparr>rr_catalog = ?c, rr_schema = n, rr_table = t\<rparr>) w = (Inr (), w1)"
    "on_repo (run_command (ms_repository M) (Delete_Table ?c n t)) w1 = (Inr (), w2)" "drop_tables E TB M cx n ts w2 = (Inr x, w')"
    using Cons.prems(1) by (auto simp: bind_st_eq_Inr)
  have w1: "w_repo w1 = w_repo w" by (rule delete_delta_table_repo [OF steps(1)])
  have ok: "rows_ok d (w_repo w1)" using Cons.prems(3) w1 by simp
  note C = on_repo_command [OF ok _ steps(2) [unfolded Cons.prems(2)], unfolded w1]
  have del: "repo_names (w_repo w2) = (repo_names (w_repo w))\<lparr>nm_tables := (nm_tables (repo_names (w_repo w)))((?c, n, t) := None)\<rparr>"
    using C(2) by (auto split: if_splits)
  show ?case
    using Cons.IH [OF steps(3) Cons.prems(2)] C(1) unfolding del by auto
qed simp

lemma ddl_create_catalog_names:
  assumes ok: "rows_ok d (w_repo w)" and M: "ms_repository M = default_repository d to_json encode"
    and run: "ddl_create_catalog M c b w = (Inr (), w')"
  shows "rows_ok d (w_repo w') \<and> (if c \<in> nm_catalogs (repo_names (w_repo w)) then b \<and> repo_names (w_repo w') = repo_names (w_repo w)
      else repo_names (w_repo w') = (repo_names (w_repo w))\<lparr>nm_catalogs := insert c (nm_catalogs (repo_names (w_repo w))),
        nm_schemas := insert (c, DEFAULT_SCHEMA) (nm_schemas (repo_names (w_repo w)))\<rparr>)"
proof -
  let ?R = "default_repository d to_json encode"
  have get: "on_repo (catalog_get ?R c) w = (if c \<in> nm_catalogs (repo_names (w_repo w)) then (Inr \<lparr>dbr_id = the (db_map (w_repo w) c), dbr_name = c\<rparr>, w)
      else (Inl (CatalogPlan (CatalogDoesNotExist c)), w))"
    by (auto simp: on_repo_def store.catalog_get_eq [OF ok] names_of_def split: option.splits)
  show ?thesis
  proof (cases "c \<in> nm_catalogs (repo_names (w_repo w))")
    case True
    then show ?thesis using run ok get by (auto simp: ddl_create_catalog_def M split: if_splits)
  next
    case False
    then obtain w1 where w1: "on_repo (run_command ?R (Create_Catalog c)) w = (Inr (), w1)"
      "on_repo (run_command ?R (Create_Schema c DEFAULT_SCHEMA)) w1 = (Inr (), w')"
      using run get by (auto simp: ddl_create_catalog_def M bind_st_eq_Inr)
    note C1 = on_repo_command [OF ok _ w1(1)]
    note C2 = on_repo_command [OF C1(1) _ w1(2)]
    have "repo_names (w_repo w1) = (repo_names (w_repo w))\<lparr>nm_catalogs := insert c (nm_catalogs (repo_names (w_repo w)))\<rparr>"
      using C1(2) False by simp
    moreover have "repo_names (w_repo w') = (repo_names (w_repo w1))\<lparr>nm_schemas := insert (c, DEFAULT_SCHEMA) (nm_schemas (repo_names (w_repo w1)))\<rparr>"
      using C2(2) by (simp split: if_splits)
    ultimately show ?thesis using C2(1) False by simp
  qed
qed

lemma ddl_drop_table_names:
  assumes ok: "rows_ok d (w_repo w)" and M: "ms_repository M = default_repository d to_json encode"
    and run: "ddl_drop_table E TB M cx name b w = (Inr (), w')"
  defines "r \<equiv> resolve_table_ref E cx name"
  shows "rows_ok d (w_repo w') \<and> (b \<and> repo_names (w_repo w') = repo_names (w_repo w) \<or>
      rr_schema r = STAGING_SCHEMA \<and> repo_names (w_repo w') = repo_names (w_repo w) \<or>
      catalog_spec (Delete_Table (rr_catalog r) (rr_schema r) (rr_table r) :: unit catalog_command) (repo_names (w_repo w)) =
        (Inr (), repo_names (w_repo w')))"
proof -
  let ?R = "default_repository d to_json encode"
  obtain f w1 where f: "(if b then found (try_get_delta_table E cx name) w else (True, w)) = (f, w1)" by fastforce
  have w1: "w_repo w1 = w_repo w" using f found_repo by (auto split: if_splits)
  consider (gone) "\<not> f" "b" "w' = w1" | (staging) "rr_schema r = STAGING_SCHEMA" "session_deregister_staging cx r w1 = (Inr (), w')"
    | (drop) w2 where "logged (delete_delta_table E TB cx name) w1 = (Inr (), w2)"
        "on_repo (run_command ?R (Delete_Table (rr_catalog r) (rr_schema r) (rr_table r))) w2 = (Inr (), w')"
    using run f by (cases f) (auto simp: ddl_drop_table_def M Let_def r_def bind_st_eq_Inr split: if_splits)
  then show ?thesis
  proof cases
    case gone
    then show ?thesis using ok w1 by simp
  next
    case staging
    then have "w_repo w' = w_repo w1" by (auto simp: session_deregister_staging_def split: option.splits)
    with staging show ?thesis using ok w1 by simp
  next
    case drop
    have w2: "w_repo w2 = w_repo w"
      using drop(1) w1 delete_delta_table_repo [OF prod.collapse [symmetric], of E TB cx name w1] by (simp add: logged_def)
    have ok2: "rows_ok d (w_repo w2)" using ok w2 by simp
    have cmd: "command_ok (good_schema to_json) (Delete_Table (rr_catalog r) (rr_schema r) (rr_table r))" by simp
    note C = on_repo_command [OF ok2 cmd drop(2), unfolded w2 catalog_command.map]
    show ?thesis by (intro conjI disjI2 C)
  qed
qed

lemma ddl_drop_schema_names:
  assumes ok: "rows_ok d (w_repo w)" and M: "ms_repository M = default_repository d to_json encode"
    and run: "ddl_drop_schema E TB M cx name b w = (Inr (), w')"
  shows "rows_ok d (w_repo w') \<and> (b \<and> repo_names (w_repo w') = repo_names (w_repo w) \<or>
      catalog_spec (Delete_Schema (cx_default_catalog cx) (schema_ref_name name) :: unit catalog_command) (repo_names (w_repo w)) =
        (Inr (), repo_names (w_repo w')))"
proof -
  let ?R = "default_repository d to_json encode" and ?n = "schema_ref_name name" and ?c = "cx_default_catalog cx"
  consider (absent) "b" "w' = w" | (drop) ts w1 where "drop_tables E TB M cx ?n ts w = (Inr (), w1)"
      "on_repo (run_command ?R (Delete_Schema ?c ?n)) w1 = (Inr (), w')"
    using run by (auto simp: ddl_drop_schema_def M Let_def bind_st_eq_Inr split: if_splits option.splits schema_ref.splits)
  then show ?thesis
  proof cases
    case absent
    then show ?thesis using ok by simp
  next
    case drop
    note D = drop_tables_names [OF drop(1) M ok]
    note C = on_repo_command [OF D [THEN conjunct1] _ drop(2)]
    have "nm_tables (repo_names (w_repo w1)) |` {(c', n', t). (c', n') \<noteq> (?c, ?n)} =
        nm_tables (repo_names (w_repo w)) |` {(c', n', t). (c', n') \<noteq> (?c, ?n)}"
      using D by (intro ext) (auto simp: restrict_map_def)
    moreover have "(?c, ?n) \<in> nm_schemas (repo_names (w_repo w1))" "?n \<noteq> STAGING_SCHEMA"
      "repo_names (w_repo w') = (repo_names (w_repo w1))\<lparr>nm_schemas := nm_schemas (repo_names (w_repo w1)) - {(?c, ?n)},
         nm_tables := nm_tables (repo_names (w_repo w1)) |` {(c', n', t). (c', n') \<noteq> (?c, ?n)}\<rparr>"
      using C(2) by (simp_all split: if_splits)
    moreover have "(repo_names (w_repo w1))\<lparr>nm_schemas := S, nm_tables := T\<rparr> = (repo_names (w_repo w))\<lparr>nm_schemas := S, nm_tables := T\<rparr>" for S T
      using D by (intro names.equality) simp_all
    ultimately show ?thesis using C(1) D by simp
  qed
qed

lemma ddl_rename_table_names:
  assumes ok: "rows_ok d (w_repo w)" and M: "ms_repository M = default_repository d to_json encode"
    and run: "ddl_rename_table E M cx old new w = (Inr (), w')"
  defines "r \<equiv> resolve_table_ref E cx (en_ref E old)" and "r' \<equiv> resolve_table_ref E cx (en_ref E new)"
  shows "rows_ok d (w_repo w') \<and> rr_catalog r' = cx_default_catalog cx \<and> rr_catalog r = cx_default_catalog cx \<and>
      catalog_spec (Rename_Table (rr_catalog r) (rr_schema r) (rr_table r) (rr_schema r') (rr_table r') :: unit catalog_command)
        (repo_names (w_repo w)) = (Inr (), repo_names (w_repo w'))"
proof -
  let ?R = "default_repository d to_json encode"
  have cats: "rr_catalog r' = cx_default_catalog cx" "rr_catalog r = rr_catalog r'"
    using run by (auto simp: ddl_rename_table_def M Let_def r_def r'_def on_repo_Inr table_update_def split: if_splits)
  then have "on_repo (run_command ?R (Rename_Table (rr_catalog r) (rr_schema r) (rr_table r) (rr_schema r') (rr_table r'))) w = (Inr (), w')"
    using run by (auto simp: ddl_rename_table_def M Let_def r_def r'_def split: if_splits)
  from on_repo_command [OF ok _ this] cats show ?thesis by (simp del: catalog_spec.simps)
qed


subsection \<open>A created table can be found\<close>

text \<open>The internal object store: the uri of a table ends in its path, a uuid is read back from its text.\<close>

definition uuid_directories :: "('ref, 'ls, 'l) engine \<Rightarrow> (uuid \<Rightarrow> string) \<Rightarrow> 'ls seafowl_context \<Rightarrow> bool" where
  "uuid_directories E us cx \<longleftrightarrow> (\<forall>g p. cx_internal cx = Some g \<longrightarrow> en_uri_parts E (g p) \<noteq> [] \<and> last (en_uri_parts E (g p)) = p) \<and>
     (\<forall>u. en_parse_uuid E (us u) = Some u)"

text \<open>The schemas of created tables can be stored in the catalog.\<close>

definition storable :: "('ty, 'ls, 'l) tables \<Rightarrow> ('ty \<Rightarrow> (string, string) result) \<Rightarrow> bool" where
  "storable TB to_json \<longleftrightarrow> (\<forall>ls t sch l sch' l'. tb_create TB ls t sch l = (Inr sch', l') \<longrightarrow> good_schema to_json sch')"

lemma storableD: "storable TB to_json \<Longrightarrow> tb_create TB ls t sch l = (Inr sch', l') \<Longrightarrow> good_schema to_json sch'"
  unfolding storable_def by blast

lemma schema_get_keeps:
  "rows_ok d s \<Longrightarrow> schema_get (default_repository d to_json encode) c n s = (r, s') \<Longrightarrow> s' = s"
  by (simp add: store.schema_get_eq)

lemma on_repo_table_create:
  assumes "rows_ok d (w_repo w)" and "good_schema to_json sch"
    and "on_repo (table_create (default_repository d to_json encode) c n t sch u) w = (Inr x, w')"
  shows "rows_ok d (w_repo w')" and "nm_tables (repo_names (w_repo w')) = (nm_tables (repo_names (w_repo w)))((c, n, t) \<mapsto> u)"
proof -
  have "on_repo (run_command (default_repository d to_json encode) (Create_Table c n t sch u)) w = (Inr (), w')"
    using assms(3) by (auto simp: on_repo_Inr bind_st_eq_Inr)
  note C = on_repo_command [OF assms(1) _ this]
  show "rows_ok d (w_repo w')" by (rule C(1)) (simp add: assms(2))
  have "catalog_spec (Create_Table c n t (map (map_prod id (\<lambda>_. ())) sch) u) (repo_names (w_repo w)) = (Inr (), repo_names (w_repo w'))"
    using C(2) assms(2) by (simp del: catalog_spec.simps)
  then have "repo_names (w_repo w') = (repo_names (w_repo w))\<lparr>nm_tables := (nm_tables (repo_names (w_repo w)))((c, n, t) \<mapsto> u)\<rparr>"
    by (auto split: if_splits)
  then show "nm_tables (repo_names (w_repo w')) = (nm_tables (repo_names (w_repo w)))((c, n, t) \<mapsto> u)" by simp
qed

lemma session_register_table_found:
  assumes "session_register_table cx r ls w = (Inr x, w')" and "rr_schema r \<noteq> STAGING_SCHEMA"
  obtains schemas tables where "rr_catalog r = cx_default_catalog cx" "w_schemas w' = Some schemas" "w_repo w' = w_repo w"
    "database_schema schemas (rr_schema r) = Some (Seafowl tables)" "imap_get tables (rr_table r) = Some (ls, True)"
proof -
  obtain S tables tables' where S: "rr_catalog r = cx_default_catalog cx" "w_schemas w = Some S"
    "database_schema S (rr_schema r) = Some (Seafowl tables)" "schema_register_table (rr_table r) (ls, True) tables = Inr tables'"
    "w' = w\<lparr>w_schemas := Some (imap_insert (rr_schema r) tables' S)\<rparr>"
    using assms by (auto simp: session_register_table_def database_schema_def split: if_splits option.splits sum.splits)
  show ?thesis
  proof (rule that)
    show "database_schema (imap_insert (rr_schema r) tables' S) (rr_schema r) = Some (Seafowl tables')"
      using database_schema_insert [OF S(3)] by simp
    show "imap_get tables' (rr_table r) = Some (ls, True)"
      using S(4) by (auto simp: schema_register_table_def imap_simps split: if_splits)
  qed (use S in simp_all)
qed

lemma create_delta_table_runs:
  assumes ok: "rows_ok d (w_repo w)" and M: "ms_repository M = default_repository d to_json encode"
    and run: "create_delta_table E TB us M cx u name (EmptyTable sch) w = (r, w')"
    and g: "cx_internal cx = Some g"
    and schema: "schema_get (default_repository d to_json encode) (cx_default_catalog cx) (rr_schema (resolve_table_ref E cx name)) (w_repo w) = (Inr k, w_repo w)"
    and conv: "tb_delta_schema TB sch = Inr ds"
    and made: "tb_create TB (g (us u)) (rr_table (resolve_table_ref E cx name)) ds (w_lake w) = (Inr ts, l)"
  shows "register_delta_table M cx (resolve_table_ref E cx name) u (g (us u)) ts (w\<lparr>w_lake := l\<rparr>) = (r, w')"
  using run g schema conv made
  by (simp add: create_delta_table_def Let_def bind_st_def get_internal_object_store_def ok_or_def on_repo_def on_lake_def M)

text \<open>
  C12: \<open>CREATE TABLE\<close>. When the statement succeeds, the catalog has the table under its name in the default catalog with
  the generated uuid and no other name has changed, and the session finds the table at once: looking the name up
  returns that uuid.
\<close>
theorem created_table_is_found:
  assumes ok: "rows_ok d (w_repo w)" and M: "ms_repository M = default_repository d to_json encode"
    and dirs: "uuid_directories E us cx" and good: "storable TB to_json"
    and run: "create_delta_table E TB us M cx u name (EmptyTable sch) w = (Inr ls, w')"
  shows "let r = resolve_table_ref E cx name in rr_catalog r = cx_default_catalog cx \<and>
    nm_tables (repo_names (w_repo w')) = (nm_tables (repo_names (w_repo w)))((rr_catalog r, rr_schema r, rr_table r) \<mapsto> u) \<and>
    fst (get_table_uuid E cx name w') = Inr u"
proof -
  let ?r = "resolve_table_ref E cx name" and ?R = "default_repository d to_json encode"
  obtain g k s ds l ts where steps: "cx_internal cx = Some g"
    "schema_get ?R (cx_default_catalog cx) (rr_schema ?r) (w_repo w) = (Inr k, s)" "tb_delta_schema TB sch = Inr ds"
    "tb_create TB (g (us u)) (rr_table ?r) ds (w_lake w) = (Inr ts, l)"
    using run unfolding create_delta_table_def CreateDeltaTableDetails.case Let_def
    by (auto simp: bind_st_eq_Inr on_repo_Inr on_lake_Inr get_internal_object_store_Inr M)
  have s: "s = w_repo w" by (rule schema_get_keeps [OF ok steps(2)])
  have n: "rr_schema ?r \<noteq> STAGING_SCHEMA" using steps(2) by (auto simp: store.schema_get_eq [OF ok])
  note reg = create_delta_table_runs [OF ok M run steps(1) steps(2) [unfolded s] steps(3,4)]
  obtain x w2 where tc: "on_repo (table_create ?R (cx_default_catalog cx) (rr_schema ?r) (rr_table ?r) ts u) (w\<lparr>w_lake := l\<rparr>) = (Inr x, w2)"
    and sr: "session_register_table cx ?r (g (us u)) w2 = (Inr (), w')"
    using reg by (auto simp: register_delta_table_def bind_st_eq_Inr M)
  have gs: "good_schema to_json ts" by (rule storableD [OF good steps(4)])
  obtain S tables where S: "rr_catalog ?r = cx_default_catalog cx" "w_schemas w' = Some S" "w_repo w' = w_repo w2"
    "database_schema S (rr_schema ?r) = Some (Seafowl tables)" "imap_get tables (rr_table ?r) = Some (g (us u), True)"
    by (rule session_register_table_found [OF sr n])
  have "nm_tables (repo_names (w_repo w')) = (nm_tables (repo_names (w_repo w)))((rr_catalog ?r, rr_schema ?r, rr_table ?r) \<mapsto> u)"
    using on_repo_table_create(2) [OF _ gs tc] ok S(1,3) by simp
  moreover have "fst (get_table_uuid E cx name w') = Inr u"
    using S dirs steps(1)
    by (simp add: get_table_uuid_def bind_st_def table_provider_def Let_def schema_table_def uuid_directories_def ok_or_def)
  ultimately show ?thesis using S(1) by (simp add: Let_def)
qed

text \<open>
  \<open>CREATE TABLE\<close> in another catalog. The catalog of the reference is not used to store the table: for a reference to
  another catalog whose schema and table would be free in the default catalog, the statement fails when the session does not
  find the catalog, but by then the Delta table has been created and the catalog has it in the \<^emph>\<open>default\<close> catalog.
\<close>
theorem create_table_in_other_catalog_left_behind:
  assumes ok: "rows_ok d (w_repo w)" and M: "ms_repository M = default_repository d to_json encode"
    and good: "storable TB to_json" and r: "r = resolve_table_ref E cx name"
    and other: "rr_catalog r \<noteq> cx_default_catalog cx" and g: "cx_internal cx = Some g"
    and free: "rr_schema r \<noteq> STAGING_SCHEMA" "(cx_default_catalog cx, rr_schema r) \<in> nm_schemas (repo_names (w_repo w))"
      "nm_tables (repo_names (w_repo w)) (cx_default_catalog cx, rr_schema r, rr_table r) = None"
    and conv: "tb_delta_schema TB sch = Inr ds" and made: "tb_create TB (g (us u)) (rr_table r) ds (w_lake w) = (Inr ts, l)"
  shows "\<exists>w'. create_delta_table E TB us M cx u name (EmptyTable sch) w = (Inl (Plan (''failed to resolve catalog: '' @ rr_catalog r)), w') \<and>
    w_lake w' = l \<and>
    nm_tables (repo_names (w_repo w')) = (nm_tables (repo_names (w_repo w)))((cx_default_catalog cx, rr_schema r, rr_table r) \<mapsto> u)"
proof -
  let ?R = "default_repository d to_json encode" and ?c = "cx_default_catalog cx"
  have gs: "good_schema to_json ts" by (rule storableD [OF good made])
  obtain k where k: "schema_get ?R ?c (rr_schema r) (w_repo w) = (Inr k, w_repo w)"
    using free(1,2) by (auto simp: store.schema_get_eq [OF ok] names_of_def)
  obtain q' s where cmd: "run_command ?R (Create_Table ?c (rr_schema r) (rr_table r) ts u) (w_repo w) = (q', s)" by fastforce
  from store.refine_command [OF ok _ cmd] gs have "catalog_spec (Create_Table ?c (rr_schema r) (rr_table r) ts u) (repo_names (w_repo w)) = (q', repo_names s)"
    by (simp del: catalog_spec.simps)
  then have "q' = Inr ()" "repo_names s = (repo_names (w_repo w))\<lparr>nm_tables := (nm_tables (repo_names (w_repo w)))((?c, rr_schema r, rr_table r) \<mapsto> u)\<rparr>"
    using free by (auto split: if_splits)
  then have q': "q' = Inr ()" "nm_tables (repo_names s) = (nm_tables (repo_names (w_repo w)))((?c, rr_schema r, rr_table r) \<mapsto> u)"
    by simp_all
  then obtain x where create: "table_create ?R ?c (rr_schema r) (rr_table r) ts u (w_repo w) = (Inr x, s)"
    using cmd by (auto simp: bind_st_eq_Inr)
  let ?w = "w\<lparr>w_lake := l, w_repo := s\<rparr>"
  have "create_delta_table E TB us M cx u name (EmptyTable sch) w = (Inl (Plan (''failed to resolve catalog: '' @ rr_catalog r)), ?w)"
    using k conv made g create other
    by (simp add: create_delta_table_def Let_def bind_st_def get_internal_object_store_def ok_or_def on_repo_def on_lake_def M
        r [symmetric] register_delta_table_def session_register_table_def)
  then show ?thesis using q'(2) by (intro exI [of _ ?w]) simp
qed

text \<open>Tables of the lake in memory; a name \<open>c!t\<close> is a table of the default schema of the catalog \<open>c\<close>.\<close>

definition memory_tables :: "(unit, string, memory_lake) tables" where
  "memory_tables = \<lparr>tb_delta_schema = (\<lambda>sch. if distinct (map fst sch) then Inr sch else Inl (Plan ''duplicate column'')),
     tb_create = (\<lambda>ls t sch l. if distinct (map fst sch)
       then (Inr sch, l(ls := \<lparr>mt_version = 0, mt_files = [], mt_rows = []\<rparr>)) else (Inl (Plan ''duplicate column''), l)),
     tb_convert = (\<lambda>ls t l. (Inl ALREADY_DELTA, l)), tb_purge = (\<lambda>ls l. (Inr (), l(ls := \<lparr>mt_version = 0, mt_files = [], mt_rows = []\<rparr>))),
     tb_vacuum = (\<lambda>ls l. (Inr (), l)), tb_schema = (\<lambda>_ _. memory_fields)\<rparr>"

definition catalog_engine :: "(string, string, memory_lake) engine" where
  "catalog_engine = memory_engine\<lparr>en_resolve := (\<lambda>name c n.
     if CHR ''!'' \<in> set name
     then \<lparr>rr_catalog = takeWhile (\<lambda>x. x \<noteq> CHR ''!'') name, rr_schema = n, rr_table = tl (dropWhile (\<lambda>x. x \<noteq> CHR ''!'') name)\<rparr>
     else \<lparr>rr_catalog = c, rr_schema = n, rr_table = name\<rparr>)\<rparr>"

lemma memory_tables_storable: "storable memory_tables no_json"
proof -
  have "collect_res (\<lambda>(n, f). Inr (n, ''{}'')) sch = Inr (map (\<lambda>(n, f). (n, ''{}'')) sch)" for sch :: "(string \<times> unit) list"
    by (rule collect_res_map) (simp add: case_prod_unfold)
  then show ?thesis by (auto simp: storable_def memory_tables_def good_schema_def no_json_def schema_fields_def is_ok_iff split: if_splits)
qed

lemma memory_uuid_directories: "uuid_directories catalog_engine uuid_text path_context"
  by (simp add: uuid_directories_def catalog_engine_def memory_engine_def path_context_def uuid_text_def)

lemma lake_world_rows:
  "rows_ok SQLite (w_repo lake_world)" "ms_repository lake_metastore = default_repository SQLite no_json (\<lambda>_. ''RETRY'')"
  using repo_ok_reachable [OF example_db_reachable [of SQLite]]
  by (simp_all add: lake_world_def lake_metastore_def new_from_repository_def repo_ok_def)

lemma lake_world_names:
  "nm_tables (repo_names (w_repo lake_world)) k = (if k = (''default'', ''public'', ''t'') then Some 7 else None)"
  "nm_schemas (repo_names (w_repo lake_world)) = {(''default'', ''public'')}"
proof -
  have rows: "database_rows (w_repo lake_world) = [\<lparr>dbr_id = 1, dbr_name = ''default''\<rparr>]"
    "collection_rows (w_repo lake_world) = [\<lparr>coll_id = 1, coll_database_id = 1, coll_name = ''public''\<rparr>]"
    "table_rows (w_repo lake_world) = [\<lparr>tbl_id = 1, tbl_collection_id = 1, tbl_name = ''t'', tbl_uuid = 7\<rparr>]"
    by code_simp+
  show "nm_tables (repo_names (w_repo lake_world)) k = (if k = (''default'', ''public'', ''t'') then Some 7 else None)"
    by (cases k) (simp add: names_of_def db_map_def coll_map_def tbl_map_def rows)
  show "nm_schemas (repo_names (w_repo lake_world)) = {(''default'', ''public'')}"
    by (auto simp: names_of_def db_map_def coll_map_def rows split: if_splits)
qed

lemma created_table_is_found_witness:
  "let w' = snd (create_delta_table catalog_engine memory_tables uuid_text lake_metastore path_context 9 ''u''
         (EmptyTable [(''a'', ()), (''b'', ())]) lake_world) in
   nm_tables (repo_names (w_repo w')) (''default'', ''public'', ''u'') = Some 9 \<and>
   nm_tables (repo_names (w_repo w')) (''default'', ''public'', ''t'') = Some 7 \<and>
   fst (get_table_uuid catalog_engine path_context ''u'' w') = Inr 9"
proof -
  let ?r = "create_delta_table catalog_engine memory_tables uuid_text lake_metastore path_context 9 ''u''
         (EmptyTable [(''a'', ()), (''b'', ())]) lake_world"
  have "fst ?r = Inr ''9''" by code_simp
  then have run: "?r = (Inr ''9'', snd ?r)" by (metis prod.collapse)
  have ref: "resolve_table_ref catalog_engine path_context ''u'' = \<lparr>rr_catalog = ''default'', rr_schema = ''public'', rr_table = ''u''\<rparr>"
    by code_simp
  note created_table_is_found [OF lake_world_rows memory_uuid_directories memory_tables_storable run, unfolded ref Let_def]
  then show ?thesis by (simp add: Let_def lake_world_names)
qed

lemma create_table_in_other_catalog_left_behind_witness:
  "\<exists>w'. create_delta_table catalog_engine memory_tables uuid_text lake_metastore path_context 9 ''other!u''
       (EmptyTable [(''a'', ())]) lake_world = (Inl (Plan ''failed to resolve catalog: other''), w') \<and>
     nm_tables (repo_names (w_repo w')) (''default'', ''public'', ''u'') = Some 9"
proof -
  let ?ref = "\<lparr>rr_catalog = ''other'', rr_schema = ''public'', rr_table = ''u''\<rparr>"
  let ?l = "(w_lake lake_world)(''9'' := \<lparr>mt_version = 0, mt_files = [], mt_rows = []\<rparr>)"
  have ref: "?ref = resolve_table_ref catalog_engine path_context ''other!u''" by code_simp
  have g: "cx_internal path_context = Some (\<lambda>p. p)" and cat: "cx_default_catalog path_context = ''default''" by (simp_all add: path_context_def)
  have uuid: "uuid_text 9 = ''9''" by code_simp
  have conv: "tb_delta_schema memory_tables [(''a'', ())] = Inr [(''a'', ())]"
    and made: "tb_create memory_tables (uuid_text 9) (rr_table ?ref) [(''a'', ())] (w_lake lake_world) = (Inr [(''a'', ())], ?l)"
    by (simp_all add: memory_tables_def uuid)
  have "rr_catalog ?ref \<noteq> cx_default_catalog path_context" "rr_schema ?ref \<noteq> STAGING_SCHEMA"
    "(cx_default_catalog path_context, rr_schema ?ref) \<in> nm_schemas (repo_names (w_repo lake_world))"
    "nm_tables (repo_names (w_repo lake_world)) (cx_default_catalog path_context, rr_schema ?ref, rr_table ?ref) = None"
    by (simp_all add: cat STAGING_SCHEMA_def lake_world_names)
  from create_table_in_other_catalog_left_behind [where us = uuid_text and u = 9, OF lake_world_rows memory_tables_storable ref this(1) g this(2-4) conv made]
  show ?thesis by (rule ex_forward) (simp add: cat)
qed


end
