(* ===== verification/SqlTypes.thy ===== *)
theory SqlTypes
  imports Context DFParser
begin

text \<open>
  Column definitions of \<open>CREATE TABLE\<close> (\<open>src/datafusion/utils.rs\<close>): the conversion of SQL types into Arrow types
  and the schema of the new table. The casts of the precision and scale of a decimal are those of Rust's
  \<open>as\<close>, on words of the width of the source.
\<close>

subsection \<open>Types\<close>

datatype time_zone_info = TzNone | TzWithTimeZone | TzWithoutTimeZone | TzTz

datatype exact_number_info = ExactNone | Precision u64 | PrecisionAndScale u64 u64

text \<open>
  sqlparser's \<open>DataType\<close>. The variants of the last arm of \<open>convert_simple_data_type\<close> that have no arm of their own
  are \<open>OtherSqlType\<close>, with their text.
\<close>

datatype sql_data_type =
    SqlBoolean | SqlBool
  | SqlTinyInt "u64 option" | SqlSmallInt "u64 option" | SqlInt2 "u64 option"
  | SqlInt "u64 option" | SqlInteger "u64 option" | SqlInt4 "u64 option"
  | SqlBigInt "u64 option" | SqlInt8 "u64 option"
  | SqlUnsignedTinyInt "u64 option" | SqlUnsignedSmallInt "u64 option" | SqlUnsignedInt2 "u64 option"
  | SqlUnsignedInt "u64 option" | SqlUnsignedInteger "u64 option" | SqlUnsignedInt4 "u64 option"
  | SqlUnsignedBigInt "u64 option" | SqlUnsignedInt8 "u64 option"
  | SqlFloat "u64 option" | SqlReal | SqlFloat4 | SqlDouble | SqlDoublePrecision | SqlFloat8
  | SqlChar "u64 option" | SqlVarchar "u64 option" | SqlText | SqlString "u64 option"
  | SqlTimestamp "u64 option" time_zone_info | SqlDate | SqlTime "u64 option" time_zone_info
  | SqlNumeric exact_number_info | SqlDecimal exact_number_info
  | SqlBytea | SqlInterval
  | OtherSqlType string

text \<open>The Arrow types that the conversion produces; the scale of a decimal is an \<open>i8\<close>.\<close>

datatype arrow_type =
    DT_Boolean | DT_Int8 | DT_Int16 | DT_Int32 | DT_Int64 | DT_UInt8 | DT_UInt16 | DT_UInt32 | DT_UInt64
  | DT_Float32 | DT_Float64 | DT_Utf8 | DT_Binary | DT_Date32
  | DT_TimestampMicrosecond "string option" | DT_Time64Nanosecond | DT_IntervalMonthDayNano
  | DT_Decimal128 "8 word" "8 word"

datatype column_option = NotNull | OtherOption string

record sql_column_def =
  sc_name :: ident
  sc_data_type :: sql_data_type
  sc_options :: "column_option list"

record arrow_field =
  af_name :: string
  af_type :: arrow_type
  af_nullable :: bool


subsection \<open>Conversion\<close>

fun normalize_ident :: "ident \<Rightarrow> string" where
  "normalize_ident (Ident v (Some q)) = v"
| "normalize_ident (Ident v None) = to_ascii_lowercase v"

definition DECIMAL128_MAX_PRECISION :: "8 word" where "DECIMAL128_MAX_PRECISION = 38"

definition DECIMAL_DEFAULT_SCALE :: "8 word" where "DECIMAL_DEFAULT_SCALE = 10"

text \<open>\<open>unsigned_abs\<close> of an \<open>i8\<close>, a \<open>u8\<close>.\<close>

definition unsigned_abs :: "8 word \<Rightarrow> 8 word" where
  "unsigned_abs s = word_of_int \<bar>sint s\<bar>"

definition decimal_error :: "8 word \<Rightarrow> 8 word \<Rightarrow> df_error" where
  "decimal_error prec sca =
     Internal ''Decimal(precision, scale) should satisfy `0 < precision <= 38`, and `scale <= precision`.''"

definition make_decimal_type :: "u64 option \<Rightarrow> u64 option \<Rightarrow> (df_error, arrow_type) result" where
  "make_decimal_type prec sca =
     bind_res (case (prec, sca) of
         (Some p, Some s) \<Rightarrow> Inr (ucast p, ucast s)
       | (Some p, None) \<Rightarrow> Inr (ucast p, 0)
       | (None, Some _) \<Rightarrow> Inl (Internal ''Cannot specify only scale for decimal data type'')
       | (None, None) \<Rightarrow> Inr (DECIMAL128_MAX_PRECISION, DECIMAL_DEFAULT_SCALE))
     (\<lambda>(prec, sca).
       if prec = 0 \<or> prec > DECIMAL128_MAX_PRECISION \<or> unsigned_abs sca > prec
       then Inl (decimal_error prec sca)
       else Inr (DT_Decimal128 prec sca))"

fun exact_number :: "exact_number_info \<Rightarrow> u64 option \<times> u64 option" where
  "exact_number ExactNone = (None, None)"
| "exact_number (Precision p) = (Some p, None)"
| "exact_number (PrecisionAndScale p s) = (Some p, Some s)"

abbreviation unsupported_type :: "(df_error, arrow_type) result" where
  "unsupported_type \<equiv> Inl (NotImplementedDf ''Unsupported SQL type'')"

text \<open>\<open>default_time_zone\<close> is \<open>ConfigOptions::default().execution.time_zone\<close> of DataFusion.\<close>

definition convert_simple_data_type :: "string option \<Rightarrow> sql_data_type \<Rightarrow> (df_error, arrow_type) result" where
  "convert_simple_data_type default_time_zone sql_type =
     (case sql_type of
        SqlBoolean \<Rightarrow> Inr DT_Boolean | SqlBool \<Rightarrow> Inr DT_Boolean
      | SqlTinyInt _ \<Rightarrow> Inr DT_Int8
      | SqlSmallInt _ \<Rightarrow> Inr DT_Int16 | SqlInt2 _ \<Rightarrow> Inr DT_Int16
      | SqlInt _ \<Rightarrow> Inr DT_Int32 | SqlInteger _ \<Rightarrow> Inr DT_Int32 | SqlInt4 _ \<Rightarrow> Inr DT_Int32
      | SqlBigInt _ \<Rightarrow> Inr DT_Int64 | SqlInt8 _ \<Rightarrow> Inr DT_Int64
      | SqlUnsignedTinyInt _ \<Rightarrow> Inr DT_UInt8
      | SqlUnsignedSmallInt _ \<Rightarrow> Inr DT_UInt16 | SqlUnsignedInt2 _ \<Rightarrow> Inr DT_UInt16
      | SqlUnsignedInt _ \<Rightarrow> Inr DT_UInt32 | SqlUnsignedInteger _ \<Rightarrow> Inr DT_UInt32 | SqlUnsignedInt4 _ \<Rightarrow> Inr DT_UInt32
      | SqlUnsignedBigInt _ \<Rightarrow> Inr DT_UInt64 | SqlUnsignedInt8 _ \<Rightarrow> Inr DT_UInt64
      | SqlFloat _ \<Rightarrow> Inr DT_Float32
      | SqlReal \<Rightarrow> Inr DT_Float32 | SqlFloat4 \<Rightarrow> Inr DT_Float32
      | SqlDouble \<Rightarrow> Inr DT_Float64 | SqlDoublePrecision \<Rightarrow> Inr DT_Float64 | SqlFloat8 \<Rightarrow> Inr DT_Float64
      | SqlChar _ \<Rightarrow> Inr DT_Utf8 | SqlVarchar _ \<Rightarrow> Inr DT_Utf8 | SqlText \<Rightarrow> Inr DT_Utf8 | SqlString _ \<Rightarrow> Inr DT_Utf8
      | SqlTimestamp None tz_info \<Rightarrow>
          Inr (DT_TimestampMicrosecond (if tz_info = TzTz \<or> tz_info = TzWithTimeZone then default_time_zone else None))
      | SqlDate \<Rightarrow> Inr DT_Date32
      | SqlTime None tz_info \<Rightarrow>
          if tz_info = TzNone \<or> tz_info = TzWithoutTimeZone then Inr DT_Time64Nanosecond else unsupported_type
      | SqlNumeric exact_number_info \<Rightarrow> (case exact_number exact_number_info of (prec, sca) \<Rightarrow> make_decimal_type prec sca)
      | SqlDecimal exact_number_info \<Rightarrow> (case exact_number exact_number_info of (prec, sca) \<Rightarrow> make_decimal_type prec sca)
      | SqlBytea \<Rightarrow> Inr DT_Binary
      | SqlInterval \<Rightarrow> Inr DT_IntervalMonthDayNano
      | SqlTimestamp (Some _) _ \<Rightarrow> unsupported_type
      | SqlTime (Some _) _ \<Rightarrow> unsupported_type
      | OtherSqlType _ \<Rightarrow> unsupported_type)"

fun build_schema_loop :: "string option \<Rightarrow> sql_column_def list \<Rightarrow> arrow_field list \<Rightarrow> (df_error, arrow_field list) result" where
  "build_schema_loop tz [] fs = Inr fs"
| "build_schema_loop tz (column # columns) fs =
     bind_res (convert_simple_data_type tz (sc_data_type column)) (\<lambda>data_type.
     let allow_null = (\<not> (\<exists>x\<in>set (sc_options column). x = NotNull)) in
     build_schema_loop tz columns
       (fs @ [\<lparr>af_name = normalize_ident (sc_name column), af_type = data_type, af_nullable = allow_null\<rparr>]))"

definition build_table_schema :: "string option \<Rightarrow> sql_column_def list \<Rightarrow> (df_error, arrow_field list) result" where
  "build_table_schema tz columns = build_schema_loop tz columns []"


subsection \<open>Well-typed schemas\<close>

text \<open>What Arrow requires of a decimal type: one to 38 digits, and a scale of at most as many.\<close>

fun arrow_type_ok :: "arrow_type \<Rightarrow> bool" where
  "arrow_type_ok (DT_Decimal128 p s) \<longleftrightarrow> 0 < uint p \<and> uint p \<le> 38 \<and> \<bar>sint s\<bar> \<le> uint p"
| "arrow_type_ok _ \<longleftrightarrow> True"

text \<open>The number that the cast to an \<open>i8\<close> of a scale gives.\<close>

definition as_i8 :: "u64 \<Rightarrow> int" where
  "as_i8 s = (let n = uint s mod 256 in if n < 128 then n else n - 256)"

lemma uint_ucast_u8: "uint (ucast (p :: u64) :: 8 word) = uint p mod 256"
  by (simp add: unsigned_ucast_eq take_bit_eq_mod)

lemma sint_i8_range: "- 128 \<le> sint (s :: 8 word)" "sint (s :: 8 word) < 128"
  using sint_greater_eq [of s] sint_lt [of s] by simp_all

lemma uint_unsigned_abs: "uint (unsigned_abs s) = \<bar>sint s\<bar>"
  using sint_i8_range [of s] by (simp add: unsigned_abs_def uint_word_of_int)

lemma signed_take_bit_7:
  assumes "0 \<le> m" "m < 256"
  shows "signed_take_bit 7 (m :: int) = (if m < 128 then m else m - 256)"
proof -
  have "m div 128 = (if m < 128 then 0 else 1)" using assms by auto
  then have "bit m 7 \<longleftrightarrow> \<not> m < 128" by (simp add: bit_iff_odd)
  moreover have "take_bit 8 m = m" using assms by (simp add: take_bit_int_eq_self)
  ultimately show ?thesis by (simp add: signed_take_bit_eq_take_bit_minus)
qed

lemma sint_ucast_i8: "sint (ucast (s :: u64) :: 8 word) = as_i8 s"
  by (simp add: sint_uint uint_ucast_u8 signed_take_bit_7 as_i8_def)

text \<open>The guard of \<open>make_decimal_type\<close> is the requirement of Arrow.\<close>

lemma decimal_guard:
  "prec = 0 \<or> prec > DECIMAL128_MAX_PRECISION \<or> unsigned_abs sca > prec \<longleftrightarrow> \<not> arrow_type_ok (DT_Decimal128 prec sca)"
proof -
  have "prec = 0 \<longleftrightarrow> \<not> 0 < uint prec" using uint_lt_0 [of prec] by (auto simp: uint_0_iff not_less)
  then show ?thesis by (auto simp: word_less_def uint_unsigned_abs DECIMAL128_MAX_PRECISION_def)
qed

lemma make_decimal_type_ok: "make_decimal_type p s = Inr t \<Longrightarrow> arrow_type_ok t"
  unfolding make_decimal_type_def decimal_guard by (auto split: option.splits if_splits)

lemma convert_ok: "convert_simple_data_type tz ty = Inr t \<Longrightarrow> arrow_type_ok t"
  by (cases ty) (auto simp: convert_simple_data_type_def split: option.splits if_splits prod.splits intro: make_decimal_type_ok)

lemma build_schema_loop_eq:
  "build_schema_loop tz columns fs =
    bind_res (collect_res (\<lambda>column. bind_res (convert_simple_data_type tz (sc_data_type column)) (\<lambda>t.
        Inr \<lparr>af_name = normalize_ident (sc_name column), af_type = t, af_nullable = NotNull \<notin> set (sc_options column)\<rparr>)) columns)
      (\<lambda>gs. Inr (fs @ gs))"
proof (induction columns arbitrary: fs)
  case (Cons column columns)
  then show ?case by (cases "convert_simple_data_type tz (sc_data_type column)") (auto simp: bind_res_def split: sum.splits)
qed simp

text \<open>
  C22: the schema of \<open>CREATE TABLE\<close> is well typed. When \<open>build_schema\<close> succeeds it has one field per column, in
  the order of the columns: its name is the column's, in lower case unless it was quoted, its type is the conversion
  of the column's and is valid for Arrow (a decimal has between 1 and 38 digits and a scale of at most as many),
  and it is nullable unless the column says \<open>NOT NULL\<close>. It succeeds whenever every type can be converted.
\<close>
theorem created_schema_well_typed:
  "build_table_schema tz columns = Inr fs \<longleftrightarrow>
     list_all2 (\<lambda>c f. af_name f = normalize_ident (sc_name c) \<and> convert_simple_data_type tz (sc_data_type c) = Inr (af_type f) \<and>
       arrow_type_ok (af_type f) \<and> (af_nullable f \<longleftrightarrow> NotNull \<notin> set (sc_options c))) columns fs"
  unfolding build_table_schema_def build_schema_loop_eq
  by (auto simp: bind_res_eq_Inr collect_res_Inr_iff convert_ok elim!: list_all2_mono)

text \<open>
  the precision and the scale of a decimal wrap around. \<open>DECIMAL(p, s)\<close> is accepted exactly when the lowest
  eight bits of \<open>p\<close> are between 1 and 38 and those of \<open>s\<close>, read as a signed number, are of at most that size.
  For \<open>p < 256\<close> and \<open>s < 128\<close> this is the check that is meant; beyond, types that should be refused are
  accepted as other ones.
\<close>
theorem decimal_accepted_modulo_256:
  "make_decimal_type (Some p) (Some s) =
     (if 0 < uint p mod 256 \<and> uint p mod 256 \<le> 38 \<and> \<bar>as_i8 s\<bar> \<le> uint p mod 256
      then Inr (DT_Decimal128 (ucast p) (ucast s)) else Inl (decimal_error (ucast p) (ucast s)))"
  unfolding make_decimal_type_def decimal_guard by (simp add: uint_ucast_u8 sint_ucast_i8)

lemma decimal_wraps: "make_decimal_type (Some 294) (Some 220) = Inr (DT_Decimal128 38 220) \<and> sint (220 :: 8 word) = - 36"
  by code_simp
end
