(* ===== verification/Logical.thy ===== *)
theory Logical
  imports Ddl SqlTypes
begin

text \<open>
  Logical planning (\<open>src/context/logical.rs\<close>, \<open>src/nodes.rs\<close>) and time travel (\<open>src/version.rs\<close>): which statements
  Seafowl plans itself and which it leaves to DataFusion, and the rewriting of \<open>table('timestamp')\<close> into the name
  of a table that is registered for that version.
\<close>

subsection \<open>Statements\<close>

text \<open>
  sqlparser's \<open>Statement\<close>, with a query of type \<open>'q\<close>. What planning does not look into is kept as text. The
  arguments of a table factor are what time travel uses.
\<close>

datatype table_args = NoArgs | SingleString string | OtherArgs string

datatype object_type = OT_Table | OT_Schema | OT_Other string

datatype alter_operation = RenameTableOp object_name | OtherAlter string

record update_target =
  ut_is_table :: bool
  ut_alias :: "string option"
  ut_args :: table_args
  ut_with_hints :: "string list"
  ut_joins :: "string list"

record 'q create_table_sql =
  ct_query :: "'q option"
  ct_name :: object_name
  ct_columns :: "sql_column_def list"
  ct_constraints :: "string list"
  ct_table_properties :: "string list"
  ct_with_options :: "string list"
  ct_if_not_exists :: bool
  ct_or_replace :: bool

datatype 'q sql_statement =
    Q_Query 'q
  | Q_Explain string | Q_ExplainTable string | Q_ShowVariable string | Q_ShowTables string | Q_ShowColumns string
  | Q_CreateSchema string | Q_CreateView string | Q_CreateDatabase string
  | Q_Insert string "'q option"
  | Q_Update update_target string
  | Q_Delete string
  | Q_Drop object_type string
  | Q_CreateTable "'q create_table_sql"
  | Q_AlterTable object_name "alter_operation list"
  | Q_CreateFunction bool bool object_name literal
  | Q_Truncate object_name "ident list option" bool
  | Q_DropFunction bool "object_name list"
  | Q_Other string

datatype 'q copy_source = SourceQuery 'q | SourceRelation object_name

datatype 'q df_statement =
    D_Statement "'q sql_statement"
  | D_CopyTo "'q copy_source" string "(string \<times> literal) list"
  | D_CreateExternalTable CreateExternalTable
  | D_Explain string

text \<open>The nodes that Seafowl adds to DataFusion's plans (\<open>SeafowlExtensionNode\<close>).\<close>

datatype extension_node =
    X_CreateTable "arrow_field list" string bool
  | X_CreateFunction bool string CreateFunctionDetails
  | X_DropFunction bool "string list"
  | X_RenameTable string string
  | X_ConvertTable string string
  | X_Truncate string
  | X_Vacuum "string option" "string option"

datatype 'plan logical_plan = L_Extension extension_node | L_Plan 'plan

text \<open>The statements that DataFusion plans, and what the planner calls of it; \<open>'dt\<close> is a point in time.\<close>

record ('q, 'plan, 'dt, 's, 'l, 'ls) planner =
  pl_show_name :: "object_name \<Rightarrow> string"
  pl_tables :: "'q \<Rightarrow> (object_name \<times> table_args) list" \<comment> \<open>the table factors of a query, in the order of a visit\<close>
  pl_replace :: "'q \<Rightarrow> (object_name \<times> table_args) list \<Rightarrow> 'q"
  pl_hash_order :: "(object_name \<times> string) list \<Rightarrow> (object_name \<times> string) list"
  pl_statement_to_plan :: "'ls seafowl_context \<Rightarrow> 'q df_statement \<Rightarrow> ('s, 'l, 'ls, 'plan) act"
  pl_optimize :: "'plan \<Rightarrow> (df_error, 'plan) result"
  pl_analyze :: "'plan \<Rightarrow> (df_error, 'plan) result"
  pl_simplify :: "'plan \<Rightarrow> (df_error, 'plan) result"
  pl_time_zone :: "string option"
  pl_parse_details :: "string \<Rightarrow> (string, CreateFunctionDetails) result"
  pl_rfc3339 :: "string \<Rightarrow> 'dt option"
  pl_rfc2822 :: "string \<Rightarrow> 'dt option"
  pl_with_offset :: "string \<Rightarrow> 'dt option" \<comment> \<open>\<open>%Y-%m-%d %H:%M:%S %z\<close>\<close>
  pl_naive :: "string \<Rightarrow> 'dt option" \<comment> \<open>\<open>%Y-%m-%d %H:%M:%S\<close>, taken as UTC\<close>
  pl_load_at :: "'ls \<Rightarrow> 'dt \<Rightarrow> ('l, df_error, 'ls) st" \<comment> \<open>\<open>load_with_datetime\<close>: the provider of that version\<close>


subsection \<open>Versions\<close>

record version_processor =
  vp_default_catalog :: string
  vp_default_schema :: string
  vp_table_versions :: "(object_name \<times> string) list" \<comment> \<open>a set, without repetitions\<close>

fun ident_value :: "ident \<Rightarrow> string" where
  "ident_value (Ident v q) = v"

fun with_value :: "string \<Rightarrow> ident \<Rightarrow> ident" where
  "with_value v (Ident _ q) = Ident v q"

definition table_with_version :: "object_name \<Rightarrow> string \<Rightarrow> string" where
  "table_with_version name version = ident_value (last name) @ '':'' @ to_ascii_lowercase version"

definition version_to_datetime :: "('q, 'plan, 'dt, 's, 'l, 'ls) planner \<Rightarrow> string \<Rightarrow> (df_error, 'dt) result" where
  "version_to_datetime L version =
     (case pl_rfc3339 L version of
        Some dt \<Rightarrow> Inr dt
      | None \<Rightarrow>
     (case pl_rfc2822 L version of
        Some dt \<Rightarrow> Inr dt
      | None \<Rightarrow>
     (case pl_with_offset L version of
        Some dt \<Rightarrow> Inr dt
      | None \<Rightarrow>
     (case pl_naive L version of
        Some dt \<Rightarrow> Inr dt
      | None \<Rightarrow> Inl (Execution (''Failed to parse version '' @ version @ '' as timestamp''))))))"

definition full_object_name :: "resolved_ref \<Rightarrow> object_name" where
  "full_object_name r = [Ident (rr_catalog r) None, Ident (rr_schema r) None, Ident (rr_table r) None]"

definition pre_visit_table_factor ::
    "('ref, 'ls, 'l) engine \<Rightarrow> ('q, 'plan, 'dt, 's, 'l, 'ls) planner \<Rightarrow> object_name \<times> table_args \<Rightarrow>
      (version_processor, df_error, object_name \<times> table_args) st" where
  "pre_visit_table_factor E L factor =
     (case factor of
        (name, SingleString value) \<Rightarrow> (\<lambda>p.
          let resolved_ref = en_resolve E (en_ref E (pl_show_name L name)) (vp_default_catalog p) (vp_default_schema p);
              full_name = full_object_name resolved_ref;
              p' = p\<lparr>vp_table_versions := List.insert (full_name, value) (vp_table_versions p)\<rparr> in
          if name = [] then (Inl DfPanic, p')
          else (Inr (butlast name @ [with_value (table_with_version full_name value) (last name)], NoArgs), p'))
      | _ \<Rightarrow> return_st factor)"

fun visit_factors ::
    "('ref, 'ls, 'l) engine \<Rightarrow> ('q, 'plan, 'dt, 's, 'l, 'ls) planner \<Rightarrow> (object_name \<times> table_args) list \<Rightarrow>
      (version_processor, df_error, (object_name \<times> table_args) list) st" where
  "visit_factors E L [] = return_st []"
| "visit_factors E L (f # fs) =
     bind_st (pre_visit_table_factor E L f) (\<lambda>f'.
     bind_st (visit_factors E L fs) (\<lambda>fs'.
     return_st (f' # fs')))"

text \<open>\<open>SessionContext::table_exist\<close>.\<close>

definition session_table_exist :: "'ls seafowl_context \<Rightarrow> resolved_ref \<Rightarrow> ('s, 'l, 'ls, bool) act" where
  "session_table_exist cx r = (\<lambda>w.
     case (if rr_catalog r = cx_default_catalog cx then w_schemas w else None) of
       None \<Rightarrow> (Inl (Plan (''failed to resolve catalog: '' @ rr_catalog r)), w)
     | Some schemas \<Rightarrow>
         (case database_schema schemas (rr_schema r) of
            None \<Rightarrow> (Inl (Plan (''failed to resolve schema: '' @ rr_schema r)), w)
          | Some provider \<Rightarrow> (Inr (rr_table r \<in> set (provider_table_names (w_staging w) provider)), w)))"

text \<open>One round of the loop over the versions: the table is registered under its name with the version.\<close>

definition register_version ::
    "('ref, 'ls, 'l) engine \<Rightarrow> ('q, 'plan, 'dt, 's, 'l, 'ls) planner \<Rightarrow> (uuid \<Rightarrow> string) \<Rightarrow> 'ls seafowl_context \<Rightarrow>
      object_name \<times> string \<Rightarrow> ('s, 'l, 'ls, unit) act" where
  "register_version E L us cx tv =
     (case tv of (table, version) \<Rightarrow>
     let name_with_version = table_with_version table version;
         resolved_ref = en_resolve E (en_ref E (pl_show_name L table)) (cx_default_catalog cx) (cx_default_schema cx) in
     bind_st (get_table_uuid E cx (en_full E resolved_ref)) (\<lambda>table_uuid.
     bind_st (lift_res (get_internal_object_store cx)) (\<lambda>get_log_store.
     bind_st (lift_res (version_to_datetime L version)) (\<lambda>datetime.
     bind_st (on_lake (pl_load_at L (get_log_store (us table_uuid)) datetime)) (\<lambda>table_provider_for_version.
     let versioned_ref = resolved_ref\<lparr>rr_table := name_with_version\<rparr> in
     bind_st (session_table_exist cx versioned_ref) (\<lambda>exists.
     if exists then return_st () else session_register_table cx versioned_ref table_provider_for_version))))))"

fun register_versions ::
    "('ref, 'ls, 'l) engine \<Rightarrow> ('q, 'plan, 'dt, 's, 'l, 'ls) planner \<Rightarrow> (uuid \<Rightarrow> string) \<Rightarrow> 'ls seafowl_context \<Rightarrow>
      (object_name \<times> string) list \<Rightarrow> ('s, 'l, 'ls, unit) act" where
  "register_versions E L us cx [] = return_st ()"
| "register_versions E L us cx (tv # tvs) =
     bind_st (register_version E L us cx tv) (\<lambda>_. register_versions E L us cx tvs)"

text \<open>
  The result is the rewritten query. The session that the code returns shares its catalogs with the session of
  the context, so the registered tables are those of the world.
\<close>

definition rewrite_time_travel_query ::
    "('ref, 'ls, 'l) engine \<Rightarrow> ('q, 'plan, 'dt, 's, 'l, 'ls) planner \<Rightarrow> (uuid \<Rightarrow> string) \<Rightarrow> 'ls seafowl_context \<Rightarrow>
      'q \<Rightarrow> ('s, 'l, 'ls, 'q) act" where
  "rewrite_time_travel_query E L us cx q = (\<lambda>w.
     case visit_factors E L (pl_tables L q)
         \<lparr>vp_default_catalog = cx_default_catalog cx, vp_default_schema = DEFAULT_SCHEMA, vp_table_versions = []\<rparr> of
       (Inl e, _) \<Rightarrow> (Inl e, w)
     | (Inr fs, p) \<Rightarrow>
         let q' = pl_replace L q fs in
         if vp_table_versions p = [] then (Inr q', w)
         else bind_st (register_versions E L us cx (pl_hash_order L (vp_table_versions p))) (\<lambda>_. return_st q') w)"


subsection \<open>Planning a statement\<close>

abbreviation unsupported_statement :: "('s, 'l, 'ls, 'a) act" where
  "unsupported_statement \<equiv> lift_res (Inl (NotImplementedDf ''Unsupported SQL statement''))"

definition plan_df ::
    "('q, 'plan, 'dt, 's, 'l, 'ls) planner \<Rightarrow> 'ls seafowl_context \<Rightarrow> 'q df_statement \<Rightarrow> ('s, 'l, 'ls, 'plan logical_plan) act" where
  "plan_df L cx stmt = bind_st (pl_statement_to_plan L cx stmt) (\<lambda>p. return_st (L_Plan p))"

definition plan_optimized ::
    "('q, 'plan, 'dt, 's, 'l, 'ls) planner \<Rightarrow> 'ls seafowl_context \<Rightarrow> 'q df_statement \<Rightarrow> ('s, 'l, 'ls, 'plan logical_plan) act" where
  "plan_optimized L cx stmt =
     bind_st (pl_statement_to_plan L cx stmt) (\<lambda>plan.
     bind_st (lift_res (pl_optimize L plan)) (\<lambda>p. return_st (L_Plan p)))"

definition extension :: "extension_node \<Rightarrow> ('s, 'l, 'ls, 'plan logical_plan) act" where
  "extension node = return_st (L_Extension node)"

definition plan_rename ::
    "('ref, 'ls, 'l) engine \<Rightarrow> ('q, 'plan, 'dt, 's, 'l, 'ls) planner \<Rightarrow> 'ls seafowl_context \<Rightarrow> object_name \<Rightarrow>
      alter_operation list \<Rightarrow> ('s, 'l, 'ls, 'plan logical_plan) act" where
  "plan_rename E L cx name operations =
     (let old_name = pl_show_name L name in
     case operations of
       [RenameTableOp new] \<Rightarrow> (\<lambda>w.
         let new_name = pl_show_name L new in
         case found (table_provider E cx (en_ref E old_name)) w of
           (False, w1) \<Rightarrow> (Inl (Plan (''Source table '' @ old_name @ '' doesn't exist'')), w1)
         | (True, w1) \<Rightarrow>
             (case found (table_provider E cx (en_ref E new_name)) w1 of
                (True, w2) \<Rightarrow> (Inl (Plan (''Target table '' @ new_name @ '' already exists'')), w2)
              | (False, w2) \<Rightarrow> (Inr (L_Extension (X_RenameTable old_name new_name)), w2)))
     | _ \<Rightarrow> lift_res (Inl (Plan ''Unsupported ALTER TABLE statement'')))"

definition plan_create_table ::
    "('ref, 'ls, 'l) engine \<Rightarrow> ('q, 'plan, 'dt, 's, 'l, 'ls) planner \<Rightarrow> (uuid \<Rightarrow> string) \<Rightarrow> 'ls seafowl_context \<Rightarrow>
      'q create_table_sql \<Rightarrow> ('s, 'l, 'ls, 'plan logical_plan) act" where
  "plan_create_table E L us cx ct =
     (case ct_query ct of
        None \<Rightarrow>
          if ct_constraints ct = [] \<and> ct_table_properties ct = [] \<and> ct_with_options ct = [] then
            bind_st (lift_res (build_table_schema (pl_time_zone L) (ct_columns ct))) (\<lambda>schema.
            extension (X_CreateTable schema (pl_show_name L (ct_name ct)) (ct_if_not_exists ct)))
          else unsupported_statement
      | Some input \<Rightarrow>
          bind_st (rewrite_time_travel_query E L us cx input) (\<lambda>input'.
          plan_df L cx (D_Statement (Q_CreateTable (ct\<lparr>ct_query := Some input'\<rparr>)))))"

definition plan_sql_statement ::
    "('ref, 'ls, 'l) engine \<Rightarrow> ('q, 'plan, 'dt, 's, 'l, 'ls) planner \<Rightarrow> (uuid \<Rightarrow> string) \<Rightarrow> 'ls seafowl_context \<Rightarrow>
      'q sql_statement \<Rightarrow> ('s, 'l, 'ls, 'plan logical_plan) act" where
  "plan_sql_statement E L us cx s =
     (case s of
        Q_Query query \<Rightarrow>
          bind_st (rewrite_time_travel_query E L us cx query) (\<lambda>query'.
          plan_df L cx (D_Statement (Q_Query query')))
      | Q_Explain _ \<Rightarrow> plan_df L cx (D_Statement s)
      | Q_ExplainTable _ \<Rightarrow> plan_df L cx (D_Statement s)
      | Q_ShowVariable _ \<Rightarrow> plan_df L cx (D_Statement s)
      | Q_ShowTables _ \<Rightarrow> plan_df L cx (D_Statement s)
      | Q_ShowColumns _ \<Rightarrow> plan_df L cx (D_Statement s)
      | Q_CreateSchema _ \<Rightarrow> plan_df L cx (D_Statement s)
      | Q_CreateView _ \<Rightarrow> plan_df L cx (D_Statement s)
      | Q_CreateDatabase _ \<Rightarrow> plan_df L cx (D_Statement s)
      | Q_Insert into (Some source) \<Rightarrow>
          bind_st (rewrite_time_travel_query E L us cx source) (\<lambda>source'.
          plan_optimized L cx (D_Statement (Q_Insert into (Some source'))))
      | Q_Update target _ \<Rightarrow>
          if ut_is_table target \<and> ut_alias target = None \<and> ut_args target = NoArgs \<and> ut_with_hints target = [] \<and>
             ut_joins target = [] then
            bind_st (pl_statement_to_plan L cx (D_Statement s)) (\<lambda>plan.
            bind_st (lift_res (pl_analyze L plan)) (\<lambda>plan.
            bind_st (lift_res (pl_simplify L plan)) (\<lambda>plan. return_st (L_Plan plan))))
          else unsupported_statement
      | Q_Delete _ \<Rightarrow> plan_optimized L cx (D_Statement s)
      | Q_Drop object_type _ \<Rightarrow>
          if object_type = OT_Table \<or> object_type = OT_Schema then plan_df L cx (D_Statement s) else unsupported_statement
      | Q_CreateTable ct \<Rightarrow> plan_create_table E L us cx ct
      | Q_AlterTable name operations \<Rightarrow> plan_rename E L cx name operations
      | Q_CreateFunction or_replace False name (VSingleQuoted details) \<Rightarrow>
          (case pl_parse_details L details of
             Inl e \<Rightarrow> lift_res (Inl (Execution (''Error parsing UDF details: '' @ e)))
           | Inr parsed \<Rightarrow> extension (X_CreateFunction or_replace (pl_show_name L name) parsed))
      | Q_Truncate name partitions False \<Rightarrow>
          extension (X_Vacuum
            (case partitions of Some [part] \<Rightarrow> Some (ident_value part) | _ \<Rightarrow> None)
            (if partitions = None then Some (pl_show_name L name) else None))
      | Q_Truncate name _ True \<Rightarrow> extension (X_Truncate (pl_show_name L name))
      | Q_DropFunction if_exists func_desc \<Rightarrow> extension (X_DropFunction if_exists (map (pl_show_name L) func_desc))
      | _ \<Rightarrow> unsupported_statement)"

definition create_logical_plan_from_statement ::
    "('ref, 'ls, 'l) engine \<Rightarrow> ('url, 'ls) object_stores \<Rightarrow> ('s, 'f) metastore \<Rightarrow> ('q, 'plan, 'dt, 's, 'l, 'ls) planner \<Rightarrow>
      (uuid \<Rightarrow> string) \<Rightarrow> 'ls seafowl_context \<Rightarrow> 'q df_statement \<Rightarrow> ('s, 'l, 'ls, 'plan logical_plan) act" where
  "create_logical_plan_from_statement E OS M L us cx statement =
     bind_st (reload_schema E OS M cx) (\<lambda>_.
     case statement of
       D_Statement s \<Rightarrow> plan_sql_statement E L us cx s
     | D_CopyTo source target options \<Rightarrow>
         if CONVERT_TO_DELTA \<notin> set options then
           (case source of
              SourceQuery query \<Rightarrow>
                bind_st (rewrite_time_travel_query E L us cx query) (\<lambda>query'.
                plan_df L cx (D_CopyTo (SourceQuery query') target options))
            | SourceRelation _ \<Rightarrow> plan_df L cx statement)
         else (case source of
              SourceRelation name \<Rightarrow> extension (X_ConvertTable target (pl_show_name L name))
            | SourceQuery _ \<Rightarrow> unsupported_statement)
     | D_CreateExternalTable _ \<Rightarrow> plan_df L cx statement
     | D_Explain _ \<Rightarrow> unsupported_statement)"

subsection \<open>A query reads the version that it names\<close>

text \<open>The table that the session has under a name, loaded or not, in a schema of the catalog.\<close>

definition session_table :: "('s, 'l, 'ls) world \<Rightarrow> string \<Rightarrow> string \<Rightarrow> 'ls option" where
  "session_table w n t =
     (case w_schemas w of
        None \<Rightarrow> None
      | Some S \<Rightarrow> (case database_schema S n of Some (Seafowl T) \<Rightarrow> map_option fst (imap_get T t) | _ \<Rightarrow> None))"

definition table_uuid_of :: "('ref, 'ls, 'l) engine \<Rightarrow> 'ls \<Rightarrow> uuid option" where
  "table_uuid_of E ls = (if en_uri_parts E ls = [] then None else en_parse_uuid E (last (en_uri_parts E ls)))"

lemma database_schema_imap_insert:
  "database_schema S n = Some (Seafowl T) \<Longrightarrow>
    database_schema (imap_insert n T' S) m = (if m = n then Some (Seafowl T') else database_schema S m)"
  by (auto simp: database_schema_def imap_simps split: if_splits)

lemma schema_table_keeps:
  "schema_table load t T l = (Inr (Some (ls, T')), l') \<Longrightarrow>
    imap_get T t \<noteq> None \<and> map_option fst (imap_get T t) = Some ls \<and> (\<forall>x. map_option fst (imap_get T' x) = map_option fst (imap_get T x))"
  by (auto simp: schema_table_def bind_st_eq_Inr imap_simps split: option.splits bool.splits)

lemma table_provider_cases:
  assumes "table_provider E cx name w = (x, w')"
  defines "r \<equiv> resolve_table_ref E cx name"
  obtains (delta) S T ls T' l where "rr_catalog r = cx_default_catalog cx" "w_schemas w = Some S"
      "database_schema S (rr_schema r) = Some (Seafowl T)"
      "schema_table (en_load E) (rr_table r) T (w_lake w) = (Inr (Some (ls, T')), l)" "x = Inr (Delta ls)"
      "w' = w\<lparr>w_lake := l, w_schemas := Some (imap_insert (rr_schema r) T' S)\<rparr>"
  | (other) "w_schemas w' = w_schemas w" "\<And>ls. x \<noteq> Inr (Delta ls)"
proof -
  note run = assms(1) [unfolded table_provider_def Let_def, folded r_def]
  show ?thesis
  proof (cases "if rr_catalog r = cx_default_catalog cx then w_schemas w else None")
    case None
    show ?thesis by (rule other) (use run None in auto)
  next
    case (Some S)
    note S = this
    show ?thesis
    proof (cases "\<exists>T. database_schema S (rr_schema r) = Some (Seafowl T)")
      case False
      show ?thesis
        by (rule other) (use run Some False in \<open>auto split: option.splits schema_provider.splits if_splits\<close>)
    next
      case True
      then obtain T where T: "database_schema S (rr_schema r) = Some (Seafowl T)" by blast
      obtain y l where y: "schema_table (en_load E) (rr_table r) T (w_lake w) = (y, l)" by fastforce
      show ?thesis
      proof (cases "\<exists>ls T'. y = Inr (Some (ls, T'))")
        case True
        then show ?thesis using run S T y by (auto intro!: delta split: if_splits)
      next
        case False
        show ?thesis by (rule other) (use run S T y False in \<open>auto split: sum.splits option.splits\<close>)
      qed
    qed
  qed
qed

lemma table_provider_session:
  assumes "table_provider E cx name w = (x, w')"
  shows "session_table w' = session_table w"
  using assms
proof (cases rule: table_provider_cases)
  case (delta S T ls T' l)
  then show ?thesis
    using schema_table_keeps [OF delta(4)] by (auto simp: session_table_def fun_eq_iff database_schema_imap_insert)
qed (simp add: session_table_def fun_eq_iff)

lemma table_provider_lake:
  assumes "table_provider E cx name w = (x, w')" and "\<forall>ls l. snd (en_load E ls l) = l"
  shows "w_lake w' = w_lake w"
proof -
  have "schema_table (en_load E) t T l = (y, l') \<Longrightarrow> l' = l" for t T l y l'
    using assms(2) by (auto simp: schema_table_def bind_st_def split: option.splits bool.splits prod.splits sum.splits)
      (metis snd_conv)+
  then show ?thesis using assms(1)
    by (auto simp: table_provider_def Let_def split: option.splits schema_provider.splits prod.splits sum.splits if_splits)
qed

lemma get_table_uuid_session:
  assumes "get_table_uuid E cx name w = (Inr u, w')" and "\<forall>ls l. snd (en_load E ls l) = l"
  defines "r \<equiv> resolve_table_ref E cx name"
  obtains ls where "session_table w (rr_schema r) (rr_table r) = Some ls" "table_uuid_of E ls = Some u"
    "session_table w' = session_table w" "w_lake w' = w_lake w"
    "rr_catalog r = cx_default_catalog cx" "\<exists>S T. w_schemas w = Some S \<and> database_schema S (rr_schema r) = Some (Seafowl T)"
proof -
  obtain pv w1 where pv: "table_provider E cx name w = (Inr pv, w1)" and rest: "(case pv of
       Foreign \<Rightarrow> lift_res (Inl (Execution ''Couldn't fetch table uuid''))
     | Delta ls \<Rightarrow>
         (if en_uri_parts E ls = [] then lift_res (Inl (Execution ''Failed parsing the uuid suffix''))
          else lift_res (ok_or (Execution ''Failed parsing uuid'') (en_parse_uuid E (last (en_uri_parts E ls)))))) w1 = (Inr u, w')"
    using assms(1) unfolding get_table_uuid_def bind_st_eq_Inr by (elim exE conjE) (rule that)
  obtain ls where p: "table_provider E cx name w = (Inr (Delta ls), w')" and u: "table_uuid_of E ls = Some u"
    using pv rest by (cases pv) (auto simp: table_uuid_of_def ok_or_def split: if_split_asm option.split_asm)
  from p show ?thesis
  proof (cases rule: table_provider_cases)
    case (delta S T ls' T' l)
    show ?thesis
    proof (rule that)
      show "session_table w (rr_schema r) (rr_table r) = Some ls"
        using delta schema_table_keeps [OF delta(4)] by (simp add: session_table_def r_def)
    qed (use u delta table_provider_session [OF p] table_provider_lake [OF p assms(2)] in \<open>auto simp: r_def\<close>)
  next
    case other
    from other(2) [of ls] show ?thesis by simp
  qed
qed

lemma session_table_exist_session:
  assumes "session_table_exist cx r w = (Inr b, w')" and "w_schemas w = Some S" "database_schema S (rr_schema r) = Some (Seafowl T)"
  shows "w' = w \<and> (b \<longleftrightarrow> session_table w (rr_schema r) (rr_table r) \<noteq> None)"
  using assms by (auto simp: session_table_exist_def session_table_def dom_map_of_conv_image_fst [symmetric] dom_def
      split: if_splits option.splits)

lemma session_register_table_session:
  assumes "session_register_table cx r ls w = (Inr x, w')" and "w_schemas w = Some S" "database_schema S (rr_schema r) = Some (Seafowl T)"
  shows "w_lake w' = w_lake w \<and> (\<forall>n t. session_table w' n t = (if n = rr_schema r \<and> t = rr_table r then Some ls else session_table w n t))"
  using assms
  by (auto simp: session_register_table_def schema_register_table_def session_table_def database_schema_imap_insert imap_simps
      split: if_splits option.splits sum.splits)

text \<open>What the code relies on of DataFusion: references that are resolved already stay what they are.\<close>

definition refs_ok :: "('ref, 'ls, 'l) engine \<Rightarrow> bool" where
  "refs_ok E \<longleftrightarrow> (\<forall>r c n. en_resolve E (en_full E r) c n = r)"

text \<open>Reading a table, at its latest version or at an earlier one, leaves the lake as it is.\<close>

definition reads_only :: "('ref, 'ls, 'l) engine \<Rightarrow> ('q, 'plan, 'dt, 's, 'l, 'ls) planner \<Rightarrow> bool" where
  "reads_only E L \<longleftrightarrow> (\<forall>ls l. snd (en_load E ls l) = l) \<and> (\<forall>ls dt l. snd (pl_load_at L ls dt l) = l)"

definition versioned_name :: "resolved_ref \<Rightarrow> string \<Rightarrow> string" where
  "versioned_name r v = rr_table r @ '':'' @ to_ascii_lowercase v"

lemma table_with_version_full: "table_with_version (full_object_name r) v = versioned_name r v"
  by (simp add: table_with_version_def full_object_name_def versioned_name_def)

lemma full_object_name_inject: "full_object_name r = full_object_name r' \<longleftrightarrow> r = r'"
  by (auto simp: full_object_name_def)

text \<open>The table of a version: its table's log store, loaded at the time that the version names.\<close>

definition version_of ::
    "('ref, 'ls, 'l) engine \<Rightarrow> ('q, 'plan, 'dt, 's, 'l, 'ls) planner \<Rightarrow> (uuid \<Rightarrow> string) \<Rightarrow> 'ls seafowl_context \<Rightarrow>
      ('s, 'l, 'ls) world \<Rightarrow> resolved_ref \<Rightarrow> string \<Rightarrow> 'ls \<Rightarrow> bool" where
  "version_of E L us cx w r v p \<longleftrightarrow>
     (\<exists>ls u g dt. session_table w (rr_schema r) (rr_table r) = Some ls \<and> table_uuid_of E ls = Some u \<and> cx_internal cx = Some g \<and>
       version_to_datetime L v = Inr dt \<and> pl_load_at L (g (us u)) dt (w_lake w) = (Inr p, w_lake w))"

lemma register_version_step:
  assumes run: "register_version E L us cx (full_object_name r, v) w = (Inr x, w')"
    and refs: "refs_ok E" and reads: "reads_only E L"
    and shown: "en_resolve E (en_ref E (pl_show_name L (full_object_name r))) (cx_default_catalog cx) (cx_default_schema cx) = r"
  obtains p where "version_of E L us cx w r v p" "w_lake w' = w_lake w"
    "\<And>n t. session_table w' n t =
      (if n = rr_schema r \<and> t = versioned_name r v \<and> session_table w n t = None then Some p else session_table w n t)"
proof -
  have loads: "\<forall>ls l. snd (en_load E ls l) = l" and at: "\<And>ls dt l. snd (pl_load_at L ls dt l) = l"
    using reads by (simp_all add: reads_only_def)
  let ?r = "r\<lparr>rr_table := versioned_name r v\<rparr>"
  have r: "resolve_table_ref E cx (en_full E r) = r" using refs by (simp add: refs_ok_def resolve_table_ref_def)
  obtain u w1 g dt p w2 ex w3 where u: "get_table_uuid E cx (en_full E r) w = (Inr u, w1)" and g: "cx_internal cx = Some g"
    and dt: "version_to_datetime L v = Inr dt" and p: "on_lake (pl_load_at L (g (us u)) dt) w1 = (Inr p, w2)"
    and ex: "session_table_exist cx ?r w2 = (Inr ex, w3)"
    and reg: "(if ex then return_st () else session_register_table cx ?r p) w3 = (Inr x, w')"
    using run unfolding register_version_def prod.case Let_def shown table_with_version_full bind_st_eq_Inr
    by (auto simp: get_internal_object_store_Inr)
  obtain ls where ls: "session_table w (rr_schema r) (rr_table r) = Some ls" "table_uuid_of E ls = Some u"
    "session_table w1 = session_table w" "w_lake w1 = w_lake w"
    by (rule get_table_uuid_session [OF u loads, unfolded r])
  have p': "pl_load_at L (g (us u)) dt (w_lake w) = (Inr p, w_lake w)" and w2: "w2 = w1"
    using p at [of "g (us u)" dt "w_lake w1"] ls(4) by (auto simp: on_lake_def split: prod.splits)
  have st2: "session_table w2 = session_table w" using ls(3) w2 by simp
  obtain S T where S: "w_schemas w2 = Some S" "database_schema S (rr_schema ?r) = Some (Seafowl T)"
    using ls(1) unfolding st2 [symmetric]
    by (auto simp: session_table_def split: option.splits schema_provider.splits)
  note E = session_table_exist_session [OF ex S]
  show ?thesis
  proof (rule that [of p])
    show "version_of E L us cx w r v p" using ls g dt p' by (auto simp: version_of_def)
    show "w_lake w' = w_lake w"
      using reg E ls(4) w2 session_register_table_session [of cx ?r p w2 x w' S T] S by (auto split: if_splits)
    show "session_table w' n t =
      (if n = rr_schema r \<and> t = versioned_name r v \<and> session_table w n t = None then Some p else session_table w n t)" for n t
      using reg E st2 session_register_table_session [of cx ?r p w2 x w' S T] S by (auto split: if_splits)
  qed
qed

lemma register_versions_loop:
  assumes "register_versions E L us cx (map (\<lambda>(r, v). (full_object_name r, v)) rvs) w = (Inr x, w')"
    and refs: "refs_ok E" and reads: "reads_only E L"
    and "\<forall>(r, v)\<in>set rvs. en_resolve E (en_ref E (pl_show_name L (full_object_name r))) (cx_default_catalog cx) (cx_default_schema cx) = r"
  shows "(\<forall>n. session_table w n \<subseteq>\<^sub>m session_table w' n) \<and> w_lake w' = w_lake w \<and>
    (\<forall>n t. session_table w n t = None \<longrightarrow> session_table w' n t \<noteq> None \<longrightarrow>
      (\<exists>(r, v)\<in>set rvs. n = rr_schema r \<and> t = versioned_name r v)) \<and>
    (\<forall>r v ls. (r, v) \<in> set rvs \<longrightarrow> session_table w (rr_schema r) (rr_table r) = Some ls \<longrightarrow>
      session_table w (rr_schema r) (versioned_name r v) = None \<longrightarrow>
      (\<forall>(r', v')\<in>set rvs. rr_schema r' = rr_schema r \<longrightarrow> versioned_name r' v' = versioned_name r v \<longrightarrow> (r', v') = (r, v)) \<longrightarrow>
      (\<exists>p. version_of E L us cx w r v p \<and> session_table w' (rr_schema r) (versioned_name r v) = Some p))"
  using assms(1,4)
proof (induction rvs arbitrary: w)
  case (Cons rv rvs)
  obtain r v where rv: "rv = (r, v)" by fastforce
  obtain w1 where step: "register_version E L us cx (full_object_name r, v) w = (Inr (), w1)"
    and rest: "register_versions E L us cx (map (\<lambda>(r, v). (full_object_name r, v)) rvs) w1 = (Inr x, w')"
    using Cons.prems(1) by (auto simp: rv bind_st_eq_Inr)
  have shown: "en_resolve E (en_ref E (pl_show_name L (full_object_name r))) (cx_default_catalog cx) (cx_default_schema cx) = r"
    using Cons.prems(2) by (simp add: rv)
  obtain p where p: "version_of E L us cx w r v p" and lake: "w_lake w1 = w_lake w"
    and st: "\<And>n t. session_table w1 n t =
      (if n = rr_schema r \<and> t = versioned_name r v \<and> session_table w n t = None then Some p else session_table w n t)"
    by (rule register_version_step [OF step refs reads shown]) blast
  from Cons.prems(2) have "\<forall>(r, v)\<in>set rvs. en_resolve E (en_ref E (pl_show_name L (full_object_name r))) (cx_default_catalog cx) (cx_default_schema cx) = r"
    by simp
  note IH = Cons.IH [OF rest this]
  have le1: "session_table w n \<subseteq>\<^sub>m session_table w1 n" for n using st by (auto simp: map_le_def)
  have le: "session_table w n \<subseteq>\<^sub>m session_table w' n" for n
    by (rule map_le_trans [OF le1]) (use IH in blast)
  have new: "\<exists>(r, v)\<in>set (rv # rvs). n = rr_schema r \<and> t = versioned_name r v"
    if "session_table w n t = None" "session_table w' n t \<noteq> None" for n t
  proof (cases "session_table w1 n t")
    case None
    with that IH show ?thesis by auto
  next
    case (Some q)
    with that st [of n t] show ?thesis by (auto simp: rv split: if_splits)
  qed
  have ver: "\<exists>p. version_of E L us cx w r' v' p \<and> session_table w' (rr_schema r') (versioned_name r' v') = Some p"
    if in': "(r', v') \<in> set (rv # rvs)" and ls: "session_table w (rr_schema r') (rr_table r') = Some ls"
      and fresh: "session_table w (rr_schema r') (versioned_name r' v') = None"
      and uniq: "\<forall>(r2, v2)\<in>set (rv # rvs). rr_schema r2 = rr_schema r' \<longrightarrow> versioned_name r2 v2 = versioned_name r' v' \<longrightarrow> (r2, v2) = (r', v')"
    for r' v' ls
  proof (cases "(r', v') = (r, v)")
    case True
    then have "session_table w1 (rr_schema r') (versioned_name r' v') = Some p" using st fresh by simp
    moreover have "session_table w1 (rr_schema r') \<subseteq>\<^sub>m session_table w' (rr_schema r')" using IH by blast
    ultimately have "session_table w' (rr_schema r') (versioned_name r' v') = Some p" by (auto simp: map_le_def dom_def)
    then show ?thesis using p True by auto
  next
    case False
    then have "session_table w1 (rr_schema r') (versioned_name r' v') = None" using st fresh uniq by (auto simp: rv)
    moreover have ls1: "session_table w1 (rr_schema r') (rr_table r') = Some ls" using st ls by simp
    ultimately have "\<exists>p. version_of E L us cx w1 r' v' p \<and> session_table w' (rr_schema r') (versioned_name r' v') = Some p"
      using IH in' False uniq by (auto simp: rv)
    then show ?thesis using ls ls1 lake by (auto simp: version_of_def)
  qed
  show ?case using le new ver IH lake by (intro conjI allI impI) (assumption | simp | blast)+
qed simp

definition factor_ref ::
    "('ref, 'ls, 'l) engine \<Rightarrow> ('q, 'plan, 'dt, 's, 'l, 'ls) planner \<Rightarrow> string \<Rightarrow> string \<Rightarrow> object_name \<Rightarrow> resolved_ref" where
  "factor_ref E L c n name = en_resolve E (en_ref E (pl_show_name L name)) c n"

fun rewritten_factor ::
    "('ref, 'ls, 'l) engine \<Rightarrow> ('q, 'plan, 'dt, 's, 'l, 'ls) planner \<Rightarrow> string \<Rightarrow> string \<Rightarrow> object_name \<times> table_args \<Rightarrow>
      object_name \<times> table_args" where
  "rewritten_factor E L c n (name, SingleString v) =
     (butlast name @ [with_value (versioned_name (factor_ref E L c n name) v) (last name)], NoArgs)"
| "rewritten_factor E L c n f = f"

lemma visit_factors_spec:
  assumes "visit_factors E L fs p = (Inr fs', p')"
  shows "fs' = map (rewritten_factor E L (vp_default_catalog p) (vp_default_schema p)) fs \<and>
    set (vp_table_versions p') = set (vp_table_versions p) \<union>
      {(full_object_name (factor_ref E L (vp_default_catalog p) (vp_default_schema p) name), v) | name v. (name, SingleString v) \<in> set fs}"
  using assms
proof (induction fs arbitrary: p fs')
  case (Cons f fs)
  obtain f' p1 gs where step: "pre_visit_table_factor E L f p = (Inr f', p1)" "visit_factors E L fs p1 = (Inr gs, p')" "fs' = f' # gs"
    using Cons.prems by (auto simp: bind_st_eq_Inr)
  note IH = Cons.IH [OF step(2)]
  obtain name args where f: "f = (name, args)" by fastforce
  show ?case
  proof (cases args)
    case (SingleString v)
    with step(1) have "f' = rewritten_factor E L (vp_default_catalog p) (vp_default_schema p) f"
      "p1 = p\<lparr>vp_table_versions := List.insert (full_object_name (factor_ref E L (vp_default_catalog p) (vp_default_schema p) name), v)
        (vp_table_versions p)\<rparr>"
      by (simp_all add: pre_visit_table_factor_def f Let_def factor_ref_def table_with_version_full split: if_splits)
    then show ?thesis using IH step(3) by (auto simp: f SingleString)
  qed (use step IH f in \<open>auto simp: pre_visit_table_factor_def\<close>)
qed simp

lemma ex_map_conv_range: "set xs \<subseteq> range f \<Longrightarrow> \<exists>ys. xs = map f ys"
  by (induction xs) (auto, metis list.simps(9))

text \<open>The versions of a query, with the tables they are of.\<close>

definition query_versions ::
    "('ref, 'ls, 'l) engine \<Rightarrow> ('q, 'plan, 'dt, 's, 'l, 'ls) planner \<Rightarrow> 'ls seafowl_context \<Rightarrow> 'q \<Rightarrow> (resolved_ref \<times> string) set" where
  "query_versions E L cx q =
     {(factor_ref E L (cx_default_catalog cx) DEFAULT_SCHEMA name, v) | name v. (name, SingleString v) \<in> set (pl_tables L q)}"

lemma rewrite_time_travel_runs:
  assumes run: "rewrite_time_travel_query E L us cx q w = (Inr q', w')" and order: "\<forall>xs. set (pl_hash_order L xs) = set xs"
  obtains rvs where "register_versions E L us cx (map (\<lambda>(r, v). (full_object_name r, v)) rvs) w = (Inr (), w')"
    "set rvs = query_versions E L cx q"
    "q' = pl_replace L q (map (rewritten_factor E L (cx_default_catalog cx) DEFAULT_SCHEMA) (pl_tables L q))"
proof -
  let ?p = "\<lparr>vp_default_catalog = cx_default_catalog cx, vp_default_schema = DEFAULT_SCHEMA, vp_table_versions = []\<rparr>"
  let ?f = "\<lambda>(r, v :: string). (full_object_name r, v)"
  obtain fs p where visit: "visit_factors E L (pl_tables L q) ?p = (Inr fs, p)" and q': "q' = pl_replace L q fs"
    and reg: "if vp_table_versions p = [] then w' = w
      else register_versions E L us cx (pl_hash_order L (vp_table_versions p)) w = (Inr (), w')"
    using run by (auto simp: rewrite_time_travel_query_def Let_def bind_st_eq_Inr split: prod.splits sum.splits if_splits)
  note V = visit_factors_spec [OF visit, simplified]
  define xs where "xs = (if vp_table_versions p = [] then [] else pl_hash_order L (vp_table_versions p))"
  have xs: "set xs = ?f ` query_versions E L cx q"
    using V order by (auto simp: xs_def query_versions_def image_iff) fastforce+
  then obtain rvs where rvs: "xs = map ?f rvs" using ex_map_conv_range [of xs ?f] by auto
  have "inj ?f" by (auto simp: inj_def full_object_name_inject)
  then have "set rvs = query_versions E L cx q" using xs unfolding rvs by (simp add: inj_image_eq_iff)
  moreover have "register_versions E L us cx (map ?f rvs) w = (Inr (), w')"
    using reg unfolding rvs [symmetric] xs_def by (auto split: if_splits)
  ultimately show ?thesis using V q' by (intro that) auto
qed


text \<open>A table that is neither in the session nor of a schema of its own is not found.\<close>

lemma table_provider_missing:
  assumes "resolve_table_ref E cx name = r" and "session_table w (rr_schema r) (rr_table r) = None"
    and "rr_schema r \<noteq> STAGING_SCHEMA" "rr_schema r \<noteq> SYSTEM_SCHEMA"
  shows "fst (table_provider E cx name w) = Inl (not_found r)"
  using assms
  by (auto simp: table_provider_def session_table_def database_schema_def schema_table_def split: option.splits)

text \<open>
  time travel ignores the default schema of the session. Bare names are looked up in the schema \<open>public\<close> and their
  versions registered there, but DataFusion resolves the rewritten name against the default schema of the session: when this
  is another schema, then after a rewriting that succeeded the version of a bare name is not found.
\<close>
theorem time_travel_ignores_default_schema:
  assumes run: "rewrite_time_travel_query E L us cx q w = (Inr q', w')"
    and refs: "refs_ok E" and reads: "reads_only E L" and order: "\<forall>xs. set (pl_hash_order L xs) = set xs"
    and shown: "\<forall>(r, v)\<in>query_versions E L cx q.
      en_resolve E (en_ref E (pl_show_name L (full_object_name r))) (cx_default_catalog cx) (cx_default_schema cx) = r"
    and bare: "\<forall>(r, v)\<in>query_versions E L cx q. rr_schema r = DEFAULT_SCHEMA"
    and other: "cx_default_schema cx \<notin> {DEFAULT_SCHEMA, STAGING_SCHEMA, SYSTEM_SCHEMA}"
    and ref: "resolve_table_ref E cx ref = r" "rr_schema r = cx_default_schema cx"
    and fresh: "session_table w (rr_schema r) (rr_table r) = None"
  shows "fst (table_provider E cx ref w') = Inl (not_found r)"
proof -
  obtain rvs where reg: "register_versions E L us cx (map (\<lambda>(r, v). (full_object_name r, v)) rvs) w = (Inr (), w')"
    and rvs: "set rvs = query_versions E L cx q"
    by (rule rewrite_time_travel_runs [OF run order])
  note loop = register_versions_loop [OF reg refs reads, unfolded rvs, OF shown]
  have "session_table w' (rr_schema r) (rr_table r) = None"
  proof (rule ccontr)
    assume "session_table w' (rr_schema r) (rr_table r) \<noteq> None"
    with loop fresh obtain r' v' where "(r', v') \<in> query_versions E L cx q" "rr_schema r = rr_schema r'" by blast
    with bare other ref show False by auto
  qed
  then show ?thesis using other ref by (intro table_provider_missing) auto
qed

text \<open>A planner whose queries are lists of table factors, with a reference being its parts.\<close>

fun split_dots :: "string \<Rightarrow> string list" where
  "split_dots [] = [[]]"
| "split_dots (c # cs) = (if c = CHR ''.'' then [] # split_dots cs else (c # hd (split_dots cs)) # tl (split_dots cs))"

fun resolve_parts :: "string list \<Rightarrow> string \<Rightarrow> string \<Rightarrow> resolved_ref" where
  "resolve_parts [t] c n = \<lparr>rr_catalog = c, rr_schema = n, rr_table = t\<rparr>"
| "resolve_parts [s, t] c n = \<lparr>rr_catalog = c, rr_schema = s, rr_table = t\<rparr>"
| "resolve_parts [c', s, t] c n = \<lparr>rr_catalog = c', rr_schema = s, rr_table = t\<rparr>"
| "resolve_parts ps c n = \<lparr>rr_catalog = c, rr_schema = n, rr_table = []\<rparr>"

definition dotted_engine :: "(string list, string, unit) engine" where
  "dotted_engine = \<lparr>en_ref = split_dots, en_full = (\<lambda>r. [rr_catalog r, rr_schema r, rr_table r]),
     en_ref_string = join_dots, en_resolve = resolve_parts, en_load = (\<lambda>_ l. (Inr (), l)),
     en_uri_parts = (\<lambda>ls. [''tables'', ls]), en_parse_uuid = (\<lambda>p. Some (of_nat (read_nat p))),
     en_create_udf = (\<lambda>_ _. Inr ())\<rparr>"

definition list_planner :: "((object_name \<times> table_args) list, string, string, repo_db, unit, string) planner" where
  "list_planner = \<lparr>pl_show_name = (\<lambda>name. join_dots (map ident_value name)), pl_tables = (\<lambda>q. q), pl_replace = (\<lambda>_ fs. fs),
     pl_hash_order = rev, pl_statement_to_plan = (\<lambda>_ _ w. (Inr ''plan'', w)), pl_optimize = Inr, pl_analyze = Inr,
     pl_simplify = Inr, pl_time_zone = Some ''+00:00'', pl_parse_details = (\<lambda>_. Inl ''invalid''),
     pl_rfc3339 = (\<lambda>v. if CHR ''T'' \<in> set v then Some v else None), pl_rfc2822 = (\<lambda>_. None),
     pl_with_offset = (\<lambda>_. None), pl_naive = Some, pl_load_at = (\<lambda>ls dt l. (Inr (ls @ ''@'' @ dt), l))\<rparr>"

definition session_world :: "(repo_db, unit, string) world" where
  "session_world = \<lparr>w_repo = migrated_db 0, w_lake = (), w_schemas = Some [(''public'', [(''t'', ''7'', False)]), (''other'', [(''u'', ''8'', False)])],
     w_staging = [], w_udfs = []\<rparr>"

definition schema_context :: "string \<Rightarrow> string seafowl_context" where
  "schema_context n = \<lparr>cx_default_catalog = ''default'', cx_default_schema = n, cx_internal = Some (\<lambda>p. p)\<rparr>"

lemma dotted_engine_ok: "refs_ok dotted_engine" "reads_only dotted_engine list_planner"
  "set (pl_hash_order list_planner xs) = set xs" "pl_tables list_planner (pl_replace list_planner q fs) = fs"
  by (simp_all add: refs_ok_def reads_only_def dotted_engine_def list_planner_def)

definition example_query :: "(object_name \<times> table_args) list" where
  "example_query = [([Ident ''t'' None], SingleString ''2022-01-01 20:01:01''), ([Ident ''other'' None, Ident ''u'' None], NoArgs)]"

lemma query_versions_example:
  "query_versions dotted_engine list_planner (schema_context n) example_query =
    {(\<lparr>rr_catalog = ''default'', rr_schema = ''public'', rr_table = ''t''\<rparr>, ''2022-01-01 20:01:01'')}"
  by (auto simp: query_versions_def example_query_def list_planner_def factor_ref_def dotted_engine_def schema_context_def DEFAULT_SCHEMA_def)

lemma shown_example:
  "\<forall>(r, v)\<in>query_versions dotted_engine list_planner (schema_context n) example_query.
    en_resolve dotted_engine (en_ref dotted_engine (pl_show_name list_planner (full_object_name r)))
      (cx_default_catalog (schema_context n)) (cx_default_schema (schema_context n)) = r \<and> rr_schema r = DEFAULT_SCHEMA"
  unfolding query_versions_example
  by (simp add: dotted_engine_def list_planner_def schema_context_def full_object_name_def DEFAULT_SCHEMA_def)


lemma time_travel_ignores_default_schema_witness:
  "\<exists>q' w'. rewrite_time_travel_query dotted_engine list_planner uuid_text (schema_context ''other'') example_query session_world = (Inr q', w') \<and>
    ([Ident ''t:2022-01-01 20:01:01'' None], NoArgs) \<in> set q' \<and>
    fst (table_provider dotted_engine (schema_context ''other'') [''t:2022-01-01 20:01:01''] w') =
      Inl (not_found \<lparr>rr_catalog = ''default'', rr_schema = ''other'', rr_table = ''t:2022-01-01 20:01:01''\<rparr>)"
proof -
  let ?x = "rewrite_time_travel_query dotted_engine list_planner uuid_text (schema_context ''other'') example_query session_world"
  have ok: "case fst ?x of Inr q \<Rightarrow> ([Ident ''t:2022-01-01 20:01:01'' None], NoArgs) \<in> set q | Inl _ \<Rightarrow> False" by code_simp
  then obtain q' w' where run: "?x = (Inr q', w')" by (cases ?x) (auto split: sum.splits)
  have ref: "resolve_table_ref dotted_engine (schema_context ''other'') [''t:2022-01-01 20:01:01''] =
      \<lparr>rr_catalog = ''default'', rr_schema = ''other'', rr_table = ''t:2022-01-01 20:01:01''\<rparr>" by code_simp
  have "fst (table_provider dotted_engine (schema_context ''other'') [''t:2022-01-01 20:01:01''] w') =
      Inl (not_found \<lparr>rr_catalog = ''default'', rr_schema = ''other'', rr_table = ''t:2022-01-01 20:01:01''\<rparr>)"
    by (rule time_travel_ignores_default_schema [OF run dotted_engine_ok(1,2) _ _ _ _ ref])
      (use shown_example [of "''other''"] in \<open>auto simp: dotted_engine_ok schema_context_def
        DEFAULT_SCHEMA_def STAGING_SCHEMA_def SYSTEM_SCHEMA_def session_table_def session_world_def database_schema_def\<close>)
  then show ?thesis using run ok by auto
qed

subsection \<open>From the text of a statement to its plan\<close>

text \<open>
  The tree of a parsed statement: the parser carries what sqlparser itself has parsed as its text, of which
  \<open>tree\<close> and \<open>query_tree\<close> are the statement and the query.
\<close>

fun statement_of :: "(string \<Rightarrow> 'q sql_statement) \<Rightarrow> (string \<Rightarrow> 'q) \<Rightarrow> parsed_statement \<Rightarrow> 'q df_statement" where
  "statement_of tree query_tree (SqlStatement (Truncate name partitions table)) = D_Statement (Q_Truncate name partitions table)"
| "statement_of tree query_tree (SqlStatement (CreateFunction or_replace temporary name body)) =
     D_Statement (Q_CreateFunction or_replace temporary name body)"
| "statement_of tree query_tree (SqlStatement (Native text)) = D_Statement (tree text)"
| "statement_of tree query_tree (CopyTo c) =
     D_CopyTo (case cp_source c of CopyQuery q \<Rightarrow> SourceQuery (query_tree q) | CopyRelation n \<Rightarrow> SourceRelation n) (cp_target c) (cp_options c)"
| "statement_of tree query_tree (ExternalTable x) = D_CreateExternalTable x"

lemma own_statement_parses:
  "parse_vacuum P p = (Inr s, p') \<Longrightarrow>
    (\<exists>name. s = SqlStatement (Truncate name None False)) \<or> (\<exists>i. s = SqlStatement (Truncate [] (Some [i]) False))"
  "parse_truncate P p = (Inr s, p') \<Longrightarrow> \<exists>name. s = SqlStatement (Truncate name None True)"
  "parse_convert P p = (Inr s, p') \<Longrightarrow> \<exists>name location.
    s = CopyTo \<lparr>cp_source = CopyRelation name, cp_target = location, cp_options = [CONVERT_TO_DELTA]\<rparr>"
proof -
  show "parse_vacuum P p = (Inr s, p') \<Longrightarrow>
    (\<exists>name. s = SqlStatement (Truncate name None False)) \<or> (\<exists>i. s = SqlStatement (Truncate [] (Some [i]) False))"
    unfolding parse_vacuum_def bind_st_eq_Inr
    by (elim exE conjE, split if_split_asm)
      (auto simp: bind_st_eq_Inr expected_here_def expected_def parser_err_def fail_def neq_Nil_conv split: if_split_asm list.split_asm)
qed (auto simp: parse_truncate_def parse_convert_def bind_st_eq_Inr expected_here_def expected_def parser_err_def
      fail_def split: if_splits)

lemma plan_after_reload:
  assumes "reload_schema E OS M cx w = (Inr u, w')"
  shows "create_logical_plan_from_statement E OS M L us cx (D_Statement s) w = plan_sql_statement E L us cx s w'"
    and "create_logical_plan_from_statement E OS M L us cx (D_CopyTo (SourceRelation n) location [CONVERT_TO_DELTA]) w =
      (Inr (L_Extension (X_ConvertTable location (pl_show_name L n))), w')"
  using assms by (simp_all add: create_logical_plan_from_statement_def bind_st_def extension_def)

text \<open>
  Seafowl's own statements are planned as what they say. A \<open>VACUUM\<close> that parses is planned as the vacuum of the
  table that was named or of the database that was named, never both and never neither; \<open>TRUNCATE TABLE\<close> as the truncation of
  the named table; \<open>CONVERT ... TO DELTA\<close> as the conversion of the location into the named table. Planning changes
  nothing but what reloading the schema does.
\<close>
theorem own_statements_planned:
  assumes reload: "reload_schema E OS M cx w = (Inr u, w')"
  shows "parse_vacuum P p = (Inr s, p') \<Longrightarrow> \<exists>node. create_logical_plan_from_statement E OS M L us cx (statement_of tree query_tree s) w =
        (Inr (L_Extension node), w') \<and>
      ((\<exists>name. s = SqlStatement (Truncate name None False) \<and> node = X_Vacuum None (Some (pl_show_name L name))) \<or>
       (\<exists>i. s = SqlStatement (Truncate [] (Some [i]) False) \<and> node = X_Vacuum (Some (ident_value i)) None))"
    and "parse_truncate P p = (Inr s, p') \<Longrightarrow> \<exists>name. s = SqlStatement (Truncate name None True) \<and>
      create_logical_plan_from_statement E OS M L us cx (statement_of tree query_tree s) w =
        (Inr (L_Extension (X_Truncate (pl_show_name L name))), w')"
    and "parse_convert P p = (Inr s, p') \<Longrightarrow> \<exists>name location. s = CopyTo \<lparr>cp_source = CopyRelation name, cp_target = location,
        cp_options = [CONVERT_TO_DELTA]\<rparr> \<and>
      create_logical_plan_from_statement E OS M L us cx (statement_of tree query_tree s) w =
        (Inr (L_Extension (X_ConvertTable location (pl_show_name L name))), w')"
  using own_statement_parses [of P p s p']
  by (auto simp: plan_after_reload [OF reload] plan_sql_statement_def extension_def)

subsection \<open>Renaming a table\<close>

lemma found_table_provider:
  assumes "resolve_table_ref E cx name = r" "rr_catalog r = cx_default_catalog cx" "rr_schema r \<noteq> STAGING_SCHEMA" "rr_schema r \<noteq> SYSTEM_SCHEMA"
    and load: "\<And>ls l. en_load E ls l = (Inr (), l)" and run: "found (table_provider E cx name) w = (b, w')"
  shows "(b \<longleftrightarrow> session_table w (rr_schema r) (rr_table r) \<noteq> None) \<and> session_table w' = session_table w \<and> w_repo w' = w_repo w"
proof -
  obtain x where x: "table_provider E cx name w = (x, w')" "b = is_ok x" using run by (auto simp: found_def split: prod.splits)
  have "is_ok x \<longleftrightarrow> session_table w (rr_schema r) (rr_table r) \<noteq> None"
    using x(1) assms(1-4) load
    by (auto simp: table_provider_def session_table_def database_schema_def schema_table_def bind_st_def split: option.splits bool.splits)
  then show ?thesis using x table_provider_session [OF x(1)] table_provider_repo [OF x(1)] by simp
qed

lemma reload_session_tables:
  assumes "repo_reachable d to_json (w_repo w)" and store: "internal_store OS E us"
    and reload: "reload_schema E OS (new_from_repository us J (default_repository d to_json encode)) cx w = (Inr u, w')"
    and "n \<noteq> STAGING_SCHEMA" "n \<noteq> SYSTEM_SCHEMA"
  shows "w_repo w' = w_repo w \<and> (session_table w' n t = None \<longleftrightarrow> nm_tables (repo_names (w_repo w)) (cx_default_catalog cx, n, t) = None)"
proof -
  define mk where "mk = (\<lambda>p. the (os_default OS p))"
  have mk: "os_default OS p = Some (mk p)" for p using store by (auto simp: internal_store_def mk_def dest!: spec [of _ p])
  show ?thesis
  proof (rule reload_schema_names [OF assms(1) mk reload])
    fix S
    assume S: "w_schemas w' = Some S" "w_repo w' = w_repo w"
      and none: "\<And>n. imap_get S n = None \<longleftrightarrow> (cx_default_catalog cx, n) \<notin> nm_schemas (repo_names (w_repo w))"
      and tabs: "\<And>n tables t. imap_get S n = Some tables \<Longrightarrow>
        imap_get tables t = map_option (\<lambda>u. (mk (us u), False)) (nm_tables (repo_names (w_repo w)) (cx_default_catalog cx, n, t))"
    show ?thesis
    proof (cases "imap_get S n")
      case None
      then have "nm_tables (repo_names (w_repo w)) (cx_default_catalog cx, n, t) = None"
        using none [of n] by (auto simp: names_of_def split: option.splits)
      with None S assms(4,5) show ?thesis by (simp add: session_table_def database_schema_def)
    next
      case (Some T)
      with S assms(4,5) tabs [OF Some] show ?thesis by (simp add: session_table_def database_schema_def)
    qed
  qed
qed


end
