(* ===== verification/ObjectStores.thy ===== *)
theory ObjectStores
  imports Context
begin

text \<open>
  Object stores and their configuration (\<open>object_store_factory/src\<close>, \<open>src/object_store/factory.rs\<close>,
  \<open>src/object_store/wrapped.rs\<close>): the configurations and the option maps they are exchanged as, the construction of a store from
  a URL and options, the factory with its stores, and the internal store, which gives every table a place of its own
  and overrides some operations of the store it wraps. The clients of the stores and the reading of URLs and of the
  names of options are parameters.
\<close>

subsection \<open>Configurations\<close>

type_synonym options = "(string, string) imap"

datatype os_error = OsGeneric string string | OsPanic string

record S3Config =
  s3_region :: "string option"
  s3_access_key_id :: "string option"
  s3_secret_access_key :: "string option"
  s3_session_token :: "string option"
  s3_endpoint :: "string option"
  s3_bucket :: string
  s3_prefix :: "string option"
  s3_allow_http :: bool
  s3_skip_signature :: bool

record GCSConfig =
  gcs_bucket :: string
  gcs_prefix :: "string option"
  gcs_google_application_credentials :: "string option"

record LocalConfig =
  lc_data_dir :: string
  lc_disable_hardlinks :: bool

datatype ObjectStoreConfig = Local LocalConfig | InMemory | AmazonS3 S3Config | GoogleCloudStorage GCSConfig

text \<open>The keys of object_store's options; \<open>as_ref\<close> and \<open>from_str\<close> are its functions.\<close>

datatype s3_key =
    S3AccessKeyId | S3SecretAccessKey | S3Region | S3Token | S3Endpoint | S3Bucket | S3AllowHttp | S3SkipSignature
  | S3ConditionalPut | S3OtherKey string

datatype gcs_key = GcsBucket | GcsApplicationCredentials | GcsServiceAccount | GcsOtherKey string

record 'k option_keys =
  ok_as_ref :: "'k \<Rightarrow> string"
  ok_from_str :: "string \<Rightarrow> (os_error, 'k) result"

definition bool_str :: "bool \<Rightarrow> string" where
  "bool_str b = (if b then ''true'' else ''false'')"

text \<open>\<open>map(|s| s != "false").unwrap_or(true)\<close>\<close>

definition not_false :: "string option \<Rightarrow> bool" where
  "not_false v = (case v of Some s \<Rightarrow> s \<noteq> ''false'' | None \<Rightarrow> True)"

definition unwrap :: "'a option \<Rightarrow> (os_error, 'a) result" where
  "unwrap v = ok_or (OsPanic ''called `Option::unwrap()` on a `None` value'') v"

definition s3_from_hashmap :: "options \<Rightarrow> (os_error, S3Config) result" where
  "s3_from_hashmap m =
     bind_res (unwrap (imap_get m ''bucket'')) (\<lambda>bucket.
       Inr \<lparr>s3_region = imap_get m ''region'', s3_access_key_id = imap_get m ''access_key_id'',
         s3_secret_access_key = imap_get m ''secret_access_key'', s3_session_token = imap_get m ''session_token'',
         s3_endpoint = imap_get m ''endpoint'', s3_bucket = bucket, s3_prefix = imap_get m ''prefix'',
         s3_allow_http = not_false (imap_get m ''allow_http''), s3_skip_signature = not_false (imap_get m ''skip_signature'')\<rparr>)"

text \<open>Removing options one after the other.\<close>

fun remove_keys :: "string list \<Rightarrow> options \<Rightarrow> options" where
  "remove_keys [] m = m"
| "remove_keys (k # ks) m = remove_keys ks (imap_shift_remove k m)"

definition s3_from_bucket_and_options :: "string \<Rightarrow> options \<Rightarrow> S3Config \<times> options" where
  "s3_from_bucket_and_options bucket m =
     (\<lparr>s3_region = imap_get m ''format.region'', s3_access_key_id = imap_get m ''format.access_key_id'',
        s3_secret_access_key = imap_get m ''format.secret_access_key'', s3_session_token = imap_get m ''format.session_token'',
        s3_endpoint = imap_get m ''format.endpoint'', s3_bucket = bucket, s3_prefix = None,
        s3_allow_http = not_false (imap_get m ''format.allow_http''),
        s3_skip_signature = not_false (imap_get m ''format.skip_signature'')\<rparr>,
      remove_keys [''format.region'', ''format.access_key_id'', ''format.secret_access_key'', ''format.session_token'',
        ''format.endpoint'', ''format.allow_http'', ''format.skip_signature''] m)"

definition insert_some :: "string \<Rightarrow> string option \<Rightarrow> options \<Rightarrow> options" where
  "insert_some k v m = (case v of Some s \<Rightarrow> imap_insert k s m | None \<Rightarrow> m)"

definition s3_to_hashmap :: "s3_key option_keys \<Rightarrow> S3Config \<Rightarrow> options" where
  "s3_to_hashmap K c =
     imap_insert (ok_as_ref K S3SkipSignature) (bool_str (s3_skip_signature c))
     (imap_insert (ok_as_ref K S3AllowHttp) (bool_str (s3_allow_http c))
     (insert_some (ok_as_ref K S3Endpoint) (s3_endpoint c)
     (insert_some (ok_as_ref K S3Token) (s3_session_token c)
     (insert_some (ok_as_ref K S3SecretAccessKey) (s3_secret_access_key c)
     (insert_some (ok_as_ref K S3AccessKeyId) (s3_access_key_id c)
     (insert_some (ok_as_ref K S3Region) (s3_region c) []))))))"

text \<open>What \<open>build_amazon_s3\<close> sets on the builder, in turn; the build itself is the client's.\<close>

datatype s3_setting =
    SetRegion string | SetBucket string | SetAllowHttp bool | SetConditionalPut | SetEndpoint string
  | SetAccessKeyId string | SetSecretAccessKey string | SetToken string | SetSkipSignature bool

definition build_amazon_s3 :: "(s3_setting list \<Rightarrow> (os_error, 'store) result) \<Rightarrow> S3Config \<Rightarrow> (os_error, 'store) result" where
  "build_amazon_s3 build c =
     (let builder = [SetRegion (case s3_region c of Some r \<Rightarrow> r | None \<Rightarrow> []), SetBucket (s3_bucket c), SetAllowHttp (s3_allow_http c),
            SetConditionalPut] @ (case s3_endpoint c of Some e \<Rightarrow> [SetEndpoint e] | None \<Rightarrow> []) in
      case (s3_access_key_id c, s3_secret_access_key c) of
        (Some access_key_id, Some secret_access_key) \<Rightarrow>
          build (builder @ [SetAccessKeyId access_key_id, SetSecretAccessKey secret_access_key] @
            (case s3_session_token c of Some token \<Rightarrow> [SetToken token] | None \<Rightarrow> []))
      | _ \<Rightarrow>
          if \<not> s3_skip_signature c
          then Inl (OsPanic ''Access key and secret key must be provided if skip_signature is false'')
          else build (builder @ [SetSkipSignature (s3_skip_signature c)]))"

definition gcs_from_hashmap :: "options \<Rightarrow> (os_error, GCSConfig) result" where
  "gcs_from_hashmap m =
     bind_res (unwrap (imap_get m ''bucket'')) (\<lambda>bucket.
       Inr \<lparr>gcs_bucket = bucket, gcs_prefix = imap_get m ''prefix'',
         gcs_google_application_credentials = imap_get m ''google_application_credentials''\<rparr>)"

definition gcs_from_bucket_and_options :: "string \<Rightarrow> options \<Rightarrow> GCSConfig \<times> options" where
  "gcs_from_bucket_and_options bucket m =
     (\<lparr>gcs_bucket = bucket, gcs_prefix = None,
        gcs_google_application_credentials = imap_get m ''format.google_application_credentials''\<rparr>,
      remove_keys [''format.google_application_credentials''] m)"

definition gcs_to_hashmap :: "gcs_key option_keys \<Rightarrow> GCSConfig \<Rightarrow> options" where
  "gcs_to_hashmap K c =
     insert_some (ok_as_ref K GcsApplicationCredentials) (gcs_google_application_credentials c)
     (insert_some ''prefix'' (gcs_prefix c)
     (imap_insert (ok_as_ref K GcsBucket) (gcs_bucket c) []))"

datatype gcs_setting = SetBucketName string | SetServiceAccountPath string

definition build_google_cloud_storage ::
    "(gcs_setting list \<Rightarrow> (os_error, 'store) result) \<Rightarrow> GCSConfig \<Rightarrow> (os_error, 'store) result" where
  "build_google_cloud_storage build c =
     build (SetBucketName (gcs_bucket c) #
       (case gcs_google_application_credentials c of Some path \<Rightarrow> [SetServiceAccountPath path] | None \<Rightarrow> []))"

definition local_from_hashmap :: "options \<Rightarrow> (os_error, LocalConfig) result" where
  "local_from_hashmap m =
     bind_res (ok_or (OsGeneric ''local'' ''Missing data_dir'') (imap_get m ''data_dir'')) (\<lambda>data_dir.
       Inr \<lparr>lc_data_dir = data_dir,
         lc_disable_hardlinks = (case imap_get m ''disable_hardlinks'' of Some s \<Rightarrow> s = ''true'' | None \<Rightarrow> False)\<rparr>)"

definition local_to_hashmap :: "LocalConfig \<Rightarrow> options" where
  "local_to_hashmap c =
     imap_insert ''disable_hardlinks'' (bool_str (lc_disable_hardlinks c)) (imap_insert ''data_dir'' (lc_data_dir c) [])"

definition config_to_hashmap :: "s3_key option_keys \<Rightarrow> gcs_key option_keys \<Rightarrow> ObjectStoreConfig \<Rightarrow> options" where
  "config_to_hashmap K G cfg =
     (case cfg of
        Local c \<Rightarrow> local_to_hashmap c
      | AmazonS3 c \<Rightarrow> s3_to_hashmap K c
      | GoogleCloudStorage c \<Rightarrow> gcs_to_hashmap G c
      | InMemory \<Rightarrow> [])"

text \<open>The constructors of the stores.\<close>

record 'store clients =
  cl_memory :: 'store
  cl_local :: "string \<Rightarrow> (os_error, 'store) result"
  cl_s3 :: "s3_setting list \<Rightarrow> (os_error, 'store) result"
  cl_gcs :: "gcs_setting list \<Rightarrow> (os_error, 'store) result"
  cl_prefixed :: "'store \<Rightarrow> string \<Rightarrow> 'store"
  cl_cached :: "'store \<Rightarrow> 'store" \<comment> \<open>\<open>CachingObjectStore::new_from_config\<close>\<close>

definition config_build_object_store :: "'store clients \<Rightarrow> ObjectStoreConfig \<Rightarrow> (os_error, 'store) result" where
  "config_build_object_store C cfg =
     (case cfg of
        InMemory \<Rightarrow> Inr (cl_memory C)
      | Local c \<Rightarrow> cl_local C (lc_data_dir c)
      | AmazonS3 c \<Rightarrow> build_amazon_s3 (cl_s3 C) c
      | GoogleCloudStorage c \<Rightarrow> build_google_cloud_storage (cl_gcs C) c)"

record 'store StorageLocationInfo =
  sl_object_store :: 'store
  sl_options :: options
  sl_url :: string

definition build_storage_location_info ::
    "s3_key option_keys \<Rightarrow> gcs_key option_keys \<Rightarrow> 'store clients \<Rightarrow> ObjectStoreConfig \<Rightarrow> (os_error, 'store StorageLocationInfo) result" where
  "build_storage_location_info K G C cfg =
     (case cfg of
        AmazonS3 c \<Rightarrow>
          bind_res (build_amazon_s3 (cl_s3 C) c) (\<lambda>store.
            Inr \<lparr>sl_object_store = store, sl_options = s3_to_hashmap K c, sl_url = ''s3://'' @ s3_bucket c\<rparr>)
      | GoogleCloudStorage c \<Rightarrow>
          bind_res (build_google_cloud_storage (cl_gcs C) c) (\<lambda>store.
            Inr \<lparr>sl_object_store = store, sl_options = gcs_to_hashmap G c, sl_url = ''gs://'' @ gcs_bucket c\<rparr>)
      | _ \<Rightarrow> Inl (OsPanic ''not implemented''))"

definition get_base_url :: "ObjectStoreConfig \<Rightarrow> string option" where
  "get_base_url cfg = (case cfg of AmazonS3 c \<Rightarrow> s3_prefix c | GoogleCloudStorage c \<Rightarrow> gcs_prefix c | _ \<Rightarrow> None)"

definition get_allow_http :: "ObjectStoreConfig \<Rightarrow> (os_error, bool) result" where
  "get_allow_http cfg =
     (case cfg of AmazonS3 c \<Rightarrow> Inr (s3_allow_http c)
      | _ \<Rightarrow> Inl (OsGeneric ''unsupported_object_store'' ''Only Amazon S3 is supported''))"


subsection \<open>A store from a URL and options\<close>

text \<open>The pairs in the order in which the map gives them.\<close>

fun map_options_into_keys :: "'k option_keys \<Rightarrow> options \<Rightarrow> ('k, string) imap \<Rightarrow> (os_error, ('k, string) imap) result" where
  "map_options_into_keys K [] mapped_keys = Inr mapped_keys"
| "map_options_into_keys K ((key, val) # rest) mapped_keys =
     (case ok_from_str K key of
        Inr config_key \<Rightarrow> map_options_into_keys K rest (imap_insert config_key val mapped_keys)
      | Inl err \<Rightarrow> Inl err)"

record 'url url_parts =
  up_scheme :: "'url \<Rightarrow> string"
  up_host :: "'url \<Rightarrow> string option"
  up_path :: "'url \<Rightarrow> string"
  up_join :: "'url \<Rightarrow> string \<Rightarrow> (os_error, 'url) result"

definition detect_region :: "'url url_parts \<Rightarrow> (string \<Rightarrow> (os_error, string) result) \<Rightarrow> 'url \<Rightarrow> (os_error, string) result" where
  "detect_region U resolve_bucket_region url =
     bind_res (ok_or (OsGeneric ''parse_url'' ''Could not find a bucket in S3 path'') (up_host U url)) resolve_bucket_region"

definition add_amazon_s3_specific_options ::
    "'url url_parts \<Rightarrow> (string \<Rightarrow> (os_error, string) result) \<Rightarrow> 'url \<Rightarrow> (s3_key, string) imap \<Rightarrow> (os_error, (s3_key, string) imap) result" where
  "add_amazon_s3_specific_options U resolve_bucket_region url options =
     bind_res (if imap_get options S3Bucket = None \<and> imap_get options S3Endpoint = None
       then (case detect_region U resolve_bucket_region url of
           Inl _ \<Rightarrow> Inl (OsPanic ''called `Result::unwrap()` on an `Err` value'')
         | Inr region \<Rightarrow> Inr (imap_insert S3Region region options))
       else Inr options) (\<lambda>options.
     Inr (if imap_get options S3ConditionalPut = None then imap_insert S3ConditionalPut ''etag'' options else options))"

text \<open>The environment as its pairs of valid strings.\<close>

fun add_environment :: "'k option_keys \<Rightarrow> string \<Rightarrow> (string \<times> string) list \<Rightarrow> ('k, string) imap \<Rightarrow> ('k, string) imap" where
  "add_environment K start [] options = options"
| "add_environment K start ((key, val) # rest) options =
     add_environment K start rest
       (if take (length start) key = start then
          (case ok_from_str K (to_ascii_lowercase key) of
             Inr config_key \<Rightarrow> imap_insert config_key val options
           | Inl _ \<Rightarrow> options)
        else options)"

definition add_amazon_s3_environment_variables ::
    "s3_key option_keys \<Rightarrow> (string \<times> string) list \<Rightarrow> (s3_key, string) imap \<Rightarrow> (s3_key, string) imap" where
  "add_amazon_s3_environment_variables K env options =
     (let options = add_environment K ''AWS_'' env options in
      if map_of env (to_ascii_uppercase (ok_as_ref K S3AllowHttp)) = Some ''true''
      then imap_insert S3AllowHttp ''true'' options else options)"

definition add_google_cloud_storage_environment_variables ::
    "gcs_key option_keys \<Rightarrow> (string \<times> string) list \<Rightarrow> (gcs_key, string) imap \<Rightarrow> (gcs_key, string) imap" where
  "add_google_cloud_storage_environment_variables G env options =
     add_environment G ''GOOGLE_'' env
       (case map_of env ''SERVICE_ACCOUNT'' of
          Some service_account_path \<Rightarrow> imap_insert GcsServiceAccount service_account_path options
        | None \<Rightarrow> options)"

datatype store_scheme = SchemeMemory | SchemeLocal | SchemeS3 | SchemeGcs | SchemeOther

text \<open>\<open>parse_scheme\<close> is \<open>ObjectStoreScheme::parse\<close>, \<open>parse_s3\<close> and \<open>parse_gcs\<close> are \<open>parse_url_opts\<close>.\<close>

record ('url, 'store) url_clients =
  uc_parse_scheme :: "'url \<Rightarrow> (os_error, store_scheme) result"
  uc_parse_s3 :: "'url \<Rightarrow> (s3_key, string) imap \<Rightarrow> (os_error, 'store) result"
  uc_parse_gcs :: "'url \<Rightarrow> (gcs_key, string) imap \<Rightarrow> (os_error, 'store) result"
  uc_resolve_bucket_region :: "string \<Rightarrow> (os_error, string) result"

definition build_object_store_from_opts ::
    "'url url_parts \<Rightarrow> ('url, 'store) url_clients \<Rightarrow> 'store clients \<Rightarrow> s3_key option_keys \<Rightarrow> gcs_key option_keys \<Rightarrow>
      (string \<times> string) list \<Rightarrow> 'url \<Rightarrow> options \<Rightarrow> (os_error, 'store) result" where
  "build_object_store_from_opts U UC C K G env url options =
     (case uc_parse_scheme UC url of
        Inl _ \<Rightarrow> Inl (OsPanic ''called `Result::unwrap()` on an `Err` value'')
      | Inr scheme \<Rightarrow>
          (case scheme of
             SchemeMemory \<Rightarrow> Inr (if up_path U url \<noteq> [] then cl_prefixed C (cl_memory C) (up_path U url) else cl_memory C)
           | SchemeLocal \<Rightarrow> cl_local C (up_path U url)
           | SchemeS3 \<Rightarrow>
               bind_res (map_options_into_keys K options []) (\<lambda>s3_options.
               bind_res (add_amazon_s3_specific_options U (uc_resolve_bucket_region UC) url s3_options) (\<lambda>s3_options.
               uc_parse_s3 UC url (add_amazon_s3_environment_variables K env s3_options)))
           | SchemeGcs \<Rightarrow>
               bind_res (map_options_into_keys G options []) (\<lambda>gcs_options.
               uc_parse_gcs UC url (add_google_cloud_storage_environment_variables G env gcs_options))
           | SchemeOther \<Rightarrow> Inl (OsGeneric ''unsupported_url_scheme'' ''Unsupported URL scheme'')))"


subsection \<open>The factory\<close>

definition build_object_store :: "'store clients \<Rightarrow> ObjectStoreConfig \<Rightarrow> bool \<Rightarrow> (os_error, 'store) result" where
  "build_object_store C cfg cache_properties =
     bind_res (config_build_object_store C cfg) (\<lambda>store.
       Inr (case cfg of Local _ \<Rightarrow> store | InMemory \<Rightarrow> store | _ \<Rightarrow> if cache_properties then cl_cached C store else store))"

text \<open>
  \<open>custom_stores\<close> is keyed by the URL and the options, which are equal as maps. The log store is the store, its prefix
  and its URL.
\<close>

record ('url, 'store) log_store =
  ls_store :: 'store
  ls_prefix :: string
  ls_root :: 'url

record ('url, 'store) store_factory =
  sf_custom_stores :: "(('url \<times> (string \<Rightarrow> string option)) \<times> 'store) list"
  sf_object_store_cache :: bool

definition get_log_store_for_table ::
    "'url url_parts \<Rightarrow> ('url, 'store) url_clients \<Rightarrow> 'store clients \<Rightarrow> s3_key option_keys \<Rightarrow> gcs_key option_keys \<Rightarrow>
      (string \<times> string) list \<Rightarrow> 'url \<Rightarrow> options \<Rightarrow> string \<Rightarrow> (('url, 'store) store_factory, os_error, ('url, 'store) log_store) st" where
  "get_log_store_for_table U UC C K G env url options table_path =
     bind_st (\<lambda>f.
       let key = (url, map_of options) in
       case map_of (sf_custom_stores f) key of
         Some store \<Rightarrow> (Inr store, f)
       | None \<Rightarrow>
           (case build_object_store_from_opts U UC C K G env url options of
              Inl e \<Rightarrow> (Inl e, f)
            | Inr store \<Rightarrow>
                let store = (if \<not> (up_scheme U url = ''file'' \<or> up_scheme U url = ''memory'') \<and> sf_object_store_cache f
                  then cl_cached C store else store) in
                (Inr store, f\<lparr>sf_custom_stores := (key, store) # sf_custom_stores f\<rparr>))) (\<lambda>store.
     bind_st (lift_res (case up_join U url table_path of
         Inl e \<Rightarrow> Inl (OsGeneric ''object_store_factory'' ''invalid URL'')
       | Inr root \<Rightarrow> Inr root)) (\<lambda>root.
     return_st \<lparr>ls_store = cl_prefixed C store table_path, ls_prefix = table_path, ls_root = root\<rparr>))"

subsection \<open>The internal store\<close>

text \<open>What the code uses of the \<open>url\<close> crate and of the file system.\<close>

record 'url url_ops =
  uo_parse :: "string \<Rightarrow> (os_error, 'url) result"
  uo_directory :: "string \<Rightarrow> (os_error, 'url) result" \<comment> \<open>the URL of the canonical path of a directory\<close>
  uo_path :: "'url \<Rightarrow> string"
  uo_set_path :: "'url \<Rightarrow> string \<Rightarrow> 'url"
  uo_join :: "'url \<Rightarrow> string \<Rightarrow> (os_error, 'url) result"

record ('url, 'store) InternalObjectStore =
  is_inner :: 'store
  is_root_uri :: 'url
  is_config :: ObjectStoreConfig

definition with_prefix :: "string \<Rightarrow> string option \<Rightarrow> string" where
  "with_prefix base_url prefix = (case prefix of Some p \<Rightarrow> base_url @ ''/'' @ p | None \<Rightarrow> base_url)"

definition unwrap_ok :: "(os_error, 'a) result \<Rightarrow> (os_error, 'a) result" where
  "unwrap_ok r = map_err (\<lambda>_. OsPanic ''called `Result::unwrap()` on an `Err` value'') r"

definition ends_with_slash :: "string \<Rightarrow> bool" where
  "ends_with_slash p \<longleftrightarrow> p \<noteq> [] \<and> last p = CHR ''/''"

definition internal_new ::
    "'url url_ops \<Rightarrow> 'store \<Rightarrow> ObjectStoreConfig \<Rightarrow> (os_error, ('url, 'store) InternalObjectStore) result" where
  "internal_new U inner config =
     bind_res (unwrap_ok (case config of
         Local c \<Rightarrow> uo_directory U (lc_data_dir c)
       | InMemory \<Rightarrow> uo_parse U ''memory://''
       | AmazonS3 c \<Rightarrow>
           uo_parse U (with_prefix
             (case s3_endpoint c of Some endpoint \<Rightarrow> endpoint @ ''/'' @ s3_bucket c | None \<Rightarrow> ''s3://'' @ s3_bucket c) (s3_prefix c))
       | GoogleCloudStorage c \<Rightarrow> uo_parse U (with_prefix (''gs://'' @ gcs_bucket c) (gcs_prefix c)))) (\<lambda>root_uri.
     let root_uri = (if \<not> ends_with_slash (uo_path U root_uri) then uo_set_path U root_uri (uo_path U root_uri @ ''/'') else root_uri) in
     Inr \<lparr>is_inner = inner, is_root_uri = root_uri, is_config = config\<rparr>)"

definition local_table_dir :: "('url, 'store) InternalObjectStore \<Rightarrow> string \<Rightarrow> string option" where
  "local_table_dir s table = (case is_config s of Local c \<Rightarrow> Some (lc_data_dir c @ ''/'' @ table) | _ \<Rightarrow> None)"

definition table_prefix :: "('url, 'store) InternalObjectStore \<Rightarrow> string \<Rightarrow> string" where
  "table_prefix s table =
     (case is_config s of
        AmazonS3 c \<Rightarrow> (case s3_prefix c of Some prefix \<Rightarrow> prefix @ ''/'' @ table | None \<Rightarrow> table)
      | GoogleCloudStorage c \<Rightarrow> (case gcs_prefix c of Some prefix \<Rightarrow> prefix @ ''/'' @ table | None \<Rightarrow> table)
      | _ \<Rightarrow> table)"

definition get_log_store ::
    "'url url_ops \<Rightarrow> ('url, 'store) InternalObjectStore \<Rightarrow> string \<Rightarrow>
      (os_error, ('url, ('url, 'store) InternalObjectStore) log_store) result" where
  "get_log_store U s table =
     bind_res (unwrap_ok (uo_join U (is_root_uri s) table)) (\<lambda>root.
       Inr \<lparr>ls_store = s, ls_prefix = table_prefix s table, ls_root = root\<rparr>)"

text \<open>The factory with the internal store of its configuration, if it has one.\<close>

definition factory_new_from_config ::
    "'url url_ops \<Rightarrow> 'store clients \<Rightarrow> ObjectStoreConfig option \<Rightarrow> bool \<Rightarrow>
      (os_error, ('url, 'store) InternalObjectStore option \<times> ('url, 'store) store_factory) result" where
  "factory_new_from_config U C config object_store_cache =
     bind_res (case config of
         Some cfg \<Rightarrow>
           bind_res (build_object_store C cfg object_store_cache) (\<lambda>object_store.
           bind_res (internal_new U object_store cfg) (\<lambda>s. Inr (Some s)))
       | None \<Rightarrow> Inr None) (\<lambda>internal_object_store.
     Inr (internal_object_store, \<lparr>sf_custom_stores = [], sf_object_store_cache = object_store_cache\<rparr>))"

definition get_default_log_store ::
    "'url url_ops \<Rightarrow> ('url, 'store) InternalObjectStore option \<Rightarrow> string \<Rightarrow>
      (os_error, ('url, ('url, 'store) InternalObjectStore) log_store) result option" where
  "get_default_log_store U default_store path = map_option (\<lambda>s. get_log_store U s path) default_store"

text \<open>The operations of a store on a state \<open>'s\<close>; a path and its contents are strings.\<close>

datatype put_mode = Overwrite | Create | Update string

record 's store_ops =
  so_put :: "string \<Rightarrow> string \<Rightarrow> ('s, os_error, unit) st"
  so_put_opts :: "string \<Rightarrow> string \<Rightarrow> put_mode \<Rightarrow> ('s, os_error, unit) st"
  so_delete :: "string \<Rightarrow> ('s, os_error, unit) st"
  so_list :: "string \<Rightarrow> 's \<Rightarrow> (os_error, string) result list"
  so_copy :: "string \<Rightarrow> string \<Rightarrow> ('s, os_error, unit) st"
  so_copy_if_not_exists :: "string \<Rightarrow> string \<Rightarrow> ('s, os_error, unit) st"
  so_rename :: "string \<Rightarrow> string \<Rightarrow> ('s, os_error, unit) st"
  so_rename_if_not_exists :: "string \<Rightarrow> string \<Rightarrow> ('s, os_error, unit) st"

definition hardlinks_disabled :: "ObjectStoreConfig \<Rightarrow> bool" where
  "hardlinks_disabled config = (case config of Local c \<Rightarrow> lc_disable_hardlinks c | _ \<Rightarrow> False)"

definition is_s3 :: "ObjectStoreConfig \<Rightarrow> bool" where
  "is_s3 config = (case config of AmazonS3 _ \<Rightarrow> True | _ \<Rightarrow> False)"

text \<open>\<open>impl ObjectStore for InternalObjectStore\<close>: three operations differ from those of the inner store.\<close>

definition internal_ops :: "ObjectStoreConfig \<Rightarrow> 's store_ops \<Rightarrow> 's store_ops" where
  "internal_ops config inner = inner\<lparr>
     so_put_opts := (\<lambda>location payload mode.
       so_put_opts inner location payload (if hardlinks_disabled config then Overwrite else mode)),
     so_copy_if_not_exists := (\<lambda>from to.
       if hardlinks_disabled config then so_copy inner from to else so_copy_if_not_exists inner from to),
     so_rename_if_not_exists := (\<lambda>from to.
       if is_s3 config then so_rename inner from to
       else if hardlinks_disabled config then so_rename inner from to
       else so_rename_if_not_exists inner from to)\<rparr>"

fun delete_listed :: "'s store_ops \<Rightarrow> (os_error, string) result list \<Rightarrow> ('s, os_error, unit) st" where
  "delete_listed inner [] = return_st ()"
| "delete_listed inner (Inl _ # objects) = delete_listed inner objects"
| "delete_listed inner (Inr location # objects) = bind_st (so_delete inner location) (\<lambda>_. delete_listed inner objects)"

definition delete_in_prefix :: "'s store_ops \<Rightarrow> string \<Rightarrow> ('s, os_error, unit) st" where
  "delete_in_prefix inner prefix = (\<lambda>s. delete_listed inner (so_list inner prefix s) s)"


subsection \<open>Contracts of stores\<close>

text \<open>Prefixes are evaluated on whole segments of a path.\<close>

definition under_prefix :: "string \<Rightarrow> string \<Rightarrow> bool" where
  "under_prefix prefix p \<longleftrightarrow> (\<exists>rest. p = prefix @ ''/'' @ rest)"

text \<open>What object_store promises: a create and a copy to a new place never touch an object that is there.\<close>

locale object_store =
  fixes ops :: "'s store_ops" and view :: "'s \<Rightarrow> string \<Rightarrow> string option"
  assumes put_create: "so_put_opts ops p d Create s = (r, s') \<Longrightarrow>
      (if view s p \<noteq> None then \<not> is_ok r \<and> view s' = view s else is_ok r \<longrightarrow> view s' = (view s)(p \<mapsto> d))"
    and copy_new: "so_copy_if_not_exists ops p q s = (r, s') \<Longrightarrow>
      (if view s q \<noteq> None then \<not> is_ok r \<and> view s' = view s
       else is_ok r \<longrightarrow> (\<exists>d. view s p = Some d \<and> view s' = (view s)(q \<mapsto> d)))"
    and delete_object: "so_delete ops p s = (r, s') \<Longrightarrow> view s' = (if is_ok r then (view s)(p := None) else view s)"
    and list_sound: "Inr p \<in> set (so_list ops prefix s) \<Longrightarrow> under_prefix prefix p"
    and list_complete: "\<forall>x\<in>set (so_list ops prefix s). is_ok x \<Longrightarrow> view s p \<noteq> None \<Longrightarrow> under_prefix prefix p \<Longrightarrow>
      Inr p \<in> set (so_list ops prefix s)"
begin

lemma delete_listed_view:
  "delete_listed ops xs s = (Inr u, s') \<Longrightarrow> view s' = (\<lambda>p. if Inr p \<in> set xs then None else view s p)"
proof (induction xs arbitrary: s)
  case (Cons x xs)
  show ?case
  proof (cases x)
    case (Inr p)
    then obtain s1 where "so_delete ops p s = (Inr (), s1)" "delete_listed ops xs s1 = (Inr u, s')"
      using Cons.prems by (auto simp: bind_st_eq_Inr)
    then show ?thesis using Cons.IH [of s1] delete_object [of p s "Inr ()" s1] Inr by (auto simp: fun_eq_iff)
  qed (use Cons in auto)
qed simp

lemma delete_in_prefix_view:
  assumes "delete_in_prefix ops prefix s = (Inr u, s')" and "\<forall>x\<in>set (so_list ops prefix s). is_ok x"
  shows "view s' = (\<lambda>p. if under_prefix prefix p then None else view s p)"
proof -
  have "view s' p = (if under_prefix prefix p then None else view s p)" for p
    using delete_listed_view [of "so_list ops prefix s" s u s'] assms list_sound [of p prefix s] list_complete [OF assms(2), of p]
    by (cases "view s p") (auto simp: delete_in_prefix_def)
  then show ?thesis by blast
qed

end

locale rename_store = object_store +
  assumes rename_new: "so_rename_if_not_exists ops p q s = (r, s') \<Longrightarrow>
      (if view s q \<noteq> None then \<not> is_ok r \<and> view s' = view s
       else is_ok r \<longrightarrow> (\<exists>d. view s p = Some d \<and> view s' = (view s)(p := None, q \<mapsto> d)))"

text \<open>The wrapper keeps the contract of the store it wraps, unless it was told to do without hard links.\<close>

lemma internal_object_store:
  assumes "object_store ops view" and "\<not> hardlinks_disabled config"
  shows "object_store (internal_ops config ops) view"
  using assms(1) unfolding object_store_def internal_ops_def by (simp add: assms(2))

lemma internal_rename_store:
  assumes "rename_store ops view" and "\<not> hardlinks_disabled config" and "\<not> is_s3 config"
  shows "rename_store (internal_ops config ops) view"
  using assms internal_object_store unfolding rename_store_def rename_store_axioms_def by (auto simp: internal_ops_def)

text \<open>A store in memory, as the internal store of a configuration without a bucket.\<close>

definition put_new :: "string \<Rightarrow> string \<Rightarrow> (string \<rightharpoonup> string, os_error, unit) st" where
  "put_new p d m = (if m p = None then (Inr (), m(p \<mapsto> d)) else (Inl (OsGeneric ''memory'' ''already exists''), m))"

definition from_object :: "string \<Rightarrow> (string \<Rightarrow> (string \<rightharpoonup> string, os_error, unit) st) \<Rightarrow> (string \<rightharpoonup> string, os_error, unit) st" where
  "from_object p k m = (case m p of None \<Rightarrow> (Inl (OsGeneric ''memory'' ''not found''), m) | Some d \<Rightarrow> k d m)"

definition map_ops :: "string list \<Rightarrow> (string \<rightharpoonup> string) store_ops" where
  "map_ops known = \<lparr>
     so_put = (\<lambda>p d m. (Inr (), m(p \<mapsto> d))),
     so_put_opts = (\<lambda>p d mode m. case mode of Create \<Rightarrow> put_new p d m | _ \<Rightarrow> (Inr (), m(p \<mapsto> d))),
     so_delete = (\<lambda>p m. (Inr (), m(p := None))),
     so_list = (\<lambda>prefix m. if dom m \<subseteq> set known
       then map Inr (filter (\<lambda>p. m p \<noteq> None \<and> take (Suc (length prefix)) p = prefix @ ''/'') known)
       else [Inl (OsGeneric ''memory'' ''listing'')]),
     so_copy = (\<lambda>p q. from_object p (\<lambda>d m. (Inr (), m(q \<mapsto> d)))),
     so_copy_if_not_exists = (\<lambda>p q. from_object p (put_new q)),
     so_rename = (\<lambda>p q. from_object p (\<lambda>d m. (Inr (), m(p := None, q \<mapsto> d)))),
     so_rename_if_not_exists = (\<lambda>p q. from_object p (\<lambda>d m. if m q = None then (Inr (), m(p := None, q \<mapsto> d))
       else (Inl (OsGeneric ''memory'' ''already exists''), m)))\<rparr>"

lemma under_prefix_take: "under_prefix prefix p \<longleftrightarrow> take (Suc (length prefix)) p = prefix @ ''/''"
proof
  assume "take (Suc (length prefix)) p = prefix @ ''/''"
  then have "p = prefix @ ''/'' @ drop (Suc (length prefix)) p"
    using append_take_drop_id [of "Suc (length prefix)" p] by simp
  then show "under_prefix prefix p" by (auto simp: under_prefix_def)
qed (auto simp: under_prefix_def)

lemma map_ops_store: "rename_store (map_ops known) id"
  by unfold_locales
    (auto simp: map_ops_def put_new_def from_object_def under_prefix_take dom_def split: if_splits option.splits)

interpretation internal: rename_store "internal_ops InMemory (map_ops known)" id for known
  by (rule internal_rename_store [OF map_ops_store]) (simp_all add: hardlinks_disabled_def is_s3_def)


subsection \<open>Properties\<close>



text \<open>
  \<open>disable_hardlinks\<close> makes commits overwrite each other. With this setting of a local store, creating an object
  passes the mode \<open>Overwrite\<close> on and copying to a new place is a plain copy: over the store in memory both
  replace an object that is there and report success.
\<close>
theorem disabled_hardlinks_overwrite:
  "let ops = internal_ops (Local \<lparr>lc_data_dir = ''/data'', lc_disable_hardlinks = True\<rparr>) (map_ops [''log/0'', ''tmp'']);
       m = [''log/0'' \<mapsto> ''commit'', ''tmp'' \<mapsto> ''other''] in
   (case so_put_opts ops ''log/0'' ''other'' Create m of (r, m') \<Rightarrow> r = Inr () \<and> m' ''log/0'' = Some ''other'') \<and>
   (case so_copy_if_not_exists ops ''tmp'' ''log/0'' m of (r, m') \<Rightarrow> r = Inr () \<and> m' ''log/0'' = Some ''other'') \<and>
   (case so_rename_if_not_exists ops ''tmp'' ''log/0'' m of (r, m') \<Rightarrow> r = Inr () \<and> m' ''log/0'' = Some ''other'')"
  by (simp add: internal_ops_def map_ops_def hardlinks_disabled_def is_s3_def from_object_def)

text \<open>
  deleting a table. When the listing of the prefix of a table has no errors and all deletions succeed, exactly the objects under that prefix are
  gone. An error in the listing is skipped, so that objects may stay although the deletion reports success.
\<close>
theorem delete_in_prefix_deletes_table:
  assumes "object_store ops view" and "delete_in_prefix ops prefix s = (Inr (), s')" and "\<forall>x\<in>set (so_list ops prefix s). is_ok x"
  shows "view s' = (\<lambda>p. if under_prefix prefix p then None else view s p)"
  by (rule object_store.delete_in_prefix_view [OF assms])

lemma delete_in_prefix_deletes_table_witness:
  "let ops = internal_ops InMemory (map_ops [''a/0'', ''a/1'', ''ab/0'']); m = [''a/0'' \<mapsto> ''x'', ''a/1'' \<mapsto> ''y'', ''ab/0'' \<mapsto> ''z''] in
   \<exists>m'. delete_in_prefix ops ''a'' m = (Inr (), m') \<and> m' ''a/0'' = None \<and> m' ''a/1'' = None \<and> m' ''ab/0'' = Some ''z''"
proof -
  let ?ops = "internal_ops InMemory (map_ops [''a/0'', ''a/1'', ''ab/0''])"
  let ?m = "[''a/0'' \<mapsto> ''x'', ''a/1'' \<mapsto> ''y'', ''ab/0'' \<mapsto> ''z'']"
  have l: "so_list ?ops ''a'' ?m = [Inr ''a/0'', Inr ''a/1'']" by (auto simp: internal_ops_def map_ops_def split: if_splits)
  then obtain m' where run: "delete_in_prefix ?ops ''a'' ?m = (Inr (), m')"
    by (simp add: delete_in_prefix_def bind_st_def internal_ops_def map_ops_def)
  have "id m' = (\<lambda>p. if under_prefix ''a'' p then None else id ?m p)"
    by (rule delete_in_prefix_deletes_table [OF internal.object_store_axioms run]) (simp add: l)
  then have "m' ''a/0'' = None \<and> m' ''a/1'' = None \<and> m' ''ab/0'' = Some ''z''" by (simp add: under_prefix_take)
  with run show ?thesis unfolding Let_def by blast
qed

text \<open>The names of the keys are read back as the keys.\<close>

definition keys_ok :: "'k option_keys \<Rightarrow> bool" where
  "keys_ok K \<longleftrightarrow> (\<forall>k. ok_from_str K (ok_as_ref K k) = Inr k)"

lemma map_options_append:
  "map_options_into_keys K (xs @ ys) m = bind_res (map_options_into_keys K xs m) (map_options_into_keys K ys)"
  by (induction K xs m rule: map_options_into_keys.induct) (simp_all split: sum.splits)

lemma as_ref_inj: "keys_ok K \<Longrightarrow> ok_as_ref K k = ok_as_ref K k' \<longleftrightarrow> k = k'"
  unfolding keys_ok_def by (metis sum.inject(2))

lemma map_options_keys:
  assumes "keys_ok K"
  shows "map_options_into_keys K (map (\<lambda>(k, v). (ok_as_ref K k, v)) kvs) m = Inr (fold (\<lambda>(k, v). imap_insert k v) kvs m)"
  using assms by (induction kvs arbitrary: m) (auto simp: keys_ok_def)

lemma imap_insert_new_key: "k \<notin> fst ` set m \<Longrightarrow> imap_insert k v m = m @ [(k, v)]"
  by (auto simp: imap_insert_def imap_upsert_def dest: map_of_eq_None_iff [THEN iffD2])

text \<open>The options of an S3 configuration, key by key.\<close>

definition s3_pairs :: "S3Config \<Rightarrow> (s3_key \<times> string) list" where
  "s3_pairs c = [(k, v). (k, Some v) \<leftarrow> [(S3Region, s3_region c), (S3AccessKeyId, s3_access_key_id c),
     (S3SecretAccessKey, s3_secret_access_key c), (S3Token, s3_session_token c), (S3Endpoint, s3_endpoint c),
     (S3AllowHttp, Some (bool_str (s3_allow_http c))), (S3SkipSignature, Some (bool_str (s3_skip_signature c)))]]"

lemma s3_to_hashmap_pairs:
  assumes "keys_ok K"
  shows "s3_to_hashmap K c = map (\<lambda>(k, v). (ok_as_ref K k, v)) (s3_pairs c)"
  by (cases "s3_region c"; cases "s3_access_key_id c"; cases "s3_secret_access_key c"; cases "s3_session_token c"; cases "s3_endpoint c")
    (simp_all add: s3_to_hashmap_def s3_pairs_def insert_some_def imap_insert_new_key as_ref_inj [OF assms])

lemma fold_insert_pairs:
  "distinct (map fst kvs) \<Longrightarrow> fst ` set kvs \<inter> fst ` set m = {} \<Longrightarrow> fold (\<lambda>(k, v). imap_insert k v) kvs m = m @ kvs"
proof (induction kvs arbitrary: m)
  case (Cons x kvs)
  obtain k v where x: "x = (k, v)" by fastforce
  have "fold (\<lambda>(k, v). imap_insert k v) kvs (m @ [(k, v)]) = (m @ [(k, v)]) @ kvs"
    by (rule Cons.IH) (use Cons.prems x in auto)
  moreover have "imap_insert k v m = m @ [(k, v)]" by (rule imap_insert_new_key) (use Cons.prems x in auto)
  ultimately show ?case by (simp add: x)
qed simp

lemma s3_pairs_distinct: "distinct (map fst (s3_pairs c))"
  by (simp add: s3_pairs_def split: option.splits)

text \<open>
  the options that a store hands out describe it. The options of an S3 configuration, read back with \<open>from_str\<close> as
  \<open>build_object_store_from_opts\<close> does, are accepted and give exactly the region, keys, token, endpoint and flags of the
  configuration, one per key (the bucket goes with the URL; the prefix is not in them). A local configuration is
  read back from its own options unchanged.
\<close>
theorem store_options_round_trip:
  assumes "keys_ok K"
  shows "map_options_into_keys K (s3_to_hashmap K c) [] = Inr (s3_pairs c) \<and>
    imap_get (s3_pairs c) S3Region = s3_region c \<and> imap_get (s3_pairs c) S3AccessKeyId = s3_access_key_id c \<and>
    imap_get (s3_pairs c) S3SecretAccessKey = s3_secret_access_key c \<and> imap_get (s3_pairs c) S3Token = s3_session_token c \<and>
    imap_get (s3_pairs c) S3Endpoint = s3_endpoint c \<and>
    not_false (imap_get (s3_pairs c) S3AllowHttp) = s3_allow_http c \<and>
    not_false (imap_get (s3_pairs c) S3SkipSignature) = s3_skip_signature c \<and>
    local_from_hashmap (local_to_hashmap l) = Inr l"
proof -
  have "map_options_into_keys K (s3_to_hashmap K c) [] = Inr (s3_pairs c)"
    unfolding s3_to_hashmap_pairs [OF assms] map_options_keys [OF assms] using fold_insert_pairs [OF s3_pairs_distinct, of c "[]"] by simp
  moreover have "local_from_hashmap (local_to_hashmap l) = Inr l"
    by (simp add: local_from_hashmap_def local_to_hashmap_def imap_simps ok_or_def bool_str_def)
  ultimately show ?thesis by (auto simp: s3_pairs_def not_false_def bool_str_def split: option.splits)
qed

text \<open>Keys with the names that object_store gives them.\<close>

fun s3_key_name :: "s3_key \<Rightarrow> string" where
  "s3_key_name S3AccessKeyId = ''aws_access_key_id''"
| "s3_key_name S3SecretAccessKey = ''aws_secret_access_key''"
| "s3_key_name S3Region = ''aws_region''"
| "s3_key_name S3Token = ''aws_session_token''"
| "s3_key_name S3Endpoint = ''aws_endpoint''"
| "s3_key_name S3Bucket = ''aws_bucket''"
| "s3_key_name S3AllowHttp = ''allow_http''"
| "s3_key_name S3SkipSignature = ''aws_skip_signature''"
| "s3_key_name S3ConditionalPut = ''aws_conditional_put''"
| "s3_key_name (S3OtherKey k) = k @ ''_''"

definition named_keys :: "s3_key option_keys" where
  "named_keys = \<lparr>ok_as_ref = s3_key_name, ok_from_str = (\<lambda>s.
     case find (\<lambda>k. s3_key_name k = s) [S3AccessKeyId, S3SecretAccessKey, S3Region, S3Token, S3Endpoint, S3Bucket, S3AllowHttp,
       S3SkipSignature, S3ConditionalPut] of
       Some k \<Rightarrow> Inr k
     | None \<Rightarrow> if s \<noteq> [] \<and> last s = CHR ''_'' then Inr (S3OtherKey (butlast s)) else Inl (OsGeneric ''S3'' ''unknown key''))\<rparr>"

lemma named_keys_ok: "keys_ok named_keys"
proof -
  have "ok_from_str named_keys (ok_as_ref named_keys k) = Inr k" for k
  proof (cases k)
    case (S3OtherKey x)
    have "x @ ''_'' \<noteq> y" if "last y \<noteq> CHR ''_''" for y using that by auto
    then show ?thesis by (simp add: S3OtherKey named_keys_def)
  qed (simp_all add: named_keys_def)
  then show ?thesis by (simp add: keys_ok_def)
qed

lemma store_options_round_trip_witness:
  "let c = \<lparr>s3_region = Some ''eu'', s3_access_key_id = None, s3_secret_access_key = None, s3_session_token = None, s3_endpoint = None,
     s3_bucket = ''b'', s3_prefix = Some ''p'', s3_allow_http = False, s3_skip_signature = True\<rparr> in
   map_options_into_keys named_keys (s3_to_hashmap named_keys c) [] =
     Inr [(S3Region, ''eu''), (S3AllowHttp, ''false''), (S3SkipSignature, ''true'')]"
  using store_options_round_trip [OF named_keys_ok, of "\<lparr>s3_region = Some ''eu'', s3_access_key_id = None, s3_secret_access_key = None,
     s3_session_token = None, s3_endpoint = None, s3_bucket = ''b'', s3_prefix = Some ''p'', s3_allow_http = False, s3_skip_signature = True\<rparr>"]
  by (simp add: s3_pairs_def bool_str_def Let_def)

text \<open>
  the region of a table's store is overwritten. Options that name a region but neither a bucket nor an endpoint, as those of an S3
  configuration without an endpoint do, lose that region: it is detected again and the detected one is used; when the detection fails, the call panics.
\<close>
theorem configured_region_overwritten:
  assumes "keys_ok K" and "s3_endpoint c = None" and "s3_region c = Some region"
  shows "map_options_into_keys K (s3_to_hashmap K c) [] = Inr (s3_pairs c) \<and> imap_get (s3_pairs c) S3Region = Some region \<and>
    (case detect_region U resolve url of
       Inr r \<Rightarrow> \<exists>options. add_amazon_s3_specific_options U resolve url (s3_pairs c) = Inr options \<and> imap_get options S3Region = Some r
     | Inl _ \<Rightarrow> \<exists>m. add_amazon_s3_specific_options U resolve url (s3_pairs c) = Inl (OsPanic m))"
proof -
  have "map_options_into_keys K (s3_to_hashmap K c) [] = Inr (s3_pairs c)"
    unfolding s3_to_hashmap_pairs [OF assms(1)] map_options_keys [OF assms(1)] using fold_insert_pairs [OF s3_pairs_distinct, of c "[]"] by simp
  moreover have "imap_get (s3_pairs c) S3Region = Some region" "imap_get (s3_pairs c) S3Bucket = None" "imap_get (s3_pairs c) S3Endpoint = None"
    using assms(2,3) by (auto simp: s3_pairs_def split: option.splits)
  ultimately show ?thesis
    by (auto simp: add_amazon_s3_specific_options_def imap_simps split: sum.splits)
qed

lemma configured_region_overwritten_witness:
  "let c = \<lparr>s3_region = Some ''eu'', s3_access_key_id = None, s3_secret_access_key = None, s3_session_token = None, s3_endpoint = None,
       s3_bucket = ''b'', s3_prefix = None, s3_allow_http = True, s3_skip_signature = True\<rparr>;
     U = \<lparr>up_scheme = (\<lambda>_. ''s3''), up_host = Some, up_path = (\<lambda>_. ''''), up_join = (\<lambda>u p. Inr (u @ p))\<rparr> in
   \<exists>options. add_amazon_s3_specific_options U (\<lambda>_. Inr ''us'') ''b'' (s3_pairs c) = Inr options \<and> imap_get options S3Region = Some ''us''"
  using configured_region_overwritten [OF named_keys_ok, of "\<lparr>s3_region = Some ''eu'', s3_access_key_id = None, s3_secret_access_key = None,
       s3_session_token = None, s3_endpoint = None, s3_bucket = ''b'', s3_prefix = None, s3_allow_http = True, s3_skip_signature = True\<rparr>" "''eu''"
       "\<lparr>up_scheme = (\<lambda>_. ''s3''), up_host = Some, up_path = (\<lambda>_. ''''), up_join = (\<lambda>u p. Inr (u @ p))\<rparr>" "\<lambda>_. Inr ''us''" "''b''"]
  by (simp add: detect_region_def ok_or_def Let_def)

text \<open>
  The options of a GCS configuration with a prefix have the key \<open>prefix\<close>, which is none of object_store's: reading them
  back fails.
\<close>

lemma gcs_prefix_not_an_option:
  assumes "keys_ok G" and "ok_from_str G ''prefix'' = Inl e" and "gcs_prefix c = Some p"
  shows "map_options_into_keys G (gcs_to_hashmap G c) [] = Inl e"
proof -
  have ne: "''prefix'' \<noteq> ok_as_ref G k" "ok_as_ref G k \<noteq> ''prefix''" for k
    using assms(1,2) by (metis keys_ok_def sum.distinct(1))+
  have "\<exists>rest. gcs_to_hashmap G c = (ok_as_ref G GcsBucket, gcs_bucket c) # (''prefix'', p) # rest"
    using ne as_ref_inj [OF assms(1)]
    by (cases "gcs_google_application_credentials c") (auto simp: gcs_to_hashmap_def insert_some_def assms(3) imap_insert_new_key)
  then show ?thesis using assms by (auto simp: keys_ok_def)
qed


text \<open>
  the stores of tables are built once. After a log store was returned for a table, every further table with the same URL and equal
  options, whatever its path, the environment or the outside world is then, gets a log store over the very same store, and
  the factory does not change any more; the cache layer is put on the stores that are neither local nor in memory.
\<close>
theorem table_stores_built_once:
  assumes "get_log_store_for_table U UC C K G env url options path f = (Inr ls, f')"
    and "map_of options' = map_of options" and "up_join U url path' = Inr root"
  shows "\<exists>store. ls_store ls = cl_prefixed C store path \<and>
    get_log_store_for_table U UC' C K G env' url options' path' f' =
      (Inr \<lparr>ls_store = cl_prefixed C store path', ls_prefix = path', ls_root = root\<rparr>, f') \<and>
    (map_of (sf_custom_stores f) (url, map_of options) = None \<longrightarrow> (\<exists>s. build_object_store_from_opts U UC C K G env url options = Inr s \<and>
      store = (if sf_object_store_cache f \<and> up_scheme U url \<notin> {''file'', ''memory''} then cl_cached C s else s)))"
  using assms
  by (cases "map_of (sf_custom_stores f) (url, map_of options)")
    (auto simp: get_log_store_for_table_def bind_st_def Let_def split: sum.splits if_splits)


subsection \<open>Where a table is\<close>

text \<open>
  The \<open>url\<close> crate: setting a path, and joining a single segment to a URL whose path ends in a slash. A name of a
  table is made of letters, digits and dashes.
\<close>

definition plain_name :: "string \<Rightarrow> bool" where
  "plain_name t \<longleftrightarrow> t \<noteq> [] \<and> (\<forall>c\<in>set t. c = CHR ''-'' \<or> 48 \<le> (of_char c :: nat) \<and> (of_char c :: nat) \<le> 57 \<or>
     65 \<le> (of_char c :: nat) \<and> (of_char c :: nat) \<le> 90 \<or> 97 \<le> (of_char c :: nat) \<and> (of_char c :: nat) \<le> 122)"

definition url_ops_ok :: "'url url_ops \<Rightarrow> bool" where
  "url_ops_ok U \<longleftrightarrow> (\<forall>u p. uo_path U (uo_set_path U u (p @ ''/'')) = p @ ''/'') \<and>
     (\<forall>u t. ends_with_slash (uo_path U u) \<longrightarrow> plain_name t \<longrightarrow> (\<exists>v. uo_join U u t = Inr v \<and> uo_path U v = uo_path U u @ t))"

fun split_slashes :: "string \<Rightarrow> string list" where
  "split_slashes [] = [[]]"
| "split_slashes (c # cs) = (if c = CHR ''/'' then [] # split_slashes cs else (c # hd (split_slashes cs)) # tl (split_slashes cs))"

lemma split_slashes_nonempty [simp]: "split_slashes s \<noteq> []"
  by (induction s) auto

lemma split_slashes_none: "CHR ''/'' \<notin> set s \<Longrightarrow> split_slashes s = [s]"
  by (induction s) auto

lemma split_slashes_many: "CHR ''/'' \<in> set s \<Longrightarrow> tl (split_slashes s) \<noteq> []"
  by (induction s) auto

lemma last_split_slashes: "ends_with_slash p \<Longrightarrow> CHR ''/'' \<notin> set t \<Longrightarrow> last (split_slashes (p @ t)) = t"
proof (induction p)
  case (Cons c p)
  show ?case
  proof (cases "p = []")
    case True
    with Cons.prems show ?thesis by (simp add: ends_with_slash_def split_slashes_none)
  next
    case False
    then have IH: "last (split_slashes (p @ t)) = t" using Cons by (simp add: ends_with_slash_def)
    have "tl (split_slashes (p @ t)) \<noteq> []"
      using Cons.prems(1) False last_in_set [of p] by (intro split_slashes_many) (simp add: ends_with_slash_def)
    with IH show ?thesis by (cases "split_slashes (p @ t)") auto
  qed
qed (simp add: ends_with_slash_def)

text \<open>
  every table has a place of its own. For every configuration for which the internal store can be built, with or without a
  prefix and a trailing slash, the path of the root URL ends in a slash, so that the URL of the log store of a table is the root
  with the name of the table appended: different tables have different URLs and different prefixes in the store, and the last
  segment of the URL is the name of the table.
\<close>
theorem tables_have_their_own_place:
  assumes U: "url_ops_ok U" and new: "internal_new U inner config = Inr s" and t: "plain_name t" "plain_name t'"
  shows "\<exists>ls ls'. get_log_store U s t = Inr ls \<and> get_log_store U s t' = Inr ls' \<and>
    ends_with_slash (uo_path U (is_root_uri s)) \<and> uo_path U (ls_root ls) = uo_path U (is_root_uri s) @ t \<and>
    last (split_slashes (uo_path U (ls_root ls))) = t \<and>
    (t \<noteq> t' \<longrightarrow> ls_root ls \<noteq> ls_root ls' \<and> ls_prefix ls \<noteq> ls_prefix ls')"
proof -
  have root: "ends_with_slash (uo_path U (is_root_uri s))"
  proof -
    have "ends_with_slash (uo_path U (uo_set_path U u (p @ ''/'')))" for u p
      using U by (simp add: url_ops_ok_def ends_with_slash_def)
    then show ?thesis using new by (auto simp: internal_new_def bind_res_eq_Inr Let_def)
  qed
  have no: "CHR ''/'' \<notin> set x" if "plain_name x" for x
  proof
    assume "CHR ''/'' \<in> set x"
    from bspec [OF that [unfolded plain_name_def, THEN conjunct2] this] show False by simp
  qed
  have join: "\<exists>v. uo_join U (is_root_uri s) x = Inr v \<and> uo_path U v = uo_path U (is_root_uri s) @ x" if "plain_name x" for x
    using U [unfolded url_ops_ok_def, THEN conjunct2, rule_format, OF root that] .
  obtain v where v: "uo_join U (is_root_uri s) t = Inr v" "uo_path U v = uo_path U (is_root_uri s) @ t" using join [OF t(1)] by blast
  obtain v' where v': "uo_join U (is_root_uri s) t' = Inr v'" "uo_path U v' = uo_path U (is_root_uri s) @ t'" using join [OF t(2)] by blast
  have "t \<noteq> t' \<longrightarrow> v \<noteq> v' \<and> table_prefix s t \<noteq> table_prefix s t'"
    using v(2) v'(2) by (auto simp: table_prefix_def split: ObjectStoreConfig.splits option.splits)
  then show ?thesis using v v' root last_split_slashes [OF root no [OF t(1)]] by (simp add: get_log_store_def unwrap_ok_def)
qed

text \<open>URLs as their authority and their path.\<close>

definition simple_urls :: "(string \<times> string) url_ops" where
  "simple_urls = \<lparr>uo_parse = (\<lambda>s. Inr (s, [])), uo_directory = (\<lambda>d. Inr (''file://'', d)), uo_path = snd,
     uo_set_path = (\<lambda>u p. (fst u, p)), uo_join = (\<lambda>u t. Inr (fst u, snd u @ t))\<rparr>"

lemma simple_urls_ok: "url_ops_ok simple_urls"
  by (simp add: url_ops_ok_def simple_urls_def)

lemma tables_have_their_own_place_witness:
  "let config = GoogleCloudStorage \<lparr>gcs_bucket = ''b'', gcs_prefix = Some ''p'', gcs_google_application_credentials = None\<rparr>;
     s = \<lparr>is_inner = (), is_root_uri = (''gs://b/p'', ''/''), is_config = config\<rparr> in
   internal_new simple_urls () config = Inr s \<and>
   (\<exists>ls ls'. get_log_store simple_urls s ''1'' = Inr ls \<and> get_log_store simple_urls s ''2'' = Inr ls' \<and>
     snd (ls_root ls) = ''/1'' \<and> ls_root ls \<noteq> ls_root ls' \<and> ls_prefix ls \<noteq> ls_prefix ls')"
proof -
  let ?c = "GoogleCloudStorage \<lparr>gcs_bucket = ''b'', gcs_prefix = Some ''p'', gcs_google_application_credentials = None\<rparr>"
  let ?s = "\<lparr>is_inner = (), is_root_uri = (''gs://b/p'', ''/''), is_config = ?c\<rparr>"
  have new: "internal_new simple_urls () ?c = Inr ?s" by code_simp
  have names: "plain_name ''1''" "plain_name ''2''" by (simp_all add: plain_name_def)
  have path: "uo_path simple_urls u = snd u" for u by (simp add: simple_urls_def)
  show ?thesis using new tables_have_their_own_place [OF simple_urls_ok new names] by (auto simp add: Let_def path)
qed

lemma table_stores_built_once_witness:
  "let U = \<lparr>up_scheme = (\<lambda>_. ''gs''), up_host = Some, up_path = (\<lambda>_. []), up_join = (\<lambda>u p. Inr (u @ p))\<rparr>;
     UC = (\<lambda>n. \<lparr>uc_parse_scheme = (\<lambda>_. Inr SchemeGcs), uc_parse_s3 = (\<lambda>_ _. Inr ''s3''), uc_parse_gcs = (\<lambda>_ _. Inr n),
       uc_resolve_bucket_region = Inr\<rparr>);
     C = \<lparr>cl_memory = ''memory'', cl_local = Inr, cl_s3 = (\<lambda>_. Inr ''s3''), cl_gcs = (\<lambda>_. Inr ''gcs''), cl_prefixed = (\<lambda>s p. s @ p),
       cl_cached = (\<lambda>s. ''cached '' @ s)\<rparr>;
     G = \<lparr>ok_as_ref = (\<lambda>_. ''k''), ok_from_str = (\<lambda>_. Inr GcsBucket)\<rparr>;
     f = \<lparr>sf_custom_stores = [], sf_object_store_cache = True\<rparr>;
     f' = snd (get_log_store_for_table U (UC ''one'') C named_keys G [] ''u/'' [(''k'', ''v'')] ''t'' f) in
   fst (get_log_store_for_table U (UC ''two'') C named_keys G [] ''u/'' [(''k'', ''v'')] ''x'' f') =
     Inr \<lparr>ls_store = ''cached onex'', ls_prefix = ''x'', ls_root = ''u/x''\<rparr>"
proof -
  define U :: "string url_parts" where "U = \<lparr>up_scheme = (\<lambda>_. ''gs''), up_host = Some, up_path = (\<lambda>_. []), up_join = (\<lambda>u p. Inr (u @ p))\<rparr>"
  define UC :: "string \<Rightarrow> (string, string) url_clients" where "UC = (\<lambda>n. \<lparr>uc_parse_scheme = (\<lambda>_. Inr SchemeGcs),
    uc_parse_s3 = (\<lambda>_ _. Inr ''s3''), uc_parse_gcs = (\<lambda>_ _. Inr n), uc_resolve_bucket_region = Inr\<rparr>)"
  define C where "C = \<lparr>cl_memory = ''memory'', cl_local = Inr, cl_s3 = (\<lambda>_. Inr ''s3''), cl_gcs = (\<lambda>_. Inr ''gcs''),
    cl_prefixed = (\<lambda>s p. s @ p), cl_cached = (\<lambda>s. ''cached '' @ s)\<rparr>"
  define G :: "gcs_key option_keys" where "G = \<lparr>ok_as_ref = (\<lambda>_. ''k''), ok_from_str = (\<lambda>_. Inr GcsBucket)\<rparr>"
  define f :: "(string, string) store_factory" where "f = \<lparr>sf_custom_stores = [], sf_object_store_cache = True\<rparr>"
  let ?r = "get_log_store_for_table U (UC ''one'') C named_keys G [] ''u/'' [(''k'', ''v'')] ''t'' f"
  have ls: "fst ?r = Inr \<lparr>ls_store = ''cached onet'', ls_prefix = ''t'', ls_root = ''u/t''\<rparr>"
    by (simp add: get_log_store_for_table_def bind_st_def f_def U_def UC_def C_def G_def build_object_store_from_opts_def
        add_google_cloud_storage_environment_variables_def Let_def)
  then have run: "?r = (Inr \<lparr>ls_store = ''cached onet'', ls_prefix = ''t'', ls_root = ''u/t''\<rparr>, snd ?r)" by (metis prod.collapse)
  have join: "up_join U ''u/'' ''x'' = Inr ''u/x''" by (simp add: U_def)
  obtain store where store: "''cached onet'' = cl_prefixed C store ''t''"
    "get_log_store_for_table U (UC ''two'') C named_keys G [] ''u/'' [(''k'', ''v'')] ''x'' (snd ?r) =
      (Inr \<lparr>ls_store = cl_prefixed C store ''x'', ls_prefix = ''x'', ls_root = ''u/x''\<rparr>, snd ?r)"
    using table_stores_built_once [OF run refl join, of "UC ''two''" "[]"] by auto
  have "''cached one'' @ ''t'' = store @ ''t''" using store(1) by (simp add: C_def)
  then have "store = ''cached one''" unfolding append_same_eq by (rule sym)
  then have "cl_prefixed C store ''x'' = ''cached onex''" by (simp add: C_def)
  with store(2) show ?thesis
    unfolding Let_def U_def [symmetric] UC_def [symmetric] C_def [symmetric] G_def [symmetric] f_def [symmetric] by simp
qed

end
