(* ===== verification/WasmUdf.thy ===== *)
theory WasmUdf
  imports FunctionStore
begin

text \<open>
  User-defined functions in WebAssembly (\<open>src/wasm_udf/wasm.rs\<close>): the rows of the arguments are turned into values of
  WebAssembly or of MessagePack, the function is called once for every row, and its results become a column again. The
  memory of the guest is a list of bytes; what the guest does, wasmtime, the MessagePack format and Arrow's casts are
  parameters. Machine words are little endian and a \<open>usize\<close> has eight bytes, as on the platforms Seafowl is built for.
\<close>

unbundle bit_operations_syntax

subsection \<open>Columns\<close>

text \<open>
  An Arrow array has a value in every slot, also in those that are null; \<open>Array::value\<close> does not look at the
  validity.
\<close>

datatype 'a slot = Valid (slot_value: 'a) | Null (slot_value: 'a)

datatype arrow_array =
    Int16Array "16 word slot list" | Int32Array "32 word slot list" | Int64Array "64 word slot list"
  | Float32Array "32 word slot list" | Float64Array "64 word slot list"
  | StringArray "string slot list" | BooleanArray "bool slot list"
  | Decimal128Array "8 word" "8 word" "128 word slot list"
  | Date32Array "32 word slot list" | TimestampNanosecondArray "64 word slot list"
  | OtherArray string nat

datatype udf_type =
    A_Int16 | A_Int32 | A_Int64 | A_Float32 | A_Float64 | A_Utf8 | A_Boolean | A_Decimal128 "8 word" "8 word" | A_Date32
  | A_TimestampNanosecond | A_Other string

fun array_len :: "arrow_array \<Rightarrow> nat" where
  "array_len (Int16Array xs) = length xs"
| "array_len (Int32Array xs) = length xs"
| "array_len (Int64Array xs) = length xs"
| "array_len (Float32Array xs) = length xs"
| "array_len (Float64Array xs) = length xs"
| "array_len (StringArray xs) = length xs"
| "array_len (BooleanArray xs) = length xs"
| "array_len (Decimal128Array p s xs) = length xs"
| "array_len (Date32Array xs) = length xs"
| "array_len (TimestampNanosecondArray xs) = length xs"
| "array_len (OtherArray t n) = n"

fun array_type :: "arrow_array \<Rightarrow> udf_type" where
  "array_type (Int16Array xs) = A_Int16"
| "array_type (Int32Array xs) = A_Int32"
| "array_type (Int64Array xs) = A_Int64"
| "array_type (Float32Array xs) = A_Float32"
| "array_type (Float64Array xs) = A_Float64"
| "array_type (StringArray xs) = A_Utf8"
| "array_type (BooleanArray xs) = A_Boolean"
| "array_type (Decimal128Array p s xs) = A_Decimal128 p s"
| "array_type (Date32Array xs) = A_Date32"
| "array_type (TimestampNanosecondArray xs) = A_TimestampNanosecond"
| "array_type (OtherArray t n) = A_Other t"

fun sql_type_to_arrow_type :: "CreateFunctionDataType \<Rightarrow> udf_type" where
  "sql_type_to_arrow_type I32 = A_Int32"
| "sql_type_to_arrow_type I64 = A_Int64"
| "sql_type_to_arrow_type F32 = A_Float32"
| "sql_type_to_arrow_type F64 = A_Float64"
| "sql_type_to_arrow_type SMALLINT = A_Int16"
| "sql_type_to_arrow_type INT_T = A_Int32"
| "sql_type_to_arrow_type BIGINT = A_Int64"
| "sql_type_to_arrow_type CHAR_T = A_Utf8"
| "sql_type_to_arrow_type VARCHAR = A_Utf8"
| "sql_type_to_arrow_type TEXT = A_Utf8"
| "sql_type_to_arrow_type (DECIMAL p s) = A_Decimal128 p s"
| "sql_type_to_arrow_type FLOAT = A_Float32"
| "sql_type_to_arrow_type REAL = A_Float32"
| "sql_type_to_arrow_type DOUBLE = A_Float64"
| "sql_type_to_arrow_type BOOLEAN = A_Boolean"
| "sql_type_to_arrow_type DATE = A_Date32"
| "sql_type_to_arrow_type TIMESTAMP = A_TimestampNanosecond"


subsection \<open>Reading a cell\<close>

datatype udf_error = UdfInternal string | UdfExecution string | UdfPanic string

definition as_int16 :: "arrow_array \<Rightarrow> 16 word slot list option" where
  "as_int16 a = (case a of Int16Array xs \<Rightarrow> Some xs | _ \<Rightarrow> None)"

definition as_int32 :: "arrow_array \<Rightarrow> 32 word slot list option" where
  "as_int32 a = (case a of Int32Array xs \<Rightarrow> Some xs | _ \<Rightarrow> None)"

definition as_int64 :: "arrow_array \<Rightarrow> 64 word slot list option" where
  "as_int64 a = (case a of Int64Array xs \<Rightarrow> Some xs | _ \<Rightarrow> None)"

definition as_float32 :: "arrow_array \<Rightarrow> 32 word slot list option" where
  "as_float32 a = (case a of Float32Array xs \<Rightarrow> Some xs | _ \<Rightarrow> None)"

definition as_float64 :: "arrow_array \<Rightarrow> 64 word slot list option" where
  "as_float64 a = (case a of Float64Array xs \<Rightarrow> Some xs | _ \<Rightarrow> None)"

definition as_string :: "arrow_array \<Rightarrow> string slot list option" where
  "as_string a = (case a of StringArray xs \<Rightarrow> Some xs | _ \<Rightarrow> None)"

definition as_boolean :: "arrow_array \<Rightarrow> bool slot list option" where
  "as_boolean a = (case a of BooleanArray xs \<Rightarrow> Some xs | _ \<Rightarrow> None)"

definition as_decimal128 :: "arrow_array \<Rightarrow> 128 word slot list option" where
  "as_decimal128 a = (case a of Decimal128Array _ _ xs \<Rightarrow> Some xs | _ \<Rightarrow> None)"

definition as_date32 :: "arrow_array \<Rightarrow> 32 word slot list option" where
  "as_date32 a = (case a of Date32Array xs \<Rightarrow> Some xs | _ \<Rightarrow> None)"

definition as_timestamp_ns :: "arrow_array \<Rightarrow> 64 word slot list option" where
  "as_timestamp_ns a = (case a of TimestampNanosecondArray xs \<Rightarrow> Some xs | _ \<Rightarrow> None)"

lemmas downcast_defs = as_int16_def as_int32_def as_int64_def as_float32_def as_float64_def as_string_def
  as_boolean_def as_decimal128_def as_date32_def as_timestamp_ns_def

text \<open>The column, its downcast and the value in the row, as every kind of argument is read.\<close>

definition column_value ::
    "string \<Rightarrow> (arrow_array \<Rightarrow> 'n slot list option) \<Rightarrow> arrow_array list \<Rightarrow> nat \<Rightarrow> nat \<Rightarrow> (udf_error, 'n) result" where
  "column_value msg downcast args row_ix col_ix =
     (if length args \<le> col_ix then Inl (UdfPanic ''called `Option::unwrap()` on a `None` value'')
      else bind_res (ok_or (UdfInternal msg) (downcast (args ! col_ix))) (\<lambda>arr.
        if row_ix < length arr then Inr (slot_value (arr ! row_ix))
        else Inl (UdfPanic ''Trying to access an element at index out of bounds'')))"

definition get_arrow_value ::
    "(arrow_array \<Rightarrow> 'n slot list option) \<Rightarrow> arrow_array list \<Rightarrow> nat \<Rightarrow> nat \<Rightarrow> (udf_error, 'n) result" where
  "get_arrow_value = column_value ''Error casting column to array of primitive values''"


subsection \<open>MessagePack values\<close>

text \<open>
  rmpv's \<open>Value\<close>. Its integers are those of \<open>i64\<close> and \<open>u64\<close>, floats are their bits; \<open>as_i64\<close> and the other
  conversions give \<open>None\<close> for a value of another kind or out of range.
\<close>

datatype Value =
    MP_Nil | MP_Boolean bool | MP_Integer int | MP_F32 "32 word" | MP_F64 "64 word" | MP_String string
  | MP_Binary "8 word list" | MP_Array "Value list" | MP_Map "(Value \<times> Value) list" | MP_Ext int "8 word list"

definition as_i64 :: "Value \<Rightarrow> int option" where
  "as_i64 v = (case v of MP_Integer n \<Rightarrow> if - (2 ^ 63) \<le> n \<and> n < 2 ^ 63 then Some n else None | _ \<Rightarrow> None)"

definition as_u64 :: "Value \<Rightarrow> int option" where
  "as_u64 v = (case v of MP_Integer n \<Rightarrow> if 0 \<le> n \<and> n < 2 ^ 64 then Some n else None | _ \<Rightarrow> None)"

definition as_str :: "Value \<Rightarrow> string option" where
  "as_str v = (case v of MP_String s \<Rightarrow> Some s | _ \<Rightarrow> None)"

definition as_bool :: "Value \<Rightarrow> bool option" where
  "as_bool v = (case v of MP_Boolean b \<Rightarrow> Some b | _ \<Rightarrow> None)"

definition as_array :: "Value \<Rightarrow> Value list option" where
  "as_array v = (case v of MP_Array vs \<Rightarrow> Some vs | _ \<Rightarrow> None)"

text \<open>
  What is used of rmp and Arrow: the bytes of a value, the floats nearest to an integer and to an \<open>f32\<close>, and
  whether Arrow accepts a precision and a scale.
\<close>

record codec =
  cd_serialize :: "Value \<Rightarrow> (string, 8 word list) result"
  cd_from_slice :: "8 word list \<Rightarrow> (string, Value) result"
  cd_f64_of_int :: "int \<Rightarrow> 64 word"
  cd_f64_of_f32 :: "32 word \<Rightarrow> 64 word"
  cd_precision_ok :: "8 word \<Rightarrow> 8 word \<Rightarrow> bool"

definition as_f64 :: "codec \<Rightarrow> Value \<Rightarrow> 64 word option" where
  "as_f64 C v = (case v of
      MP_Integer n \<Rightarrow> Some (cd_f64_of_int C n)
    | MP_F32 x \<Rightarrow> Some (cd_f64_of_f32 C x)
    | MP_F64 x \<Rightarrow> Some x
    | _ \<Rightarrow> None)"

text \<open>The two halves of a decimal: \<open>val as i64\<close> and \<open>(val >> 64) as i64\<close> of an \<open>i128\<close>.\<close>

definition decimal_low :: "128 word \<Rightarrow> 64 word" where
  "decimal_low val = ucast val"

definition decimal_high :: "128 word \<Rightarrow> 64 word" where
  "decimal_high val = ucast (signed_drop_bit 64 val)"

definition messagepack_encode_input_value ::
    "CreateFunctionDataType \<Rightarrow> arrow_array list \<Rightarrow> nat \<Rightarrow> nat \<Rightarrow> (udf_error, Value) result" where
  "messagepack_encode_input_value value_type args row_ix col_ix =
     (let i32 = (\<lambda>downcast. bind_res (get_arrow_value downcast args row_ix col_ix) (\<lambda>v. Inr (MP_Integer (sint (v :: 32 word)))));
          i64 = (\<lambda>downcast. bind_res (get_arrow_value downcast args row_ix col_ix) (\<lambda>v. Inr (MP_Integer (sint (v :: 64 word)))));
          f32 = bind_res (get_arrow_value as_float32 args row_ix col_ix) (\<lambda>v. Inr (MP_F32 v));
          f64 = bind_res (get_arrow_value as_float64 args row_ix col_ix) (\<lambda>v. Inr (MP_F64 v));
          str = bind_res (column_value ''Error casting column to string array'' as_string args row_ix col_ix) (\<lambda>v. Inr (MP_String v)) in
      case value_type of
        SMALLINT \<Rightarrow> bind_res (get_arrow_value as_int16 args row_ix col_ix) (\<lambda>v. Inr (MP_Integer (sint v)))
      | I32 \<Rightarrow> i32 as_int32 | INT_T \<Rightarrow> i32 as_int32
      | I64 \<Rightarrow> i64 as_int64 | BIGINT \<Rightarrow> i64 as_int64
      | F32 \<Rightarrow> f32 | FLOAT \<Rightarrow> f32 | REAL \<Rightarrow> f32
      | F64 \<Rightarrow> f64 | DOUBLE \<Rightarrow> f64
      | TEXT \<Rightarrow> str | CHAR_T \<Rightarrow> str | VARCHAR \<Rightarrow> str
      | BOOLEAN \<Rightarrow>
          bind_res (column_value ''Error casting column to boolean array'' as_boolean args row_ix col_ix) (\<lambda>v. Inr (MP_Boolean v))
      | DECIMAL p s \<Rightarrow> bind_res (get_arrow_value as_decimal128 args row_ix col_ix) (\<lambda>val.
          Inr (MP_Array [MP_Integer (uint p), MP_Integer (sint s), MP_Integer (sint (decimal_high val)),
            MP_Integer (sint (decimal_low val))]))
      | DATE \<Rightarrow> i32 as_date32
      | TIMESTAMP \<Rightarrow> i64 as_timestamp_ns)"


subsection \<open>Results\<close>

definition decode_udf_result_primitive_array ::
    "('n slot list \<Rightarrow> arrow_array) \<Rightarrow> Value list \<Rightarrow> (Value \<Rightarrow> (udf_error, 'n) result) \<Rightarrow> (udf_error, arrow_array) result" where
  "decode_udf_result_primitive_array mk encoded_results decoder =
     bind_res (collect_res decoder encoded_results) (\<lambda>xs. Inr (mk (map Valid xs)))"

definition decode_i64 :: "Value \<Rightarrow> (udf_error, int) result" where
  "decode_i64 v = ok_or (UdfInternal ''Expected to find i64 value'') (as_i64 v)"

text \<open>\<open>i16::try_from\<close> and \<open>i32::try_from\<close> of an \<open>i64\<close>.\<close>

definition try_from_i64 :: "nat \<Rightarrow> string \<Rightarrow> int \<Rightarrow> (udf_error, int) result" where
  "try_from_i64 bits msg n = (if - (2 ^ (bits - 1)) \<le> n \<and> n < 2 ^ (bits - 1) then Inr n else Inl (UdfInternal msg))"

definition decode_int :: "nat \<Rightarrow> string \<Rightarrow> Value \<Rightarrow> (udf_error, 'a::len word) result" where
  "decode_int bits msg v = bind_res (decode_i64 v) (\<lambda>n. bind_res (try_from_i64 bits msg n) (\<lambda>n. Inr (word_of_int n)))"

definition decode_long :: "Value \<Rightarrow> (udf_error, 64 word) result" where
  "decode_long v = bind_res (decode_i64 v) (\<lambda>n. Inr (word_of_int n))"

definition decode_decimal :: "8 word \<Rightarrow> 8 word \<Rightarrow> Value \<Rightarrow> (udf_error, 128 word) result" where
  "decode_decimal p s v =
     bind_res (ok_or (UdfInternal ''Expected to find array containing decimal parts'') (as_array v)) (\<lambda>decimal_array.
     if length decimal_array \<noteq> 4 then Inl (UdfInternal ''DECIMAL UDF result array should have 4 elements'')
     else
       bind_res (ok_or (UdfInternal ''Decimal precision expected to be integer'') (as_u64 (decimal_array ! 0))) (\<lambda>p_u64.
       bind_res (if p_u64 < 256 then Inr (word_of_int p_u64 :: 8 word)
                 else Inl (UdfInternal ''Couldn't convert 64-bit precision value to u8'')) (\<lambda>p_u8.
       if p_u8 \<noteq> p then Inl (UdfInternal ''Expected to receive a decimal with another precision'')
       else
         bind_res (ok_or (UdfInternal ''Decimal scale expected to be integer'') (as_u64 (decimal_array ! 1))) (\<lambda>s_u64.
         bind_res (if s_u64 < 128 then Inr (word_of_int s_u64 :: 8 word)
                   else Inl (UdfInternal ''Couldn't convert 64-bit scale value to i8'')) (\<lambda>s_i8.
         if s_i8 \<noteq> s then Inl (UdfInternal ''Expected to receive a decimal with another scale'')
         else
           bind_res (ok_or (UdfInternal ''Decimal value high half expected to be integer'') (as_i64 (decimal_array ! 2))) (\<lambda>high.
           bind_res (ok_or (UdfInternal ''Decimal value low half expected to be integer'') (as_i64 (decimal_array ! 3))) (\<lambda>low.
           if low + high * 2 ^ 64 < - (2 ^ 127) then Inl (UdfPanic ''attempt to add with overflow'')
           else Inr ((word_of_int low :: 128 word) + push_bit 64 (word_of_int high)))))))))"

definition messagepack_decode_results ::
    "codec \<Rightarrow> CreateFunctionDataType \<Rightarrow> Value list \<Rightarrow> (udf_error, arrow_array) result" where
  "messagepack_decode_results C return_type encoded_results =
     (let i32 = decode_udf_result_primitive_array Int32Array encoded_results (decode_int 32 ''Error converting i64 to i32'');
          i64 = decode_udf_result_primitive_array Int64Array encoded_results decode_long;
          f32 = decode_udf_result_primitive_array Float32Array encoded_results
            (\<lambda>v. case v of MP_F32 n \<Rightarrow> Inr n | _ \<Rightarrow> Inl (UdfInternal ''Expected to find f32 value''));
          f64 = decode_udf_result_primitive_array Float64Array encoded_results
            (\<lambda>v. ok_or (UdfInternal ''Expected to find f64 value'') (as_f64 C v));
          str = decode_udf_result_primitive_array StringArray encoded_results
            (\<lambda>v. ok_or (UdfInternal ''Expected to find string value'') (as_str v)) in
      case return_type of
        SMALLINT \<Rightarrow>
          decode_udf_result_primitive_array Int16Array encoded_results (decode_int 16 ''Error converting i64 to i16'')
      | I32 \<Rightarrow> i32 | INT_T \<Rightarrow> i32
      | I64 \<Rightarrow> i64 | BIGINT \<Rightarrow> i64
      | CHAR_T \<Rightarrow> str | VARCHAR \<Rightarrow> str | TEXT \<Rightarrow> str
      | DATE \<Rightarrow> decode_udf_result_primitive_array Date32Array encoded_results
          (decode_int 32 ''Error converting i64 to i32 (for date)'')
      | TIMESTAMP \<Rightarrow> decode_udf_result_primitive_array TimestampNanosecondArray encoded_results decode_long
      | BOOLEAN \<Rightarrow> decode_udf_result_primitive_array BooleanArray encoded_results
          (\<lambda>v. ok_or (UdfInternal ''Expected to find string value'') (as_bool v))
      | F64 \<Rightarrow> f64 | DOUBLE \<Rightarrow> f64
      | F32 \<Rightarrow> f32 | REAL \<Rightarrow> f32 | FLOAT \<Rightarrow> f32
      | DECIMAL p s \<Rightarrow>
          bind_res (decode_udf_result_primitive_array (Decimal128Array p s) encoded_results (decode_decimal p s)) (\<lambda>arr.
          if cd_precision_ok C p s then Inr arr
          else Inl (UdfInternal ''Error setting precision and scale for decimal result'')))"



subsection \<open>The memory of the guest\<close>

text \<open>
  A store of wasmtime: the linear memory that the module exports and the rest of its state. Reading and writing
  fail, without any change, when the range does not fit into the memory.
\<close>

record 's wasm_store =
  ws_memory :: "8 word list"
  ws_guest :: 's

definition memory_read :: "nat \<Rightarrow> nat \<Rightarrow> 's wasm_store \<Rightarrow> (string, 8 word list) result" where
  "memory_read offset n s =
     (if offset + n \<le> length (ws_memory s) then Inr (take n (drop offset (ws_memory s))) else Inl ''out of bounds memory access'')"

definition patch :: "nat \<Rightarrow> 'a list \<Rightarrow> 'a list \<Rightarrow> 'a list" where
  "patch offset bs m = take offset m @ bs @ drop (offset + length bs) m"

definition memory_write :: "nat \<Rightarrow> 8 word list \<Rightarrow> ('s wasm_store, string, unit) st" where
  "memory_write offset bs s =
     (if offset + length bs \<le> length (ws_memory s) then (Inr (), s\<lparr>ws_memory := patch offset bs (ws_memory s)\<rparr>)
      else (Inl ''out of bounds memory access'', s))"

text \<open>\<open>to_ne_bytes\<close> and \<open>from_ne_bytes\<close>, little endian.\<close>

fun le_bytes :: "nat \<Rightarrow> nat \<Rightarrow> 8 word list" where
  "le_bytes 0 n = []"
| "le_bytes (Suc k) n = word_of_nat n # le_bytes k (n div 256)"

fun le_value :: "8 word list \<Rightarrow> nat" where
  "le_value [] = 0"
| "le_value (b # bs) = unat b + 256 * le_value bs"

definition SIZE_BYTE_COUNT :: nat where "SIZE_BYTE_COUNT = 4"


subsection \<open>Calling a function over MessagePack\<close>

text \<open>The exports that \<open>WasmMessagePackUDFInstance::new\<close> looks up; they run on the store.\<close>

record 's msgpack_exports =
  mi_alloc :: "32 word \<Rightarrow> ('s wasm_store, string, 32 word) st"
  mi_dealloc :: "32 word \<times> 32 word \<Rightarrow> ('s wasm_store, string, unit) st"
  mi_udf :: "32 word \<Rightarrow> ('s wasm_store, string, 32 word) st"

datatype wasm_val = W_I32 "32 word" | W_I64 "64 word" | W_F32 "32 word" | W_F64 "64 word" | W_Other string

record ('m, 'i, 's, 'f, 't) wasmtime =
  wt_add_to_linker :: "(string, unit) result"
  wt_from_binary :: "8 word list \<Rightarrow> (string, 'm) result"
  wt_instantiate :: "'m \<Rightarrow> (string, 'i \<times> 's wasm_store) result"
  wt_typed_i32_i32 :: "'i \<Rightarrow> string \<Rightarrow> (string, 32 word \<Rightarrow> ('s wasm_store, string, 32 word) st) result"
  wt_typed_dealloc :: "'i \<Rightarrow> string \<Rightarrow> (string, 32 word \<times> 32 word \<Rightarrow> ('s wasm_store, string, unit) st) result"
  wt_has_memory :: "'i \<Rightarrow> bool"
  wt_instance_new :: "'m \<Rightarrow> (string, 'i \<times> 't) result"
  wt_get_func :: "'i \<Rightarrow> string \<Rightarrow> 'f option"
  wt_call :: "'f \<Rightarrow> wasm_val list \<Rightarrow> ('t, string, wasm_val) st"

definition internal :: "string \<Rightarrow> (string, 'a) result \<Rightarrow> (udf_error, 'a) result" where
  "internal msg r = map_err (\<lambda>e. UdfInternal (msg @ e)) r"

definition get_wasm_module_exported_fn :: "(string, 'a) result \<Rightarrow> (udf_error, 'a) result" where
  "get_wasm_module_exported_fn r = internal ''Required export could not be located in WASM module exports: '' r"

definition udf_instance_new ::
    "('m, 'i, 's, 'f, 't) wasmtime \<Rightarrow> 8 word list \<Rightarrow> string \<Rightarrow> (udf_error, 's msgpack_exports \<times> 's wasm_store) result" where
  "udf_instance_new W module_bytes fname =
     bind_res (internal ''Error linking to WASI modules: '' (wt_add_to_linker W)) (\<lambda>_.
     bind_res (internal ''Error loading WASM module: '' (wt_from_binary W module_bytes)) (\<lambda>module.
     bind_res (internal ''Error instantiating WASM modules '' (wt_instantiate W module)) (\<lambda>(instnc, store).
     bind_res (get_wasm_module_exported_fn (wt_typed_i32_i32 W instnc ''alloc'')) (\<lambda>alloc.
     bind_res (get_wasm_module_exported_fn (wt_typed_dealloc W instnc ''dealloc'')) (\<lambda>dealloc.
     bind_res (get_wasm_module_exported_fn (wt_typed_i32_i32 W instnc fname)) (\<lambda>udf.
     if \<not> wt_has_memory W instnc then Inl (UdfInternal ''could not find module's exported memory'')
     else Inr (\<lparr>mi_alloc = alloc, mi_dealloc = dealloc, mi_udf = udf\<rparr>, store)))))))"

definition map_err_udf :: "string \<Rightarrow> ('s, string, 'a) st \<Rightarrow> ('s, udf_error, 'a) st" where
  "map_err_udf msg m = (\<lambda>s. case m s of (r, s') \<Rightarrow> (internal msg r, s'))"

definition unwrap_i32 :: "int \<Rightarrow> (udf_error, 32 word) result" where
  "unwrap_i32 n = (if - (2 ^ 31) \<le> n \<and> n < 2 ^ 31 then Inr (word_of_int n)
     else Inl (UdfPanic ''called `Result::unwrap()` on an `Err` value: TryFromIntError''))"

definition unwrap_usize :: "32 word \<Rightarrow> (udf_error, nat) result" where
  "unwrap_usize p = (if 0 \<le> sint p then Inr (nat (sint p))
     else Inl (UdfPanic ''called `Result::unwrap()` on an `Err` value: TryFromIntError''))"

definition read_udf_output :: "codec \<Rightarrow> 32 word \<Rightarrow> 's wasm_store \<Rightarrow> (udf_error, Value \<times> 32 word) result" where
  "read_udf_output C udf_output_ptr s =
     bind_res (unwrap_usize udf_output_ptr) (\<lambda>ptr.
     bind_res (internal ''Error reading UDF output buffer size: '' (memory_read ptr SIZE_BYTE_COUNT s)) (\<lambda>size_buffer.
     let size_i32 = sint (word_of_nat (le_value size_buffer) :: 32 word) in
     if size_i32 < 0 then Inl (UdfInternal ''Error interpreting output buffer size as i32'')
     else
       let size = nat size_i32 in
       bind_res (internal ''Error reading output buf: '' (memory_read (ptr + SIZE_BYTE_COUNT) size s)) (\<lambda>output_buffer.
       bind_res (internal ''Error messagepack decoding output buffer: '' (cd_from_slice C output_buffer)) (\<lambda>output.
       bind_res (unwrap_i32 (int (size + SIZE_BYTE_COUNT))) (\<lambda>total. Inr (output, total))))))"

text \<open>The size is written as a \<open>usize\<close>, eight bytes, in front of which only four are kept for it.\<close>

definition write_udf_input ::
    "codec \<Rightarrow> 's msgpack_exports \<Rightarrow> Value \<Rightarrow> ('s wasm_store, udf_error, 32 word \<times> 32 word) st" where
  "write_udf_input C I input =
     bind_st (lift_res (internal ''Error messagepack serializing input '' (cd_serialize C input))) (\<lambda>udf_input_buf.
     let udf_input_size = length udf_input_buf + SIZE_BYTE_COUNT in
     bind_st (lift_res (unwrap_i32 (int udf_input_size))) (\<lambda>size_i32.
     bind_st (map_err_udf ''Error allocating input buffer in WASM memory: '' (mi_alloc I size_i32)) (\<lambda>udf_input_ptr.
     bind_st (lift_res (unwrap_usize udf_input_ptr)) (\<lambda>ptr.
     bind_st (map_err_udf ''Error copying input buffer size to WASM memory: ''
       (memory_write ptr (le_bytes 8 (length udf_input_buf)))) (\<lambda>_.
     bind_st (map_err_udf ''Error copying input buffer to WASM memory: ''
       (memory_write (ptr + SIZE_BYTE_COUNT) udf_input_buf)) (\<lambda>_.
     return_st (udf_input_ptr, size_i32)))))))"

definition udf_call :: "codec \<Rightarrow> 's msgpack_exports \<Rightarrow> Value list \<Rightarrow> ('s wasm_store, udf_error, Value) st" where
  "udf_call C I input =
     bind_st (write_udf_input C I (MP_Array input)) (\<lambda>(udf_input_ptr, input_size).
     bind_st (map_err_udf ''Error invoking WASM UDF: '' (mi_udf I udf_input_ptr)) (\<lambda>udf_output_ptr.
     bind_st (\<lambda>s. (read_udf_output C udf_output_ptr s, s)) (\<lambda>(output, output_size).
     bind_st (map_err_udf ''Error deallocating input buffer: '' (mi_dealloc I (udf_input_ptr, input_size))) (\<lambda>_.
     bind_st (map_err_udf ''Error deallocating output buffer: '' (mi_dealloc I (udf_output_ptr, output_size))) (\<lambda>_.
     return_st output)))))"


subsection \<open>The functions for a column\<close>

text \<open>
  DataFusion's \<open>ColumnarValue\<close>; \<open>to_array_of_size\<close> repeats a scalar.
\<close>

datatype 'sc columnar_value = ColumnarArray arrow_array | ColumnarScalar 'sc

type_synonym 'sc to_array = "'sc \<Rightarrow> nat \<Rightarrow> (string, arrow_array) result"

definition columnar_values_to_array ::
    "'sc to_array \<Rightarrow> 'sc columnar_value list \<Rightarrow> (udf_error, arrow_array list) result" where
  "columnar_values_to_array to_array_of_size args =
     (let inferred_length = fold max (map (\<lambda>v. case v of ColumnarArray a \<Rightarrow> array_len a | ColumnarScalar _ \<Rightarrow> 1) args) 0 in
      collect_res (\<lambda>arg. case arg of
          ColumnarArray a \<Rightarrow> Inr a
        | ColumnarScalar s \<Rightarrow> map_err UdfInternal (to_array_of_size s inferred_length)) args)"

definition udf_row ::
    "codec \<Rightarrow> 's msgpack_exports \<Rightarrow> CreateFunctionDataType list \<Rightarrow> arrow_array list \<Rightarrow> nat \<Rightarrow>
      ('s wasm_store, udf_error, Value) st" where
  "udf_row C I input_types args row_ix =
     bind_st (lift_res (collect_res
       (\<lambda>col_ix. messagepack_encode_input_value (input_types ! col_ix) args row_ix col_ix) [0..<length args])) (\<lambda>params s.
     case udf_call C I params s of
       (Inl (UdfPanic p), s') \<Rightarrow> (Inl (UdfPanic p), s')
     | (Inl _, s') \<Rightarrow> (Inl (UdfInternal ''Error invoking function''), s')
     | (Inr v, s') \<Rightarrow> (Inr v, s'))"

primrec udf_rows ::
    "codec \<Rightarrow> 's msgpack_exports \<Rightarrow> CreateFunctionDataType list \<Rightarrow> arrow_array list \<Rightarrow> nat list \<Rightarrow>
      ('s wasm_store, udf_error, Value list) st" where
  "udf_rows C I input_types args [] = return_st []"
| "udf_rows C I input_types args (row_ix # rows) =
     bind_st (udf_row C I input_types args row_ix) (\<lambda>v.
     bind_st (udf_rows C I input_types args rows) (\<lambda>vs. return_st (v # vs)))"

text \<open>The closure: it loads the module again, so that no state of the guest is kept between two batches.\<close>

definition messagepack_function ::
    "('m, 'i, 's, 'f, 't) wasmtime \<Rightarrow> codec \<Rightarrow> 'sc to_array \<Rightarrow> 8 word list \<Rightarrow> string \<Rightarrow> CreateFunctionDataType list \<Rightarrow>
      CreateFunctionDataType \<Rightarrow> 'sc columnar_value list \<Rightarrow> (udf_error, arrow_array) result" where
  "messagepack_function W C to_array_of_size module_bytes fname input_types return_type args =
     bind_res (map_err (\<lambda>_. UdfInternal ''Error initializing WASM + MessagePack UDF'')
       (udf_instance_new W module_bytes fname)) (\<lambda>(I, store).
     if length args \<noteq> length input_types then Inl (UdfInternal ''Wrong number of arguments for function'')
     else
       bind_res (columnar_values_to_array to_array_of_size args) (\<lambda>args.
       if args = [] then Inl (UdfPanic ''called `Option::unwrap()` on a `None` value'')
       else
         bind_res (fst (udf_rows C I input_types args [0..<array_len (hd args)] store)) (\<lambda>encoded_results.
         messagepack_decode_results C return_type encoded_results)))"

definition make_scalar_function_wasm_messagepack ::
    "('m, 'i, 's, 'f, 't) wasmtime \<Rightarrow> codec \<Rightarrow> 'sc to_array \<Rightarrow> 8 word list \<Rightarrow> string \<Rightarrow> CreateFunctionDataType list \<Rightarrow>
      CreateFunctionDataType \<Rightarrow> (udf_error, 'sc columnar_value list \<Rightarrow> (udf_error, arrow_array) result) result" where
  "make_scalar_function_wasm_messagepack W C to_array_of_size module_bytes fname input_types return_type =
     bind_res (map_err (\<lambda>_. UdfInternal ''Error initializing WASM + MessagePack UDF'')
       (udf_instance_new W module_bytes fname)) (\<lambda>_.
     Inr (messagepack_function W C to_array_of_size module_bytes fname input_types return_type))"

text \<open>Functions over the types of WebAssembly.\<close>

definition wasm_argument :: "ValType \<Rightarrow> arrow_array list \<Rightarrow> nat \<Rightarrow> nat \<Rightarrow> (udf_error, wasm_val) result" where
  "wasm_argument t args row_ix col_ix = (case t of
      V_I32 \<Rightarrow> bind_res (get_arrow_value as_int32 args row_ix col_ix) (\<lambda>v. Inr (W_I32 v))
    | V_I64 \<Rightarrow> bind_res (get_arrow_value as_int64 args row_ix col_ix) (\<lambda>v. Inr (W_I64 v))
    | V_F32 \<Rightarrow> bind_res (get_arrow_value as_float32 args row_ix col_ix) (\<lambda>v. Inr (W_F32 v))
    | V_F64 \<Rightarrow> bind_res (get_arrow_value as_float64 args row_ix col_ix) (\<lambda>v. Inr (W_F64 v)))"

primrec wasm_rows ::
    "(wasm_val list \<Rightarrow> ('t, string, wasm_val) st) \<Rightarrow> ValType list \<Rightarrow> arrow_array list \<Rightarrow> nat list \<Rightarrow>
      ('t, udf_error, wasm_val list) st" where
  "wasm_rows call input_types args [] = return_st []"
| "wasm_rows call input_types args (row_ix # rows) =
     bind_st (lift_res (collect_res (\<lambda>col_ix. wasm_argument (input_types ! col_ix) args row_ix col_ix) [0..<length args])) (\<lambda>params.
     bind_st (\<lambda>s. case call params s of (r, s') \<Rightarrow> (map_err (\<lambda>e. UdfExecution (''Error executing function '' @ e)) r, s')) (\<lambda>v.
     bind_st (wasm_rows call input_types args rows) (\<lambda>vs. return_st (v # vs))))"

text \<open>\<open>unwrap_i32\<close> and the other conversions of a value panic on a value of another type.\<close>

definition unwrap_val :: "(wasm_val \<Rightarrow> 'n option) \<Rightarrow> wasm_val \<Rightarrow> (udf_error, 'n) result" where
  "unwrap_val f v = ok_or (UdfPanic ''expected another type of value'') (f v)"

definition wasm_results :: "ValType \<Rightarrow> wasm_val list \<Rightarrow> (udf_error, arrow_array) result" where
  "wasm_results return_type results =
     (case return_type of
        V_I32 \<Rightarrow> bind_res (collect_res (unwrap_val (\<lambda>v. case v of W_I32 x \<Rightarrow> Some x | _ \<Rightarrow> None)) results) (\<lambda>xs. Inr (Int32Array (map Valid xs)))
      | V_I64 \<Rightarrow> bind_res (collect_res (unwrap_val (\<lambda>v. case v of W_I64 x \<Rightarrow> Some x | _ \<Rightarrow> None)) results) (\<lambda>xs. Inr (Int64Array (map Valid xs)))
      | V_F32 \<Rightarrow> bind_res (collect_res (unwrap_val (\<lambda>v. case v of W_F32 x \<Rightarrow> Some x | _ \<Rightarrow> None)) results) (\<lambda>xs. Inr (Float32Array (map Valid xs)))
      | V_F64 \<Rightarrow> bind_res (collect_res (unwrap_val (\<lambda>v. case v of W_F64 x \<Rightarrow> Some x | _ \<Rightarrow> None)) results) (\<lambda>xs. Inr (Float64Array (map Valid xs))))"

definition wasm_load ::
    "('m, 'i, 's, 'f, 't) wasmtime \<Rightarrow> 8 word list \<Rightarrow> string \<Rightarrow> (udf_error, 'f \<times> 't) result" where
  "wasm_load W module_bytes fname =
     bind_res (internal ''Error loading module: '' (wt_from_binary W module_bytes)) (\<lambda>module.
     bind_res (internal ''Error instantiating module: '' (wt_instance_new W module)) (\<lambda>(instnc, store).
     bind_res (ok_or (UdfInternal ''Error loading function'') (wt_get_func W instnc fname)) (\<lambda>func.
     Inr (func, store))))"

definition wasm_function ::
    "('m, 'i, 's, 'f, 't) wasmtime \<Rightarrow> 'sc to_array \<Rightarrow> 8 word list \<Rightarrow> string \<Rightarrow> ValType list \<Rightarrow> ValType \<Rightarrow>
      'sc columnar_value list \<Rightarrow> (udf_error, arrow_array) result" where
  "wasm_function W to_array_of_size module_bytes fname input_types return_type args =
     bind_res (wasm_load W module_bytes fname) (\<lambda>(func, store).
     if length args \<noteq> length input_types then Inl (UdfPanic ''assertion failed: `(left == right)`'')
     else
       bind_res (columnar_values_to_array to_array_of_size args) (\<lambda>args.
       if args = [] then Inl (UdfPanic ''called `Option::unwrap()` on a `None` value'')
       else
         bind_res (fst (wasm_rows (wt_call W func) input_types args [0..<array_len (hd args)] store)) (\<lambda>results.
         wasm_results return_type results)))"

definition make_scalar_function_from_wasm ::
    "('m, 'i, 's, 'f, 't) wasmtime \<Rightarrow> 'sc to_array \<Rightarrow> 8 word list \<Rightarrow> string \<Rightarrow> ValType list \<Rightarrow> ValType \<Rightarrow>
      (udf_error, 'sc columnar_value list \<Rightarrow> (udf_error, arrow_array) result) result" where
  "make_scalar_function_from_wasm W to_array_of_size module_bytes fname input_types return_type =
     bind_res (wasm_load W module_bytes fname) (\<lambda>_.
     Inr (wasm_function W to_array_of_size module_bytes fname input_types return_type))"

record 'sc scalar_udf =
  udf_name :: string
  udf_input_types :: "udf_type list"
  udf_return_type :: udf_type
  udf_volatility :: CreateFunctionVolatility
  udf_function :: "'sc columnar_value list \<Rightarrow> (udf_error, arrow_array) result"

definition create_udf_from_wasm ::
    "('m, 'i, 's, 'f, 't) wasmtime \<Rightarrow> codec \<Rightarrow> 'sc to_array \<Rightarrow> CreateFunctionLanguage \<Rightarrow> string \<Rightarrow> 8 word list \<Rightarrow> string \<Rightarrow>
      CreateFunctionDataType list \<Rightarrow> CreateFunctionDataType \<Rightarrow> CreateFunctionVolatility \<Rightarrow> (udf_error, 'sc scalar_udf) result" where
  "create_udf_from_wasm W C to_array_of_size language name module_bytes fname input_types return_type volatility =
     bind_res (case language of
         Wasm \<Rightarrow>
           bind_res (collect_res (\<lambda>t. map_err (\<lambda>e. UdfPanic (''called `Result::unwrap()` on an `Err` value: '' @ e)) (get_wasm_type t))
             input_types) (\<lambda>converted_input_types.
           bind_res (map_err UdfInternal (get_wasm_type return_type)) (\<lambda>rt.
           make_scalar_function_from_wasm W to_array_of_size module_bytes fname converted_input_types rt))
       | WasmMessagePack \<Rightarrow>
           make_scalar_function_wasm_messagepack W C to_array_of_size module_bytes fname input_types return_type) (\<lambda>f.
     Inr \<lparr>udf_name = name, udf_input_types = map sql_type_to_arrow_type input_types,
       udf_return_type = sql_type_to_arrow_type return_type, udf_volatility = volatility, udf_function = f\<rparr>)"

subsection \<open>Values survive the encoding\<close>

text \<open>A column with the same values in which nothing is null.\<close>

abbreviation fill_slots :: "'a slot list \<Rightarrow> 'a slot list" where
  "fill_slots xs \<equiv> map (\<lambda>x. Valid (slot_value x)) xs"

fun all_valid :: "arrow_array \<Rightarrow> arrow_array" where
  "all_valid (Int16Array xs) = Int16Array (fill_slots xs)"
| "all_valid (Int32Array xs) = Int32Array (fill_slots xs)"
| "all_valid (Int64Array xs) = Int64Array (fill_slots xs)"
| "all_valid (Float32Array xs) = Float32Array (fill_slots xs)"
| "all_valid (Float64Array xs) = Float64Array (fill_slots xs)"
| "all_valid (StringArray xs) = StringArray (fill_slots xs)"
| "all_valid (BooleanArray xs) = BooleanArray (fill_slots xs)"
| "all_valid (Decimal128Array p s xs) = Decimal128Array p s (fill_slots xs)"
| "all_valid (Date32Array xs) = Date32Array (fill_slots xs)"
| "all_valid (TimestampNanosecondArray xs) = TimestampNanosecondArray (fill_slots xs)"
| "all_valid (OtherArray t n) = OtherArray t n"

lemma sint_bounds:
  fixes x :: "'a::len word"
  shows "- (2 ^ (LENGTH('a) - 1)) \<le> sint x" and "sint x < 2 ^ (LENGTH('a) - 1)"
  using sint_ge [of x] sint_lt [of x] by auto

lemma as_i64_sint [simp]: "as_i64 (MP_Integer (sint (x :: 64 word))) = Some (sint x)"
  using sint_bounds [of x] by (simp add: as_i64_def)

lemma decode_long_sint [simp]: "decode_long (MP_Integer (sint x)) = Inr x"
  by (simp add: decode_long_def decode_i64_def ok_or_def)

lemma decode_int_sint:
  fixes x :: "'a::len word"
  assumes "LENGTH('a) \<le> 64"
  shows "decode_int LENGTH('a) msg (MP_Integer (sint x)) = Inr x"
proof -
  have "(2 :: int) ^ (LENGTH('a) - 1) \<le> 2 ^ 63" by (rule power_increasing) (use assms in auto)
  then show ?thesis
    using sint_bounds [of x] by (simp add: decode_int_def decode_i64_def as_i64_def ok_or_def try_from_i64_def)
qed

lemma decode_int_sint_32 [simp]: "decode_int 32 msg (MP_Integer (sint (x :: 32 word))) = Inr x"
  using decode_int_sint [of msg x] by simp

lemma decode_int_sint_16 [simp]: "decode_int 16 msg (MP_Integer (sint (x :: 16 word))) = Inr x"
  using decode_int_sint [of msg x] by simp

lemma column_value_nth:
  "c < length args \<Longrightarrow> downcast (args ! c) = Some xs \<Longrightarrow> i < length xs \<Longrightarrow>
     column_value msg downcast args i c = Inr (slot_value (xs ! i))"
  by (simp add: column_value_def ok_or_def)

text \<open>One column there and back, for any pair of functions that are inverse on its values.\<close>

lemma column_there_and_back:
  assumes "c < length args" and "downcast (args ! c) = Some xs" and "\<And>x. dec (enc x) = Inr x"
  shows "collect_res (\<lambda>i. bind_res (column_value msg downcast args i c) (\<lambda>v. Inr (enc v))) [0..<length xs] =
      Inr (map (enc \<circ> slot_value) xs) \<and>
    decode_udf_result_primitive_array mk (map (enc \<circ> slot_value) xs) dec = Inr (mk (fill_slots xs))"
proof
  have "collect_res (\<lambda>i. bind_res (column_value msg downcast args i c) (\<lambda>v. Inr (enc v))) [0..<length xs] =
      Inr (map (\<lambda>i. enc (slot_value (xs ! i))) [0..<length xs])"
    by (rule collect_res_map) (simp add: column_value_nth [where downcast = downcast and xs = xs] assms(1,2))
  also have "map (\<lambda>i. enc (slot_value (xs ! i))) [0..<length xs] = map (enc \<circ> slot_value) xs"
    by (rule nth_equalityI) simp_all
  finally show "collect_res (\<lambda>i. bind_res (column_value msg downcast args i c) (\<lambda>v. Inr (enc v))) [0..<length xs] =
      Inr (map (enc \<circ> slot_value) xs)" .
  have "collect_res dec (map (enc \<circ> slot_value) xs) = Inr (map slot_value xs)"
    by (induction xs) (simp_all add: assms(3))
  then show "decode_udf_result_primitive_array mk (map (enc \<circ> slot_value) xs) dec = Inr (mk (fill_slots xs))"
    by (simp add: decode_udf_result_primitive_array_def comp_def)
qed

lemma decode_array_type:
  assumes "messagepack_decode_results C t vs = Inr a"
  shows "array_type a = sql_type_to_arrow_type t \<and> array_len a = length vs"
  using assms
  by (cases t) (auto simp: messagepack_decode_results_def decode_udf_result_primitive_array_def Let_def bind_res_eq_Inr
    collect_res_Inr_iff list_all2_lengthD split: if_splits dest: list_all2_lengthD)

text \<open>
  C20: MessagePack keeps the values of a column. For every type but decimals: the rows of a column of that type can be
  encoded, and decoding them, as the results of a function that returns its argument, gives the column back.
  A null is not kept: it becomes the value of its slot.
\<close>
theorem messagepack_round_trip:
  assumes "c < length args" and "array_type (args ! c) = sql_type_to_arrow_type t" and "\<nexists>p s. t = DECIMAL p s"
  shows "\<exists>vs. collect_res (\<lambda>i. messagepack_encode_input_value t args i c) [0..<array_len (args ! c)] = Inr vs \<and>
    messagepack_decode_results C t vs = Inr (all_valid (args ! c))"
proof -
  have both: "\<exists>vs. collect_res (\<lambda>i. bind_res (column_value msg downcast args i c) (\<lambda>v. Inr (enc v))) [0..<length xs] = Inr vs \<and>
      decode_udf_result_primitive_array mk vs dec = Inr (mk (fill_slots xs))"
    if "downcast (args ! c) = Some xs" "\<And>x. dec (enc x) = Inr x" for msg downcast xs dec and enc :: "'x \<Rightarrow> Value" and mk
    using column_there_and_back [of c args downcast xs dec enc msg mk] assms(1) that by blast
  show ?thesis
    using assms(2,3)
    by (cases t; cases "args ! c"; simp add: messagepack_encode_input_value_def messagepack_decode_results_def Let_def get_arrow_value_def)
      (rule both; simp add: downcast_defs as_str_def as_bool_def as_f64_def ok_or_def)+
qed

text \<open>The part of MessagePack for numbers below 128 and short arrays of them.\<close>

fun small_bytes :: "Value list \<Rightarrow> (string, 8 word list) result" where
  "small_bytes [] = Inr []"
| "small_bytes (MP_Integer n # vs) =
     (if 0 \<le> n \<and> n < 128 then bind_res (small_bytes vs) (\<lambda>bs. Inr (word_of_int n # bs)) else Inl ''too large'')"
| "small_bytes (v # vs) = Inl ''not a number''"

definition small_codec :: codec where
  "small_codec = \<lparr>
     cd_serialize = (\<lambda>v. case v of
         MP_Array vs \<Rightarrow> if length vs < 16 then bind_res (small_bytes vs) (\<lambda>bs. Inr (word_of_nat (144 + length vs) # bs)) else Inl ''too long''
       | v \<Rightarrow> small_bytes [v]),
     cd_from_slice = (\<lambda>bs. case bs of
         [] \<Rightarrow> Inl ''no bytes''
       | b # bs \<Rightarrow>
           if b < 128 then (if bs = [] then Inr (MP_Integer (uint b)) else Inl ''trailing bytes'')
           else if unat b = 144 + length bs \<and> length bs < 16 \<and> list_all (\<lambda>b. b < 128) bs
           then Inr (MP_Array (map (MP_Integer \<circ> uint) bs)) else Inl ''another format''),
     cd_f64_of_int = (\<lambda>_. 0), cd_f64_of_f32 = (\<lambda>_. 0), cd_precision_ok = (\<lambda>p s. 0 < p \<and> p \<le> 38)\<rparr>"

lemma messagepack_round_trip_witness:
  "\<exists>vs. collect_res (\<lambda>i. messagepack_encode_input_value SMALLINT [Int16Array [Valid 7, Null 0, Valid (- 2)]] i 0) [0..<3] = Inr vs \<and>
     messagepack_decode_results small_codec SMALLINT vs = Inr (Int16Array [Valid 7, Valid 0, Valid (- 2)])"
  using messagepack_round_trip [of 0 "[Int16Array [Valid 7, Null 0, Valid (- 2)]]" SMALLINT small_codec] by (simp add: numeral_3_eq_3)


subsection \<open>Decimals\<close>

lemma sint_64: "sint (w :: 64 word) = (if bit w 63 then uint w - 2 ^ 64 else uint w)"
  by transfer (auto simp: signed_take_bit_eq_take_bit_minus)

lemma sint_decimal_low:
  "sint (decimal_low val) = (if bit val 63 then sint val mod 2 ^ 64 - 2 ^ 64 else sint val mod 2 ^ 64)"
proof -
  have "uint (decimal_low val) = sint val mod 2 ^ 64"
    unfolding take_bit_eq_mod [symmetric] decimal_low_def by (rule bit_eqI) (auto simp: bit_simps)
  then show ?thesis unfolding sint_64 by (simp add: decimal_low_def bit_simps)
qed

lemma sint_decimal_high: "sint (decimal_high val) = sint val div 2 ^ 64"
  unfolding drop_bit_eq_div [symmetric] decimal_high_def by (rule bit_eqI) (auto simp: bit_simps min_def)

lemma decimal_halves_sum:
  "sint (decimal_low val) + sint (decimal_high val) * 2 ^ 64 = (if bit val 63 then sint val - 2 ^ 64 else sint val)"
  using mod_div_mult_eq [of "sint val" "2 ^ 64"] unfolding sint_decimal_low sint_decimal_high by (simp split: if_splits)

lemma decimal_halves_word:
  "(word_of_int (sint (decimal_low val)) :: 128 word) + push_bit 64 (word_of_int (sint (decimal_high val))) =
     (if bit val 63 then val - 2 ^ 64 else val)"
proof -
  have "(word_of_int (sint (decimal_low val)) :: 128 word) + push_bit 64 (word_of_int (sint (decimal_high val))) =
      word_of_int (sint (decimal_low val) + sint (decimal_high val) * 2 ^ 64)"
    by (simp add: push_bit_eq_mult)
  then show ?thesis unfolding decimal_halves_sum by simp
qed

text \<open>
  C38: a decimal may change on its way. The low half of a decimal is sent as a signed number and sign-extended when it
  is read back, so that a function that returns its argument returns a number that is smaller by \<open>2 ^ 64\<close> whenever
  bit 63 of the unscaled value is set. A decimal type with a negative scale cannot be returned at all, since the scale is
  sent as a signed number and read as an unsigned one. (The values are those of at most 38 digits.)
\<close>
theorem decimal_round_trip:
  assumes "c < length args" and "args ! c = Decimal128Array p s xs" and "r < length xs" and "val = slot_value (xs ! r)"
    and "\<bar>sint val\<bar> < 10 ^ 38" and "cd_precision_ok C p s"
  shows "bind_res (messagepack_encode_input_value (DECIMAL p s) args r c) (\<lambda>v. messagepack_decode_results C (DECIMAL p s) [v]) =
    (if sint s < 0 then Inl (UdfInternal ''Decimal scale expected to be integer'')
     else Inr (Decimal128Array p s [Valid (if bit val 63 then val - 2 ^ 64 else val)]))"
proof -
  have fits: "\<not> sint (decimal_low val) + sint (decimal_high val) * 2 ^ 64 < - (2 ^ 127)"
    unfolding decimal_halves_sum using assms(5) by (auto simp: abs_less_iff)
  have p: "as_u64 (MP_Integer (uint p)) = Some (uint p)" "uint p < 256" for p :: "8 word"
    using uint_lt2p [of p] by (simp_all add: as_u64_def)
  have s: "as_u64 (MP_Integer (sint s)) = (if sint s < 0 then None else Some (sint s))" "sint s < 128"
    using sint_bounds [of s] by (simp_all add: as_u64_def)
  let ?v = "MP_Array [MP_Integer (uint p), MP_Integer (sint s), MP_Integer (sint (decimal_high val)), MP_Integer (sint (decimal_low val))]"
  have "messagepack_encode_input_value (DECIMAL p s) args r c = Inr ?v"
    using assms(1-4) by (simp add: messagepack_encode_input_value_def get_arrow_value_def as_decimal128_def column_value_def ok_or_def)
  moreover have "decode_decimal p s ?v = (if sint s < 0 then Inl (UdfInternal ''Decimal scale expected to be integer'')
      else Inr (if bit val 63 then val - 2 ^ 64 else val))"
    using fits by (simp add: decode_decimal_def as_array_def ok_or_def p s decimal_halves_word [simplified])
  ultimately show ?thesis
    using assms(6) by (simp add: messagepack_decode_results_def decode_udf_result_primitive_array_def)
qed

lemma decimal_round_trip_witness:
  "bind_res (messagepack_encode_input_value (DECIMAL 20 2) [Decimal128Array 20 2 [Valid (2 ^ 63)]] 0 0)
     (\<lambda>v. messagepack_decode_results small_codec (DECIMAL 20 2) [v]) = Inr (Decimal128Array 20 2 [Valid (- (2 ^ 63))])"
proof -
  have "bit (2 ^ 63 :: 128 word) 63" by (simp add: bit_simps)
  moreover have "sint (2 ^ 63 :: 128 word) = 2 ^ 63" by code_simp
  ultimately show ?thesis
    using decimal_round_trip [of 0 "[Decimal128Array 20 2 [Valid (2 ^ 63)]]" 20 2 "[Valid (2 ^ 63)]" 0 "2 ^ 63" small_codec]
    by (simp add: small_codec_def)
qed

subsection \<open>The bytes of the input\<close>

lemma length_le_bytes [simp]: "length (le_bytes k n) = k"
  by (induction k arbitrary: n) simp_all

lemma le_value_le_bytes: "le_value (le_bytes k n) = n mod 256 ^ k"
proof (induction k arbitrary: n)
  case (Suc k)
  have "unat (word_of_nat n :: 8 word) = n mod 256" by (simp add: unat_of_nat)
  then show ?case using Suc by (simp add: mod_mult2_eq)
qed simp

lemma le_bytes_split: "le_bytes (j + k) n = le_bytes j n @ le_bytes k (n div 256 ^ j)"
  by (induction j arbitrary: n) (simp_all add: div_mult2_eq)

lemma le_bytes_0: "le_bytes k 0 = replicate k 0"
  by (induction k) simp_all

lemma length_patch [simp]: "offset + length bs \<le> length m \<Longrightarrow> length (patch offset bs m) = length m"
  by (simp add: patch_def)

lemma patch_patch:
  assumes "offset + length as + length bs \<le> length m"
  shows "patch (offset + length as) cs (patch offset (as @ bs) m) =
     (if length cs \<le> length bs then patch offset (as @ cs @ drop (length cs) bs) m else patch offset (as @ cs) m)"
  using assms by (auto simp: patch_def drop_Cons' add.commute add.left_commute)

lemma read_patch: "offset + length bs \<le> length m \<Longrightarrow> take (length bs) (drop offset (patch offset bs m)) = bs"
  by (simp add: patch_def)

lemma bind_st_unfold: "m s = (Inr x, s') \<Longrightarrow> bind_st m f s = f x s'"
  by (simp add: bind_st_def)

lemma nth_patch:
  assumes "offset + length bs \<le> length m" and "i < length m"
  shows "patch offset bs m ! i = (if offset \<le> i \<and> i < offset + length bs then bs ! (i - offset) else m ! i)"
  using assms by (auto simp: patch_def nth_append)

text \<open>What is written for an input of the bytes \<open>buf\<close>: its size, the bytes, and what is left of the eight bytes of the size.\<close>

definition input_image :: "8 word list \<Rightarrow> 8 word list" where
  "input_image buf = le_bytes 4 (length buf) @ buf @ replicate (4 - length buf) 0"

lemma length_input_image: "length (input_image buf) = max 8 (4 + length buf)"
  by (simp add: input_image_def)

lemma nth_input_image:
  "k < length (input_image buf) \<Longrightarrow> input_image buf ! k =
     (if k < 4 then le_bytes 4 (length buf) ! k else if k < 4 + length buf then buf ! (k - 4) else 0)"
  unfolding length_input_image by (auto simp: input_image_def nth_append)

lemma nth_patched_input:
  assumes "q + max 8 (4 + length buf) \<le> length m" and "i < length m"
  shows "patch q (input_image buf) m ! i =
    (let k = i - q in
     if i < q then m ! i
     else if k < 4 then le_bytes 4 (length buf) ! k
     else if k < 4 + length buf then buf ! (k - 4)
     else if k < 8 then 0
     else m ! i)"
proof (cases "q \<le> i \<and> i < q + length (input_image buf)")
  case True
  then have k: "i - q < length (input_image buf)" by linarith
  have "patch q (input_image buf) m ! i = input_image buf ! (i - q)"
    using True assms by (simp add: nth_patch length_input_image)
  then show ?thesis unfolding nth_input_image [OF k] Let_def using True k by (simp add: length_input_image less_max_iff_disj) blast
next
  case False
  have "patch q (input_image buf) m ! i = m ! i" using nth_patch [of q "input_image buf" m i] False assms by (auto simp: length_input_image)
  moreover have "i < q \<or> (\<not> i - q < 8 \<and> \<not> i - q < 4 + length buf)" using False by (auto simp: length_input_image)
  ultimately show ?thesis by (auto simp: Let_def)
qed

lemma two_writes:
  assumes "offset + 8 \<le> length m" and "length buf < 2 ^ 32"
  shows "patch (offset + 4) buf (patch offset (le_bytes 8 (length buf)) m) = patch offset (input_image buf) m"
proof -
  have "le_bytes 8 (length buf) = le_bytes 4 (length buf) @ replicate 4 0"
    using le_bytes_split [of 4 4 "length buf"] assms(2) by (simp add: le_bytes_0)
  then show ?thesis
    using patch_patch [of offset "le_bytes 4 (length buf)" "replicate 4 0" m buf] assms(1)
    by (auto simp: input_image_def not_le_imp_less)
qed

lemma nat_sint_word_of_int:
  "0 \<le> n \<Longrightarrow> n < 2 ^ 31 \<Longrightarrow> sint (word_of_int n :: 32 word) = n"
  by (simp add: signed_of_int signed_take_bit_int_eq_self)

lemma write_udf_input_eq:
  assumes "cd_serialize C v = Inr buf" and "length buf + 4 < 2 ^ 31" and "mi_alloc I (word_of_nat (length buf + 4)) s = (Inr p, s1)"
  shows "write_udf_input C I v s =
    (if sint p < 0 then (Inl (UdfPanic ''called `Result::unwrap()` on an `Err` value: TryFromIntError''), s1)
     else if length (ws_memory s1) < nat (sint p) + 8
     then (Inl (UdfInternal ''Error copying input buffer size to WASM memory: out of bounds memory access''), s1)
     else if length (ws_memory s1) < nat (sint p) + 4 + length buf
     then (Inl (UdfInternal ''Error copying input buffer to WASM memory: out of bounds memory access''),
       s1\<lparr>ws_memory := patch (nat (sint p)) (le_bytes 8 (length buf)) (ws_memory s1)\<rparr>)
     else (Inr (p, word_of_nat (length buf + 4)), s1\<lparr>ws_memory := patch (nat (sint p)) (input_image buf) (ws_memory s1)\<rparr>))"
  using assms two_writes [of "nat (sint p)" "ws_memory s1" buf]
  by (auto simp: write_udf_input_def bind_st_def internal_def unwrap_i32_def unwrap_usize_def SIZE_BYTE_COUNT_def map_err_udf_def
    memory_write_def Let_def not_less)

text \<open>
  C21: an input is written past the buffer that was asked for. The guest is asked for four bytes more than the encoded
  arguments have; a successful write leaves in memory the size, the arguments and then zeros up to the eighth byte,
  and changes nothing else. For arguments that take less than four bytes (no arguments, or one small number) the
  zeros are outside the buffer.
\<close>
theorem written_input_layout:
  assumes "write_udf_input C I v s = (Inr (p, n), s')"
  shows "\<exists>buf s1. cd_serialize C v = Inr buf \<and> n = word_of_nat (length buf + 4) \<and> mi_alloc I n s = (Inr p, s1) \<and>
    s' = s1\<lparr>ws_memory := ws_memory s'\<rparr> \<and> length (ws_memory s') = length (ws_memory s1) \<and>
    (\<forall>i<length (ws_memory s1). ws_memory s' ! i =
       (let k = i - nat (sint p) in
        if i < nat (sint p) then ws_memory s1 ! i
        else if k < 4 then le_bytes 4 (length buf) ! k
        else if k < 4 + length buf then buf ! (k - 4)
        else if k < 8 then 0
        else ws_memory s1 ! i))"
proof -
  obtain buf where buf: "cd_serialize C v = Inr buf" "length buf + 4 < 2 ^ 31"
    using assms
    by (cases "cd_serialize C v")
      (auto simp: write_udf_input_def bind_st_eq_Inr internal_def unwrap_i32_def SIZE_BYTE_COUNT_def Let_def split: if_splits)
  obtain r s1 where a: "mi_alloc I (word_of_nat (length buf + 4)) s = (r, s1)" by fastforce
  then obtain q where q: "r = Inr q"
    using assms buf
    by (cases r) (auto simp: write_udf_input_def bind_st_eq_Inr internal_def unwrap_i32_def SIZE_BYTE_COUNT_def map_err_udf_def Let_def)
  note eq = write_udf_input_eq [OF buf a [unfolded q]]
  from assms have p: "q = p" "n = word_of_nat (length buf + 4)" "0 \<le> sint p" "nat (sint p) + 8 \<le> length (ws_memory s1)"
      "nat (sint p) + 4 + length buf \<le> length (ws_memory s1)" "s' = s1\<lparr>ws_memory := patch (nat (sint p)) (input_image buf) (ws_memory s1)\<rparr>"
    unfolding eq by (auto split: if_splits)
  have "length (ws_memory s') = length (ws_memory s1)" using p by (simp add: length_input_image)
  moreover have "ws_memory s' ! i =
      (let k = i - nat (sint p) in
       if i < nat (sint p) then ws_memory s1 ! i
       else if k < 4 then le_bytes 4 (length buf) ! k
       else if k < 4 + length buf then buf ! (k - 4)
       else if k < 8 then 0
       else ws_memory s1 ! i)" if "i < length (ws_memory s1)" for i
    unfolding p(6) using nth_patched_input [OF _ that, of "nat (sint p)" buf] p(4,5) by simp
  ultimately show ?thesis using buf(1) a q p(1,2,6) by auto
qed


subsection \<open>Calls\<close>

text \<open>Arguments that the function takes and whose encoding fits into the address space.\<close>

definition sendable :: "codec \<Rightarrow> (Value list \<Rightarrow> bool) \<Rightarrow> Value list \<Rightarrow> bool" where
  "sendable C args_ok vs \<longleftrightarrow> args_ok vs \<and>
     (case cd_serialize C (MP_Array vs) of Inl _ \<Rightarrow> False | Inr buf \<Rightarrow> length buf + 4 < 2 ^ 31)"

text \<open>
  What a guest has to promise. After \<open>alloc\<close> there is room for the buffer, and for eight bytes in any case; writing
  them does no harm. On a memory with encoded arguments the function leaves the encoding of its
  result. \<open>ok\<close> is the invariant of the guest.
\<close>

locale msgpack_guest =
  fixes I :: "'s msgpack_exports" and C :: codec and f :: "Value list \<Rightarrow> Value"
    and args_ok :: "Value list \<Rightarrow> bool" and ok :: "'s wasm_store \<Rightarrow> bool"
  assumes alloc: "ok s \<Longrightarrow> 0 \<le> sint n \<Longrightarrow> \<exists>p s'. mi_alloc I n s = (Inr p, s') \<and> 0 \<le> sint p \<and>
      nat (sint p) + max 8 (nat (sint n)) \<le> length (ws_memory s') \<and>
      (\<forall>bs. length bs = max 8 (nat (sint n)) \<longrightarrow> ok (s'\<lparr>ws_memory := patch (nat (sint p)) bs (ws_memory s')\<rparr>))"
    and udf: "ok s \<Longrightarrow> args_ok vs \<Longrightarrow> cd_serialize C (MP_Array vs) = Inr buf \<Longrightarrow> 0 \<le> sint p \<Longrightarrow>
      memory_read (nat (sint p)) (4 + length buf) s = Inr (le_bytes 4 (length buf) @ buf) \<Longrightarrow>
      \<exists>q s' out. mi_udf I p s = (Inr q, s') \<and> ok s' \<and> 0 \<le> sint q \<and> length out + 4 < 2 ^ 31 \<and> cd_from_slice C out = Inr (f vs) \<and>
        memory_read (nat (sint q)) (4 + length out) s' = Inr (le_bytes 4 (length out) @ out)"
    and dealloc: "ok s \<Longrightarrow> \<exists>s'. mi_dealloc I pn s = (Inr (), s') \<and> ok s'"
begin

lemma write_ok:
  assumes "ok s" and "cd_serialize C v = Inr buf" and "length buf + 4 < 2 ^ 31"
  shows "\<exists>p s'. write_udf_input C I v s = (Inr (p, word_of_nat (length buf + 4)), s') \<and> ok s' \<and> 0 \<le> sint p \<and>
    memory_read (nat (sint p)) (4 + length buf) s' = Inr (le_bytes 4 (length buf) @ buf)"
proof -
  have n: "sint (word_of_nat (length buf + 4) :: 32 word) = int (length buf + 4)"
    using nat_sint_word_of_int [of "int (length buf + 4)"] assms(3) by simp
  from alloc [OF assms(1), of "word_of_nat (length buf + 4)"] n
  obtain p s1 where a: "mi_alloc I (word_of_nat (length buf + 4)) s = (Inr p, s1)" and p: "0 \<le> sint p"
    and room: "nat (sint p) + max 8 (length buf + 4) \<le> length (ws_memory s1)"
    and safe: "\<And>bs. length bs = max 8 (length buf + 4) \<Longrightarrow> ok (s1\<lparr>ws_memory := patch (nat (sint p)) bs (ws_memory s1)\<rparr>)"
    by auto
  let ?s = "s1\<lparr>ws_memory := patch (nat (sint p)) (input_image buf) (ws_memory s1)\<rparr>"
  have "write_udf_input C I v s = (Inr (p, word_of_nat (length buf + 4)), ?s)"
    unfolding write_udf_input_eq [OF assms(2,3) a] using p room by auto
  moreover have "ok ?s" by (rule safe) (simp add: length_input_image)
  moreover have "memory_read (nat (sint p)) (4 + length buf) ?s = Inr (le_bytes 4 (length buf) @ buf)"
    using room by (simp add: memory_read_def patch_def input_image_def)
  ultimately show ?thesis using p by blast
qed

lemma read_ok:
  assumes "0 \<le> sint q" and "length out + 4 < 2 ^ 31" and "cd_from_slice C out = Inr v"
    and mem: "memory_read (nat (sint q)) (4 + length out) s = Inr (le_bytes 4 (length out) @ out)"
  shows "read_udf_output C q s = Inr (v, word_of_nat (length out + 4))"
proof -
  let ?q = "nat (sint q)"
  have room: "?q + 4 + length out \<le> length (ws_memory s)" and bytes: "take (4 + length out) (drop ?q (ws_memory s)) = le_bytes 4 (length out) @ out"
    using mem by (auto simp: memory_read_def split: if_splits)
  have "take 4 (drop ?q (ws_memory s)) = take 4 (take (4 + length out) (drop ?q (ws_memory s)))" by simp
  then have head: "take 4 (drop ?q (ws_memory s)) = le_bytes 4 (length out)" unfolding bytes by simp
  have "take (length out) (drop (?q + 4) (ws_memory s)) = drop 4 (take (4 + length out) (drop ?q (ws_memory s)))"
    by (simp add: drop_take add.commute)
  then have rest: "take (length out) (drop (?q + 4) (ws_memory s)) = out" unfolding bytes by simp
  have size: "sint (word_of_nat (le_value (le_bytes 4 (length out))) :: 32 word) = int (length out)"
    using nat_sint_word_of_int [of "int (length out)"] assms(2) by (simp add: le_value_le_bytes)
  show ?thesis
    using assms(1-3) room
    by (simp add: read_udf_output_def unwrap_usize_def unwrap_i32_def SIZE_BYTE_COUNT_def memory_read_def internal_def head rest size)
qed

lemma call_ok:
  assumes "ok s" and "sendable C args_ok vs"
  shows "\<exists>s'. udf_call C I vs s = (Inr (f vs), s') \<and> ok s'"
proof -
  from assms(2) obtain buf where vs: "args_ok vs" and buf: "cd_serialize C (MP_Array vs) = Inr buf" "length buf + 4 < 2 ^ 31"
    by (auto simp: sendable_def split: sum.splits)
  from write_ok [OF assms(1) buf] obtain p s1 where w: "write_udf_input C I (MP_Array vs) s = (Inr (p, word_of_nat (length buf + 4)), s1)"
    and s1: "ok s1" "0 \<le> sint p" "memory_read (nat (sint p)) (4 + length buf) s1 = Inr (le_bytes 4 (length buf) @ buf)" by blast
  from udf [OF s1(1) vs buf(1) s1(2,3)] obtain q s2 out where u: "mi_udf I p s1 = (Inr q, s2)" and s2: "ok s2"
    and out: "0 \<le> sint q" "length out + 4 < 2 ^ 31" "cd_from_slice C out = Inr (f vs)"
      "memory_read (nat (sint q)) (4 + length out) s2 = Inr (le_bytes 4 (length out) @ out)" by blast
  from dealloc [OF s2] obtain s3 where d1: "mi_dealloc I (p, word_of_nat (length buf + 4)) s2 = (Inr (), s3)" and s3: "ok s3" by blast
  from dealloc [OF s3] obtain s4 where d2: "mi_dealloc I (q, word_of_nat (length out + 4)) s3 = (Inr (), s4)" and s4: "ok s4" by blast
  have "udf_call C I vs s = (Inr (f vs), s4)"
    by (simp add: udf_call_def bind_st_def w u d1 d2 map_err_udf_def internal_def read_ok [OF out] del: of_nat_add)
  with s4 show ?thesis by blast
qed

lemma rows_ok:
  assumes "ok s" and "\<And>i. i \<in> set rows \<Longrightarrow> sendable C args_ok (params i) \<and>
    collect_res (\<lambda>c. messagepack_encode_input_value (input_types ! c) args i c) [0..<length args] = Inr (params i)"
  shows "fst (udf_rows C I input_types args rows s) = Inr (map (\<lambda>i. f (params i)) rows)"
  using assms
proof (induction rows arbitrary: s)
  case (Cons i rows)
  from call_ok [OF Cons.prems(1), of "params i"] Cons.prems(2) [of i]
  obtain s' where c: "udf_call C I (params i) s = (Inr (f (params i)), s')" and s': "ok s'" by auto
  have "udf_row C I input_types args i s = (Inr (f (params i)), s')"
    using Cons.prems(2) [of i] c by (simp add: udf_row_def bind_st_def)
  moreover from Cons.IH [OF s'] Cons.prems(2) have "fst (udf_rows C I input_types args rows s') = Inr (map (\<lambda>i. f (params i)) rows)"
    by simp
  then obtain s'' where "udf_rows C I input_types args rows s' = (Inr (map (\<lambda>i. f (params i)) rows), s'')"
    by (cases "udf_rows C I input_types args rows s'") simp
  ultimately show ?case by (simp add: bind_st_def)
qed simp

end

subsection \<open>A guest\<close>

text \<open>
  A function that returns its only argument, over \<open>small_codec\<close>: the buffer is at the start of the memory, which
  grows as needed; the result replaces the input.
\<close>

definition first_guest :: "unit msgpack_exports" where
  "first_guest = \<lparr>
     mi_alloc = (\<lambda>n s. (Inr 0, s\<lparr>ws_memory := ws_memory s @ replicate (max 8 (nat (sint n)) - length (ws_memory s)) 0\<rparr>)),
     mi_dealloc = (\<lambda>_ s. (Inr (), s)),
     mi_udf = (\<lambda>p s.
       let q = nat (sint p) in
       if q + 6 \<le> length (ws_memory s)
       then (Inr p, s\<lparr>ws_memory := patch q (le_bytes 4 1 @ [ws_memory s ! (q + 5)]) (ws_memory s)\<rparr>)
       else (Inl ''out of bounds memory access'', s))\<rparr>"

lemma small_one:
  assumes "length vs = 1" and "cd_serialize small_codec (MP_Array vs) = Inr buf"
  obtains b where "vs = [MP_Integer (uint b)]" and "b < 128" and "buf = [145, b]"
proof -
  obtain v where vs: "vs = [v]" using assms(1) by (cases vs) auto
  with assms(2) obtain n where n: "v = MP_Integer n" "0 \<le> n" "n < 128" "buf = [145, word_of_int n]"
    by (cases v) (auto simp: small_codec_def split: if_splits)
  have u: "uint (word_of_int n :: 8 word) = n" using n by (simp add: unsigned_of_int take_bit_int_eq_self)
  show thesis
    by (rule that [of "word_of_int n"]) (use vs n u in \<open>simp_all add: word_less_def\<close>)
qed

interpretation first_guest: msgpack_guest first_guest small_codec hd "\<lambda>vs. length vs = 1" "\<lambda>_. True"
proof unfold_locales
  show "\<exists>p s'. mi_alloc first_guest n s = (Inr p, s') \<and> 0 \<le> sint p \<and>
      nat (sint p) + max 8 (nat (sint n)) \<le> length (ws_memory s') \<and>
      (\<forall>bs. length bs = max 8 (nat (sint n)) \<longrightarrow> True)" for n s
    by (simp add: first_guest_def) arith
  show "\<exists>q s' out. mi_udf first_guest p s = (Inr q, s') \<and> True \<and> 0 \<le> sint q \<and> length out + 4 < 2 ^ 31 \<and>
      cd_from_slice small_codec out = Inr (hd vs) \<and>
      memory_read (nat (sint q)) (4 + length out) s' = Inr (le_bytes 4 (length out) @ out)"
    if vs: "length vs = 1" "cd_serialize small_codec (MP_Array vs) = Inr buf" and p: "0 \<le> sint p"
      and mem: "memory_read (nat (sint p)) (4 + length buf) s = Inr (le_bytes 4 (length buf) @ buf)" for p vs buf s
  proof -
    obtain b where b: "vs = [MP_Integer (uint b)]" "b < 128" "buf = [145, b]" by (rule small_one [OF vs])
    let ?q = "nat (sint p)"
    have room: "?q + 6 \<le> length (ws_memory s)" and bytes: "take 6 (drop ?q (ws_memory s)) = le_bytes 4 (Suc (Suc 0)) @ [145, b]"
      using mem by (auto simp: memory_read_def b(3) split: if_splits)
    have "ws_memory s ! (?q + 5) = take 6 (drop ?q (ws_memory s)) ! 5" using room by simp
    then have arg: "ws_memory s ! (?q + 5) = b" unfolding bytes by (simp add: nth_append)
    let ?s = "s\<lparr>ws_memory := patch ?q (le_bytes 4 1 @ [b]) (ws_memory s)\<rparr>"
    have "mi_udf first_guest p s = (Inr p, ?s)" using room by (simp add: first_guest_def arg)
    moreover have "memory_read ?q (4 + length [b]) ?s = Inr (le_bytes 4 (length [b]) @ [b])"
      using room by (simp add: memory_read_def patch_def)
    moreover have "cd_from_slice small_codec [b] = Inr (hd vs)" using b by (simp add: small_codec_def)
    ultimately show ?thesis using p by (intro exI [of _ p] exI [of _ ?s] exI [of _ "[b]"]) simp
  qed
qed (simp add: first_guest_def)


subsection \<open>The function over a column\<close>


definition first_wasmtime :: "(unit, unit, unit, unit, unit) wasmtime" where
  "first_wasmtime = \<lparr>wt_add_to_linker = Inr (), wt_from_binary = (\<lambda>_. Inr ()),
     wt_instantiate = (\<lambda>_. Inr ((), \<lparr>ws_memory = [], ws_guest = ()\<rparr>)),
     wt_typed_i32_i32 = (\<lambda>_ name. Inr (if name = ''alloc'' then mi_alloc first_guest else mi_udf first_guest)),
     wt_typed_dealloc = (\<lambda>_ _. Inr (mi_dealloc first_guest)), wt_has_memory = (\<lambda>_. True),
     wt_instance_new = (\<lambda>_. Inr ((), ())), wt_get_func = (\<lambda>_ _. Some ()), wt_call = (\<lambda>_ vs s. (Inr (hd vs), s))\<rparr>"


lemma written_input_layout_witness:
  "ws_memory (snd (write_udf_input small_codec first_guest (MP_Array []) \<lparr>ws_memory = replicate 8 255, ws_guest = ()\<rparr>)) ! 6 = 0"
proof -
  let ?s = "\<lparr>ws_memory = replicate 8 255, ws_guest = ()\<rparr>"
  have w: "write_udf_input small_codec first_guest (MP_Array []) ?s =
      (Inr (0, 5), snd (write_udf_input small_codec first_guest (MP_Array []) ?s))"
    by code_simp
  from written_input_layout [OF w] obtain buf s1 where "cd_serialize small_codec (MP_Array []) = Inr buf"
    and "mi_alloc first_guest 5 ?s = (Inr 0, s1)"
    and "\<forall>i<length (ws_memory s1). ws_memory (snd (write_udf_input small_codec first_guest (MP_Array []) ?s)) ! i =
       (let k = i - nat (sint (0 :: 32 word)) in
        if i < nat (sint (0 :: 32 word)) then ws_memory s1 ! i
        else if k < 4 then le_bytes 4 (length buf) ! k
        else if k < 4 + length buf then buf ! (k - 4)
        else if k < 8 then 0
        else ws_memory s1 ! i)"
    by blast
  then show ?thesis by (auto simp: small_codec_def first_guest_def)
qed

text \<open>
  The language \<open>wasm\<close> panics on unsupported arguments. The result type of such a function is checked and a type
  without a counterpart in WebAssembly is an error; the same type among the arguments is unwrapped.
\<close>
theorem wasm_language_panics:
  "create_udf_from_wasm W C tas Wasm name mb fname [t] rt vol =
     (case get_wasm_type t of
        Inl e \<Rightarrow> Inl (UdfPanic (''called `Result::unwrap()` on an `Err` value: '' @ e))
      | Inr vt \<Rightarrow> (case get_wasm_type rt of
          Inl e \<Rightarrow> Inl (UdfInternal e)
        | Inr vr \<Rightarrow> bind_res (wasm_load W mb fname) (\<lambda>_. Inr \<lparr>udf_name = name, udf_input_types = [sql_type_to_arrow_type t],
            udf_return_type = sql_type_to_arrow_type rt, udf_volatility = vol, udf_function = wasm_function W tas mb fname [vt] vr\<rparr>)))"
  by (auto simp: create_udf_from_wasm_def make_scalar_function_from_wasm_def split: sum.splits)
     (cases "wasm_load W mb fname"; simp)+

end
