(* ===== verification/Spec2Isabelle.thy ===== *)
theory Spec2Isabelle
  imports FlightHandler HttpFrontend FilterPushdown HttpStore DFParserCorrect Logical ObjectStores WasmUdf
begin

text \<open>
  Seafowl: a verification library for the database server under \<open>src/\<close>.

  \<^bold>\<open>The program.\<close> Seafowl answers SQL over HTTP and Flight. A statement is parsed
  (\<open>src/datafusion/parser.rs\<close>), planned (\<open>src/context\<close>) and run by DataFusion over tables that are kept as
  Delta tables in an object store, which is read through an on-disk cache (\<open>src/object_store/cache.rs\<close>). The
  names of databases, collections, tables and functions live in a metadata database: the repository
  (\<open>src/repository\<close>) writes its rows and the catalog (\<open>src/catalog\<close>) turns them into names and errors for the
  rest of the program. The HTTP frontend (\<open>src/frontend/http.rs\<close>) checks a request against the access policy
  (\<open>src/auth.rs\<close>) before it runs it. Remote tables get the filters of a query as SQL text
  (\<open>datafusion_remote_tables/src/filter_pushdown.rs\<close>). Change sets of other systems arrive over Flight; the
  sync writer (\<open>src/frontend/flight/sync\<close>) squashes them, keeps them in memory and flushes them to the Delta
  tables.

  \<^bold>\<open>Conventions.\<close> \<open>Prelude\<close> has results (\<open>Inl\<close> an error, \<open>Inr\<close> a value), state transformers with errors (a
  method on \<open>&mut self\<close> that returns a \<open>Result\<close>: what was changed before an early return stays changed),
  insertion-ordered maps and machine words. A panic of the source is an error value of its own. Code of other
  packages is a parameter, most often a record of functions: the Arrow kernels and DataFusion's pruning
  (\<open>SyncSquash\<close>, \<open>SyncPrune\<close>), the lake with its clock (\<open>SyncWriter\<close>), the methods of sqlparser (\<open>DFParser\<close>),
  the inner object store (\<open>ObjectCache\<close>), the HTTP client and the parsing of URLs (\<open>HttpStore\<close>, \<open>ObjectStores\<close>),
  DataFusion's printing (\<open>FilterPushdown\<close>), hashing and planning (\<open>HttpFrontend\<close>), its SQL planner and optimizer
  (\<open>Logical\<close>), wasmtime and the MessagePack format (\<open>WasmUdf\<close>), the JSON of a field (\<open>Repository\<close>). What the proofs need of such a parameter are the
  assumptions of a locale (\<open>arrow\<close>, \<open>pruning\<close>, \<open>cursor\<close>, \<open>range_store\<close>, \<open>parquet_writer\<close>, \<open>delta_lake\<close>,
  \<open>object_store\<close>, \<open>rename_store\<close>, \<open>msgpack_guest\<close>) or premises
  of the theorem; each locale is interpreted on a concrete implementation, which the witnesses run. A statement of
  the planner is a state transformer on a \<open>world\<close>: the metadata database, the lake, and the tables and functions
  that the session knows.

  \<^bold>\<open>Theories, in the order of the data flow.\<close>

  \<^item> \<open>SyncSchema\<close> (\<open>sync/schema.rs\<close>, \<open>sync/mod.rs\<close>): column roles, validation of the schema of a change set,
    access to its columns.
  \<^item> \<open>SyncSquash\<close>, \<open>SyncSquashLoop\<close>, \<open>SyncSquashCorrect\<close> (\<open>squash_batches\<close> of \<open>sync/utils.rs\<close>): the loop that
    merges the chains of changes of one row, the transposition and the gather. The squashed batch has the
    effect of the original rows on a table (with at most one \<open>Changed\<close> column), never has more rows, and
    the two cases where the code loses an update or panics are stated as theorems.
  \<^item> \<open>SyncPlan\<close> (\<open>apply_sync\<close> of \<open>sync/writer.rs\<close>) and \<open>SyncPrune\<close> (\<open>construct_qualifier\<close>,
    \<open>get_prune_map\<close> and the qualifiers of \<open>sync/utils.rs\<close>): the query that applies a change set, and the choice
    of the files that the flush rewrites; no file with an affected row is left out.
  \<^item> \<open>SyncWriter\<close>, \<open>SyncDurability\<close> (\<open>sync/writer.rs\<close>): queues of syncs and transactions, sequence
    numbers, flush decisions, commits. A step relation interleaves \<open>enqueue_sync\<close> and \<open>flush_syncs\<close> calls,
    failing ones included, in any order; the theorems speak of all reachable states: what is reported durable
    has been committed, the sizes add up, flushing drains the queue.
  \<^item> \<open>FlightHandler\<close> (\<open>frontend/flight/handler.rs\<close>, \<open>sql.rs\<close>, \<open>flush_task\<close> of \<open>sync/mod.rs\<close>): requests with changes,
    the background flush and the results of queries. Runs of the service are explained by histories of the writer:
    what a client is told to be durable is in the lake, and the results of a query are delivered once.
  \<^item> \<open>Auth\<close> (\<open>auth.rs\<close>, access settings of \<open>config/schema.rs\<close>) and \<open>HttpFrontend\<close> (\<open>frontend/http.rs\<close>): policies,
    principals, header parsing, the handlers of the two query routes and of the upload. A statement only runs
    when the policy allows it, and the cached route only runs reads.
  \<^item> \<open>FilterPushdown\<close>: the visitor with its stack; the text it leaves is the rendering of the expression tree,
    and where that rendering loses parentheses.
  \<^item> \<open>ObjectCache\<close>: chunked reads, batching of missing chunks, the cache as a map; under any cache contents that
    agree with the store a read returns the bytes of the object, and how a failed write breaks that agreement.
  \<^item> \<open>DFParser\<close>, \<open>DFParserCorrect\<close>: every method of \<open>DFParser\<close> over the methods of sqlparser. Its loops take
    fuel; the number of tokens plus three is enough, and more fuel changes nothing.
  \<^item> \<open>Repository\<close> (\<open>repository/default.rs\<close>, \<open>interface.rs\<close>, \<open>sqlite.rs\<close>, \<open>postgres.rs\<close> and the migrations): the
    tables with generated ids, unique keys, references and cascades, and every query on them, for both
    dialects. \<open>RepositoryInvariant\<close> has the step relation of the queries and the invariant of its reachable
    states, \<open>RepositoryCorrect\<close> what the single queries do.
  \<^item> \<open>Catalog\<close> (\<open>catalog/repository.rs\<close> and the other stores of \<open>catalog\<close>, \<open>gc_databases\<close> of \<open>utils.rs\<close>): the
    store over the trait object \<open>Repository\<close>. \<open>CatalogSpec\<close> states the abstract catalog, a map from names,
    and the locale \<open>repository_contract\<close> with what the store relies on; \<open>CatalogStore\<close> interprets it on the
    queries of \<open>Repository\<close>, which gives the refinement for any sequence of commands; \<open>CatalogList\<close> shows
    what listing and garbage collection do.
  \<^item> \<open>FunctionStore\<close> (\<open>wasm_udf/data_types.rs\<close>, the functions of \<open>catalog/metastore.rs\<close>): the details of a
    user-defined function as columns of the metadata, and what is read back from them.
  \<^item> \<open>WasmUdf\<close> (\<open>wasm_udf/wasm.rs\<close>): arguments and results of user-defined functions in WebAssembly and MessagePack,
    the bytes in the memory of the guest, the functions that DataFusion runs. A function is applied to every
    row; values survive the encoding, with decimals and the size of short inputs as the exceptions.
  \<^item> \<open>DeltaWrite\<close> (\<open>plan_to_object_store\<close> of \<open>context/delta.rs\<close>, \<open>object_store/utils.rs\<close>): the loop that cuts
    the batches of a plan into partition files, and their upload. The files are the chunks of the rows, however
    the rows are batched; an upload stores the bytes of its file and nothing else.
  \<^item> \<open>Context\<close> (\<open>context/mod.rs\<close>, \<open>catalog/metastore.rs\<close>, \<open>provider.rs\<close>): the session that a statement
    sees. Its theorem joins the repository, the listing and the providers: a name resolves to the uuid of the
    catalog.
  \<^item> \<open>DeltaDml\<close> (\<open>INSERT\<close>, \<open>UPDATE\<close>, \<open>DELETE\<close> and \<open>TRUNCATE\<close> of \<open>context/physical.rs\<close>): the whole handlers, from the
    lookup of the table to the version in the catalog. The locale \<open>delta_lake\<close> states what they rely on of
    DataFusion and delta-rs; the theorems give the rows of the table afterwards.
  \<^item> \<open>Ddl\<close> (the handlers of DDL statements, \<open>create_delta_table\<close>, \<open>file_to_table\<close>): object store, catalog and
    session are changed one after the other. A statement that succeeds refines a command of the abstract catalog; a
    created table is found at once; and what stays behind when the last step fails.
  \<^item> \<open>SqlTypes\<close> (\<open>datafusion/utils.rs\<close>): the Arrow types of the columns of a statement. The types of a created
    schema are well formed, with decimals as the exception: their arguments are cast to eight bits.
  \<^item> \<open>Logical\<close> (\<open>context/logical.rs\<close>, \<open>nodes.rs\<close>, \<open>datafusion/visit.rs\<close>, \<open>version.rs\<close>): the plan of every kind of
    statement, and the rewriting of versioned table names. Planning and running are composed: a rename statement
    renames the table of the catalog, and a versioned name reads the version it asks for.
  \<^item> \<open>HttpStore\<close> (\<open>object_store/http.rs\<close>): requests with ranges, the checks of the answers, escaped URLs; read
    through the cache it returns the bytes of the resource.
  \<^item> \<open>ObjectStores\<close> (\<open>object_store_factory\<close>, \<open>object_store/factory.rs\<close>, \<open>wrapped.rs\<close>): options and settings of the
    kinds of stores, the stores of table locations and their cache, and the store of the internal tables, whose
    commits never overwrite a file.

  \<^bold>\<open>Bounds.\<close> Sequence numbers, uuids and the maximal partition size are words. Sizes, row counts and timestamps are
  natural numbers or integers where the code cannot overflow in practice and no claim depends on the width.
  Casts to \<open>u8\<close> and \<open>i8\<close> (\<open>SqlTypes\<close>) wrap, subtractions on \<open>usize\<close> in \<open>HttpStore\<close> panic below zero.
  Only the parser uses fuel. The loop over the rows of a batch is a partial function that is shown to end for every
  partition size but zero; all other loops run over lists.

  \<^bold>\<open>Not modelled.\<close> Threads: the locks and channels make the modelled operations atomic, so that an
  interleaving is a sequence of them; the uploads of partition files run concurrently, but on different objects.
  Logging, metrics other than those of the sync writer, tracing and process start (\<open>main.rs\<close>, \<open>cli\<close>) only do
  input and output. Query planning and execution belong to DataFusion and delta-rs, the execution of WASM
  to wasmtime; of the code that wraps them the execution of \<open>CREATE EXTERNAL TABLE\<close> and \<open>COPY\<close>,
  \<open>system_tables.rs\<close>, the start of the Flight server and its metrics, the printing of plan nodes, the reading of configuration files and the
  registration of object stores in a session are not modelled.
\<close>

end
